(* ===== verification/Prelude.thy ===== *)
theory Prelude
  imports Main "HOL-Library.Word"
begin

text \<open>
  The shared vocabulary of the development: the machine integers of the C code, the ways a
  C function of the kernel can end, and the macros and enumerations of
  \<open>include/truth/types.h\<close> and \<open>include/truth/memory.h\<close>.

  The kernel is compiled for x86-64, so \<open>size_t\<close>, \<open>uintptr_t\<close>, \<open>phys_addr\<close>, \<open>unsigned long\<close>
  and every pointer are 64-bit words; \<open>unsigned int\<close> is a 32-bit word and \<open>char\<close> is signed.
\<close>

unbundle bit_operations_syntax

named_theorems res_simps \<open>evaluation of the result monad\<close>
named_theorems word_facts \<open>conversions between words and natural numbers\<close>

type_synonym u8 = "8 word"
type_synonym u16 = "16 word"
type_synonym u32 = "32 word"
type_synonym u64 = "64 word"
type_synonym phys_addr = u64

text \<open>How a call ends. \<open>Ret\<close> is a return; \<open>Panic\<close> is a failed \<open>assert\<close>
  (\<open>panic\<close> disables interrupts and halts); \<open>Fault\<close> is an access through \<open>NULL\<close>, to an
  unmapped page or beyond the end of an object; \<open>Hang\<close> is a loop that never leaves.\<close>

datatype 'a res = Ret 'a | Panic | Fault | Hang

primrec res_bind :: "'a res \<Rightarrow> ('a \<Rightarrow> 'b res) \<Rightarrow> 'b res" where
  "res_bind (Ret x) f = f x"
| "res_bind Panic f = Panic"
| "res_bind Fault f = Fault"
| "res_bind Hang f = Hang"

declare res_bind.simps [res_simps]

definition kassert :: "bool \<Rightarrow> unit res" where
  "kassert b = (if b then Ret () else Panic)"

definition deref :: "'a option \<Rightarrow> 'a res" where
  "deref x = (case x of None \<Rightarrow> Fault | Some v \<Rightarrow> Ret v)"

fun returns :: "'a res \<Rightarrow> bool" where
  "returns (Ret _) = True"
| "returns _ = False"

lemma res_bind_Ret_iff:
  "res_bind m f = Ret y \<longleftrightarrow> (\<exists>x. m = Ret x \<and> f x = Ret y)"
  by (cases m) auto

lemma res_bind_assoc [simp]:
  "res_bind (res_bind m f) g = res_bind m (\<lambda>x. res_bind (f x) g)"
  by (cases m) auto

lemma res_bind_Ret_right [simp]: "res_bind m Ret = m"
  by (cases m) auto

lemma kassert_simps [simp, res_simps]:
  "kassert True = Ret ()" "kassert False = Panic"
  by (simp_all add: kassert_def)

lemma kassert_bind [res_simps]: "res_bind (kassert b) f = (if b then f () else Panic)"
  by (simp add: kassert_def)

lemma kassert_Ret_iff [simp]: "kassert b = Ret u \<longleftrightarrow> b"
  by (simp add: kassert_def)

lemma deref_simps [simp, res_simps]: "deref None = Fault" "deref (Some v) = Ret v"
  by (simp_all add: deref_def)

lemma deref_Ret_iff [simp]: "deref x = Ret v \<longleftrightarrow> x = Some v"
  by (cases x) auto

lemma returns_iff: "returns m \<longleftrightarrow> (\<exists>x. m = Ret x)"
  by (cases m) auto

lemma res_bind_cong [fundef_cong]:
  "m = m' \<Longrightarrow> (\<And>x. m' = Ret x \<Longrightarrow> f x = f' x) \<Longrightarrow> res_bind m f = res_bind m' f'"
  by (cases m') auto

text \<open>A loop over a list of values, for its effect on the state.\<close>

primrec for_each :: "('b \<Rightarrow> 's \<Rightarrow> 's res) \<Rightarrow> 'b list \<Rightarrow> 's \<Rightarrow> 's res" where
  "for_each f [] s = Ret s"
| "for_each f (x # xs) s = res_bind (f x s) (for_each f xs)"

subsection \<open>Lists\<close>

lemma length_filter_update:
  "i < length xs \<Longrightarrow>
   length (filter P (xs[i := y])) + (if P (xs ! i) then 1 else 0) =
   length (filter P xs) + (if P y then 1 else 0)"
proof (induction xs arbitrary: i)
  case (Cons x xs)
  then show ?case by (cases i) auto
qed simp

lemma length_filter_remove:
  "i < length xs \<Longrightarrow>
   length (filter P (take i xs @ drop (Suc i) xs)) + (if P (xs ! i) then 1 else 0) =
   length (filter P xs)"
proof (induction xs arbitrary: i)
  case (Cons x xs)
  then show ?case by (cases i) auto
qed simp

lemma find_upt_Some: "find P [0..<n] = Some i \<Longrightarrow> i < n \<and> P i \<and> (\<forall>j < i. \<not> P j)"
  by (fastforce simp: find_Some_iff)

lemma find_SomeD: "find P xs = Some x \<Longrightarrow> x \<in> set xs \<and> P x"
  by (auto simp: find_Some_iff)

lemma find_upt_None: "find P [0..<n] = None \<longleftrightarrow> (\<forall>j < n. \<not> P j)"
  by (auto simp: find_None_iff)

subsection \<open>Counting loops over machine words\<close>

text \<open>A loop \<open>for (i = start; i < n; ++i)\<close> over \<open>size_t\<close> ends: the distance to \<open>n\<close> shrinks,
  and the increment cannot wrap below \<open>n\<close>.\<close>

lemma unat_Suc_less: "i < n \<Longrightarrow> unat (i + 1) = Suc (unat i)" for i n :: "'a::len word"
  by unat_arith

lemma word_loop_measure [simp]: "i < n \<Longrightarrow> unat (n - (i + 1)) < unat (n - i)"
  for i n :: "'a::len word"
  by unat_arith

lemma word_Suc_le: "i < n \<Longrightarrow> i + 1 \<le> n" for i n :: "'a::len word"
  by unat_arith

lemma all_word_from_step:
  "i < n \<Longrightarrow> (\<forall>k. i \<le> k \<longrightarrow> k < n \<longrightarrow> P k) \<longleftrightarrow> P i \<and> (\<forall>k. i + 1 \<le> k \<longrightarrow> k < n \<longrightarrow> P k)"
  for i n :: "'a::len word"
proof -
  assume lt: "i < n"
  have "i \<le> k \<longleftrightarrow> k = i \<or> i + 1 \<le> k" for k using lt by unat_arith
  then show ?thesis using lt by auto
qed

lemma word_less_Suc_iff: "i < n \<Longrightarrow> k < i + 1 \<longleftrightarrow> k < i \<or> k = i" for i n k :: "'a::len word"
  by unat_arith

lemma sint_eq_iff [simp]: "sint a = sint b \<longleftrightarrow> a = b" for a b :: "'a::len word"
  by (auto intro: signed_word_eqI)

lemma sint_eq_0_iff [simp]: "sint a = 0 \<longleftrightarrow> a = 0" for a :: "'a::len word"
  by (metis sint_0 sint_eq_iff)

subsection \<open>\<open>include/truth/types.h\<close>\<close>

datatype partial = Partial_Equal | Partial_Not_Equal

datatype order = Order_Equal | Order_Greater | Order_Less

datatype status =
    Ok | Error_No_Memory | Error_Invalid | Error_Permissions | Error_Present | Error_Absent
  | Error_Full | Error_Empty | Error_Go_Sit_By_A_Lake | Error_Count

primrec status_code :: "status \<Rightarrow> nat" where
  "status_code Ok = 0"
| "status_code Error_No_Memory = 1"
| "status_code Error_Invalid = 2"
| "status_code Error_Permissions = 3"
| "status_code Error_Present = 4"
| "status_code Error_Absent = 5"
| "status_code Error_Full = 6"
| "status_code Error_Empty = 7"
| "status_code Error_Go_Sit_By_A_Lake = 8"
| "status_code Error_Count = 9"

definition status_messages :: "string list" where
  "status_messages =
     [''Ok'', ''Not enough memory'', ''Invalid'', ''Permissions'', ''Already present'',
      ''Absent'', ''Full'', ''Empty'', ''Go sit by a lake'']"

definition status_message :: "status \<Rightarrow> string" where
  "status_message s =
     (if status_code s \<ge> status_code Error_Count then ''Bad error''
      else status_messages ! status_code s)"

text \<open>The alignment macros. C evaluates them in the (unsigned) type of their operands.\<close>

definition align_as :: "u64 \<Rightarrow> u64 \<Rightarrow> u64" where
  "align_as value alignment = value AND NOT (alignment - 1)"

definition is_power_of_two :: "u64 \<Rightarrow> bool" where
  "is_power_of_two value \<longleftrightarrow> (value - 1) AND value = 0"

definition is_aligned :: "u64 \<Rightarrow> u64 \<Rightarrow> bool" where
  "is_aligned value alignment \<longleftrightarrow> value AND (alignment - 1) = 0"

definition round_next :: "u64 \<Rightarrow> u64 \<Rightarrow> u64" where
  "round_next x y = (x + (y - 1)) AND NOT (y - 1)"

subsection \<open>\<open>include/truth/memory.h\<close>\<close>

definition KB :: u64 where "KB = 0x400"
definition MB :: u64 where "MB = 0x100000"
definition GB :: u64 where "GB = 0x40000000"

definition Page_Small :: u64 where "Page_Small = 4 * KB"
definition Page_Medium :: u64 where "Page_Medium = 2 * MB"
definition Page_Large :: u64 where "Page_Large = GB"

definition Memory_No_Attributes :: u64 where "Memory_No_Attributes = 0"
definition Memory_Present :: u64 where "Memory_Present = push_bit 0 1"
definition Memory_User_Access :: u64 where "Memory_User_Access = push_bit 2 1"
definition Memory_No_Execute :: u64 where "Memory_No_Execute = push_bit 63 1"
definition Memory_Writable :: u64 where "Memory_Writable = push_bit 1 1 OR Memory_No_Execute"
definition Memory_Permissions_Mask :: u64 where
  "Memory_Permissions_Mask = 0x8000000000000fff"

definition Lower_Half_Start :: u64 where "Lower_Half_Start = Page_Small"
definition Lower_Half_End :: u64 where "Lower_Half_End = 0x00007fffffffffff"
definition Higher_Half_Start :: u64 where "Higher_Half_Start = 0xffff800000000000"
definition Higher_Half_End :: u64 where "Higher_Half_End = NOT 0"
definition Memory_Kernel_Set_Mask :: u64 where "Memory_Kernel_Set_Mask = 0xffffffff80000000"
definition Memory_User_Clear_Mask :: u64 where "Memory_User_Clear_Mask = 0x00007fffffffffff"

definition memory_is_lower_half :: "u64 \<Rightarrow> bool" where
  "memory_is_lower_half address \<longleftrightarrow> address \<le> Lower_Half_End"

lemma Page_Small_eq [simp]: "Page_Small = 0x1000"
  by (simp add: Page_Small_def KB_def)

lemmas memory_attribute_defs =
  Memory_No_Attributes_def Memory_Present_def Memory_User_Access_def Memory_No_Execute_def
  Memory_Writable_def Memory_Permissions_Mask_def

end
