(* ===== verification/Kstring.thy ===== *)
theory Kstring
  imports Prelude
begin

text \<open>
  \<open>kernel/core/string.c\<close>: the byte and string routines, over a flat memory that gives the
  byte at every address. A pointer is an address; \<open>p[i]\<close> is the byte at \<open>p + i\<close>, with the
  wrap-around of 64-bit addition. The \<open>user_\<close> variants bracket the plain routine with the
  \<open>stac\<close> and \<open>clac\<close> instructions of \<open>kernel/arch/x64/memory.c\<close>, which set and clear the AC
  flag; the model keeps that flag beside the memory.
\<close>

type_synonym mem = "u64 \<Rightarrow> u8"

record cpu_mem =
  bytes :: mem
  flag_ac :: bool

subsection \<open>The routines\<close>

function memcmp_loop :: "mem \<Rightarrow> u64 \<Rightarrow> u64 \<Rightarrow> u64 \<Rightarrow> u64 \<Rightarrow> int" where
  "memcmp_loop m ac bc sz i =
     (if i < sz then
        (if sint (m (ac + i)) > sint (m (bc + i)) then -1
         else if sint (m (ac + i)) < sint (m (bc + i)) then 1
         else memcmp_loop m ac bc sz (i + 1))
      else 0)"
  by pat_completeness auto
termination
  by (relation "measure (\<lambda>(m, ac, bc, sz, i). unat (sz - i))") auto

definition memcmp :: "mem \<Rightarrow> u64 \<Rightarrow> u64 \<Rightarrow> u64 \<Rightarrow> int" where
  "memcmp m a b sz = memcmp_loop m a b sz 0"

function memcpy_loop :: "mem \<Rightarrow> u64 \<Rightarrow> u64 \<Rightarrow> u64 \<Rightarrow> u64 \<Rightarrow> mem" where
  "memcpy_loop m dst src sz i =
     (if i < sz then memcpy_loop (m(dst + i := m (src + i))) dst src sz (i + 1) else m)"
  by pat_completeness auto
termination
  by (relation "measure (\<lambda>(m, dst, src, sz, i). unat (sz - i))") auto

definition memcpy :: "mem \<Rightarrow> u64 \<Rightarrow> u64 \<Rightarrow> u64 \<Rightarrow> u64 \<times> mem" where
  "memcpy m dst src sz = (dst, memcpy_loop m dst src sz 0)"

function memset_loop :: "mem \<Rightarrow> u64 \<Rightarrow> u8 \<Rightarrow> u64 \<Rightarrow> u64 \<Rightarrow> mem" where
  "memset_loop m buf c sz i =
     (if i < sz then memset_loop (m(buf + i := c)) buf c sz (i + 1) else m)"
  by pat_completeness auto
termination
  by (relation "measure (\<lambda>(m, buf, c, sz, i). unat (sz - i))") auto

definition memset :: "mem \<Rightarrow> u64 \<Rightarrow> u32 \<Rightarrow> u64 \<Rightarrow> u64 \<times> mem" where
  "memset m buf value sz = (buf, memset_loop m buf (ucast value) sz 0)"

function memmove_down :: "mem \<Rightarrow> u64 \<Rightarrow> u64 \<Rightarrow> u64 \<Rightarrow> mem" where
  "memmove_down m dst src i =
     (if i \<noteq> 0 then memmove_down (m(dst + (i - 1) := m (src + (i - 1)))) dst src (i - 1) else m)"
  by pat_completeness auto
termination
  by (relation "measure (\<lambda>(m, dst, src, i). unat i)") (auto, unat_arith)

definition memmove :: "mem \<Rightarrow> u64 \<Rightarrow> u64 \<Rightarrow> u64 \<Rightarrow> u64 \<times> mem" where
  "memmove m dst src sz =
     (if dst < src then (dst, memcpy_loop m dst src sz 0) else (dst, memmove_down m dst src sz))"

function strncmp_loop :: "mem \<Rightarrow> u64 \<Rightarrow> u64 \<Rightarrow> u64 \<Rightarrow> u64 \<Rightarrow> int" where
  "strncmp_loop m s1 s2 n i =
     (if i < n then
        (let difference = sint (m (s1 + i)) - sint (m (s2 + i)) in
         if difference \<noteq> 0 then difference
         else if m (s1 + i) = 0 \<or> m (s2 + i) = 0 then 0
         else strncmp_loop m s1 s2 n (i + 1))
      else 0)"
  by pat_completeness auto
termination
  by (relation "measure (\<lambda>(m, s1, s2, n, i). unat (n - i))") auto

definition strncmp :: "mem \<Rightarrow> u64 \<Rightarrow> u64 \<Rightarrow> u64 \<Rightarrow> int" where
  "strncmp m s1 s2 n = strncmp_loop m s1 s2 n 0"

partial_function (option) strlen_loop :: "mem \<Rightarrow> u64 \<Rightarrow> u64 \<Rightarrow> u64 option" where
  "strlen_loop m str ret =
     (if m (str + ret) \<noteq> 0 then strlen_loop m str (ret + 1) else Some ret)"

definition strlen :: "mem \<Rightarrow> u64 \<Rightarrow> u64 res" where
  "strlen m str = (case strlen_loop m str 0 of None \<Rightarrow> Hang | Some r \<Rightarrow> Ret r)"

subsection \<open>Access to user memory\<close>

definition memory_user_access_enable :: "cpu_mem \<Rightarrow> cpu_mem" where
  "memory_user_access_enable s = s\<lparr>flag_ac := True\<rparr>"

definition memory_user_access_disable :: "cpu_mem \<Rightarrow> cpu_mem" where
  "memory_user_access_disable s = s\<lparr>flag_ac := False\<rparr>"

definition user_memcmp :: "cpu_mem \<Rightarrow> u64 \<Rightarrow> u64 \<Rightarrow> u64 \<Rightarrow> int \<times> cpu_mem" where
  "user_memcmp s a b sz =
     (let s1 = memory_user_access_enable s;
          ret = memcmp (bytes s1) a b sz
      in (ret, memory_user_access_disable s1))"

definition user_memcpy :: "cpu_mem \<Rightarrow> u64 \<Rightarrow> u64 \<Rightarrow> u64 \<Rightarrow> u64 \<times> cpu_mem" where
  "user_memcpy s dst src sz =
     (let s1 = memory_user_access_enable s;
          (ret, m) = memcpy (bytes s1) dst src sz
      in (ret, memory_user_access_disable (s1\<lparr>bytes := m\<rparr>)))"

definition user_memset :: "cpu_mem \<Rightarrow> u64 \<Rightarrow> u32 \<Rightarrow> u64 \<Rightarrow> u64 \<times> cpu_mem" where
  "user_memset s buf value sz =
     (let s1 = memory_user_access_enable s;
          (ret, m) = memset (bytes s1) buf value sz
      in (ret, memory_user_access_disable (s1\<lparr>bytes := m\<rparr>)))"

definition user_memmove :: "cpu_mem \<Rightarrow> u64 \<Rightarrow> u64 \<Rightarrow> u64 \<Rightarrow> u64 \<times> cpu_mem" where
  "user_memmove s dst src sz =
     (let s1 = memory_user_access_enable s;
          (ret, m) = memmove (bytes s1) dst src sz
      in (ret, memory_user_access_disable (s1\<lparr>bytes := m\<rparr>)))"

definition user_strncmp :: "cpu_mem \<Rightarrow> u64 \<Rightarrow> u64 \<Rightarrow> u64 \<Rightarrow> int \<times> cpu_mem" where
  "user_strncmp s s1p s2p n =
     (let s1 = memory_user_access_enable s;
          ret = strncmp (bytes s1) s1p s2p n
      in (ret, memory_user_access_disable s1))"

definition user_strlen :: "cpu_mem \<Rightarrow> u64 \<Rightarrow> (u64 \<times> cpu_mem) res" where
  "user_strlen s str =
     (let s1 = memory_user_access_enable s in
      res_bind (strlen (bytes s1) str) (\<lambda>ret. Ret (ret, memory_user_access_disable s1)))"

declare memcmp_loop.simps [simp del] memcpy_loop.simps [simp del] memset_loop.simps [simp del]
  memmove_down.simps [simp del] strncmp_loop.simps [simp del]

subsection \<open>What the copying routines leave in memory\<close>

text \<open>The offset of an address inside a block decides whether a loop over the block writes it.\<close>

lemma offset_eq_iff: "x = buf + i \<longleftrightarrow> x - buf = i" for x buf i :: u64
  by (auto simp: algebra_simps)

lemma offset_step:
  "i < sz \<Longrightarrow> (i \<le> k \<and> k < sz) \<longleftrightarrow> k = i \<or> (i + 1 \<le> k \<and> k < sz)" for i k sz :: u64
  by unat_arith

lemma memset_loop_at:
  "i \<le> sz \<Longrightarrow>
   memset_loop m buf c sz i x = (if i \<le> x - buf \<and> x - buf < sz then c else m x)"
proof (induction m buf c sz i rule: memset_loop.induct)
  case (1 m buf c sz i)
  show ?case
  proof (cases "i < sz")
    case True
    have "memset_loop (m(buf + i := c)) buf c sz (i + 1) x =
        (if i + 1 \<le> x - buf \<and> x - buf < sz then c else (m(buf + i := c)) x)"
      by (rule 1(1) [OF True word_Suc_le [OF True]])
    with True show ?thesis
      by (subst memset_loop.simps) (auto simp: offset_step [OF True] offset_eq_iff)
  next
    case False
    with "1.prems" show ?thesis by (subst memset_loop.simps) auto
  qed
qed

text \<open>The forward copy reads \<open>src + i\<close> at step \<open>i\<close>: it copies the block as it was at the start
  when no later read falls on an address already written.\<close>

lemma memcpy_loop_at:
  assumes "i \<le> sz"
    and "\<And>j k. i \<le> j \<Longrightarrow> j < k \<Longrightarrow> k < sz \<Longrightarrow> src + k \<noteq> dst + j"
  shows "memcpy_loop m dst src sz i x =
     (if i \<le> x - dst \<and> x - dst < sz then m (src + (x - dst)) else m x)"
  using assms
proof (induction m dst src sz i rule: memcpy_loop.induct)
  case (1 m dst src sz i)
  show ?case
  proof (cases "i < sz")
    case True
    have ih: "memcpy_loop (m(dst + i := m (src + i))) dst src sz (i + 1) x =
        (if i + 1 \<le> x - dst \<and> x - dst < sz
         then (m(dst + i := m (src + i))) (src + (x - dst))
         else (m(dst + i := m (src + i))) x)"
    proof (rule 1(1) [OF True word_Suc_le [OF True]])
      fix j k :: u64
      assume "i + 1 \<le> j" "j < k" "k < sz"
      moreover from this(1) True have "i \<le> j" by unat_arith
      ultimately show "src + k \<noteq> dst + j" by (intro "1.prems"(2))
    qed
    have "src + (x - dst) \<noteq> dst + i" if "i + 1 \<le> x - dst" "x - dst < sz"
    proof (rule "1.prems"(2))
      show "i < x - dst" using that(1) True by unat_arith
    qed (use that in auto)
    with ih show ?thesis
      using True by (subst memcpy_loop.simps) (auto simp: offset_step [OF True] offset_eq_iff)
  next
    case False
    with "1.prems"(1) show ?thesis by (subst memcpy_loop.simps) auto
  qed
qed

lemma memmove_down_at:
  assumes "\<And>j k. j < k \<Longrightarrow> k < i \<Longrightarrow> src + j \<noteq> dst + k"
  shows "memmove_down m dst src i x =
     (if x - dst < i then m (src + (x - dst)) else m x)"
  using assms
proof (induction m dst src i rule: memmove_down.induct)
  case (1 m dst src i)
  show ?case
  proof (cases "i = 0")
    case True
    then show ?thesis by (subst memmove_down.simps) auto
  next
    case False
    let ?m = "m(dst + (i - 1) := m (src + (i - 1)))"
    have ih: "memmove_down ?m dst src (i - 1) x =
        (if x - dst < i - 1 then ?m (src + (x - dst)) else ?m x)"
    proof (rule 1(1) [OF False])
      fix j k :: u64
      assume "j < k" "k < i - 1"
      moreover from this(2) False have "k < i" by unat_arith
      ultimately show "src + j \<noteq> dst + k" by (intro "1.prems")
    qed
    have "src + (x - dst) \<noteq> dst + (i - 1)" if "x - dst < i - 1"
    proof (rule "1.prems" [OF that])
      show "i - 1 < i" using False by unat_arith
    qed
    moreover have "x - dst < i \<longleftrightarrow> x - dst = i - 1 \<or> x - dst < i - 1"
      using False by unat_arith
    ultimately show ?thesis
      using ih False by (subst memmove_down.simps) (auto simp: offset_eq_iff)
  qed
qed

lemma forward_copy_safe:
  fixes src dst sz j k :: u64
  assumes "dst \<le> src \<or> unat src + unat sz \<le> unat dst"
    and "unat src + unat sz \<le> 2 ^ 64" "unat dst + unat sz \<le> 2 ^ 64"
    and "j < k" "k < sz"
  shows "src + k \<noteq> dst + j"
proof -
  have "unat (src + k) = unat src + unat k" "unat (dst + j) = unat dst + unat j"
    using assms by (auto simp: unat_word_ariths word_less_nat_alt)
  moreover have "unat src + unat k \<noteq> unat dst + unat j"
    using assms by (auto simp: word_less_nat_alt word_le_nat_alt)
  ultimately show ?thesis by metis
qed

lemma backward_copy_safe:
  fixes src dst sz j k :: u64
  assumes "src \<le> dst" "unat dst + unat sz \<le> 2 ^ 64" "j < k" "k < sz"
  shows "src + j \<noteq> dst + k"
proof -
  have "unat (src + j) = unat src + unat j" "unat (dst + k) = unat dst + unat k"
    using assms by (auto simp: unat_word_ariths word_less_nat_alt word_le_nat_alt)
  moreover have "unat src + unat j \<noteq> unat dst + unat k"
    using assms by (auto simp: word_less_nat_alt word_le_nat_alt)
  ultimately show ?thesis by metis
qed

lemma memset_at:
  "memset m buf value sz = (buf, \<lambda>x. if x - buf < sz then ucast value else m x)"
  by (auto simp: memset_def memset_loop_at)

lemma memcpy_at:
  assumes "dst \<le> src \<or> unat src + unat sz \<le> unat dst"
    and "unat src + unat sz \<le> 2 ^ 64" "unat dst + unat sz \<le> 2 ^ 64"
  shows "memcpy m dst src sz = (dst, \<lambda>x. if x - dst < sz then m (src + (x - dst)) else m x)"
  unfolding memcpy_def
  by (auto simp: memcpy_loop_at forward_copy_safe [OF assms])

text \<open>(C1) \<open>memmove\<close> copies the source block as it was before the call, however the two
  blocks overlap, returns the destination and changes no byte outside the destination block;
  the blocks must not run past the end of the address space.\<close>

theorem memmove_correct:
  assumes "unat src + unat sz \<le> 2 ^ 64" "unat dst + unat sz \<le> 2 ^ 64"
  shows "memmove m dst src sz = (dst, \<lambda>x. if x - dst < sz then m (src + (x - dst)) else m x)"
proof (cases "dst < src")
  case True
  then have "dst \<le> src \<or> unat src + unat sz \<le> unat dst" by (simp add: less_imp_le)
  note safe = forward_copy_safe [OF this assms]
  from True show ?thesis by (auto simp: memmove_def memcpy_loop_at safe)
next
  case False
  then have "src \<le> dst" by simp
  note safe = backward_copy_safe [OF this assms(2)]
  from False show ?thesis by (auto simp: memmove_def memmove_down_at safe)
qed

theorem memmove_correct_witness:
  "unat (100::u64) + unat (8::u64) \<le> 2 ^ 64 \<and> unat (102::u64) + unat (8::u64) \<le> 2 ^ 64 \<and>
   snd (memmove (\<lambda>a. ucast a) 102 100 8) 109 = 107"
proof -
  have h: "unat (100::u64) + unat (8::u64) \<le> 2 ^ 64" "unat (102::u64) + unat (8::u64) \<le> 2 ^ 64"
    by simp_all
  show ?thesis using h memmove_correct [OF h, of "\<lambda>a. ucast a"] by simp
qed

subsection \<open>What the comparing routines decide\<close>

lemma memcmp_loop_zero_iff:
  "memcmp_loop m a b sz i = 0 \<longleftrightarrow> (\<forall>k. i \<le> k \<longrightarrow> k < sz \<longrightarrow> m (a + k) = m (b + k))"
proof (induction m a b sz i rule: memcmp_loop.induct)
  case (1 m a b sz i)
  show ?case
  proof (cases "i < sz \<and> m (a + i) = m (b + i)")
    case True
    then have "(memcmp_loop m a b sz (i + 1) = 0) =
        (\<forall>k. i + 1 \<le> k \<longrightarrow> k < sz \<longrightarrow> m (a + k) = m (b + k))"
      using 1 by simp
    with True show ?thesis
      by (subst memcmp_loop.simps) (auto simp: all_word_from_step [of i sz])
  next
    case False
    then show ?thesis
      by (subst memcmp_loop.simps) (force simp: order.antisym not_less)
  qed
qed

lemma memcmp_loop_differ:
  "i \<le> k \<Longrightarrow> k < sz \<Longrightarrow> m (a + k) \<noteq> m (b + k) \<Longrightarrow>
   (\<And>j. i \<le> j \<Longrightarrow> j < k \<Longrightarrow> m (a + j) = m (b + j)) \<Longrightarrow>
   memcmp_loop m a b sz i = (if sint (m (a + k)) > sint (m (b + k)) then -1 else 1)"
proof (induction m a b sz i rule: memcmp_loop.induct)
  case (1 m a b sz i)
  from "1.prems"(1,2) have lt: "i < sz" by simp
  show ?case
  proof (cases "k = i")
    case True
    with "1.prems" lt show ?thesis
      by (subst memcmp_loop.simps) (auto simp: not_less order.order_iff_strict)
  next
    case False
    with "1.prems"(1) have ik: "i < k" by simp
    then have eq: "m (a + i) = m (b + i)" using "1.prems"(4) by simp
    have "memcmp_loop m a b sz (i + 1) =
        (if sint (m (a + k)) > sint (m (b + k)) then -1 else 1)"
    proof (rule 1(1) [OF lt])
      fix j assume "i + 1 \<le> j" "j < k"
      moreover from this(1) ik have "i \<le> j" by unat_arith
      ultimately show "m (a + j) = m (b + j)" by (intro "1.prems"(4))
    qed (use "1.prems" eq ik in \<open>auto intro: word_Suc_le\<close>)
    with lt eq show ?thesis by (subst memcmp_loop.simps) simp
  qed
qed

text \<open>\<open>memcmp\<close> returns 0 exactly when the two blocks are equal; otherwise the first
  differing byte decides, and the block whose byte is the greater as a signed \<open>char\<close> gives
  -1.\<close>

theorem memcmp_correct:
  "(memcmp m a b sz = 0 \<longleftrightarrow> (\<forall>k. k < sz \<longrightarrow> m (a + k) = m (b + k))) \<and>
   (\<forall>k. k < sz \<longrightarrow> m (a + k) \<noteq> m (b + k) \<longrightarrow> (\<forall>j. j < k \<longrightarrow> m (a + j) = m (b + j)) \<longrightarrow>
        memcmp m a b sz = (if sint (m (a + k)) > sint (m (b + k)) then -1 else 1))"
  by (simp add: memcmp_def memcmp_loop_zero_iff memcmp_loop_differ)

theorem memcmp_correct_witness:
  "memcmp (\<lambda>a. if a = 5 then 7 else 3) 0 4 3 = 1"
proof -
  have eq: "j < 1 \<Longrightarrow> j = (0::u64)" for j by unat_arith
  show ?thesis
    using memcmp_correct [of "\<lambda>a. if a = 5 then 7 else 3" 0 4 3]
    by (auto dest!: spec [of _ "1::u64"] eq)
qed

definition first_nul :: "mem \<Rightarrow> u64 \<Rightarrow> u64 \<Rightarrow> bool" where
  "first_nul m p n \<longleftrightarrow> m (p + n) = 0 \<and> (\<forall>k < n. m (p + k) \<noteq> 0)"

lemma strlen_loop_first_nul:
  assumes "first_nul m p n" "i \<le> n"
  shows "strlen_loop m p i = Some n"
  using assms(2)
proof (induction "unat (n - i)" arbitrary: i)
  case 0
  then have "i = n" by unat_arith
  with assms show ?case by (subst strlen_loop.simps) (simp add: first_nul_def)
next
  case (Suc d)
  then have lt: "i < n" by unat_arith
  with Suc(2) have "d = unat (n - (i + 1))" by unat_arith
  from Suc(1) [OF this word_Suc_le [OF lt]] lt assms(1) show ?case
    by (subst strlen_loop.simps) (auto simp: first_nul_def)
qed

lemma strlen_loop_bounded:
  "strlen_loop m p i = Some r \<Longrightarrow> m (p + r) = 0"
  by (rule strlen_loop.raw_induct [where P = "\<lambda>m p i r. m (p + r) = 0"]) (auto split: if_splits)

lemma first_nul_exists:
  assumes "m (p + k) = (0::u8)"
  shows "\<exists>n. first_nul m p n"
proof -
  obtain n where "m (p + n) = 0" and "\<forall>y. y < n \<longrightarrow> m (p + y) \<noteq> 0"
    using wellorder_class.LeastI [of "\<lambda>n. m (p + n) = 0" k]
      wellorder_class.not_less_Least [of _ "\<lambda>n. m (p + n) = 0"] assms by blast
  then show ?thesis by (auto simp: first_nul_def)
qed

text \<open>\<open>strlen\<close> returns the offset of the first NUL byte whenever there is a NUL byte
  anywhere, and it loops for ever when there is none.\<close>

theorem strlen_correct:
  "(strlen m p = Ret n \<longleftrightarrow> first_nul m p n) \<and> (strlen m p = Hang \<longleftrightarrow> (\<forall>k. m (p + k) \<noteq> 0))"
proof
  show "strlen m p = Ret n \<longleftrightarrow> first_nul m p n"
  proof
    assume "strlen m p = Ret n"
    then have "strlen_loop m p 0 = Some n" by (simp add: strlen_def split: option.splits)
    moreover from strlen_loop_bounded [OF this] obtain n' where "first_nul m p n'"
      using first_nul_exists by blast
    ultimately show "first_nul m p n" using strlen_loop_first_nul by fastforce
  qed (simp add: strlen_def strlen_loop_first_nul)
  show "strlen m p = Hang \<longleftrightarrow> (\<forall>k. m (p + k) \<noteq> 0)"
  proof
    assume "strlen m p = Hang"
    then have "strlen_loop m p 0 = None" by (simp add: strlen_def split: option.splits)
    then show "\<forall>k. m (p + k) \<noteq> 0"
      using first_nul_exists strlen_loop_first_nul by (metis option.distinct(1) word_zero_le)
  next
    assume "\<forall>k. m (p + k) \<noteq> 0"
    then have "strlen_loop m p 0 = None"
      using strlen_loop_bounded by (metis not_None_eq)
    then show "strlen m p = Hang" by (simp add: strlen_def)
  qed
qed

lemma strncmp_loop_zero_iff:
  "strncmp_loop m a b n i = 0 \<longleftrightarrow>
   (\<forall>k. i \<le> k \<longrightarrow> k < n \<longrightarrow> (\<forall>j. i \<le> j \<longrightarrow> j < k \<longrightarrow> m (a + j) \<noteq> 0) \<longrightarrow> m (a + k) = m (b + k))"
    (is "_ \<longleftrightarrow> ?P i")
proof (induction m a b n i rule: strncmp_loop.induct)
  case (1 m a b n i)
  let ?P = "\<lambda>i. \<forall>k. i \<le> k \<longrightarrow> k < n \<longrightarrow>
      (\<forall>j. i \<le> j \<longrightarrow> j < k \<longrightarrow> m (a + j) \<noteq> 0) \<longrightarrow> m (a + k) = m (b + k)"
  consider "\<not> i < n" | "i < n" "m (a + i) \<noteq> m (b + i)"
    | "i < n" "m (a + i) = m (b + i)" "m (a + i) = 0"
    | "i < n" "m (a + i) = m (b + i)" "m (a + i) \<noteq> 0" by blast
  then show ?case
  proof cases
    case 1
    then have "strncmp_loop m a b n i = 0" by (subst strncmp_loop.simps) simp
    moreover from 1 have "?P i" by auto
    ultimately show ?thesis by blast
  next
    case 2
    then have "strncmp_loop m a b n i \<noteq> 0" by (subst strncmp_loop.simps) (simp add: Let_def)
    moreover from 2 have "\<not> ?P i" by (auto intro!: exI [of _ i])
    ultimately show ?thesis by blast
  next
    case 3
    then have "strncmp_loop m a b n i = 0" by (subst strncmp_loop.simps) simp
    moreover have "?P i" using 3 by (metis order.order_iff_strict order_refl)
    ultimately show ?thesis by blast
  next
    case 4
    then have "strncmp_loop m a b n i = strncmp_loop m a b n (i + 1)"
      by (subst strncmp_loop.simps) simp
    moreover have "(strncmp_loop m a b n (i + 1) = 0) = ?P (i + 1)"
      using 4 by (intro 1) (simp_all add: Let_def)
    moreover have "?P (i + 1) = ?P i"
    proof -
      have "(\<forall>j. i \<le> j \<longrightarrow> j < k \<longrightarrow> m (a + j) \<noteq> 0) \<longleftrightarrow> (\<forall>j. i + 1 \<le> j \<longrightarrow> j < k \<longrightarrow> m (a + j) \<noteq> 0)"
        if "i + 1 \<le> k" for k
      proof -
        have "i < k" using that 4(1) by unat_arith
        from all_word_from_step [OF this, of "\<lambda>j. m (a + j) \<noteq> 0"] 4(3) show ?thesis by blast
      qed
      note agree = this
      have "?P i \<longleftrightarrow> (\<forall>k. i + 1 \<le> k \<longrightarrow> k < n \<longrightarrow>
          (\<forall>j. i \<le> j \<longrightarrow> j < k \<longrightarrow> m (a + j) \<noteq> 0) \<longrightarrow> m (a + k) = m (b + k))"
        by (subst all_word_from_step [OF 4(1)]) (simp add: 4(2))
      also have "\<dots> \<longleftrightarrow> ?P (i + 1)"
        by (intro iff_allI imp_cong refl agree)
      finally show ?thesis by (rule sym)
    qed
    ultimately show ?thesis by simp
  qed
qed

text \<open>\<open>strncmp\<close> with bound \<open>n\<close> returns 0 exactly when the two strings agree on their first
  \<open>n\<close> bytes, up to and including the first NUL.\<close>

theorem strncmp_zero_iff:
  "strncmp m a b n = 0 \<longleftrightarrow>
   (\<forall>k. k < n \<longrightarrow> (\<forall>j. j < k \<longrightarrow> m (a + j) \<noteq> 0) \<longrightarrow> m (a + k) = m (b + k))"
  by (simp add: strncmp_def strncmp_loop_zero_iff)

theorem strncmp_zero_iff_witness:
  "strncmp (\<lambda>a. if a = 1 \<or> a = 11 then 0 else 65) 0 10 2 = 0"
proof -
  have two: "k = 0 \<or> k = 1" if "k < 2" for k :: u64
    using that by unat_arith
  show ?thesis
    by (intro iffD2 [OF strncmp_zero_iff]) (auto dest!: two)
qed

end
