(* ===== verification/Klock.thy ===== *)
theory Klock
  imports Prelude
begin

text \<open>
  \<open>kernel/core/lock.c\<close> and \<open>kernel/core/object.c\<close>: the reader/writer spin lock and the
  reference counted object.

  Two models of the lock. The functions \<open>lock_acquire_reader\<close> and so on give what a call does
  when nobody else touches the lock while it runs; every other component uses them. The
  relation \<open>lstep\<close> runs any number of threads through the same code one atomic access at a
  time, each thread with its own program counter and its own copy of the local \<open>expected\<close>,
  which the compare and exchange overwrites with the value it found.
\<close>

subsection \<open>The lock, called alone\<close>

record lock =
  readers :: u32
  writer :: bool

definition Lock_Clear :: lock where
  "Lock_Clear = \<lparr>readers = 0, writer = False\<rparr>"

text \<open>The two macros of \<open>stdatomic.h\<close> are 2 (always lock free) on x86-64; stored in an
  \<open>atomic_bool\<close> any value but 0 is \<open>true\<close>.\<close>

definition ATOMIC_INT_LOCK_FREE :: u32 where "ATOMIC_INT_LOCK_FREE = 2"
definition ATOMIC_BOOL_LOCK_FREE :: u32 where "ATOMIC_BOOL_LOCK_FREE = 2"

definition lock_clear :: "lock \<Rightarrow> lock" where
  "lock_clear l = l\<lparr>writer := ATOMIC_BOOL_LOCK_FREE \<noteq> 0, readers := ATOMIC_INT_LOCK_FREE\<rparr>"

text \<open>\<open>atomic_compare_exchange\<close>: success, the lock afterwards and the new \<open>expected\<close>.\<close>

definition cas_writer :: "lock \<Rightarrow> bool \<Rightarrow> bool \<times> lock \<times> bool" where
  "cas_writer l expected =
     (if writer l = expected then (True, l\<lparr>writer := True\<rparr>, expected)
      else (False, l, writer l))"

text \<open>After one failed exchange \<open>expected\<close> equals the value of \<open>writer\<close>, so the second
  attempt succeeds.\<close>

definition lock_acquire_reader :: "lock \<Rightarrow> lock" where
  "lock_acquire_reader l =
     (let (ok, l1, expected) = cas_writer l False;
          l2 = (if ok then l1 else fst (snd (cas_writer l1 expected)))
      in l2\<lparr>readers := readers l2 + 1, writer := False\<rparr>)"

definition lock_release_reader :: "lock \<Rightarrow> lock" where
  "lock_release_reader l = l\<lparr>readers := readers l - 1\<rparr>"

definition lock_acquire_writer :: "lock \<Rightarrow> lock res" where
  "lock_acquire_writer l =
     (let (ok, l1, expected_writer) = cas_writer l False in
      if ok then Ret l1
      else if readers l1 = 0 then Hang
      else Ret (fst (snd (cas_writer l1 expected_writer))))"

definition lock_release_writer :: "lock \<Rightarrow> lock res" where
  "lock_release_writer l =
     res_bind (kassert (writer l = True)) (\<lambda>_.
     res_bind (kassert (readers l = 0)) (\<lambda>_.
     Ret (l\<lparr>writer := False\<rparr>)))"

lemma lock_acquire_writer_free [simp, res_simps]:
  "\<not> writer l \<Longrightarrow> lock_acquire_writer l = Ret (l\<lparr>writer := True\<rparr>)"
  by (simp add: lock_acquire_writer_def cas_writer_def)

lemma lock_acquire_writer_held [simp, res_simps]:
  "writer l \<Longrightarrow> readers l = 0 \<Longrightarrow> lock_acquire_writer l = Hang"
  by (simp add: lock_acquire_writer_def cas_writer_def)

lemma lock_release_writer_held [simp, res_simps]:
  "writer l \<Longrightarrow> readers l = 0 \<Longrightarrow> lock_release_writer l = Ret (l\<lparr>writer := False\<rparr>)"
  by (simp add: lock_release_writer_def)

definition held :: lock where "held = \<lparr>readers = 0, writer = True\<rparr>"

lemma Lock_Clear_steps [simp]:
  "lock_acquire_writer Lock_Clear = Ret held" "lock_release_writer held = Ret Lock_Clear"
  "lock_acquire_writer held = Hang"
  by (simp_all add: Lock_Clear_def held_def)

lemma lock_acquire_reader_eq [simp]:
  "lock_acquire_reader l = l\<lparr>readers := readers l + 1, writer := False\<rparr>"
  by (simp add: lock_acquire_reader_def cas_writer_def)

lemma lock_reader_roundtrip [simp]:
  "lock_release_reader (lock_acquire_reader l) = l\<lparr>writer := False\<rparr>"
  by (simp add: lock_release_reader_def)

text \<open>A critical section: the lock is taken, the body runs, the lock is released. On a free
  lock it is the body alone, and inside it a second acquisition never returns.\<close>

definition with_writer :: "lock \<Rightarrow> (lock \<Rightarrow> ('a \<times> lock) res) \<Rightarrow> ('a \<times> lock) res" where
  "with_writer l body =
     res_bind (lock_acquire_writer l) (\<lambda>l1.
     res_bind (body l1) (\<lambda>(x, l2).
     res_bind (lock_release_writer l2) (\<lambda>l3. Ret (x, l3))))"

subsection \<open>Reference counted objects\<close>

record 'f object =
  ref_count :: u32
  obj_free :: "'f option"
  obj_lock :: lock

definition Object_Clear :: "'f object" where
  "Object_Clear = \<lparr>ref_count = 0, obj_free = None, obj_lock = Lock_Clear\<rparr>"

definition object_retain :: "'f object option \<Rightarrow> 'f object res" where
  "object_retain obj =
     (case obj of None \<Rightarrow> Panic | Some x \<Rightarrow> Ret (x\<lparr>ref_count := ref_count x + 1\<rparr>))"

text \<open>The second component is the destructor that the release calls, if it calls one.\<close>

definition object_release :: "'f object option \<Rightarrow> ('f object \<times> 'f option) res" where
  "object_release obj =
     (case obj of None \<Rightarrow> Panic
      | Some x \<Rightarrow>
          (let old = ref_count x; x1 = x\<lparr>ref_count := old - 1\<rparr> in
           if old = 1 \<and> obj_free x1 \<noteq> None then Ret (x1, obj_free x1) else Ret (x1, None)))"

definition object_set_free :: "'f object option \<Rightarrow> 'f option \<Rightarrow> 'f object res" where
  "object_set_free obj free_func =
     (case obj of None \<Rightarrow> Panic | Some x \<Rightarrow> Ret (x\<lparr>obj_free := free_func\<rparr>))"

definition object_clear :: "'f object \<Rightarrow> 'f option \<Rightarrow> 'f object" where
  "object_clear obj free_func =
     (let obj1 = obj\<lparr>ref_count := ATOMIC_INT_LOCK_FREE\<rparr>;
          obj2 = obj1\<lparr>obj_free := free_func\<rparr>
      in obj2\<lparr>obj_lock := lock_clear (obj_lock obj2)\<rparr>)"

text \<open>A sequence of retains (\<open>True\<close>) and releases (\<open>False\<close>) on one object, and how many times the
  destructor is called during it.\<close>

fun object_run :: "'f object \<Rightarrow> bool list \<Rightarrow> ('f object \<times> nat) res" where
  "object_run x [] = Ret (x, 0)"
| "object_run x (True # es) = res_bind (object_retain (Some x)) (\<lambda>x1. object_run x1 es)"
| "object_run x (False # es) =
     res_bind (object_release (Some x)) (\<lambda>(x1, called).
     res_bind (object_run x1 es) (\<lambda>(x2, n). Ret (x2, n + (if called = None then 0 else 1))))"

subsection \<open>The lock, interleaved\<close>

text \<open>Where a thread stands in the code of \<open>lock.c\<close>, with its local \<open>expected\<close>.\<close>

datatype lpc =
    Outside
  | Reader_CAS bool | Reader_Count | Reader_Unlock | Reading
  | Writer_CAS bool | Writer_Spin bool | Writing | Writer_Check | Writer_Unlock

record lsys =
  the_lock :: lock
  lpcs :: "nat \<Rightarrow> lpc"

definition goto :: "nat \<Rightarrow> lpc \<Rightarrow> lsys \<Rightarrow> lsys" where
  "goto t pc s = s\<lparr>lpcs := (lpcs s)(t := pc)\<rparr>"

inductive lstep :: "lsys \<Rightarrow> lsys \<Rightarrow> bool" where
  enter_reader: "lpcs s t = Outside \<Longrightarrow> lstep s (goto t (Reader_CAS False) s)"
| reader_cas_ok: "lpcs s t = Reader_CAS e \<Longrightarrow> cas_writer (the_lock s) e = (True, l, e') \<Longrightarrow>
     lstep s (goto t Reader_Count (s\<lparr>the_lock := l\<rparr>))"
| reader_cas_fail: "lpcs s t = Reader_CAS e \<Longrightarrow> cas_writer (the_lock s) e = (False, l, e') \<Longrightarrow>
     lstep s (goto t (Reader_CAS e') (s\<lparr>the_lock := l\<rparr>))"
| reader_count: "lpcs s t = Reader_Count \<Longrightarrow>
     lstep s (goto t Reader_Unlock
       (s\<lparr>the_lock := (the_lock s)\<lparr>readers := readers (the_lock s) + 1\<rparr>\<rparr>))"
| reader_unlock: "lpcs s t = Reader_Unlock \<Longrightarrow>
     lstep s (goto t Reading (s\<lparr>the_lock := (the_lock s)\<lparr>writer := False\<rparr>\<rparr>))"
| leave_reader: "lpcs s t = Reading \<Longrightarrow>
     lstep s (goto t Outside (s\<lparr>the_lock := lock_release_reader (the_lock s)\<rparr>))"
| enter_writer: "lpcs s t = Outside \<Longrightarrow> lstep s (goto t (Writer_CAS False) s)"
| writer_cas_ok: "lpcs s t = Writer_CAS e \<Longrightarrow> cas_writer (the_lock s) e = (True, l, e') \<Longrightarrow>
     lstep s (goto t Writing (s\<lparr>the_lock := l\<rparr>))"
| writer_cas_fail: "lpcs s t = Writer_CAS e \<Longrightarrow> cas_writer (the_lock s) e = (False, l, e') \<Longrightarrow>
     lstep s (goto t (Writer_Spin e') (s\<lparr>the_lock := l\<rparr>))"
| writer_spin: "lpcs s t = Writer_Spin e \<Longrightarrow> readers (the_lock s) = 0 \<Longrightarrow>
     lstep s (goto t (Writer_Spin e) s)"
| writer_retry: "lpcs s t = Writer_Spin e \<Longrightarrow> readers (the_lock s) \<noteq> 0 \<Longrightarrow>
     lstep s (goto t (Writer_CAS e) s)"
| leave_writer: "lpcs s t = Writing \<Longrightarrow> writer (the_lock s) \<Longrightarrow> lstep s (goto t Writer_Check s)"
| writer_check: "lpcs s t = Writer_Check \<Longrightarrow> readers (the_lock s) = 0 \<Longrightarrow> lstep s (goto t Writer_Unlock s)"
| writer_unlock: "lpcs s t = Writer_Unlock \<Longrightarrow>
     lstep s (goto t Outside (s\<lparr>the_lock := (the_lock s)\<lparr>writer := False\<rparr>\<rparr>))"

definition lsys_init :: lsys where
  "lsys_init = \<lparr>the_lock = Lock_Clear, lpcs = (\<lambda>_. Outside)\<rparr>"

inductive lreach :: "lsys \<Rightarrow> bool" where
  lreach_init: "lreach lsys_init"
| lreach_step: "lreach s \<Longrightarrow> lstep s s' \<Longrightarrow> lreach s'"

subsection \<open>Reference counting is exact\<close>

text \<open>The references outstanding after a sequence of retains and releases: none of them may
  happen once the count is 0, and the counter must not wrap.\<close>

fun refs_after :: "nat \<Rightarrow> bool list \<Rightarrow> nat option" where
  "refs_after n [] = Some n"
| "refs_after n (True # es) = (if n = 0 \<or> Suc n \<ge> 2 ^ 32 then None else refs_after (Suc n) es)"
| "refs_after n (False # es) = (if n = 0 then None else refs_after (n - 1) es)"

lemma refs_after_0: "refs_after 0 es = Some n \<Longrightarrow> es = [] \<and> n = 0"
  by (cases "(0::nat, es)" rule: refs_after.cases) auto

lemma object_run_refs:
  "refs_after (unat (ref_count x)) es = Some n \<Longrightarrow> obj_free x = Some f \<Longrightarrow>
   object_run x es =
     Ret (x\<lparr>ref_count := of_nat n\<rparr>, if n = 0 \<and> es \<noteq> [] then 1 else 0)"
proof (induction es arbitrary: x)
  case Nil
  then show ?case by (cases x) auto
next
  case (Cons e es)
  show ?case
  proof (cases e)
    case True
    let ?x = "x\<lparr>ref_count := ref_count x + 1\<rparr>"
    from Cons.prems(1) True have lt: "Suc (unat (ref_count x)) < 2 ^ 32"
      and rest: "refs_after (Suc (unat (ref_count x))) es = Some n"
      by (auto split: if_splits)
    from lt have "unat (ref_count ?x) = Suc (unat (ref_count x))"
      by (simp add: unat_word_ariths)
    with rest Cons.prems(2) have "object_run ?x es =
        Ret (?x\<lparr>ref_count := of_nat n\<rparr>, if n = 0 \<and> es \<noteq> [] then 1 else 0)"
      by (intro Cons.IH) auto
    moreover have "n \<noteq> 0 \<or> es \<noteq> []" using rest by (cases es) auto
    ultimately show ?thesis using True by (auto simp: object_retain_def)
  next
    case False
    let ?x = "x\<lparr>ref_count := ref_count x - 1\<rparr>"
    from Cons.prems(1) False have pos: "unat (ref_count x) \<noteq> 0"
      and rest: "refs_after (unat (ref_count x) - 1) es = Some n"
      by (auto split: if_splits)
    from pos have "unat (ref_count ?x) = unat (ref_count x) - 1"
      by (simp add: unat_minus_one unat_gt_0)
    with rest Cons.prems(2) have run: "object_run ?x es =
        Ret (?x\<lparr>ref_count := of_nat n\<rparr>, if n = 0 \<and> es \<noteq> [] then 1 else 0)"
      by (intro Cons.IH) auto
    show ?thesis
    proof (cases "ref_count x = 1")
      case True
      with rest have "es = [] \<and> n = 0" by (auto dest: refs_after_0)
      with True \<open>\<not> e\<close> run Cons.prems(2) show ?thesis by (auto simp: object_release_def)
    next
      case ne: False
      then have "unat (ref_count x) \<noteq> 1" by (metis unat_1 word_unat_eq_iff)
      with rest pos have "n \<noteq> 0 \<or> es \<noteq> []" by (cases es) auto
      with ne \<open>\<not> e\<close> run Cons.prems(2) show ?thesis by (auto simp: object_release_def)
    qed
  qed
qed

text \<open>(C31) Over any sequence of retains and releases that never uses an object with no
  reference left and never wraps its counter, the counter holds the number of outstanding
  references and the destructor runs exactly once, when the last reference is released, and
  not at all while one is left.\<close>

theorem object_freed_exactly_once:
  assumes "refs_after (unat (ref_count x)) es = Some n" "obj_free x = Some f" "es \<noteq> []"
  shows "object_run x es = Ret (x\<lparr>ref_count := of_nat n\<rparr>, if n = 0 then 1 else 0)"
  using object_run_refs [OF assms(1,2)] assms(3) by simp

theorem object_freed_exactly_once_witness:
  "object_run \<lparr>ref_count = 1, obj_free = Some (), obj_lock = Lock_Clear\<rparr> [True, False, False] =
     Ret (\<lparr>ref_count = 0, obj_free = Some (), obj_lock = Lock_Clear\<rparr>, 1)"
  using object_freed_exactly_once
    [of "\<lparr>ref_count = 1, obj_free = Some (), obj_lock = Lock_Clear\<rparr>" "[True, False, False]" 0 "()"]
  by simp

text \<open>\<open>lock_clear\<close> does not give a free lock: it leaves the lock with the writer flag set
  and two readers, so that the next writer's acquisition and release ends in a failed
  assertion. \<open>object_clear\<close> leaves every process and thread object with such a lock and with a
  reference count of 2.\<close>

theorem lock_clear_not_free:
  "res_bind (lock_acquire_writer (lock_clear l)) lock_release_writer = Panic \<and>
   writer (lock_clear l) \<and> readers (lock_clear l) = 2 \<and> ref_count (object_clear x f) = 2"
  by (simp add: lock_clear_def lock_acquire_writer_def lock_release_writer_def cas_writer_def
      ATOMIC_BOOL_LOCK_FREE_def ATOMIC_INT_LOCK_FREE_def Lock_Clear_def object_clear_def)

subsection \<open>What the interleaved lock guarantees\<close>

fun counted :: "lpc \<Rightarrow> bool" where
  "counted Reader_Unlock = True"
| "counted Reading = True"
| "counted _ = False"

fun reader_pc :: "lpc \<Rightarrow> bool" where
  "reader_pc (Reader_CAS _) = True"
| "reader_pc Reader_Count = True"
| "reader_pc Reader_Unlock = True"
| "reader_pc Reading = True"
| "reader_pc _ = False"

definition counted_threads :: "lsys \<Rightarrow> nat set" where
  "counted_threads s = {t. counted (lpcs s t)}"

lemma lpcs_goto [simp]: "lpcs (goto t pc s) = (lpcs s)(t := pc)"
  by (simp add: goto_def)

lemma the_lock_goto [simp]: "the_lock (goto t pc s) = the_lock s"
  by (simp add: goto_def)

lemma counted_threads_goto:
  "counted_threads (goto t pc s) =
     (if counted pc then insert t (counted_threads s) else counted_threads s - {t})"
  by (auto simp: counted_threads_def)

lemma counted_threads_lock [simp]:
  "counted_threads (s\<lparr>the_lock := l\<rparr>) = counted_threads s"
  by (simp add: counted_threads_def)

definition count_inv :: "lsys \<Rightarrow> bool" where
  "count_inv s \<longleftrightarrow> finite (counted_threads s) \<and>
     readers (the_lock s) = of_nat (card (counted_threads s))"

lemma cas_writer_readers:
  "cas_writer l e = (b, l', e') \<Longrightarrow> readers l' = readers l"
  by (auto simp: cas_writer_def split: if_splits)

lemma counted_in: "counted (lpcs s t) \<Longrightarrow> t \<in> counted_threads s"
  and counted_notin: "\<not> counted (lpcs s t) \<Longrightarrow> t \<notin> counted_threads s"
  by (simp_all add: counted_threads_def)

lemma count_inv_goto:
  "count_inv s \<Longrightarrow> \<not> counted (lpcs s t) \<Longrightarrow> \<not> counted pc \<Longrightarrow> count_inv (goto t pc s)"
  by (simp add: count_inv_def counted_threads_goto counted_notin)

lemma count_inv_lock:
  "count_inv s \<Longrightarrow> readers l = readers (the_lock s) \<Longrightarrow> count_inv (s\<lparr>the_lock := l\<rparr>)"
  by (simp add: count_inv_def)

lemma count_inv_step: "lstep s s' \<Longrightarrow> count_inv s \<Longrightarrow> count_inv s'"
proof (induction rule: lstep.induct)
  case (reader_count s t)
  then show ?case
    using counted_notin [of s t]
    by (simp add: count_inv_def counted_threads_goto algebra_simps)
next
  case (reader_unlock s t)
  then show ?case
    using counted_in [of s t]
    by (simp add: count_inv_def counted_threads_goto insert_absorb)
next
  case (leave_reader s t)
  then have "t \<in> counted_threads s" by (simp add: counted_in)
  with leave_reader.prems have "card (counted_threads s) = Suc (card (counted_threads s - {t}))"
    unfolding count_inv_def by (metis card.remove)
  with leave_reader.prems show ?case
    by (simp add: count_inv_def counted_threads_goto lock_release_reader_def)
qed (intro count_inv_goto count_inv_lock; simp add: cas_writer_readers)+

text \<open>However the threads interleave, the reader count of the lock is the number of
  threads that have counted themselves in and not yet out (modulo the 32 bits of the
  counter).\<close>

theorem reader_count_exact:
  assumes "lreach s"
  shows "finite (counted_threads s) \<and> readers (the_lock s) = of_nat (card (counted_threads s))"
proof -
  from assms have "count_inv s"
  proof (induction rule: lreach.induct)
    case lreach_init
    then show ?case
      by (simp add: count_inv_def counted_threads_def lsys_init_def Lock_Clear_def)
  next
    case (lreach_step s s')
    then show ?case by (blast intro: count_inv_step)
  qed
  then show ?thesis by (simp add: count_inv_def)
qed

theorem reader_count_exact_witness:
  "lreach lsys_init \<and> readers (the_lock lsys_init) = of_nat (card (counted_threads lsys_init))"
  using reader_count_exact [OF lreach_init] lreach_init by blast

text \<open>Runs in which nobody takes the lock as a reader, as is the case for every lock of the
  kernel but the scheduler's.\<close>

inductive wreach :: "lsys \<Rightarrow> bool" where
  wreach_init: "wreach lsys_init"
| wreach_step: "wreach s \<Longrightarrow> lstep s s' \<Longrightarrow> (\<And>t. \<not> reader_pc (lpcs s' t)) \<Longrightarrow> wreach s'"

text \<open>A thread holds the lock from the exchange that took it to the store that gives it back.\<close>

fun holding :: "lpc \<Rightarrow> bool" where
  "holding Writing = True"
| "holding Writer_Check = True"
| "holding Writer_Unlock = True"
| "holding _ = False"

definition writers_inv :: "lsys \<Rightarrow> bool" where
  "writers_inv s \<longleftrightarrow> readers (the_lock s) = 0 \<and> (\<forall>t. \<not> reader_pc (lpcs s t)) \<and>
     (\<forall>t e. lpcs s t = Writer_CAS e \<longrightarrow> \<not> e) \<and>
     (\<forall>t. holding (lpcs s t) \<longrightarrow> writer (the_lock s)) \<and>
     (\<forall>t u. holding (lpcs s t) \<longrightarrow> holding (lpcs s u) \<longrightarrow> t = u)"

lemma writers_inv_not_reader: "writers_inv s \<Longrightarrow> \<not> reader_pc (lpcs s t)"
  by (simp add: writers_inv_def)

lemma writers_inv_holder:
  "writers_inv s \<Longrightarrow> holding (lpcs s t) \<Longrightarrow> writer (the_lock s) \<and> (\<forall>u. holding (lpcs s u) \<longrightarrow> u = t)"
  unfolding writers_inv_def by blast

lemma writers_inv_relabel:
  assumes "writers_inv s" "holding (lpcs s t)" "holding pc"
  shows "writers_inv (goto t pc s)"
proof -
  have h: "holding (lpcs (goto t pc s) u) \<longleftrightarrow> holding (lpcs s u)" for u using assms(2,3) by simp
  have "\<not> reader_pc pc" "pc \<noteq> Writer_CAS e" for e using assms(3) by (cases pc; simp)+
  then show ?thesis using assms(1) unfolding writers_inv_def h by simp blast
qed

lemma writers_inv_leave:
  assumes "writers_inv s" "holding (lpcs s t)"
  shows "writers_inv (goto t Outside (s\<lparr>the_lock := (the_lock s)\<lparr>writer := False\<rparr>\<rparr>))"
proof -
  have "u = t" if "holding (lpcs s u)" for u using writers_inv_holder [OF assms] that by blast
  then have "\<not> holding (((lpcs s)(t := Outside)) u)" for u by auto
  then show ?thesis using assms(1) by (simp add: writers_inv_def) blast
qed

lemma writers_inv_step:
  assumes "lstep s s'" "writers_inv s" "\<And>t. \<not> reader_pc (lpcs s' t)"
  shows "writers_inv s'"
  using assms
proof (induction rule: lstep.induct)
  case (writer_cas_ok s t e l e')
  from writer_cas_ok(1,3) have "\<not> e" unfolding writers_inv_def by blast
  with writer_cas_ok(2) have "\<not> writer (the_lock s)" "l = (the_lock s)\<lparr>writer := True\<rparr>"
    by (auto simp: cas_writer_def split: if_splits)
  with writer_cas_ok show ?case by (auto simp: writers_inv_def)
next
  case (writer_cas_fail s t e l e')
  then have "l = the_lock s" by (auto simp: cas_writer_def split: if_splits)
  with writer_cas_fail show ?case by (auto simp: writers_inv_def)
next
  case (leave_writer s t)
  then have "holding (lpcs s t)" by simp
  from writers_inv_relabel [OF leave_writer(3) this] show ?case by simp
next
  case (writer_check s t)
  then have "holding (lpcs s t)" by simp
  from writers_inv_relabel [OF writer_check(3) this] show ?case by simp
next
  case (writer_unlock s t)
  then have "holding (lpcs s t)" by simp
  from writers_inv_leave [OF writer_unlock(2) this] show ?case .
next
  case (reader_count s t)
  then show ?case using writers_inv_not_reader [of s t] by simp
next
  case (reader_unlock s t)
  then show ?case using writers_inv_not_reader [of s t] by simp
next
  case (enter_reader s t)
  from enter_reader(3) [of t] show ?case by simp
next
  case (reader_cas_ok s t e l e')
  then show ?case using writers_inv_not_reader [of s t] by simp
next
  case (reader_cas_fail s t e l e')
  then show ?case using writers_inv_not_reader [of s t] by simp
next
  case (leave_reader s t)
  then show ?case using writers_inv_not_reader [of s t] by simp
next
  case (enter_writer s t)
  then show ?case by (auto simp: writers_inv_def)
next
  case (writer_spin s t e)
  then show ?case by (auto simp: writers_inv_def)
next
  case (writer_retry s t e)
  then show ?case by (simp add: writers_inv_def)
qed

lemma wreach_inv: "wreach s \<Longrightarrow> writers_inv s"
proof (induction rule: wreach.induct)
  case wreach_init
  then show ?case by (simp add: writers_inv_def lsys_init_def Lock_Clear_def)
next
  case (wreach_step s s')
  then show ?case by (blast intro: writers_inv_step)
qed

text \<open>(C32) A lock taken by writers only is exclusive: no interleaving of the atomic accesses lets two threads hold it
  at once. But it is not live: a writer whose first attempt failed waits for a reader to
  appear, so no step of such a run ever takes it out of the spin loop.\<close>

theorem writers_exclusive_but_stuck:
  assumes "wreach s"
  shows "(holding (lpcs s t) \<longrightarrow> holding (lpcs s u) \<longrightarrow> t = u) \<and>
    (lpcs s t = Writer_Spin e \<longrightarrow> lstep s s' \<longrightarrow> lpcs s' t = Writer_Spin e)"
proof -
  have inv: "writers_inv s" by (rule wreach_inv [OF assms])
  have "lpcs s' t = Writer_Spin e" if "lstep s s'" "lpcs s t = Writer_Spin e"
    using that inv by (induction rule: lstep.induct) (auto simp: writers_inv_def)
  with inv show ?thesis by (auto simp: writers_inv_def)
qed

text \<open>Two threads run for the lock as writers: the first gets it, the second spins.\<close>

definition held_lock :: lock where "held_lock = \<lparr>readers = 0, writer = True\<rparr>"

definition contended :: lsys where
  "contended = \<lparr>the_lock = held_lock,
     lpcs = (\<lambda>_. Outside)(0 := Writing, 1 := Writer_Spin True)\<rparr>"

lemma contended_wreach: "wreach contended"
proof -
  let ?s1 = "goto 0 (Writer_CAS False) lsys_init"
  let ?s2 = "goto 0 Writing (?s1\<lparr>the_lock := held_lock\<rparr>)"
  let ?s3 = "goto 1 (Writer_CAS False) ?s2"
  let ?s4 = "goto 1 (Writer_Spin True) (?s3\<lparr>the_lock := held_lock\<rparr>)"
  have "wreach ?s1"
    by (rule wreach_step [OF wreach_init enter_writer]) (simp_all add: lsys_init_def)
  then have "wreach ?s2"
    by (rule wreach_step [OF _ writer_cas_ok [where e = False and e' = False]])
      (simp_all add: lsys_init_def cas_writer_def held_lock_def Lock_Clear_def)
  then have "wreach ?s3"
    by (rule wreach_step [OF _ enter_writer]) (simp_all add: lsys_init_def)
  then have "wreach ?s4"
    by (rule wreach_step [OF _ writer_cas_fail [where e = False and e' = True]])
      (simp_all add: lsys_init_def cas_writer_def held_lock_def)
  moreover have "?s4 = contended"
    by (simp add: contended_def goto_def lsys_init_def fun_eq_iff)
  ultimately show ?thesis by simp
qed

theorem writers_exclusive_but_stuck_witness:
  "\<exists>s'. wreach contended \<and> lpcs contended 1 = Writer_Spin True \<and> lstep contended s' \<and>
     lpcs s' 0 = Writer_Check \<and> lpcs s' 1 = Writer_Spin True"
proof -
  let ?s' = "goto 0 Writer_Check contended"
  have "lstep contended ?s'"
    by (rule leave_writer) (simp_all add: contended_def held_lock_def)
  moreover have "lpcs contended 1 = Writer_Spin True" by (simp add: contended_def)
  ultimately show ?thesis
    using writers_exclusive_but_stuck [OF contended_wreach, of 1 1 True ?s'] contended_wreach
    by (intro exI [of _ ?s']) auto
qed

text \<open>With readers about, the lock does not exclude: after one failed exchange the local
  \<open>expected\<close> is \<open>true\<close>, so the retry of a reader takes the flag from the writer that holds it and
  then clears it. A state with a reader and two writers inside at once is reachable.\<close>

theorem lock_not_exclusive:
  "\<exists>s. lreach s \<and> lpcs s 0 = Writing \<and> lpcs s 1 = Reading \<and> lpcs s 2 = Writing"
proof -
  let ?l1 = "\<lparr>readers = 1, writer = True\<rparr>"
  let ?l2 = "\<lparr>readers = 1, writer = False\<rparr>"
  let ?s1 = "goto 0 (Writer_CAS False) lsys_init"
  let ?s2 = "goto 0 Writing (?s1\<lparr>the_lock := held_lock\<rparr>)"
  let ?s3 = "goto 1 (Reader_CAS False) ?s2"
  let ?s4 = "goto 1 (Reader_CAS True) (?s3\<lparr>the_lock := held_lock\<rparr>)"
  let ?s5 = "goto 1 Reader_Count (?s4\<lparr>the_lock := held_lock\<rparr>)"
  let ?s6 = "goto 1 Reader_Unlock (?s5\<lparr>the_lock := (the_lock ?s5)\<lparr>readers := readers (the_lock ?s5) + 1\<rparr>\<rparr>)"
  let ?s7 = "goto 1 Reading (?s6\<lparr>the_lock := (the_lock ?s6)\<lparr>writer := False\<rparr>\<rparr>)"
  let ?s8 = "goto 2 (Writer_CAS False) ?s7"
  let ?s9 = "goto 2 Writing (?s8\<lparr>the_lock := ?l1\<rparr>)"
  have "lreach ?s1"
    by (rule lreach_step [OF lreach_init enter_writer]) (simp_all add: lsys_init_def)
  then have "lreach ?s2"
    by (rule lreach_step [OF _ writer_cas_ok [where e = False and e' = False]])
      (simp_all add: lsys_init_def cas_writer_def held_lock_def Lock_Clear_def)
  then have "lreach ?s3"
    by (rule lreach_step [OF _ enter_reader]) (simp_all add: lsys_init_def)
  then have "lreach ?s4"
    by (rule lreach_step [OF _ reader_cas_fail [where e = False and e' = True]])
      (simp_all add: lsys_init_def cas_writer_def held_lock_def)
  then have "lreach ?s5"
    by (rule lreach_step [OF _ reader_cas_ok [where e = True and e' = True]])
      (simp_all add: lsys_init_def cas_writer_def held_lock_def)
  then have "lreach ?s6"
    by (rule lreach_step [OF _ reader_count]) simp
  then have "lreach ?s7"
    by (rule lreach_step [OF _ reader_unlock]) simp
  then have "lreach ?s8"
    by (rule lreach_step [OF _ enter_writer]) (simp add: lsys_init_def)
  then have "lreach ?s9"
    by (rule lreach_step [OF _ writer_cas_ok [where e = False and e' = False]])
      (simp_all add: cas_writer_def held_lock_def)
  then show ?thesis by (intro exI [of _ ?s9]) simp
qed

end
