(* ===== verification/Region_Vector.thy ===== *)
theory Region_Vector
  imports Prelude
begin

text \<open>
  \<open>kernel/core/region_vector.c\<close>: the vectors of address regions behind the slab allocator, the
  heap and the process address spaces.

  A vector is a chain of page sized sections, each with a fixed array of regions of which the
  first \<open>regions_used\<close> are live; the chain of \<open>next\<close> pointers is the list of its sections. A
  vector lives inside a larger state, and the code reaches the slab allocator from here, which
  itself works on such a vector; an operation that may call it therefore takes the whole state
  with the functions that read and write the vector in it, and the slab routine it calls. The
  locale \<open>vector_in_state\<close> has what is asked of these; each vector of the kernel meets it in the
  theory of its state, and so the contract \<open>region_pool\<close>.
\<close>

subsection \<open>Data\<close>

record region =
  address :: u64
  rsize :: u64

record rsection =
  sec_base :: u64
  regions_used :: nat
  regions :: "region list"

type_synonym rvector = "rsection list"

text \<open>Sixteen bytes of header and sixteen per region fill a page.\<close>

definition regions_count :: nat where
  "regions_count = (unat Page_Small - 16) div 16"

lemma regions_count_eq [code]: "regions_count = 255"
  by (simp add: regions_count_def)

definition Region_Vector_Max_Random_Addresses :: nat where
  "Region_Vector_Max_Random_Addresses = 5"

definition fresh_section :: "u64 \<Rightarrow> rsection" where
  "fresh_section p = \<lparr>sec_base = p, regions_used = 0,
     regions = replicate regions_count \<lparr>address = 0, rsize = 0\<rparr>\<rparr>"

text \<open>The indices that \<open>for (i = 0; i < regions_used && i < regions_count; ++i)\<close> visits.\<close>

definition loop_indices :: "rsection \<Rightarrow> nat list" where
  "loop_indices v = [0..<min (regions_used v) regions_count]"

subsection \<open>Operations\<close>

definition region_vector_init :: "rvector \<Rightarrow> rvector" where
  "region_vector_init vect = (case vect of [] \<Rightarrow> [] | v # _ \<Rightarrow> [v\<lparr>regions_used := 0\<rparr>])"

text \<open>\<open>prev\<close> never advances: a second iteration reads \<open>prev->next\<close> from the page that the first
  has unmapped.\<close>

definition region_vector_fini :: "(u64 \<Rightarrow> u64 \<Rightarrow> 's \<Rightarrow> 's res) \<Rightarrow> rvector \<Rightarrow> 's \<Rightarrow> 's res" where
  "region_vector_fini slab_free vect s =
     (case vect of [] \<Rightarrow> Ret s
      | prev # rest \<Rightarrow>
          res_bind (slab_free Page_Small (sec_base prev) s) (\<lambda>s1.
          if rest = [] then Ret s1 else Fault))"

definition region_take :: "rsection \<Rightarrow> nat \<Rightarrow> u64 \<Rightarrow> rsection" where
  "region_take v i sz =
     (let r = regions v ! i; new_size = rsize r - sz in
      if new_size = 0 then
        (let used = regions_used v - 1; v1 = v\<lparr>regions_used := used\<rparr> in
         if i \<noteq> used then v1\<lparr>regions := (regions v)[i := regions v ! used]\<rparr> else v1)
      else v\<lparr>regions := (regions v)[i := \<lparr>address = address r + sz, rsize = new_size\<rparr>]\<rparr>)"

fun region_alloc_scan :: "u64 \<Rightarrow> rvector \<Rightarrow> status + (u64 \<times> rvector)" where
  "region_alloc_scan sz [] = Inl Error_No_Memory"
| "region_alloc_scan sz (v # vs) =
     (case find (\<lambda>i. rsize (regions v ! i) > sz) (loop_indices v) of
        Some i \<Rightarrow> Inr (address (regions v ! i), region_take v i sz # vs)
      | None \<Rightarrow> (case region_alloc_scan sz vs of
                   Inl e \<Rightarrow> Inl e
                 | Inr (out, vs') \<Rightarrow> Inr (out, v # vs')))"

definition region_alloc :: "rvector \<Rightarrow> u64 \<Rightarrow> (status + (u64 \<times> rvector)) res" where
  "region_alloc vect sz =
     res_bind (kassert (vect \<noteq> [])) (\<lambda>_. Ret (region_alloc_scan sz vect))"

definition region_append :: "rsection \<Rightarrow> u64 \<Rightarrow> u64 \<Rightarrow> rsection" where
  "region_append v addr sz =
     v\<lparr>regions := (regions v)[regions_used v := \<lparr>address = addr, rsize = sz\<rparr>],
       regions_used := regions_used v + 1\<rparr>"

fun region_free_scan :: "u64 \<Rightarrow> u64 \<Rightarrow> rvector \<Rightarrow> rvector option" where
  "region_free_scan addr sz [] = None"
| "region_free_scan addr sz (v # vs) =
     (if regions_used v \<noteq> regions_count then Some (region_append v addr sz # vs)
      else map_option ((#) v) (region_free_scan addr sz vs))"

type_synonym 's slab_alloc_f = "u64 \<Rightarrow> u64 \<Rightarrow> 's \<Rightarrow> (u64 \<times> 's) res"

definition extend_vector :: "'s slab_alloc_f \<Rightarrow> 's \<Rightarrow> (rsection option \<times> 's) res" where
  "extend_vector slab_alloc_locked s =
     res_bind (slab_alloc_locked Page_Small Memory_Writable s) (\<lambda>(new, s1).
     if new = 0 then Ret (None, s1) else Ret (Some (fresh_section new), s1))"

definition region_free ::
    "('s \<Rightarrow> rvector) \<Rightarrow> (rvector \<Rightarrow> 's \<Rightarrow> 's) \<Rightarrow> 's slab_alloc_f \<Rightarrow> u64 \<Rightarrow> u64 \<Rightarrow> 's \<Rightarrow> 's res" where
  "region_free get put slab_alloc_locked addr sz s =
     (if get s = [] then Fault
      else case region_free_scan addr sz (get s) of
        Some vect \<Rightarrow> Ret (put vect s)
      | None \<Rightarrow>
          res_bind (extend_vector slab_alloc_locked s) (\<lambda>(new, s1).
          case new of None \<Rightarrow> Panic
          | Some v \<Rightarrow>
              Ret (put (get s1 @ [v\<lparr>regions_used := 1,
                    regions := (regions v)[0 := \<lparr>address = addr, rsize = sz\<rparr>]\<rparr>]) s1)))"

text \<open>A vector that is not part of the state yet.\<close>

definition on_fst :: "'s slab_alloc_f \<Rightarrow> (rvector \<times> 's) slab_alloc_f" where
  "on_fst f b a = (\<lambda>(v, s). res_bind (f b a s) (\<lambda>(p, s1). Ret (p, (v, s1))))"

definition region_vector_new ::
    "'s slab_alloc_f \<Rightarrow> 's slab_alloc_f \<Rightarrow> u64 \<Rightarrow> u64 \<Rightarrow> 's \<Rightarrow> (rvector \<times> 's) res" where
  "region_vector_new slab_alloc slab_alloc_locked addr sz s =
     res_bind (slab_alloc Page_Small Memory_Writable s) (\<lambda>(vect, s1).
     if vect = 0 then Ret ([], s1)
     else region_free fst (\<lambda>v (_, t). (v, t)) (on_fst slab_alloc_locked) addr sz
            (region_vector_init [fresh_section vect], s1))"

fun region_find_scan :: "bool \<Rightarrow> u64 \<Rightarrow> rvector \<Rightarrow> u64 \<times> rvector \<times> u64 option" where
  "region_find_scan has_prev addr [] = (0, [], None)"
| "region_find_scan has_prev addr (cur # vs) =
     (case find (\<lambda>i. address (regions cur ! i) = addr) (loop_indices cur) of
        Some i \<Rightarrow>
          (let used = regions_used cur - 1;
               cur1 = cur\<lparr>regions_used := used\<rparr>;
               sz = rsize (regions cur ! i)
           in if used \<noteq> 0 then
                (sz, cur1\<lparr>regions := (regions cur)[i := regions cur ! used]\<rparr> # vs, None)
              else if has_prev then (sz, vs, Some (sec_base cur))
              else (sz, cur1 # vs, None))
      | None \<Rightarrow> (case region_find_scan True addr vs of
                   (sz, vs', freed) \<Rightarrow> (sz, cur # vs', freed)))"

definition region_find_size_and_free ::
    "('s \<Rightarrow> rvector) \<Rightarrow> (rvector \<Rightarrow> 's \<Rightarrow> 's) \<Rightarrow> (u64 \<Rightarrow> u64 \<Rightarrow> 's \<Rightarrow> 's res) \<Rightarrow> u64 \<Rightarrow> 's
      \<Rightarrow> (u64 \<times> 's) res" where
  "region_find_size_and_free get put slab_free_locked addr s =
     (if get s = [] then Fault
      else case region_find_scan False addr (get s) of (sz, vect, freed) \<Rightarrow>
        (case freed of None \<Rightarrow> Ret (sz, put vect s)
         | Some cur \<Rightarrow>
             res_bind (slab_free_locked Page_Small cur (put vect s)) (\<lambda>s1. Ret (sz, s1))))"

definition region_hit :: "u64 \<Rightarrow> region \<Rightarrow> bool" where
  "region_hit addr r \<longleftrightarrow> address r \<le> addr \<and> address r + rsize r \<ge> addr \<and> address r \<noteq> 0"

fun random_scan :: "u64 \<Rightarrow> rvector \<Rightarrow> nat \<Rightarrow> (nat \<times> nat) option" where
  "random_scan addr [] k = None"
| "random_scan addr (v # vs) k =
     (case find (\<lambda>i. region_hit addr (regions v ! i)) (loop_indices v) of
        Some i \<Rightarrow> Some (k, i)
      | None \<Rightarrow> random_scan addr vs (Suc k))"

definition set_region :: "rvector \<Rightarrow> nat \<Rightarrow> nat \<Rightarrow> region \<Rightarrow> rvector" where
  "set_region vect k i r =
     vect[k := (vect ! k)\<lparr>regions := (regions (vect ! k))[i := r]\<rparr>]"

text \<open>A region that holds the random address but is too small sets \<open>v\<close> to \<open>NULL\<close>, leaves the
  inner loop and then reads \<open>v->next\<close>.\<close>

primrec region_alloc_random_tries ::
    "nat \<Rightarrow> ('s \<Rightarrow> rvector) \<Rightarrow> (rvector \<Rightarrow> 's \<Rightarrow> 's) \<Rightarrow> 's slab_alloc_f \<Rightarrow>
     ('s \<Rightarrow> (u64 \<times> 's) res) \<Rightarrow> u64 \<Rightarrow> 's \<Rightarrow> ((status + u64) \<times> 's) res" where
  "region_alloc_random_tries 0 get put sal random_address sz s = Ret (Inl Error_No_Memory, s)"
| "region_alloc_random_tries (Suc n) get put sal random_address sz s =
     res_bind (random_address s) (\<lambda>(addr, s1).
     case random_scan addr (get s1) 0 of
       None \<Rightarrow> region_alloc_random_tries n get put sal random_address sz s1
     | Some (k, i) \<Rightarrow>
         (let r = regions (get s1 ! k) ! i;
              prefix_size = addr - address r;
              after_random_addr_size = rsize r - prefix_size
          in if after_random_addr_size < sz then Fault
             else
               (let suffix_size = after_random_addr_size - sz in
                if suffix_size = 0 then
                  Ret (Inr addr, put (set_region (get s1) k i (r\<lparr>rsize := rsize r - sz\<rparr>)) s1)
                else if addr \<noteq> address r then
                  Ret (Inr addr, put (set_region (get s1) k i
                        \<lparr>address = address r + sz, rsize = suffix_size\<rparr>) s1)
                else
                  res_bind (region_free get put sal (addr + sz) suffix_size
                      (put (set_region (get s1) k i (r\<lparr>rsize := prefix_size\<rparr>)) s1))
                    (\<lambda>s2. Ret (Inr addr, s2)))))"

definition region_alloc_random ::
    "('s \<Rightarrow> rvector) \<Rightarrow> (rvector \<Rightarrow> 's \<Rightarrow> 's) \<Rightarrow> 's slab_alloc_f \<Rightarrow>
     ('s \<Rightarrow> (u64 \<times> 's) res) \<Rightarrow> u64 \<Rightarrow> 's \<Rightarrow> ((status + u64) \<times> 's) res" where
  "region_alloc_random get put slab_alloc_locked random_address sz s =
     res_bind (kassert (get s \<noteq> [])) (\<lambda>_.
     region_alloc_random_tries Region_Vector_Max_Random_Addresses get put slab_alloc_locked
       random_address sz s)"

subsection \<open>Which bytes a vector owns\<close>

definition live :: "rsection \<Rightarrow> region list" where
  "live v = take (regions_used v) (regions v)"

definition live_regions :: "rvector \<Rightarrow> region list" where
  "live_regions vect = concat (map live vect)"

definition section_ok :: "rsection \<Rightarrow> bool" where
  "section_ok v \<longleftrightarrow> regions_used v \<le> regions_count \<and> length (regions v) = regions_count"

definition in_block :: "nat \<Rightarrow> u64 \<Rightarrow> u64 \<Rightarrow> bool" where
  "in_block x a sz \<longleftrightarrow> unat a \<le> x \<and> x < unat a + unat sz"

definition block_fits :: "u64 \<Rightarrow> u64 \<Rightarrow> bool" where
  "block_fits a sz \<longleftrightarrow> unat a + unat sz \<le> 2 ^ 64"

text \<open>The invariant: every section is within its array and no region wraps.\<close>

definition rv_ok :: "rvector \<Rightarrow> bool" where
  "rv_ok vect \<longleftrightarrow> list_all section_ok vect \<and>
     list_all (\<lambda>r. block_fits (address r) (rsize r)) (live_regions vect)"

text \<open>How many live regions hold the byte at \<open>x\<close>.\<close>

definition owners :: "rvector \<Rightarrow> nat \<Rightarrow> nat" where
  "owners vect x = length (filter (\<lambda>r. in_block x (address r) (rsize r)) (live_regions vect))"

lemma live_regions_simps [simp]:
  "live_regions [] = []" "live_regions (v # vs) = live v @ live_regions vs"
  by (simp_all add: live_regions_def)

lemma rv_ok_simps [simp]:
  "rv_ok []"
  "rv_ok (v # vs) \<longleftrightarrow>
     section_ok v \<and> list_all (\<lambda>r. block_fits (address r) (rsize r)) (live v) \<and> rv_ok vs"
  by (auto simp: rv_ok_def)

lemma owners_simps [simp]:
  "owners [] x = 0"
  "owners (v # vs) x =
     length (filter (\<lambda>r. in_block x (address r) (rsize r)) (live v)) + owners vs x"
  by (simp_all add: owners_def)

lemma length_live: "section_ok v \<Longrightarrow> length (live v) = regions_used v"
  by (simp add: section_ok_def live_def)

lemma loop_indices_ok: "section_ok v \<Longrightarrow> loop_indices v = [0..<regions_used v]"
  by (simp add: section_ok_def loop_indices_def)

lemma live_nth: "i < regions_used v \<Longrightarrow> live v ! i = regions v ! i"
  by (simp add: live_def)

lemma list_all_update:
  "list_all P xs \<Longrightarrow> P y \<Longrightarrow> list_all P (xs[i := y])"
  by (auto simp: list_all_iff dest!: set_update_subset_insert [THEN subsetD])

subsection \<open>Allocation\<close>

lemma region_take_section:
  assumes "section_ok v" "i < regions_used v" "rsize (regions v ! i) > sz"
  shows "section_ok (region_take v i sz)"
    and "live (region_take v i sz) =
      (live v)[i := \<lparr>address = address (regions v ! i) + sz, rsize = rsize (regions v ! i) - sz\<rparr>]"
proof -
  from assms(3) have ne: "rsize (regions v ! i) - sz \<noteq> 0" by auto
  show "section_ok (region_take v i sz)"
    using assms ne by (simp add: region_take_def section_ok_def Let_def)
  show "live (region_take v i sz) =
      (live v)[i := \<lparr>address = address (regions v ! i) + sz, rsize = rsize (regions v ! i) - sz\<rparr>]"
    using ne by (simp add: region_take_def live_def Let_def take_update_swap)
qed

text \<open>Cutting \<open>sz\<close> bytes off the front of a larger region that does not wrap.\<close>

lemma block_cut:
  assumes "block_fits a n" "sz < n"
  shows "unat (a + sz) = unat a + unat sz" "unat (n - sz) = unat n - unat sz"
    and "block_fits (a + sz) (n - sz)" "block_fits a sz"
    and "in_block x a n \<longleftrightarrow> in_block x (a + sz) (n - sz) \<or> in_block x a sz"
    and "\<not> (in_block x (a + sz) (n - sz) \<and> in_block x a sz)"
proof -
  from assms have lt: "unat a + unat sz < 2 ^ 64" "unat sz < unat n"
    by (auto simp: block_fits_def word_less_nat_alt)
  then show a: "unat (a + sz) = unat a + unat sz"
    by (simp add: unat_word_ariths)
  from assms show n: "unat (n - sz) = unat n - unat sz"
    by (simp add: unat_sub_if_size word_less_nat_alt)
  from a n assms lt show "block_fits (a + sz) (n - sz)" "block_fits a sz"
    by (auto simp: block_fits_def)
  from a n lt show "in_block x a n \<longleftrightarrow> in_block x (a + sz) (n - sz) \<or> in_block x a sz"
    and "\<not> (in_block x (a + sz) (n - sz) \<and> in_block x a sz)"
    by (auto simp: in_block_def)
qed

lemma region_alloc_scan_Inr:
  "rv_ok vect \<Longrightarrow> region_alloc_scan sz vect = Inr (a, vect') \<Longrightarrow>
   rv_ok vect' \<and> block_fits a sz \<and> length vect' = length vect \<and>
   (\<forall>x. owners vect x = owners vect' x + (if in_block x a sz then 1 else 0))"
proof (induction vect arbitrary: vect')
  case Nil
  then show ?case by simp
next
  case (Cons v vs)
  from Cons.prems(1) have sec: "section_ok v" by simp
  show ?case
  proof (cases "find (\<lambda>i. rsize (regions v ! i) > sz) (loop_indices v)")
    case None
    with Cons.prems obtain vs' where "region_alloc_scan sz vs = Inr (a, vs')" "vect' = v # vs'"
      by (auto split: sum.splits)
    with Cons show ?thesis by auto
  next
    case (Some i)
    then have i: "i < regions_used v" "rsize (regions v ! i) > sz"
      using find_upt_Some [of _ "regions_used v" i] by (auto simp: loop_indices_ok [OF sec])
    let ?r = "regions v ! i"
    from Some Cons.prems(2) have res: "a = address ?r" "vect' = region_take v i sz # vs" by auto
    have mem: "?r \<in> set (live v)"
      using i length_live [OF sec] live_nth [OF i(1)] by (metis nth_mem)
    then have fits: "block_fits (address ?r) (rsize ?r)"
      using Cons.prems(1) by (simp add: list_all_iff)
    note cut = block_cut [OF fits i(2)]
    note upd = region_take_section [OF sec i]
    have "length (filter (\<lambda>r. in_block x (address r) (rsize r)) (live v)) =
        length (filter (\<lambda>r. in_block x (address r) (rsize r)) (live (region_take v i sz))) +
        (if in_block x a sz then 1 else 0)" for x
      using length_filter_update [of i "live v" "\<lambda>r. in_block x (address r) (rsize r)"
          "\<lparr>address = address ?r + sz, rsize = rsize ?r - sz\<rparr>"]
        i length_live [OF sec] live_nth [OF i(1)] cut(5,6) [of x]
      by (auto simp: upd res split: if_splits)
    with Cons.prems(1) cut(3,4) show ?thesis
      by (simp add: res upd list_all_update)
  qed
qed

lemma region_alloc_scan_region:
  "rv_ok vect \<Longrightarrow> region_alloc_scan sz vect = Inr (a, vect') \<Longrightarrow>
   length (live_regions vect') = length (live_regions vect) \<and>
   (\<exists>r \<in> set (live_regions vect). address r = a \<and> sz < rsize r)"
proof (induction vect arbitrary: vect')
  case (Cons v vs)
  from Cons.prems(1) have sec: "section_ok v" by simp
  show ?case
  proof (cases "find (\<lambda>i. rsize (regions v ! i) > sz) (loop_indices v)")
    case None
    with Cons.prems obtain vs' where "region_alloc_scan sz vs = Inr (a, vs')" "vect' = v # vs'"
      by (auto split: sum.splits)
    with Cons show ?thesis by auto
  next
    case (Some i)
    then have i: "i < regions_used v" "rsize (regions v ! i) > sz"
      using find_upt_Some [of _ "regions_used v" i] by (auto simp: loop_indices_ok [OF sec])
    have "regions v ! i \<in> set (live v)"
      using i length_live [OF sec] live_nth [OF i(1)] by (metis nth_mem)
    moreover from Some Cons.prems(2) have "a = address (regions v ! i)" "vect' = region_take v i sz # vs" by auto
    ultimately show ?thesis using i(2) by (auto simp: region_take_section [OF sec i])
  qed
qed simp

lemma region_alloc_scan_Inl:
  "rv_ok vect \<Longrightarrow>
   region_alloc_scan sz vect = Inl e \<longleftrightarrow>
   e = Error_No_Memory \<and> (\<forall>r \<in> set (live_regions vect). rsize r \<le> sz)"
proof (induction vect)
  case (Cons v vs)
  then have sec: "section_ok v" by simp
  have all: "(\<forall>r \<in> set (live v). rsize r \<le> sz) \<longleftrightarrow>
      (\<forall>i < regions_used v. \<not> rsize (regions v ! i) > sz)"
    using length_live [OF sec] live_nth [of _ v] by (auto simp: all_set_conv_all_nth not_less)
  show ?case
  proof (cases "find (\<lambda>i. rsize (regions v ! i) > sz) (loop_indices v)")
    case None
    with all have "\<forall>r \<in> set (live v). rsize r \<le> sz"
      by (simp add: loop_indices_ok [OF sec] find_upt_None)
    with None Cons show ?thesis by (auto split: sum.splits)
  next
    case (Some i)
    with all have "\<not> (\<forall>r \<in> set (live v). rsize r \<le> sz)"
      by (auto simp: loop_indices_ok [OF sec] dest!: find_upt_Some)
    with Some show ?thesis by auto
  qed
qed auto

subsection \<open>Giving a region back\<close>

lemma region_append_section:
  assumes "section_ok v" "regions_used v \<noteq> regions_count"
  shows "section_ok (region_append v a sz)"
    and "live (region_append v a sz) = live v @ [\<lparr>address = a, rsize = sz\<rparr>]"
  using assms
  by (auto simp: region_append_def section_ok_def live_def take_Suc_conv_app_nth)

lemma region_free_scan_Some:
  "rv_ok vect \<Longrightarrow> block_fits a sz \<Longrightarrow> region_free_scan a sz vect = Some vect' \<Longrightarrow>
   rv_ok vect' \<and> length vect' = length vect \<and>
   (\<forall>x. owners vect' x = owners vect x + (if in_block x a sz then 1 else 0))"
proof (induction vect arbitrary: vect')
  case (Cons v vs)
  show ?case
  proof (cases "regions_used v = regions_count")
    case True
    with Cons show ?thesis by auto
  next
    case False
    with Cons.prems show ?thesis by (auto simp: region_append_section)
  qed
qed simp

lemma region_free_scan_None:
  "region_free_scan a sz vect = None \<longleftrightarrow> (\<forall>v \<in> set vect. regions_used v = regions_count)"
  by (induction vect) auto

subsection \<open>Taking a region out by its address\<close>

text \<open>Overwriting index \<open>i\<close> with the last live region and dropping the last one removes the
  region at \<open>i\<close>.\<close>

lemma filter_swap_last:
  assumes "i < n" "n \<le> length xs"
  shows "length (filter P (take (n - 1) (xs[i := xs ! (n - 1)]))) + (if P (xs ! i) then 1 else 0) =
    length (filter P (take n xs))"
proof -
  from assms have n: "take n xs = take (n - 1) xs @ [xs ! (n - 1)]"
    by (metis One_nat_def Suc_pred gr_implies_not0 less_le_trans not_gr_zero
        take_Suc_conv_app_nth zero_less_Suc diff_less less_Suc_eq_le)
  show ?thesis
  proof (cases "i = n - 1")
    case True
    with assms n show ?thesis by (simp add: take_update_swap)
  next
    case False
    with assms have i: "i < n - 1" by simp
    then have "take (n - 1) xs ! i = xs ! i" by simp
    with length_filter_update [of i "take (n - 1) xs" P "xs ! (n - 1)"] i assms n show ?thesis
      by (simp add: take_update_swap)
  qed
qed

lemma live_swap_last_subset:
  assumes "i < n" "n \<le> length xs"
  shows "set (take (n - 1) (xs[i := xs ! (n - 1)])) \<subseteq> set (take n xs)"
proof -
  have "set (take (n - 1) (xs[i := xs ! (n - 1)])) \<subseteq> insert (xs ! (n - 1)) (set (take (n - 1) xs))"
    by (simp add: take_update_swap set_update_subset_insert)
  also have "\<dots> \<subseteq> set (take n xs)"
    using assms set_take_subset_set_take [of "n - 1" n xs]
    by (auto simp: in_set_conv_nth intro!: exI [of _ "n - 1"])
  finally show ?thesis .
qed

text \<open>One section's worth of \<open>region_find_size_and_free\<close>: the live regions afterwards.\<close>

definition drop_region :: "rsection \<Rightarrow> nat \<Rightarrow> rsection" where
  "drop_region v i =
     v\<lparr>regions_used := regions_used v - 1,
       regions := (regions v)[i := regions v ! (regions_used v - 1)]\<rparr>"

lemma drop_region_section:
  assumes "section_ok v" "i < regions_used v"
  shows "section_ok (drop_region v i)"
    and "set (live (drop_region v i)) \<subseteq> set (live v)"
    and "length (filter P (live (drop_region v i))) + (if P (regions v ! i) then 1 else 0) =
      length (filter P (live v))"
  using assms filter_swap_last [of i "regions_used v" "regions v" P]
    live_swap_last_subset [of i "regions_used v" "regions v"]
  by (auto simp: section_ok_def drop_region_def live_def)

lemma region_find_scan_step:
  assumes "section_ok v" "find (\<lambda>i. address (regions v ! i) = a) (loop_indices v) = Some i"
  shows "i < regions_used v" "address (regions v ! i) = a"
    and "regions_used v - 1 = 0 \<Longrightarrow> live v = [regions v ! i]"
proof -
  from assms show i: "i < regions_used v" "address (regions v ! i) = a"
    by (auto simp: loop_indices_ok dest: find_upt_Some)
  assume "regions_used v - 1 = 0"
  with i assms(1) have "regions_used v = 1" "i = 0" "length (live v) = 1"
    by (auto simp: length_live)
  then show "live v = [regions v ! i]"
    using live_nth [of 0 v] by (cases "live v") auto
qed

lemma region_find_scan_correct:
  "rv_ok vect \<Longrightarrow> region_find_scan b a vect = (sz, vect', freed) \<Longrightarrow>
   rv_ok vect' \<and>
   (if \<exists>r \<in> set (live_regions vect). address r = a
    then (\<exists>r \<in> set (live_regions vect). address r = a \<and> rsize r = sz) \<and> block_fits a sz \<and>
      (\<forall>x. owners vect x = owners vect' x + (if in_block x a sz then 1 else 0))
    else sz = 0 \<and> vect' = vect \<and> freed = None)"
proof (induction vect arbitrary: b vect' freed)
  case Nil
  then show ?case by simp
next
  case (Cons v vs)
  then have sec: "section_ok v" by simp
  show ?case
  proof (cases "find (\<lambda>i. address (regions v ! i) = a) (loop_indices v)")
    case None
    then have "\<forall>j < regions_used v. address (regions v ! j) \<noteq> a"
      by (simp add: loop_indices_ok [OF sec] find_upt_None)
    then have no: "\<not> (\<exists>r \<in> set (live v). address r = a)"
      by (metis in_set_conv_nth length_live [OF sec] live_nth)
    from None Cons.prems(2) obtain vs' where
      *: "region_find_scan True a vs = (sz, vs', freed)" "vect' = v # vs'"
      by (auto split: prod.splits)
    note ih = Cons.IH [OF _ *(1)]
    show ?thesis
    proof (cases "\<exists>r \<in> set (live_regions vs). address r = a")
      case True
      with ih Cons.prems(1) have "rv_ok vs' \<and>
          (\<exists>r \<in> set (live_regions vs). address r = a \<and> rsize r = sz) \<and> block_fits a sz \<and>
          (\<forall>x. owners vs x = owners vs' x + (if in_block x a sz then 1 else 0))" by simp
      moreover from True have "\<exists>r \<in> set (live_regions (v # vs)). address r = a" by auto
      ultimately show ?thesis using Cons.prems(1) *(2) by auto
    next
      case False
      with ih Cons.prems(1) have "sz = 0 \<and> vs' = vs \<and> freed = None" by simp
      moreover from False no have "\<not> (\<exists>r \<in> set (live_regions (v # vs)). address r = a)" by auto
      ultimately show ?thesis using Cons.prems(1) *(2) by auto
    qed
  next
    case (Some i)
    note hit = region_find_scan_step [OF sec Some]
    let ?r = "regions v ! i"
    have mem: "?r \<in> set (live v)"
      using hit(1) length_live [OF sec] live_nth [OF hit(1)] by (metis nth_mem)
    with Cons.prems(1) have fits: "block_fits a (rsize ?r)"
      using hit(2) by (auto simp: list_all_iff)
    note dropped = drop_region_section [OF sec hit(1)]
    have keep: "list_all (\<lambda>r. block_fits (address r) (rsize r)) (live (drop_region v i))"
      using Cons.prems(1) dropped(2) by (auto simp: list_all_iff)
    consider (more) "regions_used v - 1 \<noteq> 0" | (last) "regions_used v - 1 = 0" b
      | (empty) "regions_used v - 1 = 0" "\<not> b" by blast
    then show ?thesis
    proof cases
      case more
      with Some Cons.prems(2) have "sz = rsize ?r" "vect' = drop_region v i # vs"
        by (auto simp: Let_def drop_region_def)
      with Cons.prems(1) dropped(1) dropped(3) [of "\<lambda>r. in_block _ (address r) (rsize r)"]
        keep mem fits hit(2)
      show ?thesis by (auto simp: add.commute)
    next
      case last
      with Some Cons.prems(2) have "sz = rsize ?r" "vect' = vs" by (auto simp: Let_def)
      with hit(3) [OF last(1)] Cons.prems(1) mem fits hit(2) show ?thesis by auto
    next
      case empty
      with Some Cons.prems(2) have "sz = rsize ?r" "vect' = v\<lparr>regions_used := 0\<rparr> # vs"
        by (auto simp: Let_def)
      with hit(3) [OF empty(1)] Cons.prems(1) mem fits hit(2) show ?thesis
        by (auto simp: section_ok_def live_def)
    qed
  qed
qed

subsection \<open>The pool interface\<close>

text \<open>What the slab allocator and the heap rely on: an allocation gives a block whose bytes
  leave the pool, a release puts at most those of the block back. \<open>own s x\<close> counts how often byte
  \<open>x\<close> is in the pool. A release may take bytes out as well: a full vector is extended by a page,
  and the slab allocator takes that page from a vector of its own.\<close>

locale region_pool =
  fixes invar :: "'s \<Rightarrow> bool"
    and own :: "'s \<Rightarrow> nat \<Rightarrow> nat"
    and alloc :: "u64 \<Rightarrow> 's \<Rightarrow> ((status + u64) \<times> 's) res"
    and release :: "u64 \<Rightarrow> u64 \<Rightarrow> 's \<Rightarrow> 's res"
  assumes alloc_own: "invar s \<Longrightarrow> alloc sz s = Ret (Inr a, s') \<Longrightarrow>
      invar s' \<and> block_fits a sz \<and>
      (\<forall>x. own s' x + (if in_block x a sz then 1 else 0) \<le> own s x)"
    and alloc_fails: "invar s \<Longrightarrow> alloc sz s = Ret (Inl e, s') \<Longrightarrow> s' = s"
    and release_own: "invar s \<Longrightarrow> block_fits a sz \<Longrightarrow> release a sz s = Ret s' \<Longrightarrow>
      invar s' \<and> (\<forall>x. own s' x \<le> own s x + (if in_block x a sz then 1 else 0))"

text \<open>A client's history: it asks for blocks, and gives back some of those it holds. A request
  that fails leaves what it holds as it was; the history ends where a call does not return.\<close>

datatype pool_op = Pool_Alloc u64 | Pool_Release nat

fun pool_run ::
    "(u64 \<Rightarrow> 's \<Rightarrow> ((status + u64) \<times> 's) res) \<Rightarrow> (u64 \<Rightarrow> u64 \<Rightarrow> 's \<Rightarrow> 's res) \<Rightarrow>
     pool_op list \<Rightarrow> 's \<times> (u64 \<times> u64) list \<Rightarrow> ('s \<times> (u64 \<times> u64) list) res" where
  "pool_run alloc release [] (s, held) = Ret (s, held)"
| "pool_run alloc release (Pool_Alloc sz # ops) (s, held) =
     res_bind (alloc sz s) (\<lambda>(r, s1).
     pool_run alloc release ops (s1, case r of Inl _ \<Rightarrow> held | Inr a \<Rightarrow> (a, sz) # held))"
| "pool_run alloc release (Pool_Release n # ops) (s, held) =
     (if n < length held then
        res_bind (release (fst (held ! n)) (snd (held ! n)) s) (\<lambda>s1.
        pool_run alloc release ops (s1, take n held @ drop (Suc n) held))
      else pool_run alloc release ops (s, held))"

definition holders :: "(u64 \<times> u64) list \<Rightarrow> nat \<Rightarrow> nat" where
  "holders held x = length (filter (\<lambda>(a, sz). in_block x a sz) held)"

lemma two_holders:
  assumes "i < j" "j < length held" "in_block x (fst (held ! i)) (snd (held ! i))"
    "in_block x (fst (held ! j)) (snd (held ! j))"
  shows "holders held x \<ge> 2"
proof -
  let ?P = "\<lambda>(a, sz). in_block x a sz"
  have "held = take j held @ held ! j # drop (Suc j) held"
    using assms(2) by (rule id_take_nth_drop)
  then have "holders held x = length (filter ?P (take j held @ held ! j # drop (Suc j) held))"
    by (simp add: holders_def)
  moreover have "held ! i \<in> set (filter ?P (take j held))"
    using assms by (auto simp: in_set_conv_nth split: prod.splits intro!: exI [of _ i])
  then have "length (filter ?P (take j held)) \<ge> 1"
    by (metis One_nat_def Suc_leI length_pos_if_in_set)
  ultimately show ?thesis using assms(4) by (simp add: case_prod_beta)
qed

context region_pool
begin

lemma release_ledger:
  assumes "invar s" "\<forall>(a, sz) \<in> set held. block_fits a sz" "n < length held"
    and "release (fst (held ! n)) (snd (held ! n)) s = Ret s'" "held' = take n held @ drop (Suc n) held"
  shows "invar s' \<and> (\<forall>(a, sz) \<in> set held'. block_fits a sz) \<and>
    own s' x + holders held' x \<le> own s x + holders held x"
proof -
  have "(fst (held ! n), snd (held ! n)) \<in> set held" using assms(3) by simp
  with assms(2) have "block_fits (fst (held ! n)) (snd (held ! n))" by blast
  from release_own [OF assms(1) this assms(4)]
  have "invar s'" "own s' x \<le> own s x +
      (if in_block x (fst (held ! n)) (snd (held ! n)) then 1 else 0)" by blast+
  moreover have "holders held' x +
      (if in_block x (fst (held ! n)) (snd (held ! n)) then 1 else 0) = holders held x"
    using length_filter_remove [of n held "\<lambda>(a, sz). in_block x a sz"] assms(3,5)
    by (simp add: holders_def case_prod_beta)
  moreover have "set held' \<subseteq> set held" by (auto simp: assms(5) dest: in_set_takeD in_set_dropD)
  ultimately show ?thesis using assms(2) by (auto split: prod.splits)
qed

lemma pool_run_ledger:
  assumes "invar s" "\<forall>(a, sz) \<in> set held. block_fits a sz" "pool_run alloc release ops (s, held) = Ret (s', held')"
  shows "invar s' \<and> own s' x + holders held' x \<le> own s x + holders held x"
  using assms
proof (induction ops arbitrary: s held)
  case (Cons p ops)
  show ?case
  proof (cases p)
    case (Pool_Alloc sz)
    with Cons.prems(3) obtain r s1 where r: "alloc sz s = Ret (r, s1)"
      "pool_run alloc release ops (s1, case r of Inl _ \<Rightarrow> held | Inr a \<Rightarrow> (a, sz) # held) = Ret (s', held')"
      by (auto simp: res_bind_Ret_iff)
    show ?thesis
    proof (cases r)
      case (Inl e)
      with alloc_fails Cons r show ?thesis by fastforce
    next
      case (Inr a)
      with alloc_own [OF Cons.prems(1), of sz a s1] r have s1: "invar s1" "block_fits a sz"
        "own s1 x + (if in_block x a sz then 1 else 0) \<le> own s x" by blast+
      with Cons.IH [of s1 "(a, sz) # held"] r(2) Inr Cons.prems(2) show ?thesis
        by (auto simp: holders_def split: if_splits)
    qed
  next
    case (Pool_Release n)
    show ?thesis
    proof (cases "n < length held")
      case True
      with Pool_Release Cons.prems(3) obtain s1 where
        s1: "release (fst (held ! n)) (snd (held ! n)) s = Ret s1"
        "pool_run alloc release ops (s1, take n held @ drop (Suc n) held) = Ret (s', held')"
        by (auto simp: res_bind_Ret_iff)
      from release_ledger [OF Cons.prems(1,2) True s1(1) refl, of x] Cons.IH [OF _ _ s1(2)]
      show ?thesis by fastforce
    next
      case False
      with Pool_Release Cons show ?thesis by simp
    qed
  qed
qed simp

text \<open>Blocks that are held are disjoint from one another and from the pool.\<close>

lemma blocks_disjoint:
  assumes "invar s" "\<And>x. own s x \<le> 1" "pool_run alloc release ops (s, []) = Ret (s', held)"
    and "i < length held" "in_block x (fst (held ! i)) (snd (held ! i))"
  shows "own s' x = 0 \<and> (\<forall>j < length held. i \<noteq> j \<longrightarrow> \<not> in_block x (fst (held ! j)) (snd (held ! j)))"
proof -
  have le: "own s' x + holders held x \<le> 1"
    using pool_run_ledger [OF assms(1) _ assms(3), of x] assms(2) [of x] by (simp add: holders_def)
  have "held ! i \<in> set (filter (\<lambda>(a, sz). in_block x a sz) held)"
    using assms(4,5) by (auto split: prod.splits)
  then have "0 < holders held x" unfolding holders_def by (rule length_pos_if_in_set)
  with le have "own s' x = 0" "holders held x < 2" by linarith+
  with two_holders [of _ _ held x] assms(4,5) show ?thesis
    by (metis linorder_neqE_nat linorder_not_le)
qed

end

text \<open>A vector inside a state, with the routine that gives it pages, is such a pool if that routine
  takes nothing but regions out of the vector.\<close>

definition vect_alloc ::
    "('s \<Rightarrow> rvector) \<Rightarrow> (rvector \<Rightarrow> 's \<Rightarrow> 's) \<Rightarrow> u64 \<Rightarrow> 's \<Rightarrow> ((status + u64) \<times> 's) res" where
  "vect_alloc get put sz s =
     res_bind (region_alloc (get s) sz) (\<lambda>r.
     case r of Inl e \<Rightarrow> Ret (Inl e, s) | Inr (a, v) \<Rightarrow> Ret (Inr a, put v s))"

lemma rv_ok_append [simp]: "rv_ok (vs @ ws) \<longleftrightarrow> rv_ok vs \<and> rv_ok ws"
  by (induction vs) auto

lemma owners_append [simp]: "owners (vs @ ws) x = owners vs x + owners ws x"
  by (induction vs) auto

lemma fresh_section_ok: "section_ok (fresh_section p)" "live (fresh_section p) = []"
  by (simp_all add: section_ok_def fresh_section_def live_def)

lemma first_region:
  assumes "block_fits a sz"
    and "v = (fresh_section p)\<lparr>regions_used := 1, regions := (regions (fresh_section p))[0 := \<lparr>address = a, rsize = sz\<rparr>]\<rparr>"
  shows "rv_ok [v]" "owners [v] x = (if in_block x a sz then 1 else 0)"
proof -
  have "live v = [\<lparr>address = a, rsize = sz\<rparr>]" "section_ok v"
    by (simp_all add: assms(2) live_def fresh_section_def regions_count_eq section_ok_def take_Suc_conv_app_nth)
  with assms(1) show "rv_ok [v]" "owners [v] x = (if in_block x a sz then 1 else 0)" by simp_all
qed

locale vector_in_state =
  fixes get :: "'s \<Rightarrow> rvector" and put :: "rvector \<Rightarrow> 's \<Rightarrow> 's" and sal :: "'s slab_alloc_f"
  assumes get_put: "get (put v s) = v"
    and sal_own: "rv_ok (get s) \<Longrightarrow> sal Page_Small Memory_Writable s = Ret (p, s') \<Longrightarrow>
      rv_ok (get s') \<and> (\<forall>x. owners (get s') x \<le> owners (get s) x)"

sublocale vector_in_state \<subseteq>
  region_pool "\<lambda>s. rv_ok (get s)" "\<lambda>s. owners (get s)" "vect_alloc get put" "region_free get put sal"
proof unfold_locales
  fix s sz a s'
  assume "rv_ok (get s)" "vect_alloc get put sz s = Ret (Inr a, s')"
  then show "rv_ok (get s') \<and> block_fits a sz \<and>
      (\<forall>x. owners (get s') x + (if in_block x a sz then 1 else 0) \<le> owners (get s) x)"
    using region_alloc_scan_Inr [of "get s" sz a]
    by (auto simp: vect_alloc_def region_alloc_def res_bind_Ret_iff get_put split: sum.splits)
next
  fix s sz e s'
  assume "rv_ok (get s)" "vect_alloc get put sz s = Ret (Inl e, s')"
  then show "s' = s"
    by (auto simp: vect_alloc_def res_bind_Ret_iff split: sum.splits) (metis old.prod.exhaust sum.exhaust)
next
  fix s a sz s'
  assume ok: "rv_ok (get s)" "block_fits a sz" and run: "region_free get put sal a sz s = Ret s'"
  show "rv_ok (get s') \<and> (\<forall>x. owners (get s') x \<le> owners (get s) x + (if in_block x a sz then 1 else 0))"
  proof (cases "region_free_scan a sz (get s)")
    case (Some v)
    with run have "s' = put v s" by (auto simp: region_free_def split: if_splits)
    with region_free_scan_Some [OF ok Some] show ?thesis by (simp add: get_put)
  next
    case None
    with run obtain p s1 where s1: "sal Page_Small Memory_Writable s = Ret (p, s1)"
      "get s' = get s1 @ [(fresh_section p)\<lparr>regions_used := 1,
         regions := (regions (fresh_section p))[0 := \<lparr>address = a, rsize = sz\<rparr>]\<rparr>]"
      by (auto simp: region_free_def extend_vector_def res_bind_Ret_iff get_put split: if_splits option.splits)
    note own = sal_own [OF ok(1) s1(1)] and new = first_region [OF ok(2) refl, of p]
    show ?thesis unfolding s1(2) rv_ok_append owners_append new(2) using own new(1) by simp
  qed
qed

text \<open>A vector with one region, for concrete runs.\<close>

definition one_region :: "u64 \<Rightarrow> u64 \<Rightarrow> rvector" where
  "one_region a sz = [region_append (fresh_section 0x9000) a sz]"

lemma fresh_section_room: "regions_used (fresh_section p) \<noteq> regions_count"
  by (simp add: fresh_section_def regions_count_eq)

lemma one_region_live: "live_regions (one_region a sz) = [\<lparr>address = a, rsize = sz\<rparr>]"
  and one_region_ok: "block_fits a sz \<Longrightarrow> rv_ok (one_region a sz)"
  and one_region_owners: "owners (one_region a sz) x \<le> 1"
  using region_append_section [OF fresh_section_ok(1) fresh_section_room, of "0x9000" a sz]
  by (auto simp: one_region_def fresh_section_ok)

text \<open>\<open>region_alloc\<close> fails exactly when no live region is strictly larger than the
  request, and then with \<open>Error_No_Memory\<close>; a region of exactly the requested size is refused.\<close>

theorem region_alloc_fails_iff:
  assumes "rv_ok vect" "vect \<noteq> []"
  shows "region_alloc vect sz = Ret (Inl e) \<longleftrightarrow>
    e = Error_No_Memory \<and> (\<forall>r \<in> set (live_regions vect). rsize r \<le> sz)"
  using assms by (simp add: region_alloc_def region_alloc_scan_Inl)

theorem region_alloc_fails_iff_witness:
  "region_alloc (one_region 0x1000 0x3000) 0x3000 = Ret (Inl Error_No_Memory)"
proof -
  have ok: "rv_ok (one_region 0x1000 0x3000)"
    by (rule one_region_ok) (simp add: block_fits_def)
  have ne: "one_region 0x1000 0x3000 \<noteq> []" by (simp add: one_region_def)
  show ?thesis by (simp add: region_alloc_fails_iff [OF ok ne] one_region_live)
qed

text \<open>Looking a region up by its address returns its size and takes exactly its bytes out
  of the vector; with no region at that address it returns 0 and changes nothing.\<close>

theorem region_find_size_and_free_correct:
  assumes "rv_ok (get s)" "get s \<noteq> []" "\<And>v t. get (put v t) = v"
    and "\<And>b p t t'. sfl b p t = Ret t' \<Longrightarrow> get t' = get t"
    and "region_find_size_and_free get put sfl a s = Ret (sz, s')"
  shows "rv_ok (get s') \<and>
    (if \<exists>r \<in> set (live_regions (get s)). address r = a
     then (\<exists>r \<in> set (live_regions (get s)). address r = a \<and> rsize r = sz) \<and>
       (\<forall>x. owners (get s) x = owners (get s') x + (if in_block x a sz then 1 else 0))
     else sz = 0 \<and> get s' = get s)"
proof -
  obtain sz1 vect freed where scan: "region_find_scan False a (get s) = (sz1, vect, freed)"
    by (metis prod_cases3)
  with assms have "sz1 = sz" "get s' = vect"
    by (auto simp: region_find_size_and_free_def res_bind_Ret_iff split: option.splits)
  with region_find_scan_correct [OF assms(1) scan] show ?thesis
    by (cases "\<exists>r \<in> set (live_regions (get s)). address r = a") auto
qed

theorem region_find_size_and_free_correct_witness:
  "\<exists>s'. region_find_size_and_free id (\<lambda>v _. v) (\<lambda>_ _. Ret) 0x1000 (one_region 0x1000 0x3000)
      = Ret (0x3000, s') \<and> owners s' 0x1234 = 0"
proof -
  let ?v = "one_region 0x1000 0x3000"
  have ok: "rv_ok (id ?v)" by (simp add: one_region_ok block_fits_def)
  have ne: "id ?v \<noteq> []" by (simp add: one_region_def)
  obtain sz s' where r: "region_find_size_and_free id (\<lambda>v _. v) (\<lambda>_ _. Ret) 0x1000 ?v = Ret (sz, s')"
    using ne by (cases "region_find_scan False 0x1000 ?v" rule: prod_cases3)
      (auto simp: region_find_size_and_free_def option.case_eq_if)
  from region_find_size_and_free_correct [OF ok ne _ _ r]
  have "sz = 0x3000 \<and> owners ?v 0x1234 = owners s' 0x1234 + 1"
    by (auto simp: one_region_live in_block_def)
  with r one_region_owners [of "0x1000" "0x3000" "0x1234"] show ?thesis by fastforce
qed

text \<open>\<open>region_alloc_random\<close> does not meet the contract of a pool: when the random address falls
  inside a region with room on both sides, the block it returns stays in the vector, so the
  next allocation can hand it out again.\<close>

theorem region_alloc_random_keeps_block:
  "\<exists>v v' a. rv_ok v \<and> (\<forall>x. owners v x \<le> 1) \<and>
     region_alloc_random fst (\<lambda>w t. (w, snd t)) (\<lambda>_ _ t. Ret (0, t))
       (\<lambda>t. Ret (0x4000, t)) 0x1000 (v, ()) = Ret (Inr a, (v', ())) \<and>
     in_block 0x4000 a 0x1000 \<and> owners v' 0x4000 = 1"
proof (intro exI conjI)
  let ?v = "one_region 0x1000 0x10000"
  let ?v' = "set_region ?v 0 0 \<lparr>address = 0x2000, rsize = 0xc000\<rparr>"
  show "rv_ok ?v" by (rule one_region_ok) (simp add: block_fits_def)
  show "\<forall>x. owners ?v x \<le> 1" using one_region_owners by blast
  have scan: "random_scan 0x4000 ?v 0 = Some (0, 0)" by code_simp
  have tries: "Region_Vector_Max_Random_Addresses = Suc 4"
    by (simp add: Region_Vector_Max_Random_Addresses_def)
  have ne: "?v \<noteq> []" by (simp add: one_region_def)
  have reg: "regions (?v ! 0) ! 0 = \<lparr>address = 0x1000, rsize = 0x10000\<rparr>"
    by (simp add: one_region_def region_append_def fresh_section_def regions_count_eq)
  show "region_alloc_random fst (\<lambda>w t. (w, snd t)) (\<lambda>_ _ t. Ret (0, t))
       (\<lambda>t. Ret (0x4000, t)) 0x1000 (?v, ()) = Ret (Inr 0x4000, (?v', ()))"
    unfolding region_alloc_random_def tries region_alloc_random_tries.simps using scan reg
    by (simp add: Let_def ne)
  show "in_block 0x4000 0x4000 0x1000" by (simp add: in_block_def)
  show "owners ?v' 0x4000 = 1"
    by (simp add: set_region_def one_region_def region_append_def fresh_section_def live_def
        regions_count_eq in_block_def take_Suc_conv_app_nth)
qed

end
