(* ===== verification/Hashtable.thy ===== *)
theory Hashtable
  imports Kstring
begin

text \<open>
  \<open>kernel/core/hashtable.c\<close>: the open addressing hash table behind the symbol table and the
  process pool.

  A table is its \<open>struct hashtable\<close> with the array it points to; an array slot is addressed by
  its index. The heap is reached through two arguments, \<open>kmalloc\<close> and \<open>kfree\<close>, over a state
  of their own. \<open>hashtable_put\<close> and \<open>hashtable_rebalance\<close> call one another; every nested call
  works on a table of at least twice the size, so a depth of 64 is never exceeded (the size
  would not fit 64 bits), and the theorems below show that on a well-formed table the depth is
  one. The locale \<open>table_heap\<close> is the contract the tables need of the two functions;
  \<open>Kernel_Tables\<close> shows that the kernel's heap meets it.
\<close>

subsection \<open>Data\<close>

datatype hashdata_state = Hashdata_Empty | Hashdata_Tombstone | Hashdata_Full

record hashdata =
  hd_state :: hashdata_state
  hd_key :: u64
  hd_value :: u64

type_synonym hash_f = "u64 \<Rightarrow> u64 res"
type_synonym partial_comp_f = "u64 \<Rightarrow> u64 \<Rightarrow> partial"

record hashtable =
  ht_used :: u64
  ht_size :: u64
  ht_hash :: hash_f
  ht_comp :: partial_comp_f
  ht_data_at :: u64
  ht_data :: "hashdata list"

type_synonym 's kmalloc_f = "u64 \<Rightarrow> 's \<Rightarrow> (u64 \<times> 's) res"
type_synonym 's kfree_f = "u64 \<Rightarrow> 's \<Rightarrow> 's res"

definition negative_golden_ratio :: u64 where
  "negative_golden_ratio = 0x61C88647"

definition sizeof_hashdata :: u64 where "sizeof_hashdata = 24"
definition sizeof_hashtable :: u64 where "sizeof_hashtable = 40"

text \<open>The array after \<open>memset (data, 0, size * sizeof (struct hashdata))\<close>: as many slots as the
  (possibly wrapped) byte count holds.\<close>

definition zeroed_data :: "u64 \<Rightarrow> hashdata list" where
  "zeroed_data sz = replicate (unat (sz * sizeof_hashdata) div unat sizeof_hashdata)
     \<lparr>hd_state = Hashdata_Empty, hd_key = 0, hd_value = 0\<rparr>"

definition slot :: "hashtable \<Rightarrow> nat \<Rightarrow> hashdata res" where
  "slot ht s = (if s < length (ht_data ht) then Ret (ht_data ht ! s) else Fault)"

subsection \<open>String keys\<close>

text \<open>A \<open>char\<close> is sign extended by the addition.\<close>

partial_function (option) hash_str_loop :: "mem \<Rightarrow> u64 \<Rightarrow> u64 \<Rightarrow> u64 \<Rightarrow> u64 option" where
  "hash_str_loop m cstr i hash =
     (if m (cstr + i) \<noteq> 0 then
        hash_str_loop m cstr (i + 1)
          (hash XOR (scast (m (cstr + i)) + push_bit 5 hash + drop_bit 2 hash))
      else Some hash)"

definition hash_str :: "mem \<Rightarrow> u64 \<Rightarrow> u64 res" where
  "hash_str m str =
     (case hash_str_loop m str 0 negative_golden_ratio of None \<Rightarrow> Hang | Some h \<Rightarrow> Ret h)"

definition hash_str_comp :: "mem \<Rightarrow> u64 \<Rightarrow> u64 \<Rightarrow> partial" where
  "hash_str_comp m key_a key_b =
     (if strncmp m key_a key_b Page_Small \<noteq> 0 then Partial_Not_Equal else Partial_Equal)"

subsection \<open>Creation and destruction\<close>

definition hashtable_init ::
    "'s kmalloc_f \<Rightarrow> 's kfree_f \<Rightarrow> u64 \<Rightarrow> hash_f \<Rightarrow> partial_comp_f \<Rightarrow> 's
      \<Rightarrow> ((u64 \<times> hashtable) option \<times> 's) res" where
  "hashtable_init kmalloc kfree sz hf hc s =
     res_bind (kmalloc sizeof_hashtable s) (\<lambda>(table, s1).
     if table = 0 then Ret (None, s1)
     else
       res_bind (kmalloc (sz * sizeof_hashdata) s1) (\<lambda>(data, s2).
       if data = 0 then res_bind (kfree table s2) (\<lambda>s3. Ret (None, s3))
       else Ret (Some (table, \<lparr>ht_used = 0, ht_size = sz, ht_hash = hf, ht_comp = hc,
                               ht_data_at = data, ht_data = zeroed_data sz\<rparr>), s2)))"

definition hashtable_destroy :: "'s kfree_f \<Rightarrow> u64 \<Rightarrow> hashtable \<Rightarrow> 's \<Rightarrow> 's res" where
  "hashtable_destroy kfree table ht s = res_bind (kfree (ht_data_at ht) s) (kfree table)"

subsection \<open>Probing\<close>

text \<open>\<open>ht->hash(key) % ht->size\<close>; a size of 0 is a division by zero.\<close>

definition home_slot :: "hashtable \<Rightarrow> u64 \<Rightarrow> nat res" where
  "home_slot ht key =
     res_bind (ht_hash ht key) (\<lambda>h.
     if ht_size ht = 0 then Fault else Ret (unat (h mod ht_size ht)))"

text \<open>The distance that is left on the way round from \<open>s\<close> to \<open>hash\<close>.\<close>

definition probe_left :: "nat \<Rightarrow> nat \<Rightarrow> nat \<Rightarrow> nat" where
  "probe_left n hash s = (hash + n - s) mod n"

lemma probe_left_step:
  assumes "hash < n" "s < n" "s \<noteq> hash"
  shows "probe_left n hash ((s + 1) mod n) < probe_left n hash s"
proof (cases "s < hash")
  case True
  then have "probe_left n hash s = hash - s" "probe_left n hash ((s + 1) mod n) = hash - s - 1"
    using assms by (simp_all add: probe_left_def mod_if)
  with True show ?thesis by simp
next
  case False
  with assms have "probe_left n hash s = hash + n - s" by (simp add: probe_left_def)
  moreover have "probe_left n hash ((s + 1) mod n) = hash + n - s - 1"
    using False assms by (cases "s + 1 = n") (simp_all add: probe_left_def)
  ultimately show ?thesis using assms False by simp
qed

function seek_loop :: "hashtable \<Rightarrow> u64 \<Rightarrow> nat \<Rightarrow> nat \<Rightarrow> nat option res" where
  "seek_loop ht key hash s =
     (if hash \<ge> unat (ht_size ht) \<or> s \<ge> unat (ht_size ht) then Fault
      else if s = hash then Panic
      else
        res_bind (slot ht s) (\<lambda>d.
        if hd_state d = Hashdata_Empty then Ret None
        else if hd_state d = Hashdata_Tombstone then
          seek_loop ht key hash ((s + 1) mod unat (ht_size ht))
        else if ht_comp ht key (hd_key d) = Partial_Equal then Ret (Some s)
        else seek_loop ht key hash ((s + 1) mod unat (ht_size ht))))"
  by pat_completeness auto
termination
  by (relation "measure (\<lambda>(ht, key, hash, s). probe_left (unat (ht_size ht)) hash s)")
    (auto intro!: probe_left_step [simplified])

definition hashtable_seek :: "hashtable \<Rightarrow> u64 \<Rightarrow> nat option res" where
  "hashtable_seek ht key =
     res_bind (home_slot ht key) (\<lambda>hash.
     res_bind (slot ht hash) (\<lambda>d.
     if hd_state d = Hashdata_Full \<and> ht_comp ht key (hd_key d) = Partial_Equal
     then Ret (Some hash)
     else seek_loop ht key hash ((hash + 1) mod unat (ht_size ht))))"

function seek_empty_loop :: "hashtable \<Rightarrow> nat \<Rightarrow> nat \<Rightarrow> (nat \<times> hashtable) res" where
  "seek_empty_loop ht hash s =
     (if hash \<ge> unat (ht_size ht) \<or> s \<ge> unat (ht_size ht) then Fault
      else if s = hash then Panic
      else
        res_bind (slot ht s) (\<lambda>d.
        if hd_state d = Hashdata_Empty then
          Ret (s, ht\<lparr>ht_data := (ht_data ht)[s := d\<lparr>hd_state := Hashdata_Full\<rparr>]\<rparr>)
        else seek_empty_loop ht hash ((s + 1) mod unat (ht_size ht))))"
  by pat_completeness auto
termination
  by (relation "measure (\<lambda>(ht, hash, s). probe_left (unat (ht_size ht)) hash s)")
    (auto intro!: probe_left_step [simplified])

definition hashtable_seek_empty :: "hashtable \<Rightarrow> u64 \<Rightarrow> (nat \<times> hashtable) res" where
  "hashtable_seek_empty ht key =
     res_bind (home_slot ht key) (\<lambda>hash.
     res_bind (slot ht hash) (\<lambda>d.
     if hd_state d = Hashdata_Empty then Ret (hash, ht)
     else seek_empty_loop ht hash ((hash + 1) mod unat (ht_size ht))))"

declare seek_loop.simps [simp del] seek_empty_loop.simps [simp del]

subsection \<open>Operations\<close>

definition should_grow :: "u64 \<Rightarrow> u64 \<Rightarrow> bool" where
  "should_grow sz used \<longleftrightarrow> sz - used < sz div 4"

definition should_shrink :: "u64 \<Rightarrow> u64 \<Rightarrow> bool" where
  "should_shrink sz used \<longleftrightarrow> used < sz div 4 \<and> sz < 32"

type_synonym 's put_f = "hashtable \<Rightarrow> u64 \<Rightarrow> u64 \<Rightarrow> 's \<Rightarrow> (status \<times> hashtable \<times> 's) res"

fun rebalance_loop :: "'s put_f \<Rightarrow> hashdata list \<Rightarrow> hashtable \<Rightarrow> 's
      \<Rightarrow> (status \<times> hashtable \<times> 's) res" where
  "rebalance_loop put [] new s = Ret (Ok, new, s)"
| "rebalance_loop put (d # ds) new s =
     (if hd_state d \<noteq> Hashdata_Empty \<and> hd_state d \<noteq> Hashdata_Tombstone then
        res_bind (put new (hd_key d) (hd_value d) s) (\<lambda>(st, new1, s1).
        if st \<noteq> Ok then Ret (st, new1, s1) else rebalance_loop put ds new1 s1)
      else rebalance_loop put ds new s)"

definition hashtable_rebalance ::
    "'s put_f \<Rightarrow> 's kmalloc_f \<Rightarrow> 's kfree_f \<Rightarrow> hashtable \<Rightarrow> u64 \<Rightarrow> 's
      \<Rightarrow> (status \<times> hashtable \<times> 's) res" where
  "hashtable_rebalance put kmalloc kfree ht new_size s =
     res_bind (kassert (new_size > ht_size ht)) (\<lambda>_.
     res_bind (kmalloc (new_size * sizeof_hashdata) s) (\<lambda>(data, s1).
     if data = 0 then Ret (Error_No_Memory, ht, s1)
     else
       res_bind (rebalance_loop put (ht_data ht)
          \<lparr>ht_used = 0, ht_size = new_size, ht_hash = ht_hash ht, ht_comp = ht_comp ht,
           ht_data_at = data, ht_data = zeroed_data new_size\<rparr> s1) (\<lambda>(st, new, s2).
       if st \<noteq> Ok then Ret (st, ht, s2)
       else
         res_bind (kfree (ht_data_at ht) s2) (\<lambda>s3.
         Ret (Ok, ht\<lparr>ht_data_at := ht_data_at new, ht_data := ht_data new,
                     ht_used := ht_used new, ht_size := ht_size new\<rparr>, s3)))))"

definition store_entry :: "hashtable \<Rightarrow> nat \<Rightarrow> u64 \<Rightarrow> u64 \<Rightarrow> hashtable" where
  "store_entry ht i key v =
     ht\<lparr>ht_data := (ht_data ht)[i := \<lparr>hd_state = Hashdata_Full, hd_key = key, hd_value = v\<rparr>],
        ht_used := ht_used ht + 1\<rparr>"

primrec put_depth :: "nat \<Rightarrow> 's kmalloc_f \<Rightarrow> 's kfree_f \<Rightarrow> 's put_f" where
  "put_depth 0 kmalloc kfree ht key v s = Hang"
| "put_depth (Suc n) kmalloc kfree ht key v s =
     res_bind (hashtable_seek_empty ht key) (\<lambda>(i, ht1).
     (let ht2 = store_entry ht1 i key v in
      if should_grow (ht_size ht2) (ht_used ht2) then
        hashtable_rebalance (put_depth n kmalloc kfree) kmalloc kfree ht2 (ht_size ht2 * 2) s
      else Ret (Ok, ht2, s)))"

definition hashtable_put :: "'s kmalloc_f \<Rightarrow> 's kfree_f \<Rightarrow> 's put_f" where
  "hashtable_put = put_depth 66"

definition hashtable_remove ::
    "'s kmalloc_f \<Rightarrow> 's kfree_f \<Rightarrow> hashtable \<Rightarrow> u64 \<Rightarrow> 's \<Rightarrow> (status \<times> hashtable \<times> 's) res" where
  "hashtable_remove kmalloc kfree ht key s =
     res_bind (hashtable_seek ht key) (\<lambda>hd.
     res_bind (deref hd) (\<lambda>i.
     (let ht1 = ht\<lparr>ht_data := (ht_data ht)[i := (ht_data ht ! i)\<lparr>hd_state := Hashdata_Tombstone\<rparr>],
                   ht_used := ht_used ht - 1\<rparr> in
      if should_shrink (ht_size ht1) (ht_used ht1) then
        hashtable_rebalance (hashtable_put kmalloc kfree) kmalloc kfree ht1 (ht_size ht1 div 2) s
      else Ret (Ok, ht1, s))))"

definition hashtable_get :: "hashtable \<Rightarrow> u64 \<Rightarrow> u64 res" where
  "hashtable_get ht key =
     res_bind (hashtable_seek ht key) (\<lambda>hd.
     case hd of Some i \<Rightarrow> Ret (hd_value (ht_data ht ! i)) | None \<Rightarrow> Ret 0)"


subsection \<open>What a probe finds\<close>

definition probe :: "nat \<Rightarrow> nat \<Rightarrow> nat \<Rightarrow> nat" where
  "probe n h k = (h + k) mod n"

definition state_at :: "hashtable \<Rightarrow> nat \<Rightarrow> hashdata_state" where
  "state_at ht i = hd_state (ht_data ht ! i)"

definition matches :: "hashtable \<Rightarrow> u64 \<Rightarrow> nat \<Rightarrow> bool" where
  "matches ht key i \<longleftrightarrow> state_at ht i = Hashdata_Full \<and>
     ht_comp ht key (hd_key (ht_data ht ! i)) = Partial_Equal"

lemma probe_less: "0 < n \<Longrightarrow> probe n h k < n"
  by (simp add: probe_def)

lemma probe_0 [simp]: "h < n \<Longrightarrow> probe n h 0 = h"
  by (simp add: probe_def)

lemma probe_Suc: "(probe n h k + 1) mod n = probe n h (Suc k)"
  by (simp add: probe_def mod_simps)

lemma probe_eq_iff:
  assumes "j < n" "k < n" "h < n"
  shows "probe n h j = probe n h k \<longleftrightarrow> j = k"
proof -
  have "probe n h i = (if h + i < n then h + i else h + i - n)" if "i < n" for i
    using assms(3) that by (simp add: probe_def mod_if)
  with assms show ?thesis by auto
qed

lemma probe_home_iff: "0 < k \<Longrightarrow> k \<le> n \<Longrightarrow> h < n \<Longrightarrow> probe n h k = h \<longleftrightarrow> k = n"
  by (auto simp: probe_def mod_if split: if_splits)

text \<open>Every slot is on the probe sequence.\<close>

definition probe_dist :: "nat \<Rightarrow> nat \<Rightarrow> nat \<Rightarrow> nat" where
  "probe_dist n h i = (if h \<le> i then i - h else i + n - h)"

lemma probe_dist:
  assumes "h < n" "i < n"
  shows "probe_dist n h i < n" "probe n h (probe_dist n h i) = i"
  using assms by (auto simp: probe_dist_def probe_def)

lemma probe_dist_probe: "h < n \<Longrightarrow> k < n \<Longrightarrow> probe_dist n h (probe n h k) = k"
  by (auto simp: probe_dist_def probe_def mod_if)

lemma find_upt_Cons:
  "k < n \<Longrightarrow> find P [k..<n] = (if P k then Some k else find P [Suc k..<n])"
  by (simp add: upt_conv_Cons)

lemma seek_loop_find:
  assumes "length (ht_data ht) = n" "unat (ht_size ht) = n" "h < n" "0 < k" "k \<le> n"
  shows "seek_loop ht key h (probe n h k) =
    (case find (\<lambda>j. state_at ht (probe n h j) = Hashdata_Empty \<or> matches ht key (probe n h j))
       [k..<n] of
       None \<Rightarrow> Panic
     | Some j \<Rightarrow> Ret (if matches ht key (probe n h j) then Some (probe n h j) else None))"
  using assms(4,5)
proof (induction "n - k" arbitrary: k)
  case 0
  then have "probe n h k = h" using assms(3) by (simp add: probe_home_iff)
  with 0 assms show ?case by (subst seek_loop.simps) simp
next
  case (Suc d)
  then have k: "k < n" by simp
  have "0 < n" using assms(3) by simp
  then have lt: "probe n h k < n" by (rule probe_less)
  have ne: "probe n h k \<noteq> h" using k Suc.prems assms(3) by (simp add: probe_home_iff)
  have IH: "seek_loop ht key h (probe n h (Suc k)) =
    (case find (\<lambda>j. state_at ht (probe n h j) = Hashdata_Empty \<or> matches ht key (probe n h j))
       [Suc k..<n] of
       None \<Rightarrow> Panic
     | Some j \<Rightarrow> Ret (if matches ht key (probe n h j) then Some (probe n h j) else None))"
    using Suc k by (intro Suc.hyps) simp_all
  show ?case
    using lt ne assms IH
    by (subst seek_loop.simps)
      (cases "state_at ht (probe n h k)";
       simp add: slot_def find_upt_Cons [OF k] probe_Suc [simplified] state_at_def matches_def)
qed

lemma seek_empty_loop_find:
  assumes "length (ht_data ht) = n" "unat (ht_size ht) = n" "h < n" "0 < k" "k \<le> n"
  shows "seek_empty_loop ht h (probe n h k) =
    (case find (\<lambda>j. state_at ht (probe n h j) = Hashdata_Empty) [k..<n] of
       None \<Rightarrow> Panic
     | Some j \<Rightarrow> Ret (probe n h j, ht\<lparr>ht_data := (ht_data ht)[probe n h j :=
           (ht_data ht ! probe n h j)\<lparr>hd_state := Hashdata_Full\<rparr>]\<rparr>))"
  using assms(4,5)
proof (induction "n - k" arbitrary: k)
  case 0
  then have "probe n h k = h" using assms(3) by (simp add: probe_home_iff)
  with 0 assms show ?case by (subst seek_empty_loop.simps) simp
next
  case (Suc d)
  then have k: "k < n" by simp
  have "0 < n" using assms(3) by simp
  then have lt: "probe n h k < n" by (rule probe_less)
  have ne: "probe n h k \<noteq> h" using k Suc.prems assms(3) by (simp add: probe_home_iff)
  have IH: "seek_empty_loop ht h (probe n h (Suc k)) =
    (case find (\<lambda>j. state_at ht (probe n h j) = Hashdata_Empty) [Suc k..<n] of
       None \<Rightarrow> Panic
     | Some j \<Rightarrow> Ret (probe n h j, ht\<lparr>ht_data := (ht_data ht)[probe n h j :=
           (ht_data ht ! probe n h j)\<lparr>hd_state := Hashdata_Full\<rparr>]\<rparr>))"
    using Suc k by (intro Suc.hyps) simp_all
  show ?case
    using lt ne assms IH
    by (subst seek_empty_loop.simps)
      (simp add: slot_def find_upt_Cons [OF k] probe_Suc [simplified] state_at_def)
qed


subsection \<open>Well-formed tables and what they hold\<close>

definition key_at :: "hashtable \<Rightarrow> nat \<Rightarrow> u64" where
  "key_at ht i = hd_key (ht_data ht ! i)"

definition home :: "hashtable \<Rightarrow> u64 \<Rightarrow> nat" where
  "home ht key = (case ht_hash ht key of Ret h \<Rightarrow> unat (h mod ht_size ht) | _ \<Rightarrow> 0)"

text \<open>No empty slot before \<open>i\<close> on the probe sequence of \<open>key\<close>.\<close>

definition path_clear :: "hashtable \<Rightarrow> u64 \<Rightarrow> nat \<Rightarrow> bool" where
  "path_clear ht key i \<longleftrightarrow>
     (let n = unat (ht_size ht) in
      \<forall>k < probe_dist n (home ht key) i. state_at ht (probe n (home ht key) k) \<noteq> Hashdata_Empty)"

definition entries :: "hashdata_state \<Rightarrow> hashtable \<Rightarrow> nat" where
  "entries st ht = length (filter (\<lambda>d. hd_state d = st) (ht_data ht))"

text \<open>The invariant: the array has the size the table says, \<open>used\<close> counts the full slots, every
  full slot is reachable by the probe of its key, and no key is stored twice.\<close>

definition ht_ok :: "(u64 \<Rightarrow> bool) \<Rightarrow> hashtable \<Rightarrow> bool" where
  "ht_ok valid ht \<longleftrightarrow>
     0 < ht_size ht \<and> length (ht_data ht) = unat (ht_size ht) \<and>
     unat (ht_used ht) = entries Hashdata_Full ht \<and>
     (\<forall>i < unat (ht_size ht). state_at ht i = Hashdata_Full \<longrightarrow>
        valid (key_at ht i) \<and> path_clear ht (key_at ht i) i) \<and>
     (\<forall>i < unat (ht_size ht). \<forall>j < unat (ht_size ht).
        state_at ht i = Hashdata_Full \<longrightarrow> state_at ht j = Hashdata_Full \<longrightarrow>
        ht_comp ht (key_at ht i) (key_at ht j) = Partial_Equal \<longrightarrow> i = j)"

text \<open>The specification: a linear search for a full slot with an equal key.\<close>

definition ht_lookup :: "hashtable \<Rightarrow> u64 \<Rightarrow> u64 option" where
  "ht_lookup ht key = map_option hd_value
     (find (\<lambda>d. hd_state d = Hashdata_Full \<and> ht_comp ht key (hd_key d) = Partial_Equal)
       (ht_data ht))"

lemma ht_okD:
  assumes "ht_ok valid ht"
  shows "0 < ht_size ht" "0 < unat (ht_size ht)" "length (ht_data ht) = unat (ht_size ht)"
    "unat (ht_used ht) = entries Hashdata_Full ht"
  using assms by (auto simp: ht_ok_def unat_gt_0)

lemma ht_ok_slot:
  "ht_ok valid ht \<Longrightarrow> i < unat (ht_size ht) \<Longrightarrow> state_at ht i = Hashdata_Full \<Longrightarrow>
   valid (key_at ht i) \<and> path_clear ht (key_at ht i) i"
  by (auto simp: ht_ok_def)

lemma ht_ok_unique:
  "ht_ok valid ht \<Longrightarrow> i < unat (ht_size ht) \<Longrightarrow> j < unat (ht_size ht) \<Longrightarrow>
   state_at ht i = Hashdata_Full \<Longrightarrow> state_at ht j = Hashdata_Full \<Longrightarrow>
   ht_comp ht (key_at ht i) (key_at ht j) = Partial_Equal \<Longrightarrow> i = j"
  by (auto simp: ht_ok_def)

lemma matches_iff:
  "matches ht key i \<longleftrightarrow> state_at ht i = Hashdata_Full \<and>
     ht_comp ht key (key_at ht i) = Partial_Equal"
  by (simp add: matches_def key_at_def)

lemma ht_lookup_None:
  "ht_lookup ht key = None \<longleftrightarrow> (\<forall>i < length (ht_data ht). \<not> matches ht key i)"
  by (auto simp: ht_lookup_def find_None_iff matches_def state_at_def in_set_conv_nth)

lemma ht_lookup_SomeD:
  "ht_lookup ht key = Some v \<Longrightarrow>
   \<exists>i < length (ht_data ht). matches ht key i \<and> hd_value (ht_data ht ! i) = v"
  by (auto simp: ht_lookup_def find_Some_iff matches_def state_at_def)

lemma home_less: "0 < ht_size ht \<Longrightarrow> home ht key < unat (ht_size ht)"
  by (auto simp: home_def unat_mod word_gt_0 unat_gt_0 split: res.splits)

lemma filter_two_nth:
  assumes "2 \<le> length (filter P xs)"
  shows "\<exists>i < length xs. i \<noteq> h \<and> P (xs ! i)"
proof (rule ccontr)
  assume "\<not> ?thesis"
  then have "filter P xs = filter P (xs[h := xs ! h])" and
    sub: "{i. i < length xs \<and> P (xs ! i)} \<subseteq> {h}" by auto
  then have "card {i. i < length xs \<and> P (xs ! i)} \<le> card {h}" by (intro card_mono) auto
  with assms show False by (simp add: length_filter_conv_card)
qed

lemma seek_eq:
  assumes "0 < ht_size ht" "length (ht_data ht) = unat (ht_size ht)"
    and "home_slot ht key = Ret (home ht key)"
  shows "hashtable_seek ht key =
    (if matches ht key (home ht key) then Ret (Some (home ht key))
     else case find (\<lambda>j. state_at ht (probe (unat (ht_size ht)) (home ht key) j) = Hashdata_Empty \<or>
            matches ht key (probe (unat (ht_size ht)) (home ht key) j)) [1..<unat (ht_size ht)] of
       None \<Rightarrow> Panic
     | Some j \<Rightarrow> Ret (if matches ht key (probe (unat (ht_size ht)) (home ht key) j)
         then Some (probe (unat (ht_size ht)) (home ht key) j) else None))"
proof -
  have lt: "home ht key < unat (ht_size ht)" using home_less [OF assms(1)] .
  have "(home ht key + 1) mod unat (ht_size ht) = probe (unat (ht_size ht)) (home ht key) 1"
    by (simp add: probe_def)
  with seek_loop_find [OF assms(2) refl lt, of 1 key] lt
  show ?thesis
    using assms by (simp add: hashtable_seek_def slot_def matches_def state_at_def)
qed

lemma seek_first:
  assumes "0 < ht_size ht" "length (ht_data ht) = unat (ht_size ht)"
    and "home_slot ht key = Ret (home ht key)" "d < unat (ht_size ht)"
    and before: "\<And>k. k < d \<Longrightarrow> state_at ht (probe (unat (ht_size ht)) (home ht key) k) \<noteq> Hashdata_Empty \<and>
      \<not> matches ht key (probe (unat (ht_size ht)) (home ht key) k)"
    and at: "matches ht key (probe (unat (ht_size ht)) (home ht key) d)"
  shows "hashtable_seek ht key = Ret (Some (probe (unat (ht_size ht)) (home ht key) d))"
proof -
  let ?n = "unat (ht_size ht)" and ?h = "home ht key"
  have lt: "?h < ?n" using home_less [OF assms(1)] .
  show ?thesis
  proof (cases "d = 0")
    case True
    with at lt show ?thesis by (simp add: seek_eq assms)
  next
    case False
    have "find (\<lambda>j. state_at ht (probe ?n ?h j) = Hashdata_Empty \<or> matches ht key (probe ?n ?h j))
        [1..<?n] = Some d"
      unfolding find_Some_iff using False assms(4) before at by (intro exI [of _ "d - 1"]) auto
    moreover have "\<not> matches ht key ?h" using before [of 0] False lt by simp
    ultimately show ?thesis using at by (simp add: seek_eq assms)
  qed
qed

text \<open>What the table relies on from the hash and comparison functions it is given: on the keys in
  use the comparison is an equivalence, and the hash returns and respects it.\<close>

locale hash_keys =
  fixes hf :: hash_f and hc :: partial_comp_f and valid :: "u64 \<Rightarrow> bool"
  assumes hash_returns: "valid k \<Longrightarrow> \<exists>h. hf k = Ret h"
    and comp_hash: "valid j \<Longrightarrow> valid k \<Longrightarrow> hc j k = Partial_Equal \<Longrightarrow> hf j = hf k"
    and comp_refl: "valid k \<Longrightarrow> hc k k = Partial_Equal"
    and comp_sym: "valid j \<Longrightarrow> valid k \<Longrightarrow> hc j k = Partial_Equal \<Longrightarrow> hc k j = Partial_Equal"
    and comp_trans: "valid i \<Longrightarrow> valid j \<Longrightarrow> valid k \<Longrightarrow> hc i j = Partial_Equal \<Longrightarrow>
      hc j k = Partial_Equal \<Longrightarrow> hc i k = Partial_Equal"
begin

definition keyed :: "hashtable \<Rightarrow> bool" where
  "keyed ht \<longleftrightarrow> ht_hash ht = hf \<and> ht_comp ht = hc \<and> ht_ok valid ht"

lemma keyedD: "keyed ht \<Longrightarrow> ht_hash ht = hf" "keyed ht \<Longrightarrow> ht_comp ht = hc"
  "keyed ht \<Longrightarrow> ht_ok valid ht"
  by (simp_all add: keyed_def)

lemma home_slot_home: "keyed ht \<Longrightarrow> valid key \<Longrightarrow> home_slot ht key = Ret (home ht key)"
  using hash_returns [of key] ht_okD(1) [OF keyedD(3)]
  by (auto simp: home_slot_def home_def keyedD word_gt_0)

lemma match_unique:
  assumes "keyed ht" "valid key" "i < unat (ht_size ht)" "j < unat (ht_size ht)"
    "matches ht key i" "matches ht key j"
  shows "i = j"
proof -
  note ok = keyedD(3) [OF assms(1)]
  have v: "valid (key_at ht i)" "valid (key_at ht j)"
    using assms ht_ok_slot [OF ok] by (auto simp: matches_iff)
  have "hc (key_at ht i) (key_at ht j) = Partial_Equal"
    using assms v comp_sym comp_trans by (metis matches_iff keyedD(2))
  with assms ht_ok_unique [OF ok] show ?thesis by (simp add: matches_iff keyedD)
qed

lemma match_home:
  assumes "keyed ht" "valid key" "i < unat (ht_size ht)" "matches ht key i"
  shows "home ht (key_at ht i) = home ht key"
  using assms ht_ok_slot [OF keyedD(3)] comp_hash [of key "key_at ht i"]
  by (auto simp: matches_iff home_def keyedD)

lemma lookup_match:
  assumes "keyed ht" "valid key" "i < unat (ht_size ht)" "matches ht key i"
  shows "ht_lookup ht key = Some (hd_value (ht_data ht ! i))"
proof (cases "ht_lookup ht key")
  case None
  with assms ht_okD(3) [OF keyedD(3) [OF assms(1)]] show ?thesis by (simp add: ht_lookup_None)
next
  case (Some v)
  from ht_lookup_SomeD [OF this] obtain j where "j < unat (ht_size ht)" "matches ht key j"
    "hd_value (ht_data ht ! j) = v"
    using ht_okD(3) [OF keyedD(3) [OF assms(1)]] by auto
  with match_unique [OF assms(1,2)] assms(3,4) Some show ?thesis by blast
qed

lemma seek_unfold:
  assumes "keyed ht" "valid key"
  shows "hashtable_seek ht key =
    (if matches ht key (home ht key) then Ret (Some (home ht key))
     else case find (\<lambda>j. state_at ht (probe (unat (ht_size ht)) (home ht key) j) = Hashdata_Empty \<or>
            matches ht key (probe (unat (ht_size ht)) (home ht key) j)) [1..<unat (ht_size ht)] of
       None \<Rightarrow> Panic
     | Some j \<Rightarrow> Ret (if matches ht key (probe (unat (ht_size ht)) (home ht key) j)
         then Some (probe (unat (ht_size ht)) (home ht key) j) else None))"
  using assms by (intro seek_eq ht_okD(1,3) [OF keyedD(3)] home_slot_home)

text \<open>Before the slot that holds a key, its probe meets neither an empty slot nor an equal key.\<close>

lemma before_match:
  assumes "keyed ht" "valid key" "i < unat (ht_size ht)" "matches ht key i"
    and "k < probe_dist (unat (ht_size ht)) (home ht key) i"
  shows "state_at ht (probe (unat (ht_size ht)) (home ht key) k) \<noteq> Hashdata_Empty \<and>
    \<not> matches ht key (probe (unat (ht_size ht)) (home ht key) k)"
proof -
  let ?n = "unat (ht_size ht)" and ?h = "home ht key"
  note ok = ht_okD [OF keyedD(3) [OF assms(1)]]
  have lt: "?h < ?n" using home_less [OF ok(1)] .
  note d = probe_dist [OF lt assms(3)]
  have "state_at ht (probe ?n ?h k) \<noteq> Hashdata_Empty"
    using ht_ok_slot [OF keyedD(3) [OF assms(1)] assms(3)] assms(4,5)
      match_home [OF assms(1-4)] by (auto simp: path_clear_def matches_iff Let_def)
  moreover have "\<not> matches ht key (probe ?n ?h k)"
    using match_unique [OF assms(1,2) _ assms(3) _ assms(4), of "probe ?n ?h k"] d assms(5)
      probe_less [OF ok(2)] probe_eq_iff [of k ?n "probe_dist ?n ?h i" ?h] lt by force
  ultimately show ?thesis ..
qed

lemma seek_found:
  assumes "keyed ht" "valid key" "i < unat (ht_size ht)" "matches ht key i"
  shows "hashtable_seek ht key = Ret (Some i)"
proof -
  note ok = ht_okD [OF keyedD(3) [OF assms(1)]]
  note d = probe_dist [OF home_less [OF ok(1)] assms(3), of key]
  from seek_first [OF ok(1,3) home_slot_home [OF assms(1,2)] d(1) before_match [OF assms]] d assms(4)
  show ?thesis by simp
qed

lemma seek_absent:
  assumes "keyed ht" "valid key" "\<And>i. i < unat (ht_size ht) \<Longrightarrow> \<not> matches ht key i"
    and "2 \<le> entries Hashdata_Empty ht"
  shows "hashtable_seek ht key = Ret None"
proof -
  let ?n = "unat (ht_size ht)" and ?h = "home ht key"
  let ?P = "\<lambda>j. state_at ht (probe ?n ?h j) = Hashdata_Empty \<or> matches ht key (probe ?n ?h j)"
  note ok = ht_okD [OF keyedD(3) [OF assms(1)]]
  have lt: "?h < ?n" using home_less [OF ok(1)] .
  obtain i where i: "i < ?n" "i \<noteq> ?h" "state_at ht i = Hashdata_Empty"
    using filter_two_nth [OF assms(4) [unfolded entries_def], of ?h] ok(3)
    by (auto simp: state_at_def)
  let ?d = "probe_dist ?n ?h i"
  have d: "?d < ?n" "probe ?n ?h ?d = i" using probe_dist [OF lt i(1)] by auto
  have "0 < ?d" using d(2) i(2) lt by (metis gr0I probe_0)
  with d i(3) have "find ?P [1..<?n] \<noteq> None" by (auto simp: find_None_iff)
  then obtain j where j: "find ?P [1..<?n] = Some j" by blast
  have "probe ?n ?h j < ?n" using ok(2) by (rule probe_less)
  with j assms(3) lt show ?thesis by (simp add: seek_unfold [OF assms(1,2)])
qed

lemma get_lookup:
  assumes "keyed ht" "valid key" "2 \<le> entries Hashdata_Empty ht"
  shows "hashtable_get ht key = Ret (case ht_lookup ht key of None \<Rightarrow> 0 | Some v \<Rightarrow> v)"
proof (cases "\<exists>i < unat (ht_size ht). matches ht key i")
  case True
  then obtain i where i: "i < unat (ht_size ht)" "matches ht key i" by blast
  show ?thesis
    by (simp add: hashtable_get_def seek_found [OF assms(1,2) i] lookup_match [OF assms(1,2) i])
next
  case False
  then have "ht_lookup ht key = None"
    by (simp add: ht_lookup_None ht_okD(3) [OF keyedD(3) [OF assms(1)]])
  with False assms show ?thesis by (simp add: hashtable_get_def seek_absent)
qed

end


subsection \<open>Insertion\<close>

lemma store_entry_simps [simp]:
  "ht_size (store_entry ht i key v) = ht_size ht" "ht_hash (store_entry ht i key v) = ht_hash ht"
  "ht_comp (store_entry ht i key v) = ht_comp ht" "ht_used (store_entry ht i key v) = ht_used ht + 1"
  "length (ht_data (store_entry ht i key v)) = length (ht_data ht)"
  "home (store_entry ht i key v) k = home ht k"
  by (simp_all add: store_entry_def home_def split: res.split)

lemma state_at_store:
  "i < length (ht_data ht) \<Longrightarrow>
   state_at (store_entry ht i key v) j = (if j = i then Hashdata_Full else state_at ht j)"
  by (simp add: state_at_def store_entry_def)

lemma key_at_store:
  "i < length (ht_data ht) \<Longrightarrow>
   key_at (store_entry ht i key v) j = (if j = i then key else key_at ht j)"
  by (simp add: key_at_def store_entry_def)

lemma value_at_store:
  "i < length (ht_data ht) \<Longrightarrow>
   hd_value (ht_data (store_entry ht i key v) ! j) =
     (if j = i then v else hd_value (ht_data ht ! j))"
  by (simp add: store_entry_def)

lemma entries_store:
  assumes "i < length (ht_data ht)" "state_at ht i = Hashdata_Empty"
  shows "entries Hashdata_Full (store_entry ht i key v) = Suc (entries Hashdata_Full ht)"
    and "Suc (entries Hashdata_Empty (store_entry ht i key v)) = entries Hashdata_Empty ht"
    and "entries Hashdata_Tombstone (store_entry ht i key v) = entries Hashdata_Tombstone ht"
  using length_filter_update [OF assms(1), of "\<lambda>d. hd_state d = Hashdata_Full"
      "\<lparr>hd_state = Hashdata_Full, hd_key = key, hd_value = v\<rparr>"]
    length_filter_update [OF assms(1), of "\<lambda>d. hd_state d = Hashdata_Empty"
      "\<lparr>hd_state = Hashdata_Full, hd_key = key, hd_value = v\<rparr>"]
    length_filter_update [OF assms(1), of "\<lambda>d. hd_state d = Hashdata_Tombstone"
      "\<lparr>hd_state = Hashdata_Full, hd_key = key, hd_value = v\<rparr>"] assms(2)
  by (simp_all add: entries_def store_entry_def state_at_def)

lemma path_clear_store:
  "i < length (ht_data ht) \<Longrightarrow> path_clear ht k j \<Longrightarrow> path_clear (store_entry ht i key v) k j"
  by (auto simp: path_clear_def state_at_store Let_def)

lemma entries_total:
  "entries Hashdata_Full ht + entries Hashdata_Empty ht + entries Hashdata_Tombstone ht =
   length (ht_data ht)"
proof -
  have "length (filter (\<lambda>d. hd_state d = Hashdata_Full) ds) +
      length (filter (\<lambda>d. hd_state d = Hashdata_Empty) ds) +
      length (filter (\<lambda>d. hd_state d = Hashdata_Tombstone) ds) = length ds" for ds :: "hashdata list"
  proof (induction ds)
    case (Cons d ds)
    then show ?case by (cases "hd_state d") auto
  qed simp
  then show ?thesis by (simp add: entries_def)
qed

context hash_keys
begin

lemma seek_empty_finds:
  assumes "keyed ht" "valid key" "0 < entries Hashdata_Empty ht"
  shows "\<exists>i ht1. i < unat (ht_size ht) \<and> state_at ht i = Hashdata_Empty \<and> path_clear ht key i \<and>
    hashtable_seek_empty ht key = Ret (i, ht1) \<and>
    (\<forall>v. store_entry ht1 i key v = store_entry ht i key v)"
proof -
  let ?n = "unat (ht_size ht)" and ?h = "home ht key"
  note ok = ht_okD [OF keyedD(3) [OF assms(1)]]
  have lt: "?h < ?n" using home_less [OF ok(1)] .
  show ?thesis
  proof (cases "state_at ht ?h = Hashdata_Empty")
    case True
    then show ?thesis
      using lt ok(3) by (intro exI [of _ ?h] exI [of _ ht])
        (simp add: hashtable_seek_empty_def home_slot_home assms slot_def state_at_def
          path_clear_def probe_dist_def)
  next
    case False
    let ?P = "\<lambda>j. state_at ht (probe ?n ?h j) = Hashdata_Empty"
    obtain i where i: "i < ?n" "state_at ht i = Hashdata_Empty"
      using assms(3) ok(3) by (auto simp: entries_def state_at_def filter_empty_conv in_set_conv_nth)
    let ?d = "probe_dist ?n ?h i"
    have d: "?d < ?n" "probe ?n ?h ?d = i" using probe_dist [OF lt i(1)] by auto
    then have "0 < ?d" using False i(2) lt by (metis gr0I probe_0)
    with d i(2) have "find ?P [1..<?n] \<noteq> None" by (auto simp: find_None_iff)
    then obtain j where j: "find ?P [1..<?n] = Some j" by blast
    then have first: "j < ?n" "?P j" "\<And>k. 1 \<le> k \<Longrightarrow> k < j \<Longrightarrow> \<not> ?P k"
      by (auto simp: find_Some_iff) (metis Suc_diff_1 Suc_leI less_Suc_eq_le less_diff_conv
          add.commute plus_1_eq_Suc not_less_eq less_trans)
    have clear: "path_clear ht key (probe ?n ?h j)"
      using first False lt unfolding path_clear_def Let_def
      by (simp add: probe_dist_probe) (metis One_nat_def Suc_leI gr0I probe_0)
    have "hashtable_seek_empty ht key = seek_empty_loop ht ?h (probe ?n ?h 1)"
      using False lt ok(3) by (simp add: hashtable_seek_empty_def home_slot_home assms slot_def
          state_at_def probe_def)
    with seek_empty_loop_find [OF ok(3) refl lt, of 1] ok(2) j
    have "hashtable_seek_empty ht key = Ret (probe ?n ?h j, ht\<lparr>ht_data := (ht_data ht)
        [probe ?n ?h j := (ht_data ht ! probe ?n ?h j)\<lparr>hd_state := Hashdata_Full\<rparr>]\<rparr>)"
      by simp
    with clear first probe_less [OF ok(2)] show ?thesis
      by (intro exI conjI) (assumption | simp add: store_entry_def)+
  qed
qed

lemma keyed_store:
  assumes "keyed ht" "valid key" "i < unat (ht_size ht)" "state_at ht i = Hashdata_Empty"
    "path_clear ht key i" "ht_lookup ht key = None"
  shows "keyed (store_entry ht i key v)"
proof -
  note ok = keyedD(3) [OF assms(1)]
  note len = ht_okD(3) [OF ok]
  have i: "i < length (ht_data ht)" using assms(3) len by simp
  have absent: "hc key (key_at ht j) \<noteq> Partial_Equal" "hc (key_at ht j) key \<noteq> Partial_Equal"
    if "j < unat (ht_size ht)" "state_at ht j = Hashdata_Full" for j
    using assms(6) that len comp_sym [OF _ assms(2)] ht_ok_slot [OF ok that]
    by (auto simp: ht_lookup_None matches_iff keyedD [OF assms(1)])
  have "entries Hashdata_Full ht < unat (ht_size ht)"
    using entries_total [of ht] entries_store(2) [OF i assms(4), of key v] len by simp
  then have "unat (ht_used ht + 1) = Suc (entries Hashdata_Full ht)"
    using ht_okD(4) [OF ok] unat_Suc_less [of "ht_used ht" "ht_size ht"]
    by (simp add: word_less_nat_alt)
  moreover have "valid (key_at (store_entry ht i key v) j) \<and>
      path_clear (store_entry ht i key v) (key_at (store_entry ht i key v) j) j"
    if "j < unat (ht_size ht)" "state_at (store_entry ht i key v) j = Hashdata_Full" for j
    using that assms ht_ok_slot [OF ok that(1)]
    by (cases "j = i") (auto simp: state_at_store key_at_store i path_clear_store)
  moreover have "j = k"
    if "j < unat (ht_size ht)" "k < unat (ht_size ht)"
      "state_at (store_entry ht i key v) j = Hashdata_Full"
      "state_at (store_entry ht i key v) k = Hashdata_Full"
      "hc (key_at (store_entry ht i key v) j) (key_at (store_entry ht i key v) k) = Partial_Equal"
    for j k
    using that absent [of j] absent [of k] ht_ok_unique [OF ok, of j k]
    by (auto simp: state_at_store key_at_store i keyedD [OF assms(1)] split: if_splits)
  ultimately show ?thesis
    using assms(1) ok len by (simp add: keyed_def ht_ok_def entries_store [OF i assms(4)])
qed

lemma lookup_store:
  assumes "keyed ht" "valid key" "i < unat (ht_size ht)" "state_at ht i = Hashdata_Empty"
    "path_clear ht key i" "ht_lookup ht key = None" "valid k"
  shows "ht_lookup (store_entry ht i key v) k =
    (if hc k key = Partial_Equal then Some v else ht_lookup ht k)"
proof -
  let ?ht = "store_entry ht i key v"
  note len = ht_okD(3) [OF keyedD(3) [OF assms(1)]]
  have i: "i < length (ht_data ht)" using assms(3) len by simp
  have keyed': "keyed ?ht" using assms by (intro keyed_store)
  have m: "matches ?ht k j \<longleftrightarrow> (if j = i then hc k key = Partial_Equal else matches ht k j)" for j
    using assms(1) by (auto simp: matches_iff state_at_store key_at_store i keyedD)
  have ni: "\<not> matches ht k i" using assms(4) by (simp add: matches_iff)
  show ?thesis
  proof (cases "hc k key = Partial_Equal")
    case True
    then have "matches ?ht k i" using m by simp
    from lookup_match [OF keyed' assms(7) _ this] assms(3) True show ?thesis
      by (simp add: value_at_store i)
  next
    case False
    show ?thesis
    proof (cases "ht_lookup ht k")
      case None
      with False m len have "ht_lookup ?ht k = None" by (auto simp: ht_lookup_None)
      with None False show ?thesis by simp
    next
      case (Some w)
      from ht_lookup_SomeD [OF this] len obtain j where j: "j < unat (ht_size ht)" "matches ht k j"
        "hd_value (ht_data ht ! j) = w" by auto
      with ni have "j \<noteq> i" by auto
      with j m have "matches ?ht k j" by simp
      from lookup_match [OF keyed' assms(7) _ this] j(1,3) \<open>j \<noteq> i\<close> False Some show ?thesis
        by (simp add: value_at_store i)
    qed
  qed
qed

end


subsection \<open>Growing\<close>

definition full :: "hashdata \<Rightarrow> bool" where
  "full d \<longleftrightarrow> hd_state d = Hashdata_Full"

lemma full_iff: "full d \<longleftrightarrow> hd_state d \<noteq> Hashdata_Empty \<and> hd_state d \<noteq> Hashdata_Tombstone"
  by (cases "hd_state d") (simp_all add: full_def)

lemma entries_full: "entries Hashdata_Full ht = length (filter full (ht_data ht))"
  by (simp add: entries_def full_def [abs_def])

lemma rebalance_loop_Cons [simp]:
  "rebalance_loop put (d # ds) new s =
     (if full d then
        res_bind (put new (hd_key d) (hd_value d) s) (\<lambda>(st, new1, s1).
        if st \<noteq> Ok then Ret (st, new1, s1) else rebalance_loop put ds new1 s1)
      else rebalance_loop put ds new s)"
  by (simp add: full_iff)

declare rebalance_loop.simps(2) [simp del] put_depth.simps [simp del]

text \<open>A list of slots as the remaining work of the rebuild: the entry it holds for a key.\<close>

definition pending :: "partial_comp_f \<Rightarrow> hashdata list \<Rightarrow> u64 \<Rightarrow> u64 option" where
  "pending c ds k = map_option hd_value
     (find (\<lambda>d. full d \<and> c k (hd_key d) = Partial_Equal) ds)"

lemma pending_simps [simp]:
  "pending c [] k = None"
  "pending c (d # ds) k =
     (if full d \<and> c k (hd_key d) = Partial_Equal then Some (hd_value d) else pending c ds k)"
  by (simp_all add: pending_def)

lemma pending_data: "pending (ht_comp ht) (ht_data ht) k = ht_lookup ht k"
  by (simp add: pending_def ht_lookup_def full_def)

definition distinct_keys :: "partial_comp_f \<Rightarrow> hashdata list \<Rightarrow> bool" where
  "distinct_keys c ds \<longleftrightarrow>
     sorted_wrt (\<lambda>d e. full d \<longrightarrow> full e \<longrightarrow> c (hd_key e) (hd_key d) \<noteq> Partial_Equal) ds"

text \<open>Enough room: the entries fill at most half of the table.\<close>

lemma half_full_no_grow:
  assumes "2 * u \<le> unat sz" "unat used = u"
  shows "\<not> should_grow sz used"
proof -
  have le: "used \<le> sz" using assms by (simp add: word_le_nat_alt)
  have "unat (sz div 4) = unat sz div 4" by (simp add: unat_div)
  moreover have "unat (sz - used) = unat sz - u" using le assms(2) by (simp add: unat_sub)
  ultimately show ?thesis using assms(1) by (simp add: should_grow_def word_less_nat_alt)
qed

lemma grow_bound:
  assumes "should_grow sz used" "unat used \<le> unat sz"
  shows "2 * unat sz \<le> 3 * unat used"
proof -
  have "unat (sz - used) < unat sz div 4"
    using assms(1) by (simp add: should_grow_def word_less_nat_alt unat_div)
  moreover have "unat (sz - used) = unat sz - unat used"
    using assms(2) by (simp add: unat_sub word_le_nat_alt)
  ultimately show ?thesis using assms(2) by linarith
qed

context hash_keys
begin

text \<open>One insertion of an absent key, before the growth check.\<close>

lemma insert_step:
  assumes "keyed ht" "valid key" "0 < entries Hashdata_Empty ht" "ht_lookup ht key = None"
  shows "\<exists>i ht1 ht2. hashtable_seek_empty ht key = Ret (i, ht1) \<and> store_entry ht1 i key v = ht2 \<and>
    keyed ht2 \<and> ht_size ht2 = ht_size ht \<and> ht_used ht2 = ht_used ht + 1 \<and> ht_data_at ht2 = ht_data_at ht \<and>
    entries Hashdata_Full ht2 = Suc (entries Hashdata_Full ht) \<and>
    Suc (entries Hashdata_Empty ht2) = entries Hashdata_Empty ht \<and>
    entries Hashdata_Tombstone ht2 = entries Hashdata_Tombstone ht \<and>
    (\<forall>k. valid k \<longrightarrow> ht_lookup ht2 k =
       (if hc k key = Partial_Equal then Some v else ht_lookup ht k))"
proof -
  from seek_empty_finds [OF assms(1-3)] obtain i ht1 where
    i: "i < unat (ht_size ht)" "state_at ht i = Hashdata_Empty" "path_clear ht key i"
    and seek: "hashtable_seek_empty ht key = Ret (i, ht1)"
      "\<forall>v. store_entry ht1 i key v = store_entry ht i key v" by blast
  have len: "i < length (ht_data ht)" using i(1) ht_okD(3) [OF keyedD(3) [OF assms(1)]] by simp
  show ?thesis
    using seek keyed_store [OF assms(1,2) i assms(4)] lookup_store [OF assms(1,2) i assms(4)]
      entries_store [OF len i(2)]
    by (intro exI [of _ i] exI [of _ ht1] exI [of _ "store_entry ht i key v"])
      (simp, simp add: store_entry_def)
qed

lemma rebalance_loop_correct:
  assumes "keyed new" "entries Hashdata_Tombstone new = 0"
    "2 * (entries Hashdata_Full new + length (filter full ds)) \<le> unat (ht_size new)"
    "distinct_keys hc ds" "\<And>d. d \<in> set ds \<Longrightarrow> full d \<Longrightarrow> valid (hd_key d)"
    "\<And>d. d \<in> set ds \<Longrightarrow> full d \<Longrightarrow> ht_lookup new (hd_key d) = None"
  shows "\<exists>new'. rebalance_loop (put_depth (Suc m) kmalloc kfree) ds new s = Ret (Ok, new', s) \<and>
    keyed new' \<and> ht_size new' = ht_size new \<and> ht_data_at new' = ht_data_at new \<and> entries Hashdata_Tombstone new' = 0 \<and>
    entries Hashdata_Full new' = entries Hashdata_Full new + length (filter full ds) \<and>
    (\<forall>k. valid k \<longrightarrow> ht_lookup new' k =
      (case pending hc ds k of Some v \<Rightarrow> Some v | None \<Rightarrow> ht_lookup new k))"
  using assms
proof (induction ds arbitrary: new)
  case Nil
  then show ?case by simp
next
  case (Cons d ds)
  show ?case
  proof (cases "full d")
    case False
    then have "\<exists>new'. rebalance_loop (put_depth (Suc m) kmalloc kfree) ds new s = Ret (Ok, new', s) \<and>
      keyed new' \<and> ht_size new' = ht_size new \<and> ht_data_at new' = ht_data_at new \<and> entries Hashdata_Tombstone new' = 0 \<and>
      entries Hashdata_Full new' = entries Hashdata_Full new + length (filter full ds) \<and>
      (\<forall>k. valid k \<longrightarrow> ht_lookup new' k =
        (case pending hc ds k of Some v \<Rightarrow> Some v | None \<Rightarrow> ht_lookup new k))"
      using Cons.prems by (intro Cons.IH) (auto simp: distinct_keys_def)
    with False show ?thesis by simp
  next
    case True
    have "0 < entries Hashdata_Empty new"
      using Cons.prems(2,3) True entries_total [of new] ht_okD(3) [OF keyedD(3) [OF Cons.prems(1)]]
      by simp
    with insert_step [OF Cons.prems(1), of "hd_key d" "hd_value d"] Cons.prems(5,6) True
    obtain i ht1 ht2 where seek: "hashtable_seek_empty new (hd_key d) = Ret (i, ht1)"
      "store_entry ht1 i (hd_key d) (hd_value d) = ht2"
      and ht2: "keyed ht2" "ht_size ht2 = ht_size new" "ht_data_at ht2 = ht_data_at new"
      "entries Hashdata_Full ht2 = Suc (entries Hashdata_Full new)"
      "entries Hashdata_Tombstone ht2 = 0"
      and look: "\<And>k. valid k \<Longrightarrow> ht_lookup ht2 k =
         (if hc k (hd_key d) = Partial_Equal then Some (hd_value d) else ht_lookup new k)"
      using Cons.prems(2) by (metis list.set_intros(1))
    have "\<not> should_grow (ht_size ht2) (ht_used ht2)"
      using Cons.prems(3) True ht2 ht_okD(4) [OF keyedD(3) [OF ht2(1)]]
      by (intro half_full_no_grow [of "entries Hashdata_Full ht2"]) auto
    with seek have put: "put_depth (Suc m) kmalloc kfree new (hd_key d) (hd_value d) s =
        Ret (Ok, ht2, s)" by (auto simp: put_depth.simps Let_def)
    have "\<exists>new'. rebalance_loop (put_depth (Suc m) kmalloc kfree) ds ht2 s = Ret (Ok, new', s) \<and>
      keyed new' \<and> ht_size new' = ht_size ht2 \<and> ht_data_at new' = ht_data_at ht2 \<and> entries Hashdata_Tombstone new' = 0 \<and>
      entries Hashdata_Full new' = entries Hashdata_Full ht2 + length (filter full ds) \<and>
      (\<forall>k. valid k \<longrightarrow> ht_lookup new' k =
        (case pending hc ds k of Some v \<Rightarrow> Some v | None \<Rightarrow> ht_lookup ht2 k))"
    proof (intro Cons.IH)
      fix e assume e: "e \<in> set ds" "full e"
      with Cons.prems(5) show "valid (hd_key e)" by simp
      moreover have "hc (hd_key e) (hd_key d) \<noteq> Partial_Equal"
        using e Cons.prems(4) True by (auto simp: distinct_keys_def)
      ultimately show "ht_lookup ht2 (hd_key e) = None"
        using look Cons.prems(6) e by simp
    qed (use Cons.prems ht2 True in \<open>auto simp: distinct_keys_def\<close>)
    then obtain new' where new': "rebalance_loop (put_depth (Suc m) kmalloc kfree) ds ht2 s =
        Ret (Ok, new', s)" "keyed new'" "ht_size new' = ht_size ht2" "ht_data_at new' = ht_data_at ht2"
      "entries Hashdata_Tombstone new' = 0"
      "entries Hashdata_Full new' = entries Hashdata_Full ht2 + length (filter full ds)"
      "\<And>k. valid k \<Longrightarrow> ht_lookup new' k =
        (case pending hc ds k of Some v \<Rightarrow> Some v | None \<Rightarrow> ht_lookup ht2 k)" by blast
    have "pending hc ds k = None" if "valid k" "hc k (hd_key d) = Partial_Equal" for k
    proof (rule ccontr)
      assume "pending hc ds k \<noteq> None"
      then obtain e where e: "e \<in> set ds" "full e" "hc k (hd_key e) = Partial_Equal"
        by (auto simp: pending_def dest!: find_SomeD)
      with that Cons.prems(5) True have "hc (hd_key e) (hd_key d) = Partial_Equal"
        by (metis comp_sym comp_trans list.set_intros)
      with e Cons.prems(4) True show False by (auto simp: distinct_keys_def)
    qed
    then have "ht_lookup new' k =
        (case pending hc (d # ds) k of Some v \<Rightarrow> Some v | None \<Rightarrow> ht_lookup new k)" if "valid k" for k
      using that new'(7) look True by (auto split: option.splits)
    with new' True put ht2 show ?thesis by auto
  qed
qed

end


text \<open>A fresh table is well formed and empty.\<close>

definition fresh_table :: "u64 \<Rightarrow> hash_f \<Rightarrow> partial_comp_f \<Rightarrow> u64 \<Rightarrow> hashtable" where
  "fresh_table sz hf hc p = \<lparr>ht_used = 0, ht_size = sz, ht_hash = hf, ht_comp = hc,
     ht_data_at = p, ht_data = zeroed_data sz\<rparr>"

lemma length_zeroed_data: "unat sz < 2 ^ 59 \<Longrightarrow> length (zeroed_data sz) = unat sz"
  by (simp add: zeroed_data_def sizeof_hashdata_def unat_word_ariths)

lemma fresh_table_ok:
  assumes "0 < sz" "unat sz < 2 ^ 59"
  shows "ht_ok valid (fresh_table sz hf hc p)" "ht_lookup (fresh_table sz hf hc p) k = None"
    "entries Hashdata_Tombstone (fresh_table sz hf hc p) = 0"
    "entries Hashdata_Full (fresh_table sz hf hc p) = 0"
proof -
  have st: "hd_state (zeroed_data sz ! i) = Hashdata_Empty" if "i < unat sz" for i
    using that length_zeroed_data [OF assms(2)] by (simp add: zeroed_data_def)
  show "ht_ok valid (fresh_table sz hf hc p)"
    using assms st length_zeroed_data [OF assms(2)]
    by (simp add: ht_ok_def fresh_table_def state_at_def entries_def zeroed_data_def)
  show "ht_lookup (fresh_table sz hf hc p) k = None"
    using st length_zeroed_data [OF assms(2)]
    by (simp add: ht_lookup_None fresh_table_def matches_def state_at_def)
  show "entries Hashdata_Tombstone (fresh_table sz hf hc p) = 0"
    "entries Hashdata_Full (fresh_table sz hf hc p) = 0"
    by (simp_all add: entries_def fresh_table_def zeroed_data_def)
qed

text \<open>Room left: no tombstones, at least eight slots, and not due to grow.\<close>

definition ht_roomy :: "hashtable \<Rightarrow> bool" where
  "ht_roomy ht \<longleftrightarrow> entries Hashdata_Tombstone ht = 0 \<and> 8 \<le> unat (ht_size ht) \<and>
     \<not> should_grow (ht_size ht) (ht_used ht)"

lemma roomy_empties:
  assumes "ht_ok valid ht" "ht_roomy ht"
  shows "2 \<le> entries Hashdata_Empty ht"
proof -
  note ok = ht_okD [OF assms(1)]
  have tot: "entries Hashdata_Full ht + entries Hashdata_Empty ht = unat (ht_size ht)"
    using entries_total [of ht] assms(2) ok(3) by (simp add: ht_roomy_def)
  then have le: "ht_used ht \<le> ht_size ht" using ok(4) by (simp add: word_le_nat_alt)
  have "unat (ht_size ht - ht_used ht) \<ge> unat (ht_size ht) div 4"
    using assms(2) by (simp add: ht_roomy_def should_grow_def word_less_nat_alt unat_div)
  moreover have "2 \<le> unat (ht_size ht) div 4"
    using assms(2) div_le_mono [of 8 "unat (ht_size ht)" 4] by (simp add: ht_roomy_def)
  ultimately show ?thesis using le tot ok(4) by (simp add: unat_sub)
qed

text \<open>What the table relies on from the heap, while there is room for \<open>i\<close> more blocks in use and for \<open>k\<close> more
  free ones (\<open>ready i k\<close>): an allocation returns, with a block of its own or the null pointer, and a block
  that is owned can be released. \<open>rest\<close> is the part of the state that is not the heap's.\<close>

locale table_heap =
  fixes kmalloc :: "'s kmalloc_f" and kfree :: "'s kfree_f"
    and ready :: "nat \<Rightarrow> nat \<Rightarrow> 's \<Rightarrow> bool" and owned :: "'s \<Rightarrow> u64 \<Rightarrow> u64 \<Rightarrow> bool" and rest :: "'s \<Rightarrow> 'r"
  assumes malloc: "ready (Suc i) k s \<Longrightarrow> 0 < n \<Longrightarrow> unat n + 16 < 2 ^ 64 \<Longrightarrow>
      \<exists>p s'. kmalloc n s = Ret (p, s') \<and>
        (p = 0 \<and> s' = s \<or>
         p \<noteq> 0 \<and> ready i k s' \<and> owned s' p n \<and> rest s' = rest s \<and>
         (\<forall>q b. owned s q b \<longrightarrow> q \<noteq> p \<and> owned s' q b))"
    and free: "ready i (Suc k) s \<Longrightarrow> owned s p n \<Longrightarrow>
      \<exists>s'. kfree p s = Ret s' \<and> ready (Suc i) k s' \<and> rest s' = rest s \<and>
        (\<forall>q b. owned s q b \<longrightarrow> q \<noteq> p \<longrightarrow> owned s' q b)"

context hash_keys
begin

lemma distinct_keys_data:
  assumes "keyed ht"
  shows "distinct_keys hc (ht_data ht)"
    and "d \<in> set (ht_data ht) \<Longrightarrow> full d \<Longrightarrow> valid (hd_key d)"
proof -
  note ok = keyedD(3) [OF assms]
  note len = ht_okD(3) [OF ok]
  have "hc (key_at ht j) (key_at ht i) \<noteq> Partial_Equal"
    if "i < j" "j < unat (ht_size ht)" "full (ht_data ht ! i)" "full (ht_data ht ! j)" for i j
    using that ht_ok_unique [OF ok, of j i] by (auto simp: keyedD [OF assms] full_def state_at_def)
  then show "distinct_keys hc (ht_data ht)"
    using len by (simp add: distinct_keys_def sorted_wrt_iff_nth_less key_at_def)
  show "valid (hd_key d)" if "d \<in> set (ht_data ht)" "full d"
    using that ht_ok_slot [OF ok] len
    by (auto simp: in_set_conv_nth full_def state_at_def key_at_def)
qed

end

text \<open>The array of a table is a block of the heap.\<close>

definition data_bytes :: "hashtable \<Rightarrow> u64" where
  "data_bytes ht = ht_size ht * sizeof_hashdata"

lemma unat_data_bytes: "unat n < 2 ^ 59 \<Longrightarrow> unat (n * sizeof_hashdata) = 24 * unat n"
  by (simp add: unat_word_ariths sizeof_hashdata_def)

locale heap_table = hash_keys hf hc valid + table_heap kmalloc kfree ready owned rest
  for hf hc valid and kmalloc :: "'s kmalloc_f" and kfree ready owned and rest :: "'s \<Rightarrow> 'r"
begin

lemma rebalance_doubles:
  assumes "keyed ht" "unat (ht_size ht) < 2 ^ 58" "ready 1 1 s" "owned s (ht_data_at ht) (data_bytes ht)"
  shows "\<exists>st ht' s'. hashtable_rebalance (put_depth (Suc m) kmalloc kfree) kmalloc kfree ht
      (ht_size ht * 2) s = Ret (st, ht', s') \<and>
    (st = Ok \<and> ready 1 0 s' \<or> st = Error_No_Memory \<and> ht' = ht \<and> s' = s) \<and>
    keyed ht' \<and> entries Hashdata_Full ht' = entries Hashdata_Full ht \<and> rest s' = rest s \<and>
    owned s' (ht_data_at ht') (data_bytes ht') \<and>
    (\<forall>q b. q \<noteq> ht_data_at ht \<longrightarrow> owned s q b \<longrightarrow> owned s' q b) \<and>
    (\<forall>k. valid k \<longrightarrow> ht_lookup ht' k = ht_lookup ht k) \<and>
    (st = Ok \<longrightarrow> unat (ht_size ht') = 2 * unat (ht_size ht) \<and> entries Hashdata_Tombstone ht' = 0 \<and>
       \<not> should_grow (ht_size ht') (ht_used ht'))"
proof -
  note ok = ht_okD [OF keyedD(3) [OF assms(1)]]
  let ?N = "ht_size ht * 2"
  have N: "unat ?N = 2 * unat (ht_size ht)" using assms(2) by (simp add: unat_word_ariths)
  then have grows: "?N > ht_size ht" "0 < ?N" "unat ?N < 2 ^ 59"
    using ok(2) assms(2) by (simp_all add: word_less_nat_alt)
  have B: "unat (?N * sizeof_hashdata) = 24 * unat ?N"
    by (rule unat_data_bytes [OF grows(3)])
  have bytes: "0 < ?N * sizeof_hashdata" "unat (?N * sizeof_hashdata) + 16 < 2 ^ 64"
    using B grows(2,3) by (simp_all add: word_less_nat_alt)
  from malloc [of 0 1 s, OF _ bytes] assms(3) obtain p s1 where p: "kmalloc (?N * sizeof_hashdata) s = Ret (p, s1)"
    and case_p: "p = 0 \<and> s1 = s \<or> p \<noteq> 0 \<and> ready 0 1 s1 \<and> owned s1 p (?N * sizeof_hashdata) \<and> rest s1 = rest s \<and>
         (\<forall>q b. owned s q b \<longrightarrow> q \<noteq> p \<and> owned s1 q b)" by (auto simp only: One_nat_def)
  show ?thesis
  proof (cases "p = 0")
    case True
    with case_p p grows(1) assms show ?thesis by (simp add: hashtable_rebalance_def)
  next
    case False
    with case_p have s1: "ready 0 1 s1" "owned s1 p (?N * sizeof_hashdata)" "rest s1 = rest s"
      "\<And>q b. owned s q b \<Longrightarrow> q \<noteq> p \<and> owned s1 q b" by blast+
    from free [of 0 0 s1, OF _ s1(4) [OF assms(4), THEN conjunct2]] s1(1) obtain s3 where
      s3: "kfree (ht_data_at ht) s1 = Ret s3" "ready 1 0 s3" "rest s3 = rest s1"
        "\<And>q b. owned s1 q b \<Longrightarrow> q \<noteq> ht_data_at ht \<Longrightarrow> owned s3 q b" by auto
    let ?new = "fresh_table ?N (ht_hash ht) (ht_comp ht) p"
    note fresh = fresh_table_ok [OF grows(2,3), where hf = "ht_hash ht" and hc = "ht_comp ht" and p = p]
    have keyed0: "keyed ?new"
      using fresh(1) by (simp add: keyed_def fresh_table_def keyedD [OF assms(1)])
    have room: "2 * length (filter full (ht_data ht)) \<le> unat (ht_size ?new)"
      using N ok(3) length_filter_le [of full "ht_data ht"] by (simp add: fresh_table_def)
    have same: "(case pending hc (ht_data ht) k of Some v \<Rightarrow> Some v | None \<Rightarrow> ht_lookup ?new k) =
        ht_lookup ht k" for k
      using fresh(2) pending_data [of ht k] by (simp add: keyedD [OF assms(1)] split: option.splits)
    have "\<exists>new'. rebalance_loop (put_depth (Suc m) kmalloc kfree) (ht_data ht) ?new s1 =
        Ret (Ok, new', s1) \<and> keyed new' \<and> ht_size new' = ht_size ?new \<and> ht_data_at new' = ht_data_at ?new \<and>
      entries Hashdata_Tombstone new' = 0 \<and>
      entries Hashdata_Full new' = entries Hashdata_Full ?new + length (filter full (ht_data ht)) \<and>
      (\<forall>k. valid k \<longrightarrow> ht_lookup new' k =
        (case pending hc (ht_data ht) k of Some v \<Rightarrow> Some v | None \<Rightarrow> ht_lookup ?new k))"
      using keyed0 fresh room distinct_keys_data [OF assms(1)]
      by (intro rebalance_loop_correct) simp_all
    then obtain new' where loop: "rebalance_loop (put_depth (Suc m) kmalloc kfree) (ht_data ht)
        ?new s1 = Ret (Ok, new', s1)" and new': "keyed new'" "ht_size new' = ?N" "ht_data_at new' = p"
      "entries Hashdata_Tombstone new' = 0"
      "entries Hashdata_Full new' = length (filter full (ht_data ht))"
      "\<And>k. valid k \<Longrightarrow> ht_lookup new' k = ht_lookup ht k"
      using fresh(4) same by (auto simp: fresh_table_def)
    have "\<not> should_grow (ht_size new') (ht_used new')"
      using room new'(2,5) ht_okD(4) [OF keyedD(3) [OF new'(1)]]
      by (intro half_full_no_grow [of "length (filter full (ht_data ht))"])
        (simp_all add: fresh_table_def)
    moreover have "ht\<lparr>ht_data_at := ht_data_at new', ht_data := ht_data new',
        ht_used := ht_used new', ht_size := ht_size new'\<rparr> = new'"
      using keyedD(1,2) [OF assms(1)] keyedD(1,2) [OF new'(1)] by (cases new'; cases ht) simp
    ultimately have run: "hashtable_rebalance (put_depth (Suc m) kmalloc kfree) kmalloc kfree ht ?N s = Ret (Ok, new', s3)"
      and stays: "\<not> should_grow (ht_size new') (ht_used new')"
      using p False s3(1) loop grows(1) by (simp_all add: hashtable_rebalance_def fresh_table_def)
    have "owned s3 (ht_data_at new') (data_bytes new')"
      using s3(4) [OF s1(2)] s1(4) [OF assms(4)] by (auto simp: new'(2,3) data_bytes_def)
    with run stays s3(2,3) s1(3) new' N s1(4) s3(4) show ?thesis by (auto simp: entries_full)
  qed
qed

text \<open>Storing an absent key, with or without room: what the table holds and where.\<close>

lemma put_step:
  assumes "keyed ht" "0 < entries Hashdata_Empty ht" "valid key" "ht_lookup ht key = None"
    and "unat (ht_size ht) < 2 ^ 58" "should_grow (ht_size ht) (ht_used ht + 1) \<longrightarrow> ready 1 1 s"
    and "owned s (ht_data_at ht) (data_bytes ht)"
  shows "\<exists>st ht' s'. put_depth (Suc (Suc m)) kmalloc kfree ht key v s = Ret (st, ht', s') \<and>
    (st = Ok \<or> st = Error_No_Memory \<and> should_grow (ht_size ht) (ht_used ht + 1)) \<and>
    (if should_grow (ht_size ht) (ht_used ht + 1)
     then st = Ok \<and> ready 1 0 s' \<and> unat (ht_size ht') = 2 * unat (ht_size ht) \<and>
         entries Hashdata_Tombstone ht' = 0 \<and> \<not> should_grow (ht_size ht') (ht_used ht') \<or>
       st = Error_No_Memory \<and> s' = s \<and> ht_size ht' = ht_size ht
     else st = Ok \<and> s' = s \<and> ht_size ht' = ht_size ht \<and> ht_used ht' = ht_used ht + 1 \<and>
       entries Hashdata_Tombstone ht' = entries Hashdata_Tombstone ht) \<and>
    keyed ht' \<and> entries Hashdata_Full ht' = Suc (entries Hashdata_Full ht) \<and> rest s' = rest s \<and>
    owned s' (ht_data_at ht') (data_bytes ht') \<and>
    (\<forall>q b. q \<noteq> ht_data_at ht \<longrightarrow> owned s q b \<longrightarrow> owned s' q b) \<and>
    (\<forall>k. valid k \<longrightarrow> ht_lookup ht' k =
       (if hc k key = Partial_Equal then Some v else ht_lookup ht k))"
proof -
  from insert_step [OF assms(1,3,2,4), of v] obtain i ht1 ht2 where
    seek: "hashtable_seek_empty ht key = Ret (i, ht1)" "store_entry ht1 i key v = ht2"
    and ht2: "keyed ht2" "ht_size ht2 = ht_size ht" "ht_used ht2 = ht_used ht + 1" "ht_data_at ht2 = ht_data_at ht"
      "entries Hashdata_Tombstone ht2 = entries Hashdata_Tombstone ht"
      "entries Hashdata_Full ht2 = Suc (entries Hashdata_Full ht)"
    and look: "\<And>k. valid k \<Longrightarrow> ht_lookup ht2 k =
       (if hc k key = Partial_Equal then Some v else ht_lookup ht k)" by blast
  have put: "put_depth (Suc (Suc m)) kmalloc kfree ht key v s =
      (if should_grow (ht_size ht2) (ht_used ht2)
       then hashtable_rebalance (put_depth (Suc m) kmalloc kfree) kmalloc kfree ht2 (ht_size ht2 * 2) s
       else Ret (Ok, ht2, s))"
    using seek by (subst put_depth.simps) (auto simp: Let_def)
  have own2: "owned s (ht_data_at ht2) (data_bytes ht2)" using assms(7) ht2 by (simp add: data_bytes_def)
  show ?thesis
  proof (cases "should_grow (ht_size ht2) (ht_used ht2)")
    case False
    with ht2 look put own2 show ?thesis by auto
  next
    case True
    have "unat (ht_size ht2) < 2 ^ 58" "ready 1 1 s" using True ht2 assms(5,6) by simp_all
    from rebalance_doubles [OF ht2(1) this own2, of m] True put look ht2
    show ?thesis by (elim exE conjE) (auto 0 3)
  qed
qed

lemma put_correct:
  assumes "keyed ht" "ht_roomy ht" "valid key" "ht_lookup ht key = None"
    and "unat (ht_size ht) < 2 ^ 58" "should_grow (ht_size ht) (ht_used ht + 1) \<longrightarrow> ready 1 1 s"
    and "owned s (ht_data_at ht) (data_bytes ht)"
  shows "\<exists>st ht' s'. put_depth (Suc (Suc m)) kmalloc kfree ht key v s = Ret (st, ht', s') \<and>
    (st = Ok \<or> st = Error_No_Memory \<and> should_grow (ht_size ht) (ht_used ht + 1)) \<and> keyed ht' \<and> (st = Ok \<longrightarrow> ht_roomy ht') \<and>
    (s' = s \<and> ht_size ht' = ht_size ht \<or> should_grow (ht_size ht) (ht_used ht + 1) \<and> ready 1 0 s' \<and> unat (ht_size ht') = 2 * unat (ht_size ht)) \<and>
    entries Hashdata_Full ht' = Suc (entries Hashdata_Full ht) \<and> rest s' = rest s \<and>
    owned s' (ht_data_at ht') (data_bytes ht') \<and>
    (\<forall>q b. q \<noteq> ht_data_at ht \<longrightarrow> owned s q b \<longrightarrow> owned s' q b) \<and>
    (\<forall>k. valid k \<longrightarrow> ht_lookup ht' k =
       (if hc k key = Partial_Equal then Some v else ht_lookup ht k))"
proof -
  have "0 < entries Hashdata_Empty ht" using roomy_empties [OF keyedD(3) [OF assms(1)] assms(2)] by simp
  from put_step [OF assms(1) this assms(3-7), of m v] assms(2) show ?thesis
    by (elim exE conjE) (auto simp: ht_roomy_def split: if_splits)
qed

end


subsection \<open>Removal\<close>

definition bury :: "hashtable \<Rightarrow> nat \<Rightarrow> hashtable" where
  "bury ht i = ht\<lparr>ht_data := (ht_data ht)[i := (ht_data ht ! i)\<lparr>hd_state := Hashdata_Tombstone\<rparr>],
     ht_used := ht_used ht - 1\<rparr>"

lemma bury_simps [simp]:
  "ht_size (bury ht i) = ht_size ht" "ht_hash (bury ht i) = ht_hash ht"
  "ht_comp (bury ht i) = ht_comp ht" "ht_used (bury ht i) = ht_used ht - 1"
  "length (ht_data (bury ht i)) = length (ht_data ht)" "home (bury ht i) k = home ht k"
  by (simp_all add: bury_def home_def split: res.split)

lemma state_at_bury:
  "i < length (ht_data ht) \<Longrightarrow>
   state_at (bury ht i) j = (if j = i then Hashdata_Tombstone else state_at ht j)"
  by (simp add: state_at_def bury_def)

lemma key_at_bury: "key_at (bury ht i) j = key_at ht j"
  by (cases "i < length (ht_data ht)"; cases "j = i") (simp_all add: key_at_def bury_def not_less list_update_beyond)

lemma value_at_bury: "hd_value (ht_data (bury ht i) ! j) = hd_value (ht_data ht ! j)"
  by (cases "i < length (ht_data ht)"; cases "j = i") (simp_all add: bury_def not_less list_update_beyond)

lemma entries_bury:
  assumes "i < length (ht_data ht)" "state_at ht i = Hashdata_Full"
  shows "Suc (entries Hashdata_Full (bury ht i)) = entries Hashdata_Full ht"
    and "entries Hashdata_Empty (bury ht i) = entries Hashdata_Empty ht"
  using length_filter_update [OF assms(1), of "\<lambda>d. hd_state d = Hashdata_Full"
      "(ht_data ht ! i)\<lparr>hd_state := Hashdata_Tombstone\<rparr>"]
    length_filter_update [OF assms(1), of "\<lambda>d. hd_state d = Hashdata_Empty"
      "(ht_data ht ! i)\<lparr>hd_state := Hashdata_Tombstone\<rparr>"] assms(2)
  by (simp_all add: entries_def bury_def state_at_def)

lemma path_clear_bury:
  "i < length (ht_data ht) \<Longrightarrow> path_clear ht k j \<Longrightarrow> path_clear (bury ht i) k j"
  by (auto simp: path_clear_def state_at_bury Let_def)

context hash_keys
begin

lemma keyed_bury:
  assumes "keyed ht" "i < unat (ht_size ht)" "state_at ht i = Hashdata_Full"
  shows "keyed (bury ht i)"
proof -
  note ok = keyedD(3) [OF assms(1)]
  have i: "i < length (ht_data ht)" using assms(2) ht_okD(3) [OF ok] by simp
  note cnt = entries_bury(1) [OF i assms(3)]
  then have "ht_used ht \<noteq> 0" using ht_okD(4) [OF ok] by (auto simp: unat_eq_0)
  then have "unat (ht_used ht - 1) = entries Hashdata_Full (bury ht i)"
    using cnt ht_okD(4) [OF ok] by (simp add: unat_minus_one)
  moreover have "valid (key_at ht j) \<and> path_clear (bury ht i) (key_at ht j) j"
    if "j < unat (ht_size ht)" "state_at (bury ht i) j = Hashdata_Full" for j
    using that ht_ok_slot [OF ok that(1)] by (auto simp: state_at_bury i path_clear_bury split: if_splits)
  moreover have "j = k" if "j < unat (ht_size ht)" "k < unat (ht_size ht)"
      "state_at (bury ht i) j = Hashdata_Full" "state_at (bury ht i) k = Hashdata_Full"
      "ht_comp ht (key_at ht j) (key_at ht k) = Partial_Equal" for j k
    using that ht_ok_unique [OF ok, of j k] by (auto simp: state_at_bury i split: if_splits)
  ultimately show ?thesis
    using assms(1) ok by (simp add: keyed_def ht_ok_def key_at_bury)
qed

lemma lookup_bury:
  assumes "keyed ht" "valid key" "i < unat (ht_size ht)" "matches ht key i" "valid k"
  shows "ht_lookup (bury ht i) k = (if hc k key = Partial_Equal then None else ht_lookup ht k)"
proof -
  note ok = keyedD(3) [OF assms(1)]
  note len = ht_okD(3) [OF ok]
  have i: "i < length (ht_data ht)" using assms(3) len by simp
  have full: "state_at ht i = Hashdata_Full" using assms(4) by (simp add: matches_iff)
  note keyed' = keyed_bury [OF assms(1,3) full]
  have vi: "valid (key_at ht i)" using ht_ok_slot [OF ok assms(3) full] by simp
  have m: "matches (bury ht i) k j \<longleftrightarrow> j \<noteq> i \<and> matches ht k j" for j
    by (auto simp: matches_iff state_at_bury key_at_bury i)
  have key: "hc key (key_at ht i) = Partial_Equal" "hc (key_at ht i) key = Partial_Equal"
    using assms(1,2,4) comp_sym [OF assms(2) vi] by (auto simp: matches_iff keyedD)
  have mi: "hc k key = Partial_Equal \<longleftrightarrow> matches ht k i"
    using comp_trans [OF assms(5,2) vi _ key(1)] comp_trans [OF assms(5) vi assms(2) _ key(2)] full
    by (auto simp: matches_iff keyedD [OF assms(1)])
  show ?thesis
  proof (cases "hc k key = Partial_Equal")
    case True
    then have "\<not> matches (bury ht i) k j" if "j < unat (ht_size ht)" for j
      using match_unique [OF assms(1,5) that assms(3)] m mi by blast
    with True len show ?thesis by (simp add: ht_lookup_None)
  next
    case False
    then have ni: "\<not> matches ht k i" using mi by simp
    show ?thesis
    proof (cases "ht_lookup ht k")
      case None
      with m len have "ht_lookup (bury ht i) k = None" by (auto simp: ht_lookup_None)
      with None False show ?thesis by simp
    next
      case (Some w)
      from ht_lookup_SomeD [OF this] len obtain j where j: "j < unat (ht_size ht)" "matches ht k j"
        "hd_value (ht_data ht ! j) = w" by auto
      with ni m have "matches (bury ht i) k j" by auto
      from lookup_match [OF keyed' assms(5) _ this] j(1,3) False Some show ?thesis
        by (simp add: value_at_bury)
    qed
  qed
qed

lemma remove_present:
  assumes "keyed ht" "valid key" "ht_lookup ht key \<noteq> None"
  shows "\<exists>ht'. hashtable_remove kmalloc kfree ht key s =
      (if should_shrink (ht_size ht) (ht_used ht - 1) then Panic else Ret (Ok, ht', s)) \<and>
    keyed ht' \<and> ht_size ht' = ht_size ht \<and> ht_used ht' = ht_used ht - 1 \<and>
    entries Hashdata_Empty ht' = entries Hashdata_Empty ht \<and>
    (\<forall>k. valid k \<longrightarrow> ht_lookup ht' k = (if hc k key = Partial_Equal then None else ht_lookup ht k))"
proof -
  from assms(3) obtain i where i: "i < unat (ht_size ht)" "matches ht key i"
    using ht_okD(3) [OF keyedD(3) [OF assms(1)]] by (auto simp: ht_lookup_None)
  then have full: "state_at ht i = Hashdata_Full" by (simp add: matches_iff)
  have len: "i < length (ht_data ht)" using i(1) ht_okD(3) [OF keyedD(3) [OF assms(1)]] by simp
  have "unat (ht_size ht div 2) \<le> unat (ht_size ht)" by (simp add: unat_div)
  then have "\<not> ht_size ht div 2 > ht_size ht" by (simp add: word_less_nat_alt)
  then have "hashtable_remove kmalloc kfree ht key s =
      (if should_shrink (ht_size ht) (ht_used ht - 1) then Panic else Ret (Ok, bury ht i, s))"
    using seek_found [OF assms(1,2) i]
    by (simp add: hashtable_remove_def hashtable_rebalance_def bury_def Let_def)
  with keyed_bury [OF assms(1) i(1) full] lookup_bury [OF assms(1,2) i] entries_bury(2) [OF len full]
  show ?thesis by (intro exI [of _ "bury ht i"]) simp
qed

lemma remove_absent:
  assumes "keyed ht" "valid key" "ht_lookup ht key = None" "2 \<le> entries Hashdata_Empty ht"
  shows "hashtable_remove kmalloc kfree ht key s = Fault"
  using assms seek_absent [OF assms(1,2) _ assms(4)] ht_okD(3) [OF keyedD(3) [OF assms(1)]]
  by (simp add: hashtable_remove_def ht_lookup_None)

text \<open>With no empty slot left, a search for an absent key runs all the way round.\<close>

lemma seek_full_panics:
  assumes "keyed ht" "valid key" "ht_lookup ht key = None" "entries Hashdata_Empty ht = 0"
  shows "hashtable_seek ht key = Panic"
proof -
  let ?n = "unat (ht_size ht)" and ?h = "home ht key"
  note ok = ht_okD [OF keyedD(3) [OF assms(1)]]
  have "\<not> matches ht key i" "state_at ht i \<noteq> Hashdata_Empty" if "i < ?n" for i
    using that assms(3,4) ok(3) by (auto simp: ht_lookup_None entries_def filter_empty_conv state_at_def)
  moreover have "probe ?n ?h j < ?n" for j using ok(2) by (rule probe_less)
  ultimately have "find (\<lambda>j. state_at ht (probe ?n ?h j) = Hashdata_Empty \<or>
      matches ht key (probe ?n ?h j)) [1..<?n] = None" "\<not> matches ht key ?h"
    using home_less [OF ok(1)] by (auto simp: find_None_iff)
  then show ?thesis by (simp add: seek_unfold [OF assms(1,2)])
qed

end


subsection \<open>Churn\<close>

text \<open>A key that comes and goes: \<open>n\<close> rounds of an insertion and a removal.\<close>

primrec churn ::
    "nat \<Rightarrow> 's kmalloc_f \<Rightarrow> 's kfree_f \<Rightarrow> hashtable \<Rightarrow> u64 \<Rightarrow> u64 \<Rightarrow> 's \<Rightarrow> (hashtable \<times> 's) res" where
  "churn 0 kmalloc kfree ht key v s = Ret (ht, s)"
| "churn (Suc n) kmalloc kfree ht key v s =
     res_bind (hashtable_put kmalloc kfree ht key v s) (\<lambda>(_, ht1, s1).
     res_bind (hashtable_remove kmalloc kfree ht1 key s1) (\<lambda>(_, ht2, s2).
     churn n kmalloc kfree ht2 key v s2))"

context hash_keys
begin

lemma put_no_grow:
  assumes "keyed ht" "valid key" "0 < entries Hashdata_Empty ht" "ht_lookup ht key = None"
    "\<not> should_grow (ht_size ht) (ht_used ht + 1)"
  shows "\<exists>ht'. hashtable_put kmalloc kfree ht key v s = Ret (Ok, ht', s) \<and> keyed ht' \<and>
    ht_size ht' = ht_size ht \<and> ht_used ht' = ht_used ht + 1 \<and>
    Suc (entries Hashdata_Empty ht') = entries Hashdata_Empty ht \<and>
    (\<forall>k. valid k \<longrightarrow> ht_lookup ht' k =
       (if hc k key = Partial_Equal then Some v else ht_lookup ht k))"
proof -
  have depth: "hashtable_put kmalloc kfree = put_depth (Suc 65) kmalloc kfree"
    by (simp add: hashtable_put_def)
  from insert_step [OF assms(1-4), of v] obtain i ht1 ht2 where
    "hashtable_seek_empty ht key = Ret (i, ht1)" "store_entry ht1 i key v = ht2"
    "keyed ht2" "ht_size ht2 = ht_size ht" "ht_used ht2 = ht_used ht + 1"
    "Suc (entries Hashdata_Empty ht2) = entries Hashdata_Empty ht"
    "\<forall>k. valid k \<longrightarrow> ht_lookup ht2 k =
       (if hc k key = Partial_Equal then Some v else ht_lookup ht k)" by blast
  with assms(5) show ?thesis
    unfolding depth put_depth.simps by (intro exI [of _ ht2]) (auto simp: Let_def)
qed

lemma churn_burns:
  assumes "keyed ht" "valid key" "n \<le> entries Hashdata_Empty ht" "ht_lookup ht key = None"
    "\<not> should_grow (ht_size ht) (ht_used ht + 1)" "32 \<le> ht_size ht"
  shows "\<exists>ht'. churn n kmalloc kfree ht key v s = Ret (ht', s) \<and> keyed ht' \<and>
    entries Hashdata_Empty ht' + n = entries Hashdata_Empty ht \<and>
    (\<forall>k. valid k \<longrightarrow> ht_lookup ht' k = ht_lookup ht k)"
  using assms
proof (induction n arbitrary: ht)
  case 0
  then show ?case by simp
next
  case (Suc n)
  have pos: "0 < entries Hashdata_Empty ht" using Suc.prems(3) by simp
  from put_no_grow [OF Suc.prems(1,2) pos Suc.prems(4,5), of kmalloc kfree v s]
  obtain ht1 where put: "hashtable_put kmalloc kfree ht key v s = Ret (Ok, ht1, s)" "keyed ht1"
    "ht_size ht1 = ht_size ht" "ht_used ht1 = ht_used ht + 1"
    "Suc (entries Hashdata_Empty ht1) = entries Hashdata_Empty ht"
    and look1: "\<And>k. valid k \<Longrightarrow> ht_lookup ht1 k =
      (if hc k key = Partial_Equal then Some v else ht_lookup ht k)" by blast
  have present: "ht_lookup ht1 key \<noteq> None" using look1 Suc.prems(2) comp_refl by simp
  have stay: "\<not> should_shrink (ht_size ht1) (ht_used ht1 - 1)"
    using put(3) Suc.prems(6) by (simp add: should_shrink_def linorder_not_less)
  from remove_present [OF put(2) Suc.prems(2) present, of kmalloc kfree s] stay
  obtain ht2 where rem: "hashtable_remove kmalloc kfree ht1 key s = Ret (Ok, ht2, s)" "keyed ht2"
    "ht_size ht2 = ht_size ht1" "ht_used ht2 = ht_used ht1 - 1"
    "entries Hashdata_Empty ht2 = entries Hashdata_Empty ht1"
    and look2: "\<And>k. valid k \<Longrightarrow> ht_lookup ht2 k =
      (if hc k key = Partial_Equal then None else ht_lookup ht1 k)" by auto
  have none: "ht_lookup ht k = None" if "valid k" "hc k key = Partial_Equal" for k
  proof (rule ccontr)
    assume "ht_lookup ht k \<noteq> None"
    then obtain j where j: "j < unat (ht_size ht)" "matches ht k j"
      using ht_okD(3) [OF keyedD(3) [OF Suc.prems(1)]] by (auto simp: ht_lookup_None)
    then have "valid (key_at ht j)" "hc k (key_at ht j) = Partial_Equal"
      using ht_ok_slot [OF keyedD(3) [OF Suc.prems(1)] j(1)]
      by (auto simp: matches_iff keyedD [OF Suc.prems(1)])
    then have "hc key (key_at ht j) = Partial_Equal"
      using that Suc.prems(2) comp_sym comp_trans by metis
    with j(2) have "matches ht key j" by (simp add: matches_iff keyedD [OF Suc.prems(1)])
    with Suc.prems(4) j(1) show False
      using ht_okD(3) [OF keyedD(3) [OF Suc.prems(1)]] by (simp add: ht_lookup_None)
  qed
  have same: "ht_lookup ht2 k = ht_lookup ht k" if "valid k" for k
    using look1 [OF that] look2 [OF that] none [OF that] by simp
  have "\<exists>ht'. churn n kmalloc kfree ht2 key v s = Ret (ht', s) \<and> keyed ht' \<and>
    entries Hashdata_Empty ht' + n = entries Hashdata_Empty ht2 \<and>
    (\<forall>k. valid k \<longrightarrow> ht_lookup ht' k = ht_lookup ht2 k)"
    using rem put Suc.prems same [OF Suc.prems(2)] by (intro Suc.IH) auto
  with put(1,5) rem(1,5) same show ?case by auto
qed

end

context hash_keys
begin

lemma put_duplicate:
  assumes "keyed ht" "valid key" "0 < entries Hashdata_Empty ht" "ht_lookup ht key = Some old"
    "\<not> should_grow (ht_size ht) (ht_used ht + 1)"
  shows "\<exists>ht'. hashtable_put kmalloc kfree ht key v s = Ret (Ok, ht', s) \<and>
    hashtable_get ht' key = Ret old \<and> ht_used ht' = ht_used ht + 1"
proof -
  let ?n = "unat (ht_size ht)" and ?h = "home ht key"
  note ok = ht_okD [OF keyedD(3) [OF assms(1)]]
  from ht_lookup_SomeD [OF assms(4)] ok(3) obtain i where
    i: "i < ?n" "matches ht key i" "hd_value (ht_data ht ! i) = old" by auto
  from seek_empty_finds [OF assms(1-3)] obtain j ht1 where
    j: "j < ?n" "state_at ht j = Hashdata_Empty"
    and seek: "hashtable_seek_empty ht key = Ret (j, ht1)"
      "store_entry ht1 j key v = store_entry ht j key v" by blast
  let ?ht = "store_entry ht j key v"
  have len: "j < length (ht_data ht)" using j(1) ok(3) by simp
  have ij: "i \<noteq> j" using i(2) j(2) by (auto simp: matches_iff)
  have same: "state_at ?ht k = state_at ht k" "matches ?ht key k = matches ht key k"
    if "k \<noteq> j" for k
    using that by (simp_all add: matches_iff state_at_store key_at_store len)
  note d = probe_dist [OF home_less [OF ok(1)] i(1), of key]
  have before: "state_at ?ht (probe ?n ?h k) \<noteq> Hashdata_Empty \<and> \<not> matches ?ht key (probe ?n ?h k)"
    if "k < probe_dist ?n ?h i" for k
    using before_match [OF assms(1,2) i(1,2) that] same [of "probe ?n ?h k"] j(2)
    by (cases "probe ?n ?h k = j") auto
  have home: "home_slot ?ht key = Ret (home ?ht key)"
    using home_slot_home [OF assms(1,2)] by (cases "ht_hash ht key") (auto simp: home_slot_def split: if_splits)
  have "hashtable_seek ?ht key = Ret (Some i)"
    using seek_first [OF _ _ home, of "probe_dist ?n ?h i"] before ok d i(2) same [OF ij] by simp
  then have "hashtable_get ?ht key = Ret old"
    using ij i(3) by (simp add: hashtable_get_def value_at_store len)
  moreover have depth: "hashtable_put kmalloc kfree = put_depth (Suc 65) kmalloc kfree"
    by (simp add: hashtable_put_def)
  have "ht_size ht1 = ht_size ht" "ht_used ht1 + 1 = ht_used ht + 1"
    using arg_cong [OF seek(2), of ht_size] arg_cong [OF seek(2), of ht_used] by simp_all
  then have "hashtable_put kmalloc kfree ht key v s = Ret (Ok, ?ht, s)"
    unfolding depth put_depth.simps using assms(5) seek by (simp add: Let_def)
  ultimately show ?thesis by auto
qed

end

subsection \<open>The string table\<close>

definition short_string :: "mem \<Rightarrow> u64 \<Rightarrow> bool" where
  "short_string m p \<longleftrightarrow> (\<exists>n < Page_Small. first_nul m p n)"

definition str_eq :: "mem \<Rightarrow> u64 \<Rightarrow> u64 \<Rightarrow> bool" where
  "str_eq m a b \<longleftrightarrow> (\<exists>n. first_nul m a n \<and> first_nul m b n \<and> (\<forall>k < n. m (a + k) = m (b + k)))"

lemma first_nul_unique: "first_nul m p n \<Longrightarrow> first_nul m p n' \<Longrightarrow> n = n'"
  by (metis first_nul_def linorder_less_linear)

lemma hash_str_loop_eq:
  assumes "first_nul m a n" "first_nul m b n" "\<forall>k < n. m (a + k) = m (b + k)" "i \<le> n"
  shows "\<exists>h. hash_str_loop m a i acc = Some h \<and> hash_str_loop m b i acc = Some h"
  using assms(4)
proof (induction "unat (n - i)" arbitrary: i acc)
  case 0
  then have "i = n" by (simp add: unat_eq_0)
  with assms show ?case
    by (intro exI [of _ acc]) (simp add: hash_str_loop.simps first_nul_def)
next
  case (Suc d)
  then have lt: "i < n" by (metis order.order_iff_strict diff_self unat_0 nat.distinct(1))
  have "d = unat (n - (i + 1))" using Suc.hyps(2) lt by unat_arith
  from Suc.hyps(1) [OF this word_Suc_le [OF lt]] lt assms show ?case
    by (subst (1 2) hash_str_loop.simps) (auto simp: first_nul_def)
qed

lemma comp_str_eq:
  assumes "short_string m a"
  shows "hash_str_comp m a b = Partial_Equal \<longleftrightarrow> str_eq m a b"
proof -
  from assms obtain n where n: "n < Page_Small" "first_nul m a n" by (auto simp: short_string_def)
  have eq: "hash_str_comp m a b = Partial_Equal \<longleftrightarrow>
      (\<forall>k. k < Page_Small \<longrightarrow> (\<forall>j. j < k \<longrightarrow> m (a + j) \<noteq> 0) \<longrightarrow> m (a + k) = m (b + k))"
    unfolding hash_str_comp_def strncmp_def using strncmp_loop_zero_iff [of m a b Page_Small 0]
    by (simp del: Page_Small_eq) blast
  show ?thesis
  proof
    assume equal: "hash_str_comp m a b = Partial_Equal"
    have agree: "m (a + k) = m (b + k)" if "k \<le> n" for k
    proof -
      have "k < Page_Small" using that n(1) by (rule order.strict_trans1)
      moreover have "\<forall>j. j < k \<longrightarrow> m (a + j) \<noteq> 0"
        using that n(2) by (auto simp: first_nul_def dest: order.strict_trans2)
      ultimately show ?thesis using eq equal by blast
    qed
    then have "first_nul m b n" using n(2) by (auto simp: first_nul_def)
    with n(2) agree show "str_eq m a b" unfolding str_eq_def by (meson less_imp_le)
  next
    assume "str_eq m a b"
    with n(2) have "first_nul m b n" "\<forall>k < n. m (a + k) = m (b + k)"
      unfolding str_eq_def using first_nul_unique [OF n(2)] by blast+
    then have "m (a + k) = m (b + k)" if "\<forall>j. j < k \<longrightarrow> m (a + j) \<noteq> 0" for k
      using that n(2) by (metis first_nul_def linorder_less_linear)
    with eq show "hash_str_comp m a b = Partial_Equal" by blast
  qed
qed

interpretation strs: hash_keys "hash_str m" "hash_str_comp m" "short_string m" for m
proof unfold_locales
  fix k assume "short_string m k"
  then obtain n where "first_nul m k n" by (auto simp: short_string_def)
  from hash_str_loop_eq [OF this this] show "\<exists>h. hash_str m k = Ret h"
    by (metis hash_str_def option.simps(5) word_zero_le)
next
  fix j k assume "short_string m j" "short_string m k" "hash_str_comp m j k = Partial_Equal"
  then obtain n where "first_nul m j n" "first_nul m k n" "\<forall>i < n. m (j + i) = m (k + i)"
    by (auto simp: comp_str_eq str_eq_def)
  from hash_str_loop_eq [OF this, of 0 negative_golden_ratio] show "hash_str m j = hash_str m k"
    by (auto simp: hash_str_def)
next
  fix k assume "short_string m k"
  then show "hash_str_comp m k k = Partial_Equal"
    by (auto simp: comp_str_eq str_eq_def short_string_def)
next
  fix j k assume "short_string m j" "short_string m k" "hash_str_comp m j k = Partial_Equal"
  then show "hash_str_comp m k j = Partial_Equal"
    by (auto simp: comp_str_eq str_eq_def)
next
  fix i j k assume "short_string m i" "short_string m j" "short_string m k"
    "hash_str_comp m i j = Partial_Equal" "hash_str_comp m j k = Partial_Equal"
  then show "hash_str_comp m i k = Partial_Equal"
    by (auto simp: comp_str_eq str_eq_def) (metis first_nul_unique)
qed


definition string_table :: "mem \<Rightarrow> hashtable \<Rightarrow> bool" where
  "string_table m ht \<longleftrightarrow> ht_hash ht = hash_str m \<and> ht_comp ht = hash_str_comp m \<and>
     ht_ok (short_string m) ht"

lemma string_table_keyed: "string_table m ht \<longleftrightarrow> strs.keyed m ht"
  by (simp add: string_table_def strs.keyed_def)

text \<open>Tables of strings on a heap.\<close>

sublocale table_heap \<subseteq> str_table:
  heap_table "hash_str m" "hash_str_comp m" "short_string m" kmalloc kfree ready owned rest for m
  by unfold_locales

context table_heap
begin

lemma string_put:
  assumes "string_table m ht" "ht_roomy ht" "short_string m key" "ht_lookup ht key = None"
    and "unat (ht_size ht) < 2 ^ 58" "should_grow (ht_size ht) (ht_used ht + 1) \<longrightarrow> ready 1 1 s"
    and "owned s (ht_data_at ht) (data_bytes ht)"
  obtains st ht' s' where "hashtable_put kmalloc kfree ht key v s = Ret (st, ht', s')"
    "st = Ok \<or> st = Error_No_Memory \<and> should_grow (ht_size ht) (ht_used ht + 1)"
    "string_table m ht'" "st = Ok \<Longrightarrow> ht_roomy ht'"
    "s' = s \<and> ht_size ht' = ht_size ht \<or> should_grow (ht_size ht) (ht_used ht + 1) \<and> ready 1 0 s' \<and> unat (ht_size ht') = 2 * unat (ht_size ht)"
    "entries Hashdata_Full ht' = Suc (entries Hashdata_Full ht)" "rest s' = rest s"
    "owned s' (ht_data_at ht') (data_bytes ht')"
    "\<And>q b. q \<noteq> ht_data_at ht \<Longrightarrow> owned s q b \<Longrightarrow> owned s' q b"
    "\<And>k. short_string m k \<Longrightarrow>
       ht_lookup ht' k = (if str_eq m k key then Some v else ht_lookup ht k)"
proof -
  have depth: "hashtable_put kmalloc kfree = put_depth (Suc (Suc 64)) kmalloc kfree"
    by (simp add: hashtable_put_def)
  from assms(1) have keyed: "strs.keyed m ht" by (simp add: string_table_keyed)
  from str_table.put_correct [OF keyed assms(2-7), of 64 v] obtain st ht' s' where
    "put_depth (Suc (Suc 64)) kmalloc kfree ht key v s = Ret (st, ht', s')"
    "st = Ok \<or> st = Error_No_Memory \<and> should_grow (ht_size ht) (ht_used ht + 1)" "strs.keyed m ht'"
    "st = Ok \<longrightarrow> ht_roomy ht'"
    "s' = s \<and> ht_size ht' = ht_size ht \<or> should_grow (ht_size ht) (ht_used ht + 1) \<and> ready 1 0 s' \<and> unat (ht_size ht') = 2 * unat (ht_size ht)"
    "entries Hashdata_Full ht' = Suc (entries Hashdata_Full ht)" "rest s' = rest s"
    "owned s' (ht_data_at ht') (data_bytes ht')" "\<forall>q b. q \<noteq> ht_data_at ht \<longrightarrow> owned s q b \<longrightarrow> owned s' q b"
    and look: "\<forall>k. short_string m k \<longrightarrow> ht_lookup ht' k =
      (if hash_str_comp m k key = Partial_Equal then Some v else ht_lookup ht k)" by blast
  with that [of st ht' s'] show thesis
    unfolding depth string_table_keyed using comp_str_eq by simp
qed

end

subsection \<open>Properties\<close>

text \<open>On a well-formed table of strings with two empty slots left, \<open>hashtable_get\<close> returns
  and its result is that of a linear search of the whole array: the stored value, or \<open>NULL\<close>.\<close>

theorem hashtable_get_correct:
  assumes "string_table m ht" "short_string m key" "2 \<le> entries Hashdata_Empty ht"
  shows "hashtable_get ht key = Ret (case ht_lookup ht key of None \<Rightarrow> 0 | Some v \<Rightarrow> v)"
  using strs.get_lookup assms by (simp add: string_table_keyed)

text \<open>Removing a stored key from a table leaves every other string as it was, unless the
  table is due to shrink: then the rebuild asks for a smaller size where it asserts a larger
  one, and the kernel halts. Removing an absent key writes through a null pointer.\<close>

theorem hashtable_remove_correct:
  assumes "string_table m ht" "short_string m key" "2 \<le> entries Hashdata_Empty ht"
  shows "(ht_lookup ht key = None \<longrightarrow> hashtable_remove kmalloc kfree ht key s = Fault) \<and>
    (ht_lookup ht key \<noteq> None \<longrightarrow> should_shrink (ht_size ht) (ht_used ht - 1) \<longrightarrow>
       hashtable_remove kmalloc kfree ht key s = Panic) \<and>
    (ht_lookup ht key \<noteq> None \<longrightarrow> \<not> should_shrink (ht_size ht) (ht_used ht - 1) \<longrightarrow>
       (\<exists>ht'. hashtable_remove kmalloc kfree ht key s = Ret (Ok, ht', s) \<and> string_table m ht' \<and>
          (\<forall>k. short_string m k \<longrightarrow>
             ht_lookup ht' k = (if str_eq m k key then None else ht_lookup ht k))))"
proof -
  from assms(1) have keyed: "strs.keyed m ht" by (simp add: string_table_keyed)
  show ?thesis
    using strs.remove_absent [OF keyed assms(2) _ assms(3)]
      strs.remove_present [OF keyed assms(2), of kmalloc kfree s] comp_str_eq
    unfolding string_table_keyed by (metis (no_types, lifting))
qed

text \<open>Tombstones are never reclaimed: in any table of 32 slots or more, a key that is put and
  removed as often as there are empty slots leaves the contents as they were and no empty slot,
  and from then on looking up an absent string halts the kernel.\<close>

theorem hashtable_churn_panics:
  assumes "string_table m ht" "short_string m key" "ht_lookup ht key = None"
    "\<not> should_grow (ht_size ht) (ht_used ht + 1)" "32 \<le> ht_size ht"
  shows "\<exists>ht'. churn (entries Hashdata_Empty ht) kmalloc kfree ht key v s = Ret (ht', s) \<and>
    (\<forall>k. short_string m k \<longrightarrow> ht_lookup ht' k = ht_lookup ht k) \<and> hashtable_get ht' key = Panic"
proof -
  from assms(1) have keyed: "strs.keyed m ht" by (simp add: string_table_keyed)
  from strs.churn_burns [OF keyed assms(2) order_refl assms(3-5), of kmalloc kfree v s]
  obtain ht' where ht': "churn (entries Hashdata_Empty ht) kmalloc kfree ht key v s = Ret (ht', s)"
    "strs.keyed m ht'" "entries Hashdata_Empty ht' = 0"
    "\<And>k. short_string m k \<Longrightarrow> ht_lookup ht' k = ht_lookup ht k" by auto
  then have "hashtable_seek ht' key = Panic"
    using strs.seek_full_panics [OF ht'(2) assms(2)] assms(2,3) by simp
  with ht' show ?thesis by (auto simp: hashtable_get_def)
qed


text \<open>\<open>hashtable_put\<close> does not replace: storing a key that is present occupies a second
  slot behind the first, and \<open>hashtable_get\<close> keeps returning the old value.\<close>

theorem hashtable_put_keeps_old:
  assumes "string_table m ht" "short_string m key" "0 < entries Hashdata_Empty ht"
    "ht_lookup ht key = Some old" "\<not> should_grow (ht_size ht) (ht_used ht + 1)"
  shows "\<exists>ht'. hashtable_put kmalloc kfree ht key v s = Ret (Ok, ht', s) \<and>
    hashtable_get ht' key = Ret old \<and> ht_used ht' = ht_used ht + 1"
  using strs.put_duplicate assms by (simp add: string_table_keyed)

subsection \<open>A concrete table\<close>

text \<open>Two one-letter strings and an empty table of 32 slots.\<close>

definition demo_mem :: mem where
  "demo_mem a = (if a = 0x2000 then 65 else if a = 0x3000 then 66 else 0)"

definition demo_table :: hashtable where
  "demo_table = fresh_table 32 (hash_str demo_mem) (hash_str_comp demo_mem) 0x5000"

definition demo_kmalloc :: "unit kmalloc_f" where "demo_kmalloc b s = Ret (0x9000, s)"
definition demo_kfree :: "unit kfree_f" where "demo_kfree p s = Ret s"

lemma demo_short: "short_string demo_mem 0x2000" "short_string demo_mem 0x3000"
  by (auto simp: short_string_def first_nul_def demo_mem_def word_less_1 intro!: exI [of _ 1])

lemma demo_table_ok: "string_table demo_mem demo_table" "ht_lookup demo_table k = None"
  "entries Hashdata_Full demo_table = 0" "entries Hashdata_Tombstone demo_table = 0"
  using fresh_table_ok [of 32] by (simp_all add: string_table_def demo_table_def, simp add: fresh_table_def)

lemma demo_fields: "ht_size demo_table = 32" "ht_used demo_table = 0"
  "entries Hashdata_Empty demo_table = 32"
  using entries_total [of demo_table] demo_table_ok(3,4) length_zeroed_data [of 32]
  by (simp_all add: demo_table_def fresh_table_def)

lemma demo_differ: "hash_str_comp demo_mem 0x3000 0x2000 \<noteq> Partial_Equal"
proof -
  have "\<not> str_eq demo_mem 0x3000 0x2000"
    by (auto simp: str_eq_def first_nul_def demo_mem_def word_gt_0 intro!: exI [of _ 0])
  then show ?thesis using comp_str_eq [OF demo_short(2)] by blast
qed

lemma demo_put:
  "\<exists>ht'. hashtable_put demo_kmalloc demo_kfree demo_table 0x2000 7 () = Ret (Ok, ht', ()) \<and>
     string_table demo_mem ht' \<and> ht_size ht' = 32 \<and> ht_used ht' = 1 \<and>
     entries Hashdata_Empty ht' = 31 \<and> ht_lookup ht' 0x2000 = Some 7 \<and>
     ht_lookup ht' 0x3000 = None"
  using strs.put_no_grow [of demo_mem demo_table "0x2000" demo_kmalloc demo_kfree 7 "()"]
    demo_short demo_table_ok strs.comp_refl [OF demo_short(1)] demo_differ
  by (auto simp: string_table_keyed demo_fields should_grow_def)

theorem hashtable_get_correct_witness:
  "\<exists>ht'. hashtable_put demo_kmalloc demo_kfree demo_table 0x2000 7 () = Ret (Ok, ht', ()) \<and>
     hashtable_get ht' 0x2000 = Ret 7"
  using demo_put hashtable_get_correct [OF _ demo_short(1)] by fastforce

theorem hashtable_remove_correct_witness:
  "\<exists>ht1 ht2. hashtable_put demo_kmalloc demo_kfree demo_table 0x2000 7 () = Ret (Ok, ht1, ()) \<and>
     hashtable_remove demo_kmalloc demo_kfree ht1 0x2000 () = Ret (Ok, ht2, ()) \<and>
     ht_lookup ht2 0x2000 = None \<and>
     hashtable_remove demo_kmalloc demo_kfree ht1 0x3000 () = Fault"
proof -
  from demo_put obtain ht1 where put:
    "hashtable_put demo_kmalloc demo_kfree demo_table 0x2000 7 () = Ret (Ok, ht1, ())"
    "string_table demo_mem ht1" "ht_size ht1 = 32" "ht_used ht1 = 1"
    "entries Hashdata_Empty ht1 = 31" "ht_lookup ht1 0x2000 = Some 7" "ht_lookup ht1 0x3000 = None"
    by blast
  have stay: "\<not> should_shrink (ht_size ht1) (ht_used ht1 - 1)" using put by (simp add: should_shrink_def)
  have eq: "str_eq demo_mem 0x2000 0x2000"
    using strs.comp_refl [OF demo_short(1)] comp_str_eq [OF demo_short(1)] by blast
  have two: "2 \<le> entries Hashdata_Empty ht1" using put(5) by simp
  have "hashtable_remove demo_kmalloc demo_kfree ht1 0x3000 () = Fault"
    using hashtable_remove_correct [OF put(2) demo_short(2) two, of demo_kmalloc demo_kfree "()"]
      put(7) by simp
  moreover obtain ht2 where "hashtable_remove demo_kmalloc demo_kfree ht1 0x2000 () = Ret (Ok, ht2, ())"
    "ht_lookup ht2 0x2000 = None"
    using hashtable_remove_correct [OF put(2) demo_short(1) two, of demo_kmalloc demo_kfree "()"]
      put(6) stay eq demo_short(1) by auto
  ultimately show ?thesis using put(1) by blast
qed

theorem hashtable_churn_panics_witness:
  "\<exists>ht'. churn (entries Hashdata_Empty demo_table) demo_kmalloc demo_kfree demo_table 0x2000 7 () =
     Ret (ht', ()) \<and> hashtable_get ht' 0x2000 = Panic"
  using hashtable_churn_panics [OF demo_table_ok(1) demo_short(1) demo_table_ok(2),
      of demo_kmalloc demo_kfree 7 "()"]
  by (auto simp: demo_fields should_grow_def)

theorem hashtable_put_keeps_old_witness:
  "\<exists>ht1 ht2. hashtable_put demo_kmalloc demo_kfree demo_table 0x2000 7 () = Ret (Ok, ht1, ()) \<and>
     hashtable_put demo_kmalloc demo_kfree ht1 0x2000 8 () = Ret (Ok, ht2, ()) \<and>
     hashtable_get ht2 0x2000 = Ret 7"
proof -
  from demo_put obtain ht1 where put:
    "hashtable_put demo_kmalloc demo_kfree demo_table 0x2000 7 () = Ret (Ok, ht1, ())"
    "string_table demo_mem ht1" "ht_size ht1 = 32" "ht_used ht1 = 1"
    "entries Hashdata_Empty ht1 = 31" "ht_lookup ht1 0x2000 = Some 7" by blast
  from hashtable_put_keeps_old [OF put(2) demo_short(1) _ put(6), of demo_kmalloc demo_kfree 8 "()"]
    put show ?thesis by (auto simp: should_grow_def)
qed

end
