(* ===== verification/Symbols.thy ===== *)
theory Symbols
  imports Hashtable
begin

text \<open>
  \<open>kernel/core/symbols.c\<close>: the kernel symbol table, a hash table from names to addresses that
  \<open>symbol_init\<close> fills from the table the linker embeds in the image. The image's table is a
  list of pairs of a name (a pointer to a string) and a location.
\<close>

record symbol_embedded =
  location :: u64
  sym_name :: u64

definition SYMBOL_FUDGE_FACTOR :: u64 where "SYMBOL_FUDGE_FACTOR = 128"

text \<open>The static \<open>symbol_table\<close>: a null pointer, or the address of the table and the table.\<close>

type_synonym symbol_table = "(u64 \<times> hashtable) option"

subsection \<open>Operations\<close>

text \<open>The clean-up loop \<open>for (--i; i != SIZE_MAX; --i)\<close> removes the names stored so far, last
  first, and ignores the results.\<close>

fun unregister :: "'s kmalloc_f \<Rightarrow> 's kfree_f \<Rightarrow> symbol_embedded list \<Rightarrow> hashtable \<Rightarrow> 's
      \<Rightarrow> (hashtable \<times> 's) res" where
  "unregister kmalloc kfree [] ht s = Ret (ht, s)"
| "unregister kmalloc kfree (e # es) ht s =
     res_bind (hashtable_remove kmalloc kfree ht (sym_name e) s) (\<lambda>(_, ht1, s1).
     unregister kmalloc kfree es ht1 s1)"

text \<open>\<open>stored\<close> holds the symbols stored so far, last first.\<close>

fun register_all :: "'s kmalloc_f \<Rightarrow> 's kfree_f \<Rightarrow> symbol_embedded list \<Rightarrow> symbol_embedded list \<Rightarrow>
      hashtable \<Rightarrow> 's \<Rightarrow> (status \<times> hashtable \<times> 's) res" where
  "register_all kmalloc kfree stored [] ht s = Ret (Ok, ht, s)"
| "register_all kmalloc kfree stored (e # es) ht s =
     res_bind (hashtable_put kmalloc kfree ht (sym_name e) (location e) s) (\<lambda>(st, ht1, s1).
     if st \<noteq> Ok then
       res_bind (unregister kmalloc kfree stored ht1 s1) (\<lambda>(ht2, s2). Ret (st, ht2, s2))
     else register_all kmalloc kfree (e # stored) es ht1 s1)"

definition symbol_init ::
    "mem \<Rightarrow> 's kmalloc_f \<Rightarrow> 's kfree_f \<Rightarrow> symbol_embedded list \<Rightarrow> 's
      \<Rightarrow> (status \<times> symbol_table \<times> 's) res" where
  "symbol_init m kmalloc kfree symbols s =
     res_bind (hashtable_init kmalloc kfree (of_nat (length symbols) + SYMBOL_FUDGE_FACTOR)
        (hash_str m) (hash_str_comp m) s) (\<lambda>(table, s1).
     case table of None \<Rightarrow> Ret (Error_No_Memory, None, s1)
     | Some (p, ht) \<Rightarrow>
         res_bind (register_all kmalloc kfree [] symbols ht s1) (\<lambda>(st, ht1, s2).
         Ret (st, Some (p, ht1), s2)))"

definition symbol_fini :: "'s kfree_f \<Rightarrow> symbol_table \<Rightarrow> 's \<Rightarrow> 's res" where
  "symbol_fini kfree symbol_table s =
     res_bind (deref symbol_table) (\<lambda>(p, ht). hashtable_destroy kfree p ht s)"

definition symbol_remove ::
    "'s kmalloc_f \<Rightarrow> 's kfree_f \<Rightarrow> symbol_table \<Rightarrow> u64 \<Rightarrow> 's \<Rightarrow> (status \<times> symbol_table \<times> 's) res" where
  "symbol_remove kmalloc kfree symbol_table symbol s =
     res_bind (deref symbol_table) (\<lambda>(p, ht).
     res_bind (hashtable_remove kmalloc kfree ht symbol s) (\<lambda>(st, ht1, s1).
     Ret (st, Some (p, ht1), s1)))"

definition symbol_get :: "symbol_table \<Rightarrow> u64 \<Rightarrow> u64 res" where
  "symbol_get symbol_table symbol =
     res_bind (deref symbol_table) (\<lambda>(p, ht). hashtable_get ht symbol)"

definition symbol_put ::
    "'s kmalloc_f \<Rightarrow> 's kfree_f \<Rightarrow> symbol_table \<Rightarrow> u64 \<Rightarrow> u64 \<Rightarrow> 's
      \<Rightarrow> (status \<times> symbol_table \<times> 's) res" where
  "symbol_put kmalloc kfree symbol_table symbol loc s =
     res_bind (deref symbol_table) (\<lambda>(p, ht).
     res_bind (hashtable_put kmalloc kfree ht symbol loc s) (\<lambda>(st, ht1, s1).
     Ret (st, Some (p, ht1), s1)))"

subsection \<open>Every embedded symbol resolves\<close>

definition distinct_names :: "mem \<Rightarrow> symbol_embedded list \<Rightarrow> bool" where
  "distinct_names m es \<longleftrightarrow> list_all (\<lambda>e. short_string m (sym_name e)) es \<and>
     sorted_wrt (\<lambda>d e. \<not> str_eq m (sym_name e) (sym_name d) \<and> \<not> str_eq m (sym_name d) (sym_name e)) es"

lemma distinct_names_simps [simp]:
  "distinct_names m []"
  "distinct_names m (e # es) \<longleftrightarrow> short_string m (sym_name e) \<and> distinct_names m es \<and>
     (\<forall>d \<in> set es. \<not> str_eq m (sym_name d) (sym_name e) \<and> \<not> str_eq m (sym_name e) (sym_name d))"
  by (auto simp: distinct_names_def)

lemma distinct_names_short: "distinct_names m es \<Longrightarrow> e \<in> set es \<Longrightarrow> short_string m (sym_name e)"
  by (simp add: distinct_names_def list_all_iff)

lemma str_eq_sym: "str_eq m a b \<Longrightarrow> str_eq m b a"
  by (auto simp: str_eq_def)

lemma str_eq_refl: "short_string m a \<Longrightarrow> str_eq m a a"
  by (auto simp: str_eq_def short_string_def)

text \<open>Removing names that are all present from a table of 32 slots or more succeeds.\<close>

lemma unregister_returns:
  assumes "string_table m ht" "32 \<le> ht_size ht" "distinct_names m es"
    and "\<And>e. e \<in> set es \<Longrightarrow> ht_lookup ht (sym_name e) \<noteq> None"
  shows "\<exists>ht'. unregister kmalloc kfree es ht s = Ret (ht', s)"
  using assms
proof (induction es arbitrary: ht)
  case Nil
  then show ?case by simp
next
  case (Cons e es)
  have stay: "\<not> should_shrink (ht_size ht) (ht_used ht - 1)"
    using Cons.prems(2) by (simp add: should_shrink_def linorder_not_less)
  from Cons.prems(1) have keyed: "strs.keyed m ht" by (simp add: string_table_keyed)
  have short: "short_string m (sym_name e)" using Cons.prems(3) by simp
  have "ht_lookup ht (sym_name e) \<noteq> None" using Cons.prems(4) by simp
  from strs.remove_present [OF keyed short this, of kmalloc kfree s] stay obtain ht1 where
    rem: "hashtable_remove kmalloc kfree ht (sym_name e) s = Ret (Ok, ht1, s)" "strs.keyed m ht1"
      "ht_size ht1 = ht_size ht"
    and look: "\<And>k. short_string m k \<Longrightarrow> ht_lookup ht1 k =
      (if hash_str_comp m k (sym_name e) = Partial_Equal then None else ht_lookup ht k)" by auto
  have "\<exists>ht'. unregister kmalloc kfree es ht1 s = Ret (ht', s)"
  proof (rule Cons.IH)
    fix d assume d: "d \<in> set es"
    then have "short_string m (sym_name d)" "\<not> str_eq m (sym_name d) (sym_name e)"
      using Cons.prems(3) distinct_names_short by auto
    with look d Cons.prems(4) comp_str_eq show "ht_lookup ht1 (sym_name d) \<noteq> None" by auto
  qed (use rem Cons.prems in \<open>simp_all add: string_table_keyed\<close>)
  with rem(1) show ?case by simp
qed

context table_heap
begin

text \<open>The table is made with room for all symbols and grows once at most, to a size at which
  they fill no more than half of it.\<close>

lemma register_all_correct:
  assumes "string_table m ht" "ht_roomy ht" "32 \<le> ht_size ht" "distinct_names m (rev stored @ es)"
    and "entries Hashdata_Full ht = length stored" "length stored + length es < 2 ^ 55"
    and "ready 1 k s" "owned s (ht_data_at ht) (data_bytes ht)"
    and "k = 1 \<and> unat (ht_size ht) = length stored + length es + 128 \<or>
      2 * (length stored + length es) \<le> unat (ht_size ht) \<and> unat (ht_size ht) \<le> 2 ^ 57"
    and stored: "\<And>e. e \<in> set stored \<Longrightarrow> ht_lookup ht (sym_name e) = Some (location e)"
    and fresh: "\<And>e. e \<in> set es \<Longrightarrow> ht_lookup ht (sym_name e) = None"
  shows "\<exists>st ht' s' k'. register_all kmalloc kfree stored es ht s = Ret (st, ht', s') \<and>
    (st = Ok \<or> st = Error_No_Memory) \<and> ready 1 k' s' \<and> rest s' = rest s \<and>
    (st = Ok \<longrightarrow> string_table m ht' \<and> ht_roomy ht' \<and> owned s' (ht_data_at ht') (data_bytes ht') \<and>
      (\<forall>e \<in> set stored \<union> set es. ht_lookup ht' (sym_name e) = Some (location e)))"
  using assms
proof (induction es arbitrary: stored ht s k)
  case Nil
  then show ?case by auto
next
  case (Cons e es)
  have dn: "distinct_names m (rev stored @ e # es)" by fact
  have short: "short_string m (sym_name e)" using dn by (auto intro: distinct_names_short)
  have absent: "ht_lookup ht (sym_name e) = None" "unat (ht_size ht) < 2 ^ 58"
    using Cons.prems(6,9,11) by auto
  have half: "\<not> should_grow (ht_size ht) (ht_used ht + 1)" if "2 * Suc (length stored) \<le> unat (ht_size ht)"
  proof -
    have used: "unat (ht_used ht) = length stored"
      using ht_okD(4) [of "short_string m" ht] Cons.prems(1,5) by (simp add: string_table_def)
    have "unat (ht_size ht) < 2 ^ LENGTH(64)" by (rule unsigned_less)
    with that used have "unat (ht_used ht + 1) = Suc (length stored)" by (simp add: unat_word_ariths)
    with half_full_no_grow [OF that] show ?thesis by simp
  qed
  have ready: "should_grow (ht_size ht) (ht_used ht + 1) \<longrightarrow> ready 1 1 s"
    using half Cons.prems(7,9) by auto
  obtain st ht1 s1 where
    put: "hashtable_put kmalloc kfree ht (sym_name e) (location e) s = Ret (st, ht1, s1)"
      "st = Ok \<or> st = Error_No_Memory" "string_table m ht1" "st = Ok \<Longrightarrow> ht_roomy ht1"
      "s1 = s \<and> ht_size ht1 = ht_size ht \<or> should_grow (ht_size ht) (ht_used ht + 1) \<and> ready 1 0 s1 \<and> unat (ht_size ht1) = 2 * unat (ht_size ht)"
      "entries Hashdata_Full ht1 = Suc (entries Hashdata_Full ht)" "rest s1 = rest s"
      "owned s1 (ht_data_at ht1) (data_bytes ht1)"
    and look: "\<And>k. short_string m k \<Longrightarrow> ht_lookup ht1 k =
       (if str_eq m k (sym_name e) then Some (location e) else ht_lookup ht k)"
    by (rule string_put [OF Cons.prems(1,2) short absent ready Cons.prems(8), of "location e"]) blast
  obtain k1 where k1: "ready 1 k1 s1" "k1 = 1 \<and> unat (ht_size ht1) = Suc (length stored) + length es + 128 \<or>
      2 * (Suc (length stored) + length es) \<le> unat (ht_size ht1) \<and> unat (ht_size ht1) \<le> 2 ^ 57"
  proof (cases "s1 = s \<and> ht_size ht1 = ht_size ht")
    case True
    with that [of k] Cons.prems(7,9) show thesis by simp
  next
    case False
    with put(5) have "ready 1 0 s1" "unat (ht_size ht1) = 2 * unat (ht_size ht)"
      "should_grow (ht_size ht) (ht_used ht + 1)" by auto
    moreover from this(3) half have "\<not> 2 * Suc (length stored) \<le> unat (ht_size ht)" by blast
    ultimately show thesis using that [of 0] Cons.prems(6,9) by auto
  qed
  have size: "32 \<le> ht_size ht1" using put(5) Cons.prems(3) by (auto simp: word_le_nat_alt)
  have apart: "short_string m (sym_name d)" "\<not> str_eq m (sym_name d) (sym_name e)"
    if "d \<in> set stored \<union> set es" for d
    using dn that by (auto simp: distinct_names_def sorted_wrt_append list_all_iff)
  have kept: "ht_lookup ht1 (sym_name d) = Some (location d)" if "d \<in> set (e # stored)" for d
    using that look short str_eq_refl [OF short] apart Cons.prems(10) by auto
  show ?case
  proof (cases "st = Ok")
    case True
    have "\<exists>st ht' s' k'. register_all kmalloc kfree (e # stored) es ht1 s1 = Ret (st, ht', s') \<and>
      (st = Ok \<or> st = Error_No_Memory) \<and> ready 1 k' s' \<and> rest s' = rest s1 \<and>
      (st = Ok \<longrightarrow> string_table m ht' \<and> ht_roomy ht' \<and> owned s' (ht_data_at ht') (data_bytes ht') \<and>
        (\<forall>d \<in> set (e # stored) \<union> set es. ht_lookup ht' (sym_name d) = Some (location d)))"
    proof (rule Cons.IH)
      show "ht_lookup ht1 (sym_name d) = None" if "d \<in> set es" for d
        using that look apart Cons.prems(11) by simp
    qed (use put True size Cons.prems kept k1 in simp_all)
    with put(1,7) True show ?thesis by simp
  next
    case False
    have "distinct_names m stored"
      using dn by (auto simp: distinct_names_def sorted_wrt_append list_all_iff sorted_wrt_rev
          conj_commute)
    with unregister_returns [OF put(3) size] kept
    obtain ht2 where "unregister kmalloc kfree stored ht1 s1 = Ret (ht2, s1)" by fastforce
    with put(1,2,7) k1(1) False show ?thesis by auto
  qed
qed

lemma symbol_init_correct:
  assumes "distinct_names m symbols" "length symbols < 2 ^ 55" "ready 3 1 s"
  shows "\<exists>st table s' i k. symbol_init m kmalloc kfree symbols s = Ret (st, table, s') \<and>
    (st = Ok \<or> st = Error_No_Memory) \<and> ready i k s' \<and> rest s' = rest s \<and>
    (st = Ok \<longrightarrow> (\<forall>e \<in> set symbols. symbol_get table (sym_name e) = Ret (location e)))"
proof -
  let ?sz = "of_nat (length symbols) + SYMBOL_FUDGE_FACTOR :: u64"
  have sz: "unat ?sz = length symbols + 128"
    using assms(2) by (simp add: SYMBOL_FUDGE_FACTOR_def unat_word_ariths unat_of_nat)
  have pos: "0 < ?sz" "unat ?sz < 2 ^ 59" using sz assms(2) by (simp_all add: word_less_nat_alt)
  have bytes: "0 < ?sz * sizeof_hashdata" "unat (?sz * sizeof_hashdata) + 16 < 2 ^ 64"
    using unat_data_bytes [OF pos(2)] sz assms(2) by (simp_all add: word_less_nat_alt)
  have "ready (Suc 2) 1 s" using assms(3) by (simp add: numeral_3_eq_3)
  from malloc [OF this, of sizeof_hashtable] obtain p1 s1 where p1: "kmalloc sizeof_hashtable s = Ret (p1, s1)"
    "p1 = 0 \<and> s1 = s \<or> p1 \<noteq> 0 \<and> ready 2 1 s1 \<and> owned s1 p1 sizeof_hashtable \<and> rest s1 = rest s"
    by (auto simp: sizeof_hashtable_def)
  show ?thesis
  proof (cases "p1 = 0")
    case True
    with p1 assms(3) show ?thesis by (auto simp: symbol_init_def hashtable_init_def)
  next
    case False
    with p1(2) have s1: "ready (Suc 1) 1 s1" "owned s1 p1 sizeof_hashtable" "rest s1 = rest s"
      by (auto simp: numeral_2_eq_2)
    from malloc [OF s1(1) bytes] obtain p2 s2 where p2: "kmalloc (?sz * sizeof_hashdata) s1 = Ret (p2, s2)"
      "p2 = 0 \<and> s2 = s1 \<or> p2 \<noteq> 0 \<and> ready 1 1 s2 \<and> owned s2 p2 (?sz * sizeof_hashdata) \<and> rest s2 = rest s1"
      by blast
    show ?thesis
    proof (cases "p2 = 0")
      case True
      with free [of 2 0 s1 p1 sizeof_hashtable] s1 p1(1) p2 False show ?thesis
        by (auto simp: symbol_init_def hashtable_init_def numeral_2_eq_2) blast
    next
      case ne: False
      with p2(2) have s2: "ready 1 1 s2" "owned s2 p2 (?sz * sizeof_hashdata)" "rest s2 = rest s"
        using s1(3) by auto
      let ?ht = "fresh_table ?sz (hash_str m) (hash_str_comp m) p2"
      note fresh = fresh_table_ok [OF pos, where hf = "hash_str m" and hc = "hash_str_comp m" and p = p2]
      have table: "string_table m ?ht"
        using fresh(1) by (simp add: string_table_def) (simp add: fresh_table_def)
      have roomy: "ht_roomy ?ht"
        using fresh(3) sz half_full_no_grow [of 0 ?sz 0] by (simp add: ht_roomy_def fresh_table_def)
      have "\<exists>st ht' s' k'. register_all kmalloc kfree [] symbols ?ht s2 = Ret (st, ht', s') \<and>
        (st = Ok \<or> st = Error_No_Memory) \<and> ready 1 k' s' \<and> rest s' = rest s2 \<and>
        (st = Ok \<longrightarrow> string_table m ht' \<and> ht_roomy ht' \<and> owned s' (ht_data_at ht') (data_bytes ht') \<and>
          (\<forall>e \<in> set [] \<union> set symbols. ht_lookup ht' (sym_name e) = Some (location e)))"
        by (rule register_all_correct [where k = 1])
          (use assms table roomy fresh sz s2 in \<open>simp_all add: fresh_table_def word_le_nat_alt data_bytes_def\<close>)
      then obtain st ht' s' k' where reg: "register_all kmalloc kfree [] symbols ?ht s2 = Ret (st, ht', s')"
        "st = Ok \<or> st = Error_No_Memory" "ready 1 k' s'" "rest s' = rest s2"
        "st = Ok \<Longrightarrow> string_table m ht'" "st = Ok \<Longrightarrow> ht_roomy ht'"
        "\<And>e. st = Ok \<Longrightarrow> e \<in> set symbols \<Longrightarrow> ht_lookup ht' (sym_name e) = Some (location e)"
        by auto
      have "hashtable_get ht' (sym_name e) = Ret (location e)" if "st = Ok" "e \<in> set symbols" for e
        using reg that strs.get_lookup [of m ht' "sym_name e"] distinct_names_short [OF assms(1)]
          roomy_empties [of "short_string m" ht'] by (simp add: string_table_keyed strs.keyed_def)
      moreover have "symbol_init m kmalloc kfree symbols s = Ret (st, Some (p1, ht'), s')"
        using p1(1) p2(1) False ne reg(1) by (simp add: symbol_init_def hashtable_init_def fresh_table_def)
      ultimately show ?thesis using reg(2-4) s2(3) by (auto simp: symbol_get_def)
    qed
  qed
qed

end

end
