(* ===== verification/Paging.thy ===== *)
theory Paging
  imports Klock "HOL-Library.Sublist"
begin

text \<open>
  \<open>kernel/arch/x64/paging.c\<close>: the four level page tables of x86-64, edited through the fractal
  (recursive) slot 256 of the top table.

  The state holds physical memory, a frame of 512 words for every page aligned physical address,
  and \<open>cr3\<close>. \<open>walk\<close> is the processor's translation (4 KiB pages, which is all that \<open>boot.S\<close> and
  this file set up; no translation cache). The code's accesses \<open>level_one[pl1_index(va)]\<close> and
  so on are loads and stores at virtual addresses and go through \<open>walk\<close> like any other, so an
  access to a table that is not there is a page fault. The functions that allocate or free
  page frames take the allocator's routine as an argument; \<open>Physical_Allocator\<close> supplies it.
\<close>

subsection \<open>The machine\<close>

record mm =
  frames :: "u64 \<Rightarrow> u64 \<Rightarrow> u64"
  cr3 :: u64
  pa_lock :: lock
  Physical_Page :: u64

definition Phys_Addr_Mask :: u64 where "Phys_Addr_Mask = 0x000ffffffffff000"

definition pl4_Count :: nat where "pl4_Count = 512"
definition pl3_Count :: nat where "pl3_Count = 512"
definition pl2_Count :: nat where "pl2_Count = 512"
definition pl1_Count :: nat where "pl1_Count = 512"

definition free_page_entry :: u64 where "free_page_entry = 0xcccccccccccccc"
definition Memory_Just_Writable :: u64 where "Memory_Just_Writable = push_bit 1 1"
definition Kernel_Fractal_Page_Table_Index :: u64 where "Kernel_Fractal_Page_Table_Index = 256"
definition invalid_phys_addr :: u64 where "invalid_phys_addr = 0xfff"

definition page_entry_to_phys :: "u64 \<Rightarrow> phys_addr" where
  "page_entry_to_phys entry = entry AND Phys_Addr_Mask"

definition page_entry_clone :: "phys_addr \<Rightarrow> u64 \<Rightarrow> u64" where
  "page_entry_clone new_entry old_entry = (old_entry AND NOT Phys_Addr_Mask) OR new_entry"

definition pl4_index :: "u64 \<Rightarrow> u64" where
  "pl4_index address = drop_bit 39 address AND 0x1ff"

definition pl3_index :: "u64 \<Rightarrow> u64" where
  "pl3_index address = drop_bit 30 address AND 0x1ff"

definition pl2_index :: "u64 \<Rightarrow> u64" where
  "pl2_index address = drop_bit 21 address AND 0x1ff"

definition pl1_index :: "u64 \<Rightarrow> u64" where
  "pl1_index address = drop_bit 12 address AND 0x1ff"

text \<open>The octal constants of the source, in hexadecimal.\<close>

definition get_pl4 :: u64 where
  "get_pl4 = 0xffff804020100000"

definition get_pl3_index :: "u64 \<Rightarrow> u64" where
  "get_pl3_index i4 = 0xffff804020000000 OR push_bit 12 i4"

definition get_pl2_index :: "u64 \<Rightarrow> u64 \<Rightarrow> u64" where
  "get_pl2_index i4 i3 = 0xffff804000000000 OR push_bit 21 i4 OR push_bit 12 i3"

definition get_pl1_index :: "u64 \<Rightarrow> u64 \<Rightarrow> u64 \<Rightarrow> u64" where
  "get_pl1_index i4 i3 i2 =
     0xffff800000000000 OR push_bit 30 i4 OR push_bit 21 i3 OR push_bit 12 i2"

definition get_pl3 :: "u64 \<Rightarrow> u64" where
  "get_pl3 address = get_pl3_index (pl4_index address)"

definition get_pl2 :: "u64 \<Rightarrow> u64" where
  "get_pl2 address = get_pl2_index (pl4_index address) (pl3_index address)"

definition get_pl1 :: "u64 \<Rightarrow> u64" where
  "get_pl1 address = get_pl1_index (pl4_index address) (pl3_index address) (pl2_index address)"

definition virt_from_indices :: "u64 \<Rightarrow> u64 \<Rightarrow> u64 \<Rightarrow> u64 \<Rightarrow> u64" where
  "virt_from_indices i4 i3 i2 i1 =
     push_bit 39 i4 OR push_bit 30 i3 OR push_bit 21 i2 OR push_bit 12 i1"

text \<open>The processor's walk: one level, a path of levels, and a virtual address.\<close>

definition entry_present :: "u64 \<Rightarrow> bool" where
  "entry_present e \<longleftrightarrow> e AND Memory_Present = 1"

definition table_step :: "('a) mm_scheme \<Rightarrow> u64 \<Rightarrow> u64 \<Rightarrow> u64 option" where
  "table_step s f i =
     (let e = frames s f i in if entry_present e then Some (page_entry_to_phys e) else None)"

primrec traverse :: "('a) mm_scheme \<Rightarrow> u64 \<Rightarrow> u64 list \<Rightarrow> u64 option" where
  "traverse s f [] = Some f"
| "traverse s f (i # is) = (case table_step s f i of None \<Rightarrow> None | Some g \<Rightarrow> traverse s g is)"

definition root :: "('a) mm_scheme \<Rightarrow> u64" where
  "root s = page_entry_to_phys (cr3 s)"

definition walk :: "('a) mm_scheme \<Rightarrow> u64 \<Rightarrow> u64 option" where
  "walk s va = traverse s (root s) [pl4_index va, pl3_index va, pl2_index va, pl1_index va]"

definition word_index :: "u64 \<Rightarrow> u64" where
  "word_index va = drop_bit 3 va AND 0x1ff"

definition load :: "('a) mm_scheme \<Rightarrow> u64 \<Rightarrow> u64 res" where
  "load s va =
     (case walk s va of None \<Rightarrow> Fault | Some f \<Rightarrow> Ret (frames s f (word_index va)))"

definition write_frame :: "u64 \<Rightarrow> u64 \<Rightarrow> u64 \<Rightarrow> ('a) mm_scheme \<Rightarrow> ('a) mm_scheme" where
  "write_frame f i v s = s\<lparr>frames := (frames s)(f := (frames s f)(i := v))\<rparr>"

definition store :: "u64 \<Rightarrow> u64 \<Rightarrow> ('a) mm_scheme \<Rightarrow> (('a) mm_scheme) res" where
  "store va v s =
     (case walk s va of None \<Rightarrow> Fault | Some f \<Rightarrow> Ret (write_frame f (word_index va) v s))"

text \<open>The \<open>i\<close>-th entry of a table, \<open>table[i]\<close>.\<close>

definition entry_at :: "u64 \<Rightarrow> u64 \<Rightarrow> u64" where
  "entry_at table i = table + 8 * i"

text \<open>\<open>memset(page, 0, Page_Small)\<close> on a page aligned address.\<close>

definition zero_page :: "u64 \<Rightarrow> ('a) mm_scheme \<Rightarrow> (('a) mm_scheme) res" where
  "zero_page va s =
     (case walk s va of None \<Rightarrow> Fault
      | Some f \<Rightarrow> Ret (s\<lparr>frames := (frames s)(f := (\<lambda>_. 0))\<rparr>))"

subsection \<open>Mapping pages\<close>

definition is_pl3_present :: "('a) mm_scheme \<Rightarrow> u64 \<Rightarrow> u64 \<Rightarrow> bool res" where
  "is_pl3_present s pl4 address =
     res_bind (load s (entry_at pl4 (pl4_index address))) (\<lambda>e. Ret (e AND Memory_Present = 1))"

definition is_pl2_present :: "('a) mm_scheme \<Rightarrow> u64 \<Rightarrow> u64 \<Rightarrow> bool res" where
  "is_pl2_present s level_three address =
     res_bind (load s (entry_at level_three (pl3_index address))) (\<lambda>e. Ret (e AND Memory_Present \<noteq> 0))"

definition is_pl1_present :: "('a) mm_scheme \<Rightarrow> u64 \<Rightarrow> u64 \<Rightarrow> bool res" where
  "is_pl1_present s level_two address =
     res_bind (load s (entry_at level_two (pl2_index address))) (\<lambda>e. Ret (e AND Memory_Present \<noteq> 0))"

definition is_Memory_Present :: "('a) mm_scheme \<Rightarrow> u64 \<Rightarrow> u64 \<Rightarrow> bool res" where
  "is_Memory_Present s level_one address =
     res_bind (load s (entry_at level_one (pl1_index address))) (\<lambda>e. Ret (e AND Memory_Present \<noteq> 0))"

text \<open>\<open>a && b\<close> of two conditions that may fault.\<close>

definition and_also :: "bool res \<Rightarrow> bool res \<Rightarrow> bool res" where
  "and_also a b = res_bind a (\<lambda>x. if x then b else Ret False)"

definition fully_present :: "('a) mm_scheme \<Rightarrow> u64 \<Rightarrow> bool res" where
  "fully_present s va =
     and_also (is_pl3_present s get_pl4 va)
       (and_also (is_pl2_present s (get_pl3 va) va)
         (and_also (is_pl1_present s (get_pl2 va) va) (is_Memory_Present s (get_pl1 va) va)))"

definition bad_permissions :: "u64 \<Rightarrow> u64 \<Rightarrow> bool" where
  "bad_permissions virtual_address permissions \<longleftrightarrow>
     permissions AND Memory_Writable \<noteq> 0 \<and> permissions AND Memory_No_Execute = 0 \<or>
     \<not> memory_is_lower_half virtual_address \<and> permissions AND Memory_User_Access \<noteq> 0"

definition map_update_page ::
    "u64 \<Rightarrow> u64 \<Rightarrow> ('a) mm_scheme \<Rightarrow> (status \<times> ('a) mm_scheme) res" where
  "map_update_page va permissions s =
     (if bad_permissions va permissions then Ret (Error_Permissions, s)
      else
        res_bind (fully_present s va) (\<lambda>present.
        if \<not> present then Ret (Error_Absent, s)
        else
          res_bind (load s (entry_at (get_pl1 va) (pl1_index va))) (\<lambda>e.
          res_bind (store (entry_at (get_pl1 va) (pl1_index va))
             ((e AND NOT Memory_Permissions_Mask) OR permissions OR Memory_Present) s) (\<lambda>s1.
          Ret (Ok, s1)))))"

definition virt_to_phys :: "('a) mm_scheme \<Rightarrow> u64 \<Rightarrow> phys_addr res" where
  "virt_to_phys s va =
     res_bind (fully_present s va) (\<lambda>present.
     res_bind (kassert present) (\<lambda>_.
     res_bind (load s (entry_at (get_pl1 va) (pl1_index va))) (\<lambda>e.
     (let pa = e AND NOT Memory_Permissions_Mask in
      res_bind (kassert (pa \<noteq> invalid_phys_addr)) (\<lambda>_. Ret pa)))))"

type_synonym 's palloc_f = "'s \<Rightarrow> (phys_addr \<times> 's) res"
type_synonym 's pfree_f = "phys_addr \<Rightarrow> 's \<Rightarrow> 's res"

text \<open>One missing level: allocate a frame, link it, clear it. The result \<open>False\<close> is the early
  return with \<open>Error_No_Memory\<close>.\<close>

definition new_level ::
    "(('a) mm_scheme) palloc_f \<Rightarrow> u64 \<Rightarrow> u64 \<Rightarrow> ('a) mm_scheme \<Rightarrow> (bool \<times> ('a) mm_scheme) res" where
  "new_level physical_alloc slot level s =
     res_bind (physical_alloc s) (\<lambda>(phys_address, s1).
     if phys_address = invalid_phys_addr then Ret (False, s1)
     else
       res_bind (store slot
          (phys_address OR Memory_Just_Writable OR Memory_User_Access OR Memory_Present) s1) (\<lambda>s2.
       res_bind (zero_page level s2) (\<lambda>s3. Ret (True, s3))))"

definition ensure_level ::
    "(('a) mm_scheme) palloc_f \<Rightarrow> bool res \<Rightarrow> u64 \<Rightarrow> u64 \<Rightarrow> ('a) mm_scheme
      \<Rightarrow> (bool \<times> ('a) mm_scheme) res" where
  "ensure_level physical_alloc present slot level s =
     res_bind present (\<lambda>p. if p then Ret (True, s) else new_level physical_alloc slot level s)"

definition map_page ::
    "(('a) mm_scheme) palloc_f \<Rightarrow> u64 \<Rightarrow> phys_addr \<Rightarrow> u64 \<Rightarrow> ('a) mm_scheme
      \<Rightarrow> (status \<times> ('a) mm_scheme) res" where
  "map_page physical_alloc va phys_address permissions s =
     (if bad_permissions va permissions then Ret (Error_Permissions, s)
      else
        res_bind (ensure_level physical_alloc (is_pl3_present s get_pl4 va)
           (entry_at get_pl4 (pl4_index va)) (get_pl3 va) s) (\<lambda>(ok4, s1).
        if \<not> ok4 then Ret (Error_No_Memory, s1)
        else
          res_bind (ensure_level physical_alloc (is_pl2_present s1 (get_pl3 va) va)
             (entry_at (get_pl3 va) (pl3_index va)) (get_pl2 va) s1) (\<lambda>(ok3, s2).
          if \<not> ok3 then Ret (Error_No_Memory, s2)
          else
            res_bind (ensure_level physical_alloc (is_pl1_present s2 (get_pl2 va) va)
               (entry_at (get_pl2 va) (pl2_index va)) (get_pl1 va) s2) (\<lambda>(ok2, s3).
            if \<not> ok2 then Ret (Error_No_Memory, s3)
            else
              res_bind (is_Memory_Present s3 (get_pl1 va) va) (\<lambda>present.
              if present then Ret (Error_Present, s3)
              else
                res_bind (store (entry_at (get_pl1 va) (pl1_index va))
                   ((phys_address AND NOT Memory_Permissions_Mask) OR permissions OR Memory_Present)
                   s3) (\<lambda>s4.
                Ret (Ok, s4)))))))"

definition unmap_page ::
    "(('a) mm_scheme) pfree_f \<Rightarrow> u64 \<Rightarrow> bool \<Rightarrow> ('a) mm_scheme \<Rightarrow> (('a) mm_scheme) res" where
  "unmap_page physical_free address free_physical_memory s =
     res_bind (and_also (is_pl3_present s get_pl4 address)
        (and_also (is_pl2_present s (get_pl3 address) address)
           (is_pl1_present s (get_pl2 address) address))) (\<lambda>present.
     if \<not> present then Ret s
     else
       res_bind
         (if free_physical_memory then
            res_bind (load s (entry_at (get_pl1 address) (pl1_index address))) (\<lambda>e.
            physical_free (page_entry_to_phys e) s)
          else Ret s) (\<lambda>s1.
       store (entry_at (get_pl1 address) (pl1_index address)) free_page_entry s1))"

definition page_table_switch :: "phys_addr \<Rightarrow> ('a) mm_scheme \<Rightarrow> ('a) mm_scheme" where
  "page_table_switch physical_address s = s\<lparr>cr3 := physical_address\<rparr>"

definition map_external_page ::
    "(('a) mm_scheme) palloc_f \<Rightarrow> phys_addr \<Rightarrow> u64 \<Rightarrow> phys_addr \<Rightarrow> u64 \<Rightarrow> ('a) mm_scheme
      \<Rightarrow> (status \<times> ('a) mm_scheme) res" where
  "map_external_page physical_alloc page_table va phys_address permissions s =
     res_bind (map_page physical_alloc va phys_address permissions (page_table_switch page_table s))
       (\<lambda>(st, s1). Ret (st, page_table_switch (cr3 s) s1))"

definition unmap_external_page ::
    "(('a) mm_scheme) pfree_f \<Rightarrow> phys_addr \<Rightarrow> u64 \<Rightarrow> bool \<Rightarrow> ('a) mm_scheme
      \<Rightarrow> (('a) mm_scheme) res" where
  "unmap_external_page physical_free page_table va free_physical_memory s =
     res_bind (unmap_page physical_free va free_physical_memory (page_table_switch page_table s))
       (\<lambda>s1. Ret (page_table_switch (cr3 s) s1))"

primrec unmap_range ::
    "(('a) mm_scheme) pfree_f \<Rightarrow> u64 \<Rightarrow> nat \<Rightarrow> bool \<Rightarrow> ('a) mm_scheme \<Rightarrow> (('a) mm_scheme) res" where
  "unmap_range physical_free virt 0 free_phys s = Ret s"
| "unmap_range physical_free virt (Suc count) free_phys s =
     res_bind (unmap_page physical_free virt free_phys s) (\<lambda>s1.
     unmap_range physical_free (virt + Page_Small) count free_phys s1)"

text \<open>\<open>i\<close> pages have been mapped, \<open>count\<close> are left.\<close>

primrec map_range_loop ::
    "(('a) mm_scheme) palloc_f \<Rightarrow> (('a) mm_scheme) pfree_f \<Rightarrow> u64 \<Rightarrow> u64 \<Rightarrow> phys_addr \<Rightarrow> nat \<Rightarrow> nat \<Rightarrow>
     u64 \<Rightarrow> ('a) mm_scheme \<Rightarrow> (status \<times> ('a) mm_scheme) res" where
  "map_range_loop physical_alloc physical_free original_virt virt phys i 0 attrs s = Ret (Ok, s)"
| "map_range_loop physical_alloc physical_free original_virt virt phys i (Suc count) attrs s =
     res_bind (map_page physical_alloc virt phys attrs s) (\<lambda>(st, s1).
     if st \<noteq> Ok then
       res_bind (unmap_range physical_free original_virt i False s1) (\<lambda>s2. Ret (Error_Present, s2))
     else
       map_range_loop physical_alloc physical_free original_virt (virt + Page_Small)
         (phys + Page_Small) (Suc i) count attrs s1)"

definition map_range ::
    "(('a) mm_scheme) palloc_f \<Rightarrow> (('a) mm_scheme) pfree_f \<Rightarrow> u64 \<Rightarrow> phys_addr \<Rightarrow> u64 \<Rightarrow> u64 \<Rightarrow>
     ('a) mm_scheme \<Rightarrow> (status \<times> ('a) mm_scheme) res" where
  "map_range physical_alloc physical_free virt phys count attrs s =
     map_range_loop physical_alloc physical_free virt virt phys 0 (unat count) attrs s"

primrec update_range_loop ::
    "u64 \<Rightarrow> nat \<Rightarrow> u64 \<Rightarrow> ('a) mm_scheme \<Rightarrow> (status \<times> ('a) mm_scheme) res" where
  "update_range_loop virt 0 attrs s = Ret (Ok, s)"
| "update_range_loop virt (Suc count) attrs s =
     res_bind (map_update_page virt attrs s) (\<lambda>(st, s1).
     if st \<noteq> Ok then Ret (st, s1) else update_range_loop (virt + Page_Small) count attrs s1)"

definition paging_update_range ::
    "u64 \<Rightarrow> u64 \<Rightarrow> u64 \<Rightarrow> ('a) mm_scheme \<Rightarrow> (status \<times> ('a) mm_scheme) res" where
  "paging_update_range virt count attrs s = update_range_loop virt (unat count) attrs s"


subsection \<open>Index arithmetic\<close>

text \<open>The nine bits of an address from bit \<open>m\<close> up.\<close>

definition idx :: "nat \<Rightarrow> u64 \<Rightarrow> u64" where
  "idx m a = drop_bit m a AND 0x1ff"

lemma index_idx:
  "pl4_index a = idx 39 a" "pl3_index a = idx 30 a" "pl2_index a = idx 21 a"
  "pl1_index a = idx 12 a" "word_index a = idx 3 a"
  by (simp_all add: idx_def pl4_index_def pl3_index_def pl2_index_def pl1_index_def word_index_def)

lemma mask9: "(0x1ff :: u64) = mask 9" by (simp add: mask_eq_exp_minus_1)

lemma bit_idx: "bit (idx m a) n \<longleftrightarrow> n < 9 \<and> bit a (m + n)"
  unfolding idx_def mask9 by (auto simp: bit_simps)

lemma idx_small: "idx m a < 512"
  unfolding idx_def mask9 using and_mask_less' [of 9 "drop_bit m a"] by simp

lemma small_bit: "i < 512 \<Longrightarrow> bit (i::u64) k \<Longrightarrow> k < 9"
proof (rule ccontr)
  assume "i < 512" "bit i k" "\<not> k < 9"
  have "i AND mask 9 = i" using \<open>i < 512\<close> less_mask_eq [of i 9] by simp
  then show False using \<open>bit i k\<close> \<open>\<not> k < 9\<close> by (metis bit_and_iff bit_mask_iff)
qed

lemma idx_or: "idx m (x OR y) = idx m x OR idx m y"
  by (rule bit_word_eqI) (auto simp: bit_idx bit_or_iff)

lemma idx_push_self: "i < 512 \<Longrightarrow> m + 9 \<le> 64 \<Longrightarrow> idx m (push_bit m i) = i"
  by (rule bit_word_eqI) (auto simp: bit_idx bit_push_bit_iff dest: small_bit)

lemma idx_push_above: "m + 9 \<le> k \<Longrightarrow> idx m (push_bit k i) = 0"
  by (rule bit_word_eqI) (auto simp: bit_idx bit_push_bit_iff)

lemma idx_push_below: "i < 512 \<Longrightarrow> k + 9 \<le> m \<Longrightarrow> idx m (push_bit k i) = 0"
  by (rule bit_word_eqI) (auto simp: bit_idx bit_push_bit_iff dest: small_bit)

lemmas idx_push = idx_or idx_push_self idx_push_above idx_push_below

lemma idx_fractal:
  "idx 39 0xffff800000000000 = 256" "idx 30 0xffff800000000000 = 0" "idx 21 0xffff800000000000 = 0"
  "idx 12 0xffff800000000000 = 0" "idx 3 0xffff800000000000 = 0"
  "idx 39 0xffff804000000000 = 256" "idx 30 0xffff804000000000 = 256" "idx 21 0xffff804000000000 = 0"
  "idx 12 0xffff804000000000 = 0" "idx 3 0xffff804000000000 = 0"
  "idx 39 0xffff804020000000 = 256" "idx 30 0xffff804020000000 = 256" "idx 21 0xffff804020000000 = 256"
  "idx 12 0xffff804020000000 = 0" "idx 3 0xffff804020000000 = 0"
  "idx 39 0xffff804020100000 = 256" "idx 30 0xffff804020100000 = 256" "idx 21 0xffff804020100000 = 256"
  "idx 12 0xffff804020100000 = 256" "idx 3 0xffff804020100000 = 0"
  by (simp_all add: idx_def)

lemma entry_at_or:
  assumes "i < 512" "idx 3 t = 0"
  shows "entry_at t i = t OR push_bit 3 i"
proof -
  have "\<not> bit t (3 + k)" if "k < 9" for k
    using assms(2) that bit_idx [of 3 t k] by simp
  then have "\<not> (bit t n \<and> bit (push_bit 3 i) n)" for n
    using small_bit [OF assms(1)] by (auto simp: bit_push_bit_iff) (metis le_add_diff_inverse)
  then have "t + push_bit 3 i = t OR push_bit 3 i"
    by (intro disjunctive_add) blast
  then show ?thesis by (simp add: entry_at_def push_bit_eq_mult mult.commute)
qed

lemma get_pl1_indices:
  assumes "a < 512" "b < 512" "c < 512" "i < 512"
  shows "pl4_index (entry_at (get_pl1_index a b c) i) = 256"
    "pl3_index (entry_at (get_pl1_index a b c) i) = a"
    "pl2_index (entry_at (get_pl1_index a b c) i) = b"
    "pl1_index (entry_at (get_pl1_index a b c) i) = c"
    "word_index (entry_at (get_pl1_index a b c) i) = i"
  using assms entry_at_or [of i "get_pl1_index a b c"]
  by (simp_all add: index_idx get_pl1_index_def idx_push idx_fractal)

lemma get_pl2_indices:
  assumes "a < 512" "b < 512" "i < 512"
  shows "pl4_index (entry_at (get_pl2_index a b) i) = 256"
    "pl3_index (entry_at (get_pl2_index a b) i) = 256"
    "pl2_index (entry_at (get_pl2_index a b) i) = a"
    "pl1_index (entry_at (get_pl2_index a b) i) = b"
    "word_index (entry_at (get_pl2_index a b) i) = i"
  using assms entry_at_or [of i "get_pl2_index a b"]
  by (simp_all add: index_idx get_pl2_index_def idx_push idx_fractal)

lemma get_pl3_indices:
  assumes "a < 512" "i < 512"
  shows "pl4_index (entry_at (get_pl3_index a) i) = 256"
    "pl3_index (entry_at (get_pl3_index a) i) = 256"
    "pl2_index (entry_at (get_pl3_index a) i) = 256"
    "pl1_index (entry_at (get_pl3_index a) i) = a"
    "word_index (entry_at (get_pl3_index a) i) = i"
  using assms entry_at_or [of i "get_pl3_index a"]
  by (simp_all add: index_idx get_pl3_index_def idx_push idx_fractal)

lemma get_pl4_indices:
  assumes "i < 512"
  shows "pl4_index (entry_at get_pl4 i) = 256" "pl3_index (entry_at get_pl4 i) = 256"
    "pl2_index (entry_at get_pl4 i) = 256" "pl1_index (entry_at get_pl4 i) = 256"
    "word_index (entry_at get_pl4 i) = i"
  using assms entry_at_or [of i get_pl4]
  by (simp_all add: index_idx get_pl4_def idx_push idx_fractal)


subsection \<open>What the fractal addresses reach\<close>

definition fractal :: "('a) mm_scheme \<Rightarrow> bool" where
  "fractal s \<longleftrightarrow> table_step s (root s) Kernel_Fractal_Page_Table_Index = Some (root s)"

text \<open>The frame of the table at a path of indices from the top.\<close>

definition tab :: "('a) mm_scheme \<Rightarrow> u64 list \<Rightarrow> u64 option" where
  "tab s p = traverse s (root s) p"

lemma tab_Nil [simp]: "tab s [] = Some (root s)"
  by (simp add: tab_def)

lemma traverse_append:
  "traverse s f (p @ q) = Option.bind (traverse s f p) (\<lambda>g. traverse s g q)"
  by (induction p arbitrary: f) (auto split: option.splits)

lemma tab_snoc: "tab s (p @ [i]) = Option.bind (tab s p) (\<lambda>f. table_step s f i)"
  by (simp add: tab_def traverse_append) (auto simp: Option.bind_eq_Some_conv split: bind_split option.split)

lemma tab_prefix: "tab s (p @ [i]) \<noteq> None \<Longrightarrow> tab s p \<noteq> None"
  by (cases "tab s p") (simp_all add: tab_snoc)

lemma traverse_fractal: "fractal s \<Longrightarrow> traverse s (root s) (256 # p) = tab s p"
  by (simp add: fractal_def Kernel_Fractal_Page_Table_Index_def tab_def)

lemma tab_fractal: "fractal s \<Longrightarrow> tab s (256 # p) = tab s p"
  using traverse_fractal [of s p] by (simp only: tab_def)

lemma index_small [simp]: "pl4_index va < 512" "pl3_index va < 512" "pl2_index va < 512"
  "pl1_index va < 512" "word_index va < 512"
  by (simp_all add: index_idx idx_small)

abbreviation path3 :: "u64 \<Rightarrow> u64 list" where "path3 va \<equiv> [pl4_index va]"
abbreviation path2 :: "u64 \<Rightarrow> u64 list" where "path2 va \<equiv> [pl4_index va, pl3_index va]"
abbreviation path1 :: "u64 \<Rightarrow> u64 list" where
  "path1 va \<equiv> [pl4_index va, pl3_index va, pl2_index va]"

definition page_path :: "u64 \<Rightarrow> u64 list" where
  "page_path va = path1 va @ [pl1_index va]"

lemma walk_levels:
  assumes "fractal s" "i < 512"
  shows "walk s (entry_at get_pl4 i) = Some (root s)"
    "walk s (entry_at (get_pl3 va) i) = tab s (path3 va)"
    "walk s (entry_at (get_pl2 va) i) = tab s (path2 va)"
    "walk s (entry_at (get_pl1 va) i) = tab s (path1 va)"
  unfolding walk_def get_pl3_def get_pl2_def get_pl1_def
  by (simp_all only: get_pl4_indices get_pl3_indices get_pl2_indices get_pl1_indices index_small
      assms traverse_fractal tab_fractal tab_Nil)

lemma word_index_levels:
  assumes "i < 512"
  shows "word_index (entry_at get_pl4 i) = i" "word_index (entry_at (get_pl3 va) i) = i"
    "word_index (entry_at (get_pl2 va) i) = i" "word_index (entry_at (get_pl1 va) i) = i"
  using assms by (simp_all add: get_pl3_def get_pl2_def get_pl1_def get_pl4_indices get_pl3_indices
      get_pl2_indices get_pl1_indices)

lemma entry_at_0: "entry_at t 0 = t"
  by (simp add: entry_at_def)

lemma walk_tables:
  assumes "fractal s"
  shows "walk s (get_pl3 va) = tab s (path3 va)" "walk s (get_pl2 va) = tab s (path2 va)"
    "walk s (get_pl1 va) = tab s (path1 va)"
  using walk_levels [OF assms, of 0] by (simp_all add: entry_at_0)

text \<open>An entry of the table at a path: nothing if there is no such table.\<close>

definition peek :: "('a) mm_scheme \<Rightarrow> u64 list \<Rightarrow> u64 \<Rightarrow> u64 res" where
  "peek s p i = (case tab s p of None \<Rightarrow> Fault | Some f \<Rightarrow> Ret (frames s f i))"

definition poke :: "u64 list \<Rightarrow> u64 \<Rightarrow> u64 \<Rightarrow> ('a) mm_scheme \<Rightarrow> (('a) mm_scheme) res" where
  "poke p i v s = (case tab s p of None \<Rightarrow> Fault | Some f \<Rightarrow> Ret (write_frame f i v s))"

lemma load_levels:
  assumes "fractal s" "i < 512"
  shows "load s (entry_at get_pl4 i) = Ret (frames s (root s) i)"
    "load s (entry_at (get_pl3 va) i) = peek s (path3 va) i"
    "load s (entry_at (get_pl2 va) i) = peek s (path2 va) i"
    "load s (entry_at (get_pl1 va) i) = peek s (path1 va) i"
  using assms by (simp_all add: load_def walk_levels word_index_levels peek_def split: option.split)

lemma store_levels:
  assumes "fractal s" "i < 512"
  shows "store (entry_at get_pl4 i) v s = poke [] i v s"
    "store (entry_at (get_pl3 va) i) v s = poke (path3 va) i v s"
    "store (entry_at (get_pl2 va) i) v s = poke (path2 va) i v s"
    "store (entry_at (get_pl1 va) i) v s = poke (path1 va) i v s"
  using assms by (simp_all add: store_def walk_levels word_index_levels poke_def split: option.split)

lemma Memory_Present_1: "Memory_Present = 1"
  by (simp add: Memory_Present_def)

lemma and_1_cases: "e AND 1 = 0 \<or> e AND 1 = (1::u64)"
  by (simp add: and_one_eq mod2_eq_if)

lemma present_iff: "e AND Memory_Present \<noteq> 0 \<longleftrightarrow> entry_present e"
  "e AND Memory_Present = 1 \<longleftrightarrow> entry_present e"
  using and_1_cases [of e] by (auto simp: entry_present_def Memory_Present_1)

lemma entry_present_bit: "entry_present e \<longleftrightarrow> bit e 0"
  by (simp add: entry_present_def Memory_Present_1 and_one_eq bit_0 odd_iff_mod_2_eq_one)

lemma table_step_present:
  "table_step s f i = (if entry_present (frames s f i) then Some (page_entry_to_phys (frames s f i))
     else None)"
  by (simp add: table_step_def Let_def)

definition entry :: "('a) mm_scheme \<Rightarrow> u64 list \<Rightarrow> u64 \<Rightarrow> u64 option" where
  "entry s p i = (case tab s p of None \<Rightarrow> None
     | Some f \<Rightarrow> if entry_present (frames s f i) then Some (frames s f i) else None)"

text \<open>The page table entry that maps a virtual address.\<close>

definition pte :: "('a) mm_scheme \<Rightarrow> u64 \<Rightarrow> u64 option" where
  "pte s va = entry s (path1 va) (pl1_index va)"

lemma tab_entry: "tab s (p @ [i]) = map_option page_entry_to_phys (entry s p i)"
  by (simp add: tab_snoc entry_def table_step_present split: option.split bind_split)

lemma walk_pte: "walk s va = map_option page_entry_to_phys (pte s va)"
  using tab_entry [of s "path1 va" "pl1_index va"] by (simp add: pte_def walk_def tab_def)

lemma present_levels:
  assumes "fractal s"
  shows "is_pl3_present s get_pl4 va = Ret (tab s (path3 va) \<noteq> None)"
    "is_pl2_present s (get_pl3 va) va =
       (if tab s (path3 va) = None then Fault else Ret (tab s (path2 va) \<noteq> None))"
    "is_pl1_present s (get_pl2 va) va =
       (if tab s (path2 va) = None then Fault else Ret (tab s (path1 va) \<noteq> None))"
    "is_Memory_Present s (get_pl1 va) va =
       (if tab s (path1 va) = None then Fault else Ret (pte s va \<noteq> None))"
  using tab_snoc [of s "[]" "pl4_index va"] tab_snoc [of s "path3 va" "pl3_index va"]
    tab_snoc [of s "path2 va" "pl2_index va"] assms
  by (auto simp: is_pl3_present_def is_pl2_present_def is_pl1_present_def is_Memory_Present_def
      load_levels peek_def present_iff table_step_present pte_def entry_def split: option.splits)

lemma tab_path_down:
  "tab s (path1 va) \<noteq> None \<Longrightarrow> tab s (path2 va) \<noteq> None"
  "tab s (path2 va) \<noteq> None \<Longrightarrow> tab s (path3 va) \<noteq> None"
  using tab_prefix [of s "path2 va" "pl2_index va"] tab_prefix [of s "path3 va" "pl3_index va"]
  by simp_all

lemma pte_path: "pte s va \<noteq> None \<Longrightarrow> tab s (path1 va) \<noteq> None"
  by (auto simp: pte_def entry_def split: option.splits)

lemma fully_present_eq:
  assumes "fractal s"
  shows "fully_present s va = Ret (pte s va \<noteq> None)"
  using present_levels [OF assms, of va] tab_path_down [of s va] pte_path [of s va]
  by (auto simp: fully_present_def and_also_def simp del: not_None_eq)


subsection \<open>Page tables as a tree\<close>

text \<open>Paths to tables, leaving the fractal slot out.\<close>

definition good_path :: "u64 list \<Rightarrow> bool" where
  "good_path p \<longleftrightarrow> length p \<le> 3 \<and> list_all (\<lambda>i. i < 512) p \<and> (p \<noteq> [] \<longrightarrow> hd p \<noteq> 256)"

text \<open>No frame serves as two tables.\<close>

definition tree :: "('a) mm_scheme \<Rightarrow> bool" where
  "tree s \<longleftrightarrow> (\<forall>p q f. good_path p \<longrightarrow> good_path q \<longrightarrow> tab s p = Some f \<longrightarrow> tab s q = Some f \<longrightarrow> p = q)"

definition tables :: "('a) mm_scheme \<Rightarrow> u64 set" where
  "tables s = {f. \<exists>p. good_path p \<and> tab s p = Some f}"

definition own_half :: "u64 \<Rightarrow> bool" where
  "own_half va \<longleftrightarrow> pl4_index va \<noteq> 256"

lemma good_path_va [simp]:
  "good_path []" "own_half va \<Longrightarrow> good_path (path3 va)" "own_half va \<Longrightarrow> good_path (path2 va)"
  "own_half va \<Longrightarrow> good_path (path1 va)"
  by (simp_all add: good_path_def own_half_def)

lemma good_path_butlast: "good_path (p @ q) \<Longrightarrow> good_path p"
  by (cases p) (auto simp: good_path_def)

lemma treeD: "tree s \<Longrightarrow> good_path p \<Longrightarrow> good_path q \<Longrightarrow> tab s p = Some f \<Longrightarrow> tab s q = Some f \<Longrightarrow> p = q"
  by (auto simp: tree_def)

lemma tablesI: "good_path p \<Longrightarrow> tab s p = Some f \<Longrightarrow> f \<in> tables s"
  by (auto simp: tables_def)

text \<open>Two memories that agree on the entries along a path have the same table there.\<close>

lemma tab_agree:
  assumes "root s' = root s"
    and "\<And>q j rest g. r = q @ j # rest \<Longrightarrow> tab s q = Some g \<Longrightarrow> frames s' g j = frames s g j"
  shows "tab s' r = tab s r"
  using assms(2)
proof (induction r rule: rev_induct)
  case Nil
  then show ?case by (simp add: assms(1))
next
  case (snoc j r)
  have "tab s' r = tab s r"
    by (rule snoc.IH) (use snoc.prems in \<open>metis append.assoc append_Cons\<close>)
  then show ?case
    using snoc.prems [of r j "[]"] by (cases "tab s r") (simp_all add: tab_snoc table_step_present)
qed

lemma root_write [simp]: "root (write_frame f i v s) = root s"
  by (simp add: root_def write_frame_def)

lemma frames_write: "frames (write_frame f i v s) g j = (if g = f \<and> j = i then v else frames s g j)"
  by (simp add: write_frame_def)

lemma tab_write:
  assumes "tree s" "good_path p" "tab s p = Some f" "good_path r" "\<not> prefix (p @ [i]) r"
  shows "tab (write_frame f i v s) r = tab s r"
proof (rule tab_agree)
  fix q j rest g
  assume r: "r = q @ j # rest" "tab s q = Some g"
  have "good_path q" using assms(4) r(1) good_path_butlast by blast
  then have "g = f \<Longrightarrow> q = p" using treeD [OF assms(1)] assms(2,3) r(2) by blast
  then have "\<not> (g = f \<and> j = i)" using assms(5) r(1) by (auto simp: prefix_def)
  then show "frames (write_frame f i v s) g j = frames s g j" by (auto simp: frames_write)
qed simp

lemma fractal_write:
  assumes "fractal s" "tree s" "good_path p" "tab s p = Some f" "p = [] \<Longrightarrow> i \<noteq> 256"
  shows "fractal (write_frame f i v s)"
proof -
  have "f = root s \<Longrightarrow> p = []" using treeD [OF assms(2,3), of "[]"] assms(4) by simp
  then have "frames (write_frame f i v s) (root s) 256 = frames s (root s) 256"
    using assms(5) by (auto simp: frames_write)
  with assms(1) show ?thesis
    by (simp add: fractal_def Kernel_Fractal_Page_Table_Index_def table_step_present split: if_splits)
qed

text \<open>Writing a leaf entry changes no table and no other page.\<close>

lemma leaf_write:
  fixes e :: u64
  assumes "tree s" "fractal s" "own_half va" "tab s (path1 va) = Some f"
  defines "s' \<equiv> write_frame f (pl1_index va) e s"
  shows "good_path r \<Longrightarrow> tab s' r = tab s r"
    and "fractal s'" "tree s'" "tables s' = tables s"
    and "own_half va' \<Longrightarrow> pte s' va' =
      (if page_path va' = page_path va
       then (if entry_present e then Some e else None) else pte s va')"
proof -
  show same: "tab s' r = tab s r" if "good_path r" for r
    unfolding s'_def using that assms
    by (intro tab_write [where p = "path1 va"]) (auto simp: good_path_def own_half_def prefix_def)
  show "fractal s'" unfolding s'_def using assms by (intro fractal_write [where p = "path1 va"]) auto
  show "tree s'" using assms(1) same by (auto simp: tree_def)
  show "tables s' = tables s" using same by (auto simp: tables_def)
  show "pte s' va' = (if page_path va' = page_path va
      then (if entry_present e then Some e else None) else pte s va')" if "own_half va'"
  proof (cases "tab s (path1 va')")
    case None
    with same [of "path1 va'"] that assms(4) show ?thesis
      by (auto simp: pte_def entry_def page_path_def)
  next
    case (Some g)
    have "path1 va' = path1 va" if "g = f"
      using treeD [OF assms(1), of "path1 va'" "path1 va"] \<open>own_half va'\<close> assms(3,4) Some that by simp
    with Some same [of "path1 va'"] that assms(4) show ?thesis
      by (auto simp: pte_def entry_def s'_def frames_write page_path_def)
  qed
qed

lemma page_entry_to_phys_flags:
  assumes "p AND NOT Phys_Addr_Mask = 0" "flags AND Phys_Addr_Mask = 0"
  shows "page_entry_to_phys (p OR flags) = p"
proof -
  have "p = (p AND Phys_Addr_Mask) OR (p AND NOT Phys_Addr_Mask)"
    by (rule bit_word_eqI) (auto simp: bit_and_iff bit_or_iff bit_not_iff)
  then have "p AND Phys_Addr_Mask = p" using assms(1) by simp
  with assms(2) show ?thesis by (simp add: page_entry_to_phys_def bit.conj_disj_distrib2)
qed

definition table_flags :: u64 where
  "table_flags = Memory_Just_Writable OR Memory_User_Access OR Memory_Present"

lemma table_entry:
  assumes "p AND NOT Phys_Addr_Mask = 0"
  shows "page_entry_to_phys (p OR table_flags) = p" "entry_present (p OR table_flags)"
proof -
  show "page_entry_to_phys (p OR table_flags) = p"
    using assms by (rule page_entry_to_phys_flags)
      (simp add: table_flags_def Memory_Just_Writable_def Memory_User_Access_def Memory_Present_1
        Phys_Addr_Mask_def)
  show "entry_present (p OR table_flags)"
    by (simp add: entry_present_bit table_flags_def bit_or_iff Memory_Present_1)
qed


subsection \<open>Adding a level\<close>

text \<open>Linking a fresh frame \<open>p\<close> as the table at \<open>q @ [i]\<close> and clearing it.\<close>

definition link_table :: "u64 \<Rightarrow> u64 \<Rightarrow> u64 \<Rightarrow> ('a) mm_scheme \<Rightarrow> ('a) mm_scheme" where
  "link_table f i p s =
     (let s1 = write_frame f i (p OR table_flags) s in s1\<lparr>frames := (frames s1)(p := (\<lambda>_. 0))\<rparr>)"

lemma link_table_simps:
  "root (link_table f i p s) = root s"
  "frames (link_table f i p s) g j =
     (if g = p then 0 else if g = f \<and> j = i then p OR table_flags else frames s g j)"
  by (auto simp: link_table_def Let_def root_def write_frame_def)

lemma not_present_0 [simp]: "\<not> entry_present 0"
  by (simp add: entry_present_def)

lemma tab_None_extend: "tab s p = None \<Longrightarrow> tab s (p @ q) = None"
  by (induction q rule: rev_induct) (use tab_prefix in \<open>force simp: append_assoc [symmetric] simp del: append_assoc\<close>)+

lemma link_table_effect:
  assumes "tree s" "fractal s" "good_path (q @ [i])" "tab s q = Some f" "tab s (q @ [i]) = None"
    and "p \<notin> tables s" "p AND NOT Phys_Addr_Mask = 0"
  defines "s' \<equiv> link_table f i p s"
  shows link_tab_old: "good_path r \<Longrightarrow> \<not> prefix (q @ [i]) r \<Longrightarrow> tab s' r = tab s r"
    and link_tab_new: "tab s' (q @ [i]) = Some p"
    and link_tab_below: "good_path (q @ [i] @ j # rest) \<Longrightarrow> tab s' (q @ [i] @ j # rest) = None"
proof -
  have gq: "good_path q" using assms(3) good_path_butlast by blast
  have fp: "g \<noteq> p" if "good_path r" "tab s r = Some g" for r g
    using that assms(6) tablesI by blast
  show old: "tab s' r = tab s r" if r: "good_path r" "\<not> prefix (q @ [i]) r" for r
  proof (rule tab_agree)
    fix a j rest g
    assume eq: "r = a @ j # rest" "tab s a = Some g"
    have ga: "good_path a" using r(1) eq(1) good_path_butlast by blast
    then have "g = f \<Longrightarrow> a = q" using treeD [OF assms(1)] gq assms(4) eq(2) by blast
    then have "\<not> (g = f \<and> j = i)" using r(2) eq(1) by (auto simp: prefix_def)
    then show "frames s' g j = frames s g j"
      using fp [OF ga eq(2)] by (auto simp: s'_def link_table_simps)
  qed (simp add: s'_def link_table_simps)
  have "tab s' q = Some f" using old [OF gq] assms(4) by (simp add: prefix_def)
  moreover have "frames s' f i = p OR table_flags"
    using fp [OF gq assms(4)] by (simp add: s'_def link_table_simps)
  ultimately show new: "tab s' (q @ [i]) = Some p"
    using table_entry [OF assms(7)] by (simp add: tab_snoc table_step_present)
  have "tab s' (q @ [i, j]) = None" for j
    using new tab_snoc [of s' "q @ [i]" j] by (simp add: table_step_present s'_def link_table_simps)
  then show "tab s' (q @ [i] @ j # rest) = None"
    using tab_None_extend [of s' "q @ [i, j]" rest] by simp
qed

lemma link_table_sane:
  assumes "tree s" "fractal s" "good_path (q @ [i])" "tab s q = Some f" "tab s (q @ [i]) = None"
    and "p \<notin> tables s" "p AND NOT Phys_Addr_Mask = 0"
  defines "s' \<equiv> link_table f i p s"
  shows "tree s'" "fractal s'" "tables s' = insert p (tables s)"
    and "own_half va \<Longrightarrow> pte s' va = pte s va"
proof -
  note eff = link_table_effect [OF assms(1-7), folded s'_def]
  have gq: "good_path q" using assms(3) good_path_butlast by blast
  have cases: "tab s' r = (if prefix (q @ [i]) r then (if r = q @ [i] then Some p else None) else tab s r)"
    if "good_path r" for r
  proof (cases "prefix (q @ [i]) r")
    case True
    then obtain rest where "r = (q @ [i]) @ rest" by (auto simp: prefix_def)
    then show ?thesis using eff that by (cases rest) auto
  next
    case False
    then show ?thesis using eff(1) that by simp
  qed
  have none: "tab s r = None" if "prefix (q @ [i]) r" for r
    using that tab_None_extend [OF assms(5)] by (auto simp: prefix_def)
  show "tables s' = insert p (tables s)"
    using cases none assms(3) unfolding tables_def by (auto split: if_splits) (metis option.distinct(1))
  show "tree s'"
    unfolding tree_def
  proof (intro allI impI)
    fix a b g
    assume "good_path a" "good_path b" "tab s' a = Some g" "tab s' b = Some g"
    with cases treeD [OF assms(1)] assms(6) show "a = b"
      by (auto simp: tables_def split: if_splits)
  qed
  have rp: "root s \<noteq> p" using assms(6) tablesI [of "[]" s] by auto
  have "f = root s \<Longrightarrow> q = []" using treeD [OF assms(1) gq, of "[]"] assms(4) by simp
  then have "f = root s \<Longrightarrow> i \<noteq> 256" using assms(3) by (auto simp: good_path_def)
  then have "frames s' (root s) 256 = frames s (root s) 256"
    using rp by (auto simp: s'_def link_table_simps)
  moreover have "root s' = root s" by (simp add: s'_def link_table_simps)
  ultimately show "fractal s'"
    using assms(2) by (simp add: fractal_def Kernel_Fractal_Page_Table_Index_def table_step_present
        split: if_splits)
  show "pte s' va = pte s va" if va: "own_half va"
  proof (cases "prefix (q @ [i]) (path1 va)")
    case True
    then show ?thesis
      using cases [of "path1 va"] none [OF True] va
      by (auto simp: pte_def entry_def s'_def link_table_simps)
  next
    case False
    then have same: "tab s' (path1 va) = tab s (path1 va)" using cases [of "path1 va"] va by simp
    have "g \<noteq> p \<and> \<not> (g = f \<and> pl1_index va = i)" if "tab s (path1 va) = Some g" for g
    proof -
      have "g = f \<Longrightarrow> path1 va = q" using treeD [OF assms(1) _ gq] va that assms(4) by simp
      moreover have "length q \<le> 2" using assms(3) by (simp add: good_path_def)
      ultimately show ?thesis using that assms(6) tablesI [of "path1 va" s g] va by auto
    qed
    with same show ?thesis
      by (cases "tab s (path1 va)") (auto simp: pte_def entry_def s'_def link_table_simps)
  qed
qed


subsection \<open>The frame allocator as an interface\<close>

text \<open>The entries the processor reads on its way to an address.\<close>

definition on_path :: "('a) mm_scheme \<Rightarrow> u64 \<Rightarrow> u64 \<Rightarrow> u64 \<Rightarrow> bool" where
  "on_path s va f i \<longleftrightarrow> f = root s \<and> i = pl4_index va \<or>
     tab s (path3 va) = Some f \<and> i = pl3_index va \<or> tab s (path2 va) = Some f \<and> i = pl2_index va \<or>
     tab s (path1 va) = Some f \<and> i = pl1_index va"

lemma on_path_cases:
  assumes "on_path s va f i" "own_half va"
  obtains (upper) r where "good_path r" "length r < 3" "tab s r = Some f"
      "tab s (path1 va) \<noteq> None \<Longrightarrow> tab s (r @ [i]) \<noteq> None"
    | (leaf) "tab s (path1 va) = Some f" "i = pl1_index va"
  using assms(1) unfolding on_path_def
proof (elim disjE conjE)
  assume "f = root s" "i = pl4_index va"
  with upper [of "[]"] tab_path_down [of s va] show thesis by auto
next
  assume "tab s (path3 va) = Some f" "i = pl3_index va"
  with upper [of "path3 va"] tab_path_down [of s va] assms(2) show thesis by auto
next
  assume "tab s (path2 va) = Some f" "i = pl2_index va"
  with upper [of "path2 va"] assms(2) show thesis by auto
qed (rule leaf)

text \<open>What mapping a page relies on: the allocator hands out one of the frames it owns and
  forgets it; it writes only to frames it owns and to the entry of its pivot page; and it does
  not care about memory it does not own, as long as its pivot page stays reachable.\<close>

locale frame_source =
  fixes palloc :: "(('a) mm_scheme) palloc_f" and avail :: "('a) mm_scheme \<Rightarrow> u64 set"
    and inv :: "('a) mm_scheme \<Rightarrow> bool" and pivot :: u64
  assumes alloc: "inv s \<Longrightarrow> fractal s \<Longrightarrow> avail s \<noteq> {} \<Longrightarrow>
      \<exists>p s'. palloc s = Ret (p, s') \<and> p \<in> avail s \<and> avail s' = avail s - {p} \<and> inv s' \<and>
        root s' = root s \<and> p AND NOT Phys_Addr_Mask = 0 \<and>
        (\<forall>f i. f \<notin> avail s \<longrightarrow> \<not> (tab s (path1 pivot) = Some f \<and> i = pl1_index pivot) \<longrightarrow>
           frames s' f i = frames s f i)"
    and stable: "inv s \<Longrightarrow> (\<And>f. f \<in> avail s \<Longrightarrow> fr f = frames s f) \<Longrightarrow>
      (\<And>f i. on_path s pivot f i \<Longrightarrow> fr f i = frames s f i) \<Longrightarrow>
      fr (root s) 256 = frames s (root s) 256 \<Longrightarrow>
      inv (s\<lparr>frames := fr\<rparr>) \<and> avail (s\<lparr>frames := fr\<rparr>) = avail s"
    and pivot_there: "inv s \<Longrightarrow> tab s (path1 pivot) \<noteq> None"
    and finite_avail: "inv s \<Longrightarrow> finite (avail s)"
    and pivot_half: "own_half pivot"
begin

definition sane :: "('a) mm_scheme \<Rightarrow> bool" where
  "sane s \<longleftrightarrow> inv s \<and> fractal s \<and> tree s \<and> avail s \<inter> tables s = {}"

lemma alloc_sane:
  assumes "sane s" "avail s \<noteq> {}"
  shows "\<exists>p s'. palloc s = Ret (p, s') \<and> sane s' \<and> p \<in> avail s \<and> avail s' = avail s - {p} \<and>
    p \<notin> tables s' \<and> p AND NOT Phys_Addr_Mask = 0 \<and>
    (\<forall>r. good_path r \<longrightarrow> tab s' r = tab s r) \<and>
    (\<forall>va. own_half va \<longrightarrow> page_path va \<noteq> page_path pivot \<longrightarrow> pte s' va = pte s va)"
proof -
  from assms(1) have inv: "inv s" "fractal s" "tree s" "avail s \<inter> tables s = {}"
    by (simp_all add: sane_def)
  from alloc [OF inv(1,2) assms(2)] obtain p s' where p: "palloc s = Ret (p, s')" "p \<in> avail s"
    "avail s' = avail s - {p}" "inv s'" "root s' = root s" "p AND NOT Phys_Addr_Mask = 0"
    and keep: "\<And>f i. f \<notin> avail s \<Longrightarrow> \<not> (tab s (path1 pivot) = Some f \<and> i = pl1_index pivot) \<Longrightarrow>
      frames s' f i = frames s f i" by blast
  have table: "f \<notin> avail s" if "good_path r" "tab s r = Some f" for f r
    using inv(4) tablesI [OF that] by blast
  have at_pivot: "r = path1 pivot" if "good_path r" "tab s r = Some f" "tab s (path1 pivot) = Some f"
    for r f using treeD [OF inv(3) that(1) _ that(2,3)] pivot_half by simp
  have tab: "tab s' r = tab s r" if r: "good_path r" for r
  proof (rule tab_agree [OF p(5)])
    fix q j rest g
    assume eq: "r = q @ j # rest" "tab s q = Some g"
    have gq: "good_path q" using r eq(1) good_path_butlast by blast
    have "length q < 3" using r eq(1) by (simp add: good_path_def)
    then have "tab s (path1 pivot) \<noteq> Some g" using at_pivot [OF gq eq(2)] by force
    then show "frames s' g j = frames s g j" using keep table [OF gq eq(2)] by blast
  qed
  have "tables s' = tables s" using tab by (auto simp: tables_def)
  moreover have "tree s'" using inv(3) tab by (auto simp: tree_def)
  moreover have "frames s' (root s) 256 = frames s (root s) 256"
    using keep [of "root s" 256] table [of "[]"] at_pivot [of "[]" "root s"] by auto
  then have "fractal s'"
    using inv(2) p(5) by (simp add: fractal_def Kernel_Fractal_Page_Table_Index_def
        table_step_present split: if_splits)
  moreover have "pte s' va = pte s va" if va: "own_half va" "page_path va \<noteq> page_path pivot" for va
  proof (cases "tab s (path1 va)")
    case None
    then show ?thesis using tab [of "path1 va"] va by (simp add: pte_def entry_def)
  next
    case (Some g)
    have "\<not> (tab s (path1 pivot) = Some g \<and> pl1_index va = pl1_index pivot)"
      using at_pivot [of "path1 va" g] Some va by (auto simp: page_path_def)
    then have "frames s' g (pl1_index va) = frames s g (pl1_index va)"
      by (intro keep table [OF good_path_va(4) [OF va(1)] Some])
    with Some tab [of "path1 va"] va show ?thesis by (simp add: pte_def entry_def)
  qed
  ultimately show ?thesis
    using p inv(4) tab by (intro exI [of _ p] exI [of _ s']) (auto simp: sane_def)
qed

lemma link_sane:
  assumes "sane s" "good_path (q @ [i])" "tab s q = Some f" "tab s (q @ [i]) = None"
    and "p \<notin> tables s" "p \<notin> avail s" "p AND NOT Phys_Addr_Mask = 0"
  shows "sane (link_table f i p s)" "avail (link_table f i p s) = avail s"
proof -
  from assms(1) have inv: "inv s" "fractal s" "tree s" "avail s \<inter> tables s = {}"
    by (simp_all add: sane_def)
  note link = link_table_sane [OF inv(3,2) assms(2-5,7)]
  have gq: "good_path q" using assms(2) good_path_butlast by blast
  have lq: "length q \<le> 2" using assms(2) by (simp add: good_path_def)
  have f: "f \<in> tables s" using gq assms(3) by (rule tablesI)
  have slot: "\<not> (tab s r = Some f \<and> j = i)" if "good_path r" "tab s (r @ [j]) \<noteq> None" for r j
  proof
    assume "tab s r = Some f \<and> j = i"
    with treeD [OF inv(3) that(1) gq _ assms(3)] have "r @ [j] = q @ [i]" by simp
    with that(2) assms(4) show False by simp
  qed
  have off: "\<not> (g = f \<and> j = i) \<and> g \<noteq> p" if "on_path s pivot g j" for g j
  proof -
    have "path1 pivot \<noteq> q" using lq by auto
    then have leaf: "tab s (path1 pivot) \<noteq> Some f"
      using treeD [OF inv(3) _ gq, of "path1 pivot" f] pivot_half assms(3) by auto
    from that pivot_half have "\<exists>r. good_path r \<and> tab s r = Some g"
      by (cases rule: on_path_cases) (auto intro: good_path_va pivot_half)
    then have "g \<noteq> p" using assms(5) tablesI by blast
    moreover from that pivot_half have "\<not> (g = f \<and> j = i)"
      by (cases rule: on_path_cases) (use slot leaf pivot_there [OF inv(1)] in auto)
    ultimately show ?thesis by blast
  qed
  have "f = root s \<Longrightarrow> q = []" using treeD [OF inv(3) gq, of "[]"] assms(3) by simp
  then have fr: "frames (link_table f i p s) (root s) 256 = frames s (root s) 256"
    using assms(2,5) tablesI [of "[]" s "root s"] by (auto simp: link_table_simps good_path_def)
  have shape: "link_table f i p s = s\<lparr>frames := frames (link_table f i p s)\<rparr>"
    by (simp add: link_table_def Let_def write_frame_def)
  have "frames (link_table f i p s) g = frames s g" if "g \<in> avail s" for g
    using that f inv(4) assms(6) by (auto simp: link_table_simps fun_eq_iff)
  moreover have "frames (link_table f i p s) g j = frames s g j" if "on_path s pivot g j" for g j
    using off [OF that] by (auto simp: link_table_simps)
  ultimately have st: "inv (link_table f i p s)" "avail (link_table f i p s) = avail s"
    using stable [OF inv(1), of "frames (link_table f i p s)"] fr shape by auto
  then show "avail (link_table f i p s) = avail s" by blast
  show "sane (link_table f i p s)"
    using st link inv(4) assms(6) by (auto simp: sane_def)
qed


lemma ensure_level_ok:
  assumes "sane s" "good_path (q @ [i])" "tab s q = Some f" "avail s \<noteq> {}"
    and slot: "\<And>(s :: ('a) mm_scheme) v. fractal s \<Longrightarrow> store sl v s = poke q i v s"
    and level: "\<And>s :: ('a) mm_scheme. fractal s \<Longrightarrow> walk s lv = tab s (q @ [i])"
    and present: "present = Ret (tab s (q @ [i]) \<noteq> None)"
  shows "\<exists>s'. ensure_level palloc present sl lv s = Ret (True, s') \<and> sane s' \<and>
    tab s' (q @ [i]) \<noteq> None \<and> card (avail s) \<le> card (avail s') + 1 \<and> avail s' \<subseteq> avail s \<and>
    (\<forall>va. own_half va \<longrightarrow> page_path va \<noteq> page_path pivot \<longrightarrow> pte s' va = pte s va)"
proof (cases "tab s (q @ [i]) = None")
  case False
  with present assms(1) show ?thesis by (simp add: ensure_level_def)
next
  case True
  from alloc_sane [OF assms(1,4)] obtain p s1 where p: "palloc s = Ret (p, s1)" "sane s1"
    "p \<in> avail s" "avail s1 = avail s - {p}" "p \<notin> tables s1" "p AND NOT Phys_Addr_Mask = 0"
    and tab1: "\<And>r. good_path r \<Longrightarrow> tab s1 r = tab s r"
    and pte1: "\<And>va. own_half va \<Longrightarrow> page_path va \<noteq> page_path pivot \<Longrightarrow> pte s1 va = pte s va" by blast
  have gq: "good_path q" using assms(2) good_path_butlast by blast
  have t: "tab s1 q = Some f" "tab s1 (q @ [i]) = None"
    using tab1 [OF gq] tab1 [OF assms(2)] assms(3) True by simp_all
  have s1: "fractal s1" "tree s1" "inv s" "p \<notin> avail s1"
    using p(2,4) assms(1) by (simp_all add: sane_def)
  note link = link_table_sane [OF s1(2,1) assms(2) t p(5,6)]
  note eff = link_tab_new [OF s1(2,1) assms(2) t p(5,6)]
  have fw: "fractal (write_frame f i (p OR table_flags) s1)"
    using fractal_write [OF s1(1,2) gq t(1), of i] assms(2) by (cases q) (auto simp: good_path_def)
  have "f \<noteq> p" using p(5) tablesI [OF gq t(1)] by blast
  then have "tab (write_frame f i (p OR table_flags) s1) (q @ [i]) = Some p"
    using tab_write [OF s1(2) gq t(1) gq, of i] t(1) table_entry [OF p(6)]
    by (simp add: tab_snoc table_step_present frames_write prefix_def)
  then have "new_level palloc sl lv s = Ret (True, link_table f i p s1)"
    using p(1,6) slot [OF s1(1)] level [OF fw] t(1)
    by (auto simp: new_level_def poke_def zero_page_def link_table_def table_flags_def or.assoc
        invalid_phys_addr_def Phys_Addr_Mask_def Let_def)
  moreover note link_sane [OF p(2) assms(2) t p(5) s1(4) p(6)]
  moreover have "card (avail s) \<le> card (avail s1) + 1"
    using p(3,4) finite_avail [OF s1(3)] by (simp add: card_Diff_singleton)
  ultimately show ?thesis
    using present True eff link(4) pte1 p(4) by (auto simp: ensure_level_def)
qed

lemma map_page_ok:
  assumes "sane s" "own_half va" "page_path va \<noteq> page_path pivot" "3 \<le> card (avail s)"
    and "\<not> bad_permissions va perms"
  shows "\<exists>st s'. map_page palloc va phys perms s = Ret (st, s') \<and> sane s' \<and>
    card (avail s) \<le> card (avail s') + 3 \<and> avail s' \<subseteq> avail s \<and>
    (if pte s va = None
     then st = Ok \<and> pte s' va = Some ((phys AND NOT Memory_Permissions_Mask) OR perms OR Memory_Present)
     else st = Error_Present \<and> pte s' va = pte s va) \<and>
    (\<forall>va'. own_half va' \<longrightarrow> page_path va' \<noteq> page_path va \<longrightarrow> page_path va' \<noteq> page_path pivot \<longrightarrow>
       pte s' va' = pte s va')"
proof -
  have good: "good_path ([] @ [pl4_index va])" "good_path (path3 va @ [pl3_index va])"
    "good_path (path2 va @ [pl2_index va])" using assms(2) by simp_all
  have ne: "avail s \<noteq> {}" using assms(4) by auto
  have f0: "fractal s" using assms(1) by (simp add: sane_def)
  have "\<exists>s'. ensure_level palloc (is_pl3_present s get_pl4 va) (entry_at get_pl4 (pl4_index va))
      (get_pl3 va) s = Ret (True, s') \<and> sane s' \<and>
    tab s' ([] @ [pl4_index va]) \<noteq> None \<and> card (avail s) \<le> card (avail s') + 1 \<and> avail s' \<subseteq> avail s \<and>
    (\<forall>va. own_half va \<longrightarrow> page_path va \<noteq> page_path pivot \<longrightarrow> pte s' va = pte s va)"
    by (rule ensure_level_ok [OF assms(1) good(1) tab_Nil ne])
      (simp_all add: store_levels walk_tables present_levels f0)
  then obtain s1 where e1: "ensure_level palloc (is_pl3_present s get_pl4 va)
      (entry_at get_pl4 (pl4_index va)) (get_pl3 va) s = Ret (True, s1)" "sane s1"
    "tab s1 (path3 va) \<noteq> None" "card (avail s) \<le> card (avail s1) + 1" "avail s1 \<subseteq> avail s"
    "\<And>va. own_half va \<Longrightarrow> page_path va \<noteq> page_path pivot \<Longrightarrow> pte s1 va = pte s va" by auto
  then obtain f3 where f3: "tab s1 (path3 va) = Some f3" by blast
  have ne1: "avail s1 \<noteq> {}" using e1(4) assms(4) by auto
  have f1: "fractal s1" using e1(2) by (simp add: sane_def)
  have "\<exists>s'. ensure_level palloc (is_pl2_present s1 (get_pl3 va) va)
      (entry_at (get_pl3 va) (pl3_index va)) (get_pl2 va) s1 = Ret (True, s') \<and> sane s' \<and>
    tab s' (path3 va @ [pl3_index va]) \<noteq> None \<and> card (avail s1) \<le> card (avail s') + 1 \<and> avail s' \<subseteq> avail s1 \<and>
    (\<forall>va. own_half va \<longrightarrow> page_path va \<noteq> page_path pivot \<longrightarrow> pte s' va = pte s1 va)"
    by (rule ensure_level_ok [OF e1(2) good(2) f3 ne1])
      (simp_all add: store_levels walk_tables present_levels f1 f3)
  then obtain s2 where e2: "ensure_level palloc (is_pl2_present s1 (get_pl3 va) va)
      (entry_at (get_pl3 va) (pl3_index va)) (get_pl2 va) s1 = Ret (True, s2)" "sane s2"
    "tab s2 (path2 va) \<noteq> None" "card (avail s1) \<le> card (avail s2) + 1" "avail s2 \<subseteq> avail s1"
    "\<And>va. own_half va \<Longrightarrow> page_path va \<noteq> page_path pivot \<Longrightarrow> pte s2 va = pte s1 va" by auto
  then obtain f2 where f2: "tab s2 (path2 va) = Some f2" by blast
  have ne2: "avail s2 \<noteq> {}" using e1(4) e2(4) assms(4) by auto
  have f2': "fractal s2" using e2(2) by (simp add: sane_def)
  have "\<exists>s'. ensure_level palloc (is_pl1_present s2 (get_pl2 va) va)
      (entry_at (get_pl2 va) (pl2_index va)) (get_pl1 va) s2 = Ret (True, s') \<and> sane s' \<and>
    tab s' (path2 va @ [pl2_index va]) \<noteq> None \<and> card (avail s2) \<le> card (avail s') + 1 \<and> avail s' \<subseteq> avail s2 \<and>
    (\<forall>va. own_half va \<longrightarrow> page_path va \<noteq> page_path pivot \<longrightarrow> pte s' va = pte s2 va)"
    by (rule ensure_level_ok [OF e2(2) good(3) f2 ne2])
      (simp_all add: store_levels walk_tables present_levels f2' f2)
  then obtain s3 where e3: "ensure_level palloc (is_pl1_present s2 (get_pl2 va) va)
      (entry_at (get_pl2 va) (pl2_index va)) (get_pl1 va) s2 = Ret (True, s3)" "sane s3"
    "tab s3 (path1 va) \<noteq> None" "card (avail s2) \<le> card (avail s3) + 1" "avail s3 \<subseteq> avail s2"
    "\<And>va. own_half va \<Longrightarrow> page_path va \<noteq> page_path pivot \<Longrightarrow> pte s3 va = pte s2 va" by auto
  then obtain f where f: "tab s3 (path1 va) = Some f" by blast
  have s3: "fractal s3" "tree s3" "inv s3" "avail s3 \<inter> tables s3 = {}"
    using e3(2) by (simp_all add: sane_def)
  have pte3: "pte s3 va' = pte s va'" if "own_half va'" "page_path va' \<noteq> page_path pivot" for va'
    using that e1(6) e2(6) e3(6) by simp
  have few: "card (avail s) \<le> card (avail s3) + 3" "avail s3 \<subseteq> avail s"
    using e1(4,5) e2(4,5) e3(4,5) by auto
  have start: "map_page palloc va phys perms s =
      (if pte s va \<noteq> None then Ret (Error_Present, s3)
       else Ret (Ok, write_frame f (pl1_index va)
         ((phys AND NOT Memory_Permissions_Mask) OR perms OR Memory_Present) s3))"
    using assms(5) e1(1) e2(1) e3(1) pte3 [OF assms(2,3)]
    by (simp add: map_page_def present_levels(4) [OF s3(1)] f store_levels(4) [OF s3(1)] poke_def)
  show ?thesis
  proof (cases "pte s va = None")
    case False
    with start few e3(2) pte3 assms(2,3) show ?thesis by auto
  next
    case True
    let ?e = "(phys AND NOT Memory_Permissions_Mask) OR perms OR Memory_Present"
    let ?s = "write_frame f (pl1_index va) ?e s3"
    note leaf = leaf_write [OF s3(2,1) assms(2) f, where e = ?e]
    have pres: "entry_present ?e" by (simp add: entry_present_bit bit_or_iff Memory_Present_1)
    have ft: "f \<in> tables s3" using tablesI [of "path1 va" s3 f] f assms(2) by simp
    have off: "\<not> (g = f \<and> j = pl1_index va)" if "on_path s3 pivot g j" for g j
    proof
      assume gf: "g = f \<and> j = pl1_index va"
      have same: "r = path1 va" if "good_path r" "tab s3 r = Some g" for r
        using treeD [OF s3(2) that(1)] assms(2) f that(2) gf by simp
      from that pivot_half have "j = pl1_index pivot \<and> path1 pivot = path1 va"
      proof (cases rule: on_path_cases)
        case (upper r)
        with same [of r] show ?thesis by auto
      next
        case leaf
        with same [of "path1 pivot"] pivot_half show ?thesis by simp
      qed
      with gf assms(3) show False by (simp add: page_path_def)
    qed
    have "frames ?s (root s3) 256 = frames s3 (root s3) 256"
      using treeD [OF s3(2), of "[]" "path1 va" f] f assms(2) by (auto simp: frames_write)
    moreover have "frames ?s g = frames s3 g" if "g \<in> avail s3" for g
      using that ft s3(4) by (auto simp: frames_write fun_eq_iff)
    moreover have "frames ?s g j = frames s3 g j" if "on_path s3 pivot g j" for g j
      using off [OF that] by (auto simp: frames_write)
    moreover have "?s = s3\<lparr>frames := frames ?s\<rparr>" by (simp add: write_frame_def)
    ultimately have "inv ?s" and av: "avail ?s = avail s3"
      using stable [OF s3(3), of "frames ?s"] by auto
    then have "sane ?s" using leaf(2-4) s3(4) by (simp add: sane_def)
    with start few av True leaf(5) pres pte3 assms(2,3) show ?thesis by auto
  qed
qed

end

subsection \<open>Unmapping, updating and reading a mapping\<close>

lemma unmap_page_keep:
  assumes "fractal s"
  shows "unmap_page physical_free va False s =
    (case tab s (path1 va) of None \<Rightarrow> Ret s
     | Some f \<Rightarrow> Ret (write_frame f (pl1_index va) free_page_entry s))"
proof -
  have "and_also (is_pl3_present s get_pl4 va)
        (and_also (is_pl2_present s (get_pl3 va) va) (is_pl1_present s (get_pl2 va) va)) =
      Ret (tab s (path1 va) \<noteq> None)"
    using present_levels [OF assms, of va] tab_path_down [of s va]
    by (auto simp: and_also_def simp del: not_None_eq)
  then show ?thesis
    by (auto simp: unmap_page_def store_levels(4) [OF assms] poke_def split: option.split)
qed

lemma free_page_absent [simp]: "\<not> entry_present free_page_entry"
  by (simp add: free_page_entry_def entry_present_bit)

lemma pte_tab: "pte s va = Some e \<Longrightarrow> \<exists>f. tab s (path1 va) = Some f \<and> frames s f (pl1_index va) = e"
  by (auto simp: pte_def entry_def split: option.splits if_splits)

text \<open>\<open>virt_to_phys\<close> agrees with the processor: on a mapped address it returns the frame
  that the walk of the page tables ends in (for entries with no bits set between the physical
  address and the execute bit), and on an address that is not mapped it panics.\<close>

theorem virt_to_phys_walk:
  assumes "fractal s" "\<And>e. pte s va = Some e \<Longrightarrow> e AND 0x7ff0000000000000 = 0"
  shows "virt_to_phys s va = (case walk s va of None \<Rightarrow> Panic | Some f \<Rightarrow> Ret f)"
proof (cases "pte s va")
  case None
  then show ?thesis
    by (simp add: virt_to_phys_def fully_present_eq [OF assms(1)] walk_pte)
next
  case (Some e)
  then obtain f where f: "tab s (path1 va) = Some f" "frames s f (pl1_index va) = e"
    using pte_tab by blast
  have "NOT Memory_Permissions_Mask = (Phys_Addr_Mask OR 0x7ff0000000000000 :: u64)"
    by (simp add: Memory_Permissions_Mask_def Phys_Addr_Mask_def)
  then have eq: "e AND NOT Memory_Permissions_Mask = page_entry_to_phys e"
    using assms(2) [OF Some] by (simp add: bit.conj_disj_distrib page_entry_to_phys_def)
  have "\<not> bit (page_entry_to_phys e) 0"
    by (simp add: page_entry_to_phys_def bit_and_iff Phys_Addr_Mask_def)
  moreover have "bit invalid_phys_addr 0" by (simp add: invalid_phys_addr_def)
  ultimately have "page_entry_to_phys e \<noteq> invalid_phys_addr" by metis
  with Some eq f show ?thesis
    by (simp add: virt_to_phys_def fully_present_eq [OF assms(1)] walk_pte load_levels [OF assms(1)]
        peek_def)
qed

text \<open>Changing a page's permissions keeps its frame and every other mapping. A page that is
  not mapped is reported as absent, and a writable executable page, or a user page in the
  upper half, is refused; nothing changes then.\<close>

theorem map_update_page_correct:
  assumes "fractal s" "tree s" "own_half va"
  shows "\<exists>st s'. map_update_page va perms s = Ret (st, s') \<and> fractal s' \<and> tree s' \<and>
    (st = Error_Permissions \<longleftrightarrow> bad_permissions va perms) \<and>
    (st = Error_Absent \<longleftrightarrow> \<not> bad_permissions va perms \<and> pte s va = None) \<and>
    (st = Ok \<longleftrightarrow> \<not> bad_permissions va perms \<and> pte s va \<noteq> None) \<and> (st \<noteq> Ok \<longrightarrow> s' = s) \<and>
    (st = Ok \<longrightarrow> pte s' va =
       Some ((the (pte s va) AND NOT Memory_Permissions_Mask) OR perms OR Memory_Present)) \<and>
    (\<forall>va'. own_half va' \<longrightarrow> page_path va' \<noteq> page_path va \<longrightarrow> pte s' va' = pte s va')"
proof (cases "bad_permissions va perms")
  case True
  with assms show ?thesis by (intro exI [of _ Error_Permissions] exI [of _ s]) (simp add: map_update_page_def)
next
  case ok: False
  show ?thesis
  proof (cases "pte s va")
    case None
    with ok assms show ?thesis
      by (intro exI [of _ Error_Absent] exI [of _ s])
        (simp add: map_update_page_def fully_present_eq [OF assms(1)])
  next
    case (Some e)
    then obtain f where f: "tab s (path1 va) = Some f" "frames s f (pl1_index va) = e"
      using pte_tab by blast
    let ?e = "(e AND NOT Memory_Permissions_Mask) OR perms OR Memory_Present"
    have "entry_present ?e" by (simp add: entry_present_bit bit_or_iff Memory_Present_1)
    moreover have "map_update_page va perms s = Ret (Ok, write_frame f (pl1_index va) ?e s)"
      using ok Some f by (simp add: map_update_page_def fully_present_eq [OF assms(1)]
          load_levels [OF assms(1)] store_levels [OF assms(1)] peek_def poke_def)
    ultimately show ?thesis
      using leaf_write [OF assms(2,1,3) f(1), where e = ?e] ok Some assms(3) by auto
  qed
qed

end
