(* ===== verification/Physical_Allocator.thy ===== *)
theory Physical_Allocator
  imports Paging
begin

text \<open>
  \<open>kernel/core/physical_allocator.c\<close>: the page frame allocator. The free memory is a stack of
  blocks; the first two words of a block's first frame hold the address of the next block and
  the block's length. The top block is reached by mapping it at the pivot page, one page below
  the kernel image, so allocating and freeing go through \<open>map_page\<close> and \<open>unmap_page\<close>, and
  \<open>map_page\<close> may in turn call \<open>physical_alloc\<close>. \<open>physical_alloc_with\<close> takes the routine that a
  nested call runs; \<open>physical_alloc\<close> closes the loop, and \<open>nested_alloc_hangs\<close> shows that the
  choice does not matter: the lock is held, so a nested call never returns.
\<close>

subsection \<open>Allocation and release\<close>

text \<open>One page below the kernel image; \<open>link.ld\<close> places the image at this address plus a page.\<close>

definition Kernel_Pivot_Page :: u64 where "Kernel_Pivot_Page = 0xffffffff800ff000"

text \<open>The members of \<open>struct physical_page_stack\<close> at the pivot page.\<close>

definition stack_next :: u64 where "stack_next = entry_at Kernel_Pivot_Page 0"
definition stack_length :: u64 where "stack_length = entry_at Kernel_Pivot_Page 1"

text \<open>Unmapping with \<open>free_physical_memory = false\<close> never calls its first argument.\<close>

definition unmap_pivot :: "('a) mm_scheme \<Rightarrow> (('a) mm_scheme) res" where
  "unmap_pivot s = unmap_page (\<lambda>_ _. Hang) Kernel_Pivot_Page False s"

definition physical_alloc_out :: "phys_addr \<Rightarrow> ('a) mm_scheme \<Rightarrow> (phys_addr \<times> ('a) mm_scheme) res" where
  "physical_alloc_out phys s =
     res_bind (lock_release_writer (pa_lock s)) (\<lambda>l.
     res_bind (kassert (phys AND 0xfff = 0)) (\<lambda>_.
     res_bind (kassert (phys AND 0xffff000000000000 = 0)) (\<lambda>_.
     res_bind (kassert (phys \<noteq> Physical_Page s)) (\<lambda>_.
     Ret (phys, s\<lparr>pa_lock := l\<rparr>)))))"

definition physical_alloc_with :: "(('a) mm_scheme) palloc_f \<Rightarrow> (('a) mm_scheme) palloc_f" where
  "physical_alloc_with nested s =
     res_bind (lock_acquire_writer (pa_lock s)) (\<lambda>l.
     (let s1 = s\<lparr>pa_lock := l\<rparr> in
     res_bind (load s1 stack_length) (\<lambda>len.
     res_bind (kassert (is_aligned len Page_Small)) (\<lambda>_.
     res_bind (store stack_length (len - Page_Small) s1) (\<lambda>s2.
     res_bind (load s2 stack_length) (\<lambda>left.
     if left = 0 then
       (let phys = Physical_Page s2 in
        res_bind (load s2 stack_next) (\<lambda>next.
        res_bind (unmap_pivot s2) (\<lambda>s3.
        res_bind (if next \<noteq> invalid_phys_addr
                  then map_page nested Kernel_Pivot_Page next Memory_Writable s3
                  else Ret (Ok, s3)) (\<lambda>(st, s4).
        if st \<noteq> Ok then physical_alloc_out invalid_phys_addr s4
        else
          (let s5 = s4\<lparr>Physical_Page := next\<rparr> in
           res_bind (kassert (phys \<noteq> next)) (\<lambda>_.
           physical_alloc_out phys s5))))))
     else physical_alloc_out (Physical_Page s2 + left) s2))))))"

definition physical_alloc :: "(('a) mm_scheme) palloc_f" where
  "physical_alloc = physical_alloc_with (physical_alloc_with (\<lambda>_. Hang))"

definition physical_free_range :: "phys_addr \<Rightarrow> u64 \<Rightarrow> ('a) mm_scheme \<Rightarrow> (('a) mm_scheme) res" where
  "physical_free_range address len s =
     res_bind (kassert (is_aligned address Page_Small)) (\<lambda>_.
     res_bind (kassert (is_aligned len Page_Small)) (\<lambda>_.
     res_bind (kassert (address AND 0xfff = 0)) (\<lambda>_.
     res_bind (kassert (len AND 0xfff = 0)) (\<lambda>_.
     res_bind (kassert (len > 0)) (\<lambda>_.
     res_bind (kassert (address AND 0xffff000000000000 = 0)) (\<lambda>_.
     res_bind (kassert ((address + len) AND 0xffff000000000000 = 0)) (\<lambda>_.
     res_bind (lock_acquire_writer (pa_lock s)) (\<lambda>l.
     (let s1 = s\<lparr>pa_lock := l\<rparr>; prev = Physical_Page s1 in
     res_bind (unmap_pivot s1) (\<lambda>s2.
     res_bind (map_page physical_alloc Kernel_Pivot_Page address Memory_Writable s2) (\<lambda>(st, s3).
     res_bind (kassert (st = Ok)) (\<lambda>_.
     res_bind (store stack_next prev s3) (\<lambda>s4.
     res_bind (store stack_length len s4) (\<lambda>s5.
     (let s6 = s5\<lparr>Physical_Page := address\<rparr> in
     res_bind (lock_release_writer (pa_lock s6)) (\<lambda>l2.
     Ret (s6\<lparr>pa_lock := l2\<rparr>)))))))))))))))))"

definition physical_free :: "(('a) mm_scheme) pfree_f" where
  "physical_free address s = physical_free_range address Page_Small s"

subsection \<open>Walking the stack\<close>

text \<open>Map the block at \<open>current\<close> at the pivot page.\<close>

definition remap_pivot :: "phys_addr \<Rightarrow> ('a) mm_scheme \<Rightarrow> (('a) mm_scheme) res" where
  "remap_pivot current s =
     res_bind (unmap_pivot s) (\<lambda>s1.
     res_bind (map_page physical_alloc Kernel_Pivot_Page current Memory_Writable s1) (\<lambda>(st, s2).
     res_bind (kassert (st = Ok)) (\<lambda>_. Ret s2)))"

text \<open>The loops may not end on a circular stack; the first argument bounds their iterations.\<close>

primrec stack_debug_loop :: "nat \<Rightarrow> phys_addr \<Rightarrow> ('a) mm_scheme \<Rightarrow> (('a) mm_scheme) res" where
  "stack_debug_loop 0 current s = Hang"
| "stack_debug_loop (Suc n) current s =
     (if current = invalid_phys_addr then Ret s
      else
        res_bind (remap_pivot current s) (\<lambda>s1.
        res_bind (load s1 stack_next) (\<lambda>next. stack_debug_loop n next s1)))"

definition physical_stack_debug :: "nat \<Rightarrow> ('a) mm_scheme \<Rightarrow> (('a) mm_scheme) res" where
  "physical_stack_debug n s =
     (let original = Physical_Page s in
      res_bind (lock_acquire_writer (pa_lock s)) (\<lambda>l.
      res_bind (stack_debug_loop n original (s\<lparr>pa_lock := l\<rparr>)) (\<lambda>s1.
      res_bind (remap_pivot original s1) (\<lambda>s2.
      res_bind (lock_release_writer (pa_lock s2)) (\<lambda>l2. Ret (s2\<lparr>pa_lock := l2\<rparr>))))))"

text \<open>After \<open>unmap_page\<close> the code reads \<open>Physical_Page_Stack->next\<close>, the argument of the next
  \<open>map_page\<close>.\<close>

primrec page_remove_loop ::
    "nat \<Rightarrow> phys_addr \<Rightarrow> phys_addr \<Rightarrow> status \<Rightarrow> ('a) mm_scheme \<Rightarrow> (status \<times> ('a) mm_scheme) res" where
  "page_remove_loop 0 address current st s = Hang"
| "page_remove_loop (Suc n) address current st s =
     (if current = invalid_phys_addr then Ret (st, s)
      else
        res_bind (remap_pivot current s) (\<lambda>s1.
        res_bind (load s1 stack_next) (\<lambda>next.
        if next = address then
          res_bind (unmap_pivot s1) (\<lambda>s2.
          res_bind (load s2 stack_next) (\<lambda>next_block.
          res_bind (map_page physical_alloc Kernel_Pivot_Page next_block Memory_Writable s2) (\<lambda>(st3, s3).
          res_bind (kassert (st3 = Ok)) (\<lambda>_.
          res_bind (load s3 stack_next) (\<lambda>next_next.
          res_bind (remap_pivot next s3) (\<lambda>s4.
          res_bind (store stack_next next_next s4) (\<lambda>s5. Ret (Ok, s5))))))))
        else page_remove_loop n address next Ok s1)))"

definition physical_page_remove ::
    "nat \<Rightarrow> phys_addr \<Rightarrow> ('a) mm_scheme \<Rightarrow> (status \<times> ('a) mm_scheme) res" where
  "physical_page_remove n address s =
     res_bind (kassert (is_aligned address Page_Small)) (\<lambda>_.
     (let original = Physical_Page s in
      res_bind (lock_acquire_writer (pa_lock s)) (\<lambda>l.
      res_bind (page_remove_loop n address original Error_Absent (s\<lparr>pa_lock := l\<rparr>)) (\<lambda>(st, s1).
      res_bind (remap_pivot original s1) (\<lambda>s2.
      res_bind (lock_release_writer (pa_lock s2)) (\<lambda>l2. Ret (st, s2\<lparr>pa_lock := l2\<rparr>)))))))"

subsection \<open>Populating the allocator from the boot loader's tables\<close>

record multiboot_mod =
  mod_start :: u32
  mod_end :: u32

record multiboot_mmap_entry =
  mmap_addr :: u64
  mmap_len :: u64
  mmap_type :: u32

record multiboot_info =
  mods_count :: u32
  mods_addr :: u32
  mmap_length :: u32
  modules :: "multiboot_mod list"
  mmap_entries :: "multiboot_mmap_entry list"

record reserved_region =
  r_start :: phys_addr
  r_end :: phys_addr

definition MULTIBOOT_MEMORY_AVAILABLE :: u32 where "MULTIBOOT_MEMORY_AVAILABLE = 1"
definition Boot_Map_Start :: phys_addr where "Boot_Map_Start = 0x1000"

definition physical_region_contains :: "u64 \<Rightarrow> u64 \<Rightarrow> u64 \<Rightarrow> u64 \<Rightarrow> bool" where
  "physical_region_contains start_a end_a start_b end_b \<longleftrightarrow>
     (start_b > start_a \<and> start_b < end_a) \<or> (end_b > start_a \<and> end_b < end_a)"

definition mods_list_start :: "multiboot_info \<Rightarrow> u64" where
  "mods_list_start mb = align_as (ucast (mods_addr mb)) Page_Small"

definition mods_list_end :: "multiboot_info \<Rightarrow> u64" where
  "mods_list_end mb = round_next (ucast (mods_addr mb) + ucast (mods_count mb) * 16) Page_Small"

text \<open>The modules' list lies in memory that is mapped already.\<close>

definition mods_in_boot_map :: "phys_addr \<Rightarrow> multiboot_info \<Rightarrow> bool" where
  "mods_in_boot_map boot_map_end mb \<longleftrightarrow>
     physical_region_contains Boot_Map_Start boot_map_end (mods_list_start mb) (mods_list_end mb)"

definition reserved_regions :: "phys_addr \<Rightarrow> multiboot_info \<Rightarrow> reserved_region list" where
  "reserved_regions boot_map_end mb =
     (let boot = \<lparr>r_start = Boot_Map_Start, r_end = boot_map_end\<rparr>;
          mods = \<lparr>r_start = mods_list_start mb, r_end = mods_list_end mb\<rparr>
      in (if mods_in_boot_map boot_map_end mb then [boot]
          else if Boot_Map_Start < mods_list_start mb then [boot, mods] else [mods, boot]) @
         map (\<lambda>m. \<lparr>r_start = ucast (mod_start m),
                   r_end = ucast ((mod_end m + 0xfff) AND NOT 0xfff)\<rparr>)
           (take (unat (mods_count mb)) (modules mb)))"

type_synonym 's free_range_f = "phys_addr \<Rightarrow> u64 \<Rightarrow> 's \<Rightarrow> 's res"

text \<open>One memory map entry against the reserved regions; \<open>addr\<close> and \<open>len\<close> are the entry's
  members, which the loop overwrites.\<close>

fun insert_around :: "'s free_range_f \<Rightarrow> reserved_region list \<Rightarrow> u64 \<Rightarrow> u64 \<Rightarrow> bool \<Rightarrow> 's
      \<Rightarrow> (u64 \<times> u64 \<times> bool \<times> 's) res" where
  "insert_around free_range [] addr len inserted s = Ret (addr, len, inserted, s)"
| "insert_around free_range (r # rs) addr len inserted s =
     (let mem_start = addr; mem_end = addr + len in
      if physical_region_contains mem_start mem_end (r_start r) (r_end r) then
        res_bind (if r_start r > mem_start
                  then free_range mem_start (r_start r - mem_start) s else Ret s) (\<lambda>s1.
        case rs of
          r2 # _ \<Rightarrow>
            (if physical_region_contains mem_start mem_end (r_start r2) (r_end r2) then
               res_bind (if r_end r \<noteq> r_start r2
                         then free_range (r_end r) (r_start r2 - r_end r) s1 else Ret s1) (\<lambda>s2.
               insert_around free_range rs (r_start r2) (len - (r_start r2 - r_start r)) True s2)
             else
               res_bind (if r_end r < mem_end
                         then free_range (r_end r) (mem_end - r_end r) s1 else Ret s1) (\<lambda>s2.
               insert_around free_range rs addr len True s2))
        | [] \<Rightarrow>
            res_bind (if r_end r < mem_end
                      then free_range (r_end r) (mem_end - r_end r) s1 else Ret s1) (\<lambda>s2.
            insert_around free_range rs addr len True s2))
      else insert_around free_range rs addr len inserted s)"

fun insert_entries :: "'s free_range_f \<Rightarrow> reserved_region list \<Rightarrow> multiboot_mmap_entry list \<Rightarrow> 's
      \<Rightarrow> 's res" where
  "insert_entries free_range reserved [] s = Ret s"
| "insert_entries free_range reserved (e # es) s =
     (if mmap_type e = MULTIBOOT_MEMORY_AVAILABLE then
        res_bind (insert_around free_range reserved (mmap_addr e) (mmap_len e) False s)
          (\<lambda>(addr, len, inserted, s1).
        res_bind (if \<not> inserted then free_range addr len s1 else Ret s1) (\<lambda>s2.
        insert_entries free_range reserved es s2))
      else insert_entries free_range reserved es s)"

definition insert_regions ::
    "phys_addr \<Rightarrow> multiboot_info \<Rightarrow> ('a) mm_scheme \<Rightarrow> (('a) mm_scheme) res" where
  "insert_regions boot_map_end mb s =
     (let external = \<not> mods_in_boot_map boot_map_end mb;
          pages = (mods_list_end mb - mods_list_start mb) div Page_Small
      in
      res_bind (if external
                then res_bind (map_range physical_alloc physical_free (ucast (mods_addr mb))
                       (mods_list_start mb) pages Memory_No_Attributes s)
                     (\<lambda>(st, s1). res_bind (kassert (st = Ok)) (\<lambda>_. Ret s1))
                else Ret s) (\<lambda>s1.
      res_bind (insert_entries physical_free_range (reserved_regions boot_map_end mb)
                 (take (unat (mmap_length mb) div 24) (mmap_entries mb)) s1) (\<lambda>s2.
      if external then unmap_range physical_free (ucast (mods_addr mb)) (unat pages) False s2
      else Ret s2)))"

definition physical_allocator_init ::
    "phys_addr \<Rightarrow> multiboot_info \<Rightarrow> ('a) mm_scheme \<Rightarrow> (('a) mm_scheme) res" where
  "physical_allocator_init boot_map_end mb s = insert_regions boot_map_end mb s"


subsection \<open>Addresses of page frames\<close>

definition frame_base :: "u64 \<Rightarrow> bool" where
  "frame_base p \<longleftrightarrow> p AND 0xfff = 0 \<and> p AND 0xffff000000000000 = 0"

lemma aligned_iff_dvd: "p AND 0xfff = 0 \<longleftrightarrow> 4096 dvd unat p" for p :: u64
  using and_mask_dvd_nat [of 12 p] by (simp add: mask_eq_exp_minus_1)

lemma high_bits_iff: "p AND 0xffff000000000000 = 0 \<longleftrightarrow> unat p < 2 ^ 48" for p :: u64
proof -
  have m: "(0xffff000000000000 :: u64) = NOT (mask 48)" by (simp add: mask_eq_exp_minus_1)
  have "p AND NOT (mask 48) = 0 \<longleftrightarrow> p AND mask 48 = p"
    by (auto simp: bit_eq_iff bit_and_iff bit_not_iff)
  also have "\<dots> \<longleftrightarrow> p < 2 ^ 48" using mask_eq_iff_w2p [of 48 p] by (simp add: word_size)
  finally show ?thesis unfolding m by (simp add: word_less_nat_alt)
qed

lemma frame_base_iff: "frame_base p \<longleftrightarrow> 4096 dvd unat p \<and> unat p < 2 ^ 48"
  by (simp add: frame_base_def aligned_iff_dvd high_bits_iff)

lemma and_sub_mask:
  assumes "p AND m = 0" "m AND k = k"
  shows "p AND k = (0 :: u64)"
proof -
  have "p AND k = (p AND m) AND k" using assms(2) by (simp add: and.assoc)
  then show ?thesis using assms(1) by simp
qed

lemma and_or_split: "(p AND m) OR (p AND NOT m) = p" for p :: u64
  by (rule bit_word_eqI) (auto simp: bit_and_iff bit_or_iff bit_not_iff)

lemma frame_base_mask:
  assumes "frame_base p"
  shows "p AND NOT Phys_Addr_Mask = 0" "p AND NOT Memory_Permissions_Mask = p"
proof -
  have "p AND 0xfff0000000000000 = 0"
    by (rule and_sub_mask [where m = "0xffff000000000000"]) (use assms in \<open>simp_all add: frame_base_def\<close>)
  moreover have "NOT Phys_Addr_Mask = (0xfff OR 0xfff0000000000000 :: u64)"
    by (simp add: Phys_Addr_Mask_def)
  ultimately show "p AND NOT Phys_Addr_Mask = 0"
    using assms by (simp only: bit.conj_disj_distrib frame_base_def or.left_neutral)
  have "p AND 0x8000000000000000 = 0"
    by (rule and_sub_mask [where m = "0xffff000000000000"]) (use assms in \<open>simp_all add: frame_base_def\<close>)
  moreover have split: "Memory_Permissions_Mask = (0xfff OR 0x8000000000000000 :: u64)"
    by (simp add: Memory_Permissions_Mask_def)
  ultimately have "p AND Memory_Permissions_Mask = 0"
    unfolding split using assms by (simp only: bit.conj_disj_distrib frame_base_def or.left_neutral)
  then show "p AND NOT Memory_Permissions_Mask = p"
    using and_or_split [of p Memory_Permissions_Mask] by simp
qed

lemma frame_base_valid: "frame_base p \<Longrightarrow> p \<noteq> invalid_phys_addr"
  by (auto simp: frame_base_def invalid_phys_addr_def)

definition pivot_entry :: "phys_addr \<Rightarrow> u64" where
  "pivot_entry p = (p AND NOT Memory_Permissions_Mask) OR Memory_Writable OR Memory_Present"

lemma pivot_entry:
  assumes "frame_base p"
  shows "page_entry_to_phys (pivot_entry p) = p" "entry_present (pivot_entry p)"
proof -
  have "(Memory_Writable OR Memory_Present) AND Phys_Addr_Mask = (0 :: u64)"
    by (simp add: Memory_Writable_def Memory_No_Execute_def Memory_Present_def Phys_Addr_Mask_def)
  then show "page_entry_to_phys (pivot_entry p) = p"
    using page_entry_to_phys_flags [of p "Memory_Writable OR Memory_Present"] frame_base_mask [OF assms]
    by (simp add: pivot_entry_def or.assoc)
  show "entry_present (pivot_entry p)"
    by (simp add: pivot_entry_def entry_present_bit bit_or_iff Memory_Present_1)
qed

subsection \<open>The pivot page\<close>

lemma pivot_indices [simp]:
  "pl4_index Kernel_Pivot_Page = 511" "pl3_index Kernel_Pivot_Page = 510"
  "pl2_index Kernel_Pivot_Page = 0" "pl1_index Kernel_Pivot_Page = 255"
  by (simp_all add: Kernel_Pivot_Page_def pl4_index_def pl3_index_def pl2_index_def pl1_index_def)

lemma pivot_own_half [simp]: "own_half Kernel_Pivot_Page"
  by (simp add: own_half_def)

lemma pivot_walk:
  "walk s stack_next = walk s Kernel_Pivot_Page" "walk s stack_length = walk s Kernel_Pivot_Page"
  "word_index stack_next = 0" "word_index stack_length = 1"
  by (simp_all add: walk_def stack_next_def stack_length_def entry_at_def Kernel_Pivot_Page_def
      pl4_index_def pl3_index_def pl2_index_def pl1_index_def word_index_def)

text \<open>The tables on the way to the pivot page: three upper ones, and the last, which is none of
  them.\<close>

definition pivot_path :: "('a) mm_scheme \<Rightarrow> u64 \<Rightarrow> u64 \<Rightarrow> u64 \<Rightarrow> bool" where
  "pivot_path s t3 t2 t1 \<longleftrightarrow> fractal s \<and> tab s [511] = Some t3 \<and> tab s [511, 510] = Some t2 \<and>
     tab s [511, 510, 0] = Some t1 \<and> t1 \<notin> {root s, t3, t2}"

lemma pivot_path_agree:
  assumes "pivot_path s t3 t2 t1" "root s' = root s"
    "\<And>f i. f \<in> {root s, t3, t2} \<Longrightarrow> frames s' f i = frames s f i"
  shows "pivot_path s' t3 t2 t1"
proof -
  have p: "tab s [511] = Some t3" "tab s [511, 510] = Some t2" using assms(1) by (auto simp: pivot_path_def)
  have step: "table_step s' f i = table_step s f i" if "f \<in> {root s, t3, t2}" for f i
    using assms(3) that by (simp add: table_step_present)
  have "fractal s'" using assms(1,2) step [of "root s"] by (simp add: pivot_path_def fractal_def)
  moreover have 1: "tab s' [511] = tab s [511]"
    using tab_snoc [of s' "[]" 511] tab_snoc [of s "[]" 511] step [of "root s"] assms(2) by simp
  moreover have 2: "tab s' [511, 510] = tab s [511, 510]"
    using tab_snoc [of s' "[511]" 510] tab_snoc [of s "[511]" 510] step [of t3] 1 p by simp
  moreover have "tab s' [511, 510, 0] = tab s [511, 510, 0]"
    using tab_snoc [of s' "[511, 510]" 0] tab_snoc [of s "[511, 510]" 0] step [of t2] 2 p by simp
  ultimately show ?thesis using assms(1,2) by (simp add: pivot_path_def)
qed

lemma pivot_path_write:
  assumes "pivot_path s t3 t2 t1" "f \<notin> {root s, t3, t2}"
  shows "pivot_path (write_frame f i v s) t3 t2 t1"
  by (rule pivot_path_agree [OF assms(1)]) (use assms(2) in \<open>auto simp: frames_write\<close>)

lemma pivot_pte:
  "pivot_path s t3 t2 t1 \<Longrightarrow> pte s Kernel_Pivot_Page =
     (if entry_present (frames s t1 255) then Some (frames s t1 255) else None)"
  by (simp add: pivot_path_def pte_def entry_def)

lemma unmap_pivot_eq:
  assumes "pivot_path s t3 t2 t1"
  shows "unmap_pivot s = Ret (write_frame t1 255 free_page_entry s)"
proof -
  have f: "fractal s" using assms by (simp add: pivot_path_def)
  show ?thesis using assms by (simp add: unmap_pivot_def unmap_page_keep [OF f] pivot_path_def)
qed

lemma map_pivot_eq:
  assumes "pivot_path s t3 t2 t1" "\<not> entry_present (frames s t1 255)"
  shows "map_page palloc Kernel_Pivot_Page p Memory_Writable s =
    Ret (Ok, write_frame t1 255 (pivot_entry p) s)"
proof -
  have f: "fractal s" and t: "tab s [511] = Some t3" "tab s [511, 510] = Some t2"
    "tab s [511, 510, 0] = Some t1" using assms(1) by (simp_all add: pivot_path_def)
  have perms: "\<not> bad_permissions Kernel_Pivot_Page Memory_Writable"
    by (simp add: bad_permissions_def Memory_Writable_def Memory_No_Execute_def Memory_User_Access_def)
  show ?thesis
    using perms t pivot_pte [OF assms(1)] assms(2) store_levels(4) [OF f, of 255]
    by (simp add: map_page_def ensure_level_def present_levels [OF f] pivot_entry_def poke_def)
qed

lemma remap_pivot_eq:
  assumes "pivot_path s t3 t2 t1"
  shows "remap_pivot p s = Ret (write_frame t1 255 (pivot_entry p) s)"
proof -
  have "t1 \<notin> {root s, t3, t2}" using assms by (simp add: pivot_path_def)
  from pivot_path_write [OF assms this]
  have "map_page physical_alloc Kernel_Pivot_Page p Memory_Writable
      (write_frame t1 255 free_page_entry s) =
      Ret (Ok, write_frame t1 255 (pivot_entry p) (write_frame t1 255 free_page_entry s))"
    by (rule map_pivot_eq) (simp add: frames_write)
  then show ?thesis
    by (simp add: remap_pivot_def unmap_pivot_eq [OF assms] write_frame_def)
qed

lemma pivot_access:
  assumes "pivot_path s t3 t2 t1" "frames s t1 255 = pivot_entry p" "frame_base p"
  shows "load s stack_next = Ret (frames s p 0)" "load s stack_length = Ret (frames s p 1)"
    "store stack_next v s = Ret (write_frame p 0 v s)"
    "store stack_length v s = Ret (write_frame p 1 v s)"
proof -
  have "walk s Kernel_Pivot_Page = Some p"
    using pivot_pte [OF assms(1)] assms(2) pivot_entry [OF assms(3)] by (simp add: walk_pte)
  then show "load s stack_next = Ret (frames s p 0)" "load s stack_length = Ret (frames s p 1)"
    "store stack_next v s = Ret (write_frame p 0 v s)"
    "store stack_length v s = Ret (write_frame p 1 v s)"
    by (simp_all add: load_def store_def pivot_walk)
qed

lemma pivot_unmapped:
  assumes "pivot_path s t3 t2 t1" "\<not> entry_present (frames s t1 255)"
  shows "load s stack_next = Fault" "load s stack_length = Fault"
  using pivot_pte [OF assms(1)] assms(2) walk_pte [of s Kernel_Pivot_Page]
  by (simp_all add: load_def pivot_walk)


subsection \<open>The stack of free blocks\<close>

fun stack :: "(u64 \<Rightarrow> u64 \<Rightarrow> u64) \<Rightarrow> phys_addr \<Rightarrow> (phys_addr \<times> u64) list \<Rightarrow> bool" where
  "stack fr p [] \<longleftrightarrow> p = invalid_phys_addr"
| "stack fr p ((b, len) # bs) \<longleftrightarrow> p = b \<and> fr b 1 = len \<and> stack fr (fr b 0) bs"

definition block_ok :: "phys_addr \<times> u64 \<Rightarrow> bool" where
  "block_ok blk \<longleftrightarrow> (case blk of (b, len) \<Rightarrow>
     4096 dvd unat b \<and> 4096 dvd unat len \<and> 0 < unat len \<and> unat b + unat len < 2 ^ 48)"

definition pages :: "phys_addr \<times> u64 \<Rightarrow> u64 set" where
  "pages blk = (case blk of (b, len) \<Rightarrow> {p. 4096 dvd unat p \<and> b \<le> p \<and> unat p < unat b + unat len})"

definition pages_of :: "(phys_addr \<times> u64) list \<Rightarrow> u64 set" where
  "pages_of bs = (\<Union>blk \<in> set bs. pages blk)"

definition blocks_ok :: "(phys_addr \<times> u64) list \<Rightarrow> bool" where
  "blocks_ok bs \<longleftrightarrow> list_all block_ok bs \<and> sorted_wrt (\<lambda>x y. pages x \<inter> pages y = {}) bs"

lemma pages_of_simps [simp]: "pages_of [] = {}" "pages_of (x # bs) = pages x \<union> pages_of bs"
  by (simp_all add: pages_of_def)

lemma blocks_ok_Cons [simp]:
  "blocks_ok (x # bs) \<longleftrightarrow> block_ok x \<and> pages x \<inter> pages_of bs = {} \<and> blocks_ok bs"
  by (auto simp: blocks_ok_def pages_of_def)

lemma blocks_ok_Nil [simp]: "blocks_ok []"
  by (simp add: blocks_ok_def)

lemma block_base: "block_ok (b, len) \<Longrightarrow> frame_base b \<and> b \<in> pages (b, len)"
  by (auto simp: block_ok_def pages_def frame_base_iff)

lemma block_page: "block_ok blk \<Longrightarrow> p \<in> pages blk \<Longrightarrow> frame_base p"
  by (auto simp: block_ok_def pages_def frame_base_iff split: prod.splits)

lemma pages_of_frame: "blocks_ok bs \<Longrightarrow> p \<in> pages_of bs \<Longrightarrow> frame_base p"
  by (induction bs) (auto dest: block_page)

lemma stack_agree:
  "stack fr p bs \<Longrightarrow> (\<And>b len i. (b, len) \<in> set bs \<Longrightarrow> fr' b i = fr b i) \<Longrightarrow> stack fr' p bs"
proof (induction fr p bs rule: stack.induct)
  case (2 fr p b len bs)
  have "fr' b i = fr b i" for i by (rule 2(3) [of b len]) simp
  moreover have "stack fr' (fr b 0) bs" by (rule 2(1)) (use 2(2,3) in auto)
  ultimately show ?case using 2(2) by simp
qed simp

lemma stack_unique:
  "stack fr p bs \<Longrightarrow> stack fr p bs' \<Longrightarrow> blocks_ok bs \<Longrightarrow> blocks_ok bs' \<Longrightarrow> bs = bs'"
proof (induction fr p bs arbitrary: bs' rule: stack.induct)
  case (1 fr p)
  then show ?case
    by (cases bs') (auto dest!: block_base frame_base_valid)
next
  case (2 fr p b len bs)
  from 2(4) have "b \<noteq> invalid_phys_addr" by (auto dest!: block_base frame_base_valid)
  with 2(2,3) obtain len' bs'' where bs': "bs' = (b, len') # bs''" "len' = len" "stack fr (fr b 0) bs''"
    by (cases bs') auto
  with 2(1) [of bs''] 2(2,4,5) show ?case by simp
qed

lemma stack_invalid:
  assumes "stack fr p bs" "blocks_ok bs"
  shows "p = invalid_phys_addr \<longleftrightarrow> bs = []"
proof (cases bs)
  case (Cons blk cs)
  then obtain b len where "blk = (b, len)" by fastforce
  with Cons assms have "p = b" "frame_base b" using block_base by auto
  with Cons frame_base_valid show ?thesis by blast
qed (use assms in simp)

lemma head_in_pages: "blocks_ok bs \<Longrightarrow> (b, len) \<in> set bs \<Longrightarrow> b \<in> pages_of bs"
  by (induction bs) (auto dest: block_base)

lemma dvd_gap: "(d :: nat) dvd a \<Longrightarrow> d dvd n \<Longrightarrow> a < n \<Longrightarrow> a + d \<le> n"
  using dvd_imp_le [of d "n - a"] by (simp add: dvd_diff_nat)

text \<open>Cutting the last page off a block.\<close>

lemma cut_page:
  assumes "block_ok (b, len)"
  shows "unat (len - Page_Small) = unat len - 4096"
    and "unat (b + (len - Page_Small)) = unat b + unat len - 4096"
    and "frame_base (b + (len - Page_Small))"
    and "b + (len - Page_Small) \<in> pages (b, len)"
    and "len \<noteq> Page_Small \<Longrightarrow> block_ok (b, len - Page_Small)"
    and "len \<noteq> Page_Small \<Longrightarrow> pages (b, len - Page_Small) = pages (b, len) - {b + (len - Page_Small)}"
    and "len = Page_Small \<Longrightarrow> pages (b, len) = {b}"
proof -
  have b: "4096 dvd unat b" "4096 dvd unat len" "0 < unat len" "unat b + unat len < 2 ^ 48"
    using assms by (simp_all add: block_ok_def)
  then have ge: "4096 \<le> unat len" by (auto dest: dvd_imp_le)
  then have "Page_Small \<le> len" by (simp add: word_le_nat_alt)
  then show l: "unat (len - Page_Small) = unat len - 4096" by (simp add: unat_sub)
  then show u: "unat (b + (len - Page_Small)) = unat b + unat len - 4096"
    using b(4) ge by (simp add: unat_word_ariths)
  have d: "4096 dvd unat b + unat len - 4096" using b(1,2) by (simp add: dvd_diff_nat)
  then show "frame_base (b + (len - Page_Small))" using b(4) u by (simp add: frame_base_iff)
  show "b + (len - Page_Small) \<in> pages (b, len)"
    using u d ge by (simp add: pages_def word_le_nat_alt)
  show "block_ok (b, len - Page_Small)" if "len \<noteq> Page_Small"
  proof -
    have "unat len \<noteq> 4096" using that by (auto simp: word_unat_eq_iff)
    with b ge l show ?thesis by (simp add: block_ok_def dvd_diff_nat)
  qed
  have last: "unat p < unat b + (unat len - 4096) \<longleftrightarrow>
      unat p < unat b + unat len \<and> unat p \<noteq> unat b + unat len - 4096"
    if "4096 dvd unat p" for p :: u64
  proof -
    have "unat p < unat b + unat len \<Longrightarrow> unat p \<le> unat b + unat len - 4096"
      using dvd_gap [OF that dvd_add [OF b(1,2)]] by simp
    with ge show ?thesis by linarith
  qed
  show "pages (b, len - Page_Small) = pages (b, len) - {b + (len - Page_Small)}"
    using last u l by (auto simp: pages_def word_unat_eq_iff)
  show "pages (b, len) = {b}" if "len = Page_Small"
  proof -
    have "unat p = unat b" if "4096 dvd unat p" "b \<le> p" "unat p < unat b + 4096" for p :: u64
    proof (rule ccontr)
      assume "unat p \<noteq> unat b"
      with that(2) have "unat b < unat p" by (simp add: word_le_nat_alt)
      from dvd_gap [OF b(1) that(1) this] that(3) show False by simp
    qed
    then show ?thesis using that b(1) by (auto simp: pages_def word_unat_eq_iff)
  qed
qed


subsection \<open>The allocator's invariant\<close>

definition pa_state :: "('a) mm_scheme \<Rightarrow> u64 \<Rightarrow> u64 \<Rightarrow> u64 \<Rightarrow> (phys_addr \<times> u64) list \<Rightarrow> bool" where
  "pa_state s t3 t2 t1 bs \<longleftrightarrow> pivot_path s t3 t2 t1 \<and> pa_lock s = Lock_Clear \<and>
     stack (frames s) (Physical_Page s) bs \<and> blocks_ok bs \<and> pages_of bs \<inter> {root s, t3, t2, t1} = {} \<and>
     frames s t1 255 = (case bs of [] \<Rightarrow> frames s t1 255 | blk # _ \<Rightarrow> pivot_entry (fst blk)) \<and>
     (bs = [] \<longrightarrow> \<not> entry_present (frames s t1 255))"

lemma pa_stateD:
  assumes "pa_state s t3 t2 t1 bs"
  shows "pivot_path s t3 t2 t1" "pa_lock s = Lock_Clear" "stack (frames s) (Physical_Page s) bs"
    "blocks_ok bs" "pages_of bs \<inter> {root s, t3, t2, t1} = {}"
  using assms by (simp_all add: pa_state_def)

lemma root_lock [simp]: "root (s\<lparr>pa_lock := l\<rparr>) = root s" "root (s\<lparr>Physical_Page := p\<rparr>) = root s"
  by (simp_all add: root_def)

lemma pivot_path_lock [simp]:
  "pivot_path (s\<lparr>pa_lock := l\<rparr>) t3 t2 t1 = pivot_path s t3 t2 t1"
  "pivot_path (s\<lparr>Physical_Page := p\<rparr>) t3 t2 t1 = pivot_path s t3 t2 t1"
proof -
  have t: "traverse (s\<lparr>pa_lock := l\<rparr>) f is = traverse s f is"
    "traverse (s\<lparr>Physical_Page := p\<rparr>) f is = traverse s f is" for f "is"
    by (induction "is" arbitrary: f) (auto simp: table_step_present)
  show "pivot_path (s\<lparr>pa_lock := l\<rparr>) t3 t2 t1 = pivot_path s t3 t2 t1"
    "pivot_path (s\<lparr>Physical_Page := p\<rparr>) t3 t2 t1 = pivot_path s t3 t2 t1"
    by (simp_all add: pivot_path_def fractal_def tab_def t table_step_present)
qed

lemma write_frame_fields [simp]:
  "pa_lock (write_frame f i v s) = pa_lock s" "Physical_Page (write_frame f i v s) = Physical_Page s"
  "cr3 (write_frame f i v s) = cr3 s"
  by (simp_all add: write_frame_def)

text \<open>What an allocation leaves of the blocks.\<close>

fun take_page :: "(phys_addr \<times> u64) list \<Rightarrow> (phys_addr \<times> u64) list" where
  "take_page [] = []"
| "take_page ((b, len) # bs) = (if len = Page_Small then bs else (b, len - Page_Small) # bs)"

lemma stack_rest:
  assumes "stack fr p ((b, len) # bs)" "blocks_ok ((b, len) # bs)"
    and "\<And>c i. c \<in> pages_of bs \<Longrightarrow> c \<noteq> b \<Longrightarrow> fr' c i = fr c i"
  shows "stack fr' (fr b 0) bs"
proof (rule stack_agree)
  show "stack fr (fr b 0) bs" using assms(1) by simp
  fix c l i assume "(c, l) \<in> set bs"
  then have "c \<in> pages_of bs" using assms(2) head_in_pages by auto
  moreover have "b \<notin> pages_of bs" using assms(2) block_base by auto
  ultimately show "fr' c i = fr c i" using assms(3) by metis
qed

lemma alloc_more:
  assumes "pa_state s t3 t2 t1 ((b, len) # bs)" "len \<noteq> Page_Small"
  shows "\<exists>s'. (\<forall>nested. physical_alloc_with nested s = Ret (b + (len - Page_Small), s')) \<and>
    pa_state s' t3 t2 t1 ((b, len - Page_Small) # bs) \<and> root s' = root s \<and>
    (\<forall>f i. f \<noteq> b \<longrightarrow> frames s' f i = frames s f i)"
proof -
  note st = pa_stateD [OF assms(1)]
  have blk: "block_ok (b, len)" and pb: "Physical_Page s = b" and len: "frames s b 1 = len"
    using st(3,4) by auto
  note cut = cut_page [OF blk]
  have base: "frame_base b" using block_base [OF blk] by simp
  have b: "b \<notin> {root s, t3, t2, t1}" using st(5) block_base [OF blk] by auto
  let ?s1 = "s\<lparr>pa_lock := held\<rparr>"
  have path1: "pivot_path ?s1 t3 t2 t1" using st(1) by simp
  have ent: "frames ?s1 t1 255 = pivot_entry b" using assms(1) by (simp add: pa_state_def)
  let ?s2 = "write_frame b 1 (len - 0x1000) ?s1"
  have path2: "pivot_path ?s2 t3 t2 t1" using pivot_path_write [OF path1] b by simp
  have ent2: "frames ?s2 t1 255 = pivot_entry b" using ent b by (simp add: frames_write)
  have ne: "len - Page_Small \<noteq> 0" using assms(2) by simp
  have al: "is_aligned len Page_Small" using blk by (simp add: is_aligned_def aligned_iff_dvd block_ok_def)
  let ?p = "b + (len - Page_Small)"
  have p: "?p AND 0xfff = 0" "?p AND 0xffff000000000000 = 0" "?p \<noteq> b"
    using cut(3) ne by (simp_all add: frame_base_def)
  have "physical_alloc_with nested s = Ret (?p, ?s2\<lparr>pa_lock := Lock_Clear\<rparr>)" for nested
    using st(2) al len ne p pb
    by (simp add: physical_alloc_with_def pivot_access [OF path1 ent base]
        pivot_access [OF path2 ent2 base] frames_write physical_alloc_out_def Let_def)
  moreover have "pa_state (?s2\<lparr>pa_lock := Lock_Clear\<rparr>) t3 t2 t1 ((b, len - Page_Small) # bs)"
  proof -
    have "stack (frames ?s2) (frames s b 0) bs"
      by (rule stack_rest [OF st(3,4)]) (simp add: frames_write)
    then show ?thesis
      using path2 ent2 st(4,5) pb cut(5,6) assms(2)
      by (auto simp: pa_state_def frames_write)
  qed
  ultimately show ?thesis
    by (intro exI [of _ "?s2\<lparr>pa_lock := Lock_Clear\<rparr>"]) (simp add: frames_write)
qed


lemma alloc_last:
  assumes "pa_state s t3 t2 t1 ((b, Page_Small) # bs)"
  shows "\<exists>s'. (\<forall>nested. physical_alloc_with nested s = Ret (b, s')) \<and> pa_state s' t3 t2 t1 bs \<and>
    root s' = root s \<and>
    (\<forall>f i. f \<noteq> b \<longrightarrow> \<not> (f = t1 \<and> i = 255) \<longrightarrow> frames s' f i = frames s f i)"
proof -
  note st = pa_stateD [OF assms]
  have blk: "block_ok (b, Page_Small)" and pb: "Physical_Page s = b" and len: "frames s b 1 = 0x1000"
    using st(3,4) by auto
  have base: "frame_base b" "b \<in> pages (b, Page_Small)" using block_base [OF blk] by simp_all
  have b: "b \<notin> {root s, t3, t2, t1}" using st(5) base by auto
  have t1: "t1 \<notin> {root s, t3, t2}" using st(1) by (simp add: pivot_path_def)
  let ?s1 = "s\<lparr>pa_lock := held\<rparr>"
  have path1: "pivot_path ?s1 t3 t2 t1" using st(1) by simp
  have ent: "frames ?s1 t1 255 = pivot_entry b" using assms by (simp add: pa_state_def)
  let ?s2 = "write_frame b 1 0 ?s1"
  have path2: "pivot_path ?s2 t3 t2 t1" using pivot_path_write [OF path1] b by simp
  have ent2: "frames ?s2 t1 255 = pivot_entry b" using ent b by (simp add: frames_write)
  let ?n = "frames s b 0"
  let ?s3 = "write_frame t1 255 free_page_entry ?s2"
  have path3: "pivot_path ?s3 t3 t2 t1" using pivot_path_write [OF path2] t1 by simp
  let ?s4 = "if ?n = invalid_phys_addr then ?s3 else write_frame t1 255 (pivot_entry ?n) ?s3"
  have path4: "pivot_path ?s4 t3 t2 t1" using path3 pivot_path_write [OF path3] t1 by simp
  have map: "map_page nested Kernel_Pivot_Page ?n Memory_Writable ?s3 =
      Ret (Ok, write_frame t1 255 (pivot_entry ?n) ?s3)" for nested
    by (rule map_pivot_eq [OF path3]) (simp add: frames_write)
  have al: "is_aligned 0x1000 0x1000" by (simp add: is_aligned_def)
  have rest: "stack (frames s) ?n bs" using st(3) by simp
  have n: "?n = invalid_phys_addr \<longleftrightarrow> bs = []"
    using stack_invalid [OF rest] st(4) by simp
  have ne: "b \<noteq> ?n"
  proof (cases bs)
    case Nil
    with rest frame_base_valid [OF base(1)] show ?thesis by simp
  next
    case (Cons c cs)
    with rest have "?n \<in> pages_of bs" using st(4) block_base by (cases c) auto
    with st(4) base(2) show ?thesis by auto
  qed
  let ?s' = "?s4\<lparr>Physical_Page := ?n, pa_lock := Lock_Clear\<rparr>"
  have "physical_alloc_with nested s = Ret (b, ?s')" for nested
    using st(2) al len pb ne base(1) b frame_base_valid [OF base(1)]
    by (simp add: physical_alloc_with_def pivot_access [OF path1 ent base(1)]
        pivot_access [OF path2 ent2 base(1)] unmap_pivot_eq [OF path2] map frames_write
        physical_alloc_out_def Let_def frame_base_def)
  moreover have "pa_state ?s' t3 t2 t1 bs"
  proof -
    have t1p: "t1 \<notin> pages_of bs" using st(5) by auto
    have "stack (frames ?s4) ?n bs"
      by (rule stack_rest [OF st(3,4)]) (use t1p in \<open>auto simp: frames_write\<close>)
    moreover have "frames ?s4 t1 255 = (if bs = [] then free_page_entry else pivot_entry ?n)"
      using n by (simp add: frames_write)
    moreover have "bs \<noteq> [] \<Longrightarrow> ?n = fst (hd bs)" using rest by (cases bs) auto
    ultimately show ?thesis
      using path4 st(4,5) by (cases bs) (auto simp: pa_state_def n)
  qed
  moreover have "root ?s' = root s" by simp
  moreover have "frames ?s' f i = frames s f i" if "f \<noteq> b" "\<not> (f = t1 \<and> i = 255)" for f i
    using that by (auto simp: frames_write)
  ultimately show ?thesis by (intro exI [of _ ?s']) blast
qed

lemma alloc_step:
  assumes "pa_state s t3 t2 t1 ((b, len) # bs)"
  shows "\<exists>s'. (\<forall>nested. physical_alloc_with nested s = Ret (b + (len - Page_Small), s')) \<and>
    pa_state s' t3 t2 t1 (take_page ((b, len) # bs)) \<and> root s' = root s \<and>
    (\<forall>f i. f \<noteq> b \<longrightarrow> \<not> (f = t1 \<and> i = 255) \<longrightarrow> frames s' f i = frames s f i)"
proof (cases "len = Page_Small")
  case True
  with alloc_last [of s t3 t2 t1 b bs] assms show ?thesis by auto
next
  case False
  with alloc_more [OF assms False] show ?thesis by auto
qed

lemma alloc_empty:
  assumes "pa_state s t3 t2 t1 []"
  shows "physical_alloc_with nested s = Fault"
proof -
  note st = pa_stateD [OF assms]
  let ?s1 = "s\<lparr>pa_lock := held\<rparr>"
  have "pivot_path ?s1 t3 t2 t1" "\<not> entry_present (frames ?s1 t1 255)"
    using assms by (simp_all add: pa_state_def)
  from pivot_unmapped [OF this] st(2) show ?thesis by (simp add: physical_alloc_with_def Let_def)
qed

lemma take_page_pages:
  assumes "blocks_ok ((b, len) # bs)"
  shows "pages_of (take_page ((b, len) # bs)) = pages_of ((b, len) # bs) - {b + (len - Page_Small)}"
    and "b + (len - Page_Small) \<in> pages_of ((b, len) # bs)" "frame_base (b + (len - Page_Small))"
    and "blocks_ok (take_page ((b, len) # bs))"
proof -
  have blk: "block_ok (b, len)" and dis: "pages (b, len) \<inter> pages_of bs = {}" and ok: "blocks_ok bs"
    using assms by auto
  note cut = cut_page [OF blk]
  show "b + (len - Page_Small) \<in> pages_of ((b, len) # bs)" using cut(4) by simp
  show "frame_base (b + (len - Page_Small))" by (rule cut(3))
  have notin: "b + (len - Page_Small) \<notin> pages_of bs" using cut(4) dis by auto
  show "pages_of (take_page ((b, len) # bs)) = pages_of ((b, len) # bs) - {b + (len - Page_Small)}"
    using cut(6,7) notin by (cases "len = Page_Small") auto
  show "blocks_ok (take_page ((b, len) # bs))"
    using cut(5,6) dis ok by (cases "len = Page_Small") auto
qed

lemma free_step:
  assumes "pa_state s t3 t2 t1 bs" "block_ok (a, len)"
    and "pages (a, len) \<inter> pages_of bs = {}" "pages (a, len) \<inter> {root s, t3, t2, t1} = {}"
  shows "\<exists>s'. physical_free_range a len s = Ret s' \<and> pa_state s' t3 t2 t1 ((a, len) # bs) \<and>
    root s' = root s \<and>
    (\<forall>f i. f \<noteq> a \<longrightarrow> \<not> (f = t1 \<and> i = 255) \<longrightarrow> frames s' f i = frames s f i)"
proof -
  note st = pa_stateD [OF assms(1)]
  have base: "frame_base a" "a \<in> pages (a, len)" using block_base [OF assms(2)] by simp_all
  have a: "a \<notin> {root s, t3, t2, t1}" "a \<notin> pages_of bs" using assms(3,4) base(2) by auto
  have t1: "t1 \<notin> {root s, t3, t2}" using st(1) by (simp add: pivot_path_def)
  let ?s1 = "s\<lparr>pa_lock := held\<rparr>"
  have path1: "pivot_path ?s1 t3 t2 t1" using st(1) by simp
  let ?s2 = "write_frame t1 255 free_page_entry ?s1"
  have path2: "pivot_path ?s2 t3 t2 t1" using pivot_path_write [OF path1] t1 by simp
  let ?s3 = "write_frame t1 255 (pivot_entry a) ?s2"
  have path3: "pivot_path ?s3 t3 t2 t1" using pivot_path_write [OF path2] t1 by simp
  have ent3: "frames ?s3 t1 255 = pivot_entry a" by (simp add: frames_write)
  let ?s4 = "write_frame a 0 (Physical_Page s) ?s3"
  have path4: "pivot_path ?s4 t3 t2 t1" using pivot_path_write [OF path3] a by simp
  have ent4: "frames ?s4 t1 255 = pivot_entry a" using ent3 a by (simp add: frames_write)
  let ?s5 = "write_frame a 1 len ?s4"
  have path5: "pivot_path ?s5 t3 t2 t1" using pivot_path_write [OF path4] a by simp
  have map: "map_page physical_alloc Kernel_Pivot_Page a Memory_Writable ?s2 = Ret (Ok, ?s3)"
    by (rule map_pivot_eq [OF path2]) (simp add: frames_write)
  have sum: "unat (a + len) = unat a + unat len"
    using assms(2) by (simp add: block_ok_def unat_word_ariths)
  have ok: "a AND 0xfff = 0" "len AND 0xfff = 0" "len > 0" "a AND 0xffff000000000000 = 0"
    "(a + len) AND 0xffff000000000000 = 0"
    using assms(2) base(1) sum
    by (simp_all add: frame_base_def aligned_iff_dvd block_ok_def high_bits_iff word_less_nat_alt)
  let ?s' = "?s5\<lparr>Physical_Page := a, pa_lock := Lock_Clear\<rparr>"
  have "physical_free_range a len s = Ret ?s'"
    using st(2) ok
    by (simp add: physical_free_range_def is_aligned_def unmap_pivot_eq [OF path1] map
        pivot_access [OF path3 ent3 base(1)] pivot_access [OF path4 ent4 base(1)] Let_def)
  moreover have "pa_state ?s' t3 t2 t1 ((a, len) # bs)"
  proof -
    have "stack (frames ?s') (Physical_Page s) bs"
      using st(3)
    proof (rule stack_agree)
      fix b l i assume "(b, l) \<in> set bs"
      then have "b \<in> pages_of bs" using st(4) head_in_pages by blast
      with a(2) st(5) show "frames ?s' b i = frames s b i" by (auto simp: frames_write)
    qed
    then show ?thesis
      using path5 st(4,5) assms(2-4) a(1) by (auto simp: pa_state_def frames_write)
  qed
  moreover have "frames ?s' f i = frames s f i" if "f \<noteq> a" "\<not> (f = t1 \<and> i = 255)" for f i
    using that by (auto simp: frames_write)
  ultimately show ?thesis by (intro exI [of _ ?s']) simp
qed


subsection \<open>The allocator as a source of frames\<close>

definition pa_inv :: "('a) mm_scheme \<Rightarrow> bool" where
  "pa_inv s \<longleftrightarrow> (\<exists>t3 t2 t1 bs. pa_state s t3 t2 t1 bs)"

text \<open>The free page frames.\<close>

definition free_frames :: "('a) mm_scheme \<Rightarrow> u64 set" where
  "free_frames s = {p. \<exists>bs. stack (frames s) (Physical_Page s) bs \<and> blocks_ok bs \<and> p \<in> pages_of bs}"

lemma free_frames_eq:
  assumes "pa_state s t3 t2 t1 bs"
  shows "free_frames s = pages_of bs"
proof -
  note st = pa_stateD(3,4) [OF assms]
  have "bs' = bs" if "stack (frames s) (Physical_Page s) bs'" "blocks_ok bs'" for bs'
    using stack_unique [OF that(1) st(1) that(2) st(2)] .
  with st show ?thesis unfolding free_frames_def by blast
qed

lemma finite_pages_of: "finite (pages_of bs)"
  by (rule finite)

interpretation pa: frame_source physical_alloc free_frames pa_inv Kernel_Pivot_Page
proof unfold_locales
  fix s :: "'a mm_scheme"
  assume "pa_inv s" "fractal s" and ne: "free_frames s \<noteq> {}"
  then obtain t3 t2 t1 bs where st: "pa_state s t3 t2 t1 bs" by (auto simp: pa_inv_def)
  with ne have "bs \<noteq> []" by (auto simp: free_frames_eq)
  then obtain b len cs where bs: "bs = (b, len) # cs" by (cases bs) auto
  from alloc_step [of s t3 t2 t1 b len cs] st bs obtain s' where
    s': "physical_alloc s = Ret (b + (len - Page_Small), s')" "pa_state s' t3 t2 t1 (take_page bs)"
      "root s' = root s"
    and keep: "\<And>f i. f \<noteq> b \<Longrightarrow> \<not> (f = t1 \<and> i = 255) \<Longrightarrow> frames s' f i = frames s f i"
    by (auto simp: physical_alloc_def)
  have ok: "blocks_ok ((b, len) # cs)" using pa_stateD(4) [OF st] bs by simp
  note tp = take_page_pages [OF ok]
  have "b \<in> free_frames s" using st bs ok block_base by (auto simp: free_frames_eq)
  moreover have tab: "tab s (path1 Kernel_Pivot_Page) = Some t1"
    using pa_stateD(1) [OF st] by (simp add: pivot_path_def)
  ultimately have rest: "frames s' f i = frames s f i" if "f \<notin> free_frames s"
    "\<not> (tab s (path1 Kernel_Pivot_Page) = Some f \<and> i = pl1_index Kernel_Pivot_Page)" for f i
    using that by (intro keep) auto
  have free: "free_frames s' = free_frames s - {b + (len - Page_Small)}"
    "b + (len - Page_Small) \<in> free_frames s"
    using tp(1,2) bs by (simp_all only: free_frames_eq [OF st] free_frames_eq [OF s'(2)])
  show "\<exists>p s'. physical_alloc s = Ret (p, s') \<and> p \<in> free_frames s \<and>
      free_frames s' = free_frames s - {p} \<and> pa_inv s' \<and> root s' = root s \<and>
      p AND NOT Phys_Addr_Mask = 0 \<and>
      (\<forall>f i. f \<notin> free_frames s \<longrightarrow>
         \<not> (tab s (path1 Kernel_Pivot_Page) = Some f \<and> i = pl1_index Kernel_Pivot_Page) \<longrightarrow>
         frames s' f i = frames s f i)"
    using s' free rest frame_base_mask(1) [OF tp(3)] unfolding pa_inv_def by blast
next
  fix s :: "'a mm_scheme" and fr
  assume "pa_inv s"
    and own: "\<And>f. f \<in> free_frames s \<Longrightarrow> fr f = frames s f"
    and path: "\<And>f i. on_path s Kernel_Pivot_Page f i \<Longrightarrow> fr f i = frames s f i"
    and fractal: "fr (root s) 256 = frames s (root s) 256"
  then obtain t3 t2 t1 bs where st: "pa_state s t3 t2 t1 bs" by (auto simp: pa_inv_def)
  let ?s = "s\<lparr>frames := fr\<rparr>"
  have t: "tab s [511] = Some t3" "tab s [511, 510] = Some t2" "tab s [511, 510, 0] = Some t1"
    "fractal s" "t1 \<notin> {root s, t3, t2}"
    using pa_stateD(1) [OF st] by (simp_all add: pivot_path_def)
  have e: "fr (root s) 511 = frames s (root s) 511" "fr t3 510 = frames s t3 510"
    "fr t2 0 = frames s t2 0" "fr t1 255 = frames s t1 255"
    using path t by (auto simp: on_path_def)
  have root: "root ?s = root s" by (simp add: root_def)
  have 1: "tab ?s [511] = Some t3"
    using tab_snoc [of ?s "[]" 511] tab_snoc [of s "[]" 511] t(1) e(1) root
    by (simp add: table_step_present)
  have 2: "tab ?s [511, 510] = Some t2"
    using tab_snoc [of ?s "[511]" 510] tab_snoc [of s "[511]" 510] t(1,2) 1 e(2)
    by (simp add: table_step_present)
  have 3: "tab ?s [511, 510, 0] = Some t1"
    using tab_snoc [of ?s "[511, 510]" 0] tab_snoc [of s "[511, 510]" 0] t(2,3) 2 e(3)
    by (simp add: table_step_present)
  have "fractal ?s"
    using t(4) fractal root
    by (simp add: fractal_def Kernel_Fractal_Page_Table_Index_def table_step_present split: if_splits)
  with 1 2 3 t(5) root have "pivot_path ?s t3 t2 t1" by (simp add: pivot_path_def)
  moreover have "stack fr (Physical_Page s) bs"
    using pa_stateD(3) [OF st] by (rule stack_agree)
      (use own st head_in_pages pa_stateD(4) [OF st] in \<open>auto simp: free_frames_eq\<close>)
  ultimately have "pa_state ?s t3 t2 t1 bs"
    using st e(4) root by (cases bs) (simp_all add: pa_state_def)
  then show "pa_inv ?s \<and> free_frames ?s = free_frames s"
    using st by (auto simp: pa_inv_def free_frames_eq)
next
  fix s :: "'a mm_scheme"
  assume "pa_inv s"
  then show "tab s (path1 Kernel_Pivot_Page) \<noteq> None"
    by (auto simp: pa_inv_def dest!: pa_stateD(1) simp: pivot_path_def)
qed simp_all


text \<open>The memory of the whole machine is in order: the allocator's invariant, the fractal slot, page
  tables that form a tree, and no free frame in use as a table.\<close>

definition mm_sane :: "('a) mm_scheme \<Rightarrow> bool" where
  "mm_sane s \<longleftrightarrow> pa_inv s \<and> fractal s \<and> tree s \<and> free_frames s \<inter> tables s = {}"

lemma mm_sane_iff: "mm_sane s \<longleftrightarrow> pa.sane s"
  by (simp add: mm_sane_def pa.sane_def)

lemma nested_irrelevant:
  assumes "pa_inv s"
  shows "physical_alloc_with n s = physical_alloc_with n' s"
proof -
  from assms obtain t3 t2 t1 bs where st: "pa_state s t3 t2 t1 bs" by (auto simp: pa_inv_def)
  show ?thesis
  proof (cases bs)
    case Nil
    with st show ?thesis using alloc_empty [of s t3 t2 t1] by simp
  next
    case (Cons blk cs)
    obtain b len where "blk = (b, len)" by fastforce
    with Cons st have "pa_state s t3 t2 t1 ((b, len) # cs)" by simp
    from alloc_step [OF this] show ?thesis by metis
  qed
qed

text \<open>The recursion through \<open>map_page\<close> is harmless: in a state where the allocator's
  invariant holds, what a nested \<open>physical_alloc\<close> would do makes no difference, since the
  tables of the pivot page are in place; and a call made while the lock is held never returns.\<close>

theorem nested_alloc_hangs:
  assumes "pa_inv s"
  shows "physical_alloc s = physical_alloc_with nested s \<and>
    (\<forall>n l. readers l = 0 \<longrightarrow> writer l \<longrightarrow> physical_alloc_with n (s\<lparr>pa_lock := l\<rparr>) = Hang)"
  unfolding physical_alloc_def using nested_irrelevant [OF assms] by (simp add: physical_alloc_with_def)

text \<open>(C4) As long as a frame is free, \<open>physical_alloc\<close> returns one: page aligned, below
  \<open>2\<^sup>4\<^sup>8\<close>, free before and not free after, so never handed out twice. Every other free frame stays
  free, and no memory changes but that of free frames and the pivot page's entry.\<close>

theorem physical_alloc_fresh:
  assumes "pa_inv s" "free_frames s \<noteq> {}"
  shows "\<exists>p s'. physical_alloc s = Ret (p, s') \<and> p \<in> free_frames s \<and>
    free_frames s' = free_frames s - {p} \<and> frame_base p \<and> pa_inv s' \<and> root s' = root s \<and>
    (\<forall>f i. f \<notin> free_frames s \<longrightarrow> \<not> (tab s (path1 Kernel_Pivot_Page) = Some f \<and> i = 255) \<longrightarrow>
       frames s' f i = frames s f i)"
proof -
  from assms(1) obtain t3 t2 t1 bs where st: "pa_state s t3 t2 t1 bs" by (auto simp: pa_inv_def)
  then have "fractal s" using pa_stateD(1) [OF st] by (simp add: pivot_path_def)
  moreover have "frame_base p" if "p \<in> free_frames s" for p
    using that pages_of_frame [OF pa_stateD(4) [OF st]] by (simp add: free_frames_eq [OF st])
  ultimately show ?thesis using pa.alloc [OF assms(1) _ assms(2)] by (metis pivot_indices(4))
qed

text \<open>When no frame is free, \<open>physical_alloc\<close> does not return \<open>invalid_phys_addr\<close>, as its
  callers expect: it reads the stack through the pivot page, which is not mapped, and faults.\<close>

theorem physical_alloc_exhausted:
  assumes "pa_inv s" "free_frames s = {}"
  shows "physical_alloc s = Fault"
proof -
  from assms(1) obtain t3 t2 t1 bs where st: "pa_state s t3 t2 t1 bs" by (auto simp: pa_inv_def)
  with assms(2) have "bs = []"
    using block_base pa_stateD(4) [OF st] by (cases bs) (auto simp: free_frames_eq)
  with alloc_empty st show ?thesis by (simp add: physical_alloc_def)
qed

text \<open>A frame that is not free and not one of the tables of the pivot page can be freed, and
  the next allocation gives it back: the set of free frames is then what it was.\<close>

theorem physical_free_alloc_roundtrip:
  assumes "pa_inv s" "frame_base p" "p \<notin> free_frames s" "unat p + 4096 < 2 ^ 48"
    and "p \<noteq> root s" "\<forall>r \<in> {[511], [511, 510], [511, 510, 0]}. tab s r \<noteq> Some p"
  shows "\<exists>s1 s2. physical_free p s = Ret s1 \<and> free_frames s1 = insert p (free_frames s) \<and>
    physical_alloc s1 = Ret (p, s2) \<and> free_frames s2 = free_frames s \<and> pa_inv s1 \<and> pa_inv s2"
proof -
  from assms(1) obtain t3 t2 t1 bs where st: "pa_state s t3 t2 t1 bs" by (auto simp: pa_inv_def)
  have blk: "block_ok (p, Page_Small)" using assms(2,4) by (simp add: block_ok_def frame_base_iff)
  have pg: "pages (p, Page_Small) = {p}" using cut_page(7) [OF blk] by simp
  have "p \<notin> {root s, t3, t2, t1}" using assms(5,6) pa_stateD(1) [OF st] by (auto simp: pivot_path_def)
  with free_step [OF st blk] pg assms(3) obtain s1 where
    s1: "physical_free_range p Page_Small s = Ret s1" "pa_state s1 t3 t2 t1 ((p, Page_Small) # bs)"
    by (auto simp: free_frames_eq [OF st])
  from alloc_last [OF s1(2)] obtain s2 where
    s2: "\<And>nested. physical_alloc_with nested s1 = Ret (p, s2)" "pa_state s2 t3 t2 t1 bs" by blast
  show ?thesis
    using s1 s2 pg free_frames_eq [OF st] free_frames_eq [OF s1(2)] free_frames_eq [OF s2(2)]
    by (intro exI [of _ s1] exI [of _ s2]) (auto simp: physical_free_def physical_alloc_def pa_inv_def)
qed

text \<open>(C3) \<open>map_page\<close> with three frames free always returns. An address that was not mapped is
  then mapped to the frame with exactly the permissions asked for, one that was mapped is
  reported as present and left alone; every other mapping stays, the pivot page's apart, and
  the machine's memory is still in order.\<close>

theorem map_page_maps:
  assumes "mm_sane s" "own_half va" "page_path va \<noteq> page_path Kernel_Pivot_Page"
    and "3 \<le> card (free_frames s)" "\<not> bad_permissions va perms"
  shows "\<exists>st s'. map_page physical_alloc va phys perms s = Ret (st, s') \<and> mm_sane s' \<and>
    (if pte s va = None
     then st = Ok \<and> pte s' va = Some ((phys AND NOT Memory_Permissions_Mask) OR perms OR Memory_Present)
     else st = Error_Present \<and> pte s' va = pte s va) \<and>
    (\<forall>va'. own_half va' \<longrightarrow> page_path va' \<noteq> page_path va \<longrightarrow>
       page_path va' \<noteq> page_path Kernel_Pivot_Page \<longrightarrow> pte s' va' = pte s va')"
  using pa.map_page_ok assms unfolding mm_sane_iff by blast

lemma page_remove_loop_walk:
  assumes "pivot_path s t3 t2 t1" "stack (frames s) p bs" "blocks_ok bs" "t1 \<notin> pages_of bs"
    and "length bs < n"
  shows "if address \<in> set (map fst (tl bs))
    then page_remove_loop n address p st s = Fault
    else address \<noteq> invalid_phys_addr \<longrightarrow> (\<exists>e. page_remove_loop n address p st s =
      Ret (if bs = [] then st else Ok, if bs = [] then s else write_frame t1 255 e s))"
  using assms
proof (induction n arbitrary: s p bs st)
  case (Suc n)
  show ?case
  proof (cases bs)
    case Nil
    with Suc.prems show ?thesis by simp
  next
    case (Cons blk cs)
    then obtain len where bs: "bs = (p, len) # cs" using Suc.prems(2) by (cases blk) auto
    have blk: "block_ok (p, len)" using Suc.prems(3) bs by simp
    have base: "frame_base p" "p \<in> pages (p, len)" using block_base [OF blk] by simp_all
    have valid: "p \<noteq> invalid_phys_addr" using frame_base_valid base(1) by blast
    have t1: "t1 \<notin> {root s, t3, t2}" using Suc.prems(1) by (simp add: pivot_path_def)
    have pt1: "p \<noteq> t1" using base(2) Suc.prems(4) bs by auto
    let ?s1 = "write_frame t1 255 (pivot_entry p) s"
    have path1: "pivot_path ?s1 t3 t2 t1" using pivot_path_write [OF Suc.prems(1) t1] .
    have ent1: "frames ?s1 t1 255 = pivot_entry p" by (simp add: frames_write)
    have next1: "load ?s1 stack_next = Ret (frames s p 0)"
      using pivot_access(1) [OF path1 ent1 base(1)] pt1 by (simp add: frames_write)
    have rest: "stack (frames ?s1) (frames s p 0) cs"
      by (rule stack_rest [OF Suc.prems(2) [unfolded bs] Suc.prems(3) [unfolded bs]])
        (use Suc.prems(4) bs in \<open>auto simp: frames_write\<close>)
    note step = Suc.IH [OF path1 rest, of Ok]
    have inv: "frames s p 0 = invalid_phys_addr \<longleftrightarrow> cs = []"
      using stack_invalid [OF rest] Suc.prems(3) bs by simp
    have heads: "cs \<noteq> [] \<Longrightarrow> frames s p 0 = fst (hd cs)" using rest by (cases cs) auto
    let ?s2 = "write_frame t1 255 free_page_entry ?s1"
    have "pivot_path ?s2 t3 t2 t1" using pivot_path_write [OF path1] t1 by simp
    then have fault: "load ?s2 stack_next = Fault"
      by (rule pivot_unmapped) (simp add: frames_write)
    show ?thesis
    proof (cases "frames s p 0 = address")
      case True
      then have "page_remove_loop (Suc n) address p st s = Fault"
        using valid next1 fault by (simp add: remap_pivot_eq [OF Suc.prems(1)] unmap_pivot_eq [OF path1])
      moreover have "address = invalid_phys_addr \<or> address \<in> set (map fst cs)"
        using True inv heads by (cases cs) auto
      ultimately show ?thesis using bs by auto
    next
      case False
      then have loop: "page_remove_loop (Suc n) address p st s =
          page_remove_loop n address (frames s p 0) Ok ?s1"
        using valid next1 by (simp add: remap_pivot_eq [OF Suc.prems(1)])
      have "address \<in> set (map fst cs) \<longleftrightarrow> address \<in> set (map fst (tl cs))"
        using False heads by (cases cs) auto
      with step Suc.prems(3-5) bs loop show ?thesis
        by (auto simp: write_frame_def split: if_splits)
    qed
  qed
qed simp

text \<open>\<open>physical_page_remove\<close> removes nothing. If the address is that of a block below the
  top of the stack, it unmaps the pivot page and then reads through it; for any other address
  it walks the whole stack, leaves it as it was and reports \<open>Ok\<close>, absent or not.\<close>

theorem physical_page_remove_removes_nothing:
  assumes "pa_state s t3 t2 t1 bs" "frame_base a" "bs \<noteq> []" "length bs < n"
  shows "if a \<in> set (map fst (tl bs)) then physical_page_remove n a s = Fault
    else \<exists>s'. physical_page_remove n a s = Ret (Ok, s') \<and> pa_state s' t3 t2 t1 bs"
proof -
  note st = pa_stateD [OF assms(1)]
  let ?s1 = "s\<lparr>pa_lock := held\<rparr>"
  have al: "is_aligned a 0x1000" using assms(2) by (simp add: is_aligned_def frame_base_def)
  have path: "pivot_path ?s1 t3 t2 t1" using st(1) by simp
  have t1: "t1 \<notin> pages_of bs" "t1 \<notin> {root s, t3, t2}"
    using st(1,5) by (auto simp: pivot_path_def)
  have walk: "if a \<in> set (map fst (tl bs))
    then page_remove_loop n a (Physical_Page s) Error_Absent ?s1 = Fault
    else a \<noteq> invalid_phys_addr \<longrightarrow> (\<exists>e. page_remove_loop n a (Physical_Page s) Error_Absent ?s1 =
      Ret (if bs = [] then Error_Absent else Ok, if bs = [] then ?s1 else write_frame t1 255 e ?s1))"
    by (rule page_remove_loop_walk [OF path _ st(4) t1(1) assms(4)]) (simp add: st(3))
  show ?thesis
  proof (cases "a \<in> set (map fst (tl bs))")
    case True
    with walk st(2) al show ?thesis by (simp add: physical_page_remove_def Let_def)
  next
    case False
    with walk frame_base_valid [OF assms(2)] assms(3) obtain e where
      loop: "page_remove_loop n a (Physical_Page s) Error_Absent ?s1 = Ret (Ok, write_frame t1 255 e ?s1)"
      by auto
    let ?s2 = "write_frame t1 255 e ?s1"
    have path2: "pivot_path ?s2 t3 t2 t1" using pivot_path_write [OF path] t1(2) by simp
    let ?s' = "(write_frame t1 255 (pivot_entry (Physical_Page s)) ?s2)\<lparr>pa_lock := Lock_Clear\<rparr>"
    have "physical_page_remove n a s = Ret (Ok, ?s')"
      using loop st(2) al
      by (simp add: physical_page_remove_def Let_def remap_pivot_eq [OF path2])
    moreover have "pa_state ?s' t3 t2 t1 bs"
    proof -
      have "stack (frames ?s') (Physical_Page s) bs"
        using st(3)
      proof (rule stack_agree)
        fix b l i assume "(b, l) \<in> set bs"
        then have "b \<in> pages_of bs" using st(4) head_in_pages by blast
        with t1(1) show "frames ?s' b i = frames s b i" by (auto simp: frames_write)
      qed
      moreover have "pivot_path ?s' t3 t2 t1" using pivot_path_write [OF path2] t1(2) by simp
      moreover obtain len cs where "bs = (Physical_Page s, len) # cs"
        using st(3) assms(3) by (cases bs) auto
      ultimately show ?thesis using st(4,5) by (auto simp: pa_state_def frames_write)
    qed
    ultimately show ?thesis using False by auto
  qed
qed


subsection \<open>A concrete machine\<close>

text \<open>A top table at \<open>0x1000\<close> with the fractal slot, the three tables of the pivot page behind
  it, and two free blocks: sixteen pages at \<open>0x100000\<close> and one at \<open>0x200000\<close>.\<close>

definition demo_frames :: "u64 \<Rightarrow> u64 \<Rightarrow> u64" where
  "demo_frames f i =
     (if f = 0x1000 then (if i = 256 then 0x1003 else if i = 511 then 0x2003 else 0)
      else if f = 0x2000 then (if i = 510 then 0x3003 else 0)
      else if f = 0x3000 then (if i = 0 then 0x4003 else 0)
      else if f = 0x4000 then (if i = 255 then pivot_entry 0x100000 else 0)
      else if f = 0x100000 then (if i = 0 then 0x200000 else if i = 1 then 0x10000 else 0)
      else if f = 0x200000 then (if i = 0 then 0xfff else if i = 1 then 0x1000 else 0)
      else 0)"

definition demo_mm :: mm where
  "demo_mm = \<lparr>frames = demo_frames, cr3 = 0x1000, pa_lock = Lock_Clear, Physical_Page = 0x100000\<rparr>"

definition empty_mm :: mm where
  "empty_mm = demo_mm\<lparr>frames := demo_frames(0x4000 := (\<lambda>_. 0)), Physical_Page := 0xfff\<rparr>"

definition demo_blocks :: "(phys_addr \<times> u64) list" where
  "demo_blocks = [(0x100000, 0x10000), (0x200000, 0x1000)]"

lemma demo_root: "root demo_mm = 0x1000" "root empty_mm = 0x1000"
  by (simp_all add: root_def demo_mm_def empty_mm_def page_entry_to_phys_def Phys_Addr_Mask_def)

lemma demo_steps:
  "table_step demo_mm 0x1000 i = (if i = 256 then Some 0x1000 else if i = 511 then Some 0x2000 else None)"
  "table_step demo_mm 0x2000 i = (if i = 510 then Some 0x3000 else None)"
  "table_step demo_mm 0x3000 i = (if i = 0 then Some 0x4000 else None)"
  "table_step empty_mm 0x1000 i = (if i = 256 then Some 0x1000 else if i = 511 then Some 0x2000 else None)"
  "table_step empty_mm 0x2000 i = (if i = 510 then Some 0x3000 else None)"
  "table_step empty_mm 0x3000 i = (if i = 0 then Some 0x4000 else None)"
  by (simp_all add: table_step_present demo_mm_def empty_mm_def demo_frames_def entry_present_bit
      page_entry_to_phys_def Phys_Addr_Mask_def)

lemma demo_pivot_path: "pivot_path demo_mm 0x2000 0x3000 0x4000"
  "pivot_path empty_mm 0x2000 0x3000 0x4000"
  by (simp_all add: pivot_path_def fractal_def Kernel_Fractal_Page_Table_Index_def tab_def demo_root
      demo_steps)

lemma demo_pages: "pages (0x200000, 0x1000) = {0x200000}"
  "p \<in> pages (0x100000, 0x10000) \<longleftrightarrow> 4096 dvd unat p \<and> 0x100000 \<le> unat p \<and> unat p < 0x110000"
proof -
  have "block_ok (0x200000, Page_Small)" by (simp add: block_ok_def)
  from cut_page(7) [OF this] show "pages (0x200000, 0x1000) = {0x200000}" by simp
  show "p \<in> pages (0x100000, 0x10000) \<longleftrightarrow> 4096 dvd unat p \<and> 0x100000 \<le> unat p \<and> unat p < 0x110000"
    by (simp add: pages_def word_le_nat_alt)
qed

lemma demo_pa_state: "pa_state demo_mm 0x2000 0x3000 0x4000 demo_blocks"
  "pa_state empty_mm 0x2000 0x3000 0x4000 []"
proof -
  have "stack demo_frames 0x100000 demo_blocks"
    by (simp add: demo_blocks_def demo_frames_def invalid_phys_addr_def)
  moreover have "blocks_ok demo_blocks"
    by (auto simp: demo_blocks_def block_ok_def demo_pages)
  ultimately show "pa_state demo_mm 0x2000 0x3000 0x4000 demo_blocks"
    using demo_pivot_path(1)
    by (simp add: pa_state_def demo_root) (simp add: demo_mm_def demo_blocks_def demo_frames_def demo_pages)
  show "pa_state empty_mm 0x2000 0x3000 0x4000 []"
    using demo_pivot_path(2)
    by (simp add: pa_state_def demo_root) (simp add: empty_mm_def demo_mm_def invalid_phys_addr_def)
qed

lemma demo_free: "free_frames demo_mm = pages_of demo_blocks" "free_frames empty_mm = {}"
  using free_frames_eq [OF demo_pa_state(1)] free_frames_eq [OF demo_pa_state(2)] by simp_all

lemma demo_in_free: "{0x100000, 0x101000, 0x102000} \<subseteq> free_frames demo_mm"
  by (simp add: demo_free demo_blocks_def demo_pages)

lemma demo_inv: "pa_inv demo_mm" "pa_inv empty_mm"
  using demo_pa_state by (auto simp: pa_inv_def)

lemma demo_tab:
  assumes "good_path p"
  shows "tab demo_mm p = (if p = [] then Some 0x1000 else if p = [511] then Some 0x2000
    else if p = [511, 510] then Some 0x3000 else if p = [511, 510, 0] then Some 0x4000 else None)"
proof -
  consider "p = []" | a where "p = [a]" | a b where "p = [a, b]" | a b c where "p = [a, b, c]"
  proof (cases p)
    case (Cons a q)
    note 1 = that(2-4) and p = this
    show thesis
    proof (cases q)
      case (Cons b r)
      with p 1 assms show thesis by (cases r; cases "tl r") (auto simp: good_path_def)
    qed (use p 1 in blast)
  qed (use that(1) in blast)
  then show ?thesis
    using assms by cases (auto simp: tab_def demo_root demo_steps good_path_def)
qed

lemma demo_sane: "mm_sane demo_mm"
proof -
  have "fractal demo_mm" using demo_pivot_path(1) by (simp add: pivot_path_def)
  moreover have "tree demo_mm"
    unfolding tree_def using demo_tab by (auto split: if_splits)
  moreover have "tables demo_mm \<subseteq> {0x1000, 0x2000, 0x3000, 0x4000}"
    unfolding tables_def using demo_tab by (auto split: if_splits)
  moreover have "free_frames demo_mm \<inter> {0x1000, 0x2000, 0x3000, 0x4000} = {}"
    by (auto simp: demo_free demo_blocks_def demo_pages)
  ultimately show ?thesis using demo_inv(1) unfolding mm_sane_def by blast
qed

theorem nested_alloc_hangs_witness:
  "physical_alloc demo_mm = physical_alloc_with (\<lambda>_. Fault) demo_mm \<and>
   physical_alloc_with (\<lambda>_. Fault) (demo_mm\<lparr>pa_lock := held\<rparr>) = Hang"
  using nested_alloc_hangs [OF demo_inv(1)] by (simp add: held_def)

theorem physical_alloc_fresh_witness:
  "\<exists>p s'. physical_alloc demo_mm = Ret (p, s') \<and> p \<in> free_frames demo_mm \<and> p \<notin> free_frames s'"
  using physical_alloc_fresh [OF demo_inv(1)] demo_in_free by blast

theorem physical_alloc_exhausted_witness: "physical_alloc empty_mm = Fault"
  by (rule physical_alloc_exhausted [OF demo_inv(2) demo_free(2)])

theorem physical_free_alloc_roundtrip_witness:
  "\<exists>s1 s2. physical_free 0x300000 demo_mm = Ret s1 \<and> physical_alloc s1 = Ret (0x300000, s2) \<and>
     free_frames s2 = free_frames demo_mm"
proof -
  have "0x300000 \<notin> free_frames demo_mm" by (simp add: demo_free demo_blocks_def demo_pages)
  moreover have "\<forall>r \<in> {[511], [511, 510], [511, 510, 0]}. tab demo_mm r \<noteq> Some 0x300000"
    using demo_pivot_path(1) by (simp add: pivot_path_def)
  moreover have "frame_base 0x300000" by (simp add: frame_base_def)
  ultimately show ?thesis
    using physical_free_alloc_roundtrip [OF demo_inv(1), of "0x300000"] by (auto simp: demo_root)
qed

theorem map_page_maps_witness:
  "\<exists>s'. map_page physical_alloc 0x400000 0x300000 Memory_Writable demo_mm = Ret (Ok, s') \<and>
     walk s' 0x400000 = Some 0x300000"
proof -
  let ?va = "0x400000 :: u64"
  have half: "own_half ?va" by (simp add: own_half_def pl4_index_def)
  have "pl4_index ?va = 0" by (simp add: pl4_index_def)
  then have other: "page_path ?va \<noteq> page_path Kernel_Pivot_Page" by (simp add: page_path_def)
  have "card {0x100000, 0x101000, 0x102000 :: u64} \<le> card (free_frames demo_mm)"
    using demo_in_free by (intro card_mono) simp_all
  then have three: "3 \<le> card (free_frames demo_mm)" by simp
  have perms: "\<not> bad_permissions ?va Memory_Writable"
    by (simp add: bad_permissions_def Memory_Writable_def Memory_No_Execute_def Memory_User_Access_def)
  have "tab demo_mm (path1 ?va) = None"
    using demo_tab [OF good_path_va(4) [OF half]] by (simp add: pl4_index_def)
  then have none: "pte demo_mm ?va = None" by (simp add: pte_def entry_def)
  from map_page_maps [OF demo_sane half other three perms, of "0x300000"] none obtain s' where
    "map_page physical_alloc ?va 0x300000 Memory_Writable demo_mm = Ret (Ok, s')"
    "pte s' ?va = Some (pivot_entry 0x300000)" by (auto simp: pivot_entry_def)
  moreover have "page_entry_to_phys (pivot_entry 0x300000) = 0x300000"
    by (rule pivot_entry) (simp add: frame_base_def)
  ultimately show ?thesis by (auto simp: walk_pte)
qed

theorem physical_page_remove_removes_nothing_witness:
  "physical_page_remove 3 0x200000 demo_mm = Fault \<and>
   (\<exists>s'. physical_page_remove 3 0x300000 demo_mm = Ret (Ok, s'))"
  using physical_page_remove_removes_nothing [OF demo_pa_state(1), of "0x200000" 3]
    physical_page_remove_removes_nothing [OF demo_pa_state(1), of "0x300000" 3]
  by (auto simp: demo_blocks_def frame_base_def)

theorem virt_to_phys_walk_witness: "virt_to_phys demo_mm Kernel_Pivot_Page = Ret 0x100000"
proof -
  have pte: "pte demo_mm Kernel_Pivot_Page = Some (pivot_entry 0x100000)"
    using pivot_pte [OF demo_pivot_path(1)] pivot_entry(2) [of "0x100000"]
    by (simp add: demo_mm_def demo_frames_def frame_base_def)
  have "fractal demo_mm" using demo_pivot_path(1) by (simp add: pivot_path_def)
  then have "virt_to_phys demo_mm Kernel_Pivot_Page =
      (case walk demo_mm Kernel_Pivot_Page of None \<Rightarrow> Panic | Some f \<Rightarrow> Ret f)"
    by (rule virt_to_phys_walk)
      (simp add: pte pivot_entry_def Memory_Permissions_Mask_def Memory_Writable_def
        Memory_No_Execute_def Memory_Present_def)
  then show ?thesis
    using pivot_entry(1) [of "0x100000"] by (simp add: walk_pte pte frame_base_def)
qed

theorem map_update_page_correct_witness:
  "\<exists>s'. map_update_page Kernel_Pivot_Page Memory_No_Attributes demo_mm = Ret (Ok, s') \<and>
     pte s' Kernel_Pivot_Page = Some 0x100001"
proof -
  have pte: "pte demo_mm Kernel_Pivot_Page = Some (pivot_entry 0x100000)"
    using pivot_pte [OF demo_pivot_path(1)] pivot_entry(2) [of "0x100000"]
    by (simp add: demo_mm_def demo_frames_def frame_base_def)
  have "fractal demo_mm" "tree demo_mm" using demo_sane by (simp_all add: mm_sane_def)
  from map_update_page_correct [OF this pivot_own_half, of Memory_No_Attributes] pte
  show ?thesis
    by (auto simp: bad_permissions_def Memory_No_Attributes_def pivot_entry_def Memory_Present_def
        Memory_Permissions_Mask_def Memory_Writable_def Memory_No_Execute_def)
qed

end
