(* ===== verification/Slab.thy ===== *)
theory Slab
  imports Physical_Allocator Region_Vector
begin

text \<open>
  \<open>kernel/core/slab.c\<close>: page granular allocation of kernel virtual memory. The state extends
  that of the physical allocator with the vector of free address ranges, its lock and the
  \<open>Usage\<close> counter. \<open>region_free\<close> may call back \<open>slab_alloc_locked\<close> for a page of its own; the
  call the other way, in \<open>slab_alloc_helper\<close>, stands behind a failed assertion.
\<close>

record slab_mm = mm +
  slab_higher_half_lock :: lock
  slab_higher_half :: rvector
  Usage :: u64

definition slab_get_usage :: "('a) slab_mm_scheme \<Rightarrow> u64" where
  "slab_get_usage s = Usage s"

text \<open>A region vector inside a state: how to read and how to replace it.\<close>

type_synonym 's vect_get = "'s \<Rightarrow> rvector"
type_synonym 's vect_put = "rvector \<Rightarrow> 's \<Rightarrow> 's"

definition put_slab :: "(('a) slab_mm_scheme) vect_put" where
  "put_slab v s = s\<lparr>slab_higher_half := v\<rparr>"

subsection \<open>Allocation\<close>

text \<open>The loop of \<open>slab_alloc_helper\<close>: \<open>i\<close> pages are mapped, \<open>n\<close> are left; the result is the last
  frame. Both failure branches assert.\<close>

primrec slab_alloc_pages ::
    "nat \<Rightarrow> nat \<Rightarrow> u64 \<Rightarrow> u64 \<Rightarrow> u64 \<Rightarrow> phys_addr \<Rightarrow> ('a) mm_scheme \<Rightarrow> (phys_addr \<times> ('a) mm_scheme) res" where
  "slab_alloc_pages 0 i virt next_virt attrs phys s = Ret (phys, s)"
| "slab_alloc_pages (Suc n) i virt next_virt attrs phys s =
     res_bind (physical_alloc s) (\<lambda>(phys_address, s1).
     res_bind (kassert (phys_address \<noteq> invalid_phys_addr)) (\<lambda>_.
     res_bind (map_page physical_alloc next_virt phys_address attrs s1) (\<lambda>(st, s2).
     if st \<noteq> Ok then
       res_bind (unmap_range physical_free virt i True s2) (\<lambda>_. Panic)
     else
       slab_alloc_pages n (Suc i) virt (next_virt + Page_Small) attrs phys_address s2)))"

definition slab_alloc_helper ::
    "(('a) slab_mm_scheme) vect_get \<Rightarrow> (('a) slab_mm_scheme) vect_put \<Rightarrow> u64 \<Rightarrow> u64 \<Rightarrow>
     ('a) slab_mm_scheme \<Rightarrow> ((u64 \<times> phys_addr) \<times> ('a) slab_mm_scheme) res" where
  "slab_alloc_helper get put bytes attrs s =
     (if get s = [] then Panic
      else if \<not> is_aligned bytes Page_Small then Ret ((0, 0), s)
      else
        res_bind (region_alloc (get s) bytes) (\<lambda>r.
        case r of Inl _ \<Rightarrow> Ret ((0, 0), s)
        | Inr (virt, v) \<Rightarrow>
            res_bind (slab_alloc_pages (unat (bytes div Page_Small)) 0 virt virt attrs 0 (put v s))
              (\<lambda>(phys, s1). Ret ((virt, phys), s1\<lparr>Usage := Usage s1 - bytes\<rparr>))))"

definition slab_alloc_locked :: "(('a) slab_mm_scheme) slab_alloc_f" where
  "slab_alloc_locked bytes attrs s =
     res_bind (kassert (attrs AND Memory_User_Access = 0)) (\<lambda>_.
     res_bind (slab_alloc_helper slab_higher_half put_slab bytes attrs s) (\<lambda>((virt, _), s1).
     Ret (virt, s1)))"

text \<open>The calls that take the lock around a body.\<close>

definition with_slab_lock ::
    "(('a) slab_mm_scheme \<Rightarrow> ('b \<times> ('a) slab_mm_scheme) res) \<Rightarrow> ('a) slab_mm_scheme
      \<Rightarrow> ('b \<times> ('a) slab_mm_scheme) res" where
  "with_slab_lock body s =
     res_bind (lock_acquire_writer (slab_higher_half_lock s)) (\<lambda>l.
     res_bind (body (s\<lparr>slab_higher_half_lock := l\<rparr>)) (\<lambda>(x, s1).
     res_bind (lock_release_writer (slab_higher_half_lock s1)) (\<lambda>l1.
     Ret (x, s1\<lparr>slab_higher_half_lock := l1\<rparr>))))"

definition slab_alloc :: "(('a) slab_mm_scheme) slab_alloc_f" where
  "slab_alloc bytes attrs s =
     res_bind (kassert (attrs AND Memory_User_Access = 0)) (\<lambda>_.
     with_slab_lock (\<lambda>s1.
       res_bind (slab_alloc_helper slab_higher_half put_slab bytes attrs s1) (\<lambda>((virt, _), s2).
       Ret (virt, s2))) s)"

definition slab_alloc_phys ::
    "u64 \<Rightarrow> ('a) slab_mm_scheme \<Rightarrow> ((u64 \<times> phys_addr) \<times> ('a) slab_mm_scheme) res" where
  "slab_alloc_phys attrs s =
     res_bind (kassert (attrs AND Memory_User_Access = 0)) (\<lambda>_.
     with_slab_lock (slab_alloc_helper slab_higher_half put_slab Page_Small attrs) s)"

subsection \<open>Release\<close>

definition slab_free_helper ::
    "(('a) slab_mm_scheme) vect_get \<Rightarrow> (('a) slab_mm_scheme) vect_put \<Rightarrow> u64 \<Rightarrow> u64 \<Rightarrow> bool \<Rightarrow>
     ('a) slab_mm_scheme \<Rightarrow> (('a) slab_mm_scheme) res" where
  "slab_free_helper get put bytes addr free_phys s =
     (if addr = 0 then Ret s
      else
        res_bind (unmap_range physical_free addr (unat (bytes div Page_Small)) free_phys s) (\<lambda>s1.
        region_free get put slab_alloc_locked addr bytes (s1\<lparr>Usage := Usage s1 + bytes\<rparr>)))"

definition slab_free :: "u64 \<Rightarrow> u64 \<Rightarrow> ('a) slab_mm_scheme \<Rightarrow> (('a) slab_mm_scheme) res" where
  "slab_free bytes addr s =
     res_bind (kassert (\<not> memory_is_lower_half addr)) (\<lambda>_.
     res_bind (with_slab_lock (\<lambda>s1.
       res_bind (slab_free_helper slab_higher_half put_slab bytes addr True s1) (\<lambda>s2.
       Ret ((), s2))) s) (\<lambda>(_, s3). Ret s3))"

definition slab_free_virt :: "u64 \<Rightarrow> u64 \<Rightarrow> ('a) slab_mm_scheme \<Rightarrow> (('a) slab_mm_scheme) res" where
  "slab_free_virt bytes addr s =
     res_bind (kassert (\<not> memory_is_lower_half addr)) (\<lambda>_.
     res_bind (with_slab_lock (\<lambda>s1.
       res_bind (slab_free_helper slab_higher_half put_slab bytes addr False s1) (\<lambda>s2.
       Ret ((), s2))) s) (\<lambda>(_, s3). Ret s3))"

definition slab_free_locked :: "u64 \<Rightarrow> u64 \<Rightarrow> ('a) slab_mm_scheme \<Rightarrow> (('a) slab_mm_scheme) res" where
  "slab_free_locked bytes addr s =
     res_bind (kassert (\<not> memory_is_lower_half addr)) (\<lambda>_.
     slab_free_helper slab_higher_half put_slab bytes addr True s)"

subsection \<open>Requests for given physical memory\<close>

definition request_mapped ::
    "phys_addr \<Rightarrow> u64 \<Rightarrow> u64 \<Rightarrow> (status + u64) \<times> ('a) slab_mm_scheme
      \<Rightarrow> (u64 \<times> ('a) slab_mm_scheme) res" where
  "request_mapped phys sz attrs r =
     (case r of (Inl _, s1) \<Rightarrow> Ret (0, s1)
      | (Inr virt, s1) \<Rightarrow>
          res_bind (map_range physical_alloc physical_free virt phys (sz div Page_Small) attrs s1)
            (\<lambda>(st, s2).
          if st \<noteq> Ok then
            res_bind (region_free slab_higher_half put_slab slab_alloc_locked virt sz s2) (\<lambda>s3.
            Ret (0, s3))
          else Ret (virt, s2\<lparr>Usage := Usage s2 - sz\<rparr>)))"

definition slab_alloc_request_physical ::
    "phys_addr \<Rightarrow> u64 \<Rightarrow> u64 \<Rightarrow> ('a) slab_mm_scheme \<Rightarrow> (u64 \<times> ('a) slab_mm_scheme) res" where
  "slab_alloc_request_physical phys sz attrs s =
     (if \<not> is_aligned sz Page_Small \<or> sz = 0 then Ret (0, s)
      else
        with_slab_lock (\<lambda>s1.
          res_bind (region_alloc (slab_higher_half s1) sz) (\<lambda>r.
          request_mapped phys sz attrs
            (case r of Inl e \<Rightarrow> (Inl e, s1) | Inr (virt, v) \<Rightarrow> (Inr virt, put_slab v s1)))) s)"

definition slab_alloc_request_physical_random ::
    "(('a) slab_mm_scheme \<Rightarrow> (u64 \<times> ('a) slab_mm_scheme) res) \<Rightarrow> phys_addr \<Rightarrow> u64 \<Rightarrow> u64 \<Rightarrow>
     ('a) slab_mm_scheme \<Rightarrow> (u64 \<times> ('a) slab_mm_scheme) res" where
  "slab_alloc_request_physical_random random_address phys sz attrs s =
     (if \<not> is_aligned sz Page_Small \<or> sz = 0 then Ret (0, s)
      else
        with_slab_lock (\<lambda>s1.
          res_bind (region_alloc_random slab_higher_half put_slab slab_alloc_locked random_address sz s1)
            (request_mapped phys sz attrs)) s)"

subsection \<open>Initialisation\<close>

definition Kernel_Virtual_Start :: u64 where "Kernel_Virtual_Start = Kernel_Pivot_Page"
definition Kernel_Memory_Start :: u64 where "Kernel_Memory_Start = 0xffff808000000000"

text \<open>\<open>Kernel_Virtual_End\<close> is the end of the image, a symbol of the linker. \<open>Higher_Half_End\<close> is
  the last address, so the second size is one byte short of the address space. Both regions are
  entered at the same address.\<close>

definition slab_init :: "u64 \<Rightarrow> ('a) slab_mm_scheme \<Rightarrow> (('a) slab_mm_scheme) res" where
  "slab_init Kernel_Virtual_End s =
     (let s1 = put_slab (region_vector_init (slab_higher_half s)) s;
          low = Kernel_Virtual_Start - Kernel_Memory_Start;
          high = Higher_Half_End - Kernel_Virtual_End;
          s2 = s1\<lparr>Usage := Usage s1 + low\<rparr>
      in
      res_bind (region_free slab_higher_half put_slab slab_alloc_locked Kernel_Virtual_End low s2)
        (\<lambda>s3.
      region_free slab_higher_half put_slab slab_alloc_locked Kernel_Virtual_End high
        (s3\<lparr>Usage := Usage s3 + high\<rparr>)))"


subsection \<open>Consecutive pages\<close>

definition page_at :: "u64 \<Rightarrow> nat \<Rightarrow> u64" where
  "page_at virt k = virt + Page_Small * of_nat k"

lemma page_at_simps [simp]: "page_at virt 0 = virt"
  "page_at (virt + 0x1000) k = page_at virt (Suc k)"
  by (simp_all add: page_at_def algebra_simps)

lemma idx_nat: "m + 9 \<le> 64 \<Longrightarrow> unat (idx m a) = unat a div 2 ^ m mod 512"
proof -
  assume "m + 9 \<le> 64"
  have "unat (idx m a) = take_bit 9 (drop_bit m (unat a))"
    unfolding idx_def mask9 take_bit_eq_mask [symmetric]
    by (simp only: unsigned_take_bit_eq unat_drop_bit_eq)
  then show ?thesis by (simp add: take_bit_eq_mod drop_bit_eq_div)
qed

lemma idx_div_eq: "idx m a = idx m b \<Longrightarrow> m + 9 \<le> 64 \<Longrightarrow>
    unat a div 2 ^ m mod 512 = unat b div 2 ^ m mod 512"
  using idx_nat [of m a] idx_nat [of m b] by (simp only:)

lemma radix: "m = 512 * p + d \<Longrightarrow> p = 512 * q + c \<Longrightarrow> q = 512 * a + b \<Longrightarrow>
    m = d + 512 * c + 512 * 512 * b + 512 * 512 * 512 * a" for m :: nat
  by simp

lemma page_path_eq:
  assumes "page_path a = page_path b"
  shows "unat a div 4096 mod 2 ^ 36 = unat b div 4096 mod 2 ^ 36"
proof -
  have four: "x div 4096 mod 2 ^ 36 = x div 2 ^ 12 mod 512 + 512 * (x div 2 ^ 21 mod 512) +
      512 * 512 * (x div 2 ^ 30 mod 512) + 512 * 512 * 512 * (x div 2 ^ 39 mod 512)"
    for x :: nat
  proof -
    have d: "x div 2 ^ 21 = x div 4096 div 512" "x div 2 ^ 30 = x div 4096 div 512 div 512"
      "x div 2 ^ 39 = x div 4096 div 512 div 512 div 512" "x div 2 ^ 12 = x div 4096"
      by (simp_all add: div_mult2_eq [symmetric])
    have "y mod 2 ^ 36 = y mod 512 + 512 * (y div 512 mod 512) + 512 * 512 * (y div 512 div 512 mod 512) +
        512 * 512 * 512 * (y div 512 div 512 div 512 mod 512)" for y :: nat
    proof -
      have "y mod 2 ^ 36 = 512 * (y div 512 mod 2 ^ 27) + y mod 512"
        using mod_mult2_eq [of y 512 "2 ^ 27"] by simp
      moreover have "y div 512 mod 2 ^ 27 = 512 * (y div 512 div 512 mod 2 ^ 18) + y div 512 mod 512"
        using mod_mult2_eq [of "y div 512" 512 "2 ^ 18"] by simp
      moreover have "y div 512 div 512 mod 2 ^ 18 =
          512 * (y div 512 div 512 div 512 mod 512) + y div 512 div 512 mod 512"
        using mod_mult2_eq [of "y div 512 div 512" 512 512] by simp
      ultimately show ?thesis by (rule radix)
    qed
    then show ?thesis unfolding d by blast
  qed
  have i: "idx 39 a = idx 39 b" "idx 30 a = idx 30 b" "idx 21 a = idx 21 b" "idx 12 a = idx 12 b"
    using assms by (auto simp: page_path_def index_idx)
  have "unat a div 2 ^ 39 mod 512 = unat b div 2 ^ 39 mod 512"
    "unat a div 2 ^ 30 mod 512 = unat b div 2 ^ 30 mod 512"
    "unat a div 2 ^ 21 mod 512 = unat b div 2 ^ 21 mod 512"
    "unat a div 2 ^ 12 mod 512 = unat b div 2 ^ 12 mod 512"
    by (rule idx_div_eq, rule i, simp)+
  then show ?thesis unfolding four by (simp only:)
qed

lemma mod_shift_inj:
  assumes "(v + j) mod N = (v + k) mod (N :: nat)" "j < N" "k < N" shows "j = k"
proof -
  have "int (v + j) mod int N = int (v + k) mod int N" using assms(1) by (metis zmod_int)
  then have "(int (v + j) - int v) mod int N = (int (v + k) - int v) mod int N"
    by (rule mod_diff_cong) simp
  then show ?thesis using assms(2,3) by simp
qed

lemma page_at_distinct:
  assumes "page_path (page_at virt j) = page_path (page_at virt k)"
    and "j < n" "k < n" "unat virt + 4096 * n \<le> 2 ^ 64" "n \<le> 2 ^ 36"
  shows "j = k"
proof -
  have u: "unat (page_at virt i) div 4096 = unat virt div 4096 + i" if "i < n" for i
  proof -
    have lt: "4096 * i < 2 ^ 64" "unat virt + 4096 * i < 2 ^ 64" using that assms(4) by linarith+
    then have "unat (page_at virt i) = unat virt + 4096 * i"
      by (simp add: page_at_def unat_word_ariths unat_of_nat)
    then show ?thesis by simp
  qed
  have "(unat virt div 4096 + j) mod 2 ^ 36 = (unat virt div 4096 + k) mod 2 ^ 36"
    using page_path_eq [OF assms(1)] u assms(2,3) by simp
  moreover have "j < 2 ^ 36" "k < 2 ^ 36" using assms(2,3,5) by simp_all
  ultimately show ?thesis by (rule mod_shift_inj)
qed


subsection \<open>What the memory manager leaves alone\<close>

text \<open>The paging code and the physical allocator work on their own part of the state.\<close>

named_theorems keeps_more \<open>a call keeps the part of the state beyond the memory manager's\<close>

lemma store_more [keeps_more]: "store a v s = Ret s' \<Longrightarrow> mm.more s' = mm.more s"
  by (auto simp: store_def write_frame_def split: option.splits)

lemma zero_page_more [keeps_more]: "zero_page a s = Ret s' \<Longrightarrow> mm.more s' = mm.more s"
  by (auto simp: zero_page_def split: option.splits)

lemma lock_more [simp]: "mm.more (s\<lparr>pa_lock := l\<rparr>) = mm.more s" "mm.more (s\<lparr>Physical_Page := p\<rparr>) = mm.more s"
  by simp_all

definition steady :: "(('a) mm_scheme) palloc_f \<Rightarrow> bool" where
  "steady palloc \<longleftrightarrow> (\<forall>s p s'. palloc s = Ret (p, s') \<longrightarrow> mm.more s' = mm.more s)"

lemma ensure_level_more:
  "steady palloc \<Longrightarrow> ensure_level palloc present sl lv s = Ret (b, s') \<Longrightarrow> mm.more s' = mm.more s"
  by (auto simp: ensure_level_def new_level_def res_bind_Ret_iff steady_def split: if_splits
      dest!: keeps_more)

lemma map_page_more:
  assumes "steady palloc" "map_page palloc va phys perms s = Ret (st, s')"
  shows "mm.more s' = mm.more s"
  using assms(2)
  by (auto simp: map_page_def res_bind_Ret_iff split: if_splits
      dest!: keeps_more ensure_level_more [OF assms(1)])

lemma unmap_pivot_more: "unmap_pivot s = Ret s' \<Longrightarrow> mm.more s' = mm.more s"
  by (auto simp: unmap_pivot_def unmap_page_def res_bind_Ret_iff Let_def split: if_splits
      dest!: keeps_more)

lemma physical_alloc_with_steady:
  assumes "steady nested" shows "steady (physical_alloc_with nested)"
  unfolding steady_def
  by (auto simp: physical_alloc_with_def physical_alloc_out_def res_bind_Ret_iff Let_def split: if_splits
      dest!: keeps_more unmap_pivot_more map_page_more [OF assms])

lemma physical_alloc_steady: "steady physical_alloc"
  unfolding physical_alloc_def by (intro physical_alloc_with_steady) (simp add: steady_def)

subsection \<open>Mapping a run of pages\<close>

text \<open>The entry \<open>map_page\<close> writes.\<close>

definition mapping :: "phys_addr \<Rightarrow> u64 \<Rightarrow> u64" where
  "mapping phys perms = (phys AND NOT Memory_Permissions_Mask) OR perms OR Memory_Present"

text \<open>Pages that may be mapped and are not: in the half the tables cover, clear of the pivot page,
  with permissions \<open>map_page\<close> accepts, and distinct.\<close>

definition clear_run :: "u64 \<Rightarrow> nat \<Rightarrow> u64 \<Rightarrow> ('a) mm_scheme \<Rightarrow> bool" where
  "clear_run virt n attrs s \<longleftrightarrow>
     (\<forall>k < n. own_half (page_at virt k) \<and> page_path (page_at virt k) \<noteq> page_path Kernel_Pivot_Page \<and>
        \<not> bad_permissions (page_at virt k) attrs \<and> pte s (page_at virt k) = None) \<and>
     (\<forall>j < n. \<forall>k < n. page_path (page_at virt j) = page_path (page_at virt k) \<longrightarrow> j = k)"

lemma clear_run_Suc:
  assumes "clear_run virt (Suc n) attrs s"
    and "\<And>va. own_half va \<Longrightarrow> page_path va \<noteq> page_path virt \<Longrightarrow>
      page_path va \<noteq> page_path Kernel_Pivot_Page \<Longrightarrow> pte s' va = pte s va"
  shows "clear_run (virt + 0x1000) n attrs s'"
proof -
  note c = assms(1)[unfolded clear_run_def]
  have ne: "page_path (page_at virt (Suc k)) \<noteq> page_path virt" if "k < n" for k
    using c that page_at_simps(1) [of virt] by (metis Suc_less_eq nat.simps(3) zero_less_Suc)
  show ?thesis
    unfolding clear_run_def page_at_simps
    using c ne assms(2) by (metis Suc_less_eq nat.inject)
qed

lemma slab_alloc_pages_ok:
  assumes "mm_sane s" "4 * n \<le> card (free_frames s)" "clear_run virt n attrs s"
  shows "\<exists>ps s'. slab_alloc_pages n i v0 virt attrs ph s = Ret (last (ph # ps), s') \<and> mm_sane s' \<and>
    length ps = n \<and> distinct ps \<and> set ps \<subseteq> free_frames s - free_frames s' \<and>
    free_frames s' \<subseteq> free_frames s \<and> mm.more s' = mm.more s \<and>
    (\<forall>k < n. pte s' (page_at virt k) = Some (mapping (ps ! k) attrs)) \<and>
    (\<forall>va. own_half va \<longrightarrow> page_path va \<noteq> page_path Kernel_Pivot_Page \<longrightarrow>
       (\<forall>k < n. page_path va \<noteq> page_path (page_at virt k)) \<longrightarrow> pte s' va = pte s va)"
  using assms
proof (induction n arbitrary: s virt i ph)
  case 0
  then show ?case by (intro exI [of _ "[]"] exI [of _ s]) simp
next
  case (Suc n)
  have here: "own_half virt" "page_path virt \<noteq> page_path Kernel_Pivot_Page"
    "\<not> bad_permissions virt attrs" "pte s virt = None"
    using Suc.prems(3) page_at_simps(1) [of virt] by (auto simp: clear_run_def)
  have "free_frames s \<noteq> {}" using Suc.prems(2) by auto
  with Suc.prems(1) obtain p s1 where p: "physical_alloc s = Ret (p, s1)" "mm_sane s1"
    "p \<in> free_frames s" "free_frames s1 = free_frames s - {p}" "p AND NOT Phys_Addr_Mask = 0"
    and pte1: "\<And>va. own_half va \<Longrightarrow> page_path va \<noteq> page_path Kernel_Pivot_Page \<Longrightarrow> pte s1 va = pte s va"
    unfolding mm_sane_iff using pa.alloc_sane [of s] by blast
  have fin: "finite (free_frames s)" using Suc.prems(2) card.infinite by fastforce
  then have c1: "card (free_frames s) = card (free_frames s1) + 1"
    using card_Suc_Diff1 [OF fin p(3)] p(4) by simp
  then have "3 \<le> card (free_frames s1)" using Suc.prems(2) by simp
  from pa.map_page_ok [of s1 virt attrs p, folded mm_sane_iff, OF p(2) here(1,2) this here(3)] pte1 here
  obtain s2 where s2: "map_page physical_alloc virt p attrs s1 = Ret (Ok, s2)" "mm_sane s2"
    "card (free_frames s1) \<le> card (free_frames s2) + 3" "free_frames s2 \<subseteq> free_frames s1"
    "pte s2 virt = Some (mapping p attrs)"
    and pte2: "\<And>va. own_half va \<Longrightarrow> page_path va \<noteq> page_path virt \<Longrightarrow>
      page_path va \<noteq> page_path Kernel_Pivot_Page \<Longrightarrow> pte s2 va = pte s1 va"
    by (auto simp: mapping_def)
  have "clear_run (virt + 0x1000) n attrs s2"
    by (rule clear_run_Suc [OF Suc.prems(3)]) (use pte1 pte2 in simp)
  moreover have "4 * n \<le> card (free_frames s2)" using c1 s2(3) Suc.prems(2) by simp
  ultimately obtain ps s' where
    rest: "slab_alloc_pages n (Suc i) v0 (virt + 0x1000) attrs p s2 = Ret (last (p # ps), s')"
      "mm_sane s'" "length ps = n" "distinct ps" "set ps \<subseteq> free_frames s2 - free_frames s'"
      "free_frames s' \<subseteq> free_frames s2" "mm.more s' = mm.more s2"
      "\<And>k. k < n \<Longrightarrow> pte s' (page_at virt (Suc k)) = Some (mapping (ps ! k) attrs)"
      "\<And>va. own_half va \<Longrightarrow> page_path va \<noteq> page_path Kernel_Pivot_Page \<Longrightarrow>
        (\<And>k. k < n \<Longrightarrow> page_path va \<noteq> page_path (page_at virt (Suc k))) \<Longrightarrow> pte s' va = pte s2 va"
    using Suc.IH [OF s2(2), of "virt + 0x1000" "Suc i" p] by auto
  have valid: "p \<noteq> invalid_phys_addr"
    using p(5) by (auto simp: invalid_phys_addr_def Phys_Addr_Mask_def)
  have run: "slab_alloc_pages (Suc n) i v0 virt attrs ph s = Ret (last (ph # p # ps), s')"
    using p(1) s2(1) rest(1) valid by simp
  have "page_path virt \<noteq> page_path (page_at virt (Suc k))" if "k < n" for k
    using Suc.prems(3) that page_at_simps(1) [of virt] unfolding clear_run_def
    by (metis Suc_less_eq nat.simps(3) zero_less_Suc)
  then have first: "pte s' virt = Some (mapping p attrs)"
    using rest(9) [OF here(1,2)] s2(5) by simp
  have all: "pte s' (page_at virt k) = Some (mapping ((p # ps) ! k) attrs)" if "k < Suc n" for k
    using that first rest(8) by (cases k) auto
  have other: "pte s' va = pte s va" if "own_half va" "page_path va \<noteq> page_path Kernel_Pivot_Page"
    "\<forall>k < Suc n. page_path va \<noteq> page_path (page_at virt k)" for va
    using that rest(9) [OF that(1,2)] pte2 [OF that(1) _ that(2)] pte1 [OF that(1,2)]
      page_at_simps(1) [of virt] by (metis Suc_less_eq zero_less_Suc)
  have more: "mm.more s' = mm.more s"
    using rest(7) map_page_more [OF physical_alloc_steady s2(1)] physical_alloc_steady p(1)
    by (auto simp: steady_def)
  show ?case
    using run rest(2-6) all other more p(3,4) s2(4)
    by (intro exI [of _ "p # ps"] exI [of _ s']) auto
qed


text \<open>The vector, its lock and the counter are no part of what the paging code reads.\<close>

lemma slab_fields_root [simp]:
  "root (s\<lparr>slab_higher_half := v\<rparr>) = root s" "root (s\<lparr>slab_higher_half_lock := l\<rparr>) = root s"
  "root (s\<lparr>Usage := u\<rparr>) = root s"
  by (simp_all add: root_def)

lemma slab_fields_tab [simp]:
  "tab (s\<lparr>slab_higher_half := v\<rparr>) r = tab s r" "tab (s\<lparr>slab_higher_half_lock := l\<rparr>) r = tab s r"
  "tab (s\<lparr>Usage := u\<rparr>) r = tab s r"
  by (rule tab_agree; simp)+

lemma slab_fields_pte [simp]:
  "pte (s\<lparr>slab_higher_half := v\<rparr>) va = pte s va" "pte (s\<lparr>slab_higher_half_lock := l\<rparr>) va = pte s va"
  "pte (s\<lparr>Usage := u\<rparr>) va = pte s va"
  by (simp_all add: pte_def entry_def split: option.split)

lemma slab_fields_fractal [simp]:
  "fractal (s\<lparr>slab_higher_half := v\<rparr>) = fractal s" "fractal (s\<lparr>slab_higher_half_lock := l\<rparr>) = fractal s"
  "fractal (s\<lparr>Usage := u\<rparr>) = fractal s"
  by (simp_all add: fractal_def table_step_def)

lemma slab_fields_pa_state [simp]:
  "pa_state (s\<lparr>slab_higher_half := v\<rparr>) = pa_state s"
  "pa_state (s\<lparr>slab_higher_half_lock := l\<rparr>) = pa_state s" "pa_state (s\<lparr>Usage := u\<rparr>) = pa_state s"
  by (simp_all add: fun_eq_iff pa_state_def pivot_path_def split: list.split)

lemma slab_fields_sane [simp]:
  "mm_sane (s\<lparr>slab_higher_half := v\<rparr>) = mm_sane s" "mm_sane (s\<lparr>slab_higher_half_lock := l\<rparr>) = mm_sane s"
  "mm_sane (s\<lparr>Usage := u\<rparr>) = mm_sane s"
  by (simp_all add: mm_sane_def pa_inv_def free_frames_def tree_def tables_def)

lemma slab_fields_free [simp]:
  "free_frames (s\<lparr>slab_higher_half := v\<rparr>) = free_frames s"
  "free_frames (s\<lparr>slab_higher_half_lock := l\<rparr>) = free_frames s" "free_frames (s\<lparr>Usage := u\<rparr>) = free_frames s"
  by (simp_all add: free_frames_def)

lemma slab_fields_clear [simp]:
  "clear_run virt n attrs (s\<lparr>slab_higher_half := v\<rparr>) = clear_run virt n attrs s"
  "clear_run virt n attrs (s\<lparr>slab_higher_half_lock := l\<rparr>) = clear_run virt n attrs s"
  by (simp_all add: clear_run_def)

lemma slab_more_eq:
  fixes s :: "('a) slab_mm_scheme"
  assumes "mm.more s' = mm.more s"
  shows "slab_higher_half s' = slab_higher_half s" "slab_higher_half_lock s' = slab_higher_half_lock s"
    "Usage s' = Usage s"
  using assms by (cases s, cases s', simp)+

text \<open>The slab allocator's own vector as a pool: a page that extends it comes from the vector itself.\<close>

lemma slab_alloc_pages_more:
  "slab_alloc_pages n i v0 virt attrs ph s = Ret (p, s') \<Longrightarrow> mm.more s' = mm.more s"
proof (induction n arbitrary: i virt ph s)
  case (Suc n)
  from Suc.prems obtain pa s1 s2 where "physical_alloc s = Ret (pa, s1)"
    "map_page physical_alloc virt pa attrs s1 = Ret (Ok, s2)"
    "slab_alloc_pages n (Suc i) v0 (virt + Page_Small) attrs pa s2 = Ret (p, s')"
    by (auto simp: res_bind_Ret_iff split: if_splits)
  with Suc.IH map_page_more [OF physical_alloc_steady] physical_alloc_steady show ?case
    by (metis steady_def)
qed simp

lemma slab_alloc_locked_effect:
  fixes s :: "('a) slab_mm_scheme"
  assumes "slab_alloc_locked bytes attrs s = Ret (p, s')"
  shows "slab_mm.more s' = slab_mm.more s \<and>
    (slab_higher_half s' = slab_higher_half s \<or>
     (\<exists>a. region_alloc_scan bytes (slab_higher_half s) = Inr (a, slab_higher_half s')))"
proof -
  from assms obtain ph where h: "slab_alloc_helper slab_higher_half put_slab bytes attrs s = Ret ((p, ph), s')"
    by (auto simp: slab_alloc_locked_def res_bind_Ret_iff)
  show ?thesis
  proof (cases "region_alloc_scan bytes (slab_higher_half s)")
    case (Inl e)
    with h show ?thesis by (auto simp: slab_alloc_helper_def region_alloc_def split: if_splits)
  next
    case (Inr r)
    obtain a v where r: "r = (a, v)" by fastforce
    show ?thesis
    proof (cases "s' = s")
      case False
      with h Inr r obtain s1 where s1: "slab_alloc_pages (unat (bytes div Page_Small)) 0 a a attrs 0 (put_slab v s) = Ret (ph, s1)"
        "s' = s1\<lparr>Usage := Usage s1 - bytes\<rparr>"
        by (auto simp: slab_alloc_helper_def region_alloc_def res_bind_Ret_iff split: if_splits)
      from slab_alloc_pages_more [OF s1(1)] have m: "mm.more s1 = mm.more (put_slab v s)" .
      with slab_more_eq [OF m] have "slab_higher_half s' = v" by (simp add: s1(2) put_slab_def)
      moreover from m have "slab_mm.more s' = slab_mm.more s"
        by (cases s, cases s1) (simp add: s1(2) put_slab_def)
      ultimately show ?thesis using Inr r by blast
    qed simp
  qed
qed

interpretation slab_vector: vector_in_state slab_higher_half put_slab slab_alloc_locked
proof unfold_locales
  fix s :: "('a) slab_mm_scheme" and p s'
  assume ok: "rv_ok (slab_higher_half s)" and "slab_alloc_locked Page_Small Memory_Writable s = Ret (p, s')"
  from slab_alloc_locked_effect [OF this(2)] ok
  show "rv_ok (slab_higher_half s') \<and> (\<forall>x. owners (slab_higher_half s') x \<le> owners (slab_higher_half s) x)"
    by (auto dest!: region_alloc_scan_Inr [OF ok])
qed (simp add: put_slab_def)

text \<open>(C24) \<open>slab_alloc\<close> takes a range of free addresses off the vector and maps every page of it,
  in order, to a frame of its own that was free: whatever memory another part of the kernel
  uses is neither handed out nor remapped. It succeeds whenever the addresses are not in use
  and four frames are free for every page.\<close>

theorem slab_alloc_maps:
  assumes "mm_sane s" "slab_higher_half_lock s = Lock_Clear" "attrs AND Memory_User_Access = 0"
    and "is_aligned bytes Page_Small" "n = unat (bytes div Page_Small)"
    and "region_alloc (slab_higher_half s) bytes = Ret (Inr (virt, vect))"
    and "clear_run virt n attrs s" "4 * n \<le> card (free_frames s)"
  shows "\<exists>ps s'. slab_alloc bytes attrs s = Ret (virt, s') \<and> mm_sane s' \<and>
    slab_higher_half s' = vect \<and> slab_higher_half_lock s' = Lock_Clear \<and>
    length ps = n \<and> distinct ps \<and> set ps \<subseteq> free_frames s - free_frames s' \<and>
    (\<forall>k < n. pte s' (page_at virt k) = Some (mapping (ps ! k) attrs)) \<and>
    (\<forall>va. own_half va \<longrightarrow> page_path va \<noteq> page_path Kernel_Pivot_Page \<longrightarrow>
       (\<forall>k < n. page_path va \<noteq> page_path (page_at virt k)) \<longrightarrow> pte s' va = pte s va)"
proof -
  let ?s = "put_slab vect (s\<lparr>slab_higher_half_lock := held\<rparr>)"
  have "slab_higher_half s \<noteq> []" using assms(6) by (auto simp: region_alloc_def res_bind_Ret_iff)
  moreover obtain ps s1 where pages: "slab_alloc_pages n 0 virt virt attrs 0 ?s = Ret (last (0 # ps), s1)"
    "mm_sane s1" "length ps = n" "distinct ps" "set ps \<subseteq> free_frames s - free_frames s1"
    "mm.more s1 = mm.more ?s" "\<forall>k < n. pte s1 (page_at virt k) = Some (mapping (ps ! k) attrs)"
    "\<forall>va. own_half va \<longrightarrow> page_path va \<noteq> page_path Kernel_Pivot_Page \<longrightarrow>
       (\<forall>k < n. page_path va \<noteq> page_path (page_at virt k)) \<longrightarrow> pte s1 va = pte s va"
    using slab_alloc_pages_ok [of ?s n virt attrs 0 virt 0] assms(1,7,8) by (auto simp: put_slab_def)
  moreover have "slab_higher_half s1 = vect" "slab_higher_half_lock s1 = held"
    using slab_more_eq [OF pages(6)] by (simp_all add: put_slab_def)
  ultimately show ?thesis
    using assms(2-6)
    by (intro exI [of _ ps] exI [of _ "s1\<lparr>Usage := Usage s1 - bytes, slab_higher_half_lock := Lock_Clear\<rparr>"])
      (simp add: slab_alloc_def with_slab_lock_def slab_alloc_helper_def held_def [symmetric])
qed


text \<open>A machine with 17 free frames and one free region of two pages.\<close>

definition demo_slab :: slab_mm where
  "demo_slab = mm.extend demo_mm
     \<lparr>slab_higher_half_lock = Lock_Clear,
      slab_higher_half = [\<lparr>sec_base = 0, regions_used = 1,
        regions = [\<lparr>address = 0xffff808000000000, rsize = 0x2000\<rparr>]\<rparr>], Usage = 0x2000\<rparr>"

lemma truncate_root: "root (mm.truncate s) = root s"
  by (simp add: root_def mm.defs)

lemma truncate_tab: "tab (mm.truncate s) r = tab s r"
  by (rule tab_agree) (simp_all add: truncate_root, simp add: mm.defs)

lemma truncate_pte: "pte (mm.truncate s) va = pte s va"
  by (simp add: pte_def entry_def truncate_tab) (simp add: mm.defs split: option.split)

lemma truncate_pa_state: "pa_state (mm.truncate s) = pa_state s"
  by (simp add: fun_eq_iff pa_state_def pivot_path_def fractal_def table_step_def truncate_root
      truncate_tab) (simp add: mm.defs split: list.split)

lemma truncate_free: "free_frames (mm.truncate s) = free_frames s"
  by (simp add: free_frames_def) (simp add: mm.defs)

lemma truncate_sane: "mm_sane (mm.truncate s) = mm_sane s"
  by (simp add: mm_sane_def pa_inv_def truncate_pa_state truncate_free tree_def tables_def truncate_tab
      fractal_def table_step_def truncate_root) (simp add: mm.defs)

lemma demo_slab_truncate: "mm.truncate demo_slab = demo_mm"
  by (simp add: demo_slab_def demo_mm_def mm.defs)

theorem slab_alloc_maps_witness:
  "\<exists>p s'. slab_alloc 0x1000 Memory_Writable demo_slab = Ret (0xffff808000000000, s') \<and> mm_sane s' \<and>
     pte s' 0xffff808000000000 = Some (mapping p Memory_Writable) \<and> p \<in> free_frames demo_slab"
proof -
  let ?va = "0xffff808000000000 :: u64"
  have sane: "mm_sane demo_slab" using demo_sane truncate_sane [of demo_slab] by (simp add: demo_slab_truncate)
  have free: "free_frames demo_slab = free_frames demo_mm"
    using truncate_free [of demo_slab] by (simp add: demo_slab_truncate)
  have "card {0x100000, 0x101000, 0x102000, 0x103000 :: u64} \<le> card (free_frames demo_mm)"
    by (rule card_mono) (simp_all add: demo_free demo_blocks_def finite_pages_of [of demo_blocks, unfolded demo_blocks_def] demo_pages)
  then have four: "4 * 1 \<le> card (free_frames demo_slab)" by (simp add: free)
  have half: "own_half ?va" by (simp add: own_half_def pl4_index_def)
  have "tab demo_mm (path1 ?va) = None"
    using demo_tab [OF good_path_va(4) [OF half]] by (simp add: pl4_index_def)
  then have "pte demo_slab ?va = None"
    using truncate_pte [of demo_slab ?va] by (simp add: demo_slab_truncate pte_def entry_def)
  moreover have "page_path ?va \<noteq> page_path Kernel_Pivot_Page"
    by (simp add: page_path_def) (simp add: pl4_index_def)
  ultimately have clear: "clear_run ?va 1 Memory_Writable demo_slab"
    using half by (simp add: clear_run_def bad_permissions_def Memory_Writable_def Memory_No_Execute_def
        Memory_User_Access_def)
  let ?rest = "[\<lparr>sec_base = 0, regions_used = 1,
        regions = [\<lparr>address = 0xffff808000001000, rsize = 0x1000\<rparr>]\<rparr>]"
  have alloc: "region_alloc (slab_higher_half demo_slab) 0x1000 = Ret (Inr (?va, ?rest))"
    by (simp add: demo_slab_def mm.defs region_alloc_def loop_indices_def regions_count_eq region_take_def)
  from slab_alloc_maps [OF sane _ _ _ _ alloc clear four] obtain ps s' where
    "slab_alloc 0x1000 Memory_Writable demo_slab = Ret (?va, s')" "mm_sane s'" "length ps = 1"
    "set ps \<subseteq> free_frames demo_slab" "\<forall>k < 1. pte s' (page_at ?va k) = Some (mapping (ps ! k) Memory_Writable)"
    by (auto simp: demo_slab_def mm.defs is_aligned_def Memory_Writable_def Memory_No_Execute_def
        Memory_User_Access_def)
  moreover have "ps ! 0 \<in> set ps" using calculation(3) by simp
  ultimately show ?thesis by (intro exI [of _ "ps ! 0"] exI [of _ s']) auto
qed

end
