(* ===== verification/Heap.thy ===== *)
theory Heap
  imports Slab Kstring "HOL-Library.Multiset"
begin

text \<open>
  \<open>kernel/core/heap.c\<close>: the kernel heap. Sixteen pages of the slab allocator are handed out in
  blocks that carry eight red bytes on either side; one region vector records the free blocks, a
  second one the blocks in use. The state extends the slab allocator's with the two vectors, the
  base of the heap, the counter and the memory the kernel's pointers reach.
\<close>

record kheap = slab_mm +
  heap_metadata_used :: rvector
  heap_metadata_free :: rvector
  heap :: u64
  Used :: u64
  memory :: mem

definition Heap_Red_Zone_Size :: u64 where "Heap_Red_Zone_Size = 8"
definition Heap_Red_Zone_Fill :: u64 where "Heap_Red_Zone_Fill = 0xcccccccccccccccc"
definition Heap_Size :: u64 where "Heap_Size = 16 * Page_Small"

text \<open>Reading an \<open>unsigned long\<close>, least significant byte first.\<close>

primrec word_of_bytes :: "u8 list \<Rightarrow> u64" where
  "word_of_bytes [] = 0"
| "word_of_bytes (b # bs) = push_bit 8 (word_of_bytes bs) OR ucast b"

definition load64 :: "mem \<Rightarrow> u64 \<Rightarrow> u64" where
  "load64 m a = word_of_bytes (map (\<lambda>i. m (a + of_nat i)) [0..<8])"

definition put_used :: "(('a) kheap_scheme) vect_put" where
  "put_used v s = s\<lparr>heap_metadata_used := v\<rparr>"

definition put_free :: "(('a) kheap_scheme) vect_put" where
  "put_free v s = s\<lparr>heap_metadata_free := v\<rparr>"

subsection \<open>Operations\<close>

definition heap_get_usage :: "('a) kheap_scheme \<Rightarrow> u64" where
  "heap_get_usage s = Used s"

definition heap_init :: "('a) kheap_scheme \<Rightarrow> (status \<times> ('a) kheap_scheme) res" where
  "heap_init s =
     res_bind (slab_alloc Page_Small Memory_Writable s) (\<lambda>(used, s1).
     if used = 0 then Panic
     else
       res_bind (slab_alloc Page_Small Memory_Writable s1) (\<lambda>(free, s2).
       if free = 0 then res_bind (slab_free Page_Small used s2) (\<lambda>_. Panic)
       else
         res_bind (slab_alloc Heap_Size (Memory_Writable OR Memory_No_Execute) s2) (\<lambda>(base, s3).
         if base = 0 then
           res_bind (slab_free Page_Small used s3) (\<lambda>s4.
           res_bind (slab_free Page_Small free s4) (\<lambda>_. Panic))
         else
           (let s4 = s3\<lparr>heap_metadata_used := region_vector_init [fresh_section used],
                       heap_metadata_free := region_vector_init [fresh_section free],
                       heap := base\<rparr>
            in
            res_bind (region_free heap_metadata_free put_free slab_alloc_locked base Heap_Size s4)
              (\<lambda>s5.
            Ret (Ok, s5\<lparr>memory := snd (memset (memory s5) base (ucast Heap_Red_Zone_Fill) Heap_Size)\<rparr>))))))"

text \<open>The words of a new block must all hold the fill; a remainder of less than a word is not
  looked at.\<close>

definition filled :: "mem \<Rightarrow> u64 \<Rightarrow> u64 \<Rightarrow> bool" where
  "filled m a sz =
     list_all (\<lambda>i. load64 m (a + 8 * of_nat i) = Heap_Red_Zone_Fill) [0..<unat (sz div 8)]"

definition kmalloc :: "u64 \<Rightarrow> ('a) kheap_scheme \<Rightarrow> (u64 \<times> ('a) kheap_scheme) res" where
  "kmalloc sz s =
     (let allocation_size = sz + 2 * Heap_Red_Zone_Size in
      res_bind (region_alloc (heap_metadata_free s) allocation_size) (\<lambda>r.
      case r of Inl _ \<Rightarrow> Ret (0, s)
      | Inr (a, v) \<Rightarrow>
          res_bind (region_free heap_metadata_used put_used slab_alloc_locked a allocation_size
              (put_free v s)) (\<lambda>s1.
          res_bind (kassert (filled (memory s1) a allocation_size)) (\<lambda>_.
          res_bind (kassert (a < heap s1 + Heap_Size)) (\<lambda>_.
          res_bind (kassert (a \<ge> heap s1)) (\<lambda>_.
          res_bind (kassert (a + sz > heap s1)) (\<lambda>_.
          res_bind (kassert (a + sz \<le> heap s1 + Heap_Size)) (\<lambda>_.
          Ret (a + Heap_Red_Zone_Size, s1\<lparr>Used := Used s1 + allocation_size\<rparr>)))))))))"

text \<open>The old block is neither measured nor released.\<close>

definition krealloc :: "u64 \<Rightarrow> u64 \<Rightarrow> ('a) kheap_scheme \<Rightarrow> (u64 \<times> ('a) kheap_scheme) res" where
  "krealloc ptr sz s =
     (if ptr = 0 then Ret (0, s)
      else
        res_bind (kmalloc sz s) (\<lambda>(new_mem, s1).
        if new_mem = 0 then Ret (0, s1)
        else Ret (new_mem, s1\<lparr>memory := snd (memcpy (memory s1) new_mem ptr sz)\<rparr>)))"

definition kcalloc :: "u64 \<Rightarrow> u64 \<Rightarrow> ('a) kheap_scheme \<Rightarrow> (u64 \<times> ('a) kheap_scheme) res" where
  "kcalloc n sz s =
     res_bind (kmalloc (n * sz) s) (\<lambda>(a, s1).
     if a = 0 then Ret (0, s1)
     else Ret (a, s1\<lparr>memory := snd (memset (memory s1) a 0 (n * sz))\<rparr>))"

definition kfree :: "u64 \<Rightarrow> ('a) kheap_scheme \<Rightarrow> (('a) kheap_scheme) res" where
  "kfree ptr s =
     (if ptr = 0 then Ret s
      else
        (let a = ptr - Heap_Red_Zone_Size in
         res_bind (region_find_size_and_free heap_metadata_used put_used slab_free_locked a s)
           (\<lambda>(sz, s1).
         res_bind (kassert (load64 (memory s1) a = Heap_Red_Zone_Fill)) (\<lambda>_.
         res_bind (kassert (load64 (memory s1) (a + sz - Heap_Red_Zone_Size) = Heap_Red_Zone_Fill))
           (\<lambda>_.
         res_bind (kassert (a \<ge> heap s1)) (\<lambda>_.
         res_bind (kassert (a < heap s1 + Heap_Size)) (\<lambda>_.
         res_bind (kassert (a + sz > heap s1)) (\<lambda>_.
         res_bind (kassert (a + sz \<le> heap s1 + Heap_Size)) (\<lambda>_.
         region_free heap_metadata_free put_free slab_alloc_locked a sz
           (s1\<lparr>memory := snd (memset (memory s1) a (ucast Heap_Red_Zone_Fill) sz),
               Used := Used s1 - sz\<rparr>))))))))))"

subsection \<open>The two records as pools\<close>

lemma slab_alloc_locked_heap:
  fixes s :: "('a) kheap_scheme"
  assumes "slab_alloc_locked n attrs s = Ret (p, s')"
  shows "heap_metadata_free s' = heap_metadata_free s" "heap_metadata_used s' = heap_metadata_used s"
  using slab_alloc_locked_effect [OF assms] by (cases s, cases s', simp)+

interpretation free_vector: vector_in_state heap_metadata_free put_free slab_alloc_locked
  by unfold_locales (auto simp: put_free_def dest: slab_alloc_locked_heap)

interpretation used_vector: vector_in_state heap_metadata_used put_used slab_alloc_locked
  by unfold_locales (auto simp: put_used_def dest: slab_alloc_locked_heap)

text \<open>The vectors the kernel allocates from: the slab allocator's addresses and the heap's bytes.\<close>

definition kernel_vector ::
    "(('a) kheap_scheme \<Rightarrow> rvector) \<Rightarrow> (rvector \<Rightarrow> ('a) kheap_scheme \<Rightarrow> ('a) kheap_scheme) \<Rightarrow> bool" where
  "kernel_vector get put \<longleftrightarrow>
     get = slab_higher_half \<and> put = put_slab \<or> get = heap_metadata_free \<and> put = put_free"

text \<open>(C25) No byte is ever handed out twice: for the vector of free addresses of the slab allocator and
  for that of the free bytes of the heap, starting from regions that do not overlap, after any
  history of \<open>region_alloc\<close> and \<open>region_free\<close> calls that return, with any requests, refusals and
  releases, the blocks a client holds are disjoint from one another and from what is still in the
  vector. A vector that is full is extended by a page from \<open>slab_alloc_locked\<close>, which for the slab allocator
  comes out of the same vector. (\<open>region_alloc_random\<close> is no part of such a history: the
  block it returns can stay in the vector, as \<open>region_alloc_random_keeps_block\<close> shows.)\<close>

theorem region_blocks_never_overlap:
  assumes "kernel_vector get put" "rv_ok (get s)" "\<forall>x. owners (get s) x \<le> 1"
    and "pool_run (vect_alloc get put) (region_free get put slab_alloc_locked) ops (s, []) = Ret (s', blocks)"
    and "i < length blocks" "in_block x (fst (blocks ! i)) (snd (blocks ! i))"
  shows "owners (get s') x = 0 \<and> rv_ok (get s') \<and>
    (\<forall>j < length blocks. i \<noteq> j \<longrightarrow> \<not> in_block x (fst (blocks ! j)) (snd (blocks ! j)))"
  using assms(1) unfolding kernel_vector_def
proof (elim disjE conjE)
  assume "get = slab_higher_half" "put = put_slab"
  with assms(2-) show ?thesis
    using slab_vector.blocks_disjoint [of s ops s' blocks i x] slab_vector.pool_run_ledger [of s "[]" ops s' blocks]
    by simp
next
  assume "get = heap_metadata_free" "put = put_free"
  with assms(2-) show ?thesis
    using free_vector.blocks_disjoint [of s ops s' blocks i x] free_vector.pool_run_ledger [of s "[]" ops s' blocks]
    by simp
qed

subsection \<open>Words and their bytes\<close>

lemma word_of_bytes_nth:
  "k < length bs \<Longrightarrow> length bs \<le> 8 \<Longrightarrow> ucast (drop_bit (8 * k) (word_of_bytes bs)) = bs ! k"
proof (induction bs arbitrary: k)
  case (Cons b bs)
  show ?case
  proof (cases k)
    case 0
    show ?thesis
      by (rule bit_word_eqI) (simp add: 0 bit_simps)
  next
    case (Suc j)
    have "bit (ucast (drop_bit (8 * k) (word_of_bytes (b # bs))) :: u8) n =
        bit (ucast (drop_bit (8 * j) (word_of_bytes bs)) :: u8) n" if "n < 8" for n
      using that Cons.prems Suc by (auto simp: bit_simps dest: bit_imp_le_length [of b])
    then have "ucast (drop_bit (8 * k) (word_of_bytes (b # bs))) =
        (ucast (drop_bit (8 * j) (word_of_bytes bs)) :: u8)"
      by (intro bit_word_eqI) simp
    with Cons Suc show ?thesis by simp
  qed
qed simp

lemma load64_byte: "k < 8 \<Longrightarrow> ucast (drop_bit (8 * k) (load64 m a)) = m (a + of_nat k)"
  by (simp add: load64_def word_of_bytes_nth)

lemma load64_cong: "(\<And>k. k < 8 \<Longrightarrow> m (a + of_nat k) = m' (a' + of_nat k)) \<Longrightarrow> load64 m a = load64 m' a'"
  unfolding load64_def by (rule arg_cong [of _ _ word_of_bytes]) simp

lemma load64_fill_iff: "load64 m a = Heap_Red_Zone_Fill \<longleftrightarrow> (\<forall>k < 8. m (a + of_nat k) = 0xcc)"
proof
  have fill: "Heap_Red_Zone_Fill = load64 (\<lambda>_. 0xcc) 0"
    by (simp add: load64_def Heap_Red_Zone_Fill_def upt_rec)
  {
    assume "load64 m a = Heap_Red_Zone_Fill"
    then have "m (a + of_nat k) = 0xcc" if "k < 8" for k
      using load64_byte [OF that, of m a] load64_byte [OF that, of "\<lambda>_. 0xcc" 0] fill by simp
    then show "\<forall>k < 8. m (a + of_nat k) = 0xcc" by blast
  next
    assume "\<forall>k < 8. m (a + of_nat k) = 0xcc"
    then show "load64 m a = Heap_Red_Zone_Fill" unfolding fill by (intro load64_cong) simp
  }
qed


subsection \<open>The records as multisets\<close>

lemma mset_append_region:
  "rv_ok vect \<Longrightarrow> region_free_scan a sz vect = Some vect' \<Longrightarrow>
   mset (live_regions vect') = add_mset \<lparr>address = a, rsize = sz\<rparr> (mset (live_regions vect))"
proof (induction vect arbitrary: vect')
  case (Cons v vs)
  then show ?case
    by (cases "regions_used v = regions_count") (auto simp: region_append_section)
qed simp

lemma mset_drop_region:
  assumes "section_ok v" "i < regions_used v"
  shows "add_mset (regions v ! i) (mset (live (drop_region v i))) = mset (live v)"
proof (rule multiset_eqI)
  fix x
  show "count (add_mset (regions v ! i) (mset (live (drop_region v i)))) x = count (mset (live v)) x"
    using drop_region_section(3) [OF assms, of "(=) x"]
    by (auto simp: count_mset count_list_eq_length_filter split: if_splits)
qed

lemma mset_find_region:
  "rv_ok vect \<Longrightarrow> region_find_scan b a vect = (sz, vect', freed) \<Longrightarrow>
   \<exists>r \<in> set (live_regions vect). address r = a \<Longrightarrow>
   mset (live_regions vect) = add_mset \<lparr>address = a, rsize = sz\<rparr> (mset (live_regions vect'))"
proof (induction vect arbitrary: b vect' freed)
  case (Cons v vs)
  then have sec: "section_ok v" by simp
  show ?case
  proof (cases "find (\<lambda>i. address (regions v ! i) = a) (loop_indices v)")
    case None
    then have "\<forall>j < regions_used v. address (regions v ! j) \<noteq> a"
      by (simp add: loop_indices_ok [OF sec] find_upt_None)
    then have "\<not> (\<exists>r \<in> set (live v). address r = a)"
      by (metis in_set_conv_nth length_live [OF sec] live_nth)
    with Cons.prems(3) have ex: "\<exists>r \<in> set (live_regions vs). address r = a" by auto
    from None Cons.prems(2) obtain vs' where
      *: "region_find_scan True a vs = (sz, vs', freed)" "vect' = v # vs'"
      by (auto split: prod.splits)
    from Cons.IH [OF _ *(1) ex] Cons.prems(1) *(2) show ?thesis by simp
  next
    case (Some i)
    note hit = region_find_scan_step [OF sec Some]
    then have r: "regions v ! i = \<lparr>address = a, rsize = rsize (regions v ! i)\<rparr>" by simp
    consider (more) "regions_used v - 1 \<noteq> 0" | (last) "regions_used v - 1 = 0" b
      | (empty) "regions_used v - 1 = 0" "\<not> b" by blast
    then show ?thesis
    proof cases
      case more
      with Some Cons.prems(2) have "sz = rsize (regions v ! i)" "vect' = drop_region v i # vs"
        by (auto simp: Let_def drop_region_def)
      with mset_drop_region [OF sec hit(1)] r show ?thesis by (simp add: union_mset_add_mset_left [symmetric])
    next
      case last
      with Some Cons.prems(2) have "sz = rsize (regions v ! i)" "vect' = vs" by (auto simp: Let_def)
      with hit(3) [OF last(1)] r show ?thesis by simp
    next
      case empty
      with Some Cons.prems(2) have "sz = rsize (regions v ! i)" "vect' = v\<lparr>regions_used := 0\<rparr> # vs"
        by (auto simp: Let_def)
      with hit(3) [OF empty(1)] r show ?thesis by (simp add: live_def)
    qed
  qed
qed simp

lemma owners_pos: "owners vect x > 0 \<longleftrightarrow> (\<exists>r \<in> set (live_regions vect). in_block x (address r) (rsize r))"
  by (auto simp: owners_def filter_empty_conv)

lemma length_find_scan:
  "region_find_scan b a vect = (sz, vect', freed) \<Longrightarrow> freed = None \<Longrightarrow> length vect' = length vect"
  by (induction vect arbitrary: b vect') (auto simp: Let_def split: option.splits if_splits prod.splits)


subsection \<open>The invariant\<close>

definition used_blocks :: "('a) kheap_scheme \<Rightarrow> region multiset" where
  "used_blocks s = mset (live_regions (heap_metadata_used s))"

text \<open>Every byte of the heap is either free or in use, once; free bytes hold the fill; the counter
  is the total size of the blocks in use, red zones included.\<close>

definition heap_ok :: "('a) kheap_scheme \<Rightarrow> bool" where
  "heap_ok s \<longleftrightarrow> rv_ok (heap_metadata_free s) \<and> rv_ok (heap_metadata_used s) \<and>
     heap_metadata_free s \<noteq> [] \<and> heap_metadata_used s \<noteq> [] \<and>
     unat (heap s) + 0x10000 < 2 ^ 64 \<and>
     (\<forall>x. owners (heap_metadata_free s) x + owners (heap_metadata_used s) x =
        (if in_block x (heap s) Heap_Size then 1 else 0)) \<and>
     (\<forall>x. owners (heap_metadata_free s) x > 0 \<longrightarrow> memory s (of_nat x) = 0xcc) \<and>
     (\<forall>r \<in># used_blocks s. 16 \<le> rsize r) \<and>
     Used s = sum_mset (image_mset rsize (used_blocks s))"

definition room :: "rvector \<Rightarrow> bool" where
  "room vect = list_ex (\<lambda>v. regions_used v \<noteq> regions_count) vect"

definition red_zones :: "mem \<Rightarrow> u64 \<Rightarrow> u64 \<Rightarrow> bool" where
  "red_zones m a sz \<longleftrightarrow> (\<forall>k < 8. m (a + of_nat k) = 0xcc \<and> m (a + sz - 8 + of_nat k) = 0xcc)"

lemma room_count: "rv_ok vect \<Longrightarrow> length (live_regions vect) < regions_count * length vect \<Longrightarrow> room vect"
proof (induction vect)
  case (Cons v vs)
  show ?case
  proof (cases "regions_used v = regions_count")
    case True
    with Cons.prems have "length (live v) = regions_count" by (simp add: length_live)
    with Cons show ?thesis by (simp add: room_def)
  qed (simp add: room_def)
qed simp

lemma room_free: "room vect \<Longrightarrow> \<exists>vect'. region_free_scan a sz vect = Some vect'"
  using region_free_scan_None [of a sz vect] by (auto simp: room_def list_ex_iff)

lemma block_in_heap:
  assumes "\<And>x. in_block x a sz \<Longrightarrow> in_block x h Heap_Size" "0 < sz" "block_fits a sz"
  shows "unat h \<le> unat a" "unat a + unat sz \<le> unat h + 0x10000"
proof -
  have pos: "0 < unat sz" using assms(2) by (simp add: word_less_nat_alt)
  have "in_block (unat a) a sz" "in_block (unat a + unat sz - 1) a sz"
    using pos by (simp_all add: in_block_def)
  from this [THEN assms(1)] show "unat h \<le> unat a" "unat a + unat sz \<le> unat h + 0x10000"
    using pos by (auto simp: in_block_def Heap_Size_def)
qed

lemma block_byte:
  assumes "block_fits a sz" "j < unat sz"
  shows "of_nat (unat a + j) = a + of_nat j" "in_block (unat a + j) a sz"
  using assms by (simp_all add: in_block_def)

lemma heap_bounds:
  assumes "unat h \<le> unat a" "unat a + unat sz \<le> unat h + 0x10000" "unat h + 0x10000 < 2 ^ 64" "0 < n" "n \<le> sz"
  shows "a < h + Heap_Size" "h \<le> a" "h < a + n" "a + n \<le> h + Heap_Size"
proof -
  have n: "0 < unat n" "unat n \<le> unat sz" using assms(4,5) by (simp_all add: word_less_nat_alt word_le_nat_alt)
  have h: "unat (h + Heap_Size) = unat h + 0x10000"
    using assms(3) by (simp add: Heap_Size_def unat_word_ariths)
  have an: "unat (a + n) = unat a + unat n"
    using assms(1-3) n by (simp add: unat_word_ariths)
  show "a < h + Heap_Size" "h \<le> a" "h < a + n" "a + n \<le> h + Heap_Size"
    using assms n by (simp_all add: word_less_nat_alt word_le_nat_alt h an)
qed

lemma filled_block:
  assumes "block_fits a sz" "\<And>x. in_block x a sz \<Longrightarrow> m (of_nat x) = 0xcc"
  shows "filled m a sz"
proof -
  have "m (a + 8 * of_nat i + of_nat k) = 0xcc" if "i < unat (sz div 8)" "k < 8" for i k
  proof -
    have "8 * i + k < unat sz" using that by (simp add: unat_div)
    from block_byte [OF assms(1) this] assms(2) [of "unat a + (8 * i + k)"]
    show ?thesis by (simp add: add.assoc)
  qed
  then show ?thesis by (auto simp: filled_def load64_fill_iff list_all_iff)
qed

lemma red_zones_block:
  assumes "block_fits a sz" "16 \<le> sz" "\<And>x. in_block x a sz \<Longrightarrow> m (of_nat x) = 0xcc"
  shows "red_zones m a sz"
proof -
  have sz: "16 \<le> unat sz" using assms(2) by (simp add: word_le_nat_alt)
  have first: "m (a + of_nat k) = 0xcc" if "k < unat sz" for k
    using block_byte [OF assms(1) that] assms(3) [of "unat a + k"] by simp
  have eq: "a + sz - 8 + of_nat k = a + of_nat (unat sz - 8 + k)" for k
    using sz by (simp add: of_nat_diff)
  have "m (a + sz - 8 + of_nat k) = 0xcc" if "k < 8" for k
    unfolding eq by (rule first) (use sz that in simp)
  with first sz show ?thesis by (auto simp: red_zones_def)
qed

subsection \<open>Allocation\<close>

text \<open>The first region that fits gives its first bytes; all the assertions but the two on \<open>a + sz\<close>
  hold. \<open>sz\<close> is arbitrary here: \<open>sz + 16\<close> may have wrapped.\<close>

lemma kmalloc_scan:
  assumes "heap_ok s" "room (heap_metadata_used s)"
    and "\<exists>r \<in> set (live_regions (heap_metadata_free s)). sz + 16 < rsize r"
  obtains a v u where
    "rv_ok v" "v \<noteq> []" "rv_ok u" "length u = length (heap_metadata_used s)" "block_fits a (sz + 16)"
    "mset (live_regions u) = add_mset \<lparr>address = a, rsize = sz + 16\<rparr> (used_blocks s)"
    "length (live_regions v) = length (live_regions (heap_metadata_free s))" "length v = length (heap_metadata_free s)"
    "\<And>x. owners (heap_metadata_free s) x = owners v x + (if in_block x a (sz + 16) then 1 else 0)"
    "\<And>x. owners u x = owners (heap_metadata_used s) x + (if in_block x a (sz + 16) then 1 else 0)"
    "\<And>x. in_block x a (sz + 16) \<Longrightarrow> memory s (of_nat x) = 0xcc \<and> owners (heap_metadata_used s) x = 0"
    "unat (heap s) \<le> unat a" "unat a + unat (sz + 16) < unat (heap s) + 0x10000"
    "kmalloc sz s =
       res_bind (kassert (heap s < a + sz \<and> a + sz \<le> heap s + Heap_Size)) (\<lambda>_.
       Ret (a + 8, s\<lparr>heap_metadata_free := v, heap_metadata_used := u, Used := Used s + (sz + 16)\<rparr>))"
proof -
  let ?n = "sz + 16"
  note inv = assms(1)[unfolded heap_ok_def]
  have free: "rv_ok (heap_metadata_free s)" "rv_ok (heap_metadata_used s)" using inv by simp_all
  from region_alloc_scan_Inl [OF free(1)] assms(3) obtain a v where
    scan: "region_alloc_scan ?n (heap_metadata_free s) = Inr (a, v)"
    by (cases "region_alloc_scan ?n (heap_metadata_free s)") (auto simp: not_le)
  from region_alloc_scan_Inr [OF free(1) scan] have v: "rv_ok v" "block_fits a ?n"
    "length v = length (heap_metadata_free s)"
    and own: "\<And>x. owners (heap_metadata_free s) x = owners v x + (if in_block x a ?n then 1 else 0)" by auto
  from region_alloc_scan_region [OF free(1) scan] obtain r where
    r: "r \<in> set (live_regions (heap_metadata_free s))" "address r = a" "?n < rsize r"
    and fewer: "length (live_regions v) = length (live_regions (heap_metadata_free s))" by blast
  have fits: "block_fits a (rsize r)" using free(1) r(1,2) by (auto simp: rv_ok_def list_all_iff)
  have blk: "in_block x (heap s) Heap_Size" "memory s (of_nat x) = 0xcc" "owners (heap_metadata_used s) x = 0"
    if "in_block x a (rsize r)" for x
  proof -
    have pos: "0 < owners (heap_metadata_free s) x" using that r(1,2) owners_pos by blast
    moreover have "owners (heap_metadata_free s) x + owners (heap_metadata_used s) x =
        (if in_block x (heap s) Heap_Size then 1 else 0)" using inv by blast
    ultimately show "in_block x (heap s) Heap_Size" "owners (heap_metadata_used s) x = 0"
      by (auto split: if_splits)
    show "memory s (of_nat x) = 0xcc" using inv pos by blast
  qed
  have sub: "in_block x a ?n \<Longrightarrow> in_block x a (rsize r)" for x
    using r(3) by (simp add: in_block_def word_less_nat_alt)
  have pos: "0 < rsize r" using r(3) by (metis not_le word_le_nat_alt word_less_nat_alt word_not_simps(1) linorder_neqE)
  note bounds = block_in_heap [OF blk(1) pos fits]
  from room_free [OF assms(2)] obtain u where
    u: "region_free_scan a ?n (heap_metadata_used s) = Some u" by blast
  note put = region_free_scan_Some [OF free(2) v(2) u] and ms = mset_append_region [OF free(2) u]
  have hb: "a < heap s + Heap_Size" "heap s \<le> a"
    using heap_bounds [OF bounds _ pos order_refl] inv by blast+
  show ?thesis
  proof (rule that [of v u a])
    show "kmalloc sz s = res_bind (kassert (heap s < a + sz \<and> a + sz \<le> heap s + Heap_Size)) (\<lambda>_.
       Ret (a + 8, s\<lparr>heap_metadata_free := v, heap_metadata_used := u, Used := Used s + (sz + 16)\<rparr>))"
      using inv scan u filled_block [OF v(2), of "memory s"] blk(2) sub hb
      by (simp add: kmalloc_def Let_def region_alloc_def region_free_def put_free_def put_used_def
          Heap_Red_Zone_Size_def kassert_def)
    show "unat a + unat ?n < unat (heap s) + 0x10000"
      using bounds(2) r(3) by (simp add: word_less_nat_alt)
  qed (use inv v put own ms blk(2,3) sub bounds fewer in \<open>auto simp: used_blocks_def\<close>)
qed

lemma kmalloc_ok:
  assumes "heap_ok s" "unat sz + 16 < 2 ^ 64" "room (heap_metadata_used s)"
    and "\<exists>r \<in> set (live_regions (heap_metadata_free s)). sz + 16 < rsize r"
  shows "\<exists>a s'. kmalloc sz s = (if sz = 0 \<and> a = heap s then Panic else Ret (a + 8, s')) \<and>
    heap_ok s' \<and> memory s' = memory s \<and>
    used_blocks s' = add_mset \<lparr>address = a, rsize = sz + 16\<rparr> (used_blocks s) \<and> heap s' = heap s \<and> kheap.more s' = kheap.more s \<and>
    length (heap_metadata_used s') = length (heap_metadata_used s) \<and>
    length (heap_metadata_free s') = length (heap_metadata_free s) \<and>
    length (live_regions (heap_metadata_free s')) = length (live_regions (heap_metadata_free s)) \<and>
    unat (heap s) \<le> unat a \<and> unat a + (unat sz + 16) \<le> unat (heap s) + 0x10000 \<and>
    red_zones (memory s') a (sz + 16) \<and>
    (\<forall>x. in_block x a (sz + 16) \<longrightarrow> owners (heap_metadata_used s) x = 0)"
proof -
  let ?n = "sz + 16"
  have n: "unat ?n = unat sz + 16" using assms(2) by (simp add: unat_word_ariths)
  have big: "16 \<le> ?n" using n by (simp add: word_le_nat_alt)
  note inv = assms(1)[unfolded heap_ok_def]
  show ?thesis
  proof (rule kmalloc_scan [OF assms(1,3,4)])
    fix a v u
    assume v: "rv_ok v" "v \<noteq> []" and u: "rv_ok u" "length u = length (heap_metadata_used s)"
      and fits: "block_fits a ?n"
      and ms: "mset (live_regions u) = add_mset \<lparr>address = a, rsize = ?n\<rparr> (used_blocks s)"
      and fewer: "length (live_regions v) = length (live_regions (heap_metadata_free s))"
        "length v = length (heap_metadata_free s)"
      and ov: "\<And>x. owners (heap_metadata_free s) x = owners v x + (if in_block x a ?n then 1 else 0)"
      and ou: "\<And>x. owners u x = owners (heap_metadata_used s) x + (if in_block x a ?n then 1 else 0)"
      and blk: "\<And>x. in_block x a ?n \<Longrightarrow> memory s (of_nat x) = 0xcc \<and> owners (heap_metadata_used s) x = 0"
      and bounds: "unat (heap s) \<le> unat a" "unat a + unat ?n < unat (heap s) + 0x10000"
      and run: "kmalloc sz s = res_bind (kassert (heap s < a + sz \<and> a + sz \<le> heap s + Heap_Size)) (\<lambda>_.
         Ret (a + 8, s\<lparr>heap_metadata_free := v, heap_metadata_used := u, Used := Used s + ?n\<rparr>))"
    let ?s = "s\<lparr>heap_metadata_free := v, heap_metadata_used := u, Used := Used s + ?n\<rparr>"
    have top: "unat (heap s) + 0x10000 < 2 ^ 64" using inv by simp
    then have "unat (a + sz) = unat a + unat sz" "unat (heap s + Heap_Size) = unat (heap s) + 0x10000"
      using bounds n by (simp_all add: Heap_Size_def unat_word_ariths)
    then have sums: "heap s < a + sz \<longleftrightarrow> unat (heap s) < unat a + unat sz" "a + sz \<le> heap s + Heap_Size"
      using bounds n by (simp_all add: word_less_nat_alt word_le_nat_alt)
    moreover have "unat (heap s) < unat a + unat sz \<longleftrightarrow> \<not> (unat sz = 0 \<and> unat a = unat (heap s))"
      using bounds(1) by linarith
    ultimately have "heap s < a + sz \<and> a + sz \<le> heap s + Heap_Size \<longleftrightarrow> \<not> (sz = 0 \<and> a = heap s)"
      by (simp add: word_unat_eq_iff)
    then have run': "kmalloc sz s = (if sz = 0 \<and> a = heap s then Panic else Ret (a + 8, ?s))"
      by (simp add: run kassert_def)
    have "owners v x + owners u x = (if in_block x (heap s) Heap_Size then 1 else 0)" for x
    proof -
      have "owners (heap_metadata_free s) x + owners (heap_metadata_used s) x =
          (if in_block x (heap s) Heap_Size then 1 else 0)" using inv by blast
      then show ?thesis using ou [of x] ov [of x] by simp
    qed
    moreover have "memory s (of_nat x) = 0xcc" if "0 < owners v x" for x
      using inv ov [of x] that by simp
    moreover have "u \<noteq> []" using inv u(2) by auto
    moreover have "\<forall>r \<in># used_blocks ?s. 16 \<le> rsize r" "Used ?s = sum_mset (image_mset rsize (used_blocks ?s))"
      using inv ms big by (simp_all add: used_blocks_def)
    ultimately have "heap_ok ?s" using inv v u(1) by (simp add: heap_ok_def)
    moreover have "red_zones (memory s) a ?n" by (rule red_zones_block) (use fits blk big in auto)
    ultimately show ?thesis using run' ms bounds n blk u(2) fewer
      by (intro exI [of _ a] exI [of _ ?s]) (auto simp: used_blocks_def)
  qed
qed

lemma wrapped_window:
  fixes h a z :: nat
  assumes "h \<le> a" "a < h + 0x10000" "h + 0x10000 < 2 ^ 64" "2 ^ 64 \<le> z + 16" "z < 2 ^ 64"
  shows "h < (a + z) mod 2 ^ 64 \<and> (a + z) mod 2 ^ 64 \<le> h + 0x10000 \<longleftrightarrow> h + 2 ^ 64 < a + z"
proof (cases "a + z < 2 ^ 64")
  case True
  with assms show ?thesis by simp
next
  case False
  then obtain d where d: "a + z = 2 ^ 64 + d" using le_Suc_ex [of "2 ^ 64" "a + z"] by auto
  with assms have "d < 2 ^ 64" by linarith
  with d have "(a + z) mod 2 ^ 64 = d" by simp
  with d assms show ?thesis by linarith
qed

text \<open>When \<open>sz + 16\<close> wraps, the block that is cut off is shorter than its own red zones.\<close>

lemma kmalloc_wraps:
  assumes "heap_ok s" "2 ^ 64 \<le> unat sz + 16" "room (heap_metadata_used s)"
    and "\<exists>r \<in> set (live_regions (heap_metadata_free s)). sz + 16 < rsize r"
  shows "\<exists>a s'. kmalloc sz s = (if unat (heap s) + 2 ^ 64 < unat a + unat sz then Ret (a + 8, s') else Panic) \<and>
    unat (heap s) \<le> unat a \<and> unat a + unat (sz + 16) < unat (heap s) + 0x10000 \<and> unat (sz + 16) < 16 \<and>
    used_blocks s' = add_mset \<lparr>address = a, rsize = sz + 16\<rparr> (used_blocks s) \<and>
    (\<forall>x. in_block x a (sz + 16) \<longrightarrow> owners (heap_metadata_used s) x = 0)"
proof (rule kmalloc_scan [OF assms(1,3,4)])
  fix a v u
  assume ms: "mset (live_regions u) = add_mset \<lparr>address = a, rsize = sz + 16\<rparr> (used_blocks s)"
    and bounds: "unat (heap s) \<le> unat a" "unat a + unat (sz + 16) < unat (heap s) + 0x10000"
    and blk: "\<And>x. in_block x a (sz + 16) \<Longrightarrow> memory s (of_nat x) = 0xcc \<and> owners (heap_metadata_used s) x = 0"
    and run: "kmalloc sz s = res_bind (kassert (heap s < a + sz \<and> a + sz \<le> heap s + Heap_Size)) (\<lambda>_.
       Ret (a + 8, s\<lparr>heap_metadata_free := v, heap_metadata_used := u, Used := Used s + (sz + 16)\<rparr>))"
  have n: "unat (sz + 16) < 16" "unat sz < 2 ^ 64"
  proof -
    have "unat sz < 2 ^ LENGTH(64)" by (rule unsigned_less)
    then show lt: "unat sz < 2 ^ 64" by simp
    have "unat (sz + 16) = (unat sz + 16) mod 2 ^ 64" by (simp add: unat_word_ariths)
    also have "\<dots> = (unat sz + 16 - 2 ^ 64) mod 2 ^ 64" using assms(2) by (rule le_mod_geq)
    finally show "unat (sz + 16) < 16" using lt by simp
  qed
  have top: "unat (heap s) + 0x10000 < 2 ^ 64" using assms(1) by (simp add: heap_ok_def)
  have sum: "unat (a + sz) = (unat a + unat sz) mod 2 ^ 64" by (simp add: unat_word_ariths)
  have hs: "unat (heap s + Heap_Size) = unat (heap s) + 0x10000"
    using top by (simp add: Heap_Size_def unat_word_ariths)
  have "heap s < a + sz \<and> a + sz \<le> heap s + Heap_Size \<longleftrightarrow> unat (heap s) + 2 ^ 64 < unat a + unat sz"
    unfolding word_less_nat_alt word_le_nat_alt sum hs
    by (rule wrapped_window [OF bounds(1) _ top assms(2) n(2)]) (use bounds(2) in linarith)
  then show ?thesis using run bounds n ms blk
    by (intro exI [of _ a] exI [of _ "s\<lparr>heap_metadata_free := v, heap_metadata_used := u, Used := Used s + (sz + 16)\<rparr>"])
      (simp add: used_blocks_def kassert_def)
qed

lemma kmalloc_full:
  assumes "heap_ok s" "\<forall>r \<in> set (live_regions (heap_metadata_free s)). rsize r \<le> sz + 16"
  shows "kmalloc sz s = Ret (0, s)"
proof -
  have "region_alloc_scan (sz + 16) (heap_metadata_free s) = Inl Error_No_Memory"
    using region_alloc_scan_Inl assms by (simp add: heap_ok_def)
  with assms(1) show ?thesis
    by (simp add: kmalloc_def region_alloc_def heap_ok_def Let_def Heap_Red_Zone_Size_def)
qed

subsection \<open>Release\<close>

lemma single_scan: "length vect = 1 \<Longrightarrow> region_find_scan False a vect = (sz, v, freed) \<Longrightarrow> freed = None"
  by (cases vect) (auto simp: Let_def split: option.splits if_splits)

text \<open>The block a pointer names is found, with its size.\<close>

lemma find_block:
  assumes "heap_ok s" "\<lparr>address = a, rsize = sz\<rparr> \<in># used_blocks s"
    and "region_find_scan False a (heap_metadata_used s) = (sz', v, freed)"
  shows "sz' = sz" "rv_ok v" "block_fits a sz" "used_blocks s = add_mset \<lparr>address = a, rsize = sz\<rparr> (mset (live_regions v))"
    and "owners (heap_metadata_used s) x = owners v x + (if in_block x a sz then 1 else 0)"
proof -
  note inv = assms(1)[unfolded heap_ok_def]
  have rv: "rv_ok (heap_metadata_used s)" using inv by simp
  have ex: "\<exists>r \<in> set (live_regions (heap_metadata_used s)). address r = a"
    using assms(2) by (force simp: used_blocks_def)
  note found = region_find_scan_correct [OF rv assms(3)] and ms = mset_find_region [OF rv assms(3) ex]
  show "sz' = sz"
  proof (rule ccontr)
    assume "sz' \<noteq> sz"
    with assms(2) ms have "\<lparr>address = a, rsize = sz\<rparr> \<in> set (live_regions v)"
      by (auto simp: used_blocks_def)
    moreover have "16 \<le> rsize r" if "r \<in># used_blocks s" for r using inv that by blast
    then have "16 \<le> sz" "16 \<le> sz'" using assms(2) ms by (force simp: used_blocks_def)+
    then have "in_block (unat a) a sz" "in_block (unat a) a sz'"
      by (simp_all add: in_block_def word_le_nat_alt)
    ultimately have "0 < owners v (unat a)" using owners_pos [of v "unat a"] by force
    moreover have "owners (heap_metadata_used s) (unat a) = owners v (unat a) + 1"
      using found ex \<open>in_block (unat a) a sz'\<close> by simp
    ultimately have "2 \<le> owners (heap_metadata_used s) (unat a)" by simp
    moreover have "owners (heap_metadata_free s) (unat a) + owners (heap_metadata_used s) (unat a) \<le> 1"
      using inv by (metis le_refl zero_le_one)
    ultimately show False by simp
  qed
  then show "rv_ok v" "block_fits a sz" "used_blocks s = add_mset \<lparr>address = a, rsize = sz\<rparr> (mset (live_regions v))"
    "owners (heap_metadata_used s) x = owners v x + (if in_block x a sz then 1 else 0)"
    using found ex ms by (auto simp: used_blocks_def)
qed


lemma used_block_bounds:
  assumes "heap_ok s" "\<lparr>address = a, rsize = sz\<rparr> \<in># used_blocks s"
  shows "block_fits a sz" "16 \<le> sz" "unat (heap s) \<le> unat a" "unat a + unat sz \<le> unat (heap s) + 0x10000"
proof -
  obtain sz' v freed where scan: "region_find_scan False a (heap_metadata_used s) = (sz', v, freed)"
    by (metis prod_cases3)
  note found = find_block [OF assms scan]
  note inv = assms(1)[unfolded heap_ok_def]
  show "block_fits a sz" by (rule found(3))
  show sz: "16 \<le> sz" using inv assms(2) by fastforce
  have "in_block x (heap s) Heap_Size" if "in_block x a sz" for x
  proof -
    have "0 < owners (heap_metadata_used s) x" using found(5) that by simp
    moreover have "owners (heap_metadata_free s) x + owners (heap_metadata_used s) x =
        (if in_block x (heap s) Heap_Size then 1 else 0)" using inv by blast
    ultimately show ?thesis by (auto split: if_splits)
  qed
  from block_in_heap [OF this _ found(3)] sz
  show "unat (heap s) \<le> unat a" "unat a + unat sz \<le> unat (heap s) + 0x10000"
    by (auto simp: word_less_nat_alt word_le_nat_alt)
qed

definition refill :: "mem \<Rightarrow> u64 \<Rightarrow> u64 \<Rightarrow> mem" where
  "refill m a sz = (\<lambda>x. if x - a < sz then 0xcc else m x)"

lemma memset_fill: "snd (memset m a (ucast Heap_Red_Zone_Fill) sz) = refill m a sz"
proof -
  have "(ucast (ucast Heap_Red_Zone_Fill :: u32) :: u8) = 0xcc"
    unfolding Heap_Red_Zone_Fill_def by code_simp
  then show ?thesis by (simp only: memset_at refill_def snd_conv)
qed

lemma unat_of_nat_below: "n < unat sz \<Longrightarrow> unat (of_nat n :: u64) = n" for sz :: u64
proof -
  have "unat sz < 2 ^ LENGTH(64)" by (rule unsigned_less)
  then show "n < unat sz \<Longrightarrow> unat (of_nat n :: u64) = n" by (simp add: unat_of_nat)
qed

lemma refill_block:
  assumes "block_fits a sz" "in_block x a sz" shows "refill m a sz (of_nat x) = 0xcc"
proof -
  have "of_nat x - a = of_nat (x - unat a)" using assms by (simp add: in_block_def of_nat_diff)
  moreover have "unat (of_nat (x - unat a) :: u64) = x - unat a"
    by (rule unat_of_nat_below [of _ sz]) (use assms in \<open>auto simp: in_block_def\<close>)
  ultimately show ?thesis using assms by (auto simp: refill_def word_less_nat_alt in_block_def)
qed

lemma kfree_ok:
  assumes "heap_ok s" "\<lparr>address = a, rsize = sz\<rparr> \<in># used_blocks s" "red_zones (memory s) a sz"
    and "length (heap_metadata_used s) = 1" "room (heap_metadata_free s)"
  shows "\<exists>s'. kfree (a + 8) s = Ret s' \<and> heap_ok s' \<and> heap s' = heap s \<and> kheap.more s' = kheap.more s \<and>
    length (heap_metadata_used s') = 1 \<and> length (heap_metadata_free s') = length (heap_metadata_free s) \<and>
    length (live_regions (heap_metadata_free s')) = Suc (length (live_regions (heap_metadata_free s))) \<and>
    memory s' = refill (memory s) a sz \<and>
    used_blocks s = add_mset \<lparr>address = a, rsize = sz\<rparr> (used_blocks s') \<and>
    (\<forall>x. owners (heap_metadata_free s') x =
       owners (heap_metadata_free s) x + (if in_block x a sz then 1 else 0))"
proof -
  note inv = assms(1)[unfolded heap_ok_def] and blk = used_block_bounds [OF assms(1,2)]
  obtain sz' v freed where scan: "region_find_scan False a (heap_metadata_used s) = (sz', v, freed)"
    by (metis prod_cases3)
  note found = find_block [OF assms(1,2) scan]
  have freed: "freed = None" using single_scan [OF assms(4) scan] .
  obtain f where f: "region_free_scan a sz (heap_metadata_free s) = Some f"
    using room_free [OF assms(5)] by blast
  have put: "rv_ok f" "length f = length (heap_metadata_free s)"
    "\<And>x. owners f x = owners (heap_metadata_free s) x + (if in_block x a sz then 1 else 0)"
    using region_free_scan_Some [OF _ blk(1) f] inv by auto
  let ?s = "s\<lparr>heap_metadata_used := v, heap_metadata_free := f,
      memory := refill (memory s) a sz, Used := Used s - sz\<rparr>"
  have big: "0 < sz" using blk(2) by (simp add: word_less_nat_alt word_le_nat_alt)
  have a: "a + 8 \<noteq> 0"
  proof -
    have "unat (a + 8) = unat a + 8"
      using blk(2-4) inv by (simp add: unat_word_ariths word_le_nat_alt)
    then show ?thesis by (metis add_eq_0_iff_both_eq_0 unat_0 zero_neq_numeral)
  qed
  have run: "kfree (a + 8) s = Ret ?s"
    using a scan freed f found(1) inv assms(3) heap_bounds [OF blk(3,4) _ big order_refl]
    by (simp add: kfree_def Let_def region_find_size_and_free_def put_used_def put_free_def
        Heap_Red_Zone_Size_def load64_fill_iff red_zones_def memset_fill region_free_def
        add_diff_eq)
  have "owners f x + owners v x = (if in_block x (heap s) Heap_Size then 1 else 0)" for x
  proof -
    have "owners (heap_metadata_free s) x + owners (heap_metadata_used s) x =
        (if in_block x (heap s) Heap_Size then 1 else 0)" using inv by blast
    then show ?thesis using put(3) [of x] found(5) [of x] by simp
  qed
  moreover have "refill (memory s) a sz (of_nat x) = 0xcc" if "0 < owners f x" for x
  proof (cases "in_block x a sz")
    case True
    then show ?thesis by (rule refill_block [OF blk(1)])
  next
    case False
    then have "memory s (of_nat x) = 0xcc" using inv put(3) [of x] that by simp
    then show ?thesis by (simp add: refill_def)
  qed
  moreover have "f \<noteq> []" "v \<noteq> []"
    using inv put(2) length_find_scan [OF scan freed] by auto
  moreover have "Used ?s = sum_mset (image_mset rsize (used_blocks ?s))"
    using inv found(4) by (simp add: used_blocks_def)
  moreover have "\<forall>r \<in># used_blocks ?s. 16 \<le> rsize r"
  proof
    fix r assume "r \<in># used_blocks ?s"
    then have "r \<in># used_blocks s" using found(4) by (simp add: used_blocks_def)
    with inv show "16 \<le> rsize r" by blast
  qed
  ultimately have "heap_ok ?s" using inv put(1) found(2) by (simp add: heap_ok_def)
  moreover have "length (live_regions f) = Suc (length (live_regions (heap_metadata_free s)))"
    using arg_cong [OF mset_append_region [OF _ f], of size] inv by simp
  moreover have "length v = 1" using length_find_scan [OF scan freed] assms(4) by simp
  ultimately show ?thesis using run put(2,3) found(4)
    by (intro exI [of _ ?s]) (simp add: used_blocks_def)
qed


text \<open>(C2) What \<open>kmalloc\<close> does for every size, while the pages of the record of used blocks have a free
  entry. If no free region is larger than the size with its two red zones, it returns \<open>NULL\<close> and
  changes nothing. Otherwise it cuts a block off a free region, inside the heap and disjoint from
  the blocks in use. If \<open>sz + 16\<close> fits 64 bits, it returns the block: the red zones are
  intact, the record of blocks gains just this one, no memory changes, and the heap's invariant (every byte free or in use once, free
  bytes filled, the counter exact) is kept; only a request for no bytes that meets the first byte of the
  heap fails an assertion. If \<open>sz + 16\<close> wraps, the block has fewer than 16 bytes, and unless
  it lies at the very start of the heap, where an assertion fails, \<open>kmalloc\<close> returns it as if it had \<open>sz\<close> bytes.\<close>

theorem kmalloc_correct:
  assumes "heap_ok s" "room (heap_metadata_used s)"
  shows "if \<forall>r \<in> set (live_regions (heap_metadata_free s)). rsize r \<le> sz + 16 then kmalloc sz s = Ret (0, s)
    else if unat sz + 16 < 2 ^ 64 then
      \<exists>a s'. kmalloc sz s = (if sz = 0 \<and> a = heap s then Panic else Ret (a + 8, s')) \<and>
        heap_ok s' \<and> memory s' = memory s \<and>
        used_blocks s' = add_mset \<lparr>address = a, rsize = sz + 16\<rparr> (used_blocks s) \<and>
        unat (heap s) \<le> unat a \<and> unat a + (unat sz + 16) \<le> unat (heap s) + 0x10000 \<and>
        red_zones (memory s') a (sz + 16) \<and>
        (\<forall>x. in_block x a (sz + 16) \<longrightarrow> owners (heap_metadata_used s) x = 0)
    else
      \<exists>a s'. kmalloc sz s = (if unat (heap s) + 2 ^ 64 < unat a + unat sz then Ret (a + 8, s') else Panic) \<and>
        unat (heap s) \<le> unat a \<and> unat a + unat (sz + 16) < unat (heap s) + 0x10000 \<and> unat (sz + 16) < 16 \<and>
        used_blocks s' = add_mset \<lparr>address = a, rsize = sz + 16\<rparr> (used_blocks s) \<and>
        (\<forall>x. in_block x a (sz + 16) \<longrightarrow> owners (heap_metadata_used s) x = 0)"
proof (cases "\<forall>r \<in> set (live_regions (heap_metadata_free s)). rsize r \<le> sz + 16")
  case True
  then show ?thesis using kmalloc_full [OF assms(1), of sz] by simp
next
  case False
  then have fit: "\<exists>r \<in> set (live_regions (heap_metadata_free s)). sz + 16 < rsize r" by (auto simp: not_le)
  show ?thesis
  proof (cases "unat sz + 16 < 2 ^ 64")
    case True
    from kmalloc_ok [OF assms(1) True assms(2) fit] show ?thesis
      unfolding if_not_P [OF False] if_P [OF True] by blast
  next
    case wraps: False
    then have "2 ^ 64 \<le> unat sz + 16" by (simp only: not_less)
    from kmalloc_wraps [OF assms(1) this assms(2) fit] show ?thesis
      unfolding if_not_P [OF False] if_not_P [OF wraps] .
  qed
qed


text \<open>(C27) A write of one byte past either end of a block is caught when the block is freed: if any
  byte of a red zone has changed, \<open>kfree\<close> panics.\<close>

theorem kfree_detects_overflow:
  assumes "heap_ok s" "\<lparr>address = a, rsize = sz\<rparr> \<in># used_blocks s" "\<not> red_zones (memory s) a sz"
    and "length (heap_metadata_used s) = 1"
  shows "kfree (a + 8) s = Panic"
proof -
  note inv = assms(1)[unfolded heap_ok_def] and blk = used_block_bounds [OF assms(1,2)]
  obtain sz' v freed where scan: "region_find_scan False a (heap_metadata_used s) = (sz', v, freed)"
    by (metis prod_cases3)
  note found = find_block [OF assms(1,2) scan]
  have freed: "freed = None" using single_scan [OF assms(4) scan] .
  have "unat (a + 8) = unat a + 8"
    using blk(2-4) inv by (simp add: unat_word_ariths word_le_nat_alt)
  then have "a + 8 \<noteq> 0" by (metis add_eq_0_iff_both_eq_0 unat_0 zero_neq_numeral)
  then show ?thesis
    using scan freed found(1) inv assms(3)
    by (auto simp: kfree_def Let_def region_find_size_and_free_def put_used_def
        Heap_Red_Zone_Size_def load64_fill_iff red_zones_def add_diff_eq kassert_def)
qed


text \<open>A heap at \<open>0x100000\<close>, empty and with one block of 32 bytes in use.\<close>

definition demo_heap :: kheap where
  "demo_heap = \<lparr>frames = \<lambda>_ _. 0, cr3 = 0, pa_lock = Lock_Clear, Physical_Page = 0,
     slab_higher_half_lock = Lock_Clear, slab_higher_half = [], Usage = 0,
     heap_metadata_used = [fresh_section 0x9000],
     heap_metadata_free = one_region 0x100000 0x10000, heap = 0x100000, Used = 0,
     memory = \<lambda>_. 0xcc\<rparr>"

definition demo_block :: kheap where
  "demo_block = demo_heap\<lparr>heap_metadata_used := one_region 0x100000 0x30,
     heap_metadata_free := one_region 0x100030 0xffd0, Used := 0x30\<rparr>"

lemma one_region_own: "owners (one_region a sz) x = (if in_block x a sz then 1 else 0)"
  by (simp add: owners_def one_region_live)

lemma one_region_room: "room (one_region a sz)" "length (one_region a sz) = 1"
  by (simp_all add: room_def one_region_def region_append_def fresh_section_def regions_count_eq)

lemma one_region_ne [simp]: "one_region a sz \<noteq> []"
  by (simp add: one_region_def)

theorem region_blocks_never_overlap_witness:
  "\<exists>s' blocks. pool_run (vect_alloc heap_metadata_free put_free)
      (region_free heap_metadata_free put_free slab_alloc_locked)
      [Pool_Alloc 0x800, Pool_Alloc 0x1000, Pool_Release 1] (demo_heap, []) = Ret (s', blocks) \<and>
    blocks = [(0x100800, 0x1000)] \<and> owners (heap_metadata_free s') 0x100900 = 0"
proof -
  let ?ops = "[Pool_Alloc 0x800, Pool_Alloc 0x1000, Pool_Release 1]"
  let ?run = "pool_run (vect_alloc heap_metadata_free put_free) (region_free heap_metadata_free put_free slab_alloc_locked)"
  have "(case ?run ?ops (demo_heap, []) of Ret (s', blocks) \<Rightarrow> blocks = [(0x100800, 0x1000)] | _ \<Rightarrow> False)"
    by code_simp
  then obtain s' where run: "?run ?ops (demo_heap, []) = Ret (s', [(0x100800, 0x1000)])"
    by (auto split: res.splits)
  have "kernel_vector (heap_metadata_free :: kheap \<Rightarrow> rvector) put_free" by (simp add: kernel_vector_def)
  moreover have "rv_ok (heap_metadata_free demo_heap)" "\<forall>x. owners (heap_metadata_free demo_heap) x \<le> 1"
    using one_region_owners by (simp_all add: demo_heap_def one_region_ok block_fits_def)
  ultimately have "owners (heap_metadata_free s') 0x100900 = 0"
    using region_blocks_never_overlap [OF _ _ _ run, of 0 "0x100900"] by (simp add: in_block_def)
  with run show ?thesis by blast
qed

lemma demo_heap_ok: "heap_ok demo_heap"
  by (simp add: heap_ok_def demo_heap_def one_region_own used_blocks_def fresh_section_ok
      one_region_ok block_fits_def Heap_Size_def)

lemma demo_block_ok: "heap_ok (demo_block\<lparr>memory := m\<rparr>)" if "\<And>x. in_block x 0x100030 0xffd0 \<Longrightarrow> m (of_nat x) = 0xcc"
  using that
  by (simp add: heap_ok_def demo_heap_def demo_block_def used_blocks_def one_region_live one_region_ok
      block_fits_def Heap_Size_def one_region_own) (auto simp: in_block_def)

theorem kmalloc_correct_witness:
  "(\<exists>a s'. kmalloc 0x20 demo_heap = Ret (a + 8, s') \<and> 0x100000 \<le> unat a \<and> unat a + 0x30 \<le> 0x110000 \<and>
     used_blocks s' = {#\<lparr>address = a, rsize = 0x30\<rparr>#}) \<and>
   (\<exists>p s'. kmalloc 0xfffffffffffffff8 demo_block = Ret (p, s') \<and> p \<noteq> 0)"
proof
  have "room (heap_metadata_used demo_heap)" "used_blocks demo_heap = {#}"
    "live_regions (heap_metadata_free demo_heap) = [\<lparr>address = 0x100000, rsize = 0x10000\<rparr>]" "heap demo_heap = 0x100000"
    by (simp_all add: demo_heap_def room_def fresh_section_room used_blocks_def fresh_section_ok one_region_live)
  with kmalloc_correct [OF demo_heap_ok, of "0x20"]
  show "\<exists>a s'. kmalloc 0x20 demo_heap = Ret (a + 8, s') \<and> 0x100000 \<le> unat a \<and> unat a + 0x30 \<le> 0x110000 \<and>
     used_blocks s' = {#\<lparr>address = a, rsize = 0x30\<rparr>#}" by auto
next
  have eight: "(0x10000000000000008 :: u64) = 8" by code_simp
  have same: "demo_block\<lparr>memory := \<lambda>_. 0xcc\<rparr> = demo_block" by (simp add: demo_block_def demo_heap_def)
  have ok: "heap_ok demo_block" using demo_block_ok [of "\<lambda>_. 0xcc"] by (simp add: same)
  have "room (heap_metadata_used demo_block)" "heap demo_block = 0x100000"
    "live_regions (heap_metadata_free demo_block) = [\<lparr>address = 0x100030, rsize = 0xffd0\<rparr>]"
    by (simp_all add: demo_block_def demo_heap_def one_region_room one_region_live)
  with kmalloc_correct [OF ok, of "0xfffffffffffffff8"]
  have "\<exists>a s'. kmalloc 0xfffffffffffffff8 demo_block = (if 0x100008 < unat a then Ret (a + 8, s') else Panic) \<and>
      0x100000 \<le> unat a \<and> unat a < 0x10fff8 \<and>
      used_blocks s' = add_mset \<lparr>address = a, rsize = 8\<rparr> (used_blocks demo_block) \<and>
      (\<forall>x. in_block x a 8 \<longrightarrow> owners (heap_metadata_used demo_block) x = 0)"
    by (simp add: eight)
  then obtain a s' where
    run: "kmalloc 0xfffffffffffffff8 demo_block = (if 0x100008 < unat a then Ret (a + 8, s') else Panic)"
    and bounds: "0x100000 \<le> unat a" "unat a < 0x10fff8"
    and apart: "\<forall>x. in_block x a 8 \<longrightarrow> owners (heap_metadata_used demo_block) x = 0"
    by blast
  have "in_block (unat a) a 8" by (simp add: in_block_def)
  with apart have "\<not> in_block (unat a) 0x100000 0x30"
    by (auto simp: demo_block_def one_region_own split: if_splits)
  with bounds have a: "0x100030 \<le> unat a" by (simp add: in_block_def)
  then have "unat (a + 8) = unat a + 8" using bounds by (simp add: unat_word_ariths)
  then have "a + 8 \<noteq> 0" by (metis add_eq_0_iff_both_eq_0 unat_0 zero_neq_numeral)
  with run a show "\<exists>p s'. kmalloc 0xfffffffffffffff8 demo_block = Ret (p, s') \<and> p \<noteq> 0" by auto
qed


theorem kfree_detects_overflow_witness:
  "kfree 0x100008 (demo_block\<lparr>memory := (\<lambda>_. 0xcc)(0x100028 := 0)\<rparr>) = Panic"
proof -
  let ?s = "demo_block\<lparr>memory := (\<lambda>_. 0xcc)(0x100028 := 0)\<rparr>"
  have ok: "heap_ok ?s"
  proof (rule demo_block_ok)
    fix x assume "in_block x 0x100030 0xffd0"
    then have "0x100030 \<le> x" "x < 0x110000" by (simp_all add: in_block_def)
    then have "unat (of_nat x :: u64) = x" by (simp add: unat_of_nat)
    with \<open>0x100030 \<le> x\<close> have "of_nat x \<noteq> (0x100028 :: u64)" by auto
    then show "((\<lambda>_. 0xcc)(0x100028 := 0)) (of_nat x :: u64) = (0xcc :: u8)" by simp
  qed
  have "\<not> red_zones (memory ?s) 0x100000 0x30" by (auto simp: red_zones_def intro: exI [of _ 0])
  then show ?thesis
    using kfree_detects_overflow [OF ok, of "0x100000" "0x30"]
    by (simp add: used_blocks_def demo_block_def one_region_live one_region_room)
qed

end
