(* ===== verification/Kernel_Tables.thy ===== *)
theory Kernel_Tables
  imports Heap Symbols
begin

text \<open>
  Hash tables on the kernel's own heap. \<open>kernel/core/hashtable.c\<close> calls \<open>kmalloc\<close> and \<open>kfree\<close> of
  \<open>kernel/core/heap.c\<close>; here the contract \<open>table_heap\<close> of \<open>Hashtable\<close> is met by them, and what
  \<open>Hashtable\<close> and \<open>Symbols\<close> show of any such heap holds of the kernel's tables.
\<close>

subsection \<open>The heap as the tables see it\<close>

text \<open>Room for \<open>i\<close> more blocks in the page that records the blocks in use, and for \<open>k\<close> more in the
  pages that record the free ones.\<close>

definition heap_ready :: "nat \<Rightarrow> nat \<Rightarrow> ('a) kheap_scheme \<Rightarrow> bool" where
  "heap_ready i k s \<longleftrightarrow> heap_ok s \<and> length (heap_metadata_used s) = 1 \<and>
     size (used_blocks s) + i \<le> regions_count \<and>
     length (live_regions (heap_metadata_free s)) + k \<le> regions_count * length (heap_metadata_free s)"

text \<open>The block that \<open>kmalloc\<close> returned as \<open>p\<close> for \<open>n\<close> bytes is in use and its red zones are intact.\<close>

definition heap_owned :: "('a) kheap_scheme \<Rightarrow> u64 \<Rightarrow> u64 \<Rightarrow> bool" where
  "heap_owned s p n \<longleftrightarrow> \<lparr>address = p - 8, rsize = n + 16\<rparr> \<in># used_blocks s \<and>
     red_zones (memory s) (p - 8) (n + 16)"

lemma heap_ready_room:
  "heap_ready (Suc i) k s \<Longrightarrow> room (heap_metadata_used s)"
  "heap_ready i (Suc k) s \<Longrightarrow> room (heap_metadata_free s)"
  by (auto simp: heap_ready_def heap_ok_def used_blocks_def intro!: room_count)

text \<open>What \<open>kfree\<close> writes is the fill of the red zones.\<close>

lemma red_zones_refill: "red_zones m b n \<Longrightarrow> red_zones (refill m a sz) b n"
  by (simp add: red_zones_def refill_def)

interpretation kernel_heap: table_heap kmalloc kfree heap_ready heap_owned kheap.more
proof unfold_locales
  fix i k and n :: u64 and s :: "('a) kheap_scheme"
  assume ready: "heap_ready (Suc i) k s" and n: "0 < n" "unat n + 16 < 2 ^ 64"
  have ok: "heap_ok s" using ready by (simp add: heap_ready_def)
  show "\<exists>p s'. kmalloc n s = Ret (p, s') \<and>
      (p = 0 \<and> s' = s \<or>
       p \<noteq> 0 \<and> heap_ready i k s' \<and> heap_owned s' p n \<and> kheap.more s' = kheap.more s \<and>
       (\<forall>q b. heap_owned s q b \<longrightarrow> q \<noteq> p \<and> heap_owned s' q b))"
  proof (cases "\<forall>r \<in> set (live_regions (heap_metadata_free s)). rsize r \<le> n + 16")
    case True
    then show ?thesis using kmalloc_full [OF ok, of n] by simp
  next
    case False
    then have "\<exists>r \<in> set (live_regions (heap_metadata_free s)). n + 16 < rsize r" by (auto simp: not_le)
    from kmalloc_ok [OF ok n(2) heap_ready_room(1) [OF ready] this] obtain a s' where
      run0: "kmalloc n s = (if n = 0 \<and> a = heap s then Panic else Ret (a + 8, s'))" and s': "heap_ok s'" "memory s' = memory s"
        "used_blocks s' = add_mset \<lparr>address = a, rsize = n + 16\<rparr> (used_blocks s)" "kheap.more s' = kheap.more s"
        "length (heap_metadata_used s') = length (heap_metadata_used s)"
        "length (heap_metadata_free s') = length (heap_metadata_free s)"
        "length (live_regions (heap_metadata_free s')) = length (live_regions (heap_metadata_free s))"
        "red_zones (memory s') a (n + 16)" "unat a + (unat n + 16) \<le> unat (heap s) + 0x10000"
      and apart: "\<forall>x. in_block x a (n + 16) \<longrightarrow> owners (heap_metadata_used s) x = 0" by blast
    have run: "kmalloc n s = Ret (a + 8, s')" using run0 n(1) by auto
    have "unat (a + 8) = unat a + 8" using s'(9) ok by (simp add: unat_word_ariths heap_ok_def)
    then have ne: "a + 8 \<noteq> 0" by (metis add_eq_0_iff_both_eq_0 unat_0 zero_neq_numeral)
    have "q \<noteq> a + 8 \<and> heap_owned s' q b" if "heap_owned s q b" for q b
    proof -
      from that have blk: "\<lparr>address = q - 8, rsize = b + 16\<rparr> \<in># used_blocks s" by (simp add: heap_owned_def)
      note bounds = used_block_bounds [OF ok blk]
      have "q - 8 \<noteq> a"
      proof
        assume "q - 8 = a"
        have "in_block (unat a) a (b + 16)" using bounds(2) by (simp add: in_block_def word_le_nat_alt)
        with blk \<open>q - 8 = a\<close> have "0 < owners (heap_metadata_used s) (unat a)"
          by (force simp: owners_pos used_blocks_def)
        moreover have "in_block (unat a) a (n + 16)"
          using n(2) by (simp add: in_block_def unat_word_ariths)
        ultimately show False using apart by simp
      qed
      with that s'(2,3) show ?thesis by (auto simp: heap_owned_def)
    qed
    moreover have "heap_ready i k s'" using ready s' by (simp add: heap_ready_def)
    ultimately show ?thesis using run ne s' by (auto simp: heap_owned_def)
  qed
next
  fix i k and p n :: u64 and s :: "('a) kheap_scheme"
  assume ready: "heap_ready i (Suc k) s" and own: "heap_owned s p n"
  have ok: "heap_ok s" "length (heap_metadata_used s) = 1" using ready by (simp_all add: heap_ready_def)
  have blk: "\<lparr>address = p - 8, rsize = n + 16\<rparr> \<in># used_blocks s" "red_zones (memory s) (p - 8) (n + 16)"
    using own by (simp_all add: heap_owned_def)
  from kfree_ok [OF ok(1) blk ok(2) heap_ready_room(2) [OF ready]] obtain s' where
    run: "kfree p s = Ret s'" and s': "heap_ok s'" "kheap.more s' = kheap.more s"
      "length (heap_metadata_used s') = 1" "length (heap_metadata_free s') = length (heap_metadata_free s)"
      "length (live_regions (heap_metadata_free s')) = Suc (length (live_regions (heap_metadata_free s)))"
      "memory s' = refill (memory s) (p - 8) (n + 16)"
      "used_blocks s = add_mset \<lparr>address = p - 8, rsize = n + 16\<rparr> (used_blocks s')" by auto
  have "heap_owned s' q b" if "heap_owned s q b" "q \<noteq> p" for q b
  proof -
    from that have q: "\<lparr>address = q - 8, rsize = b + 16\<rparr> \<in># used_blocks s" "red_zones (memory s) (q - 8) (b + 16)"
      by (simp_all add: heap_owned_def)
    have "red_zones (memory s') (q - 8) (b + 16)"
      unfolding s'(6) using q(2) by (rule red_zones_refill)
    with q(1) s'(7) that(2) show ?thesis by (auto simp: heap_owned_def)
  qed
  moreover have "heap_ready (Suc i) k s'" using ready s' arg_cong [OF s'(7), of size] by (simp add: heap_ready_def)
  ultimately show "\<exists>s'. kfree p s = Ret s' \<and> heap_ready (Suc i) k s' \<and> kheap.more s' = kheap.more s \<and>
      (\<forall>q b. heap_owned s q b \<longrightarrow> q \<noteq> p \<longrightarrow> heap_owned s' q b)"
    using run s'(2) by blast
qed

subsection \<open>Storing in a table\<close>


subsection \<open>The symbols of the kernel\<close>

text \<open>(C33) For fewer than \<open>2 ^ 55\<close> symbols with distinct names shorter than a page, \<open>symbol_init\<close> on the kernel's heap returns, with \<open>Ok\<close> or
  \<open>Error_No_Memory\<close>, as long as the records of the heap have entries left for three more blocks in use
  and one more free block; after \<open>Ok\<close> every name of the embedded table resolves to its location. The invariant
  of the heap holds in either case.\<close>

theorem symbol_init_resolves:
  assumes "distinct_names m symbols" "length symbols < 2 ^ 55" "heap_ready 3 1 s"
  shows "\<exists>st table s'. symbol_init m kmalloc kfree symbols s = Ret (st, table, s') \<and>
    (st = Ok \<or> st = Error_No_Memory) \<and> heap_ok s' \<and> kheap.more s' = kheap.more s \<and>
    (st = Ok \<longrightarrow> (\<forall>e \<in> set symbols. symbol_get table (sym_name e) = Ret (location e)))"
  using kernel_heap.symbol_init_correct [OF assms] unfolding heap_ready_def by blast

subsection \<open>Witnesses\<close>

declare hash_str_loop.simps [code]

text \<open>A table of 32 slots in a block of the heap.\<close>

definition demo_table_heap :: kheap where
  "demo_table_heap = demo_heap\<lparr>heap_metadata_used := one_region 0x4ff8 0x310,
     heap_metadata_free := one_region 0x5308 0xfcf0, heap := 0x4ff8, Used := 0x310\<rparr>"

lemma demo_table_heap_ready: "heap_ready 1 1 demo_table_heap" "heap_owned demo_table_heap 0x5000 (data_bytes demo_table)"
proof -
  have ok: "heap_ok demo_table_heap"
    by (simp add: heap_ok_def demo_heap_def demo_table_heap_def used_blocks_def one_region_live one_region_ok
        block_fits_def Heap_Size_def one_region_own) (auto simp: in_block_def)
  then show "heap_ready 1 1 demo_table_heap"
    by (simp add: heap_ready_def demo_table_heap_def used_blocks_def one_region_live one_region_room regions_count_eq)
  show "heap_owned demo_table_heap 0x5000 (data_bytes demo_table)"
    by (simp add: heap_owned_def data_bytes_def demo_fields sizeof_hashdata_def demo_table_heap_def demo_heap_def
        used_blocks_def one_region_live red_zones_def)
qed


definition demo_symbols :: "symbol_embedded list" where
  "demo_symbols = [\<lparr>location = 7, sym_name = 0x2000\<rparr>, \<lparr>location = 8, sym_name = 0x3000\<rparr>]"

text \<open>A heap with one free region and nothing but the fill in its memory.\<close>

definition roomy_at :: "nat \<Rightarrow> u64 \<Rightarrow> u64 \<Rightarrow> kheap \<Rightarrow> bool" where
  "roomy_at c a n s \<longleftrightarrow> heap_metadata_free s = one_region a n \<and> memory s = (\<lambda>_. 0xcc) \<and> heap s = 0x100000 \<and>
     heap_metadata_used s \<noteq> [] \<and> regions_used (hd (heap_metadata_used s)) = c"

lemma demo_heap_roomy: "roomy_at 0 0x100000 0x10000 demo_heap"
  by (simp add: roomy_at_def demo_heap_def fresh_section_def)

lemma one_region_scan: "sz < n \<Longrightarrow> region_alloc_scan sz (one_region a n) = Inr (a, one_region (a + sz) (n - sz))"
  by (auto simp: one_region_def region_append_def fresh_section_def loop_indices_def regions_count_eq
      region_take_def Let_def)

lemma kmalloc_roomy:
  assumes "roomy_at c a n s" "c < 255" "sz + 16 < n"
    and "0x100000 \<le> a" "a < 0x110000" "0x100000 < a + sz" "a + sz \<le> 0x110000"
  shows "\<exists>s'. kmalloc sz s = Ret (a + 8, s') \<and> roomy_at (Suc c) (a + (sz + 16)) (n - (sz + 16)) s'"
proof -
  obtain v vs where used: "heap_metadata_used s = v # vs" "regions_used v = c"
    using assms(1) by (cases "heap_metadata_used s") (auto simp: roomy_at_def)
  have "filled (\<lambda>_. 0xcc) a (sz + 16)" by (auto simp: filled_def load64_fill_iff list_all_iff)
  then show ?thesis
    using assms used one_region_scan [OF assms(3), of a]
    by (auto simp: kmalloc_def Let_def region_alloc_def region_free_def put_free_def put_used_def roomy_at_def
        Heap_Red_Zone_Size_def Heap_Size_def regions_count_eq region_append_def)
qed

theorem symbol_init_resolves_witness:
  "\<exists>table s'. symbol_init demo_mem kmalloc kfree demo_symbols demo_heap = Ret (Ok, table, s') \<and>
     symbol_get table 0x2000 = Ret 7 \<and> symbol_get table 0x3000 = Ret 8"
proof -
  have names: "distinct_names demo_mem demo_symbols"
    using demo_short demo_differ comp_str_eq [OF demo_short(2)] str_eq_sym by (auto simp: demo_symbols_def)
  obtain s1 where s1: "kmalloc 0x28 demo_heap = Ret (0x100008, s1)" "roomy_at 1 0x100038 0xffc8 s1"
    using kmalloc_roomy [OF demo_heap_roomy, of "0x28"] by auto
  obtain s2 where s2: "kmalloc 0xc30 s1 = Ret (0x100040, s2)"
    using kmalloc_roomy [OF s1(2), of "0xc30"] by auto
  let ?ht = "\<lparr>ht_used = 0, ht_size = 130, ht_hash = hash_str demo_mem, ht_comp = hash_str_comp demo_mem,
      ht_data_at = 0x100040, ht_data = zeroed_data 130\<rparr>"
  have "(case register_all kmalloc kfree [] demo_symbols ?ht s2 of Ret (st, _, _) \<Rightarrow> st = Ok | _ \<Rightarrow> False)"
    by code_simp
  then obtain ht' s' where "register_all kmalloc kfree [] demo_symbols ?ht s2 = Ret (Ok, ht', s')"
    by (auto split: res.splits)
  moreover have "of_nat (length demo_symbols) + SYMBOL_FUDGE_FACTOR = (130 :: u64)"
    by (simp add: demo_symbols_def SYMBOL_FUDGE_FACTOR_def)
  ultimately have run: "symbol_init demo_mem kmalloc kfree demo_symbols demo_heap = Ret (Ok, Some (0x100008, ht'), s')"
    using s1(1) s2 by (simp add: symbol_init_def hashtable_init_def sizeof_hashtable_def sizeof_hashdata_def)
  have "heap_ready 3 1 demo_heap"
    using demo_heap_ok by (simp add: heap_ready_def demo_heap_def used_blocks_def fresh_section_ok one_region_live
        one_region_room regions_count_eq)
  from symbol_init_resolves [OF names _ this] run show ?thesis by (auto simp: demo_symbols_def)
qed

end
