(* ===== verification/Format.thy ===== *)
theory Format
  imports Prelude
begin

text \<open>
  \<open>kernel/core/format.c\<close>: formatted output. Text goes through a buffer of 256 bytes on the stack;
  the model keeps the bytes \<open>buf[0..top)\<close> as a list and makes a store beyond the buffer a
  \<open>Fault\<close>. The file is the function behind \<open>file->write\<close> and its state; \<open>warn\<close> is the call of
  \<open>log\<close> that the macro \<open>bubble\<close> makes before it returns an error.
\<close>

type_synonym 's write_f = "string \<Rightarrow> 's \<Rightarrow> (status \<times> 's) res"
type_synonym 's warn_f = "string \<Rightarrow> 's \<Rightarrow> 's res"

text \<open>The variable arguments. Reading one at another type than it was passed at is undefined in C
  and a \<open>Fault\<close> here.\<close>

datatype va = VInt u32 | VLong u64 | VStr "string option"

definition buf_size :: nat where "buf_size = 256"

definition bubble ::
    "'s warn_f \<Rightarrow> string \<Rightarrow> (status \<times> 's) res \<Rightarrow> ('s \<Rightarrow> ((status + 'a) \<times> 's) res)
      \<Rightarrow> ((status + 'a) \<times> 's) res" where
  "bubble warn message call rest =
     res_bind call (\<lambda>(st, s).
     if st \<noteq> Ok then res_bind (warn message s) (\<lambda>s1. Ret (Inl st, s1)) else rest s)"

definition push :: "char \<Rightarrow> string \<Rightarrow> string res" where
  "push c buf = (if length buf < buf_size then Ret (buf @ [c]) else Fault)"

subsection \<open>Numbers\<close>

definition digits :: string where "digits = ''0123456789abcdef''"

text \<open>How many digits are printed for a number of \<open>sz\<close> bytes.\<close>

definition digit_count :: "nat \<Rightarrow> nat \<Rightarrow> nat option" where
  "digit_count base sz =
     (if base = 2 then Some (sz * 8 div 1)
      else if base = 8 then Some (sz * 8 div 2)
      else if base = 10 then Some (sz * 8 div 4)
      else if base = 16 then Some (sz * 8 div 4)
      else None)"

text \<open>The loop fills the buffer from its end: \<open>n\<close> digits, the last one first.\<close>

primrec fill_digits :: "nat \<Rightarrow> nat \<Rightarrow> u64 \<Rightarrow> string" where
  "fill_digits base 0 number = []"
| "fill_digits base (Suc n) number =
     fill_digits base n (number div of_nat base) @ [digits ! unat (number mod of_nat base)]"

definition print_number ::
    "'s write_f \<Rightarrow> 's warn_f \<Rightarrow> string \<Rightarrow> bool \<Rightarrow> nat \<Rightarrow> nat \<Rightarrow> u64 \<Rightarrow> 's
      \<Rightarrow> ((status + string) \<times> 's) res" where
  "print_number write warn buf is_signed base sz snumber s =
     res_bind
       (if is_signed \<and> sint snumber < 0
        then res_bind (push CHR ''-'' buf) (\<lambda>b. Ret (b, NOT snumber + 1))
        else Ret (buf, snumber)) (\<lambda>(buf1, number).
     bubble warn ''Clearing buffer in print_number'' (write buf1 s) (\<lambda>s1.
     case digit_count base sz of None \<Rightarrow> Ret (Inl Error_Invalid, s1)
     | Some n \<Rightarrow>
         res_bind (kassert (n \<le> buf_size)) (\<lambda>_. Ret (Inr (fill_digits base n number), s1))))"

fun print_string ::
    "'s write_f \<Rightarrow> 's warn_f \<Rightarrow> string \<Rightarrow> string \<Rightarrow> 's \<Rightarrow> ((status + string) \<times> 's) res" where
  "print_string write warn buf [] s = Ret (Inr buf, s)"
| "print_string write warn buf (c # cs) s =
     res_bind (push c buf) (\<lambda>buf1.
     if length buf1 = buf_size then
       bubble warn ''Clearing buffer in print_string'' (write buf1 s)
         (\<lambda>s1. print_string write warn [] cs s1)
     else print_string write warn buf1 cs s)"

subsection \<open>Directives\<close>

text \<open>The first \<open>switch\<close>: the size a modifier asks for (0 for none), the character \<open>format[i]\<close> then
  stands on, and what follows it.\<close>

definition modifiers :: "string \<Rightarrow> nat \<times> char \<times> string" where
  "modifiers fmt =
     (case fmt of [] \<Rightarrow> (0, CHR ''%'', [])
      | c # cs \<Rightarrow>
          if c = CHR ''l'' then
            (if cs \<noteq> [] \<and> hd cs = CHR ''l'' then (8, CHR ''l'', tl cs) else (8, CHR ''l'', cs))
          else if c = CHR ''h'' then
            (if cs \<noteq> [] \<and> hd cs = CHR ''h'' then (1, CHR ''h'', tl cs) else (2, CHR ''h'', cs))
          else if c = CHR ''z'' then (8, CHR ''z'', cs)
          else (0, CHR ''%'', fmt))"

datatype conv =
    Conv_Number bool nat nat
  | Conv_Char
  | Conv_String
  | Conv_Percent
  | Conv_Invalid

text \<open>The second \<open>switch\<close>: signedness, base and size of a number, or another conversion.\<close>

definition conversion :: "nat \<Rightarrow> string \<Rightarrow> conv \<times> string" where
  "conversion sz fmt =
     (case fmt of [] \<Rightarrow> (Conv_Invalid, [])
      | c # cs \<Rightarrow>
          if c = CHR ''i'' \<or> c = CHR ''d'' then (Conv_Number True 10 sz, cs)
          else if c = CHR ''u'' then (Conv_Number False 10 sz, cs)
          else if c = CHR ''p'' then (Conv_Number False 16 (if sz = 0 then 8 else sz), cs)
          else if c = CHR ''X'' \<or> c = CHR ''x'' then (Conv_Number False 16 sz, cs)
          else if c = CHR ''o'' then (Conv_Number True 8 sz, cs)
          else if c = CHR ''b'' then (Conv_Number False 2 sz, cs)
          else if c = CHR ''c'' then (Conv_Char, cs)
          else if c = CHR ''s'' then (Conv_String, cs)
          else if c = CHR ''%'' then (Conv_Percent, cs)
          else (Conv_Invalid, fmt))"

text \<open>The third \<open>switch\<close>: the argument, widened to 64 bits, and the final size.\<close>

definition va_number :: "nat \<Rightarrow> va list \<Rightarrow> (u64 \<times> nat \<times> va list) res" where
  "va_number sz args =
     (if sz = 0 then (case args of VInt i # rest \<Rightarrow> Ret (scast i, 4, rest) | _ \<Rightarrow> Fault)
      else if sz = 1 \<or> sz = 2 \<or> sz = 4 then
        (case args of VInt i # rest \<Rightarrow> Ret (scast i, sz, rest) | _ \<Rightarrow> Fault)
      else if sz = 8 then (case args of VLong n # rest \<Rightarrow> Ret (n, sz, rest) | _ \<Rightarrow> Fault)
      else Ret (0, sz, args))"

definition char_of_int :: "u32 \<Rightarrow> char" where
  "char_of_int i = char_of (unat (ucast i :: u8))"

definition emit ::
    "'s write_f \<Rightarrow> 's warn_f \<Rightarrow> conv \<Rightarrow> char \<Rightarrow> va list \<Rightarrow> string \<Rightarrow> 's
      \<Rightarrow> ((status + va list \<times> string) \<times> 's) res" where
  "emit write warn cv cur args buf s =
     (case cv of
        Conv_Number is_signed base sz \<Rightarrow>
          res_bind (va_number sz args) (\<lambda>(number, sz1, args1).
          res_bind (print_number write warn buf is_signed base sz1 number s) (\<lambda>(r, s1).
          case r of Inl e \<Rightarrow> res_bind (warn ''Clearing buffer after print_number'' s1) (\<lambda>s2. Ret (Inl e, s2))
          | Inr buf1 \<Rightarrow> Ret (Inr (args1, buf1), s1)))
      | Conv_Char \<Rightarrow>
          (case args of VInt i # args1 \<Rightarrow>
             res_bind (push (char_of_int i) buf) (\<lambda>buf1. Ret (Inr (args1, buf1), s))
           | _ \<Rightarrow> Fault)
      | Conv_String \<Rightarrow>
          (case args of VStr str # args1 \<Rightarrow>
             res_bind (print_string write warn buf (case str of None \<Rightarrow> ''(NULL)'' | Some t \<Rightarrow> t) s)
               (\<lambda>(r, s1).
             case r of Inl e \<Rightarrow> res_bind (warn ''clearing buffer after print_string'' s1) (\<lambda>s2. Ret (Inl e, s2))
             | Inr buf1 \<Rightarrow> Ret (Inr (args1, buf1), s1))
           | _ \<Rightarrow> Fault)
      | Conv_Percent \<Rightarrow> res_bind (push CHR ''%'' buf) (\<lambda>buf1. Ret (Inr (args, buf1), s))
      | Conv_Invalid \<Rightarrow> res_bind (push cur buf) (\<lambda>buf1. Ret (Inr (args, buf1), s)))"

text \<open>The end of an iteration flushes a full buffer.\<close>

definition flush_full ::
    "'s write_f \<Rightarrow> 's warn_f \<Rightarrow> string \<Rightarrow> 's \<Rightarrow> ((status + string) \<times> 's) res" where
  "flush_full write warn buf s =
     (if length buf = buf_size then
        bubble warn ''Clearing buffer in vfprintf'' (write buf s) (\<lambda>s1. Ret (Inr [], s1))
      else Ret (Inr buf, s))"

lemma modifiers_length: "modifiers fmt = (sz, cur, rest) \<Longrightarrow> length rest \<le> length fmt"
  by (auto simp: modifiers_def split: list.splits if_splits)

lemma conversion_length: "conversion sz fmt = (cv, rest) \<Longrightarrow> length rest \<le> length fmt"
  by (auto simp: conversion_def split: list.splits if_splits)

lemma directive_length:
  "(sz, cur, b) = modifiers cs \<Longrightarrow> (cv, rest) = conversion sz b \<Longrightarrow> length rest < Suc (length cs)"
  by (metis modifiers_length conversion_length le_imp_less_Suc le_trans)

function vfprintf_loop ::
    "'s write_f \<Rightarrow> 's warn_f \<Rightarrow> string \<Rightarrow> va list \<Rightarrow> string \<Rightarrow> 's \<Rightarrow> (status \<times> 's) res" where
  "vfprintf_loop write warn [] args buf s = write buf s"
| "vfprintf_loop write warn (c # cs) args buf s =
     (if c = CHR ''%'' \<and> cs \<noteq> [] then
        (case modifiers cs of (sz, cur, cs1) \<Rightarrow>
         case conversion sz cs1 of (cv, cs2) \<Rightarrow>
           res_bind (emit write warn cv cur args buf s) (\<lambda>(r, s1).
           case r of Inl e \<Rightarrow> Ret (e, s1)
           | Inr (args1, buf1) \<Rightarrow>
               res_bind (flush_full write warn buf1 s1) (\<lambda>(f, s2).
               case f of Inl e \<Rightarrow> Ret (e, s2)
               | Inr buf2 \<Rightarrow> vfprintf_loop write warn cs2 args1 buf2 s2)))
      else
        res_bind (push c buf) (\<lambda>buf1.
        res_bind (flush_full write warn buf1 s) (\<lambda>(f, s2).
        case f of Inl e \<Rightarrow> Ret (e, s2)
        | Inr buf2 \<Rightarrow> vfprintf_loop write warn cs args buf2 s2)))"
  by pat_completeness auto
termination
  by (relation "measure (\<lambda>(w, wn, fmt, args, buf, s). length fmt)")
    (auto intro: directive_length)

definition vfprintf ::
    "('s write_f) option \<Rightarrow> 's warn_f \<Rightarrow> string \<Rightarrow> va list \<Rightarrow> 's \<Rightarrow> (status \<times> 's) res" where
  "vfprintf file warn fmt args s =
     (case file of None \<Rightarrow> Ret (Error_Permissions, s)
      | Some write \<Rightarrow> vfprintf_loop write warn fmt args [] s)"

definition fprintf ::
    "('s write_f) option \<Rightarrow> 's warn_f \<Rightarrow> string \<Rightarrow> va list \<Rightarrow> 's \<Rightarrow> (status \<times> 's) res" where
  "fprintf file warn fmt args s = vfprintf file warn fmt args s"

subsection \<open>What the comment of \<open>vfprintf\<close> promises\<close>

text \<open>A format as its author reads it: literal characters and directives, each with a length modifier
  and what is to be printed. Nothing here uses the definitions above: digits are written by their
  positions, and the number of digits is that of the table in \<open>print_number\<close>.\<close>

datatype width = Int_Width | Char_Width | Short_Width | Long_Width | Long_Long_Width | Size_Width

datatype kind = Decimal_I | Decimal_D | Unsigned | Pointer | Hex_Capital | Hex | Octal | Binary

datatype directive =
    Percent
  | Character u32
  | Text "string option"
  | Number kind u64
  | Unknown char

datatype piece = Literal char | Directive width directive

primrec width_text :: "width \<Rightarrow> string" where
  "width_text Int_Width = ''''"
| "width_text Char_Width = ''hh''"
| "width_text Short_Width = ''h''"
| "width_text Long_Width = ''l''"
| "width_text Long_Long_Width = ''ll''"
| "width_text Size_Width = ''z''"

primrec width_bytes :: "width \<Rightarrow> nat" where
  "width_bytes Int_Width = 4"
| "width_bytes Char_Width = 1"
| "width_bytes Short_Width = 2"
| "width_bytes Long_Width = 8"
| "width_bytes Long_Long_Width = 8"
| "width_bytes Size_Width = 8"

primrec kind_char :: "kind \<Rightarrow> char" where
  "kind_char Decimal_I = CHR ''i''"
| "kind_char Decimal_D = CHR ''d''"
| "kind_char Unsigned = CHR ''u''"
| "kind_char Pointer = CHR ''p''"
| "kind_char Hex_Capital = CHR ''X''"
| "kind_char Hex = CHR ''x''"
| "kind_char Octal = CHR ''o''"
| "kind_char Binary = CHR ''b''"

primrec directive_char :: "directive \<Rightarrow> char" where
  "directive_char Percent = CHR ''%''"
| "directive_char (Character i) = CHR ''c''"
| "directive_char (Text str) = CHR ''s''"
| "directive_char (Number k n) = kind_char k"
| "directive_char (Unknown c) = c"

text \<open>The bytes of a number, the argument passed for it, and the integer this argument stands for.\<close>

definition number_bytes :: "width \<Rightarrow> kind \<Rightarrow> nat" where
  "number_bytes w k = (if k = Pointer \<and> w = Int_Width then 8 else width_bytes w)"

definition number_arg :: "width \<Rightarrow> kind \<Rightarrow> u64 \<Rightarrow> va" where
  "number_arg w k n = (if number_bytes w k = 8 then VLong n else VInt (ucast n))"

definition number_int :: "width \<Rightarrow> kind \<Rightarrow> u64 \<Rightarrow> int" where
  "number_int w k n = (if number_bytes w k = 8 then sint n else sint (ucast n :: u32))"

definition digit_char :: "nat \<Rightarrow> char" where
  "digit_char d = char_of (if d < 10 then 48 + d else 87 + d)"

text \<open>The last \<open>n\<close> digits of \<open>v\<close>, leading zeros included.\<close>

definition digits_of :: "nat \<Rightarrow> nat \<Rightarrow> nat \<Rightarrow> string" where
  "digits_of b n v = map (\<lambda>k. digit_char (v div b ^ k mod b)) (rev [0..<n])"

definition signed_digits :: "nat \<Rightarrow> nat \<Rightarrow> int \<Rightarrow> string" where
  "signed_digits b n v = (if v < 0 then ''-'' else '''') @ digits_of b n (nat \<bar>v\<bar>)"

text \<open>Hexadecimal and binary numbers show all the bits of their size. Decimal numbers have two digits
  for each byte, of the 64 bit pattern when they are unsigned.\<close>

definition number_shown :: "width \<Rightarrow> kind \<Rightarrow> u64 \<Rightarrow> string" where
  "number_shown w k n =
     (let sz = number_bytes w k; v = number_int w k n in
      if k = Decimal_I \<or> k = Decimal_D then signed_digits 10 (2 * sz) v
      else if k = Unsigned then digits_of 10 (2 * sz) (nat (v mod 2 ^ 64))
      else if k = Octal then signed_digits 8 (4 * sz) v
      else if k = Binary then digits_of 2 (8 * sz) (nat (v mod 2 ^ (8 * sz)))
      else digits_of 16 (2 * sz) (nat (v mod 2 ^ (8 * sz))))"

text \<open>A directive that is not known shows the character before it: the percent sign, or the last
  character of the modifier.\<close>

definition mark :: "width \<Rightarrow> char" where
  "mark w = last (CHR ''%'' # width_text w)"

primrec directive_shown :: "width \<Rightarrow> directive \<Rightarrow> string" where
  "directive_shown w Percent = ''%''"
| "directive_shown w (Character i) = [char_of (unat i mod 256)]"
| "directive_shown w (Text str) = (case str of None \<Rightarrow> ''(NULL)'' | Some t \<Rightarrow> t)"
| "directive_shown w (Number k n) = number_shown w k n"
| "directive_shown w (Unknown c) = [mark w, c]"

primrec directive_args :: "width \<Rightarrow> directive \<Rightarrow> va list" where
  "directive_args w Percent = []"
| "directive_args w (Character i) = [VInt i]"
| "directive_args w (Text str) = [VStr str]"
| "directive_args w (Number k n) = [number_arg w k n]"
| "directive_args w (Unknown c) = []"

primrec piece_format :: "piece \<Rightarrow> string" where
  "piece_format (Literal c) = [c]"
| "piece_format (Directive w d) = CHR ''%'' # width_text w @ [directive_char d]"

primrec piece_args :: "piece \<Rightarrow> va list" where
  "piece_args (Literal c) = []"
| "piece_args (Directive w d) = directive_args w d"

primrec piece_text :: "piece \<Rightarrow> string" where
  "piece_text (Literal c) = [c]"
| "piece_text (Directive w d) = directive_shown w d"

text \<open>A literal is not a percent sign, and an unknown directive is neither a known one nor part of its
  modifier.\<close>

definition unknown_after :: "width \<Rightarrow> char \<Rightarrow> bool" where
  "unknown_after w c \<longleftrightarrow> c \<notin> set ''idupXxobcs%'' \<and>
     (w = Int_Width \<longrightarrow> c \<notin> set ''lhz'') \<and> (w = Short_Width \<longrightarrow> c \<noteq> CHR ''h'') \<and>
     (w = Long_Width \<longrightarrow> c \<noteq> CHR ''l'')"

primrec piece_ok :: "piece \<Rightarrow> bool" where
  "piece_ok (Literal c) = (c \<noteq> CHR ''%'')"
| "piece_ok (Directive w d) = (case d of Unknown c \<Rightarrow> unknown_after w c | _ \<Rightarrow> True)"

definition format_of :: "piece list \<Rightarrow> string" where
  "format_of ps = concat (map piece_format ps)"

definition args_of :: "piece list \<Rightarrow> va list" where
  "args_of ps = concat (map piece_args ps)"

definition text_of :: "piece list \<Rightarrow> string" where
  "text_of ps = concat (map piece_text ps)"

subsection \<open>Digits\<close>

declare vfprintf_loop.simps [simp del]

lemma push_room: "length buf < buf_size \<Longrightarrow> push c buf = Ret (buf @ [c])"
  by (simp add: push_def)

lemma length_fill_digits [simp]: "length (fill_digits base n x) = n"
  by (induction n arbitrary: x) auto

lemma digits_nth: "k < 16 \<Longrightarrow> digits ! k = digit_char k"
proof -
  have "list_all (\<lambda>k. digits ! k = digit_char k) [0..<16]" by code_simp
  then show "k < 16 \<Longrightarrow> digits ! k = digit_char k" by (simp only: list_all_iff set_upt) simp
qed

lemma digits_of_Suc: "digits_of b (Suc n) v = digits_of b n (v div b) @ [digit_char (v mod b)]"
proof -
  have "[0..<Suc n] = 0 # map Suc [0..<n]" by (simp only: upt_conv_Cons map_Suc_upt zero_less_Suc)
  then have "rev [0..<Suc n] = map Suc (rev [0..<n]) @ [0]" by (simp add: rev_map)
  then show ?thesis by (simp add: digits_of_def div_mult2_eq comp_def)
qed

lemma fill_digits_of:
  assumes "b \<in> {2, 8, 10, 16}" shows "fill_digits b n x = digits_of b n (unat x)"
proof (induction n arbitrary: x)
  case 0
  then show ?case by (simp add: digits_of_def)
next
  case (Suc n)
  have b: "unat (of_nat b :: u64) = b" using assms by (auto simp: unat_of_nat)
  have "unat x mod b < b" using assms by (intro mod_less_divisor) auto
  then have "unat x mod b < 16" using assms by auto
  then show ?case by (simp add: Suc.IH digits_of_Suc unat_mod unat_div b digits_nth)
qed

lemma digits_of_mod:
  assumes "0 < b" shows "digits_of b n (v mod b ^ n) = digits_of b n v"
proof -
  have "v mod b ^ n div b ^ k mod b = v div b ^ k mod b" if "k < n" for k
  proof -
    from that obtain m where m: "n = k + Suc m" by (metis less_iff_Suc_add add_Suc_right)
    have "v mod b ^ n = b ^ k * (v div b ^ k mod b ^ Suc m) + v mod b ^ k"
      by (simp only: m power_add mod_mult2_eq)
    then have "v mod b ^ n div b ^ k = v div b ^ k mod b ^ Suc m" using assms by simp
    then show ?thesis by (simp add: mod_mod_cancel)
  qed
  then show ?thesis by (auto simp: digits_of_def)
qed

text \<open>The digits of a number that fits read back as the number.\<close>

definition digit_val :: "char \<Rightarrow> nat" where
  "digit_val c = (if c \<in> set ''0123456789'' then of_char c - 48 else of_char c - 87)"

definition digits_val :: "nat \<Rightarrow> string \<Rightarrow> nat" where
  "digits_val b ds = foldl (\<lambda>v c. v * b + digit_val c) 0 ds"

lemma digit_val_char: "k < 16 \<Longrightarrow> digit_val (digit_char k) = k"
proof -
  have "list_all (\<lambda>k. digit_val (digit_char k) = k) [0..<16]" by code_simp
  then show "k < 16 \<Longrightarrow> digit_val (digit_char k) = k" by (simp only: list_all_iff set_upt) simp
qed

lemma digits_of_reads_back:
  assumes "0 < b" "b \<le> 16" shows "digits_val b (digits_of b n v) = v mod b ^ n"
proof (induction n arbitrary: v)
  case 0
  then show ?case by (simp add: digits_of_def digits_val_def)
next
  case (Suc n)
  have "v mod b < 16" using assms mod_less_divisor [of b v] by linarith
  then have "digits_val b (digits_of b (Suc n) v) = digits_val b (digits_of b n (v div b)) * b + v mod b"
    by (simp add: digits_of_Suc digits_val_def digit_val_char)
  then show ?case by (simp add: Suc.IH mod_mult2_eq)
qed

lemma uint_of_sint: "uint (x :: u64) = sint x mod 2 ^ 64"
  using uint_sint [of x] by (simp add: take_bit_eq_mod)

lemma sint_widened: "sint (scast (i :: u32) :: u64) = sint i"
  by (rule sint_up_scast) (simp add: is_up)

lemma unat_negated: "sint (x :: u64) < 0 \<Longrightarrow> unat (- x) = nat \<bar>sint x\<bar>"
proof -
  assume neg: "sint x < 0"
  have "uint (- x) = (- uint x) mod 2 ^ 64" by (simp add: uint_word_ariths(4))
  then have "uint (- x) = (- sint x) mod 2 ^ 64" by (simp only: uint_of_sint [of x] mod_minus_eq)
  moreover have "- sint x \<le> 2 ^ 63" using sint_greater_eq [of x] by simp
  ultimately show "unat (- x) = nat \<bar>sint x\<bar>" using neg by (simp flip: nat_uint_eq)
qed


lemma unat_ucast_byte: "unat (ucast (i :: u32) :: u8) = unat i mod 256"
  by (simp add: unsigned_ucast_eq take_bit_eq_mod)

subsection \<open>Directives and the switches\<close>

text \<open>What the switches of \<open>vfprintf\<close> make of a directive.\<close>

primrec kind_signed :: "kind \<Rightarrow> bool" where
  "kind_signed Decimal_I = True"
| "kind_signed Decimal_D = True"
| "kind_signed Unsigned = False"
| "kind_signed Pointer = False"
| "kind_signed Hex_Capital = False"
| "kind_signed Hex = False"
| "kind_signed Octal = True"
| "kind_signed Binary = False"

primrec kind_base :: "kind \<Rightarrow> nat" where
  "kind_base Decimal_I = 10"
| "kind_base Decimal_D = 10"
| "kind_base Unsigned = 10"
| "kind_base Pointer = 16"
| "kind_base Hex_Capital = 16"
| "kind_base Hex = 16"
| "kind_base Octal = 8"
| "kind_base Binary = 2"

definition modifier_size :: "width \<Rightarrow> nat" where
  "modifier_size w = (if w = Int_Width then 0 else width_bytes w)"

definition directive_conv :: "width \<Rightarrow> directive \<Rightarrow> conv" where
  "directive_conv w d =
     (case d of Percent \<Rightarrow> Conv_Percent | Character i \<Rightarrow> Conv_Char | Text str \<Rightarrow> Conv_String
      | Number k n \<Rightarrow> Conv_Number (kind_signed k) (kind_base k)
          (if k = Pointer \<and> w = Int_Width then 8 else modifier_size w)
      | Unknown c \<Rightarrow> Conv_Invalid)"

lemma modifiers_directive:
  assumes "piece_ok (Directive w d)"
  shows "modifiers (width_text w @ directive_char d # cs) = (modifier_size w, mark w, directive_char d # cs)"
proof -
  have "unknown_after w (directive_char d) \<or> directive_char d \<in> set ''idupXxobcs%''"
    using assms by (cases d; simp) (rename_tac k n, case_tac k; simp)
  then show ?thesis
    by (cases w) (auto simp: modifiers_def modifier_size_def mark_def unknown_after_def)
qed

lemma conversion_directive:
  assumes "piece_ok (Directive w d)"
  shows "conversion (modifier_size w) (directive_char d # cs) =
    (directive_conv w d, (case d of Unknown c \<Rightarrow> c # cs | _ \<Rightarrow> cs))"
proof (cases d)
  case (Number k n)
  have "modifier_size w = 0 \<longleftrightarrow> w = Int_Width" by (cases w) (simp_all add: modifier_size_def)
  then show ?thesis by (cases k) (simp_all add: Number conversion_def directive_conv_def)
qed (use assms in \<open>auto simp: conversion_def directive_conv_def unknown_after_def\<close>)

text \<open>The number read for a directive, its digits and their count.\<close>

definition number_read :: "width \<Rightarrow> kind \<Rightarrow> u64 \<Rightarrow> u64" where
  "number_read w k n = (if number_bytes w k = 8 then n else scast (ucast n :: u32))"

lemma number_read_sint: "sint (number_read w k n) = number_int w k n"
  by (simp add: number_read_def number_int_def sint_widened)

lemma va_number_directive:
  "va_number (if k = Pointer \<and> w = Int_Width then 8 else modifier_size w) (number_arg w k n # args) =
   Ret (number_read w k n, number_bytes w k, args)"
  by (cases w) (auto simp: va_number_def number_arg_def number_read_def number_bytes_def modifier_size_def)

lemma number_bytes_cases: "number_bytes w k \<in> {1, 2, 4, 8}"
  by (cases w) (simp_all add: number_bytes_def)

lemma number_shown_digits:
  assumes "digit_count (kind_base k) (number_bytes w k) = Some c"
  shows "number_shown w k n =
    (if kind_signed k \<and> sint (number_read w k n) < 0
     then CHR ''-'' # fill_digits (kind_base k) c (- number_read w k n)
     else fill_digits (kind_base k) c (number_read w k n))"
proof -
  let ?x = "number_read w k n" and ?v = "number_int w k n" and ?sz = "number_bytes w k"
  have base: "kind_base k \<in> {2, 8, 10, 16}" by (cases k) simp_all
  have u: "unat ?x = nat (?v mod 2 ^ 64)"
    using uint_of_sint [of ?x] by (simp add: number_read_sint flip: nat_uint_eq)
  have pos: "nat (?v mod 2 ^ 64) = nat \<bar>?v\<bar>" if "0 \<le> ?v"
  proof -
    have "?v < 2 ^ 63" using sint_less [of ?x] by (simp add: number_read_sint)
    with that show ?thesis by simp
  qed
  have neg: "unat (- ?x) = nat \<bar>?v\<bar>" if "?v < 0"
    using unat_negated [of ?x] that by (simp add: number_read_sint)
  have low: "digits_of b m (nat (?v mod 2 ^ 64)) = digits_of b m (nat (?v mod 2 ^ (8 * ?sz)))"
    if "b ^ m = 2 ^ (8 * ?sz)" and pos_b: "0 < b" for b m
  proof -
    have "nat (?v mod 2 ^ 64) mod 2 ^ (8 * ?sz) = nat (?v mod 2 ^ 64 mod 2 ^ (8 * ?sz))"
      by (simp add: nat_mod_distrib nat_power_eq)
    also have "?v mod 2 ^ 64 mod 2 ^ (8 * ?sz) = ?v mod 2 ^ (8 * ?sz)"
      using number_bytes_cases [of w k] by (intro mod_mod_cancel le_imp_power_dvd) auto
    finally show ?thesis using digits_of_mod [of b m "nat (?v mod 2 ^ 64)"] that pos_b by simp
  qed
  have hex: "(16 :: nat) ^ (2 * ?sz) = 2 ^ (8 * ?sz)"
    using power_mult [of "2 :: nat" 4 "2 * ?sz"] by simp
  show ?thesis
    using assms base pos neg u low [of 2 "8 * ?sz"] low [OF hex]
    by (cases k) (auto simp: number_shown_def signed_digits_def fill_digits_of number_read_sint
        digit_count_def Let_def mult.commute)
qed

lemma digit_count_small:
  "base \<in> {2, 8, 10, 16} \<Longrightarrow> sz \<in> {1, 2, 4, 8} \<Longrightarrow> \<exists>n. digit_count base sz = Some n \<and> n < buf_size"
  by (auto simp: digit_count_def buf_size_def)

subsection \<open>Files that take everything\<close>

text \<open>What the formatter relies on: a file whose \<open>write\<close> succeeds and appends to what the file has
  received.\<close>

locale text_sink =
  fixes wr :: "'s write_f" and ok :: "'s \<Rightarrow> bool" and content :: "'s \<Rightarrow> string"
  assumes write_ok: "ok s \<Longrightarrow> \<exists>s'. wr t s = Ret (Ok, s') \<and> ok s' \<and> content s' = content s @ t"
begin

lemma bubble_ok:
  assumes "ok s"
  shows "\<exists>s'. bubble warn msg (wr t s) rest = rest s' \<and> ok s' \<and> content s' = content s @ t"
  using write_ok [OF assms, of t] by (auto simp: bubble_def)

lemma print_string_ok:
  "length buf < buf_size \<Longrightarrow> ok s \<Longrightarrow>
   \<exists>buf' s'. print_string wr warn buf t s = Ret (Inr buf', s') \<and> length buf' < buf_size \<and> ok s' \<and>
     content s' @ buf' = content s @ buf @ t"
proof (induction t arbitrary: buf s)
  case (Cons c cs)
  show ?case
  proof (cases "length (buf @ [c]) = buf_size")
    case True
    obtain s1 where s1: "bubble warn ''Clearing buffer in print_string'' (wr (buf @ [c]) s)
        (\<lambda>s1. print_string wr warn [] cs s1) = print_string wr warn [] cs s1"
      "ok s1" "content s1 = content s @ buf @ [c]"
      using bubble_ok [OF Cons.prems(2)] by blast
    with True Cons.prems Cons.IH [of "[]" s1] show ?thesis
      by (simp add: push_room buf_size_def)
  next
    case False
    with Cons.prems Cons.IH [of "buf @ [c]" s] show ?thesis by (simp add: push_room)
  qed
qed auto

lemma print_number_ok:
  assumes "length buf < buf_size" "digit_count base sz = Some n" "n \<le> buf_size" "ok s"
  shows "\<exists>buf' s'. print_number wr warn buf sg base sz x s = Ret (Inr buf', s') \<and>
    length buf' = n \<and> ok s' \<and> content s' @ buf' = content s @ buf @
      (if sg \<and> sint x < 0 then CHR ''-'' # fill_digits base n (- x) else fill_digits base n x)"
proof (cases "sg \<and> sint x < 0")
  case True
  from write_ok [OF assms(4), of "buf @ ''-''"] True assms show ?thesis
    by (auto simp: print_number_def push_room minus_eq_not_plus_1 bubble_def)
next
  case False
  from write_ok [OF assms(4), of buf] False assms show ?thesis
    by (auto simp: print_number_def bubble_def)
qed

lemma emit_ok:
  assumes "length buf < buf_size" "ok s"
  shows "\<exists>buf' s'. emit wr warn (directive_conv w d) (mark w) (directive_args w d @ args) buf s =
      Ret (Inr (args, buf'), s') \<and> length buf' \<le> buf_size \<and> ok s' \<and>
      content s' @ buf' = content s @ buf @ (case d of Unknown c \<Rightarrow> [mark w] | _ \<Rightarrow> directive_shown w d)"
proof (cases d)
  case (Number k n)
  have "kind_base k \<in> {2, 8, 10, 16}" by (cases k) simp_all
  with number_bytes_cases [of w k] obtain c where
    c: "digit_count (kind_base k) (number_bytes w k) = Some c" "c < buf_size"
    using digit_count_small by blast
  with print_number_ok [OF assms(1) c(1) _ assms(2), of warn "kind_signed k" "number_read w k n"]
    number_shown_digits [OF c(1), of n] show ?thesis
    by (auto simp: emit_def Number directive_conv_def va_number_directive)
next
  case (Text str)
  with print_string_ok [OF assms, of warn "case str of None \<Rightarrow> ''(NULL)'' | Some t \<Rightarrow> t"] show ?thesis
    by (auto simp: emit_def directive_conv_def)
qed (use assms in \<open>auto simp: emit_def directive_conv_def push_room char_of_int_def unat_ucast_byte\<close>)

lemma flush_ok:
  assumes "length buf \<le> buf_size" "ok s"
  shows "\<exists>buf' s'. flush_full wr warn buf s = Ret (Inr buf', s') \<and> length buf' < buf_size \<and> ok s' \<and>
    content s' @ buf' = content s @ buf"
proof (cases "length buf = buf_size")
  case True
  obtain s' where "flush_full wr warn buf s = Ret (Inr [], s')" "ok s'" "content s' = content s @ buf"
    using bubble_ok [OF assms(2), of warn "''Clearing buffer in vfprintf''" buf "\<lambda>s1. Ret (Inr [], s1)"]
    by (auto simp: flush_full_def True)
  then show ?thesis by (intro exI [of _ "[]"] exI [of _ s']) (simp add: buf_size_def)
qed (use assms in \<open>auto simp: flush_full_def\<close>)

text \<open>One turn of the loop, on a character that is printed as it is and on a directive.\<close>

lemma loop_literal:
  assumes "length buf < buf_size" "ok s" "c \<noteq> CHR ''%''"
  shows "\<exists>buf' s'. vfprintf_loop wr warn (c # cs) args buf s = vfprintf_loop wr warn cs args buf' s' \<and>
    length buf' < buf_size \<and> ok s' \<and> content s' @ buf' = content s @ buf @ [c]"
proof -
  have "length (buf @ [c]) \<le> buf_size" using assms(1) by simp
  from flush_ok [OF this assms(2), of warn] obtain buf1 s1 where
    f: "flush_full wr warn (buf @ [c]) s = Ret (Inr buf1, s1)" "length buf1 < buf_size" "ok s1"
      "content s1 @ buf1 = content s @ buf @ [c]" by auto
  have "vfprintf_loop wr warn (c # cs) args buf s = vfprintf_loop wr warn cs args buf1 s1"
    using assms(1,3) f(1) by (simp add: vfprintf_loop.simps push_room)
  with f(2-4) show ?thesis by blast
qed

lemma loop_directive:
  assumes "length buf < buf_size" "ok s" "piece_ok (Directive w d)"
  shows "\<exists>buf' s'. vfprintf_loop wr warn (piece_format (Directive w d) @ cs) (directive_args w d @ args) buf s =
      vfprintf_loop wr warn (case d of Unknown c \<Rightarrow> c # cs | _ \<Rightarrow> cs) args buf' s' \<and>
    length buf' < buf_size \<and> ok s' \<and>
    content s' @ buf' = content s @ buf @ (case d of Unknown c \<Rightarrow> [mark w] | _ \<Rightarrow> directive_shown w d)"
proof -
  from emit_ok [OF assms(1,2), of warn w d args] obtain buf1 s1 where
    e: "emit wr warn (directive_conv w d) (mark w) (directive_args w d @ args) buf s = Ret (Inr (args, buf1), s1)"
      "length buf1 \<le> buf_size" "ok s1"
      "content s1 @ buf1 = content s @ buf @ (case d of Unknown c \<Rightarrow> [mark w] | _ \<Rightarrow> directive_shown w d)"
    by blast
  from flush_ok [OF e(2,3), of warn] obtain buf2 s2 where
    f: "flush_full wr warn buf1 s1 = Ret (Inr buf2, s2)" "length buf2 < buf_size" "ok s2"
      "content s2 @ buf2 = content s1 @ buf1" by blast
  have "piece_format (Directive w d) @ cs = CHR ''%'' # (width_text w @ directive_char d # cs)" by simp
  then have "vfprintf_loop wr warn (piece_format (Directive w d) @ cs) (directive_args w d @ args) buf s =
      vfprintf_loop wr warn (case d of Unknown c \<Rightarrow> c # cs | _ \<Rightarrow> cs) args buf2 s2"
    using modifiers_directive [OF assms(3), of cs] conversion_directive [OF assms(3), of cs] e(1) f(1)
    by (simp add: vfprintf_loop.simps(2))
  with e f show ?thesis by auto
qed

lemma loop_piece:
  assumes "length buf < buf_size" "ok s" "piece_ok p"
  shows "\<exists>buf' s'. vfprintf_loop wr warn (piece_format p @ cs) (piece_args p @ args) buf s =
      vfprintf_loop wr warn cs args buf' s' \<and>
    length buf' < buf_size \<and> ok s' \<and> content s' @ buf' = content s @ buf @ piece_text p"
proof (cases p)
  case (Literal c)
  with loop_literal [OF assms(1,2), of c warn cs args] assms(3) show ?thesis by simp
next
  case (Directive w d)
  with loop_directive [OF assms(1,2), of w d warn cs args] assms(3) obtain buf1 s1 where
    one: "vfprintf_loop wr warn (piece_format p @ cs) (piece_args p @ args) buf s =
        vfprintf_loop wr warn (case d of Unknown c \<Rightarrow> c # cs | _ \<Rightarrow> cs) args buf1 s1"
      "length buf1 < buf_size" "ok s1"
      "content s1 @ buf1 = content s @ buf @ (case d of Unknown c \<Rightarrow> [mark w] | _ \<Rightarrow> directive_shown w d)"
    by auto
  show ?thesis
  proof (cases d)
    case (Unknown c)
    with Directive assms(3) have "c \<noteq> CHR ''%''" by (auto simp: unknown_after_def)
    from loop_literal [OF one(2,3) this, of warn cs args] one(1,4) Unknown Directive show ?thesis by force
  qed (use one Directive in auto)
qed

lemma vfprintf_loop_ok:
  "list_all piece_ok ps \<Longrightarrow> length buf < buf_size \<Longrightarrow> ok s \<Longrightarrow>
   \<exists>s'. vfprintf_loop wr warn (format_of ps) (args_of ps) buf s = Ret (Ok, s') \<and> ok s' \<and>
     content s' = content s @ buf @ text_of ps"
proof (induction ps arbitrary: buf s)
  case Nil
  then show ?case using write_ok [of s buf] by (simp add: vfprintf_loop.simps format_of_def args_of_def text_of_def)
next
  case (Cons p ps)
  from Cons.prems(1) have "piece_ok p" by simp
  from loop_piece [OF Cons.prems(2,3) this, of warn "format_of ps" "args_of ps"] obtain buf1 s1 where
    one: "vfprintf_loop wr warn (format_of (p # ps)) (args_of (p # ps)) buf s =
        vfprintf_loop wr warn (format_of ps) (args_of ps) buf1 s1"
      "length buf1 < buf_size" "ok s1" "content s1 @ buf1 = content s @ buf @ piece_text p"
    by (auto simp: format_of_def args_of_def)
  have "list_all piece_ok ps" using Cons.prems(1) by simp
  moreover have "content s1 @ buf1 @ text_of ps = content s @ buf @ text_of (p # ps)"
    using one(4) by (metis append.assoc concat.simps(2) list.simps(9) text_of_def)
  ultimately show ?case using Cons.IH [OF _ one(2,3)] one(1) by simp
qed

lemma fprintf_ok:
  assumes "list_all piece_ok ps" "ok s"
  shows "\<exists>s'. fprintf (Some wr) warn (format_of ps) (args_of ps) s = Ret (Ok, s') \<and> ok s' \<and>
    content s' = content s @ text_of ps"
  using vfprintf_loop_ok [OF assms(1) _ assms(2), of "[]"]
  by (simp add: fprintf_def vfprintf_def buf_size_def)

end

end
