(* ===== verification/Vga.thy ===== *)
theory Vga
  imports Klock
begin

text \<open>
  \<open>kernel/device/vga.c\<close>: the text console. The framebuffer is one page of 16-bit cells, of which
  the first 80 * 24 are the screen. The code calls the line of the cursor \<open>VGA_Cursor_Column\<close>
  and its place in the line \<open>VGA_Cursor_Row\<close>; the model keeps the names.
\<close>

datatype VGA_Color =
    VGA_Black | VGA_Blue | VGA_Green | VGA_Cyan | VGA_Red | VGA_Magenta | VGA_Brown | VGA_Light_Grey
  | VGA_Dark_Grey | VGA_Light_Blue | VGA_Light_Green | VGA_Light_Cyan | VGA_Light_Red
  | VGA_Light_Magenta | VGA_Light_Brown | VGA_White

primrec VGA_Color_code :: "VGA_Color \<Rightarrow> u8" where
  "VGA_Color_code VGA_Black = 0"
| "VGA_Color_code VGA_Blue = 1"
| "VGA_Color_code VGA_Green = 2"
| "VGA_Color_code VGA_Cyan = 3"
| "VGA_Color_code VGA_Red = 4"
| "VGA_Color_code VGA_Magenta = 5"
| "VGA_Color_code VGA_Brown = 6"
| "VGA_Color_code VGA_Light_Grey = 7"
| "VGA_Color_code VGA_Dark_Grey = 8"
| "VGA_Color_code VGA_Light_Blue = 9"
| "VGA_Color_code VGA_Light_Green = 10"
| "VGA_Color_code VGA_Light_Cyan = 11"
| "VGA_Color_code VGA_Light_Red = 12"
| "VGA_Color_code VGA_Light_Magenta = 13"
| "VGA_Color_code VGA_Light_Brown = 14"
| "VGA_Color_code VGA_White = 15"

definition VGA_Tab_Size :: nat where "VGA_Tab_Size = 4"
definition VGA_Framebuffer_Phys :: phys_addr where "VGA_Framebuffer_Phys = 0xb8000"
definition VGA_Framebuffer_Size :: u64 where "VGA_Framebuffer_Size = Page_Small"
definition VGA_Height :: nat where "VGA_Height = 24"
definition VGA_Width :: nat where "VGA_Width = 80"

record vga =
  VGA_lock :: lock
  VGA_Framebuffer :: "u16 list"
  VGA_Cursor_Row :: nat
  VGA_Cursor_Column :: nat
  VGA_Current_Background :: VGA_Color
  VGA_Current_Foreground :: VGA_Color
  VGA_Log_Enabled :: bool

definition vga_entry_color :: "VGA_Color \<Rightarrow> VGA_Color \<Rightarrow> u8" where
  "vga_entry_color fg bg = VGA_Color_code fg OR push_bit 4 (VGA_Color_code bg)"

definition vga_entry :: "u8 \<Rightarrow> VGA_Color \<Rightarrow> VGA_Color \<Rightarrow> u16" where
  "vga_entry uc fg bg = ucast uc OR push_bit 8 (ucast (vga_entry_color fg bg))"

definition blank :: "('a) vga_scheme \<Rightarrow> u16" where
  "blank v = vga_entry 0x20 (VGA_Current_Foreground v) (VGA_Current_Background v)"

text \<open>A store to cell \<open>i\<close>; the page holds 2048 cells.\<close>

definition cell_put :: "nat \<Rightarrow> u16 \<Rightarrow> ('a) vga_scheme \<Rightarrow> (('a) vga_scheme) res" where
  "cell_put i e v =
     (if i < length (VGA_Framebuffer v) then Ret (v\<lparr>VGA_Framebuffer := (VGA_Framebuffer v)[i := e]\<rparr>)
      else Fault)"

definition cell_get :: "nat \<Rightarrow> ('a) vga_scheme \<Rightarrow> u16 res" where
  "cell_get i v = (if i < length (VGA_Framebuffer v) then Ret (VGA_Framebuffer v ! i) else Fault)"

text \<open>\<open>for (i = from; i < from + n; ++i) VGA_Framebuffer[i] = entry\<close>.\<close>

primrec cells_fill :: "nat \<Rightarrow> nat \<Rightarrow> u16 \<Rightarrow> ('a) vga_scheme \<Rightarrow> (('a) vga_scheme) res" where
  "cells_fill i 0 e v = Ret v"
| "cells_fill i (Suc n) e v = res_bind (cell_put i e v) (cells_fill (Suc i) n e)"

definition with_vga_lock ::
    "(('a) vga_scheme \<Rightarrow> ('b \<times> ('a) vga_scheme) res) \<Rightarrow> ('a) vga_scheme \<Rightarrow> ('b \<times> ('a) vga_scheme) res" where
  "with_vga_lock body v =
     res_bind (lock_acquire_writer (VGA_lock v)) (\<lambda>l.
     res_bind (body (v\<lparr>VGA_lock := l\<rparr>)) (\<lambda>(x, v1).
     res_bind (lock_release_writer (VGA_lock v1)) (\<lambda>l1. Ret (x, v1\<lparr>VGA_lock := l1\<rparr>))))"

definition vga_framebuffer_clear :: "('a) vga_scheme \<Rightarrow> (('a) vga_scheme) res" where
  "vga_framebuffer_clear v =
     res_bind (with_vga_lock (\<lambda>v1.
       res_bind (cells_fill 0 (VGA_Width * VGA_Height) (blank v) v1) (\<lambda>v2. Ret ((), v2))) v)
       (\<lambda>(_, v3). Ret v3)"

text \<open>The copy loop of \<open>vga_scroll_up_line\<close>: with \<open>x\<close> running inside \<open>y\<close>, the cells are visited in
  order of their index \<open>x + y * VGA_Width\<close>.\<close>

primrec scroll_cells :: "nat \<Rightarrow> nat \<Rightarrow> ('a) vga_scheme \<Rightarrow> (('a) vga_scheme) res" where
  "scroll_cells i 0 v = Ret v"
| "scroll_cells i (Suc n) v =
     res_bind (cell_get (i + VGA_Width) v) (\<lambda>e.
     res_bind (cell_put i e v) (scroll_cells (Suc i) n))"

definition vga_scroll_up_line :: "('a) vga_scheme \<Rightarrow> (('a) vga_scheme) res" where
  "vga_scroll_up_line v =
     (let v1 = v\<lparr>VGA_Cursor_Row := 0, VGA_Cursor_Column := VGA_Height - 1\<rparr> in
      res_bind (scroll_cells 0 ((VGA_Height - 1) * VGA_Width) v1)
        (cells_fill (VGA_Width * (VGA_Height - 1)) VGA_Width (blank v1)))"

definition vga_putc_unlocked :: "u8 \<Rightarrow> ('a) vga_scheme \<Rightarrow> (('a) vga_scheme) res" where
  "vga_putc_unlocked c v =
     (let index = VGA_Cursor_Column v * VGA_Width + VGA_Cursor_Row v in
      res_bind (kassert (index < VGA_Width * VGA_Height)) (\<lambda>_.
      res_bind
        (if c = 0x0a then
           Ret (v\<lparr>VGA_Cursor_Row := 0, VGA_Cursor_Column := VGA_Cursor_Column v + 1\<rparr>)
         else if c = 0x09 then
           (if VGA_Cursor_Column v + VGA_Tab_Size < VGA_Width then
              res_bind (cells_fill index VGA_Tab_Size (blank v) v) (\<lambda>v1.
              Ret (v1\<lparr>VGA_Cursor_Column := VGA_Cursor_Column v1 + 1\<rparr>))
            else Ret (v\<lparr>VGA_Cursor_Row := 0, VGA_Cursor_Column := VGA_Cursor_Column v + 1\<rparr>))
         else
           res_bind (cell_put index
               (vga_entry c (VGA_Current_Foreground v) (VGA_Current_Background v)) v) (\<lambda>v1.
           (let row = (VGA_Cursor_Row v1 + 1) mod VGA_Width; v2 = v1\<lparr>VGA_Cursor_Row := row\<rparr> in
            Ret (if row = 0 then v2\<lparr>VGA_Cursor_Column := VGA_Cursor_Column v2 + 1\<rparr> else v2)))) (\<lambda>v3.
      if VGA_Cursor_Column v3 = VGA_Height then vga_scroll_up_line v3 else Ret v3)))"

definition vga_putc :: "u8 \<Rightarrow> ('a) vga_scheme \<Rightarrow> (('a) vga_scheme) res" where
  "vga_putc c v =
     res_bind (with_vga_lock (\<lambda>v1. res_bind (vga_putc_unlocked c v1) (\<lambda>v2. Ret ((), v2))) v)
       (\<lambda>(_, v3). Ret v3)"

definition vga_log_enable :: "('a) vga_scheme \<Rightarrow> ('a) vga_scheme" where
  "vga_log_enable v = v\<lparr>VGA_Log_Enabled := True\<rparr>"

definition vga_log_putc :: "u8 \<Rightarrow> ('a) vga_scheme \<Rightarrow> (('a) vga_scheme) res" where
  "vga_log_putc c v = (if VGA_Log_Enabled v then vga_putc_unlocked c v else Ret v)"

primrec vga_chars :: "u8 list \<Rightarrow> ('a) vga_scheme \<Rightarrow> (('a) vga_scheme) res" where
  "vga_chars [] v = Ret v"
| "vga_chars (c # cs) v = res_bind (vga_putc_unlocked c v) (vga_chars cs)"

text \<open>\<open>str\<close> is the bytes before the terminating zero.\<close>

definition vga_puts :: "u8 list \<Rightarrow> ('a) vga_scheme \<Rightarrow> (('a) vga_scheme) res" where
  "vga_puts str v =
     res_bind (with_vga_lock (\<lambda>v1.
       res_bind (vga_chars str v1) (\<lambda>v2.
       res_bind (vga_putc_unlocked 0x0a v2) (\<lambda>v3. Ret ((), v3)))) v) (\<lambda>(_, v4). Ret v4)"

definition vga_write :: "u8 list \<Rightarrow> ('a) vga_scheme \<Rightarrow> (status \<times> ('a) vga_scheme) res" where
  "vga_write in_bytes v =
     with_vga_lock (\<lambda>v1. res_bind (vga_chars in_bytes v1) (\<lambda>v2. Ret (Ok, v2))) v"

text \<open>\<open>vga_free\<close> takes the lock and keeps it.\<close>

definition vga_free ::
    "(u64 \<Rightarrow> 's \<Rightarrow> 's res) \<Rightarrow> ('a) vga_scheme \<times> 's \<Rightarrow> (('a) vga_scheme \<times> 's) res" where
  "vga_free slab_free_framebuffer = (\<lambda>(v, s).
     res_bind (lock_acquire_writer (VGA_lock v)) (\<lambda>l.
     res_bind (slab_free_framebuffer VGA_Framebuffer_Size s) (\<lambda>s1.
     Ret (v\<lparr>VGA_lock := l\<rparr>, s1))))"

subsection \<open>The cursor stays on the screen\<close>

definition vga_ok :: "('a) vga_scheme \<Rightarrow> bool" where
  "vga_ok v \<longleftrightarrow> length (VGA_Framebuffer v) = 2048 \<and> VGA_Cursor_Row v < VGA_Width \<and>
     VGA_Cursor_Column v < VGA_Height"

lemmas vga_consts = VGA_Width_def VGA_Height_def VGA_Tab_Size_def

text \<open>What the loops leave in the framebuffer.\<close>

lemma cells_fill_at:
  "i + n \<le> length (VGA_Framebuffer v) \<Longrightarrow>
   \<exists>fb. cells_fill i n e v = Ret (v\<lparr>VGA_Framebuffer := fb\<rparr>) \<and> length fb = length (VGA_Framebuffer v) \<and>
     (\<forall>k < length fb. fb ! k = (if i \<le> k \<and> k < i + n then e else VGA_Framebuffer v ! k))"
proof (induction n arbitrary: i v)
  case 0
  then show ?case by (intro exI [of _ "VGA_Framebuffer v"]) auto
next
  case (Suc n)
  let ?v = "v\<lparr>VGA_Framebuffer := (VGA_Framebuffer v)[i := e]\<rparr>"
  have "Suc i + n \<le> length (VGA_Framebuffer ?v)" using Suc.prems by simp
  from Suc.IH [OF this] obtain fb where
    fb: "cells_fill (Suc i) n e ?v = Ret (?v\<lparr>VGA_Framebuffer := fb\<rparr>)" "length fb = length (VGA_Framebuffer v)"
      "\<forall>k < length fb. fb ! k = (if Suc i \<le> k \<and> k < Suc i + n then e else (VGA_Framebuffer v)[i := e] ! k)"
    by auto
  then show ?case
    using Suc.prems by (intro exI [of _ fb]) (auto simp: cell_put_def nth_list_update)
qed

lemma scroll_cells_at:
  "i + n + VGA_Width \<le> length (VGA_Framebuffer v) \<Longrightarrow>
   \<exists>fb. scroll_cells i n v = Ret (v\<lparr>VGA_Framebuffer := fb\<rparr>) \<and> length fb = length (VGA_Framebuffer v) \<and>
     (\<forall>k < length fb. fb ! k =
        (if i \<le> k \<and> k < i + n then VGA_Framebuffer v ! (k + VGA_Width) else VGA_Framebuffer v ! k))"
proof (induction n arbitrary: i v)
  case 0
  then show ?case by (intro exI [of _ "VGA_Framebuffer v"]) auto
next
  case (Suc n)
  let ?e = "VGA_Framebuffer v ! (i + VGA_Width)"
  let ?v = "v\<lparr>VGA_Framebuffer := (VGA_Framebuffer v)[i := ?e]\<rparr>"
  have "Suc i + n + VGA_Width \<le> length (VGA_Framebuffer ?v)" using Suc.prems by simp
  from Suc.IH [OF this] obtain fb where
    fb: "scroll_cells (Suc i) n ?v = Ret (?v\<lparr>VGA_Framebuffer := fb\<rparr>)" "length fb = length (VGA_Framebuffer v)"
      "\<forall>k < length fb. fb ! k = (if Suc i \<le> k \<and> k < Suc i + n
         then (VGA_Framebuffer v)[i := ?e] ! (k + VGA_Width) else (VGA_Framebuffer v)[i := ?e] ! k)"
    by auto
  then show ?case
    using Suc.prems
    by (intro exI [of _ fb]) (auto simp: cell_put_def cell_get_def nth_list_update vga_consts not_less_eq_eq dest: le_antisym)
qed

lemma vga_scroll_at:
  assumes "length (VGA_Framebuffer v) = 2048"
  shows "\<exists>fb. vga_scroll_up_line v =
      Ret (v\<lparr>VGA_Framebuffer := fb, VGA_Cursor_Row := 0, VGA_Cursor_Column := 23\<rparr>) \<and> length fb = 2048 \<and>
    (\<forall>k < 2048. fb ! k = (if k < 1840 then VGA_Framebuffer v ! (k + 80)
       else if k < 1920 then blank v else VGA_Framebuffer v ! k))"
proof -
  let ?v = "v\<lparr>VGA_Cursor_Row := 0, VGA_Cursor_Column := VGA_Height - 1\<rparr>"
  obtain fb where fb: "scroll_cells 0 1840 ?v = Ret (?v\<lparr>VGA_Framebuffer := fb\<rparr>)" "length fb = 2048"
    "\<forall>k < 2048. fb ! k = (if k < 1840 then VGA_Framebuffer v ! (k + 80) else VGA_Framebuffer v ! k)"
    using scroll_cells_at [of 0 1840 ?v] assms by (auto simp: vga_consts)
  obtain fb' where "cells_fill 1840 80 (blank v) (?v\<lparr>VGA_Framebuffer := fb\<rparr>) =
      Ret (?v\<lparr>VGA_Framebuffer := fb'\<rparr>)" "length fb' = 2048"
    "\<forall>k < 2048. fb' ! k = (if 1840 \<le> k \<and> k < 1920 then blank v else fb ! k)"
    using cells_fill_at [of 1840 80 "?v\<lparr>VGA_Framebuffer := fb\<rparr>" "blank v"] fb(2) by auto
  with fb show ?thesis
    by (intro exI [of _ fb']) (auto simp: vga_scroll_up_line_def vga_consts blank_def Let_def)
qed

text \<open>One character: it never fails, the invariant holds again, and neither the lock, the colours
  nor the memory beyond the screen and the three cells after it change.\<close>

definition vga_keeps :: "('a) vga_scheme \<Rightarrow> ('a) vga_scheme \<Rightarrow> bool" where
  "vga_keeps v v' \<longleftrightarrow> VGA_lock v' = VGA_lock v \<and> VGA_Log_Enabled v' = VGA_Log_Enabled v \<and>
     VGA_Current_Background v' = VGA_Current_Background v \<and>
     VGA_Current_Foreground v' = VGA_Current_Foreground v \<and> vga.more v' = vga.more v \<and>
     (\<forall>k. 1923 \<le> k \<longrightarrow> k < 2048 \<longrightarrow> VGA_Framebuffer v' ! k = VGA_Framebuffer v ! k)"

lemma vga_keeps_refl [simp]: "vga_keeps v v"
  by (simp add: vga_keeps_def)

lemma vga_keeps_trans: "vga_keeps u v \<Longrightarrow> vga_keeps v w \<Longrightarrow> vga_keeps u w"
  by (simp add: vga_keeps_def)

text \<open>The end of every branch of \<open>vga_putc_unlocked\<close>.\<close>

definition wrap :: "('a) vga_scheme \<Rightarrow> (('a) vga_scheme) res" where
  "wrap v = (if VGA_Cursor_Column v = VGA_Height then vga_scroll_up_line v else Ret v)"

lemma wrap_ok:
  assumes "length (VGA_Framebuffer v) = 2048" "VGA_Cursor_Row v < VGA_Width" "VGA_Cursor_Column v \<le> VGA_Height"
  shows "\<exists>v'. wrap v = Ret v' \<and> vga_ok v' \<and> vga_keeps v v'"
proof (cases "VGA_Cursor_Column v = VGA_Height")
  case True
  with vga_scroll_at [OF assms(1)] show ?thesis
    by (auto simp: wrap_def vga_ok_def vga_keeps_def vga_consts)
next
  case False
  with assms show ?thesis by (simp add: wrap_def vga_ok_def)
qed

lemma vga_putc_branches:
  assumes "vga_ok v"
  shows "\<exists>v1. vga_putc_unlocked c v = wrap v1 \<and> length (VGA_Framebuffer v1) = 2048 \<and>
    VGA_Cursor_Row v1 < VGA_Width \<and> VGA_Cursor_Column v1 \<le> VGA_Height \<and> vga_keeps v v1"
proof -
  let ?i = "VGA_Cursor_Column v * VGA_Width + VGA_Cursor_Row v"
  have v: "length (VGA_Framebuffer v) = 2048" "VGA_Cursor_Row v < 80" "VGA_Cursor_Column v < 24" "?i < 1920"
    using assms by (auto simp: vga_ok_def vga_consts)
  consider (newline) "c = 0x0a" | (tab) "c = 0x09" | (plain) "c \<noteq> 0x0a" "c \<noteq> 0x09" by blast
  then show ?thesis
  proof cases
    case newline
    with v show ?thesis
      by (intro exI [of _ "v\<lparr>VGA_Cursor_Row := 0, VGA_Cursor_Column := VGA_Cursor_Column v + 1\<rparr>"])
        (simp add: vga_putc_unlocked_def wrap_def vga_keeps_def vga_consts Let_def)
  next
    case tab
    obtain fb where fb: "cells_fill ?i 4 (blank v) v = Ret (v\<lparr>VGA_Framebuffer := fb\<rparr>)" "length fb = 2048"
      "\<forall>k < 2048. 1923 \<le> k \<longrightarrow> fb ! k = VGA_Framebuffer v ! k"
      using cells_fill_at [of ?i 4 v "blank v"] v by auto
    with v tab show ?thesis
      by (intro exI [of _ "v\<lparr>VGA_Framebuffer := fb, VGA_Cursor_Column := VGA_Cursor_Column v + 1\<rparr>"])
        (simp add: vga_putc_unlocked_def wrap_def vga_keeps_def vga_consts Let_def)
  next
    case plain
    let ?e = "vga_entry c (VGA_Current_Foreground v) (VGA_Current_Background v)"
    let ?row = "(VGA_Cursor_Row v + 1) mod VGA_Width"
    let ?v = "v\<lparr>VGA_Framebuffer := (VGA_Framebuffer v)[?i := ?e], VGA_Cursor_Row := ?row\<rparr>"
    let ?w = "if ?row = 0 then ?v\<lparr>VGA_Cursor_Column := VGA_Cursor_Column v + 1\<rparr> else ?v"
    have "vga_putc_unlocked c v = wrap ?w"
      using v plain by (simp add: vga_putc_unlocked_def wrap_def vga_consts Let_def cell_put_def)
    with v show ?thesis
      by (intro exI [of _ ?w]) (simp add: vga_keeps_def vga_consts)
  qed
qed

lemma vga_putc_ok:
  assumes "vga_ok v" shows "\<exists>v'. vga_putc_unlocked c v = Ret v' \<and> vga_ok v' \<and> vga_keeps v v'"
  using vga_putc_branches [OF assms] wrap_ok vga_keeps_trans by metis

lemma vga_chars_ok:
  "vga_ok v \<Longrightarrow> \<exists>v'. vga_chars cs v = Ret v' \<and> vga_ok v' \<and> vga_keeps v v'"
proof (induction cs arbitrary: v)
  case (Cons c cs)
  from vga_putc_ok [OF Cons.prems, of c] obtain v1 where
    v1: "vga_putc_unlocked c v = Ret v1" "vga_ok v1" "vga_keeps v v1" by blast
  from Cons.IH [OF v1(2)] v1 show ?case by (auto intro: vga_keeps_trans)
qed simp

text \<open>Under the lock.\<close>

lemma with_lock_ok:
  assumes "vga_ok v" "VGA_lock v = Lock_Clear"
    and "\<And>u. vga_ok u \<Longrightarrow> \<exists>u'. body u = Ret (x, u') \<and> vga_ok u' \<and> vga_keeps u u'"
  shows "\<exists>v'. with_vga_lock body v = Ret (x, v') \<and> vga_ok v' \<and> vga_keeps v v'"
proof -
  let ?v = "v\<lparr>VGA_lock := held\<rparr>"
  have "vga_ok ?v" using assms(1) by (simp add: vga_ok_def)
  from assms(3) [OF this] obtain w where w: "body ?v = Ret (x, w)" "vga_ok w" "vga_keeps ?v w" by blast
  let ?w = "w\<lparr>VGA_lock := Lock_Clear\<rparr>"
  have "with_vga_lock body v = Ret (x, ?w)" using w assms(2) by (simp add: with_vga_lock_def vga_keeps_def)
  moreover have "vga_ok ?w" "vga_keeps v ?w" using w(2,3) assms(2) by (auto simp: vga_ok_def vga_keeps_def)
  ultimately show ?thesis by blast
qed

lemma vga_puts_ok:
  assumes "vga_ok v" "VGA_lock v = Lock_Clear"
  shows "\<exists>v'. vga_puts cs v = Ret v' \<and> vga_ok v' \<and> vga_keeps v v'"
proof -
  have "\<exists>u'. res_bind (vga_chars cs u) (\<lambda>v2. res_bind (vga_putc_unlocked 0x0a v2) (\<lambda>v3. Ret ((), v3))) = Ret ((), u') \<and>
      vga_ok u' \<and> vga_keeps u u'" if u: "vga_ok u" for u :: "'a vga_scheme"
  proof -
    obtain w where w: "vga_chars cs u = Ret w" "vga_ok w" "vga_keeps u w" using vga_chars_ok [OF u] by blast
    with vga_putc_ok [OF w(2), where c = "0x0a"] show ?thesis by (auto intro: vga_keeps_trans)
  qed
  from with_lock_ok [OF assms this] show ?thesis by (auto simp: vga_puts_def)
qed

lemma vga_clear_ok:
  assumes "vga_ok v" "VGA_lock v = Lock_Clear"
  shows "\<exists>v'. vga_framebuffer_clear v = Ret v' \<and> vga_ok v' \<and> vga_keeps v v' \<and> (\<forall>k < 1920. VGA_Framebuffer v' ! k = blank v)"
proof -
  obtain fb where fb: "cells_fill 0 1920 (blank v) (v\<lparr>VGA_lock := held\<rparr>) = Ret (v\<lparr>VGA_lock := held, VGA_Framebuffer := fb\<rparr>)"
    "length fb = 2048" "\<forall>k < 2048. fb ! k = (if k < 1920 then blank v else VGA_Framebuffer v ! k)"
    using cells_fill_at [where i = 0 and n = 1920 and e = "blank v" and v = "v\<lparr>VGA_lock := held\<rparr>"] assms(1) by (auto simp: vga_ok_def)
  then have "vga_framebuffer_clear v = Ret (v\<lparr>VGA_lock := Lock_Clear, VGA_Framebuffer := fb\<rparr>)"
    using assms(2) by (simp add: vga_framebuffer_clear_def with_vga_lock_def vga_consts)
  then show ?thesis using fb(2,3) assms by (auto simp: vga_ok_def vga_keeps_def)
qed

text \<open>(C22) Writing any bytes to the console succeeds: the cursor stays inside the 80 by 24 screen, the
  assertion on the index never fails, no store leaves the framebuffer page or reaches beyond the
  three cells after the screen, and the lock is free again.\<close>

theorem vga_write_safe:
  assumes "vga_ok v" "VGA_lock v = Lock_Clear"
  shows "\<exists>v'. vga_write cs v = Ret (Ok, v') \<and> vga_ok v' \<and> vga_keeps v v' \<and>
    VGA_Cursor_Column v' * VGA_Width + VGA_Cursor_Row v' < 1920"
proof -
  have "\<exists>u'. res_bind (vga_chars cs u) (\<lambda>v2. Ret (Ok, v2)) = Ret (Ok, u') \<and> vga_ok u' \<and> vga_keeps u u'"
    if "vga_ok u" for u :: "'a vga_scheme" using vga_chars_ok [OF that, of cs] by auto
  from with_lock_ok [OF assms this] obtain w where w: "vga_write cs v = Ret (Ok, w)" "vga_ok w" "vga_keeps v w"
    unfolding vga_write_def by blast
  moreover have "VGA_Cursor_Column w * VGA_Width + VGA_Cursor_Row w < 1920" using w(2) by (auto simp: vga_ok_def vga_consts)
  ultimately show ?thesis by blast
qed

text \<open>A screen of blanks.\<close>

definition blank_vga :: vga where
  "blank_vga = \<lparr>VGA_lock = Lock_Clear, VGA_Framebuffer = replicate 2048 0, VGA_Cursor_Row = 79,
     VGA_Cursor_Column = 23, VGA_Current_Background = VGA_Black, VGA_Current_Foreground = VGA_White,
     VGA_Log_Enabled = True\<rparr>"

theorem vga_write_safe_witness: "\<exists>v'. vga_write [0x41, 0x09, 0x0a] blank_vga = Ret (Ok, v') \<and> vga_ok v'"
  using vga_write_safe [of blank_vga "[0x41, 0x09, 0x0a]"]
  by (auto simp: blank_vga_def vga_ok_def vga_consts)

subsection \<open>The console as a terminal\<close>

text \<open>An abstract terminal: 24 lines of 80 cells and a cursor; a line that is full or ended moves
  the cursor to the next one, and at the last line the text scrolls.\<close>

type_synonym terminal = "u16 list list \<times> nat \<times> nat"

definition term_newline :: "u16 \<Rightarrow> terminal \<Rightarrow> terminal" where
  "term_newline b = (\<lambda>(ls, y, x). if y = 23 then (tl ls @ [replicate 80 b], 23, 0) else (ls, y + 1, 0))"

definition term_putc :: "u16 \<Rightarrow> u16 \<Rightarrow> terminal \<Rightarrow> terminal" where
  "term_putc b e = (\<lambda>(ls, y, x).
     let ls' = ls[y := (ls ! y)[x := e]] in
     if x = 79 then term_newline b (ls', y, x) else (ls', y, x + 1))"

definition screen :: "u16 list \<Rightarrow> u16 list list" where
  "screen fb = map (\<lambda>y. map (\<lambda>x. fb ! (y * 80 + x)) [0..<80]) [0..<24]"

definition term_of :: "('a) vga_scheme \<Rightarrow> terminal" where
  "term_of v = (screen (VGA_Framebuffer v), VGA_Cursor_Column v, VGA_Cursor_Row v)"

lemma cell_index_inj:
  assumes "x < 80" "j < 80" shows "y * 80 + x = i * 80 + j \<longleftrightarrow> y = i \<and> x = (j :: nat)"
proof
  assume eq: "y * 80 + x = i * 80 + j"
  then have "(y * 80 + x) div 80 = (i * 80 + j) div 80" by (simp only:)
  with assms have "y = i" by simp
  with eq show "y = i \<and> x = j" by simp
qed simp

lemma screen_put:
  assumes "y < 24" "x < 80" "length fb = 2048"
  shows "screen (fb[y * 80 + x := e]) = (screen fb)[y := (screen fb ! y)[x := e]]"
proof (rule nth_equalityI)
  fix i assume "i < length (screen (fb[y * 80 + x := e]))"
  then have i: "i < 24" by (simp add: screen_def)
  show "screen (fb[y * 80 + x := e]) ! i = (screen fb)[y := (screen fb ! y)[x := e]] ! i"
  proof (rule nth_equalityI)
    fix j assume "j < length (screen (fb[y * 80 + x := e]) ! i)"
    then have j: "j < 80" using i by (simp add: screen_def)
    have "y * 80 + x = i * 80 + j \<longleftrightarrow> y = i \<and> x = j" by (rule cell_index_inj [OF assms(2) j])
    then show "screen (fb[y * 80 + x := e]) ! i ! j = (screen fb)[y := (screen fb ! y)[x := e]] ! i ! j"
      using assms i j by (auto simp: screen_def nth_list_update)
  qed (use assms i in \<open>auto simp: screen_def nth_list_update\<close>)
qed (simp add: screen_def)

lemma screen_scroll:
  assumes "\<And>k. k < 1840 \<Longrightarrow> fb' ! k = fb ! (k + 80)" "\<And>k. 1840 \<le> k \<Longrightarrow> k < 1920 \<Longrightarrow> fb' ! k = b"
  shows "screen fb' = tl (screen fb) @ [replicate 80 b]"
proof -
  have up: "[0..<24] = 0 # [1..<24]" "[0..<24] = [0..<23] @ [23 :: nat]"
    by (simp_all add: upt_conv_Cons upt_Suc_append [of 0 23, simplified])
  have "map (\<lambda>y. map (\<lambda>x. fb' ! (y * 80 + x)) [0..<80]) [0..<23] =
      map (\<lambda>y. map (\<lambda>x. fb ! (y * 80 + x)) [0..<80]) [1..<24]"
    by (rule nth_equalityI) (auto simp: assms(1) add.commute add.left_commute simp del: upt_Suc)
  moreover have "map (\<lambda>x. fb' ! (23 * 80 + x)) [0..<80] = replicate 80 b"
    by (rule nth_equalityI) (auto simp: assms(2) simp del: upt_Suc)
  moreover have "screen fb' = map (\<lambda>y. map (\<lambda>x. fb' ! (y * 80 + x)) [0..<80]) [0..<23] @
      [map (\<lambda>x. fb' ! (23 * 80 + x)) [0..<80]]" unfolding screen_def up(2) by simp
  moreover have "tl (screen fb) = map (\<lambda>y. map (\<lambda>x. fb ! (y * 80 + x)) [0..<80]) [1..<24]"
    unfolding screen_def up(1) by simp
  ultimately show ?thesis by simp
qed

lemma wrap_newline:
  assumes "length (VGA_Framebuffer v) = 2048" "VGA_Cursor_Row v = 0" "VGA_Cursor_Column v = y + 1" "y < 24"
  shows "\<exists>v'. wrap v = Ret v' \<and> term_of v' = term_newline (blank v) (screen (VGA_Framebuffer v), y, x)"
proof (cases "y = 23")
  case True
  from vga_scroll_at [OF assms(1)] obtain fb where fb: "vga_scroll_up_line v =
      Ret (v\<lparr>VGA_Framebuffer := fb, VGA_Cursor_Row := 0, VGA_Cursor_Column := 23\<rparr>)"
    "\<forall>k < 2048. fb ! k = (if k < 1840 then VGA_Framebuffer v ! (k + 80)
       else if k < 1920 then blank v else VGA_Framebuffer v ! k)" by blast
  have "screen fb = tl (screen (VGA_Framebuffer v)) @ [replicate 80 (blank v)]"
    by (rule screen_scroll) (simp_all add: fb(2))
  with True assms fb(1) show ?thesis by (simp add: wrap_def vga_consts term_of_def term_newline_def)
next
  case False
  with assms show ?thesis by (simp add: wrap_def vga_consts term_of_def term_newline_def)
qed

lemma putc_terminal:
  assumes "vga_ok v" "c \<noteq> 0x09"
  shows "\<exists>v'. vga_putc_unlocked c v = Ret v' \<and>
    term_of v' =
      (if c = 0x0a then term_newline (blank v) (term_of v)
       else term_putc (blank v) (vga_entry c (VGA_Current_Foreground v) (VGA_Current_Background v)) (term_of v))"
proof -
  let ?y = "VGA_Cursor_Column v" and ?x = "VGA_Cursor_Row v"
  let ?e = "vga_entry c (VGA_Current_Foreground v) (VGA_Current_Background v)"
  have v: "length (VGA_Framebuffer v) = 2048" "?x < 80" "?y < 24" "?y * 80 + ?x < 1920"
    using assms(1) by (auto simp: vga_ok_def vga_consts)
  show ?thesis
  proof (cases "c = 0x0a")
    case True
    let ?v = "v\<lparr>VGA_Cursor_Row := 0, VGA_Cursor_Column := ?y + 1\<rparr>"
    have "vga_putc_unlocked c v = wrap ?v"
      using v True by (simp add: vga_putc_unlocked_def wrap_def vga_consts Let_def)
    with wrap_newline [of ?v ?y ?x] v True show ?thesis by (simp add: term_of_def blank_def)
  next
    case False
    let ?fb = "(VGA_Framebuffer v)[?y * 80 + ?x := ?e]"
    let ?v = "v\<lparr>VGA_Framebuffer := ?fb, VGA_Cursor_Row := (?x + 1) mod 80\<rparr>"
    let ?w = "if (?x + 1) mod 80 = 0 then ?v\<lparr>VGA_Cursor_Column := ?y + 1\<rparr> else ?v"
    have run: "vga_putc_unlocked c v = wrap ?w"
      using v False assms(2) by (simp add: vga_putc_unlocked_def wrap_def vga_consts Let_def cell_put_def)
    have put: "screen ?fb = (screen (VGA_Framebuffer v))[?y := (screen (VGA_Framebuffer v) ! ?y)[?x := ?e]]"
      using screen_put [OF v(3,2,1)] .
    show ?thesis
    proof (cases "?x = 79")
      case True
      with wrap_newline [of "?v\<lparr>VGA_Cursor_Column := ?y + 1\<rparr>" ?y ?x] v run put False show ?thesis
        by (simp add: term_of_def term_putc_def blank_def Let_def)
    next
      case x: False
      with v have m: "(?x + 1) mod 80 = ?x + 1" by simp
      with run v(3) have "vga_putc_unlocked c v = Ret ?v" by (simp add: wrap_def vga_consts)
      with put x False m show ?thesis by (simp add: term_of_def term_putc_def Let_def)
    qed
  qed
qed

lemma putc_locked:
  assumes "vga_ok v" "VGA_lock v = Lock_Clear"
  shows "\<exists>v'. vga_putc c v = Ret v' \<and> vga_ok v' \<and> vga_keeps v v' \<and>
    (c \<noteq> 0x09 \<longrightarrow> term_of v' =
      (if c = 0x0a then term_newline (blank v) (term_of v)
       else term_putc (blank v) (vga_entry c (VGA_Current_Foreground v) (VGA_Current_Background v)) (term_of v)))"
proof -
  let ?v = "v\<lparr>VGA_lock := held\<rparr>"
  have ok: "vga_ok ?v" using assms(1) by (simp add: vga_ok_def)
  from vga_putc_ok [OF this, of c] obtain w where
    w: "vga_putc_unlocked c ?v = Ret w" "vga_ok w" "vga_keeps ?v w" by blast
  let ?w = "w\<lparr>VGA_lock := Lock_Clear\<rparr>"
  have "vga_putc c v = Ret ?w" using w assms(2) by (simp add: vga_putc_def with_vga_lock_def vga_keeps_def)
  moreover have "vga_ok ?w" "vga_keeps v ?w" using w(2,3) assms(2) by (auto simp: vga_ok_def vga_keeps_def)
  moreover have "term_of ?w = term_of w" "term_of ?v = term_of v" "blank ?v = blank v"
    by (simp_all add: term_of_def blank_def)
  ultimately show ?thesis using putc_terminal [OF ok, of c] w(1) by auto
qed

lemma cells_fill_more: "cells_fill i n e v = Ret v' \<Longrightarrow> vga.more v' = vga.more v"
  by (induction n arbitrary: i v) (auto simp: cell_put_def res_bind_Ret_iff split: if_splits)

lemma scroll_cells_more: "scroll_cells i n v = Ret v' \<Longrightarrow> vga.more v' = vga.more v"
  by (induction n arbitrary: i v) (auto simp: cell_put_def res_bind_Ret_iff split: if_splits)

lemma putc_unlocked_more: "vga_putc_unlocked c v = Ret v' \<Longrightarrow> vga.more v' = vga.more v"
  by (auto simp: vga_putc_unlocked_def vga_scroll_up_line_def Let_def res_bind_Ret_iff cell_put_def
      dest!: cells_fill_more scroll_cells_more split: if_splits)

lemma putc_more: "vga_putc c v = Ret v' \<Longrightarrow> vga.more v' = vga.more v"
  by (auto simp: vga_putc_def with_vga_lock_def res_bind_Ret_iff dest!: putc_unlocked_more)

text \<open>The console is a terminal: a newline and every character but the tab act on the visible
  lines and the cursor as on an abstract terminal of 24 lines of 80 cells that wraps at the end
  of a line and scrolls at the end of the screen.\<close>

theorem vga_putc_refines:
  assumes "vga_ok v" "c \<noteq> 0x09"
  shows "\<exists>v'. vga_putc_unlocked c v = Ret v' \<and>
    term_of v' =
      (if c = 0x0a then term_newline (blank v) (term_of v)
       else term_putc (blank v) (vga_entry c (VGA_Current_Foreground v) (VGA_Current_Background v)) (term_of v))"
  using putc_terminal [OF assms] .

theorem vga_putc_refines_witness:
  "\<exists>v'. vga_putc_unlocked 0x41 blank_vga = Ret v' \<and>
     term_of v' = term_putc (blank blank_vga) (vga_entry 0x41 VGA_White VGA_Black) (term_of blank_vga)"
  using vga_putc_refines [of blank_vga "0x41"] by (auto simp: blank_vga_def vga_ok_def vga_consts)

end
