(* ===== verification/Serial.thy ===== *)
theory Serial
  imports Vga Format
begin

text \<open>
  The port instructions of \<open>include/arch/x64/port.h\<close>, the serial line of \<open>kernel/device/serial.c\<close>
  and the kernel log of \<open>kernel/core/log.c\<close>, which writes to it. What a port does is the device's
  business: the devices are a parameter, a pair of functions on a state of their own.
\<close>

subsection \<open>Ports\<close>

record 'd io =
  inb :: "u16 \<Rightarrow> 'd \<Rightarrow> u8 \<times> 'd"
  outb :: "u8 \<Rightarrow> u16 \<Rightarrow> 'd \<Rightarrow> 'd"

definition read_port :: "'d io \<Rightarrow> u16 \<Rightarrow> 'd \<Rightarrow> u8 \<times> 'd" where
  "read_port io port d = inb io port d"

definition write_port :: "'d io \<Rightarrow> u8 \<Rightarrow> u16 \<Rightarrow> 'd \<Rightarrow> 'd" where
  "write_port io data port d = outb io data port d"

subsection \<open>The serial line\<close>

datatype com_port = COM1 | COM2 | COM3 | COM4

primrec com_port_base :: "com_port \<Rightarrow> u16" where
  "com_port_base COM1 = 0x3f8"
| "com_port_base COM2 = 0x2f8"
| "com_port_base COM3 = 0x3e8"
| "com_port_base COM4 = 0x2e8"

text \<open>The state of the line: the console it copies to, the devices and the name of the file.\<close>

record 'd serial = vga +
  dev :: 'd
  COM1_File_name :: "string option"

definition init_port :: "'d io \<Rightarrow> com_port \<Rightarrow> 'd \<Rightarrow> status \<times> 'd" where
  "init_port io port d =
     (let p = com_port_base port;
          d = write_port io 0x00 (p + 1) d;
          d = write_port io 0x80 (p + 3) d;
          d = write_port io 0x01 (p + 0) d;
          d = write_port io 0x00 (p + 1) d;
          d = write_port io 0x03 (p + 3) d;
          d = write_port io 0xc7 (p + 2) d;
          d = write_port io 0x0b (p + 4) d;
          d = write_port io 0x01 (p + 1) d
      in (Ok, d))"

text \<open>\<open>serial_received\<close> looks at the data register, not at the line status register.\<close>

definition serial_received :: "'d io \<Rightarrow> com_port \<Rightarrow> 'd \<Rightarrow> bool \<times> 'd" where
  "serial_received io port d =
     (let (b, d1) = read_port io (com_port_base port) d in (b AND 1 \<noteq> 0, d1))"

partial_function (option) wait_received :: "'d io \<Rightarrow> com_port \<Rightarrow> 'd \<Rightarrow> 'd option" where
  "wait_received io port d =
     (let (b, d1) = serial_received io port d in if b then Some d1 else wait_received io port d1)"

definition read_serial_byte :: "'d io \<Rightarrow> com_port \<Rightarrow> 'd \<Rightarrow> (u8 \<times> 'd) res" where
  "read_serial_byte io port d =
     (case wait_received io port d of None \<Rightarrow> Hang
      | Some d1 \<Rightarrow> Ret (read_port io (com_port_base port) d1))"

primrec serial_read :: "'d io \<Rightarrow> com_port \<Rightarrow> nat \<Rightarrow> 'd \<Rightarrow> ((status \<times> u8 list) \<times> 'd) res" where
  "serial_read io port 0 d = Ret ((Ok, []), d)"
| "serial_read io port (Suc n) d =
     res_bind (read_serial_byte io port d) (\<lambda>(b, d1).
     res_bind (serial_read io port n d1) (\<lambda>((st, bs), d2). Ret ((st, b # bs), d2)))"

definition is_transmit_empty :: "'d io \<Rightarrow> com_port \<Rightarrow> 'd \<Rightarrow> bool \<times> 'd" where
  "is_transmit_empty io port d =
     (let (b, d1) = read_port io (com_port_base port + 5) d in (b AND 0x20 \<noteq> 0, d1))"

partial_function (option) wait_transmit :: "'d io \<Rightarrow> com_port \<Rightarrow> 'd \<Rightarrow> 'd option" where
  "wait_transmit io port d =
     (let (b, d1) = is_transmit_empty io port d in if b then Some d1 else wait_transmit io port d1)"

definition write_serial_byte :: "'d io \<Rightarrow> com_port \<Rightarrow> u8 \<Rightarrow> 'd \<Rightarrow> 'd res" where
  "write_serial_byte io port data d =
     (case wait_transmit io port d of None \<Rightarrow> Hang
      | Some d1 \<Rightarrow> Ret (write_port io data (com_port_base port) d1))"

primrec serial_write ::
    "'d io \<Rightarrow> com_port \<Rightarrow> u8 list \<Rightarrow> ('d, 'a) serial_scheme \<Rightarrow> (status \<times> ('d, 'a) serial_scheme) res" where
  "serial_write io port [] s = Ret (Ok, s)"
| "serial_write io port (b # bs) s =
     res_bind (write_serial_byte io port b (dev s)) (\<lambda>d.
     res_bind (vga_log_putc b (s\<lparr>dev := d\<rparr>)) (serial_write io port bs))"

text \<open>The three functions of the file \<open>COM1_File\<close>, the kernel's \<open>Log_File\<close>.\<close>

definition serial_init_COM1 ::
    "'d io \<Rightarrow> string \<Rightarrow> ('d, 'a) serial_scheme \<Rightarrow> status \<times> ('d, 'a) serial_scheme" where
  "serial_init_COM1 io file_name s =
     (let (st, d) = init_port io COM1 (dev s) in (st, s\<lparr>COM1_File_name := Some file_name, dev := d\<rparr>))"

definition serial_write_COM1 :: "'d io \<Rightarrow> (('d, 'a) serial_scheme) write_f" where
  "serial_write_COM1 io text s = serial_write io COM1 (map of_char text) s"

definition serial_read_COM1 :: "'d io \<Rightarrow> nat \<Rightarrow> 'd \<Rightarrow> ((status \<times> u8 list) \<times> 'd) res" where
  "serial_read_COM1 io n d = serial_read io COM1 n d"

subsection \<open>The log\<close>

datatype log_level = Log_Debug | Log_Info | Log_Warning | Log_Error | Log_None | Log_Count

primrec log_level_code :: "log_level \<Rightarrow> nat" where
  "log_level_code Log_Debug = 0"
| "log_level_code Log_Info = 1"
| "log_level_code Log_Warning = 2"
| "log_level_code Log_Error = 3"
| "log_level_code Log_None = 4"
| "log_level_code Log_Count = 5"

lemma log_level_code_inj [simp]: "log_level_code a = log_level_code b \<longleftrightarrow> a = b"
  by (cases a; cases b) simp_all

text \<open>C compares enumerators by their values.\<close>

instantiation log_level :: linorder
begin

definition less_eq_log_level :: "log_level \<Rightarrow> log_level \<Rightarrow> bool" where
  "less_eq_log_level a b \<longleftrightarrow> log_level_code a \<le> log_level_code b"

definition less_log_level :: "log_level \<Rightarrow> log_level \<Rightarrow> bool" where
  "less_log_level a b \<longleftrightarrow> log_level_code a < log_level_code b"

instance
  by standard (auto simp: less_eq_log_level_def less_log_level_def)

end

record 'd log_state = "'d serial" +
  Log_Global_Level :: log_level

definition Log_Prefix :: "string list" where
  "Log_Prefix = [''Debug: '', ''Info:  '', ''Warn:  '', ''Error: '', '''']"

definition log_prefix :: "log_level \<Rightarrow> string res" where
  "log_prefix level =
     (if log_level_code level < length Log_Prefix then Ret (Log_Prefix ! log_level_code level) else Fault)"

definition log_init ::
    "'d io \<Rightarrow> log_level \<Rightarrow> string \<Rightarrow> ('d, 'a) log_state_scheme \<Rightarrow> status \<times> ('d, 'a) log_state_scheme" where
  "log_init io level name s = serial_init_COM1 io name (s\<lparr>Log_Global_Level := level\<rparr>)"

text \<open>A write to the log file that failed would make \<open>bubble\<close> call \<open>log\<close> again; \<open>warn\<close> is that call.
  The results of the two \<open>fprintf\<close> calls are not looked at.\<close>

definition log ::
    "'d io \<Rightarrow> (('d, 'a) log_state_scheme) warn_f \<Rightarrow> log_level \<Rightarrow> string \<Rightarrow> ('d, 'a) log_state_scheme
      \<Rightarrow> (('d, 'a) log_state_scheme) res" where
  "log io warn level message s =
     (if level \<ge> Log_Global_Level s then
        res_bind (log_prefix level) (\<lambda>prefix.
        res_bind (fprintf (Some (serial_write_COM1 io)) warn [CHR ''%'', CHR ''s'', CHR ''%'', CHR ''s'', CHR 0x0A]
            [VStr (Some prefix), VStr (Some message)] s) (\<lambda>(_, s1). Ret s1))
      else Ret s)"

definition logf ::
    "'d io \<Rightarrow> (('d, 'a) log_state_scheme) warn_f \<Rightarrow> log_level \<Rightarrow> string \<Rightarrow> va list
      \<Rightarrow> ('d, 'a) log_state_scheme \<Rightarrow> (('d, 'a) log_state_scheme) res" where
  "logf io warn level message args s =
     (if level \<ge> Log_Global_Level s then
        res_bind (log_prefix level) (\<lambda>prefix.
        res_bind (fprintf (Some (serial_write_COM1 io)) warn ''%s'' [VStr (Some prefix)] s) (\<lambda>(_, s1).
        res_bind (vfprintf (Some (serial_write_COM1 io)) warn message args s1) (\<lambda>(_, s2). Ret s2)))
      else Ret s)"

definition log_set_level :: "log_level \<Rightarrow> ('d, 'a) log_state_scheme \<Rightarrow> (('d, 'a) log_state_scheme) res" where
  "log_set_level level s =
     res_bind (kassert (level < Log_Count)) (\<lambda>_. Ret (s\<lparr>Log_Global_Level := level\<rparr>))"

fun log_hexdump_loop ::
    "'d io \<Rightarrow> (('d, 'a) log_state_scheme) warn_f \<Rightarrow> nat \<Rightarrow> u8 list \<Rightarrow> ('d, 'a) log_state_scheme
      \<Rightarrow> (('d, 'a) log_state_scheme) res" where
  "log_hexdump_loop io warn i [] s = Ret s"
| "log_hexdump_loop io warn i (b # bs) s =
     (let out = fprintf (Some (serial_write_COM1 io)) warn in
      res_bind (if i mod 16 = 0 then out ''%zx: '' [VLong (of_nat i)] s else Ret (Ok, s)) (\<lambda>(_, s1).
      res_bind (out ''%hhx'' [VInt (ucast b)] s1) (\<lambda>(_, s2).
      res_bind (if i mod 2 = 1 then out '' '' [] s2 else Ret (Ok, s2)) (\<lambda>(_, s3).
      res_bind (if i mod 16 = 15 then out [CHR 0x0A] [] s3 else Ret (Ok, s3)) (\<lambda>(_, s4).
      log_hexdump_loop io warn (Suc i) bs s4)))))"

definition log_hexdump ::
    "'d io \<Rightarrow> (('d, 'a) log_state_scheme) warn_f \<Rightarrow> u8 list \<Rightarrow> ('d, 'a) log_state_scheme
      \<Rightarrow> (('d, 'a) log_state_scheme) res" where
  "log_hexdump io warn memory s = log_hexdump_loop io warn 0 memory s"

subsection \<open>What reaches the line\<close>

text \<open>A line whose transmitter always drains in the end, and that sends what is written to its data
  register: \<open>sent\<close> is what has left.\<close>

definition byte_char :: "u8 \<Rightarrow> char" where
  "byte_char b = char_of (unat b)"

definition line_ready :: "'d io \<Rightarrow> ('d \<Rightarrow> string) \<Rightarrow> bool" where
  "line_ready io sent \<longleftrightarrow>
     (\<forall>d. \<exists>d'. wait_transmit io COM1 d = Some d' \<and> sent d' = sent d) \<and>
     (\<forall>b d. sent (write_port io b (com_port_base COM1) d) = sent d @ [byte_char b])"

lemma vga_ok_dev [simp]: "vga_ok (s\<lparr>dev := d\<rparr>) = vga_ok s"
  by (simp add: vga_ok_def)

lemma vga_more_eq:
  fixes s :: "('d, 'a) serial_scheme"
  assumes "vga.more s' = vga.more s"
  shows "dev s' = dev s" "serial.more s' = serial.more s"
  using assms by (cases s, cases s', simp)+

lemma vga_log_putc_ok:
  "vga_ok v \<Longrightarrow> \<exists>v'. vga_log_putc c v = Ret v' \<and> vga_ok v' \<and> vga_keeps v v'"
  using vga_putc_ok by (auto simp: vga_log_putc_def)

lemma serial_write_ok:
  "line_ready io sent \<Longrightarrow> vga_ok s \<Longrightarrow>
   \<exists>s'. serial_write io COM1 bs s = Ret (Ok, s') \<and> vga_ok s' \<and> serial.more s' = serial.more s \<and>
     sent (dev s') = sent (dev s) @ map byte_char bs"
proof (induction bs arbitrary: s)
  case (Cons b bs)
  from Cons.prems(1) obtain d where d: "wait_transmit io COM1 (dev s) = Some d" "sent d = sent (dev s)"
    unfolding line_ready_def by blast
  let ?s = "s\<lparr>dev := write_port io b (com_port_base COM1) d\<rparr>"
  have "vga_ok ?s" using Cons.prems(2) by simp
  from vga_log_putc_ok [OF this] obtain s1 where
    s1: "vga_log_putc b ?s = Ret s1" "vga_ok s1" "vga_keeps ?s s1" by blast
  have more: "dev s1 = dev ?s" "serial.more s1 = serial.more ?s"
    using vga_more_eq [of s1 ?s] s1(3) by (auto simp: vga_keeps_def)
  have "sent (dev s1) = sent (dev s) @ [byte_char b]"
    using Cons.prems(1) d(2) more(1) by (simp add: line_ready_def)
  with Cons.IH [OF Cons.prems(1) s1(2)] s1(1) d(1) more(2) show ?case
    by (auto simp: write_serial_byte_def)
qed simp

lemma byte_char_of_char [simp]: "byte_char (of_char c) = c"
proof -
  have "unat (of_char c :: u8) = of_char c"
  proof -
    have "(of_char c :: u8) = of_nat (of_char c)" by (rule of_nat_of_char [symmetric])
    then show ?thesis using nat_of_char_less_256 [of c] by (simp only: unat_of_nat) simp
  qed
  then show ?thesis by (simp add: byte_char_def)
qed

interpretation serial_line: text_sink "serial_write_COM1 io"
  "\<lambda>s. line_ready io sent \<and> vga_ok s \<and> serial.more s = m" "\<lambda>s. sent (dev s)" for io sent m
proof
  fix s :: "('a, 'b) serial_scheme" and t assume "line_ready io sent \<and> vga_ok s \<and> serial.more s = m"
  then show "\<exists>s'. serial_write_COM1 io t s = Ret (Ok, s') \<and>
      (line_ready io sent \<and> vga_ok s' \<and> serial.more s' = m) \<and> sent (dev s') = sent (dev s) @ t"
    using serial_write_ok [of io sent s "map of_char t"] by (auto simp: serial_write_COM1_def comp_def)
qed

lemma log_sends:
  assumes "line_ready io sent" "vga_ok s" "level < Log_Count"
  shows "\<exists>s'. log io warn level message s = Ret s' \<and> vga_ok s' \<and>
    (if level < Log_Global_Level s then s' = s
     else serial.more s' = serial.more s \<and>
       sent (dev s') = sent (dev s) @ Log_Prefix ! log_level_code level @ message @ [CHR 0x0A])"
proof (cases "level < Log_Global_Level s")
  case True
  with assms(2) show ?thesis by (auto simp: log_def)
next
  case False
  let ?p = "Log_Prefix ! log_level_code level"
  have lt: "log_level_code level < length Log_Prefix"
    using assms(3) by (simp add: less_log_level_def Log_Prefix_def)
  let ?ps = "[Directive Int_Width (Text (Some ?p)), Directive Int_Width (Text (Some message)), Literal (CHR 0x0A)]"
  have fmt: "format_of ?ps = [CHR ''%'', CHR ''s'', CHR ''%'', CHR ''s'', CHR 0x0A]"
    "args_of ?ps = [VStr (Some ?p), VStr (Some message)]" "text_of ?ps = ?p @ message @ [CHR 0x0A]"
    "list_all piece_ok ?ps"
    by (simp_all add: format_of_def args_of_def text_of_def)
  from serial_line.fprintf_ok [OF fmt(4), of io sent s "serial.more s" warn] assms obtain s' where
    "fprintf (Some (serial_write_COM1 io)) warn
      [CHR ''%'', CHR ''s'', CHR ''%'', CHR ''s'', CHR 0x0A] [VStr (Some ?p), VStr (Some message)] s = Ret (Ok, s')"
    "vga_ok s'" "serial.more s' = serial.more s" "sent (dev s') = sent (dev s) @ ?p @ message @ [CHR 0x0A]"
    by (simp only: fmt) auto
  then show ?thesis using False lt by (auto simp: log_def log_prefix_def not_less)
qed

lemma serial_more_level: "serial.more s' = serial.more s \<Longrightarrow> Log_Global_Level s' = Log_Global_Level s"
  by (cases s, cases s') simp

text \<open>(C34) Formatted output: for every format made of literals and directives, with every modifier, the
  unknown directives included, \<open>fprintf\<close> on the serial file returns \<open>Ok\<close> and puts on the line,
  after all that was sent before, exactly the text that the pieces stand for, whatever its
  length; it never stores past the 256 bytes of its buffer and leaves the rest of the state as it
  was. Numbers are specified by their digits: hexadecimal and binary numbers show every bit of
  their size, octal numbers their sign and all digits. Decimal numbers show their sign and their
  last \<open>2 * size\<close> digits only, which is the whole number just when it is below
  \<open>10 ^ (2 * size)\<close>, and \<open>%u\<close> shows those of the argument widened with its sign. A file that
  cannot be written is refused.\<close>

theorem fprintf_renders:
  assumes "line_ready io sent" "vga_ok s" "list_all piece_ok ps"
  shows "\<exists>s'. fprintf (Some (serial_write_COM1 io)) warn (format_of ps) (args_of ps) s = Ret (Ok, s') \<and>
      vga_ok s' \<and> serial.more s' = serial.more s \<and> sent (dev s') = sent (dev s) @ text_of ps \<and>
      fprintf None warn (format_of ps) (args_of ps) s = Ret (Error_Permissions, s)"
  using serial_line.fprintf_ok [OF assms(3), of io sent s "serial.more s" warn] assms(1,2)
  by (auto simp: fprintf_def [of None] vfprintf_def [of None])

text \<open>(C35) The log: a message below the level is dropped and changes nothing; any other message reaches
  the serial line as its prefix, the message and a newline, after all that was sent before,
  whatever the message holds and however long it is.\<close>

theorem log_reaches_line:
  assumes "line_ready io sent" "vga_ok s" "level < Log_Count"
  shows "\<exists>s'. log io warn level message s = Ret s' \<and> vga_ok s' \<and>
    (if level < Log_Global_Level s then s' = s
     else Log_Global_Level s' = Log_Global_Level s \<and>
       sent (dev s') = sent (dev s) @ Log_Prefix ! log_level_code level @ message @ [CHR 0x0A])"
  using log_sends [OF assms, of warn message] serial_more_level by fastforce

text \<open>A line that is busy for a while after each byte.\<close>

definition demo_io :: "(string \<times> nat) io" where
  "demo_io = \<lparr>inb = \<lambda>port (out, busy). if busy = 0 then (0x20, (out, 0)) else (0, (out, busy - 1)),
     outb = \<lambda>b port (out, busy). (out @ [byte_char b], 3)\<rparr>"

lemma demo_wait: "wait_transmit demo_io COM1 (out, n) = Some (out, 0)"
proof (induction n)
  case 0
  then show ?case by (subst wait_transmit.simps) (simp add: is_transmit_empty_def read_port_def demo_io_def)
next
  case (Suc n)
  then show ?case by (subst wait_transmit.simps) (simp add: is_transmit_empty_def read_port_def demo_io_def)
qed

lemma demo_ready: "line_ready demo_io fst"
  by (auto simp: line_ready_def demo_wait write_port_def) (simp add: demo_io_def split: prod.splits)

definition demo_log :: "(string \<times> nat) log_state" where
  "demo_log = vga.extend blank_vga \<lparr>dev = ([], 0), COM1_File_name = None, Log_Global_Level = Log_Info\<rparr>"

lemma demo_log_ok: "vga_ok demo_log" "dev demo_log = ([], 0)" "Log_Global_Level demo_log = Log_Info"
  by (simp_all add: demo_log_def vga.defs blank_vga_def vga_ok_def vga_consts)

text \<open>A format with every kind of directive; the nine digits of the last number lose their first.\<close>

definition demo_pieces :: "piece list" where
  "demo_pieces =
     [Directive Int_Width (Text (Some ''x'')), Literal (CHR 0x20), Directive Char_Width (Number Hex 0x12a),
      Directive Int_Width (Character 0x21), Directive Int_Width Percent, Directive Int_Width (Unknown CHR ''q''),
      Directive Long_Width (Unknown CHR ''q''), Directive Short_Width (Number Decimal_D (- 42)),
      Literal (CHR 0x20), Directive Int_Width (Number Decimal_D 123456789)]"

theorem fprintf_renders_witness:
  "\<exists>s'. fprintf (Some (serial_write_COM1 demo_io)) (\<lambda>_. Ret) ''%s %hhx%c%%%q%lq%hd %d''
       [VStr (Some ''x''), VInt 0x12a, VInt 0x21, VInt (- 42), VInt 123456789] demo_log = Ret (Ok, s') \<and>
     fst (dev s') = ''x 2a!%%qlq-0042 23456789''"
proof -
  have "list_all piece_ok demo_pieces" by (simp add: demo_pieces_def unknown_after_def)
  moreover have "rev [0..<2] = [1, 0::nat]" "rev [0..<4] = [3, 2, 1, 0::nat]"
    "rev [0..<8] = [7, 6, 5, 4, 3, 2, 1, 0::nat]"
    by code_simp+
  then have "format_of demo_pieces = ''%s %hhx%c%%%q%lq%hd %d''"
    "args_of demo_pieces = [VStr (Some ''x''), VInt 0x12a, VInt 0x21, VInt (- 42), VInt 123456789]"
    "text_of demo_pieces = ''x 2a!%%qlq-0042 23456789''"
    by (simp_all add: demo_pieces_def format_of_def args_of_def text_of_def number_arg_def number_bytes_def
        number_shown_def number_int_def signed_digits_def digits_of_def digit_char_def mark_def
        char_of_eq_iff)
  ultimately show ?thesis
    using fprintf_renders [OF demo_ready demo_log_ok(1), of demo_pieces "\<lambda>_. Ret"] by (auto simp: demo_log_ok(2))
qed

theorem log_reaches_line_witness:
  "log demo_io (\<lambda>_. Ret) Log_Debug ''x'' demo_log = Ret demo_log \<and>
   (\<exists>s'. log demo_io (\<lambda>_. Ret) Log_Error ''hello'' demo_log = Ret s' \<and>
      fst (dev s') = ''Error: hello'' @ [CHR 0x0A])"
proof -
  note ok = demo_log_ok(1)
  have "dev demo_log = ([], 0)" "Log_Global_Level demo_log = Log_Info" by (fact demo_log_ok)+
  then show ?thesis
    using log_reaches_line [OF demo_ready ok, of Log_Debug "\<lambda>_. Ret" "''x''"]
      log_reaches_line [OF demo_ready ok, of Log_Error "\<lambda>_. Ret" "''hello''"]
    by (auto simp: less_log_level_def Log_Prefix_def)
qed

end
