(* ===== verification/Scheduler.thy ===== *)
theory Scheduler
  imports Heap Hashtable
begin

text \<open>
  \<open>kernel/core/scheduler.c\<close> and the context switch of \<open>kernel/arch/x64/arch_process.c\<close> and
  \<open>process.S\<close>. Threads and processes live in two stores indexed by their addresses; the ready
  threads form a ring through their \<open>next\<close> and \<open>prev\<close> pointers. Releasing the last reference to
  a thread calls its destructor, \<open>thread_free\<close> of \<open>process.c\<close>, which is an argument here.
\<close>

subsection \<open>Threads and processes\<close>

datatype process_state = Process_Running | Process_Exited
datatype thread_state = Thread_Running | Thread_Sleeping | Thread_Exited

text \<open>The destructors an object of the kernel can carry.\<close>

datatype destructor = Thread_Free | Process_Free

record thread =
  user_space :: bool
  thread_id :: u32
  thread_exit_code :: u32
  thread_status :: thread_state
  user_stack_size :: u64
  kernel_stack_size :: u64
  user_stack :: u64
  current_stack_pointer :: u64
  kernel_stack :: u64
  thread_next :: u64
  thread_prev :: u64
  thread_process :: u64
  thread_obj :: "destructor object"

text \<open>The array \<open>threads\<close> is its slots; \<open>child_count\<close>, \<open>child_capacity\<close>, \<open>children\<close> and \<open>parent\<close> are
  set to zero and never read.\<close>

record process =
  process_id :: u32
  process_exit_code :: u32
  process_status :: process_state
  thread_count :: u32
  thread_capacity :: u32
  child_count :: u64
  child_capacity :: u64
  children :: u64
  parent :: u64
  threads_at :: u64
  threads :: "u64 list"
  page_table :: u64
  address_space :: rvector
  process_obj :: "destructor object"

record kproc = kheap +
  thread_store :: "u64 \<rightharpoonup> thread"
  process_store :: "u64 \<rightharpoonup> process"
  Current_Thread_Lock :: lock
  Current_Thread :: u64
  Process_Pool_Lock :: lock
  Process_Pool :: "hashtable option"
  next_pid :: u32
  tss_stack0 :: u64
  rsp :: u64

definition thread_at :: "u64 \<Rightarrow> ('a) kproc_scheme \<Rightarrow> thread res" where
  "thread_at t s = deref (thread_store s t)"

definition process_at :: "u64 \<Rightarrow> ('a) kproc_scheme \<Rightarrow> process res" where
  "process_at p s = deref (process_store s p)"

definition set_thread :: "u64 \<Rightarrow> (thread \<Rightarrow> thread) \<Rightarrow> ('a) kproc_scheme \<Rightarrow> (('a) kproc_scheme) res" where
  "set_thread t f s =
     res_bind (thread_at t s) (\<lambda>th. Ret (s\<lparr>thread_store := (thread_store s)(t \<mapsto> f th)\<rparr>))"

definition set_process :: "u64 \<Rightarrow> (process \<Rightarrow> process) \<Rightarrow> ('a) kproc_scheme \<Rightarrow> (('a) kproc_scheme) res" where
  "set_process p f s =
     res_bind (process_at p s) (\<lambda>pr. Ret (s\<lparr>process_store := (process_store s)(p \<mapsto> f pr)\<rparr>))"

text \<open>\<open>object_retain\<close> and \<open>object_release\<close> on the object inside a thread or a process.\<close>

definition thread_retain :: "u64 \<Rightarrow> ('a) kproc_scheme \<Rightarrow> (('a) kproc_scheme) res" where
  "thread_retain t s =
     res_bind (thread_at t s) (\<lambda>th.
     res_bind (object_retain (Some (thread_obj th))) (\<lambda>ob. set_thread t (thread_obj_update (\<lambda>_. ob)) s))"

definition process_retain :: "u64 \<Rightarrow> ('a) kproc_scheme \<Rightarrow> (('a) kproc_scheme) res" where
  "process_retain p s =
     res_bind (process_at p s) (\<lambda>pr.
     res_bind (object_retain (Some (process_obj pr))) (\<lambda>ob. set_process p (process_obj_update (\<lambda>_. ob)) s))"

definition thread_release ::
    "(u64 \<Rightarrow> ('a) kproc_scheme \<Rightarrow> (('a) kproc_scheme) res) \<Rightarrow> u64 \<Rightarrow> ('a) kproc_scheme
      \<Rightarrow> (('a) kproc_scheme) res" where
  "thread_release thread_free t s =
     res_bind (thread_at t s) (\<lambda>th.
     res_bind (object_release (Some (thread_obj th))) (\<lambda>(ob, fr).
     res_bind (set_thread t (thread_obj_update (\<lambda>_. ob)) s) (\<lambda>s1.
     if fr = None then Ret s1 else thread_free t s1)))"

subsection \<open>The context switch\<close>

definition tss_set_stack :: "u64 \<Rightarrow> ('a) kproc_scheme \<Rightarrow> ('a) kproc_scheme" where
  "tss_set_stack addr s = s\<lparr>tss_stack0 := addr\<rparr>"

text \<open>\<open>_thread_switch\<close> pushes fifteen registers and the flags, saves the stack pointer through its
  second argument, loads the new root of the page tables and the new stack pointer, and pops
  what was pushed there. The registers themselves are on the stacks and not in the model.\<close>

definition switch_stacks ::
    "u64 \<Rightarrow> u64 \<Rightarrow> phys_addr \<Rightarrow> ('a) kproc_scheme \<Rightarrow> (('a) kproc_scheme) res" where
  "switch_stacks new_stack old_thread table s =
     res_bind (set_thread old_thread (current_stack_pointer_update (\<lambda>_. rsp s - 16 * 8)) s) (\<lambda>s1.
     Ret (s1\<lparr>cr3 := table, rsp := new_stack + 16 * 8\<rparr>))"

text \<open>The root of a process's page tables is the word its \<open>struct page_table\<close> holds.\<close>

definition thread_switch :: "u64 \<Rightarrow> u64 \<Rightarrow> ('a) kproc_scheme \<Rightarrow> (('a) kproc_scheme) res" where
  "thread_switch old_thread new_thread s =
     res_bind (kassert (new_thread \<noteq> old_thread)) (\<lambda>_.
     res_bind (thread_at new_thread s) (\<lambda>new.
     res_bind (process_at (thread_process new) s) (\<lambda>p.
     switch_stacks (current_stack_pointer new) old_thread (load64 (memory s) (page_table p))
       (tss_set_stack (kernel_stack new + kernel_stack_size new) s))))"

subsection \<open>Operations\<close>

definition scheduler_init :: "u64 \<Rightarrow> ('a) kproc_scheme \<Rightarrow> (status \<times> ('a) kproc_scheme) res" where
  "scheduler_init init s =
     res_bind (kassert (init \<noteq> 0)) (\<lambda>_.
     res_bind (process_at init s) (\<lambda>p.
     res_bind (kassert (thread_count p > 0)) (\<lambda>_.
     if threads p = [] then Fault
     else
       (let t = hd (threads p); s1 = s\<lparr>Current_Thread := t\<rparr> in
        res_bind (set_thread t (\<lambda>th. th\<lparr>thread_next := t, thread_prev := t\<rparr>) s1) (\<lambda>s2.
        res_bind (thread_retain t s2) (\<lambda>s3. Ret (Ok, s3)))))))"

text \<open>With no thread \<open>scheduler_yield\<close> enables interrupts and sleeps; the next interrupt ends it.
  The line it logs before a switch is left out.\<close>

definition scheduler_yield :: "('a) kproc_scheme \<Rightarrow> (('a) kproc_scheme) res" where
  "scheduler_yield s =
     (if Current_Thread s = 0 then Ret s
      else
        res_bind (thread_at (Current_Thread s) s) (\<lambda>th.
        if Current_Thread s \<noteq> thread_next th then
          res_bind (lock_acquire_writer (Current_Thread_Lock s)) (\<lambda>l.
          (let s1 = s\<lparr>Current_Thread_Lock := l, Current_Thread := thread_next th\<rparr> in
          res_bind (lock_release_writer (Current_Thread_Lock s1)) (\<lambda>l1.
          (let s2 = s1\<lparr>Current_Thread_Lock := l1\<rparr> in
           thread_switch (Current_Thread s) (Current_Thread s2) s2))))
        else Ret s))"

definition scheduler_get_current_process :: "('a) kproc_scheme \<Rightarrow> (u64 \<times> ('a) kproc_scheme) res" where
  "scheduler_get_current_process s =
     (let s1 = s\<lparr>Current_Thread_Lock := lock_acquire_reader (Current_Thread_Lock s)\<rparr> in
      res_bind
        (if Current_Thread s1 \<noteq> 0 then
           res_bind (thread_at (Current_Thread s1) s1) (\<lambda>th.
           res_bind (process_retain (thread_process th) s1) (\<lambda>s2. Ret (thread_process th, s2)))
         else Ret (0, s1)) (\<lambda>(p, s3).
      Ret (p, s3\<lparr>Current_Thread_Lock := lock_release_reader (Current_Thread_Lock s3)\<rparr>)))"

definition scheduler_get_current_thread :: "('a) kproc_scheme \<Rightarrow> (u64 \<times> ('a) kproc_scheme) res" where
  "scheduler_get_current_thread s =
     (let s1 = s\<lparr>Current_Thread_Lock := lock_acquire_reader (Current_Thread_Lock s)\<rparr> in
      res_bind (thread_retain (Current_Thread s1) s1) (\<lambda>s2.
      Ret (Current_Thread s1, s2\<lparr>Current_Thread_Lock := lock_release_reader (Current_Thread_Lock s2)\<rparr>)))"

definition scheduler_add_thread :: "u64 \<Rightarrow> ('a) kproc_scheme \<Rightarrow> (('a) kproc_scheme) res" where
  "scheduler_add_thread t s =
     res_bind (kassert (t \<noteq> 0)) (\<lambda>_.
     res_bind (lock_acquire_writer (Current_Thread_Lock s)) (\<lambda>l.
     (let s1 = s\<lparr>Current_Thread_Lock := l\<rparr>; cur = Current_Thread s1 in
      res_bind
        (if cur \<noteq> 0 then
           res_bind (thread_at cur s1) (\<lambda>c.
           res_bind (set_thread t (\<lambda>th. th\<lparr>thread_next := thread_next c\<rparr>) s1) (\<lambda>s2.
           res_bind (set_thread t (\<lambda>th. th\<lparr>thread_prev := cur\<rparr>) s2) (\<lambda>s3.
           res_bind (thread_at cur s3) (\<lambda>c3.
           res_bind (set_thread (thread_next c3) (\<lambda>th. th\<lparr>thread_prev := t\<rparr>) s3) (\<lambda>s4.
           set_thread cur (\<lambda>th. th\<lparr>thread_next := t\<rparr>) s4)))))
         else
           (let s2 = s1\<lparr>Current_Thread := t\<rparr> in
            res_bind (set_thread t (\<lambda>th. th\<lparr>thread_next := t\<rparr>) s2)
              (set_thread t (\<lambda>th. th\<lparr>thread_prev := t\<rparr>)))) (\<lambda>s5.
      res_bind (thread_retain t s5) (\<lambda>s6.
      res_bind (lock_release_writer (Current_Thread_Lock s6)) (\<lambda>l1.
      Ret (s6\<lparr>Current_Thread_Lock := l1\<rparr>)))))))"

definition scheduler_remove_thread ::
    "(u64 \<Rightarrow> ('a) kproc_scheme \<Rightarrow> (('a) kproc_scheme) res) \<Rightarrow> u64 \<Rightarrow> ('a) kproc_scheme
      \<Rightarrow> (('a) kproc_scheme) res" where
  "scheduler_remove_thread thread_free t s =
     res_bind (kassert (t \<noteq> 0)) (\<lambda>_.
     res_bind (lock_acquire_writer (Current_Thread_Lock s)) (\<lambda>l.
     (let s1 = s\<lparr>Current_Thread_Lock := l\<rparr> in
      res_bind (thread_at t s1) (\<lambda>th.
      res_bind
        (if thread_next th = t then Ret (s1\<lparr>Current_Thread := 0\<rparr>)
         else
           res_bind (set_thread (thread_prev th) (\<lambda>p. p\<lparr>thread_next := thread_next th\<rparr>) s1) (\<lambda>s2.
           res_bind (thread_at t s2) (\<lambda>th2.
           set_thread (thread_next th2) (\<lambda>n. n\<lparr>thread_prev := thread_prev th2\<rparr>) s2))) (\<lambda>s3.
      res_bind (set_thread t (\<lambda>x. x\<lparr>thread_next := 0, thread_prev := 0\<rparr>) s3) (\<lambda>s4.
      res_bind (thread_release thread_free t s4) (\<lambda>s5.
      res_bind (lock_release_writer (Current_Thread_Lock s5)) (\<lambda>l1.
      Ret (s5\<lparr>Current_Thread_Lock := l1\<rparr>)))))))))"

text \<open>The loop of \<open>scheduler_fini\<close> runs with the lock held, and its first call of
  \<open>scheduler_remove_thread\<close> takes the lock again.\<close>

partial_function (option) scheduler_fini_loop ::
    "(u64 \<Rightarrow> ('a) kproc_scheme \<Rightarrow> (('a) kproc_scheme) res) \<Rightarrow> ('a) kproc_scheme
      \<Rightarrow> (('a) kproc_scheme) res option" where
  "scheduler_fini_loop thread_free s =
     (case thread_at (Current_Thread s) s of
        Ret th \<Rightarrow>
          if Current_Thread s \<noteq> thread_next th then
            (case scheduler_remove_thread thread_free (Current_Thread s)
                (s\<lparr>Current_Thread := thread_next th\<rparr>) of
               Ret s1 \<Rightarrow> scheduler_fini_loop thread_free s1
             | Panic \<Rightarrow> Some Panic | Fault \<Rightarrow> Some Fault | Hang \<Rightarrow> Some Hang)
          else Some (Ret s)
      | Panic \<Rightarrow> Some Panic | Fault \<Rightarrow> Some Fault | Hang \<Rightarrow> Some Hang)"

definition scheduler_fini ::
    "(u64 \<Rightarrow> ('a) kproc_scheme \<Rightarrow> (('a) kproc_scheme) res) \<Rightarrow> ('a) kproc_scheme \<Rightarrow> (('a) kproc_scheme) res" where
  "scheduler_fini thread_free s =
     res_bind (lock_acquire_writer (Current_Thread_Lock s)) (\<lambda>l.
     case scheduler_fini_loop thread_free (s\<lparr>Current_Thread_Lock := l\<rparr>) of None \<Rightarrow> Hang
     | Some r \<Rightarrow>
         res_bind r (\<lambda>s1.
         res_bind (scheduler_remove_thread thread_free (Current_Thread s1) s1) (\<lambda>s2.
         res_bind (lock_release_writer (Current_Thread_Lock s2)) (\<lambda>l1.
         Ret (s2\<lparr>Current_Thread_Lock := l1\<rparr>)))))"

subsection \<open>The ring\<close>

text \<open>\<open>chain nx pv a ys b\<close>: following \<open>nx\<close> from \<open>a\<close> leads through \<open>ys\<close> to \<open>b\<close>, and \<open>pv\<close> leads back.\<close>

fun chain :: "(u64 \<Rightarrow> u64) \<Rightarrow> (u64 \<Rightarrow> u64) \<Rightarrow> u64 \<Rightarrow> u64 list \<Rightarrow> u64 \<Rightarrow> bool" where
  "chain nx pv a [] b \<longleftrightarrow> nx a = b \<and> pv b = a"
| "chain nx pv a (y # ys) b \<longleftrightarrow> nx a = y \<and> pv y = a \<and> chain nx pv y ys b"

lemma chain_append:
  "chain nx pv a (xs @ t # ys) b \<longleftrightarrow> chain nx pv a xs t \<and> chain nx pv t ys b"
  by (induction xs arbitrary: a) auto

lemma chain_cong:
  "(\<And>x. x \<in> insert a (set ys) \<Longrightarrow> nx x = nx' x) \<Longrightarrow> (\<And>x. x \<in> insert b (set ys) \<Longrightarrow> pv x = pv' x) \<Longrightarrow>
   chain nx pv a ys b \<longleftrightarrow> chain nx' pv' a ys b"
  by (induction ys arbitrary: a) auto

definition nx :: "('a) kproc_scheme \<Rightarrow> u64 \<Rightarrow> u64" where
  "nx s t = (case thread_store s t of None \<Rightarrow> 0 | Some th \<Rightarrow> thread_next th)"

definition pv :: "('a) kproc_scheme \<Rightarrow> u64 \<Rightarrow> u64" where
  "pv s t = (case thread_store s t of None \<Rightarrow> 0 | Some th \<Rightarrow> thread_prev th)"

text \<open>The ready threads, the running one first: allocated, distinct, linked in a ring, each with a
  process; and nobody holds the scheduler's lock.\<close>

definition has_process :: "('a) kproc_scheme \<Rightarrow> u64 \<Rightarrow> bool" where
  "has_process s t \<longleftrightarrow> (\<exists>th p. thread_store s t = Some th \<and> process_store s (thread_process th) = Some p)"

definition ring :: "('a) kproc_scheme \<Rightarrow> u64 list \<Rightarrow> bool" where
  "ring s xs \<longleftrightarrow> xs \<noteq> [] \<and> distinct xs \<and> 0 \<notin> set xs \<and> Current_Thread s = hd xs \<and>
     Current_Thread_Lock s = Lock_Clear \<and> (\<forall>t \<in> set xs. has_process s t) \<and>
     chain (nx s) (pv s) (hd xs) (tl xs) (hd xs)"

lemma nx_pv_simps [simp]:
  "nx (s\<lparr>Current_Thread := c\<rparr>) t = nx s t" "pv (s\<lparr>Current_Thread := c\<rparr>) t = pv s t"
  "nx (s\<lparr>Current_Thread_Lock := l\<rparr>) t = nx s t" "pv (s\<lparr>Current_Thread_Lock := l\<rparr>) t = pv s t"
  by (simp_all add: nx_def pv_def)

lemma set_thread_Some:
  "thread_store s t = Some th \<Longrightarrow> set_thread t f s = Ret (s\<lparr>thread_store := (thread_store s)(t \<mapsto> f th)\<rparr>)"
  by (simp add: set_thread_def thread_at_def)

text \<open>The stack pointer with which a ready thread goes on: that of the processor for the running thread,
  the saved one above the sixteen words \<open>_thread_switch\<close> pops for the others.\<close>

definition resume_stack :: "('a) kproc_scheme \<Rightarrow> u64 \<Rightarrow> u64" where
  "resume_stack s t =
     (if t = Current_Thread s then rsp s
      else case thread_store s t of None \<Rightarrow> 0 | Some th \<Rightarrow> current_stack_pointer th + 128)"

text \<open>What a switch leaves alone: memory, processes, and of the threads all but the saved stack pointers.\<close>

definition same_threads :: "('a) kproc_scheme \<Rightarrow> ('a) kproc_scheme \<Rightarrow> bool" where
  "same_threads s s' \<longleftrightarrow> memory s' = memory s \<and> process_store s' = process_store s \<and>
     (\<forall>t. map_option (current_stack_pointer_update (\<lambda>_. 0)) (thread_store s' t) =
        map_option (current_stack_pointer_update (\<lambda>_. 0)) (thread_store s t))"

text \<open>The running thread has its own page tables and, for the next interrupt, its own kernel stack.\<close>

definition runs_in_its_space :: "('a) kproc_scheme \<Rightarrow> ('a) kproc_scheme \<Rightarrow> bool" where
  "runs_in_its_space s s' \<longleftrightarrow>
     (\<exists>th p. thread_store s (Current_Thread s') = Some th \<and> process_store s (thread_process th) = Some p \<and>
        cr3 s' = load64 (memory s) (page_table p) \<and> tss_stack0 s' = kernel_stack th + kernel_stack_size th)"

lemma same_threads_fields:
  assumes "same_threads s s'" "thread_store s' t = Some th'"
  obtains th where "thread_store s t = Some th" "thread_process th = thread_process th'"
    "kernel_stack th = kernel_stack th'" "kernel_stack_size th = kernel_stack_size th'"
proof -
  let ?f = "current_stack_pointer_update (\<lambda>_. 0)"
  have "map_option ?f (thread_store s' t) = map_option ?f (thread_store s t)"
    using assms(1) unfolding same_threads_def by blast
  then have "map_option ?f (thread_store s t) = Some (?f th')" using assms(2) by (metis option.simps(9))
  then obtain th where th: "thread_store s t = Some th" "?f th = ?f th'" by (auto simp: map_option_eq_Some)
  from arg_cong [OF th(2), of thread_process] arg_cong [OF th(2), of kernel_stack]
    arg_cong [OF th(2), of kernel_stack_size] th(1) that show thesis by simp
qed

lemma runs_in_its_space_trans:
  assumes "same_threads s s'" "runs_in_its_space s' s''"
  shows "runs_in_its_space s s''"
proof -
  from assms(2) obtain th' p where st: "thread_store s' (Current_Thread s'') = Some th'"
    "process_store s' (thread_process th') = Some p"
    "cr3 s'' = load64 (memory s') (page_table p)" "tss_stack0 s'' = kernel_stack th' + kernel_stack_size th'"
    unfolding runs_in_its_space_def by blast
  moreover have "memory s' = memory s" "process_store s' = process_store s"
    using assms(1) by (simp_all add: same_threads_def)
  ultimately show ?thesis
    using same_threads_fields [OF assms(1) st(1)] unfolding runs_in_its_space_def by metis
qed

text \<open>One turn: the next thread runs, on its own stack and page tables, and the ring has turned.\<close>

lemma yield_turns:
  assumes "ring s (h # y # ys)"
  shows "\<exists>s'. scheduler_yield s = Ret s' \<and> ring s' (y # ys @ [h]) \<and> same_threads s s' \<and> runs_in_its_space s s' \<and>
    (\<forall>t \<in> set (h # y # ys). resume_stack s' t = resume_stack s t)"
proof -
  note r = assms[unfolded ring_def]
  have "has_process s h" "has_process s y" using r by simp_all
  then obtain hh th p where st: "thread_store s h = Some hh" "thread_store s y = Some th"
    "process_store s (thread_process th) = Some p" by (auto simp: has_process_def)
  have ne: "h \<noteq> y" "h \<noteq> 0" using r by auto
  have c: "thread_next hh = y" "chain (nx s) (pv s) y ys h" "pv s y = h" using r st(1) by (auto simp: nx_def)
  let ?hh = "hh\<lparr>current_stack_pointer := rsp s - 128\<rparr>"
  let ?s = "s\<lparr>thread_store := (thread_store s)(h \<mapsto> ?hh), Current_Thread := y, cr3 := load64 (memory s) (page_table p),
      tss_stack0 := kernel_stack th + kernel_stack_size th, rsp := current_stack_pointer th + 128\<rparr>"
  have run: "scheduler_yield s = Ret ?s"
    using r st c(1) ne by (simp add: scheduler_yield_def thread_at_def Let_def thread_switch_def
        process_at_def switch_stacks_def set_thread_def tss_set_stack_def)
  have same: "nx ?s = nx s" "pv ?s = pv s" using st(1) by (auto simp: nx_def pv_def fun_eq_iff)
  have "has_process ?s t" if "has_process s t" for t
    using that st(1) by (auto simp: has_process_def)
  then have "ring ?s (y # ys @ [h])"
    using r c st(1) by (auto simp: ring_def same chain_append)
  moreover have "same_threads s ?s" "runs_in_its_space s ?s" using st by (auto simp: same_threads_def runs_in_its_space_def)
  moreover have "resume_stack ?s t = resume_stack s t" for t
    using st(1,2) ne r by (auto simp: resume_stack_def)
  ultimately show ?thesis using run by blast
qed

lemma yield_alone: "ring s [h] \<Longrightarrow> scheduler_yield s = Ret s"
  by (auto simp: ring_def scheduler_yield_def has_process_def thread_at_def nx_def)

lemma yield_ring:
  assumes "ring s xs"
  shows "\<exists>s'. scheduler_yield s = Ret s' \<and> ring s' (rotate1 xs) \<and> same_threads s s' \<and>
    (1 < length xs \<longrightarrow> runs_in_its_space s s') \<and> (\<forall>t \<in> set xs. resume_stack s' t = resume_stack s t)"
proof (cases xs)
  case Nil
  with assms show ?thesis by (simp add: ring_def)
next
  case (Cons h ys)
  show ?thesis
  proof (cases ys)
    case Nil
    with Cons assms yield_alone [of s h] show ?thesis by (auto simp: same_threads_def)
  next
    case ys: (Cons y zs)
    with Cons assms yield_turns [of s h y zs] show ?thesis by auto
  qed
qed

primrec yields :: "nat \<Rightarrow> ('a) kproc_scheme \<Rightarrow> (('a) kproc_scheme) res" where
  "yields 0 s = Ret s"
| "yields (Suc n) s = res_bind (yields n s) scheduler_yield"

lemma yields_ring:
  assumes "ring s xs"
  shows "\<exists>s'. yields k s = Ret s' \<and> ring s' (rotate k xs) \<and> same_threads s s' \<and>
    (1 < length xs \<longrightarrow> 0 < k \<longrightarrow> runs_in_its_space s s') \<and> (\<forall>t \<in> set xs. resume_stack s' t = resume_stack s t)"
proof (induction k)
  case 0
  with assms show ?case by (auto simp: same_threads_def)
next
  case (Suc k)
  then obtain s' where s': "yields k s = Ret s'" "ring s' (rotate k xs)" "same_threads s s'"
    "\<forall>t \<in> set xs. resume_stack s' t = resume_stack s t" by blast
  from yield_ring [OF s'(2)] obtain s'' where
    s'': "scheduler_yield s' = Ret s''" "ring s'' (rotate (Suc k) xs)" "same_threads s' s''"
      "1 < length xs \<longrightarrow> runs_in_its_space s' s''" "\<forall>t \<in> set xs. resume_stack s'' t = resume_stack s' t" by auto
  have "same_threads s s''" using s'(3) s''(3) by (simp add: same_threads_def)
  with s' s'' runs_in_its_space_trans [OF s'(3)] show ?case by auto
qed

text \<open>(C6) The scheduler is a fair round robin: with the ready threads in a ring, after \<open>k\<close> calls of
  \<open>scheduler_yield\<close> the thread \<open>k\<close> places further runs, so every ready thread runs once in every
  round; no call fails and the ring is kept. The thread goes on at the stack pointer at which it was left, or
  with its saved one if it has not run yet. After a switch the root of the page tables is that of its process, and
  the stack for interrupts is the end of its own kernel stack. (The threads do nothing but yield here; the
  registers are on their stacks.)\<close>

theorem scheduler_round_robin:
  assumes "ring s xs"
  shows "\<exists>s'. yields k s = Ret s' \<and> ring s' (rotate k xs) \<and> Current_Thread s' = xs ! (k mod length xs) \<and>
    rsp s' = resume_stack s (Current_Thread s') \<and>
    (1 < length xs \<longrightarrow> 0 < k \<longrightarrow>
       (\<exists>th p. thread_store s (Current_Thread s') = Some th \<and> process_store s (thread_process th) = Some p \<and>
          cr3 s' = load64 (memory s) (page_table p) \<and> tss_stack0 s' = kernel_stack th + kernel_stack_size th))"
proof -
  have ne: "xs \<noteq> []" using assms by (simp add: ring_def)
  obtain s' where s': "yields k s = Ret s'" "ring s' (rotate k xs)"
    "1 < length xs \<longrightarrow> 0 < k \<longrightarrow> runs_in_its_space s s'" "\<forall>t \<in> set xs. resume_stack s' t = resume_stack s t"
    using yields_ring [OF assms] by blast
  have cur: "Current_Thread s' = xs ! (k mod length xs)"
    using s'(2) ne hd_rotate_conv_nth [of xs k] by (simp add: ring_def)
  then have "Current_Thread s' \<in> set xs" using ne by simp
  with s'(4) have "resume_stack s' (Current_Thread s') = resume_stack s (Current_Thread s')" by blast
  then have "rsp s' = resume_stack s (Current_Thread s')" by (simp add: resume_stack_def [of s'])
  with s' cur show ?thesis by (auto simp: runs_in_its_space_def)
qed

subsection \<open>Adding and removing threads\<close>

lemma has_process_links:
  assumes "has_process s t" "thread_store s u = Some th" "thread_process (f th) = thread_process th"
  shows "has_process (s\<lparr>thread_store := (thread_store s)(u \<mapsto> f th)\<rparr>) t"
  using assms by (auto simp: has_process_def)

lemma add_ring:
  assumes "ring s (h # ys)" "t \<notin> set (h # ys)" "t \<noteq> 0" "has_process s t"
  shows "\<exists>s'. scheduler_add_thread t s = Ret s' \<and> ring s' (h # t # ys)"
proof -
  note r = assms(1)[unfolded ring_def]
  let ?n = "nx s h"
  have n: "?n = (if ys = [] then h else hd ys)" using r by (cases ys) auto
  have mem: "?n \<in> set (h # ys)" using n by (cases ys) auto
  obtain hh tt nn where st: "thread_store s h = Some hh" "thread_store s t = Some tt" "thread_store s ?n = Some nn"
    using r assms(4) mem by (fastforce simp: has_process_def)
  have nh: "thread_next hh = ?n" using st(1) by (simp add: nx_def)
  have ne: "t \<noteq> h" "t \<noteq> ?n" "h \<noteq> 0" using assms(2) mem r by auto
  define nn' where "nn' = nn\<lparr>thread_prev := t\<rparr>"
  define hh' where "hh' = (if ?n = h then nn' else hh)\<lparr>thread_next := t\<rparr>"
  define tt' where "tt' = tt\<lparr>thread_next := ?n, thread_prev := h,
      thread_obj := (thread_obj tt)\<lparr>ref_count := ref_count (thread_obj tt) + 1\<rparr>\<rparr>"
  define s1 where "s1 = s\<lparr>thread_store := (thread_store s)(?n \<mapsto> nn', h \<mapsto> hh', t \<mapsto> tt')\<rparr>"
  have run: "scheduler_add_thread t s = Ret s1"
    using r st nh ne assms(3)
    by (auto simp: scheduler_add_thread_def set_thread_def thread_at_def Let_def thread_retain_def
        object_retain_def nn'_def hh'_def tt'_def fun_upd_twist fun_upd_idem_iff s1_def)
  have links: "nx s1 x = (if x = t then ?n else if x = h then t else nx s x)"
    "pv s1 x = (if x = t then h else if x = ?n then t else pv s x)" for x
    using st ne by (auto simp: nn'_def hh'_def tt'_def nx_def pv_def s1_def)
  have "chain (nx s1) (pv s1) t ys h"
  proof (cases ys)
    case Nil
    then show ?thesis using n ne by (simp add: links)
  next
    case (Cons y zs)
    then have "?n = y" using n by simp
    moreover have "chain (nx s1) (pv s1) y zs h \<longleftrightarrow> chain (nx s) (pv s) y zs h"
      using r assms(2) Cons \<open>?n = y\<close> by (intro chain_cong) (auto simp: links)
    ultimately show ?thesis using r Cons ne by (simp add: links)
  qed
  moreover have "has_process s1 x" if "x = t \<or> x \<in> set (h # ys)" for x
    using that r assms(4) st by (auto simp: has_process_def nn'_def hh'_def tt'_def s1_def)
  moreover have "Current_Thread s1 = h" "Current_Thread_Lock s1 = Lock_Clear" using r by (simp_all add: s1_def)
  ultimately have "ring s1 (h # t # ys)"
    using r assms(2,3) ne by (simp add: ring_def links)
  with run show ?thesis by blast
qed

lemma add_first:
  assumes "Current_Thread s = 0" "Current_Thread_Lock s = Lock_Clear" "t \<noteq> 0" "has_process s t"
  shows "\<exists>s'. scheduler_add_thread t s = Ret s' \<and> ring s' [t]"
  using assms
  by (auto simp: has_process_def scheduler_add_thread_def set_thread_def thread_at_def Let_def
      thread_retain_def object_retain_def ring_def nx_def pv_def)

text \<open>Unlinking \<open>t\<close> between \<open>p\<close> and its successor.\<close>

lemma chain_skip:
  assumes "chain f g t ys h" "distinct (t # ys)" "t \<noteq> h" "p \<notin> set (t # ys)" "h \<notin> set ys"
    and "\<And>x. f1 x = (if x = t then 0 else if x = p then hd (ys @ [h]) else f x)"
    and "\<And>x. g1 x = (if x = t then 0 else if x = hd (ys @ [h]) then p else g x)"
  shows "chain f1 g1 p ys h"
proof (cases ys)
  case Nil
  with assms show ?thesis by auto
next
  case (Cons y zs)
  have "chain f1 g1 y zs h \<longleftrightarrow> chain f g y zs h"
    using assms(2-5) Cons by (intro chain_cong) (auto simp: assms(6,7))
  with assms Cons show ?thesis by auto
qed

lemma chain_remove:
  assumes "chain f g h (xs @ t # ys) h" "distinct (h # xs @ t # ys)"
    and "\<And>x. f1 x = (if x = t then 0 else if x = last (h # xs) then hd (ys @ [h]) else f x)"
    and "\<And>x. g1 x = (if x = t then 0 else if x = hd (ys @ [h]) then last (h # xs) else g x)"
  shows "chain f1 g1 h (xs @ ys) h"
proof (cases xs rule: rev_cases)
  case Nil
  have "chain f g t ys h" using assms(1) by (simp add: chain_append)
  from chain_skip [OF this, of h f1 g1] assms(2-4) Nil show ?thesis by auto
next
  case (snoc xs' p)
  have c: "chain f g h xs' p" "chain f g t ys h" using assms(1) snoc by (simp_all add: chain_append)
  have n: "hd (ys @ [h]) \<in> insert h (set ys)" by (cases ys) auto
  have "chain f1 g1 h xs' p \<longleftrightarrow> chain f g h xs' p"
    using assms(2) snoc n by (intro chain_cong) (auto simp: assms(3,4))
  moreover have "chain f1 g1 p ys h"
    using assms(2-4) snoc by (intro chain_skip [OF c(2)]) auto
  ultimately show ?thesis using c(1) snoc by (simp add: chain_append)
qed

text \<open>Taking out a thread that is not running and is still referenced elsewhere.\<close>

lemma remove_ring:
  assumes "ring s (h # xs @ t # ys)" "thread_store s t = Some tt"
    and "ref_count (thread_obj tt) \<noteq> 1 \<or> obj_free (thread_obj tt) = None"
  shows "\<exists>s'. scheduler_remove_thread thread_free t s = Ret s' \<and> ring s' (h # xs @ ys) \<and>
    nx s' t = 0 \<and> pv s' t = 0"
proof -
  note r = assms(1)[unfolded ring_def]
  define p where "p = last (h # xs)"
  define n where "n = hd (ys @ [h])"
  have c: "chain (nx s) (pv s) h xs t" "chain (nx s) (pv s) t ys h" using r by (simp_all add: chain_append)
  have "nx s t = n" using c(2) by (cases ys; simp add: n_def)
  moreover have "pv s t = p" using c(1) by (cases xs rule: rev_cases; simp add: chain_append p_def)
  ultimately have tt: "thread_next tt = n" "thread_prev tt = p" using assms(2) by (simp_all add: nx_def pv_def)
  have mem: "p \<in> set (h # xs)" "n \<in> set (ys @ [h])" unfolding p_def n_def by (simp, cases ys, simp_all)
  have all: "has_process s x" if "x \<in> set (h # xs @ t # ys)" for x using r that by blast
  have "has_process s p" "has_process s n" using mem by (auto intro: all)
  then obtain pp nn where st: "thread_store s p = Some pp" "thread_store s n = Some nn"
    unfolding has_process_def by blast
  have ne: "t \<noteq> p" "t \<noteq> n" "t \<noteq> 0" using r mem by auto
  define pp' where "pp' = pp\<lparr>thread_next := n\<rparr>"
  define nn' where "nn' = (if n = p then pp' else nn)\<lparr>thread_prev := p\<rparr>"
  define tt' where "tt' = tt\<lparr>thread_next := 0, thread_prev := 0,
      thread_obj := (thread_obj tt)\<lparr>ref_count := ref_count (thread_obj tt) - 1\<rparr>\<rparr>"
  define s1 where "s1 = s\<lparr>thread_store := (thread_store s)(p \<mapsto> pp', n \<mapsto> nn', t \<mapsto> tt')\<rparr>"
  have run: "scheduler_remove_thread thread_free t s = Ret s1"
    using r st ne tt assms(2,3)
    by (auto simp: scheduler_remove_thread_def set_thread_def thread_at_def Let_def thread_release_def
        object_release_def pp'_def nn'_def tt'_def fun_upd_twist s1_def)
  have links: "nx s1 x = (if x = t then 0 else if x = p then n else nx s x)"
    "pv s1 x = (if x = t then 0 else if x = n then p else pv s x)" for x
    using st ne by (auto simp: nn'_def pp'_def tt'_def nx_def pv_def s1_def)
  have "chain (nx s1) (pv s1) h (xs @ ys) h"
  proof (rule chain_remove)
    show "chain (nx s) (pv s) h (xs @ t # ys) h" using r by simp
    show "distinct (h # xs @ t # ys)" using r by blast
  qed (rule links [unfolded p_def n_def])+
  moreover have "has_process s1 x" if "x \<in> set (h # xs @ ys)" for x
    using all [of x] that st assms(2) by (auto simp: has_process_def nn'_def pp'_def tt'_def s1_def)
  moreover have "Current_Thread s1 = h" "Current_Thread_Lock s1 = Lock_Clear" using r by (simp_all add: s1_def)
  ultimately have "ring s1 (h # xs @ ys)" using r by (auto simp: ring_def)
  with run links [of t] show ?thesis by auto
qed

text \<open>When the ring holds the last reference, the destructor runs, with the thread unlinked.\<close>

lemma remove_last_reference:
  assumes "ring s (h # xs @ t # ys)" "thread_store s t = Some tt"
    and "ref_count (thread_obj tt) = 1" "obj_free (thread_obj tt) \<noteq> None"
  shows "\<exists>s1. scheduler_remove_thread thread_free t s =
      res_bind (thread_free t s1) (\<lambda>s2.
      res_bind (lock_release_writer (Current_Thread_Lock s2)) (\<lambda>l. Ret (s2\<lparr>Current_Thread_Lock := l\<rparr>))) \<and>
    (\<forall>q. thread_store s1 q = None \<longleftrightarrow> thread_store s q = None)"
proof -
  note r = assms(1)[unfolded ring_def]
  define p where "p = last (h # xs)"
  define n where "n = hd (ys @ [h])"
  have c: "chain (nx s) (pv s) h xs t" "chain (nx s) (pv s) t ys h" using r by (simp_all add: chain_append)
  have "nx s t = n" using c(2) by (cases ys; simp add: n_def)
  moreover have "pv s t = p" using c(1) by (cases xs rule: rev_cases; simp add: chain_append p_def)
  ultimately have tt: "thread_next tt = n" "thread_prev tt = p" using assms(2) by (simp_all add: nx_def pv_def)
  have mem: "p \<in> set (h # xs)" "n \<in> set (ys @ [h])" unfolding p_def n_def by (simp, cases ys, simp_all)
  have all: "has_process s x" if "x \<in> set (h # xs @ t # ys)" for x using r that by blast
  have "has_process s p" "has_process s n" using mem by (auto intro: all)
  then obtain pp nn where st: "thread_store s p = Some pp" "thread_store s n = Some nn"
    unfolding has_process_def by blast
  have ne: "t \<noteq> p" "t \<noteq> n" "t \<noteq> 0" using r mem by auto
  show ?thesis
    using r st ne tt assms(2-4)
    by (cases "n = p") (auto simp: scheduler_remove_thread_def set_thread_def thread_at_def Let_def thread_release_def
        object_release_def intro!: exI split: if_splits)
qed

text \<open>A running thread cannot be removed safely: its removal leaves it current and unlinked, and
  the next \<open>scheduler_yield\<close> follows its null \<open>next\<close> pointer. \<open>scheduler_fini\<close> never ends: it calls
  \<open>scheduler_remove_thread\<close> with the lock held.\<close>

theorem scheduler_remove_current_faults:
  assumes "ring s (h # y # ys)" "thread_store s h = Some th" "ref_count (thread_obj th) \<noteq> 1" "thread_store s 0 = None"
  shows "(\<exists>s'. scheduler_remove_thread thread_free h s = Ret s' \<and> Current_Thread s' = h \<and>
      scheduler_yield s' = Fault) \<and> scheduler_fini thread_free s = Hang"
proof -
  note r = assms(1)[unfolded ring_def]
  define p where "p = last (y # ys)"
  have "pv s h = p" "nx s h = y"
    using r by (cases ys rule: rev_cases; simp add: chain_append p_def)+
  then have hh: "thread_next th = y" "thread_prev th = p" using assms(2) by (simp_all add: nx_def pv_def)
  have mem: "p \<in> set (y # ys)" by (simp add: p_def)
  then have "has_process s y" "has_process s p" using r by auto
  then obtain yy pp where st: "thread_store s y = Some yy" "thread_store s p = Some pp"
    unfolding has_process_def by blast
  have ne: "h \<noteq> y" "h \<noteq> p" "h \<noteq> 0" using r mem by auto
  have fields: "Current_Thread s = h" "Current_Thread_Lock s = Lock_Clear" "y \<noteq> 0" "p \<noteq> 0" using r mem by auto
  have "\<exists>s'. scheduler_remove_thread thread_free h s = Ret s' \<and> Current_Thread s' = h \<and> nx s' h = 0 \<and>
      thread_store s' h \<noteq> None \<and> thread_store s' 0 = None \<and> Current_Thread_Lock s' = Lock_Clear"
    using fields st ne hh assms(2-4)
    by (cases "y = p") (simp_all add: scheduler_remove_thread_def set_thread_def thread_at_def Let_def
        thread_release_def object_release_def nx_def)
  then obtain s' where s': "scheduler_remove_thread thread_free h s = Ret s'" "Current_Thread s' = h"
    "nx s' h = 0" "thread_store s' h \<noteq> None" "thread_store s' 0 = None" "Current_Thread_Lock s' = Lock_Clear"
    by blast
  then have "scheduler_yield s' = Fault"
    using ne by (auto simp: scheduler_yield_def thread_at_def Let_def thread_switch_def nx_def)
  moreover have "scheduler_fini thread_free s = Hang"
    using r assms(2) hh ne
    by (auto simp: scheduler_fini_def thread_at_def scheduler_fini_loop.simps scheduler_remove_thread_def)
  ultimately show ?thesis using s' by blast
qed

text \<open>A machine with three ready threads of one process, and a fourth thread outside the ring.\<close>

definition demo_thread :: "u64 \<Rightarrow> u64 \<Rightarrow> thread" where
  "demo_thread n p = \<lparr>user_space = True, thread_id = 0, thread_exit_code = 0, thread_status = Thread_Running,
     user_stack_size = 0x4000, kernel_stack_size = 0x2000, user_stack = 0x10000, current_stack_pointer = 0x20000,
     kernel_stack = 0x30000, thread_next = n, thread_prev = p, thread_process = 0x900,
     thread_obj = \<lparr>ref_count = 2, obj_free = Some Thread_Free, obj_lock = Lock_Clear\<rparr>\<rparr>"

definition demo_process :: process where
  "demo_process = \<lparr>process_id = 0, process_exit_code = 0, process_status = Process_Running, thread_count = 3,
     thread_capacity = 10, child_count = 0, child_capacity = 0, children = 0, parent = 0, threads_at = 0x800,
     threads = [0x100, 0x200, 0x300], page_table = 0x700, address_space = [],
     process_obj = \<lparr>ref_count = 1, obj_free = Some Process_Free, obj_lock = Lock_Clear\<rparr>\<rparr>"

definition demo_kproc :: kproc where
  "demo_kproc = kheap.extend demo_heap
     \<lparr>thread_store = [0x100 \<mapsto> demo_thread 0x200 0x300, 0x200 \<mapsto> demo_thread 0x300 0x100,
        0x300 \<mapsto> demo_thread 0x100 0x200, 0x400 \<mapsto> demo_thread 0 0],
      process_store = [0x900 \<mapsto> demo_process], Current_Thread_Lock = Lock_Clear, Current_Thread = 0x100,
      Process_Pool_Lock = Lock_Clear, Process_Pool = None, next_pid = 0, tss_stack0 = 0, rsp = 0x20000\<rparr>"

lemma demo_kproc_stores:
  "thread_store demo_kproc = [0x100 \<mapsto> demo_thread 0x200 0x300, 0x200 \<mapsto> demo_thread 0x300 0x100,
     0x300 \<mapsto> demo_thread 0x100 0x200, 0x400 \<mapsto> demo_thread 0 0]"
  "process_store demo_kproc = [0x900 \<mapsto> demo_process]" "Current_Thread demo_kproc = 0x100"
  "Current_Thread_Lock demo_kproc = Lock_Clear"
  by (simp_all add: demo_kproc_def kheap.defs)

lemma demo_ring: "ring demo_kproc [0x100, 0x200, 0x300]"
  by (simp add: ring_def has_process_def nx_def pv_def demo_kproc_stores demo_thread_def)

theorem scheduler_round_robin_witness:
  "\<exists>s'. yields 5 demo_kproc = Ret s' \<and> Current_Thread s' = 0x300 \<and> rsp s' = 0x20080 \<and> tss_stack0 s' = 0x32000"
  using scheduler_round_robin [OF demo_ring, of 5]
  by (auto simp: resume_stack_def demo_kproc_stores demo_thread_def)

theorem scheduler_remove_current_faults_witness:
  "(\<exists>s'. scheduler_remove_thread (\<lambda>_. Ret) 0x100 demo_kproc = Ret s' \<and> scheduler_yield s' = Fault) \<and>
   scheduler_fini (\<lambda>_. Ret) demo_kproc = Hang"
  using scheduler_remove_current_faults [OF demo_ring, of "demo_thread 0x200 0x300" "\<lambda>_. Ret"]
  by (auto simp: demo_kproc_stores demo_thread_def)

end
