(* ===== verification/Page_Tables.thy ===== *)
theory Page_Tables
  imports Heap
begin

text \<open>
  The rest of \<open>kernel/arch/x64/paging.c\<close>: whole page tables, made for a process, taken down with
  it and copied, and the setup of the kernel's own. A \<open>struct page_table\<close> is one word on the heap
  that holds the physical address of the root table; the tables themselves are written through
  the pages the slab allocator maps for them and through the fractal mapping.
\<close>

definition pl4_indices :: "nat \<Rightarrow> nat \<Rightarrow> u64 list" where
  "pl4_indices a b = map of_nat [a..<b]"

text \<open>Storing an \<open>unsigned long\<close>, least significant byte first.\<close>

definition store64 :: "mem \<Rightarrow> u64 \<Rightarrow> u64 \<Rightarrow> mem" where
  "store64 m a w = (\<lambda>x. if x - a < 8 then ucast (drop_bit (8 * unat (x - a)) w) else m x)"

definition sizeof_page_table :: u64 where "sizeof_page_table = 8"

definition page_table_physical_address :: "('a) kheap_scheme \<Rightarrow> u64 \<Rightarrow> phys_addr" where
  "page_table_physical_address s pt = load64 (memory s) pt"

text \<open>The result of \<open>kmalloc\<close> is not checked: without memory \<open>slab_alloc_phys\<close> stores through the null
  pointer, unless it has no address left itself.\<close>

definition page_table_init :: "('a) kheap_scheme \<Rightarrow> (u64 \<times> ('a) kheap_scheme) res" where
  "page_table_init s =
     res_bind (kmalloc sizeof_page_table s) (\<lambda>(pt, s1).
     res_bind (slab_alloc_phys Memory_Writable s1) (\<lambda>((pl4, phys), s2).
     if pl4 = 0 then Ret (0, s2)
     else if pt = 0 then Fault
     else
       (let s3 = s2\<lparr>memory := store64 (memory s2) pt phys\<rparr> in
        res_bind (for_each (\<lambda>i. store (entry_at pl4 i) 0) (pl4_indices 0 256) s3) (\<lambda>s4.
        res_bind (for_each (\<lambda>i t. res_bind (load t (entry_at get_pl4 i)) (\<lambda>e. store (entry_at pl4 i) e t))
            (pl4_indices 256 512) s4) (\<lambda>s5.
        res_bind (store (entry_at pl4 Kernel_Fractal_Page_Table_Index)
            (page_table_physical_address s5 pt OR Memory_Writable OR Memory_Present) s5) (\<lambda>s6.
        res_bind (slab_free_virt Page_Small pl4 s6) (\<lambda>s7. Ret (pt, s7))))))))"

subsection \<open>Teardown\<close>

text \<open>One level of the nested loops: for every present entry of the table at \<open>table\<close>, first what lies
  below it, then the frame it names.\<close>

definition free_level ::
    "u64 \<Rightarrow> u64 list \<Rightarrow> (u64 \<Rightarrow> ('a) mm_scheme \<Rightarrow> (('a) mm_scheme) res) \<Rightarrow> ('a) mm_scheme
      \<Rightarrow> (('a) mm_scheme) res" where
  "free_level tbl is below =
     for_each (\<lambda>i s.
       res_bind (load s (entry_at tbl i)) (\<lambda>e.
       if e AND Memory_Present \<noteq> 0 then
         res_bind (below i s) (\<lambda>s1.
         res_bind (load s1 (entry_at tbl i)) (\<lambda>e1. physical_free (page_entry_to_phys e1) s1))
       else Ret s)) is"

definition page_table_fini :: "u64 \<Rightarrow> ('a) kheap_scheme \<Rightarrow> (('a) kheap_scheme) res" where
  "page_table_fini pt s =
     (if pt = 0 then Fault
      else
        (let original_pt = cr3 s; phys = page_table_physical_address s pt;
             s1 = page_table_switch phys s
         in
         res_bind
           (free_level get_pl4 (pl4_indices 0 256) (\<lambda>i4.
              free_level (get_pl3_index i4) (pl4_indices 0 512) (\<lambda>i3.
                free_level (get_pl2_index i4 i3) (pl4_indices 0 512) (\<lambda>i2.
                  free_level (get_pl1_index i4 i3 i2) (pl4_indices 0 512) (\<lambda>_. Ret)))) s1) (\<lambda>s2.
         res_bind (physical_free (page_entry_to_phys phys) (page_table_switch original_pt s2)) (\<lambda>s3.
         kfree pt s3))))"

subsection \<open>Copies\<close>

text \<open>The loops of \<open>page_table_clone\<close>, from the innermost out; \<open>False\<close> is the jump to \<open>err\<close>. The pages of the copy
  are asked for with user access, which \<open>slab_alloc_phys\<close> asserts against.\<close>

definition copy_words :: "u64 \<Rightarrow> u64 \<Rightarrow> nat \<Rightarrow> ('a) mm_scheme \<Rightarrow> (('a) mm_scheme) res" where
  "copy_words dst src n =
     for_each (\<lambda>i t. res_bind (load t (entry_at src i)) (\<lambda>e. store (entry_at dst i) e t)) (pl4_indices 0 n)"

definition alloc_user_page :: "('a) slab_mm_scheme \<Rightarrow> ((u64 \<times> phys_addr) \<times> ('a) slab_mm_scheme) res" where
  "alloc_user_page = slab_alloc_phys (Memory_Writable OR Memory_User_Access)"

text \<open>An entry of the copy: the new frame with the attributes of the original entry.\<close>

definition clone_entry :: "u64 \<Rightarrow> phys_addr \<Rightarrow> u64 \<Rightarrow> ('a) mm_scheme \<Rightarrow> (('a) mm_scheme) res" where
  "clone_entry dst phys src s = res_bind (load s src) (\<lambda>e. store dst (page_entry_clone phys e) s)"

primrec clone_level_one ::
    "u64 \<Rightarrow> u64 \<Rightarrow> u64 \<Rightarrow> u64 \<Rightarrow> u64 list \<Rightarrow> ('a) slab_mm_scheme \<Rightarrow> (bool \<times> ('a) slab_mm_scheme) res" where
  "clone_level_one i4 i3 i2 level_one_clone [] s = Ret (True, s)"
| "clone_level_one i4 i3 i2 level_one_clone (i1 # is) s =
     (let level_one = get_pl1_index i4 i3 i2 in
      res_bind (load s (entry_at level_one i1)) (\<lambda>e.
      if e AND Memory_Present \<noteq> 0 then
        res_bind (alloc_user_page s) (\<lambda>((page_clone, page_clone_phys), s1).
        if page_clone = 0 then Ret (False, s1)
        else
          res_bind (clone_entry (entry_at level_one_clone i1) page_clone_phys (entry_at level_one i1) s1) (\<lambda>s2.
          res_bind (copy_words page_clone (virt_from_indices i4 i3 i2 i1) 512 s2) (\<lambda>s3.
          res_bind (slab_free_virt Page_Small page_clone s3) (\<lambda>s4.
          clone_level_one i4 i3 i2 level_one_clone is s4))))
      else clone_level_one i4 i3 i2 level_one_clone is s))"

text \<open>After a level one table the loop sets \<open>level_two_clone\<close>, not \<open>level_one_clone\<close>, to the null pointer.\<close>

primrec clone_level_two ::
    "u64 \<Rightarrow> u64 \<Rightarrow> u64 list \<Rightarrow> u64 \<Rightarrow> ('a) slab_mm_scheme \<Rightarrow> (bool \<times> u64 \<times> ('a) slab_mm_scheme) res" where
  "clone_level_two i4 i3 [] level_two_clone s = Ret (True, level_two_clone, s)"
| "clone_level_two i4 i3 (i2 # is) level_two_clone s =
     (let level_two = get_pl2_index i4 i3 in
      res_bind (load s (entry_at level_two i2)) (\<lambda>e.
      if e AND Memory_Present \<noteq> 0 then
        res_bind (alloc_user_page s) (\<lambda>((level_one_clone, l1_clone_phys), s1).
        if level_one_clone = 0 then Ret (False, level_two_clone, s1)
        else
          res_bind (clone_entry (entry_at level_two_clone i2) l1_clone_phys (entry_at level_two i2) s1) (\<lambda>s2.
          res_bind (clone_level_one i4 i3 i2 level_one_clone (pl4_indices 0 512) s2) (\<lambda>(good, s3).
          if \<not> good then Ret (False, level_two_clone, s3)
          else
            res_bind (slab_free_virt Page_Small level_one_clone s3) (\<lambda>s4. clone_level_two i4 i3 is 0 s4))))
      else clone_level_two i4 i3 is level_two_clone s))"

primrec clone_level_three ::
    "u64 \<Rightarrow> u64 \<Rightarrow> u64 list \<Rightarrow> ('a) slab_mm_scheme \<Rightarrow> (bool \<times> ('a) slab_mm_scheme) res" where
  "clone_level_three i4 level_three_clone [] s = Ret (True, s)"
| "clone_level_three i4 level_three_clone (i3 # is) s =
     (let level_three = get_pl3_index i4 in
      res_bind (load s (entry_at level_three i3)) (\<lambda>e.
      if e AND Memory_Present \<noteq> 0 then
        res_bind (alloc_user_page s) (\<lambda>((level_two_clone, l2_clone_phys), s1).
        if level_two_clone = 0 then Ret (False, s1)
        else
          res_bind (clone_entry (entry_at level_three_clone i3) l2_clone_phys (entry_at level_three i3) s1) (\<lambda>s2.
          res_bind (clone_level_two i4 i3 (pl4_indices 0 512) level_two_clone s2) (\<lambda>(good, level_two_clone, s3).
          if \<not> good then Ret (False, s3)
          else
            res_bind (slab_free_virt Page_Small level_two_clone s3) (clone_level_three i4 level_three_clone is))))
      else clone_level_three i4 level_three_clone is s))"

text \<open>The entry that is tested is the one of the new table.\<close>

primrec clone_level_four :: "u64 \<Rightarrow> u64 list \<Rightarrow> ('a) slab_mm_scheme \<Rightarrow> (bool \<times> ('a) slab_mm_scheme) res" where
  "clone_level_four level_four_clone [] s = Ret (True, s)"
| "clone_level_four level_four_clone (i4 # is) s =
     res_bind (load s (entry_at level_four_clone i4)) (\<lambda>e.
     if e AND Memory_Present \<noteq> 0 then
       res_bind (alloc_user_page s) (\<lambda>((level_three_clone, l3_clone_phys), s1).
       if level_three_clone = 0 then Ret (False, s1)
       else
         res_bind (clone_entry (entry_at level_four_clone i4) l3_clone_phys (entry_at get_pl4 i4) s1) (\<lambda>s2.
         res_bind (clone_level_three i4 level_three_clone (pl4_indices 0 512) s2) (\<lambda>(good, s3).
         if \<not> good then Ret (False, s3)
         else
           res_bind (slab_free_virt Page_Small level_three_clone s3) (clone_level_four level_four_clone is))))
     else clone_level_four level_four_clone is s)"

text \<open>The label \<open>err\<close>: inside the loops the three inner tables are other variables of the same name, so these are
  still null pointers here.\<close>

definition clone_err :: "phys_addr \<Rightarrow> u64 \<Rightarrow> u64 \<Rightarrow> ('a) kheap_scheme \<Rightarrow> (u64 \<times> ('a) kheap_scheme) res" where
  "clone_err original_phys pt_clone level_four_clone s =
     res_bind (page_table_fini pt_clone (page_table_switch original_phys s)) (\<lambda>s1.
     res_bind (slab_free_virt Page_Small level_four_clone s1) (\<lambda>s2.
     res_bind (slab_free_virt Page_Small 0 s2) (\<lambda>s3.
     res_bind (slab_free_virt Page_Small 0 s3) (\<lambda>s4.
     res_bind (slab_free_virt Page_Small 0 s4) (\<lambda>s5. Ret (0, s5))))))"

text \<open>The first copy takes 256 bytes of the root table to the place 2048 entries, four pages, after the new one.\<close>

definition page_table_clone :: "u64 \<Rightarrow> ('a) kheap_scheme \<Rightarrow> (u64 \<times> ('a) kheap_scheme) res" where
  "page_table_clone pt s =
     (if pt = 0 then Fault
      else
        (let original_phys = cr3 s; s1 = page_table_switch (page_table_physical_address s pt) s in
         res_bind (kmalloc sizeof_page_table s1) (\<lambda>(pt_clone, s2).
         if pt_clone = 0 then clone_err original_phys pt_clone 0 s2
         else
           res_bind (alloc_user_page s2) (\<lambda>((level_four_clone, new_phys), s3).
           if level_four_clone = 0 then clone_err original_phys pt_clone level_four_clone s3
           else
             (let s4 = s3\<lparr>memory := store64 (memory s3) pt_clone new_phys\<rparr> in
              res_bind (copy_words (entry_at level_four_clone (Page_Small div 2)) get_pl4 32 s4) (\<lambda>s5.
              res_bind (clone_level_four level_four_clone (pl4_indices 0 256) s5) (\<lambda>(good, s6).
              if \<not> good then clone_err original_phys pt_clone level_four_clone s6
              else
                res_bind (slab_free_virt Page_Small level_four_clone s6) (\<lambda>s7.
                Ret (pt_clone, page_table_switch original_phys s7)))))))))"

subsection \<open>The kernel's own tables\<close>

text \<open>An \<open>int\<close> stored at an address that is a multiple of eight: the lower half of the word.\<close>

definition store32 :: "u64 \<Rightarrow> u32 \<Rightarrow> ('a) mm_scheme \<Rightarrow> (('a) mm_scheme) res" where
  "store32 va v s =
     res_bind (load s va) (\<lambda>w. store va ((w AND 0xffffffff00000000) OR ucast v) s)"

definition paging_test :: "('a) kheap_scheme \<Rightarrow> (bool \<times> ('a) kheap_scheme) res" where
  "paging_test s =
     (let orig_usage = heap_get_usage s; original = cr3 s in
      res_bind (page_table_init s) (\<lambda>(new_pt, s1).
      if new_pt = 0 then Fault
      else
        (let s2 = page_table_switch (page_table_physical_address s1 new_pt) s1 in
         res_bind (physical_alloc s2) (\<lambda>(phys, s3).
         res_bind (map_page physical_alloc 0 phys Memory_Writable s3) (\<lambda>(st, s4).
         res_bind (kassert (st = Ok)) (\<lambda>_.
         res_bind (store32 0x20 10 s4) (\<lambda>s5.
         res_bind (load s5 0x20) (\<lambda>w.
         res_bind (kassert (ucast w = (10 :: u32))) (\<lambda>_.
         res_bind (unmap_page physical_free 0 True s5) (\<lambda>s6.
         res_bind (page_table_fini new_pt (page_table_switch original s6)) (\<lambda>s7.
         res_bind (kassert (orig_usage = heap_get_usage s7)) (\<lambda>_. Ret (True, s7)))))))))))))"

primrec fill_upper_half :: "u64 list \<Rightarrow> ('a) slab_mm_scheme \<Rightarrow> (status \<times> ('a) slab_mm_scheme) res" where
  "fill_upper_half [] s = Ret (Ok, s)"
| "fill_upper_half (i # is) s =
     res_bind (load s (entry_at get_pl4 i)) (\<lambda>e.
     if e AND Memory_Present = 0 then
       res_bind (slab_alloc_phys Memory_Writable s) (\<lambda>((virt, new_phys), s1).
       if virt = 0 then Ret (Error_No_Memory, s1)
       else
         res_bind (zero_page virt s1) (\<lambda>s2.
         res_bind (slab_free_virt Page_Small virt s2) (\<lambda>s3.
         res_bind (store (entry_at get_pl4 i) (new_phys OR Memory_Present OR Memory_Writable) s3)
           (fill_upper_half is))))
     else fill_upper_half is s)"

definition paging_init :: "('a) kheap_scheme \<Rightarrow> (status \<times> ('a) kheap_scheme) res" where
  "paging_init s =
     res_bind (fill_upper_half (pl4_indices 256 512) s) (\<lambda>(st, s1).
     if st \<noteq> Ok then Ret (st, s1)
     else
       res_bind (store (entry_at (get_pl3_index 0) 0) 0 s1) (\<lambda>s2.
       res_bind (store (entry_at get_pl4 0) 0 s2) (\<lambda>s3.
       res_bind (paging_test s3) (\<lambda>(passed, s4).
       res_bind (kassert passed) (\<lambda>_. Ret (Ok, s4))))))"

subsection \<open>A listing for debugging\<close>

text \<open>The calls of \<open>logf\<close>. An entry is listed if its product with the bit of presence is not zero.\<close>

primrec debug_entries :: "u64 list \<Rightarrow> ('a) mm_scheme \<Rightarrow> (string \<times> u64 list) list res" where
  "debug_entries [] s = Ret []"
| "debug_entries (i # is) s =
     res_bind (load s (entry_at get_pl4 i)) (\<lambda>e.
     res_bind (debug_entries is s) (\<lambda>rest.
     Ret (if e * Memory_Present \<noteq> 0 then (''%zu has %lx'', [i, e]) # rest else rest)))"

definition debug_paging :: "u64 \<Rightarrow> u64 \<Rightarrow> ('a) mm_scheme \<Rightarrow> (string \<times> u64 list) list res" where
  "debug_paging kernel_start kernel_end s =
     res_bind (debug_entries (pl4_indices 0 512) s) (\<lambda>ms.
     Ret (ms @ [(''kernel start: %p'', [kernel_start]), (''kernel end: %p'', [kernel_end])]))"

subsection \<open>Properties\<close>

text \<open>A page table is never copied: whatever the state of the heap and of the address space,
  \<open>page_table_clone\<close> halts or faults and does not return.\<close>

theorem page_table_clone_never_returns: "page_table_clone pt s \<noteq> Ret r"
proof -
  have "alloc_user_page t = Panic" for t :: "('a) kheap_scheme"
    by (simp add: alloc_user_page_def slab_alloc_phys_def memory_attribute_defs)
  then show ?thesis by (auto simp: page_table_clone_def clone_err_def page_table_fini_def res_bind_Ret_iff Let_def)
qed

end
