(* ===== verification/Process.thy ===== *)
theory Process
  imports Scheduler Page_Tables Kernel_Tables
begin

text \<open>
  \<open>kernel/core/process.c\<close> and \<open>thread_user_stack_init\<close> of \<open>kernel/arch/x64/arch_process.c\<close>:
  processes, their threads, the pool of process ids and the stacks a new thread starts on.
  The destructors of threads and processes call one another through \<open>object_release\<close>; a
  process never holds itself, so the nesting ends after a thread and its process.
\<close>

definition Thread_Default_User_Stack_Size :: u64 where "Thread_Default_User_Stack_Size = 16 * KB"
definition Thread_Default_Kernel_Stack_Size :: u64 where "Thread_Default_Kernel_Stack_Size = 8 * KB"
definition Thread_Pool_Default_Size :: u64 where "Thread_Pool_Default_Size = 10"
definition Process_Pool_Default_Size :: u64 where "Process_Pool_Default_Size = 100"
definition Memory_Bootstrap_Stack_Size :: u64 where "Memory_Bootstrap_Stack_Size = 16 * KB"
definition Lower_Half_Size :: u64 where "Lower_Half_Size = Lower_Half_End - Lower_Half_Start"
definition sizeof_thread :: u64 where "sizeof_thread = 104"
definition sizeof_process :: u64 where "sizeof_process = 104"

text \<open>What \<open>kmalloc\<close> hands out holds the fill of the heap.\<close>

definition fresh_object :: "destructor object" where
  "fresh_object = \<lparr>ref_count = 0xcccccccc, obj_free = None, obj_lock = Lock_Clear\<rparr>"

definition fresh_thread :: thread where
  "fresh_thread = \<lparr>user_space = True, thread_id = 0xcccccccc, thread_exit_code = 0xcccccccc,
     thread_status = Thread_Exited, user_stack_size = Heap_Red_Zone_Fill,
     kernel_stack_size = Heap_Red_Zone_Fill, user_stack = Heap_Red_Zone_Fill,
     current_stack_pointer = Heap_Red_Zone_Fill, kernel_stack = Heap_Red_Zone_Fill,
     thread_next = Heap_Red_Zone_Fill, thread_prev = Heap_Red_Zone_Fill,
     thread_process = Heap_Red_Zone_Fill, thread_obj = fresh_object\<rparr>"

definition fresh_process :: process where
  "fresh_process = \<lparr>process_id = 0xcccccccc, process_exit_code = 0xcccccccc,
     process_status = Process_Exited, thread_count = 0xcccccccc, thread_capacity = 0xcccccccc,
     child_count = Heap_Red_Zone_Fill, child_capacity = Heap_Red_Zone_Fill,
     children = Heap_Red_Zone_Fill, parent = Heap_Red_Zone_Fill, threads_at = Heap_Red_Zone_Fill,
     threads = [], page_table = Heap_Red_Zone_Fill, address_space = [], process_obj = fresh_object\<rparr>"

subsection \<open>The pool of process ids\<close>

definition process_hash_pid :: hash_f where
  "process_hash_pid key = Ret (ucast (ucast key :: u32))"

definition process_comp_pid :: partial_comp_f where
  "process_comp_pid a b = (if a = b then Partial_Equal else Partial_Not_Equal)"

lemma pid_left: "pid + 1 \<noteq> start \<Longrightarrow> unat (start - pid - 2) < unat (start - pid - 1)"
  for start pid :: "'a::len word"
proof -
  assume "pid + 1 \<noteq> start"
  then have "start - (pid + 1) \<noteq> 0" by auto
  then have nz: "start - pid - 1 \<noteq> 0" by (simp add: diff_diff_eq)
  have "unat (start - pid - 1 - 1) = unat (start - pid - 1) - 1" by (rule unat_minus_one [OF nz])
  moreover have "start - pid - 1 - 1 = start - pid - 2" by simp
  moreover have "0 < unat (start - pid - 1)" using nz by (simp add: unat_gt_0)
  ultimately show ?thesis by simp
qed

text \<open>The search for a free id, from \<open>pid\<close> around to \<open>start\<close>.\<close>

function pid_search :: "hashtable \<Rightarrow> u32 \<Rightarrow> u32 \<Rightarrow> (status \<times> u32) res" where
  "pid_search ht start pid =
     res_bind (hashtable_get ht (ucast pid)) (\<lambda>v.
     if v \<noteq> 0 then
       (if pid + 1 = start then Ret (Error_Full, pid + 1) else pid_search ht start (pid + 1))
     else Ret (Ok, pid))"
  by pat_completeness auto
termination
  by (relation "measure (\<lambda>(ht, start, pid). unat (start - pid - 1))") (auto intro: pid_left)

declare pid_search.simps [simp del]

definition process_add_pool :: "u64 \<Rightarrow> ('a) kproc_scheme \<Rightarrow> (status \<times> ('a) kproc_scheme) res" where
  "process_add_pool proc s =
     res_bind (kassert (proc \<noteq> 0)) (\<lambda>_.
     res_bind (lock_acquire_writer (Process_Pool_Lock s)) (\<lambda>l.
     (let s1 = s\<lparr>Process_Pool_Lock := l\<rparr> in
      res_bind (deref (Process_Pool s1)) (\<lambda>ht.
      res_bind (pid_search ht (next_pid s1) (next_pid s1)) (\<lambda>(found, pid).
      (let s2 = s1\<lparr>next_pid := pid\<rparr> in
       res_bind
         (if found \<noteq> Ok then Ret (found, s2)
          else
            res_bind (set_process proc (process_id_update (\<lambda>_. pid)) s2) (\<lambda>s3.
            res_bind (hashtable_put kmalloc kfree ht (ucast pid) proc s3) (\<lambda>(st, ht1, s4).
            Ret (st, s4\<lparr>Process_Pool := Some ht1\<rparr>)))) (\<lambda>(st, s5).
       res_bind (lock_release_writer (Process_Pool_Lock s5)) (\<lambda>l1.
       Ret (st, s5\<lparr>Process_Pool_Lock := l1\<rparr>)))))))))"

subsection \<open>Threads of a process\<close>

text \<open>The scan for a free slot reads \<open>thread_capacity\<close> slots, however many the array has.\<close>

primrec free_slot :: "nat \<Rightarrow> nat \<Rightarrow> u64 list \<Rightarrow> nat option res" where
  "free_slot i 0 ts = Ret None"
| "free_slot i (Suc n) ts =
     (if i < length ts then (if ts ! i = 0 then Ret (Some i) else free_slot (Suc i) n ts) else Fault)"

text \<open>The array grows to \<open>thread_capacity\<close> bytes, not slots; a store beyond them is a \<open>Fault\<close>.\<close>

definition process_add_thread :: "u64 \<Rightarrow> u64 \<Rightarrow> ('a) kproc_scheme \<Rightarrow> (status \<times> ('a) kproc_scheme) res" where
  "process_add_thread proc t s =
     res_bind (kassert (proc \<noteq> 0)) (\<lambda>_.
     res_bind (kassert (t \<noteq> 0)) (\<lambda>_.
     res_bind (process_at proc s) (\<lambda>p.
     res_bind (free_slot 0 (unat (thread_capacity p)) (threads p)) (\<lambda>found.
     case found of
       Some i \<Rightarrow>
         res_bind (set_process proc (\<lambda>p. p\<lparr>threads := (threads p)[i := t]\<rparr>) s) (\<lambda>s1.
         res_bind (set_thread t (thread_id_update (\<lambda>_. of_nat i)) s1) (\<lambda>s2. Ret (Ok, s2)))
     | None \<Rightarrow>
         (let i = thread_capacity p; cap = thread_capacity p + 10 in
          res_bind (set_thread t (thread_id_update (\<lambda>_. i)) s) (\<lambda>s1.
          res_bind (krealloc (threads_at p) (ucast cap) s1) (\<lambda>(at, s2).
          let room = unat cap div 8;
              ts = take room (threads p) @ replicate (room - length (threads p)) Heap_Red_Zone_Fill
          in
          res_bind (set_process proc (\<lambda>p. p\<lparr>thread_capacity := cap, threads_at := at,
              threads := if at = 0 then [] else ts\<rparr>) s2) (\<lambda>s3.
          if at = 0 then Ret (Error_No_Memory, s3)
          else if unat i < room then
            res_bind (set_process proc (\<lambda>p. p\<lparr>threads := ts[unat i := t]\<rparr>) s3) (\<lambda>s4.
            res_bind (process_retain proc s4) (\<lambda>s5. Ret (Ok, s5)))
          else Fault))))))))"

definition process_create_address_space :: "('a) kproc_scheme \<Rightarrow> (rvector \<times> ('a) kproc_scheme) res" where
  "process_create_address_space s =
     region_vector_new slab_alloc slab_alloc_locked Lower_Half_Start Lower_Half_Size s"

text \<open>The address space of a process as a vector of the slab allocator.\<close>

definition space_of :: "u64 \<Rightarrow> (('a) kproc_scheme) vect_get" where
  "space_of proc s = (case process_store s proc of None \<Rightarrow> [] | Some p \<Rightarrow> address_space p)"

definition put_space :: "u64 \<Rightarrow> (('a) kproc_scheme) vect_put" where
  "put_space proc v s =
     (case process_store s proc of None \<Rightarrow> s
      | Some p \<Rightarrow> s\<lparr>process_store := (process_store s)(proc \<mapsto> p\<lparr>address_space := v\<rparr>)\<rparr>)"

subsection \<open>Destructors\<close>

text \<open>\<open>container_of\<close> subtracts two pointers to \<open>struct object\<close>, so the distance it casts back to a
  pointer counts objects and not bytes. (It is defined in C where the distance is a multiple of
  the size; otherwise the division rounds here.)\<close>

definition sizeof_object :: u64 where "sizeof_object = 24"
definition offset_obj :: u64 where "offset_obj = 80"

definition container_of :: "u64 \<Rightarrow> u64 \<Rightarrow> u64" where
  "container_of child offset = word_of_int (sint (child - offset) div sint sizeof_object)"

definition process_free :: "u64 \<Rightarrow> ('a) kproc_scheme \<Rightarrow> (('a) kproc_scheme) res" where
  "process_free obj s =
     (let proc = container_of obj offset_obj in
     res_bind (process_at proc s) (\<lambda>p.
     res_bind (kassert (thread_count p = 0)) (\<lambda>_.
     res_bind (lock_acquire_writer (Process_Pool_Lock s)) (\<lambda>l.
     (let s1 = s\<lparr>Process_Pool_Lock := l\<rparr> in
      res_bind (deref (Process_Pool s1)) (\<lambda>ht.
      res_bind (hashtable_remove kmalloc kfree ht (ucast (process_id p)) s1) (\<lambda>(_, ht1, s2).
      (let s3 = s2\<lparr>Process_Pool := Some ht1\<rparr> in
       res_bind (lock_release_writer (Process_Pool_Lock s3)) (\<lambda>l1.
       (let s4 = s3\<lparr>Process_Pool_Lock := l1\<rparr> in
        res_bind (for_each kfree (take (unat (thread_count p)) (threads p)) s4) (\<lambda>s5.
        res_bind (region_vector_fini slab_free (address_space p) s5) (\<lambda>s6.
        res_bind (kfree (threads_at p) s6) (\<lambda>s7.
        res_bind (kfree proc s7) (\<lambda>s8.
        Ret (s8\<lparr>process_store := (process_store s8)(proc := None)\<rparr>)))))))))))))))"

definition process_release :: "u64 \<Rightarrow> ('a) kproc_scheme \<Rightarrow> (('a) kproc_scheme) res" where
  "process_release proc s =
     res_bind (process_at proc s) (\<lambda>p.
     res_bind (object_release (Some (process_obj p))) (\<lambda>(ob, fr).
     res_bind (set_process proc (process_obj_update (\<lambda>_. ob)) s) (\<lambda>s1.
     if fr = None then Ret s1 else process_free (proc + offset_obj) s1)))"

text \<open>The third assertion assigns: \<open>thread->state = Thread_Exited\<close>, whose value is not zero.\<close>

definition thread_free :: "u64 \<Rightarrow> ('a) kproc_scheme \<Rightarrow> (('a) kproc_scheme) res" where
  "thread_free obj s =
     (let t = container_of obj offset_obj in
     res_bind (thread_at t s) (\<lambda>th.
     res_bind (kassert (thread_next th = 0)) (\<lambda>_.
     res_bind (kassert (thread_prev th = 0)) (\<lambda>_.
     res_bind (set_thread t (thread_status_update (\<lambda>_. Thread_Exited)) s) (\<lambda>s1.
     res_bind (process_at (thread_process th) s1) (\<lambda>_.
     res_bind (slab_free_helper (space_of (thread_process th)) (put_space (thread_process th))
         (user_stack_size th) (user_stack th) True s1) (\<lambda>s2.
     res_bind (slab_free (kernel_stack_size th) (kernel_stack th) s2) (\<lambda>s3.
     res_bind (process_release (thread_process th) s3) (\<lambda>s4.
     res_bind (kfree t s4) (\<lambda>s5.
     Ret (s5\<lparr>thread_store := (thread_store s5)(t := None)\<rparr>)))))))))))"

definition thread_fini :: "u64 \<Rightarrow> u32 \<Rightarrow> ('a) kproc_scheme \<Rightarrow> (('a) kproc_scheme) res" where
  "thread_fini t exit_code s =
     res_bind (set_thread t (\<lambda>th. th\<lparr>thread_exit_code := exit_code, thread_status := Thread_Exited\<rparr>) s)
       (scheduler_remove_thread (\<lambda>t. thread_free (t + offset_obj)) t)"

subsection \<open>The first frame of a thread\<close>

definition Segment_Kernel_Code :: u16 where "Segment_Kernel_Code = 0x08"
definition Segment_Kernel_Data :: u16 where "Segment_Kernel_Data = 0x10"
definition Segment_User_Code :: u16 where "Segment_User_Code = 0x18"
definition Segment_User_Data :: u16 where "Segment_User_Data = 0x20"
definition Segment_RPL :: u16 where "Segment_RPL = 0x03"

text \<open>\<open>struct interrupt_cpu_state\<close> is 23 words; the offsets of the four registers the code sets.\<close>

definition sizeof_interrupt_cpu_state :: u64 where "sizeof_interrupt_cpu_state = 184"
definition offset_rdi :: u64 where "offset_rdi = 72"
definition offset_rsi :: u64 where "offset_rsi = 80"
definition offset_rdx :: u64 where "offset_rdx = 96"
definition offset_rcx :: u64 where "offset_rcx = 104"

definition initial_frame :: "u64 \<Rightarrow> thread \<Rightarrow> u64 \<Rightarrow> mem \<Rightarrow> mem" where
  "initial_frame privilege_level_switch th entry_point m =
     (let m1 = snd (memset m (kernel_stack th) 0 (kernel_stack_size th));
          m2 = snd (memset m1 (user_stack th) 0xdddddddd (user_stack_size th));
          st = current_stack_pointer th;
          code_segment = if user_space th then Segment_User_Code OR Segment_RPL else Segment_Kernel_Code;
          data_segment = if user_space th then Segment_User_Data OR Segment_RPL else Segment_Kernel_Data;
          m3 = store64 m2 (st + offset_rdi) entry_point;
          m4 = store64 m3 (st + offset_rsi) (ucast code_segment);
          m5 = store64 m4 (st + offset_rdx) (user_stack th + user_stack_size th);
          m6 = store64 m5 (st + offset_rcx) (ucast data_segment);
          rip = kernel_stack th + kernel_stack_size th - 8 * 8
      in store64 m6 rip privilege_level_switch)"

definition thread_user_stack_init ::
    "u64 \<Rightarrow> u64 \<Rightarrow> u64 \<Rightarrow> u64 \<Rightarrow> ('a) kproc_scheme \<Rightarrow> (status \<times> ('a) kproc_scheme) res" where
  "thread_user_stack_init privilege_level_switch t proc entry_point s =
     res_bind (kassert (t \<noteq> 0)) (\<lambda>_.
     res_bind (kassert (proc \<noteq> 0)) (\<lambda>_.
     res_bind (process_at proc s) (\<lambda>p.
     res_bind (kassert (address_space p \<noteq> [])) (\<lambda>_.
     res_bind (kassert (page_table p \<noteq> 0)) (\<lambda>_.
     (let original_cr3 = cr3 s;
          s1 = page_table_switch (page_table_physical_address s (page_table p)) s
      in
      res_bind (set_thread t (user_stack_size_update (\<lambda>_. Thread_Default_User_Stack_Size)) s1) (\<lambda>s2.
      res_bind (slab_alloc_helper (space_of proc) (put_space proc) Thread_Default_User_Stack_Size
          (Memory_Writable OR Memory_User_Access) s2) (\<lambda>((ustack, _), s3).
      res_bind (set_thread t (user_stack_update (\<lambda>_. ustack)) s3) (\<lambda>s4.
      if ustack = 0 then Ret (Error_No_Memory, page_table_switch original_cr3 s4)
      else
        res_bind (set_thread t (\<lambda>th. th\<lparr>current_stack_pointer :=
            kernel_stack th + kernel_stack_size th - sizeof_interrupt_cpu_state - 8\<rparr>) s4) (\<lambda>s5.
        res_bind (thread_at t s5) (\<lambda>th.
        Ret (Ok, page_table_switch original_cr3
          (s5\<lparr>memory := initial_frame privilege_level_switch th entry_point (memory s5)\<rparr>)))))))))))))"

subsection \<open>Creation\<close>

definition thread_init ::
    "u64 \<Rightarrow> u64 \<Rightarrow> u64 \<Rightarrow> bool \<Rightarrow> ('a) kproc_scheme \<Rightarrow> (u64 \<times> ('a) kproc_scheme) res" where
  "thread_init privilege_level_switch proc entry_point uspace s =
     res_bind (kmalloc sizeof_thread s) (\<lambda>(t, s1).
     if t = 0 then Ret (0, s1)
     else
       res_bind (slab_alloc Thread_Default_Kernel_Stack_Size Memory_Writable
           (s1\<lparr>thread_store := (thread_store s1)(t \<mapsto> fresh_thread\<lparr>user_space := uspace,
              kernel_stack_size := Thread_Default_Kernel_Stack_Size\<rparr>)\<rparr>)) (\<lambda>(kstack, s2).
       res_bind (set_thread t (kernel_stack_update (\<lambda>_. kstack)) s2) (\<lambda>s3.
       if kstack = 0 then res_bind (kfree t s3) (\<lambda>s4. Ret (0, s4))
       else
         res_bind
           (if uspace then
              res_bind (set_thread t (user_stack_size_update (\<lambda>_. Thread_Default_User_Stack_Size)) s3)
                (thread_user_stack_init privilege_level_switch t proc entry_point)
            else
              res_bind (set_thread t (\<lambda>th. th\<lparr>user_stack_size := 0, user_stack := 0,
                  current_stack_pointer := 0\<rparr>) s3) (\<lambda>s5. Ret (Ok, s5))) (\<lambda>(st, s6).
         if st \<noteq> Ok then
           res_bind (slab_free Thread_Default_Kernel_Stack_Size kstack s6) (\<lambda>s7.
           res_bind (kfree t s7) (\<lambda>s8. Ret (0, s8)))
         else
           res_bind (process_add_thread proc t s6) (\<lambda>(st2, s9).
           res_bind (thread_at t s9) (\<lambda>th.
           res_bind
             (if st2 \<noteq> Ok then
                res_bind (slab_free_helper (space_of proc) (put_space proc) (user_stack_size th)
                    (user_stack th) True s9) (\<lambda>s10.
                res_bind (slab_free (kernel_stack_size th) (kernel_stack th) s10) (kfree t))
              else Ret s9) (\<lambda>s11.
           res_bind (set_thread t (\<lambda>th. th\<lparr>thread_exit_code := 0, thread_status := Thread_Running,
               thread_next := 0, thread_prev := 0, thread_process := proc,
               thread_obj := object_clear (thread_obj th) (Some Thread_Free)\<rparr>) s11) (\<lambda>s12.
           Ret (t, s12)))))))))"

text \<open>The error path of \<open>process_init\<close>, from what has been made so far. It releases the page table
  structure but not the tables, and the thread without its stacks.\<close>

definition process_init_err ::
    "u64 \<Rightarrow> rvector \<Rightarrow> u64 \<Rightarrow> u64 \<Rightarrow> u64 \<Rightarrow> ('a) kproc_scheme \<Rightarrow> (u64 \<times> ('a) kproc_scheme) res" where
  "process_init_err pt vect thread_pool t proc s =
     res_bind (kfree pt s) (\<lambda>s1.
     res_bind (region_vector_fini slab_free vect s1) (\<lambda>s2.
     res_bind (kfree thread_pool s2) (\<lambda>s3.
     res_bind (kfree t s3) (\<lambda>s4.
     res_bind (kfree proc s4) (\<lambda>s5. Ret (0, s5))))))"

definition process_init ::
    "u64 \<Rightarrow> u64 \<Rightarrow> ('a) kproc_scheme \<Rightarrow> (u64 \<times> ('a) kproc_scheme) res" where
  "process_init privilege_level_switch entry_point s =
     res_bind (kmalloc sizeof_process s) (\<lambda>(proc, s1).
     if proc = 0 then process_init_err 0 [] 0 0 0 s1
     else
       res_bind (kcalloc Thread_Pool_Default_Size 8
           (s1\<lparr>process_store := (process_store s1)(proc \<mapsto> fresh_process)\<rparr>)) (\<lambda>(pool, s2).
       if pool = 0 then process_init_err 0 [] 0 0 proc s2
       else
         res_bind (set_process proc (\<lambda>p. p\<lparr>threads_at := pool,
             threads := replicate (unat Thread_Pool_Default_Size) 0\<rparr>) s2) (\<lambda>s3.
         res_bind (process_create_address_space s3) (\<lambda>(vect, s4).
         if vect = [] then process_init_err 0 [] pool 0 proc s4
         else
           res_bind (set_process proc (address_space_update (\<lambda>_. vect)) s4) (\<lambda>s5.
           res_bind (page_table_init s5) (\<lambda>(pt, s6).
           if pt = 0 then process_init_err 0 vect pool 0 proc s6
           else
             res_bind (set_process proc (page_table_update (\<lambda>_. pt)) s6) (\<lambda>s7.
             res_bind (thread_init privilege_level_switch proc entry_point True s7) (\<lambda>(t, s8).
             if t = 0 then process_init_err pt (space_of proc s8) pool 0 proc s8
             else
               res_bind (process_add_pool proc s8) (\<lambda>(st, s9).
               if st \<noteq> Ok then process_init_err pt (space_of proc s9) pool t proc s9
               else
                 res_bind (set_process proc (\<lambda>p. p\<lparr>process_exit_code := 0,
                     process_status := Process_Running, thread_count := 1,
                     thread_capacity := ucast Thread_Pool_Default_Size, child_count := 0,
                     child_capacity := 0, children := 0, parent := 0,
                     process_obj := object_clear (process_obj p) (Some Process_Free)\<rparr>) s9) (\<lambda>s10.
                 res_bind (process_retain proc s10) (\<lambda>s11.
                 res_bind (scheduler_add_thread t s11) (\<lambda>s12. Ret (proc, s12)))))))))))))"

definition bootstrap_thread_init :: "u64 \<Rightarrow> u64 \<Rightarrow> ('a) kproc_scheme \<Rightarrow> (('a) kproc_scheme) res" where
  "bootstrap_thread_init init_stack_top proc s =
     res_bind (kassert (proc \<noteq> 0)) (\<lambda>_.
     res_bind (process_at proc s) (\<lambda>p.
     if threads p = [] then Fault
     else
       (let t = hd (threads p) in
        res_bind (set_thread t (user_space_update (\<lambda>_. False)) s) (\<lambda>s1.
        res_bind (thread_at t s1) (\<lambda>th.
        res_bind (slab_free (kernel_stack_size th) (kernel_stack th) s1) (\<lambda>s2.
        set_thread t (\<lambda>th. th\<lparr>kernel_stack_size := Memory_Bootstrap_Stack_Size,
            kernel_stack := init_stack_top\<rparr>) s2))))))"

text \<open>\<open>processes_init\<close> does not look whether \<open>process_init\<close> failed.\<close>

definition processes_init :: "u64 \<Rightarrow> u64 \<Rightarrow> ('a) kproc_scheme \<Rightarrow> (status \<times> ('a) kproc_scheme) res" where
  "processes_init privilege_level_switch init_stack_top s =
     res_bind (hashtable_init kmalloc kfree Process_Pool_Default_Size process_hash_pid process_comp_pid s)
       (\<lambda>(ht, s1).
     case ht of None \<Rightarrow> Ret (Error_No_Memory, s1\<lparr>Process_Pool := None\<rparr>)
     | Some (_, tbl) \<Rightarrow>
         res_bind (process_init privilege_level_switch 0 (s1\<lparr>Process_Pool := Some tbl\<rparr>)) (\<lambda>(init, s2).
         res_bind (bootstrap_thread_init init_stack_top init s2) (\<lambda>s3.
         res_bind (process_release init s3) (\<lambda>s4. Ret (Ok, s4)))))"

definition process_fini :: "u64 \<Rightarrow> u32 \<Rightarrow> ('a) kproc_scheme \<Rightarrow> (('a) kproc_scheme) res" where
  "process_fini proc exit_code s =
     res_bind (set_process proc (process_exit_code_update (\<lambda>_. exit_code)) s) (\<lambda>s1.
     res_bind (process_at proc s1) (\<lambda>p.
     res_bind (region_vector_fini slab_free (address_space p) s1) (\<lambda>s2.
     res_bind (set_process proc (address_space_update (\<lambda>_. [])) s2) (\<lambda>s3.
     res_bind (page_table_fini (page_table p) s3) (\<lambda>s4.
     res_bind (set_process proc (page_table_update (\<lambda>_. 0)) s4)
       (for_each (\<lambda>t. thread_fini t exit_code) (take (unat (thread_count p)) (threads p))))))))"

subsection \<open>The pool of ids as a hash table\<close>

interpretation pids: hash_keys process_hash_pid process_comp_pid "\<lambda>_. True"
  by unfold_locales (auto simp: process_hash_pid_def process_comp_pid_def split: if_splits)

interpretation pid_tables: heap_table process_hash_pid process_comp_pid "\<lambda>_. True" kmalloc kfree
    heap_ready heap_owned kheap.more
  by unfold_locales

text \<open>A well-formed pool: its keys are ids, no process is at the null pointer, and two slots have never
  been used, so that a lookup ends.\<close>

definition pid_pool :: "hashtable \<Rightarrow> bool" where
  "pid_pool ht \<longleftrightarrow> ht_hash ht = process_hash_pid \<and> ht_comp ht = process_comp_pid \<and>
     ht_ok (\<lambda>_. True) ht \<and> 2 \<le> entries Hashdata_Empty ht \<and> (\<forall>k. ht_lookup ht k \<noteq> Some 0) \<and>
     unat (ht_size ht) < 2 ^ 58"

definition pid_taken :: "hashtable \<Rightarrow> u32 \<Rightarrow> bool" where
  "pid_taken ht pid \<longleftrightarrow> ht_lookup ht (ucast pid) \<noteq> None"

lemma pid_poolD:
  assumes "pid_pool ht"
  shows "pids.keyed ht" "2 \<le> entries Hashdata_Empty ht" "0 < entries Hashdata_Empty ht"
    "unat (ht_size ht) < 2 ^ 58"
  using assms by (auto simp: pid_pool_def pids.keyed_def)

lemma pid_pool_get:
  assumes "pid_pool ht"
  obtains v where "hashtable_get ht (ucast pid) = Ret v" "v \<noteq> 0 \<longleftrightarrow> pid_taken ht pid"
proof -
  from assms have "ht_lookup ht (ucast pid) \<noteq> Some 0" by (auto simp: pid_pool_def)
  with that pids.get_lookup [OF pid_poolD(1) [OF assms] TrueI pid_poolD(2) [OF assms], of "ucast pid"]
  show thesis by (cases "ht_lookup ht (ucast pid)") (auto simp: pid_taken_def)
qed

lemma word_round_step: "b \<noteq> 0 \<Longrightarrow> a \<le> b \<Longrightarrow> a = 0 \<or> a - 1 \<le> b - 1" for a b :: "'a::len word"
  by unat_arith

lemma pid_search_free:
  assumes "pid_pool ht"
  shows "\<exists>st p. pid_search ht start pid = Ret (st, p) \<and>
    (st = Ok \<and> \<not> pid_taken ht p \<or>
     st = Error_Full \<and> (\<forall>q. q - pid \<le> start - pid - 1 \<longrightarrow> pid_taken ht q))"
  using assms
proof (induction ht start pid rule: pid_search.induct)
  case (1 ht start pid)
  from "1.prems" obtain v where v: "hashtable_get ht (ucast pid) = Ret v" "v \<noteq> 0 \<longleftrightarrow> pid_taken ht pid"
    by (rule pid_pool_get)
  show ?case
  proof (cases "v \<noteq> 0 \<and> pid + 1 \<noteq> start")
    case True
    then have "start - pid - 1 \<noteq> 0" by (auto simp: algebra_simps)
    then have step: "q = pid \<or> q - (pid + 1) \<le> start - (pid + 1) - 1" if "q - pid \<le> start - pid - 1" for q
      using word_round_step [OF _ that] by (auto simp: algebra_simps)
    show ?thesis
      using "1.IH" [OF v(1) _ _ "1.prems"] True v step
      by (subst pid_search.simps) (fastforce simp: v(1))
  next
    case False
    have "q = pid" if "pid + 1 = start" "q - pid \<le> start - pid - 1" for q
      using that by auto
    with False v show ?thesis by (subst pid_search.simps) auto
  qed
qed

subsection \<open>Properties\<close>

lemma pool_frame:
  assumes "kheap.more s' = kheap.more s"
  shows "Process_Pool_Lock s' = Process_Pool_Lock s" "process_store s' = process_store s" "Process_Pool s' = Process_Pool s"
  using assms by (cases s, cases s', simp)+

lemma heap_fields_pool [simp]:
  "heap_ready i k (s\<lparr>Process_Pool_Lock := l, next_pid := n, process_store := ps\<rparr>) = heap_ready i k s"
  "heap_owned (s\<lparr>Process_Pool_Lock := l, next_pid := n, process_store := ps\<rparr>) q b = heap_owned s q b"
  "heap_owned (s\<lparr>Process_Pool := h, Process_Pool_Lock := l\<rparr>) q b = heap_owned s q b"
  by (simp_all add: heap_ready_def heap_owned_def heap_ok_def used_blocks_def)

text \<open>(C29) Naming a new process returns with the pool's lock free again, as long as the records of the heap
  have an entry left for one more block in use and one more free block; the pool has two empty slots
  and fewer than \<open>2 ^ 58\<close> in all. If every id is taken, this is
  reported as \<open>Error_Full\<close> and the pool is unchanged. Otherwise the process gets an id that no process in
  the pool has, is found under it, and every other id still finds the process it did; the array of the
  pool is still a block of the heap. The status is then \<open>Ok\<close>, also if the pool had to grow, or, if it had to grow and the heap
  had no block for it, \<open>Error_No_Memory\<close>: the process is in the pool although an
  error is reported.\<close>

theorem process_add_pool_unique:
  assumes "Process_Pool s = Some ht" "pid_pool ht" "Process_Pool_Lock s = Lock_Clear"
    "process_store s proc = Some p" "proc \<noteq> 0"
    and "heap_ready 1 1 s" "heap_owned s (ht_data_at ht) (data_bytes ht)"
  shows "\<exists>st s'. process_add_pool proc s = Ret (st, s') \<and> Process_Pool_Lock s' = Lock_Clear \<and>
    ((st = Ok \<or> st = Error_No_Memory \<and> should_grow (ht_size ht) (ht_used ht + 1)) \<and>
       (\<exists>pid ht'. \<not> pid_taken ht pid \<and> Process_Pool s' = Some ht' \<and>
        process_store s' proc = Some (p\<lparr>process_id := pid\<rparr>) \<and>
        heap_owned s' (ht_data_at ht') (data_bytes ht') \<and>
        (\<forall>k. ht_lookup ht' k = (if k = ucast pid then Some proc else ht_lookup ht k))) \<or>
     st = Error_Full \<and> (\<forall>pid. pid_taken ht pid) \<and> Process_Pool s' = Some ht)"
proof -
  from pid_search_free [OF assms(2), of "next_pid s" "next_pid s"] obtain st pid where
    found: "pid_search ht (next_pid s) (next_pid s) = Ret (st, pid)"
      "st = Ok \<and> \<not> pid_taken ht pid \<or> st = Error_Full \<and> (\<forall>q. pid_taken ht q)"
    by fastforce
  show ?thesis
  proof (cases "st = Ok")
    case True
    with found(2) have free: "ht_lookup ht (ucast pid) = None" by (auto simp: pid_taken_def)
    let ?s = "s\<lparr>Process_Pool_Lock := held, next_pid := pid,
        process_store := (process_store s)(proc \<mapsto> p\<lparr>process_id := pid\<rparr>)\<rparr>"
    have depth: "hashtable_put kmalloc kfree = put_depth (Suc (Suc 64)) kmalloc kfree"
      by (simp add: hashtable_put_def)
    have "should_grow (ht_size ht) (ht_used ht + 1) \<longrightarrow> heap_ready 1 1 ?s" "heap_owned ?s (ht_data_at ht) (data_bytes ht)"
      using assms(6,7) by simp_all
    from pid_tables.put_step [OF pid_poolD(1,3) [OF assms(2)] TrueI free pid_poolD(4) [OF assms(2)] this, of 64 proc]
    obtain st' ht' s' where put: "hashtable_put kmalloc kfree ht (ucast pid) proc ?s = Ret (st', ht', s')"
      "st' = Ok \<or> st' = Error_No_Memory \<and> should_grow (ht_size ht) (ht_used ht + 1)"
      "kheap.more s' = kheap.more ?s" "heap_owned s' (ht_data_at ht') (data_bytes ht')"
      and look': "\<forall>k. True \<longrightarrow> ht_lookup ht' k =
        (if process_comp_pid k (ucast pid) = Partial_Equal then Some proc else ht_lookup ht k)"
      unfolding depth by blast
    have look: "ht_lookup ht' k = (if k = ucast pid then Some proc else ht_lookup ht k)" for k
      using look' by (simp add: process_comp_pid_def)
    note frame = pool_frame [OF put(3)]
    have run: "process_add_pool proc s =
        Ret (st', s'\<lparr>Process_Pool := Some ht', Process_Pool_Lock := Lock_Clear\<rparr>)"
      using assms(1,3,4,5) found True put(1) frame(1)
      by (simp add: process_add_pool_def set_process_def process_at_def)
    have "\<not> pid_taken ht pid" using free by (simp add: pid_taken_def)
    with run put(2,4) look frame(2) show ?thesis by (auto intro!: exI [of _ pid] exI [of _ ht'])
  next
    case False
    with assms found show ?thesis
      by (auto simp: process_add_pool_def Let_def kassert_def)
  qed
qed

text \<open>(C28) Adding a thread puts it next in turn. Removing a thread that is not running, and that something besides the
  ring refers to or that has no destructor, takes it, and no other, out of the ring; the order of the others is kept
  and the thread is no longer linked. When the ring holds the last reference, the removal runs \<open>thread_free\<close>, which
  takes the address of the thread from \<open>container_of\<close>; unless there happens to be a thread at
  the address it computes, the removal faults.\<close>

theorem scheduler_ring_kept:
  assumes "ring s (h # xs @ t # ys)" "thread_store s t = Some tt"
    and "u \<notin> set (h # xs @ t # ys)" "u \<noteq> 0" "has_process s u"
  shows "(\<exists>s'. scheduler_add_thread u s = Ret s' \<and> ring s' (h # u # xs @ t # ys)) \<and>
    (if ref_count (thread_obj tt) = 1 \<and> obj_free (thread_obj tt) \<noteq> None
     then thread_store s (container_of (t + offset_obj) offset_obj) = None \<longrightarrow>
       scheduler_remove_thread (\<lambda>t. thread_free (t + offset_obj)) t s = Fault
     else \<exists>s'. scheduler_remove_thread (\<lambda>t. thread_free (t + offset_obj)) t s = Ret s' \<and>
       ring s' (h # xs @ ys) \<and> nx s' t = 0 \<and> pv s' t = 0)"
proof (rule conjI)
  show "\<exists>s'. scheduler_add_thread u s = Ret s' \<and> ring s' (h # u # xs @ t # ys)"
    using assms by (intro add_ring) simp_all
  show "if ref_count (thread_obj tt) = 1 \<and> obj_free (thread_obj tt) \<noteq> None
     then thread_store s (container_of (t + offset_obj) offset_obj) = None \<longrightarrow>
       scheduler_remove_thread (\<lambda>t. thread_free (t + offset_obj)) t s = Fault
     else \<exists>s'. scheduler_remove_thread (\<lambda>t. thread_free (t + offset_obj)) t s = Ret s' \<and>
       ring s' (h # xs @ ys) \<and> nx s' t = 0 \<and> pv s' t = 0"
  proof (cases "ref_count (thread_obj tt) = 1 \<and> obj_free (thread_obj tt) \<noteq> None")
    case True
    from remove_last_reference [OF assms(1,2), of "\<lambda>t. thread_free (t + offset_obj)"] True obtain s1 where
      s1: "scheduler_remove_thread (\<lambda>t. thread_free (t + offset_obj)) t s =
        res_bind (thread_free (t + offset_obj) s1) (\<lambda>s2.
        res_bind (lock_release_writer (Current_Thread_Lock s2)) (\<lambda>l. Ret (s2\<lparr>Current_Thread_Lock := l\<rparr>)))"
        "\<And>q. thread_store s1 q = None \<longleftrightarrow> thread_store s q = None" by blast
    have "thread_free (t + offset_obj) s1 = Fault" if "thread_store s (container_of (t + offset_obj) offset_obj) = None"
    proof -
      have "thread_store s1 (container_of (t + offset_obj) offset_obj) = None" using that s1(2) by blast
      then show ?thesis by (simp add: thread_free_def thread_at_def Let_def)
    qed
    with True s1(1) show ?thesis by simp
  next
    case False
    with remove_ring [OF assms(1,2), of "\<lambda>t. thread_free (t + offset_obj)"] show ?thesis by auto
  qed
qed

text \<open>The destructors run on the wrong address: when the last reference to a thread or to a
  process goes and nothing of its kind lies at the address \<open>container_of\<close> computes, the release
  faults instead of freeing it.\<close>

theorem destructors_miss_the_object:
  assumes "thread_store s t = Some th" "thread_obj th = \<lparr>ref_count = 1, obj_free = Some Thread_Free, obj_lock = Lock_Clear\<rparr>"
    "thread_store s (container_of (t + offset_obj) offset_obj) = None" "container_of (t + offset_obj) offset_obj \<noteq> t"
    "process_store s proc = Some p" "process_obj p = \<lparr>ref_count = 1, obj_free = Some Process_Free, obj_lock = Lock_Clear\<rparr>"
    "process_store s (container_of (proc + offset_obj) offset_obj) = None"
    "container_of (proc + offset_obj) offset_obj \<noteq> proc"
  shows "thread_release (\<lambda>t. thread_free (t + offset_obj)) t s = Fault \<and> process_release proc s = Fault"
  using assms by (simp add: thread_release_def process_release_def set_thread_def set_process_def thread_at_def
      process_at_def object_release_def thread_free_def process_free_def Let_def)

subsection \<open>The first frame\<close>

lemma bytes_eqI:
  "(\<And>k. k < 8 \<Longrightarrow> (ucast (drop_bit (8 * k) v) :: u8) = ucast (drop_bit (8 * k) w)) \<Longrightarrow> v = w" for v w :: u64
proof (rule bit_word_eqI)
  fix n assume eq: "\<And>k. k < 8 \<Longrightarrow> (ucast (drop_bit (8 * k) v) :: u8) = ucast (drop_bit (8 * k) w)"
    and n: "n < LENGTH(64)"
  have "bit u n \<longleftrightarrow> bit (ucast (drop_bit (8 * (n div 8)) u) :: u8) (n mod 8)" for u :: u64
    by (simp add: bit_simps)
  moreover have "n div 8 < 8" using n by simp
  ultimately show "bit v n = bit w n" using eq by metis
qed

lemma unat_byte: "k < 8 \<Longrightarrow> unat (of_nat k :: u64) = k"
  using unat_of_nat_below [of k 8] by simp

lemma load64_store64 [simp]: "load64 (store64 m a w) a = w"
proof (rule bytes_eqI)
  fix k :: nat assume k: "k < 8"
  then have "of_nat k < (8 :: u64)" by (simp add: word_less_nat_alt unat_byte)
  with k show "(ucast (drop_bit (8 * k) (load64 (store64 m a w) a)) :: u8) = ucast (drop_bit (8 * k) w)"
    by (simp add: load64_byte store64_def unat_byte)
qed

lemma word_gap: "8 \<le> b - a \<Longrightarrow> 8 \<le> a - b \<Longrightarrow> k < 8 \<Longrightarrow> 8 \<le> b - a + k" for a b k :: u64
  by unat_arith

lemma load64_store64_other: "8 \<le> b - a \<Longrightarrow> 8 \<le> a - b \<Longrightarrow> load64 (store64 m a w) b = load64 m b"
proof (rule load64_cong)
  fix k :: nat assume d: "8 \<le> b - a" "8 \<le> a - b" "k < 8"
  then have "8 \<le> b - a + of_nat k" by (intro word_gap) (simp_all add: word_less_nat_alt unat_byte)
  then have "\<not> b + of_nat k - a < 8" by (simp add: not_less add_diff_eq diff_add_eq)
  then show "store64 m a w (b + of_nat k) = m (b + of_nat k)" unfolding store64_def by (rule if_not_P)
qed

text \<open>The words \<open>_thread_switch\<close> takes off a stack, from the saved stack pointer up: the flags, the
  registers \<open>r15\<close> to \<open>rax\<close> in the order of \<open>process.S\<close>, and the address it returns to.\<close>

datatype register = Flags | R15 | R14 | R13 | R12 | R11 | R10 | R9 | R8 | Rdi | Rsi | Rbp | Rdx | Rcx
  | Rbx | Rax | Rip

definition pop_order :: "register list" where
  "pop_order = [Flags, R15, R14, R13, R12, R11, R10, R9, R8, Rdi, Rsi, Rbp, Rdx, Rcx, Rbx, Rax, Rip]"

definition popped :: "mem \<Rightarrow> u64 \<Rightarrow> (register \<times> u64) list" where
  "popped m sp = map (\<lambda>i. (pop_order ! i, load64 m (sp + 8 * of_nat i))) [0..<17]"

text \<open>(C30) The first switch to a new user thread, whose stack pointer was put 192 bytes below the
  top of its kernel stack, returns to \<open>_privilege_level_switch\<close> with the arguments that function
  expects: the entry point, the code segment, the end of the user stack and the data segment,
  each segment with the privilege of the thread.\<close>

theorem new_thread_enters:
  assumes "current_stack_pointer th = kernel_stack th + kernel_stack_size th - sizeof_interrupt_cpu_state - 8"
  shows "let regs = map_of (popped (initial_frame privilege_level_switch th start m) (current_stack_pointer th))
    in regs Rip = Some privilege_level_switch \<and> regs Rdi = Some start \<and>
      regs Rsi = Some (if user_space th then 0x1b else 0x08) \<and>
      regs Rdx = Some (user_stack th + user_stack_size th) \<and>
      regs Rcx = Some (if user_space th then 0x23 else 0x10)"
proof -
  have rip: "kernel_stack th + kernel_stack_size th - 64 = current_stack_pointer th + 128"
    using assms by (simp add: sizeof_interrupt_cpu_state_def algebra_simps)
  show ?thesis
    by (simp add: popped_def pop_order_def upt_rec initial_frame_def Let_def rip load64_store64_other
        offset_rdi_def offset_rsi_def offset_rdx_def offset_rcx_def Segment_User_Code_def
        Segment_User_Data_def Segment_RPL_def Segment_Kernel_Code_def Segment_Kernel_Data_def)
qed

subsection \<open>Witnesses\<close>

definition demo_new_thread :: thread where
  "demo_new_thread = fresh_thread\<lparr>user_space := True, kernel_stack := 0xffffff0000010000,
     kernel_stack_size := 0x2000, user_stack := 0x5000, user_stack_size := 0x4000,
     current_stack_pointer := 0xffffff0000011f40\<rparr>"

theorem new_thread_enters_witness:
  "map_of (popped (initial_frame 0xffffffff80101234 demo_new_thread 0x400000 (\<lambda>_. 0)) 0xffffff0000011f40) Rip
     = Some 0xffffffff80101234 \<and>
   map_of (popped (initial_frame 0xffffffff80101234 demo_new_thread 0x400000 (\<lambda>_. 0)) 0xffffff0000011f40) Rdx
     = Some 0x9000"
  using new_thread_enters [of demo_new_thread "0xffffffff80101234" "0x400000" "\<lambda>_. 0"]
  by (simp add: demo_new_thread_def Let_def sizeof_interrupt_cpu_state_def)

definition demo_pool :: hashtable where
  "demo_pool = fresh_table 100 process_hash_pid process_comp_pid 0x5000"

lemma demo_pool_ok: "pid_pool demo_pool" "\<not> pid_taken demo_pool pid"
proof -
  note fresh = fresh_table_ok [of 100, where hf = process_hash_pid and hc = process_comp_pid and p = "0x5000"]
  have "length (ht_data demo_pool) = 100" by (simp add: demo_pool_def fresh_table_def length_zeroed_data)
  with fresh(3,4) entries_total [of demo_pool] have "entries Hashdata_Empty demo_pool = 100"
    by (simp add: demo_pool_def)
  moreover have "unat (ht_size demo_pool) < 2 ^ 58" by (simp add: demo_pool_def fresh_table_def)
  moreover have "ht_hash demo_pool = process_hash_pid" "ht_comp demo_pool = process_comp_pid"
    by (simp_all add: demo_pool_def fresh_table_def)
  ultimately show "pid_pool demo_pool" using fresh(1,2) by (simp add: pid_pool_def demo_pool_def)
  show "\<not> pid_taken demo_pool pid" using fresh(2) by (simp add: pid_taken_def demo_pool_def)
qed

definition demo_pool_heap :: kproc where
  "demo_pool_heap = demo_kproc\<lparr>Process_Pool := Some demo_pool, heap_metadata_used := one_region 0x4ff8 0x970,
     heap_metadata_free := one_region 0x5968 0xf690, heap := 0x4ff8, Used := 0x970, memory := \<lambda>_. 0xcc\<rparr>"

lemma demo_pool_heap_ready: "heap_ready 1 1 demo_pool_heap" "heap_owned demo_pool_heap 0x5000 (data_bytes demo_pool)"
proof -
  have "heap_ok demo_pool_heap"
    by (simp add: heap_ok_def demo_pool_heap_def used_blocks_def one_region_live one_region_ok
        block_fits_def Heap_Size_def one_region_own) (auto simp: in_block_def)
  then show "heap_ready 1 1 demo_pool_heap"
    by (simp add: heap_ready_def demo_pool_heap_def used_blocks_def one_region_live one_region_room regions_count_eq)
  show "heap_owned demo_pool_heap 0x5000 (data_bytes demo_pool)"
    by (simp add: heap_owned_def data_bytes_def demo_pool_def fresh_table_def sizeof_hashdata_def demo_pool_heap_def
        used_blocks_def one_region_live red_zones_def)
qed

theorem process_add_pool_unique_witness:
  "\<exists>s' pid. process_add_pool 0x900 demo_pool_heap = Ret (Ok, s') \<and>
     process_store s' 0x900 = Some (demo_process\<lparr>process_id := pid\<rparr>)"
proof -
  have "Process_Pool demo_pool_heap = Some demo_pool" "Process_Pool_Lock demo_pool_heap = Lock_Clear"
    "process_store demo_pool_heap 0x900 = Some demo_process" "ht_data_at demo_pool = 0x5000"
    "\<not> should_grow (ht_size demo_pool) (ht_used demo_pool + 1)"
    by (simp_all add: demo_pool_heap_def demo_kproc_stores demo_kproc_def kheap.defs demo_pool_def fresh_table_def
        should_grow_def)
  with process_add_pool_unique [of demo_pool_heap demo_pool "0x900" demo_process] demo_pool_ok demo_pool_heap_ready
  show ?thesis by auto
qed

definition demo_last :: kproc where
  "demo_last = demo_kproc\<lparr>thread_store := [0x300 \<mapsto> (demo_thread 0 0)
     \<lparr>thread_obj := \<lparr>ref_count = 1, obj_free = Some Thread_Free, obj_lock = Lock_Clear\<rparr>\<rparr>]\<rparr>"

definition demo_last_ring :: kproc where
  "demo_last_ring = demo_kproc\<lparr>thread_store := (thread_store demo_kproc)(0x200 \<mapsto> (demo_thread 0x300 0x100)
     \<lparr>thread_obj := \<lparr>ref_count = 1, obj_free = Some Thread_Free, obj_lock = Lock_Clear\<rparr>\<rparr>)\<rparr>"

theorem scheduler_ring_kept_witness:
  "(\<exists>s'. scheduler_add_thread 0x400 demo_kproc = Ret s' \<and> ring s' [0x100, 0x400, 0x200, 0x300]) \<and>
   (\<exists>s'. scheduler_remove_thread (\<lambda>t. thread_free (t + offset_obj)) 0x200 demo_kproc = Ret s' \<and> ring s' [0x100, 0x300]) \<and>
   scheduler_remove_thread (\<lambda>t. thread_free (t + offset_obj)) 0x200 demo_last_ring = Fault"
proof -
  have "ring demo_last_ring [0x100, 0x200, 0x300]"
    by (simp add: ring_def has_process_def nx_def pv_def demo_last_ring_def demo_kproc_stores demo_thread_def)
  then have "scheduler_remove_thread (\<lambda>t. thread_free (t + offset_obj)) 0x200 demo_last_ring = Fault"
    using scheduler_ring_kept [of demo_last_ring "0x100" "[]" "0x200" "[0x300]" _ "0x400"]
    by (simp add: has_process_def demo_last_ring_def demo_kproc_stores demo_thread_def container_of_def sizeof_object_def
        offset_obj_def)
  then show ?thesis
    using scheduler_ring_kept [of demo_kproc "0x100" "[]" "0x200" "[0x300]" "demo_thread 0x300 0x100" "0x400"]
      demo_ring by (auto simp: has_process_def demo_kproc_stores demo_thread_def)
qed

theorem destructors_miss_the_object_witness:
  "thread_release (\<lambda>t. thread_free (t + offset_obj)) 0x300 demo_last = Fault \<and>
   process_release 0x900 demo_last = Fault"
  using destructors_miss_the_object [of demo_last "0x300" "(demo_thread 0 0)
     \<lparr>thread_obj := \<lparr>ref_count = 1, obj_free = Some Thread_Free, obj_lock = Lock_Clear\<rparr>\<rparr>" "0x900" demo_process]
  by (simp add: demo_last_def demo_kproc_stores demo_process_def container_of_def sizeof_object_def)

end
