(* ===== verification/Sha512.thy ===== *)
theory Sha512
  imports Prelude
begin

text \<open>
  \<open>kernel/crypto/sha512/hash_sha512_cp.c\<close>, the hash under the signatures of kernel modules: the
  incremental interface, the padding and the compression function with its sixteen unrolled
  rounds and rotating register names. A pointer with a length is the list of the bytes there.
  The work array \<open>W\<close> is the prefix of it that has been written; every call returns 0, and the
  temporary array it clears at the end is not visible to the caller.
  The properties compare it with the hash function as FIPS 180-4 defines it.
\<close>

subsection \<open>Words and bytes\<close>

definition rotr64 :: "u64 \<Rightarrow> nat \<Rightarrow> u64" where
  "rotr64 x b = drop_bit b x OR push_bit (64 - b) x"

definition load64_be :: "u8 list \<Rightarrow> u64" where
  "load64_be src =
     ucast (src ! 7) OR push_bit 8 (ucast (src ! 6)) OR push_bit 16 (ucast (src ! 5)) OR
     push_bit 24 (ucast (src ! 4)) OR push_bit 32 (ucast (src ! 3)) OR push_bit 40 (ucast (src ! 2)) OR
     push_bit 48 (ucast (src ! 1)) OR push_bit 56 (ucast (src ! 0))"

definition store64_be :: "u64 \<Rightarrow> u8 list" where
  "store64_be w = map (\<lambda>i. ucast (drop_bit (56 - 8 * i) w)) [0..<8]"

definition be64enc_vect :: "u64 list \<Rightarrow> u8 list" where
  "be64enc_vect src = concat (map store64_be src)"

definition be64dec_vect :: "u8 list \<Rightarrow> nat \<Rightarrow> u64 list" where
  "be64dec_vect src len = map (\<lambda>i. load64_be (take 8 (drop (i * 8) src))) [0..<len div 8]"

subsection \<open>The compression function\<close>

text \<open>The round constants, for eight rounds at a time.\<close>

definition Krnd_0 :: "u64 list" where
  "Krnd_0 = [0x428a2f98d728ae22, 0x7137449123ef65cd, 0xb5c0fbcfec4d3b2f, 0xe9b5dba58189dbbc,
     0x3956c25bf348b538, 0x59f111f1b605d019, 0x923f82a4af194f9b, 0xab1c5ed5da6d8118]"

definition Krnd_1 :: "u64 list" where
  "Krnd_1 = [0xd807aa98a3030242, 0x12835b0145706fbe, 0x243185be4ee4b28c, 0x550c7dc3d5ffb4e2,
     0x72be5d74f27b896f, 0x80deb1fe3b1696b1, 0x9bdc06a725c71235, 0xc19bf174cf692694]"

definition Krnd_2 :: "u64 list" where
  "Krnd_2 = [0xe49b69c19ef14ad2, 0xefbe4786384f25e3, 0x0fc19dc68b8cd5b5, 0x240ca1cc77ac9c65,
     0x2de92c6f592b0275, 0x4a7484aa6ea6e483, 0x5cb0a9dcbd41fbd4, 0x76f988da831153b5]"

definition Krnd_3 :: "u64 list" where
  "Krnd_3 = [0x983e5152ee66dfab, 0xa831c66d2db43210, 0xb00327c898fb213f, 0xbf597fc7beef0ee4,
     0xc6e00bf33da88fc2, 0xd5a79147930aa725, 0x06ca6351e003826f, 0x142929670a0e6e70]"

definition Krnd_4 :: "u64 list" where
  "Krnd_4 = [0x27b70a8546d22ffc, 0x2e1b21385c26c926, 0x4d2c6dfc5ac42aed, 0x53380d139d95b3df,
     0x650a73548baf63de, 0x766a0abb3c77b2a8, 0x81c2c92e47edaee6, 0x92722c851482353b]"

definition Krnd_5 :: "u64 list" where
  "Krnd_5 = [0xa2bfe8a14cf10364, 0xa81a664bbc423001, 0xc24b8b70d0f89791, 0xc76c51a30654be30,
     0xd192e819d6ef5218, 0xd69906245565a910, 0xf40e35855771202a, 0x106aa07032bbd1b8]"

definition Krnd_6 :: "u64 list" where
  "Krnd_6 = [0x19a4c116b8d2d0c8, 0x1e376c085141ab53, 0x2748774cdf8eeb99, 0x34b0bcb5e19b48a8,
     0x391c0cb3c5c95a63, 0x4ed8aa4ae3418acb, 0x5b9cca4f7763e373, 0x682e6ff3d6b2b8a3]"

definition Krnd_7 :: "u64 list" where
  "Krnd_7 = [0x748f82ee5defb2fc, 0x78a5636f43172f60, 0x84c87814a1f0ab72, 0x8cc702081a6439ec,
     0x90befffa23631e28, 0xa4506cebde82bde9, 0xbef9a3f7b2c67915, 0xc67178f2e372532b]"

definition Krnd_8 :: "u64 list" where
  "Krnd_8 = [0xca273eceea26619c, 0xd186b8c721c0c207, 0xeada7dd6cde0eb1e, 0xf57d4f7fee6ed178,
     0x06f067aa72176fba, 0x0a637dc5a2c898a6, 0x113f9804bef90dae, 0x1b710b35131c471b]"

definition Krnd_9 :: "u64 list" where
  "Krnd_9 = [0x28db77f523047d84, 0x32caab7b40c72493, 0x3c9ebe0a15c9bebc, 0x431d67c49c100d4c,
     0x4cc5d4becb3e42b6, 0x597f299cfc657e2a, 0x5fcb6fab3ad6faec, 0x6c44198c4a475817]"

definition Krnd :: "u64 list" where
  "Krnd = Krnd_0 @ Krnd_1 @ Krnd_2 @ Krnd_3 @ Krnd_4 @ Krnd_5 @ Krnd_6 @ Krnd_7 @ Krnd_8 @ Krnd_9"

definition Ch :: "u64 \<Rightarrow> u64 \<Rightarrow> u64 \<Rightarrow> u64" where
  "Ch x y z = (x AND (y XOR z)) XOR z"

definition Maj :: "u64 \<Rightarrow> u64 \<Rightarrow> u64 \<Rightarrow> u64" where
  "Maj x y z = (x AND (y OR z)) OR (y AND z)"

definition sha_S0 :: "u64 \<Rightarrow> u64" where "sha_S0 x = rotr64 x 28 XOR rotr64 x 34 XOR rotr64 x 39"
definition sha_S1 :: "u64 \<Rightarrow> u64" where "sha_S1 x = rotr64 x 14 XOR rotr64 x 18 XOR rotr64 x 41"
definition sha_s0 :: "u64 \<Rightarrow> u64" where "sha_s0 x = rotr64 x 1 XOR rotr64 x 8 XOR drop_bit 7 x"
definition sha_s1 :: "u64 \<Rightarrow> u64" where "sha_s1 x = rotr64 x 19 XOR rotr64 x 61 XOR drop_bit 6 x"

text \<open>One round: the eight working variables stay where they are in \<open>S\<close>, and their names move.\<close>

definition RNDr :: "u64 list \<Rightarrow> u64 list \<Rightarrow> nat \<Rightarrow> nat \<Rightarrow> u64 list" where
  "RNDr S W i ii =
     (let v = (\<lambda>j. S ! ((80 + j - i) mod 8)); k = W ! (i + ii) + Krnd ! (i + ii);
          h = v 7 + (sha_S1 (v 4) + Ch (v 4) (v 5) (v 6) + k);
          d = v 3 + h;
          h' = h + (sha_S0 (v 0) + Maj (v 0) (v 1) (v 2))
      in S[(83 - i) mod 8 := d, (87 - i) mod 8 := h'])"

definition MSCH :: "u64 list \<Rightarrow> nat \<Rightarrow> nat \<Rightarrow> u64 list" where
  "MSCH W ii i = W @ [sha_s1 (W ! (i + ii + 14)) + W ! (i + ii + 9) + sha_s0 (W ! (i + ii + 1)) + W ! (i + ii)]"

text \<open>The loop over \<open>i = 0, 16, 32, 48, 64\<close>, left in the middle of its last turn.\<close>

fun transform_loop :: "nat list \<Rightarrow> u64 list \<Rightarrow> u64 list \<Rightarrow> u64 list" where
  "transform_loop [] W S = S"
| "transform_loop (i # is) W S =
     (let S' = foldl (\<lambda>S r. RNDr S W r i) S [0..<16] in
      if i = 64 then S' else transform_loop is (foldl (\<lambda>W r. MSCH W r i) W [0..<16]) S')"

definition SHA512_Transform :: "u64 list \<Rightarrow> u8 list \<Rightarrow> u64 list" where
  "SHA512_Transform state block =
     (let W = be64dec_vect block 128; S = transform_loop [0, 16, 32, 48, 64] W state
      in map (\<lambda>i. state ! i + S ! i) [0..<8])"

subsection \<open>The incremental interface\<close>

record sha512_state =
  sh_state :: "u64 list"
  sh_count :: "u64 \<times> u64"
  sh_buf :: "u8 list"

definition PAD :: "u8 list" where "PAD = 0x80 # replicate 127 0"

text \<open>A loop that stores the first \<open>n\<close> bytes of \<open>src\<close> from index \<open>r\<close> on.\<close>

definition copy_bytes :: "u8 list \<Rightarrow> nat \<Rightarrow> u8 list \<Rightarrow> nat \<Rightarrow> u8 list" where
  "copy_bytes buf r src n = foldl (\<lambda>b i. b[r + i := src ! i]) buf [0..<n]"

definition buffered :: "sha512_state \<Rightarrow> nat" where
  "buffered st = unat (drop_bit 3 (snd (sh_count st)) AND 0x7f)"

definition SHA512_Pad :: "sha512_state \<Rightarrow> sha512_state" where
  "SHA512_Pad st =
     (let r = buffered st;
          st1 =
            (if r < 112 then st\<lparr>sh_buf := copy_bytes (sh_buf st) r PAD (112 - r)\<rparr>
             else
               (let b = copy_bytes (sh_buf st) r PAD (128 - r) in
                st\<lparr>sh_state := SHA512_Transform (sh_state st) b,
                   sh_buf := copy_bytes b 0 (replicate 112 0) 112\<rparr>));
          b = copy_bytes (sh_buf st1) 112 (be64enc_vect [fst (sh_count st1), snd (sh_count st1)]) 16
      in st1\<lparr>sh_buf := b, sh_state := SHA512_Transform (sh_state st1) b\<rparr>)"

definition sha512_initial_state :: "u64 list" where
  "sha512_initial_state =
     [0x6a09e667f3bcc908, 0xbb67ae8584caa73b, 0x3c6ef372fe94f82b, 0xa54ff53a5f1d36f1,
      0x510e527fade682d1, 0x9b05688c2b3e6c1f, 0x1f83d9abfb41bd6b, 0x5be0cd19137e2179]"

definition crypto_hash_sha512_init :: "sha512_state \<Rightarrow> sha512_state" where
  "crypto_hash_sha512_init st = st\<lparr>sh_count := (0, 0), sh_state := sha512_initial_state\<rparr>"

fun update_blocks :: "u64 list \<Rightarrow> u8 list \<Rightarrow> u64 list \<times> u8 list" where
  "update_blocks state inp =
     (if 128 \<le> length inp then update_blocks (SHA512_Transform state (take 128 inp)) (drop 128 inp)
      else (state, inp))"

declare update_blocks.simps [simp del]

definition add_count :: "u64 \<times> u64 \<Rightarrow> u64 \<Rightarrow> u64 \<times> u64" where
  "add_count count inlen =
     (let b1 = push_bit 3 inlen; b0 = drop_bit 61 inlen; c1 = snd count + b1;
          c0 = (if c1 < b1 then fst count + 1 else fst count)
      in (c0 + b0, c1))"

definition crypto_hash_sha512_update :: "sha512_state \<Rightarrow> u8 list \<Rightarrow> sha512_state" where
  "crypto_hash_sha512_update st inp =
     (if inp = [] then st
      else
        (let r = buffered st; st1 = st\<lparr>sh_count := add_count (sh_count st) (of_nat (length inp))\<rparr> in
         if length inp < 128 - r then st1\<lparr>sh_buf := copy_bytes (sh_buf st1) r inp (length inp)\<rparr>
         else
           (let b = copy_bytes (sh_buf st1) r inp (128 - r);
                (state, rest) = update_blocks (SHA512_Transform (sh_state st1) b) (drop (128 - r) inp)
            in st1\<lparr>sh_state := state, sh_buf := copy_bytes b 0 rest (length rest)\<rparr>)))"

definition crypto_hash_sha512_final :: "sha512_state \<Rightarrow> u8 list \<times> sha512_state" where
  "crypto_hash_sha512_final st =
     (be64enc_vect (sh_state (SHA512_Pad st)),
      \<lparr>sh_state = replicate 8 0, sh_count = (0, 0), sh_buf = replicate 128 0\<rparr>)"

text \<open>The state is an uninitialised local variable; its contents are the argument \<open>st\<close>.\<close>

definition crypto_hash_sha512 :: "sha512_state \<Rightarrow> u8 list \<Rightarrow> u8 list" where
  "crypto_hash_sha512 st inp =
     fst (crypto_hash_sha512_final (crypto_hash_sha512_update (crypto_hash_sha512_init st) inp))"

definition crypto_hash_sha512_bytes :: u64 where "crypto_hash_sha512_bytes = 64"
definition crypto_hash_sha512_statebytes :: u64 where "crypto_hash_sha512_statebytes = 208"

subsection \<open>FIPS 180-4\<close>

definition fips_Ch :: "u64 \<Rightarrow> u64 \<Rightarrow> u64 \<Rightarrow> u64" where
  "fips_Ch x y z = (x AND y) XOR (NOT x AND z)"

definition fips_Maj :: "u64 \<Rightarrow> u64 \<Rightarrow> u64 \<Rightarrow> u64" where
  "fips_Maj x y z = (x AND y) XOR (x AND z) XOR (y AND z)"

fun schedule :: "u8 list \<Rightarrow> nat \<Rightarrow> u64" where
  "schedule block t =
     (if t < 16 then load64_be (take 8 (drop (t * 8) block))
      else sha_s1 (schedule block (t - 2)) + schedule block (t - 7) + sha_s0 (schedule block (t - 15))
        + schedule block (t - 16))"

declare schedule.simps [simp del]

type_synonym registers = "u64 \<times> u64 \<times> u64 \<times> u64 \<times> u64 \<times> u64 \<times> u64 \<times> u64"

definition fips_round :: "registers \<Rightarrow> u64 \<Rightarrow> registers" where
  "fips_round v kw =
     (case v of (a, b, c, d, e, f, g, h) \<Rightarrow>
        let T1 = h + sha_S1 e + fips_Ch e f g + kw; T2 = sha_S0 a + fips_Maj a b c
        in (T1 + T2, a, b, c, d + T1, e, f, g))"

definition fips_rounds :: "u8 list \<Rightarrow> registers \<Rightarrow> registers" where
  "fips_rounds block v = foldl (\<lambda>v t. fips_round v (Krnd ! t + schedule block t)) v [0..<80]"

definition to_regs :: "u64 list \<Rightarrow> registers" where
  "to_regs S = (S ! 0, S ! 1, S ! 2, S ! 3, S ! 4, S ! 5, S ! 6, S ! 7)"

definition of_regs :: "registers \<Rightarrow> u64 list" where
  "of_regs v = (case v of (a, b, c, d, e, f, g, h) \<Rightarrow> [a, b, c, d, e, f, g, h])"

definition fips_compress :: "u64 list \<Rightarrow> u8 list \<Rightarrow> u64 list" where
  "fips_compress H block = map2 (+) H (of_regs (fips_rounds block (to_regs H)))"

lemma Ch_fips: "Ch x y z = fips_Ch x y z"
  by (rule bit_word_eqI) (auto simp: Ch_def fips_Ch_def bit_simps)

lemma Maj_fips: "Maj x y z = fips_Maj x y z"
  by (rule bit_word_eqI) (auto simp: Maj_def fips_Maj_def bit_simps)

text \<open>The working variables by name before round \<open>i\<close> of sixteen.\<close>

definition named :: "u64 list \<Rightarrow> nat \<Rightarrow> registers" where
  "named S i = (let v = (\<lambda>j. S ! ((80 + j - i) mod 8)) in (v 0, v 1, v 2, v 3, v 4, v 5, v 6, v 7))"

lemma eight: "length S = 8 \<Longrightarrow> \<exists>a b c d e f g h. S = [a, b, c, d, e, f, g, h]"
  by (auto simp: length_Suc_conv numeral_eq_Suc)

lemma less_16: "i < 16 \<Longrightarrow> i \<in> {0, 1, 2, 3, 4, 5, 6, 7, 8, 9, 10, 11, 12, 13, 14, 15}" for i :: nat
  unfolding insert_iff empty_iff by presburger

lemma length_RNDr [simp]: "length (RNDr S W i ii) = length S"
  by (simp add: RNDr_def Let_def)

lemma named_RNDr:
  assumes "length S = 8" "i < 16"
  shows "named (RNDr S W i ii) (Suc i) = fips_round (named S i) (Krnd ! (i + ii) + W ! (i + ii))"
proof -
  from eight [OF assms(1)] obtain a b c d e f g h where S: "S = [a, b, c, d, e, f, g, h]" by blast
  show ?thesis
    using less_16 [OF assms(2)] unfolding S
    by (elim insertE) (simp_all add: named_def RNDr_def fips_round_def Let_def Ch_fips Maj_fips ac_simps)
qed

definition fips_step :: "u8 list \<Rightarrow> registers \<Rightarrow> nat \<Rightarrow> registers" where
  "fips_step block v t = fips_round v (Krnd ! t + schedule block t)"

definition scheduled :: "u8 list \<Rightarrow> u64 list \<Rightarrow> bool" where
  "scheduled block W \<longleftrightarrow> (\<forall>t < length W. W ! t = schedule block t)"

lemma named_simps: "named S 0 = to_regs S" "named S 16 = to_regs S"
  by (simp_all add: named_def to_regs_def)

lemma length_rounds [simp]: "length (foldl (\<lambda>S r. RNDr S W r ii) S rs) = length S"
  by (induction rs arbitrary: S) simp_all

lemma rounds_named:
  "length S = 8 \<Longrightarrow> n \<le> 16 \<Longrightarrow> scheduled block W \<Longrightarrow> ii + 16 \<le> length W \<Longrightarrow>
   named (foldl (\<lambda>S r. RNDr S W r ii) S [0..<n]) n = foldl (fips_step block) (to_regs S) [ii..<ii + n]"
proof (induction n)
  case 0
  then show ?case by (simp add: named_simps)
next
  case (Suc n)
  then have "W ! (n + ii) = schedule block (ii + n)" by (simp add: scheduled_def add.commute)
  with Suc show ?case by (simp add: named_RNDr fips_step_def add.commute)
qed

lemma rounds_16:
  assumes "length S = 8" "scheduled block W" "ii + 16 \<le> length W"
  shows "to_regs (foldl (\<lambda>S r. RNDr S W r ii) S [0..<16]) = foldl (fips_step block) (to_regs S) [ii..<ii + 16]"
  using rounds_named [OF assms(1) order_refl assms(2,3)] by (simp add: named_simps)

lemma schedule_base: "scheduled block (be64dec_vect block 128)" "length (be64dec_vect block 128) = 16"
  by (simp_all add: scheduled_def be64dec_vect_def schedule.simps)

lemma MSCH_scheduled:
  assumes "scheduled block W" "length W = r + ii + 16"
  shows "scheduled block (MSCH W r ii)" "length (MSCH W r ii) = Suc (length W)"
proof -
  have "schedule block (length W) = sha_s1 (schedule block (ii + r + 14)) + schedule block (ii + r + 9)
      + sha_s0 (schedule block (ii + r + 1)) + schedule block (ii + r)"
    by (subst schedule.simps) (simp add: assms(2) add.commute)
  with assms have "MSCH W r ii = W @ [schedule block (length W)]"
    by (simp add: scheduled_def MSCH_def add.commute)
  with assms(1) show "scheduled block (MSCH W r ii)"
    by (auto simp: scheduled_def nth_append less_Suc_eq)
qed (simp add: MSCH_def)

lemma MSCH_rounds:
  "scheduled block W \<Longrightarrow> length W = ii + 16 \<Longrightarrow>
   scheduled block (foldl (\<lambda>W r. MSCH W r ii) W [0..<n]) \<and>
   length (foldl (\<lambda>W r. MSCH W r ii) W [0..<n]) = ii + 16 + n"
proof (induction n)
  case (Suc n)
  then have "scheduled block (foldl (\<lambda>W r. MSCH W r ii) W [0..<n])"
    "length (foldl (\<lambda>W r. MSCH W r ii) W [0..<n]) = n + ii + 16" by simp_all
  from MSCH_scheduled [OF this] this show ?case by simp
qed simp

lemma transform_step:
  assumes "length S = 8" "scheduled block W" "length W = i + 16"
  obtains S' W' where "transform_loop (i # is) W S = (if i = 64 then S' else transform_loop is W' S')"
    "length S' = 8" "scheduled block W'" "length W' = i + 32"
    "to_regs S' = foldl (fips_step block) (to_regs S) [i..<i + 16]"
proof -
  have "length (foldl (\<lambda>S r. RNDr S W r i) S [0..<16]) = 8" using assms(1) by simp
  moreover have "scheduled block (foldl (\<lambda>W r. MSCH W r i) W [0..<16])"
    "length (foldl (\<lambda>W r. MSCH W r i) W [0..<16]) = i + 32"
    using MSCH_rounds [OF assms(2,3), of 16] by simp_all
  moreover have "transform_loop (i # is) W S = (if i = 64 then foldl (\<lambda>S r. RNDr S W r i) S [0..<16]
      else transform_loop is (foldl (\<lambda>W r. MSCH W r i) W [0..<16]) (foldl (\<lambda>S r. RNDr S W r i) S [0..<16]))"
    by (simp only: transform_loop.simps Let_def)
  ultimately show thesis using that rounds_16 [OF assms(1,2), of i] assms(3) by simp
qed

lemma transform_regs:
  assumes "length state = 8"
  shows "to_regs (transform_loop [0, 16, 32, 48, 64] (be64dec_vect block 128) state) = fips_rounds block (to_regs state)"
proof -
  have w0: "length (be64dec_vect block 128) = 0 + 16" by (simp add: schedule_base)
  obtain S1 W1 where s1: "transform_loop [0, 16, 32, 48, 64] (be64dec_vect block 128) state = transform_loop [16, 32, 48, 64] W1 S1"
    "length S1 = 8" "scheduled block W1" "length W1 = 16 + 16" "to_regs S1 = foldl (fips_step block) (to_regs state) [0..<16]"
    by (rule transform_step [OF assms schedule_base(1) w0, of "[16, 32, 48, 64]"]) auto
  obtain S2 W2 where s2: "transform_loop [16, 32, 48, 64] W1 S1 = transform_loop [32, 48, 64] W2 S2"
    "length S2 = 8" "scheduled block W2" "length W2 = 32 + 16" "to_regs S2 = foldl (fips_step block) (to_regs S1) [16..<32]"
    by (rule transform_step [OF s1(2,3,4), of "[32, 48, 64]"]) auto
  obtain S3 W3 where s3: "transform_loop [32, 48, 64] W2 S2 = transform_loop [48, 64] W3 S3"
    "length S3 = 8" "scheduled block W3" "length W3 = 48 + 16" "to_regs S3 = foldl (fips_step block) (to_regs S2) [32..<48]"
    by (rule transform_step [OF s2(2,3,4), of "[48, 64]"]) auto
  obtain S4 W4 where s4: "transform_loop [48, 64] W3 S3 = transform_loop [64] W4 S4"
    "length S4 = 8" "scheduled block W4" "length W4 = 64 + 16" "to_regs S4 = foldl (fips_step block) (to_regs S3) [48..<64]"
    by (rule transform_step [OF s3(2,3,4), of "[64]"]) auto
  obtain S5 where s5: "transform_loop [64] W4 S4 = S5" "to_regs S5 = foldl (fips_step block) (to_regs S4) [64..<80]"
    by (rule transform_step [OF s4(2,3,4), of "[]"]) auto
  have split: "[0..<80] = [0..<16] @ [16..<32] @ [32..<48] @ [48..<64] @ [64..<80 :: nat]"
    using upt_add_eq_append [of 0 16 64] upt_add_eq_append [of 16 32 48] upt_add_eq_append [of 32 48 32]
      upt_add_eq_append [of 48 64 16] by simp
  have "fips_rounds block v = foldl (fips_step block) v [0..<80]" for v
    by (simp add: fips_rounds_def fips_step_def [abs_def])
  with s1 s2 s3 s4 s5 split show ?thesis by simp
qed

lemma transform_length: "length state = 8 \<Longrightarrow> length (transform_loop is W state) = 8"
  by (induction "is" W state rule: transform_loop.induct) (simp_all add: Let_def)

lemma of_to_regs: "length S = 8 \<Longrightarrow> of_regs (to_regs S) = S"
  using eight [of S] by (auto simp: of_regs_def to_regs_def)

lemma map2_nth: "length xs = n \<Longrightarrow> length ys = n \<Longrightarrow> map2 f xs ys = map (\<lambda>i. f (xs ! i) (ys ! i)) [0..<n]"
  by (rule nth_equalityI) auto

lemma SHA512_Transform_fips: "length state = 8 \<Longrightarrow> SHA512_Transform state block = fips_compress state block"
  using transform_regs [of state block, symmetric] transform_length [of state]
  by (simp add: SHA512_Transform_def fips_compress_def Let_def of_to_regs map2_nth del: upt_rec_numeral)

lemma length_Transform [simp]: "length (SHA512_Transform state block) = 8"
  by (simp add: SHA512_Transform_def Let_def)

subsection \<open>The message\<close>

text \<open>Padding: a one bit, zeros up to sixteen bytes short of a block, and the length in bits.\<close>

definition length_field :: "u8 list \<Rightarrow> u8 list" where
  "length_field m = be64enc_vect [of_nat (8 * length m div 2 ^ 64), of_nat (8 * length m)]"

definition fips_pad :: "u8 list \<Rightarrow> u8 list" where
  "fips_pad m = m @ 0x80 # replicate ((239 - length m mod 128) mod 128) 0 @ length_field m"

fun fips_blocks :: "u64 list \<Rightarrow> u8 list \<Rightarrow> u64 list" where
  "fips_blocks H m = (if 128 \<le> length m then fips_blocks (fips_compress H (take 128 m)) (drop 128 m) else H)"

declare fips_blocks.simps [simp del]

definition fips_sha512 :: "u8 list \<Rightarrow> u8 list" where
  "fips_sha512 m = be64enc_vect (fips_blocks sha512_initial_state (fips_pad m))"

lemma length_compress [simp]: "length H = 8 \<Longrightarrow> length (fips_compress H b) = 8"
  by (simp add: SHA512_Transform_fips [symmetric])

lemma length_blocks [simp]: "length H = 8 \<Longrightarrow> length (fips_blocks H m) = 8"
proof (induction H m rule: fips_blocks.induct)
  case (1 H m)
  then show ?case by (subst fips_blocks.simps) simp
qed

lemma blocks_append:
  "length m mod 128 = 0 \<Longrightarrow> fips_blocks H (m @ x) = fips_blocks (fips_blocks H m) x"
proof (induction H m rule: fips_blocks.induct)
  case (1 H m)
  show ?case
  proof (cases "128 \<le> length m")
    case True
    then have "length (drop 128 m) mod 128 = 0" using "1.prems" by (simp add: le_mod_geq)
    with True "1.IH" show ?thesis
      using fips_blocks.simps [of H "m @ x"] fips_blocks.simps [of H m] by simp
  next
    case False
    with "1.prems" have "m = []" by simp
    then show ?thesis by (simp add: fips_blocks.simps [of H "[]"])
  qed
qed

lemma blocks_one: "length b = 128 \<Longrightarrow> fips_blocks H b = fips_compress H b"
  by (subst fips_blocks.simps) (simp add: fips_blocks.simps [of _ "[]"])

lemma blocks_short: "length b < 128 \<Longrightarrow> fips_blocks H b = H"
  by (simp add: fips_blocks.simps [of H b])

text \<open>The full blocks of a message, and what is left of it.\<close>

definition whole :: "u8 list \<Rightarrow> u8 list" where "whole m = take (128 * (length m div 128)) m"
definition tail :: "u8 list \<Rightarrow> u8 list" where "tail m = drop (128 * (length m div 128)) m"

lemma whole_tail: "whole m @ tail m = m" "length (whole m) mod 128 = 0" "length (tail m) = length m mod 128"
  by (simp_all add: whole_def tail_def minus_mult_div_eq_mod min_absorb2)

lemma blocks_whole: "fips_blocks H m = fips_blocks H (whole m)"
proof -
  have "fips_blocks H (whole m @ tail m) = fips_blocks (fips_blocks H (whole m)) (tail m)"
    by (rule blocks_append) (rule whole_tail)
  then show ?thesis by (simp add: whole_tail blocks_short)
qed

lemma blocks_tail: "fips_blocks H (m @ x) = fips_blocks (fips_blocks H m) (tail m @ x)"
proof -
  have "fips_blocks H (whole m @ (tail m @ x)) = fips_blocks (fips_blocks H (whole m)) (tail m @ x)"
    by (rule blocks_append) (rule whole_tail)
  then show ?thesis by (simp add: whole_tail blocks_whole [of H m, symmetric] flip: append_assoc)
qed

lemma copy_bytes_eq:
  "n \<le> length src \<Longrightarrow> r + n \<le> length buf \<Longrightarrow> copy_bytes buf r src n = take r buf @ take n src @ drop (r + n) buf"
proof (induction n)
  case (Suc n)
  then have "copy_bytes buf r src (Suc n) = (take r buf @ take n src @ drop (r + n) buf)[r + n := src ! n]"
    by (simp add: copy_bytes_def)
  also have "drop (r + n) buf = buf ! (r + n) # drop (r + Suc n) buf"
    using Suc.prems by (simp add: Cons_nth_drop_Suc)
  finally show ?case using Suc.prems by (simp add: list_update_append take_Suc_conv_app_nth)
qed (simp add: copy_bytes_def)

lemma update_blocks_fips:
  "length H = 8 \<Longrightarrow> update_blocks H x = (fips_blocks H x, tail x)"
proof (induction H x rule: update_blocks.induct)
  case (1 H x)
  show ?case
  proof (cases "128 \<le> length x")
    case True
    then have "tail (drop 128 x) = tail x" by (simp add: tail_def le_div_geq add.commute)
    with True 1 show ?thesis
      by (subst update_blocks.simps, subst fips_blocks.simps) (simp add: SHA512_Transform_fips)
  next
    case False
    then show ?thesis by (subst update_blocks.simps) (simp add: blocks_short tail_def)
  qed
qed

subsection \<open>The state represents the bytes hashed so far\<close>

definition represents :: "sha512_state \<Rightarrow> u8 list \<Rightarrow> bool" where
  "represents st m \<longleftrightarrow> length (sh_buf st) = 128 \<and> sh_state st = fips_blocks sha512_initial_state m \<and>
     sh_count st = (of_nat (8 * length m div 2 ^ 64), of_nat (8 * length m)) \<and>
     take (length m mod 128) (sh_buf st) = tail m"

lemma and_7f: "unat (x AND 0x7f) = unat x mod 128" for x :: u64
proof -
  have "x AND 0x7f = take_bit 7 x" by (simp add: take_bit_eq_mask mask_eq_exp_minus_1)
  then show ?thesis by (simp add: take_bit_eq_mod unat_mod)
qed

lemma buffered_eq: "snd (sh_count st) = of_nat (8 * n) \<Longrightarrow> buffered st = n mod 128"
proof -
  assume a: "snd (sh_count st) = of_nat (8 * n)"
  have "unat (drop_bit 3 (of_nat (8 * n) :: u64)) = (8 * n) mod (8 * 2 ^ 61) div 8"
    by (simp add: drop_bit_eq_div unat_div unsigned_of_nat take_bit_eq_mod del: of_nat_mult)
  also have "\<dots> = n mod 2 ^ 61" by (simp only: mult_mod_right [symmetric])
  finally show ?thesis using a by (simp add: buffered_def and_7f mod_mod_cancel del: of_nat_mult)
qed

lemma mod_carry:
  fixes x y M :: nat
  assumes "x < M" "y < M"
  shows "(x + y) mod M < y \<longleftrightarrow> M \<le> x + y" "(x + y) div M = (if M \<le> x + y then 1 else 0)"
  using assms by (auto simp: mod_if div_if)

lemma word_carry: "(of_nat a + of_nat b < (of_nat b :: u64)) = (2 ^ 64 \<le> a mod 2 ^ 64 + b mod 2 ^ 64)"
proof -
  have "(of_nat a + of_nat b < (of_nat b :: u64)) = ((a + b) mod 2 ^ 64 < b mod 2 ^ 64)"
    by (simp add: word_less_nat_alt unsigned_of_nat take_bit_eq_mod flip: of_nat_add)
  also have "(a + b) mod 2 ^ 64 = (a mod 2 ^ 64 + b mod 2 ^ 64) mod 2 ^ 64" by (simp only: mod_add_eq)
  finally show ?thesis by (simp only: mod_carry mod_less_divisor zero_less_power zero_less_numeral)
qed

lemma add_count_eq:
  assumes "n < 2 ^ 64"
  shows "add_count (of_nat (A div 2 ^ 64), of_nat A) (of_nat n) = (of_nat ((A + 8 * n) div 2 ^ 64), of_nat (A + 8 * n))"
proof -
  have b1: "push_bit 3 (of_nat n) = (of_nat (8 * n) :: u64)" by (simp add: push_bit_eq_mult)
  have u: "unat (drop_bit 61 (of_nat n :: u64)) = n div 2 ^ 61"
    using assms by (simp add: drop_bit_eq_div unat_div unsigned_of_nat take_bit_eq_mod)
  have q: "8 * n div 2 ^ 64 = n div 2 ^ 61" using div_mult_mult1 [of 8 n "2 ^ 61"] by simp
  have b0: "drop_bit 61 (of_nat n :: u64) = of_nat (8 * n div 2 ^ 64)"
    unfolding q u [symmetric] by (simp only: unat_eq_nat_uint of_nat_nat uint_ge_0 word_of_int_uint)
  have "(A + 8 * n) div 2 ^ 64 = A div 2 ^ 64 + 8 * n div 2 ^ 64 + (A mod 2 ^ 64 + 8 * n mod 2 ^ 64) div 2 ^ 64"
    by (rule div_add1_eq)
  moreover have "(A mod 2 ^ 64 + 8 * n mod 2 ^ 64) div 2 ^ 64 = (if 2 ^ 64 \<le> A mod 2 ^ 64 + 8 * n mod 2 ^ 64 then 1 else 0)"
    by (rule mod_carry) simp_all
  ultimately show ?thesis
    by (simp add: add_count_def Let_def b1 b0 word_carry del: of_nat_mult)
qed

lemma tail_append: "length a mod 128 = 0 \<Longrightarrow> tail (a @ y) = tail y"
proof -
  assume "length a mod 128 = 0"
  then obtain k where k: "length a = 128 * k" by (metis mod_0_imp_dvd dvdE)
  have "(128 * k + length y) div 128 = k + length y div 128" by simp
  with k show ?thesis by (simp add: tail_def distrib_left)
qed

lemma tail_tail: "tail (m @ x) = tail (tail m @ x)"
  using tail_append [OF whole_tail(2), of m "tail m @ x"] by (simp add: whole_tail(1) flip: append_assoc)

lemma tail_short: "length x < 128 \<Longrightarrow> tail x = x"
  by (simp add: tail_def)

lemma represents_init: "length (sh_buf st) = 128 \<Longrightarrow> represents (crypto_hash_sha512_init st) []"
  by (simp add: represents_def crypto_hash_sha512_init_def blocks_short tail_def)

lemma length_initial [simp]: "length sha512_initial_state = 8"
  by (simp add: sha512_initial_state_def)

lemma representsD:
  assumes "represents st m"
  shows "buffered st = length (tail m)" "length (tail m) < 128" "length (sh_buf st) = 128"
    "sh_state st = fips_blocks sha512_initial_state m" "take (length (tail m)) (sh_buf st) = tail m"
    "sh_count st = (of_nat (8 * length m div 2 ^ 64), of_nat (8 * length m))"
  using assms buffered_eq [of st "length m"] by (simp_all add: represents_def whole_tail)

lemma represents_update:
  assumes "represents st m" "length x < 2 ^ 64"
  shows "represents (crypto_hash_sha512_update st x) (m @ x)"
proof (cases "x = []")
  case True
  with assms(1) show ?thesis by (simp add: crypto_hash_sha512_update_def)
next
  case False
  let ?H = "fips_blocks sha512_initial_state m" and ?r = "length (tail m)"
  note st = representsD [OF assms(1)]
  have count: "add_count (sh_count st) (of_nat (length x)) =
      (of_nat (8 * length (m @ x) div 2 ^ 64), of_nat (8 * length (m @ x)))"
    using add_count_eq [OF assms(2), of "8 * length m"] st(6) by (simp add: distrib_left)
  show ?thesis
  proof (cases "length x < 128 - ?r")
    case True
    then have "tail (m @ x) = tail m @ x" using tail_tail [of m x] by (simp add: tail_short)
    moreover have "fips_blocks sha512_initial_state (m @ x) = ?H" 
      using True blocks_tail [of sha512_initial_state m x] by (simp add: blocks_short)
    moreover have "copy_bytes (sh_buf st) ?r x (length x) = (tail m @ x) @ drop (?r + length x) (sh_buf st)"
      using True st by (simp add: copy_bytes_eq)
    ultimately show ?thesis
      using True False st count whole_tail(3) [of "m @ x"]
      by (simp add: crypto_hash_sha512_update_def Let_def represents_def)
  next
    case big: False
    define b rest where "b = tail m @ take (128 - ?r) x" and "rest = drop (128 - ?r) x"
    have b: "length b = 128" "copy_bytes (sh_buf st) ?r x (128 - ?r) = b" "tail m @ x = b @ rest"
      using big st by (simp_all add: b_def rest_def copy_bytes_eq)
    have t: "tail (m @ x) = tail rest" using tail_tail [of m x] tail_append [of b rest] b by simp
    have "fips_blocks sha512_initial_state (m @ x) = fips_blocks (fips_compress ?H b) rest"
      using b blocks_append [of b ?H rest] blocks_tail [of sha512_initial_state m x] by (simp add: blocks_one)
    moreover have "update_blocks (SHA512_Transform ?H b) rest = (fips_blocks (fips_compress ?H b) rest, tail rest)"
      by (simp add: update_blocks_fips SHA512_Transform_fips)
    moreover have "copy_bytes b 0 (tail rest) (length (tail rest)) = tail rest @ drop (length (tail rest)) b"
      using b(1) whole_tail(3) [of rest] by (simp add: copy_bytes_eq less_imp_le)
    ultimately show ?thesis
      using big False st count b(1,2) t whole_tail(3) [of "m @ x"]
      by (simp add: crypto_hash_sha512_update_def Let_def represents_def rest_def [symmetric] less_imp_le)
  qed
qed

lemma length_field_16: "length (length_field m) = 16"
  by (simp add: length_field_def be64enc_vect_def store64_be_def)

lemma represents_pad:
  assumes "represents st m"
  shows "sh_state (SHA512_Pad st) = fips_blocks sha512_initial_state (fips_pad m)"
proof -
  let ?H = "fips_blocks sha512_initial_state m" and ?r = "length (tail m)" and ?L = "length_field m"
  note st = representsD [OF assms]
  have lf: "be64enc_vect [fst (sh_count st), snd (sh_count st)] = ?L" using st(6) by (simp add: length_field_def)
  have last: "copy_bytes (z @ y) 112 ?L 16 = z @ ?L" if "length z = 112" "length y = 16" for z y
    using that length_field_16 [of m] by (simp add: copy_bytes_eq)
  have pad: "fips_blocks sha512_initial_state (fips_pad m) = fips_blocks ?H (tail m @ p)" if "fips_pad m = m @ p" for p
    using blocks_tail [of sha512_initial_state m p] that by simp
  have PAD: "length PAD = 128" "take (Suc n) PAD = 0x80 # replicate n 0" if "n < 128" for n
    using that by (simp_all add: PAD_def min_def)
  show ?thesis
  proof (cases "?r < 112")
    case True
    define z where "z = tail m @ 0x80 # replicate (111 - ?r) 0"
    have z: "length z = 112" "copy_bytes (sh_buf st) ?r PAD (112 - ?r) = z @ drop 112 (sh_buf st)"
      using True st PAD [of "111 - ?r"] by (simp_all add: z_def copy_bytes_eq Suc_diff_le [symmetric])
    have "(239 - ?r) mod 128 = 111 - ?r" using True by (simp add: mod_if)
    then have "fips_pad m = m @ 0x80 # replicate (111 - ?r) 0 @ ?L" by (simp add: fips_pad_def whole_tail)
    from pad [OF this] have "fips_blocks sha512_initial_state (fips_pad m) = fips_compress ?H (z @ ?L)"
      using z(1) length_field_16 [of m] by (simp add: z_def blocks_one)
    with True st z lf last [OF z(1), of "drop 112 (sh_buf st)"] show ?thesis
      by (simp add: SHA512_Pad_def Let_def SHA512_Transform_fips)
  next
    case False
    define z where "z = tail m @ 0x80 # replicate (127 - ?r) 0"
    have z: "length z = 128" "copy_bytes (sh_buf st) ?r PAD (128 - ?r) = z"
      using False st PAD [of "127 - ?r"] by (simp_all add: z_def copy_bytes_eq Suc_diff_le [symmetric])
    have zero: "copy_bytes z 0 (replicate 112 0) 112 = replicate 112 0 @ drop 112 z"
      using z(1) by (simp add: copy_bytes_eq)
    have "(239 - ?r) mod 128 = (127 - ?r) + 112" using False st(2) by simp
    then have "fips_pad m = m @ (0x80 # replicate (127 - ?r) 0) @ (replicate 112 0 @ ?L)"
      by (simp only: fips_pad_def whole_tail(3) [symmetric] replicate_add) simp
    from pad [OF this] have "fips_blocks sha512_initial_state (fips_pad m) = fips_blocks ?H (z @ (replicate 112 0 @ ?L))"
      by (simp add: z_def)
    also have "\<dots> = fips_compress (fips_compress ?H z) (replicate 112 0 @ ?L)"
      using z(1) length_field_16 [of m] blocks_append [of z ?H "replicate 112 0 @ ?L"] by (simp add: blocks_one)
    finally show ?thesis
      using False st z lf zero last [of "replicate 112 0" "drop 112 z"]
      by (simp add: SHA512_Pad_def Let_def SHA512_Transform_fips)
  qed
qed

subsection \<open>Properties\<close>

lemma represents_final: "represents st m \<Longrightarrow> fst (crypto_hash_sha512_final st) = fips_sha512 m"
  by (simp add: crypto_hash_sha512_final_def fips_sha512_def represents_pad)

lemma represents_whole:
  "length (sh_buf st) = 128 \<Longrightarrow> length x < 2 ^ 64 \<Longrightarrow> crypto_hash_sha512 st x = fips_sha512 x"
  using represents_final [OF represents_update [OF represents_init, of st x]] by (simp add: crypto_hash_sha512_def)

lemma length_fips_sha512 [simp]: "length (fips_sha512 m) = 64"
  by (simp add: fips_sha512_def be64enc_vect_def store64_be_def length_concat comp_def sum_list_triv)

text \<open>The unrolled compression function, whose working variables change their names instead of
  their places and whose message schedule is extended sixteen words at a time, is the
  compression function of FIPS 180-4.\<close>

theorem sha512_transform_is_fips:
  assumes "length state = 8"
  shows "SHA512_Transform state block = fips_compress state block"
  using assms by (rule SHA512_Transform_fips)

text \<open>(C7) However a message is cut into pieces, initialising a state, feeding it the pieces and
  finishing gives the SHA-512 hash of the message, for any earlier contents of the state.\<close>

theorem sha512_incremental_is_fips:
  assumes "length (sh_buf st) = 128" "\<forall>x \<in> set xs. length x < 2 ^ 64"
  shows "fst (crypto_hash_sha512_final (foldl crypto_hash_sha512_update (crypto_hash_sha512_init st) xs))
    = fips_sha512 (concat xs)"
proof -
  have "represents (foldl crypto_hash_sha512_update s xs) (m @ concat xs)"
    if "represents s m" "\<forall>x \<in> set xs. length x < 2 ^ 64" for s m
    using that
  proof (induction xs arbitrary: s m)
    case (Cons x xs)
    then show ?case using represents_update [of s m x] Cons.IH [of "crypto_hash_sha512_update s x" "m @ x"] by simp
  qed simp
  from this [OF represents_init [OF assms(1)] assms(2)] show ?thesis by (simp add: represents_final)
qed

theorem sha512_transform_is_fips_witness:
  "SHA512_Transform sha512_initial_state (replicate 128 0x61) = fips_compress sha512_initial_state (replicate 128 0x61)"
  by (rule sha512_transform_is_fips) simp

theorem sha512_incremental_is_fips_witness:
  "fst (crypto_hash_sha512_final (foldl crypto_hash_sha512_update
     (crypto_hash_sha512_init \<lparr>sh_state = [], sh_count = (7, 7), sh_buf = replicate 128 0xff\<rparr>)
     [replicate 100 0x61, [], replicate 200 0x62])) = fips_sha512 (replicate 100 0x61 @ replicate 200 0x62)"
  using sha512_incremental_is_fips [of "\<lparr>sh_state = [], sh_count = (7, 7), sh_buf = replicate 128 0xff\<rparr>"
      "[replicate 100 0x61, [], replicate 200 0x62]"] by simp

end
