(* ===== verification/Field25519.thy ===== *)
theory Field25519
  imports Prelude
begin

text \<open>
  The arithmetic modulo \<open>2 ^ 255 - 19\<close> of \<open>kernel/crypto/ed25519/curve25519_ref10.c\<close>, under the
  signatures of kernel modules. A field element is ten signed limbs of alternately 26 and 25
  bits. The limbs are integers; every operation of the code on \<open>int32_t\<close> and \<open>int64_t\<close> reduces
  its result to the range of the type, as the machine does. An array is the list of its entries.
\<close>

subsection \<open>Machine arithmetic\<close>

definition i32 :: "int \<Rightarrow> int" where "i32 x = signed_take_bit 31 x"
definition i64 :: "int \<Rightarrow> int" where "i64 x = signed_take_bit 63 x"

definition m32 :: "int \<Rightarrow> int \<Rightarrow> int" where "m32 a b = i32 (a * b)"
definition m64 :: "int \<Rightarrow> int \<Rightarrow> int" where "m64 a b = i64 (a * b)"
definition a64 :: "int \<Rightarrow> int \<Rightarrow> int" where "a64 a b = i64 (a + b)"
definition s64 :: "int \<Rightarrow> int \<Rightarrow> int" where "s64 a b = i64 (a - b)"

primrec sum64_from :: "int \<Rightarrow> int list \<Rightarrow> int" where
  "sum64_from acc [] = acc"
| "sum64_from acc (x # xs) = sum64_from (a64 acc x) xs"

definition sum64 :: "int list \<Rightarrow> int" where "sum64 xs = sum64_from (hd xs) (tl xs)"

subsection \<open>Constants, addition and selection\<close>

type_synonym fe = "int list"

definition fe_0 :: fe where "fe_0 = replicate 10 0"
definition fe_1 :: fe where "fe_1 = 1 # 0 # replicate 8 0"

definition fe_add :: "fe \<Rightarrow> fe \<Rightarrow> fe" where
  "fe_add f g = map (\<lambda>i. i32 (f ! i + g ! i)) [0..<10]"

definition fe_sub :: "fe \<Rightarrow> fe \<Rightarrow> fe" where
  "fe_sub f g = map (\<lambda>i. i32 (f ! i - g ! i)) [0..<10]"

definition fe_neg :: "fe \<Rightarrow> fe" where
  "fe_neg f = map (\<lambda>i. i32 (- (f ! i))) [0..<10]"

definition fe_copy :: "fe \<Rightarrow> fe" where
  "fe_copy f = map (\<lambda>i. f ! i) [0..<10]"

text \<open>\<open>b\<close> is an \<open>unsigned int\<close>; its negation masks the bits in which the arguments differ.\<close>

definition fe_cmov :: "fe \<Rightarrow> fe \<Rightarrow> u32 \<Rightarrow> fe" where
  "fe_cmov f g b =
     (let mask = sint (- b) in
      map (\<lambda>i. (f ! i) XOR ((f ! i XOR g ! i) AND mask)) [0..<10])"

subsection \<open>Multiplication\<close>

text \<open>The carry of limb \<open>i\<close>, of 26 or 25 bits, into limb \<open>j\<close>, and the carry of the top limb back
  into the bottom one, where \<open>2 ^ 255\<close> counts 19.\<close>

definition carry26 :: "nat \<Rightarrow> nat \<Rightarrow> int list \<Rightarrow> int list" where
  "carry26 i j h =
     (let c = a64 (h ! i) (2 ^ 25) div 2 ^ 26
      in h[j := a64 (h ! j) c, i := s64 (h ! i) (m64 c (2 ^ 26))])"

definition carry25 :: "nat \<Rightarrow> nat \<Rightarrow> int list \<Rightarrow> int list" where
  "carry25 i j h =
     (let c = a64 (h ! i) (2 ^ 24) div 2 ^ 25
      in h[j := a64 (h ! j) c, i := s64 (h ! i) (m64 c (2 ^ 25))])"

definition carry_top :: "int list \<Rightarrow> int list" where
  "carry_top h =
     (let c = a64 (h ! 9) (2 ^ 24) div 2 ^ 25
      in h[0 := a64 (h ! 0) (m64 c 19), 9 := s64 (h ! 9) (m64 c (2 ^ 25))])"

definition carry_chain :: "int list \<Rightarrow> int list" where
  "carry_chain h =
     (let h = carry26 4 5 (carry26 0 1 h);
          h = carry25 5 6 (carry25 1 2 h);
          h = carry26 6 7 (carry26 2 3 h);
          h = carry25 7 8 (carry25 3 4 h);
          h = carry26 8 9 (carry26 4 5 h);
          h = carry26 0 1 (carry_top h)
      in map (\<lambda>i. i32 (h ! i)) [0..<10])"

definition mul_limbs :: "int list \<Rightarrow> int list \<Rightarrow> int list" where
  "mul_limbs f g =
     (let f0 = f ! 0; f1 = f ! 1; f2 = f ! 2; f3 = f ! 3; f4 = f ! 4; f5 = f ! 5; f6 = f ! 6;
          f7 = f ! 7; f8 = f ! 8; f9 = f ! 9; g0 = g ! 0; g1 = g ! 1; g2 = g ! 2; g3 = g ! 3;
          g4 = g ! 4; g5 = g ! 5; g6 = g ! 6; g7 = g ! 7; g8 = g ! 8; g9 = g ! 9;
          g1_19 = m32 19 g1; g2_19 = m32 19 g2; g3_19 = m32 19 g3; g4_19 = m32 19 g4;
          g5_19 = m32 19 g5; g6_19 = m32 19 g6; g7_19 = m32 19 g7; g8_19 = m32 19 g8;
          g9_19 = m32 19 g9; f1_2 = m32 2 f1; f3_2 = m32 2 f3; f5_2 = m32 2 f5;
          f7_2 = m32 2 f7; f9_2 = m32 2 f9
      in [
        sum64 [m64 f0 g0, m64 f1_2 g9_19, m64 f2 g8_19, m64 f3_2 g7_19, m64 f4 g6_19,
          m64 f5_2 g5_19, m64 f6 g4_19, m64 f7_2 g3_19, m64 f8 g2_19, m64 f9_2 g1_19],
        sum64 [m64 f0 g1, m64 f1 g0, m64 f2 g9_19, m64 f3 g8_19, m64 f4 g7_19, m64 f5 g6_19,
          m64 f6 g5_19, m64 f7 g4_19, m64 f8 g3_19, m64 f9 g2_19],
        sum64 [m64 f0 g2, m64 f1_2 g1, m64 f2 g0, m64 f3_2 g9_19, m64 f4 g8_19, m64 f5_2 g7_19,
          m64 f6 g6_19, m64 f7_2 g5_19, m64 f8 g4_19, m64 f9_2 g3_19],
        sum64 [m64 f0 g3, m64 f1 g2, m64 f2 g1, m64 f3 g0, m64 f4 g9_19, m64 f5 g8_19,
          m64 f6 g7_19, m64 f7 g6_19, m64 f8 g5_19, m64 f9 g4_19],
        sum64 [m64 f0 g4, m64 f1_2 g3, m64 f2 g2, m64 f3_2 g1, m64 f4 g0, m64 f5_2 g9_19,
          m64 f6 g8_19, m64 f7_2 g7_19, m64 f8 g6_19, m64 f9_2 g5_19],
        sum64 [m64 f0 g5, m64 f1 g4, m64 f2 g3, m64 f3 g2, m64 f4 g1, m64 f5 g0, m64 f6 g9_19,
          m64 f7 g8_19, m64 f8 g7_19, m64 f9 g6_19],
        sum64 [m64 f0 g6, m64 f1_2 g5, m64 f2 g4, m64 f3_2 g3, m64 f4 g2, m64 f5_2 g1, m64 f6 g0,
          m64 f7_2 g9_19, m64 f8 g8_19, m64 f9_2 g7_19],
        sum64 [m64 f0 g7, m64 f1 g6, m64 f2 g5, m64 f3 g4, m64 f4 g3, m64 f5 g2, m64 f6 g1,
          m64 f7 g0, m64 f8 g9_19, m64 f9 g8_19],
        sum64 [m64 f0 g8, m64 f1_2 g7, m64 f2 g6, m64 f3_2 g5, m64 f4 g4, m64 f5_2 g3, m64 f6 g2,
          m64 f7_2 g1, m64 f8 g0, m64 f9_2 g9_19],
        sum64 [m64 f0 g9, m64 f1 g8, m64 f2 g7, m64 f3 g6, m64 f4 g5, m64 f5 g4, m64 f6 g3,
          m64 f7 g2, m64 f8 g1, m64 f9 g0]])"

definition sq_limbs :: "int list \<Rightarrow> int list" where
  "sq_limbs f =
     (let f0 = f ! 0; f1 = f ! 1; f2 = f ! 2; f3 = f ! 3; f4 = f ! 4; f5 = f ! 5; f6 = f ! 6;
          f7 = f ! 7; f8 = f ! 8; f9 = f ! 9; f0_2 = m32 2 f0; f1_2 = m32 2 f1;
          f2_2 = m32 2 f2; f3_2 = m32 2 f3; f4_2 = m32 2 f4; f5_2 = m32 2 f5;
          f6_2 = m32 2 f6; f7_2 = m32 2 f7; f5_38 = m32 38 f5; f6_19 = m32 19 f6;
          f7_38 = m32 38 f7; f8_19 = m32 19 f8; f9_38 = m32 38 f9
      in [
        sum64 [m64 f0 f0, m64 f1_2 f9_38, m64 f2_2 f8_19, m64 f3_2 f7_38, m64 f4_2 f6_19,
          m64 f5 f5_38],
        sum64 [m64 f0_2 f1, m64 f2 f9_38, m64 f3_2 f8_19, m64 f4 f7_38, m64 f5_2 f6_19],
        sum64 [m64 f0_2 f2, m64 f1_2 f1, m64 f3_2 f9_38, m64 f4_2 f8_19, m64 f5_2 f7_38,
          m64 f6 f6_19],
        sum64 [m64 f0_2 f3, m64 f1_2 f2, m64 f4 f9_38, m64 f5_2 f8_19, m64 f6 f7_38],
        sum64 [m64 f0_2 f4, m64 f1_2 f3_2, m64 f2 f2, m64 f5_2 f9_38, m64 f6_2 f8_19, m64 f7 f7_38],
        sum64 [m64 f0_2 f5, m64 f1_2 f4, m64 f2_2 f3, m64 f6 f9_38, m64 f7_2 f8_19],
        sum64 [m64 f0_2 f6, m64 f1_2 f5_2, m64 f2_2 f4, m64 f3_2 f3, m64 f7_2 f9_38, m64 f8 f8_19],
        sum64 [m64 f0_2 f7, m64 f1_2 f6, m64 f2_2 f5, m64 f3_2 f4, m64 f8 f9_38],
        sum64 [m64 f0_2 f8, m64 f1_2 f7_2, m64 f2_2 f6, m64 f3_2 f5_2, m64 f4 f4, m64 f9 f9_38],
        sum64 [m64 f0_2 f9, m64 f1_2 f8, m64 f2_2 f7, m64 f3_2 f6, m64 f4_2 f5]])"

definition fe_mul :: "fe \<Rightarrow> fe \<Rightarrow> fe" where
  "fe_mul f g = carry_chain (mul_limbs f g)"

definition fe_sq :: "fe \<Rightarrow> fe" where
  "fe_sq f = carry_chain (sq_limbs f)"

definition fe_sq2 :: "fe \<Rightarrow> fe" where
  "fe_sq2 f = carry_chain (map (\<lambda>h. a64 h h) (sq_limbs f))"

subsection \<open>Powers\<close>

text \<open>\<open>fe_sq\<close> once and then in a loop from 1 to below \<open>n\<close>.\<close>

definition fe_sq_times :: "nat \<Rightarrow> fe \<Rightarrow> fe" where
  "fe_sq_times n f = (fe_sq ^^ n) f"

definition fe_invert :: "fe \<Rightarrow> fe" where
  "fe_invert z =
     (let t0 = fe_sq z;
          t1 = fe_sq t0;
          t1 = fe_sq t1;
          t1 = fe_mul z t1;
          t0 = fe_mul t0 t1;
          t2 = fe_sq t0;
          t1 = fe_mul t1 t2;
          t2 = fe_sq_times 5 t1;
          t1 = fe_mul t2 t1;
          t2 = fe_sq_times 10 t1;
          t2 = fe_mul t2 t1;
          t3 = fe_sq_times 20 t2;
          t2 = fe_mul t3 t2;
          t2 = fe_sq_times 10 t2;
          t1 = fe_mul t2 t1;
          t2 = fe_sq_times 50 t1;
          t2 = fe_mul t2 t1;
          t3 = fe_sq_times 100 t2;
          t2 = fe_mul t3 t2;
          t2 = fe_sq_times 50 t2;
          t1 = fe_mul t2 t1;
          t1 = fe_sq_times 5 t1
      in fe_mul t1 t0)"

definition fe_pow22523 :: "fe \<Rightarrow> fe" where
  "fe_pow22523 z =
     (let t0 = fe_sq z;
          t1 = fe_sq t0;
          t1 = fe_sq t1;
          t1 = fe_mul z t1;
          t0 = fe_mul t0 t1;
          t0 = fe_sq t0;
          t0 = fe_mul t1 t0;
          t1 = fe_sq_times 5 t0;
          t0 = fe_mul t1 t0;
          t1 = fe_sq_times 10 t0;
          t1 = fe_mul t1 t0;
          t2 = fe_sq_times 20 t1;
          t1 = fe_mul t2 t1;
          t1 = fe_sq_times 10 t1;
          t0 = fe_mul t1 t0;
          t1 = fe_sq_times 50 t0;
          t1 = fe_mul t1 t0;
          t2 = fe_sq_times 100 t1;
          t1 = fe_mul t2 t1;
          t1 = fe_sq_times 50 t1;
          t0 = fe_mul t1 t0;
          t0 = fe_sq t0;
          t0 = fe_sq t0
      in fe_mul t0 z)"

subsection \<open>Bytes\<close>

definition load_3 :: "u8 list \<Rightarrow> u64" where
  "load_3 inp = ucast (inp ! 0) OR push_bit 8 (ucast (inp ! 1)) OR push_bit 16 (ucast (inp ! 2))"

definition load_4 :: "u8 list \<Rightarrow> u64" where
  "load_4 inp =
     ucast (inp ! 0) OR push_bit 8 (ucast (inp ! 1)) OR push_bit 16 (ucast (inp ! 2)) OR
     push_bit 24 (ucast (inp ! 3))"

definition fe_frombytes :: "u8 list \<Rightarrow> fe" where
  "fe_frombytes s =
     (let h = [sint (load_4 s), sint (push_bit 6 (load_3 (drop 4 s))), sint (push_bit 5 (load_3 (drop 7 s))),
            sint (push_bit 3 (load_3 (drop 10 s))), sint (push_bit 2 (load_3 (drop 13 s))),
            sint (load_4 (drop 16 s)), sint (push_bit 7 (load_3 (drop 20 s))),
            sint (push_bit 5 (load_3 (drop 23 s))), sint (push_bit 4 (load_3 (drop 26 s))),
            sint (push_bit 2 (load_3 (drop 29 s) AND 8388607))];
          h = carry_top h;
          h = carry25 7 8 (carry25 5 6 (carry25 3 4 (carry25 1 2 h)));
          h = carry26 8 9 (carry26 6 7 (carry26 4 5 (carry26 2 3 (carry26 0 1 h))))
      in map (\<lambda>i. i32 (h ! i)) [0..<10])"

text \<open>The first step mixes \<open>int32_t\<close> with \<open>uint32_t\<close>: its shift is that of an unsigned number. The
  others shift a signed number. A byte stored is the low byte of the number.\<close>

definition tobytes_q :: "fe \<Rightarrow> int" where
  "tobytes_q h =
     (let q = ((i32 (19 * h ! 9) + 2 ^ 24) mod 2 ^ 32) div 2 ^ 25;
          q = i32 (h ! 0 + q) div 2 ^ 26;
          q = i32 (h ! 1 + q) div 2 ^ 25;
          q = i32 (h ! 2 + q) div 2 ^ 26;
          q = i32 (h ! 3 + q) div 2 ^ 25;
          q = i32 (h ! 4 + q) div 2 ^ 26;
          q = i32 (h ! 5 + q) div 2 ^ 25;
          q = i32 (h ! 6 + q) div 2 ^ 26;
          q = i32 (h ! 7 + q) div 2 ^ 25;
          q = i32 (h ! 8 + q) div 2 ^ 26
      in i32 (h ! 9 + q) div 2 ^ 25)"

definition tobytes_carry :: "nat \<Rightarrow> nat \<Rightarrow> int list \<Rightarrow> int list" where
  "tobytes_carry i k h =
     (let c = h ! i div 2 ^ k; h' = (if i < 9 then h[Suc i := i32 (h ! Suc i + c)] else h)
      in h'[i := i32 (h ! i - c * 2 ^ k)])"

definition byte_of :: "int \<Rightarrow> u8" where "byte_of x = word_of_int x"

definition tobytes_pack :: "int list \<Rightarrow> u8 list" where
  "tobytes_pack h =
     (let sh = (\<lambda>i k. h ! i div 2 ^ k); up = (\<lambda>i k. (h ! i * 2 ^ k) mod 2 ^ 32)
      in map byte_of
        [sh 0 0, sh 0 8, sh 0 16, sh 0 24 OR up 1 2, sh 1 6, sh 1 14, sh 1 22 OR up 2 3, sh 2 5,
         sh 2 13, sh 2 21 OR up 3 5, sh 3 3, sh 3 11, sh 3 19 OR up 4 6, sh 4 2, sh 4 10, sh 4 18,
         sh 5 0, sh 5 8, sh 5 16, sh 5 24 OR up 6 1, sh 6 7, sh 6 15, sh 6 23 OR up 7 3, sh 7 5,
         sh 7 13, sh 7 21 OR up 8 4, sh 8 4, sh 8 12, sh 8 20 OR up 9 6, sh 9 2, sh 9 10, sh 9 18])"

definition fe_tobytes :: "fe \<Rightarrow> u8 list" where
  "fe_tobytes h =
     tobytes_pack (tobytes_carry 9 25 (tobytes_carry 8 26 (tobytes_carry 7 25 (tobytes_carry 6 26
       (tobytes_carry 5 25 (tobytes_carry 4 26 (tobytes_carry 3 25 (tobytes_carry 2 26
         (tobytes_carry 1 25 (tobytes_carry 0 26 (h[0 := i32 (h ! 0 + i32 (19 * tobytes_q h))])))))))))))"

definition fe_isnegative :: "fe \<Rightarrow> bool" where
  "fe_isnegative f \<longleftrightarrow> fe_tobytes f ! 0 AND 1 = 1"

subsection \<open>When nothing overflows\<close>

lemma i32_id: "\<bar>x\<bar> < 2 ^ 31 \<Longrightarrow> i32 x = x"
  unfolding i32_def by (rule signed_take_bit_int_eq_self) auto

lemma i64_id: "\<bar>x\<bar> < 2 ^ 63 \<Longrightarrow> i64 x = x"
  unfolding i64_def by (rule signed_take_bit_int_eq_self) auto

lemma i64_mod [simp]: "i64 x mod 2 ^ 64 = x mod 2 ^ 64"
  using take_bit_signed_take_bit [of 64 63 x] by (simp add: i64_def take_bit_eq_mod)

lemma i64_cong: "a mod 2 ^ 64 = b mod 2 ^ 64 \<Longrightarrow> i64 a = i64 b"
  unfolding i64_def using signed_take_bit_eq_iff_take_bit_eq [of 63 a b] by (simp add: take_bit_eq_mod)

lemma sum64_from_mod: "sum64_from a (map i64 xs) mod 2 ^ 64 = (a + sum_list xs) mod 2 ^ 64"
proof (induction xs arbitrary: a)
  case (Cons x xs)
  have "(a64 a (i64 x) + sum_list xs) mod 2 ^ 64 = (a64 a (i64 x) mod 2 ^ 64 + sum_list xs) mod 2 ^ 64"
    by (simp only: mod_add_left_eq)
  also have "a64 a (i64 x) mod 2 ^ 64 = (a + i64 x mod 2 ^ 64) mod 2 ^ 64"
    unfolding a64_def i64_mod [of "a + i64 x"] by (rule mod_add_right_eq [symmetric])
  also have "\<dots> = (a + x) mod 2 ^ 64" by (metis i64_mod mod_add_right_eq)
  finally show ?case using Cons.IH by (simp only: list.map sum64_from.simps mod_add_left_eq sum_list.Cons add.assoc)
qed simp

lemma sum64_from_range: "i64 a = a \<Longrightarrow> i64 (sum64_from a xs) = sum64_from a xs"
proof (induction xs arbitrary: a)
  case (Cons x xs)
  have "i64 (a64 a x) = a64 a x" by (simp add: a64_def i64_def)
  with Cons.IH show ?case by simp
qed simp

text \<open>A sum of products, each reduced, is the sum if the sum itself is small enough.\<close>

lemma sum64_m64:
  assumes "\<bar>x * y + sum_list (map (\<lambda>(x, y). x * y) ps)\<bar> < 2 ^ 63"
  shows "sum64 (m64 x y # map (\<lambda>(x, y). m64 x y) ps) = x * y + sum_list (map (\<lambda>(x, y). x * y) ps)"
proof -
  define xs where "xs = map (\<lambda>(x, y). x * y) ps"
  have ms: "map (\<lambda>(x, y). m64 x y) ps = map i64 xs" by (auto simp: m64_def xs_def)
  have "sum64_from (i64 (x * y)) (map i64 xs) mod 2 ^ 64 = (x * y + sum_list xs) mod 2 ^ 64"
    unfolding sum64_from_mod by (metis i64_mod mod_add_left_eq)
  then have "i64 (sum64_from (i64 (x * y)) (map i64 xs)) = i64 (x * y + sum_list xs)" by (rule i64_cong)
  moreover have "i64 (sum64_from (i64 (x * y)) (map i64 xs)) = sum64_from (i64 (x * y)) (map i64 xs)"
    by (rule sum64_from_range) (simp add: i64_def)
  moreover have "i64 (x * y + sum_list xs) = x * y + sum_list xs" using assms by (intro i64_id) (simp add: xs_def)
  ultimately have "sum64_from (i64 (x * y)) (map i64 xs) = x * y + sum_list xs" by simp
  then show ?thesis unfolding ms by (simp add: sum64_def m64_def xs_def)
qed

text \<open>Bounds on the entries of a list.\<close>

definition within :: "int list \<Rightarrow> int list \<Rightarrow> bool" where
  "within B h \<longleftrightarrow> length B = 10 \<and> length h = 10 \<and> (\<forall>i < 10. \<bar>h ! i\<bar> \<le> B ! i)"

lemma carry_bounds:
  fixes x b :: int
  assumes "\<bar>x\<bar> \<le> b" "c = (x + 2 ^ k) div 2 ^ Suc k"
  shows "\<bar>c\<bar> \<le> b div 2 ^ Suc k + 1" "\<bar>x - c * 2 ^ Suc k\<bar> \<le> 2 ^ k"
proof -
  define P r where "P = c * 2 ^ Suc k" and "r = (x + 2 ^ k) mod 2 ^ Suc k"
  have "x + 2 ^ k = P + r" unfolding P_def r_def assms(2) by (simp only: div_mult_mod_eq)
  moreover have "0 \<le> r" "r < 2 * 2 ^ k" by (simp_all add: r_def)
  ultimately have "\<bar>x - P\<bar> \<le> 2 ^ k" by simp
  then show "\<bar>x - c * 2 ^ Suc k\<bar> \<le> 2 ^ k" by (simp add: P_def)
  have K: "0 < (2::int) ^ k" "(2::int) ^ Suc k = 2 * 2 ^ k" by simp_all
  have "c \<le> (b + 2 ^ Suc k) div 2 ^ Suc k"
    unfolding assms(2) by (rule zdiv_mono1) (use assms(1) K in linarith, simp)
  moreover have "(- b) div 2 ^ Suc k \<le> c"
    unfolding assms(2) by (rule zdiv_mono1) (use assms(1) K in linarith, simp)
  moreover have "- (b div 2 ^ Suc k + 1) \<le> (- b) div 2 ^ Suc k" by (simp add: zdiv_zminus1_eq_if)
  moreover have "(b + 2 ^ Suc k) div 2 ^ Suc k = b div 2 ^ Suc k + 1" by (rule div_add_self2) simp
  ultimately show "\<bar>c\<bar> \<le> b div 2 ^ Suc k + 1" by linarith
qed


lemma withinD: "within B h \<Longrightarrow> i < 10 \<Longrightarrow> \<bar>h ! i\<bar> \<le> B ! i" "within B h \<Longrightarrow> length h = 10"
  by (simp_all add: within_def)

text \<open>One carry with room: the exact effect and the new bounds.\<close>

lemma carry_step:
  assumes "within B h" "i < 10" "j < 10" "i \<noteq> j" "B ! i < 2 ^ 62" "B ! j < 2 ^ 62" "16 \<le> k" "k < 32"
    "\<bar>q\<bar> \<le> 19"
  defines "c \<equiv> (h ! i + 2 ^ k) div 2 ^ Suc k"
  shows "a64 (h ! i) (2 ^ k) = h ! i + 2 ^ k" "a64 (h ! j) (m64 c q) = h ! j + c * q" "m64 c q = c * q"
    "m64 c (2 ^ Suc k) = c * 2 ^ Suc k" "s64 (h ! i) (c * 2 ^ Suc k) = h ! i - c * 2 ^ Suc k"
    "within (B[j := B ! j + (B ! i div 2 ^ Suc k + 1) * \<bar>q\<bar>, i := 2 ^ k]) (h[j := h ! j + c * q, i := h ! i - c * 2 ^ Suc k])"
proof -
  note b = withinD(1) [OF assms(1,2)] withinD(1) [OF assms(1,3)]
  have c: "\<bar>c\<bar> \<le> B ! i div 2 ^ Suc k + 1" "\<bar>h ! i - c * 2 ^ Suc k\<bar> \<le> 2 ^ k"
    using carry_bounds [OF b(1), of c k] by (simp_all add: c_def)
  have pk: "(2::int) ^ k \<le> 2 ^ 31" "(2::int) ^ 17 \<le> 2 ^ Suc k" "0 < (2::int) ^ k"
    using assms(7,8) power_increasing [of k 31 "2::int"] power_increasing [of 17 "Suc k" "2::int"] by simp_all
  have "B ! i div 2 ^ Suc k \<le> B ! i div 2 ^ 17" using b(1) pk(2) by (intro zdiv_mono2) simp_all
  moreover have "B ! i div 2 ^ 17 < 2 ^ 45" using assms(5) by simp
  ultimately have c45: "\<bar>c\<bar> \<le> 2 ^ 45" using c(1) by linarith
  have cq: "\<bar>c * q\<bar> \<le> (B ! i div 2 ^ Suc k + 1) * \<bar>q\<bar>" "\<bar>c * q\<bar> \<le> 2 ^ 45 * 19"
    using c(1) c45 assms(9) by (simp_all only: abs_mult) (intro mult_mono; simp)+
  show m: "m64 c q = c * q" using cq(2) by (simp add: m64_def i64_id)
  show "a64 (h ! i) (2 ^ k) = h ! i + 2 ^ k" 
    unfolding a64_def
  proof (rule i64_id)
    have "\<bar>x + K\<bar> < 2 ^ 63" if "\<bar>x\<bar> \<le> y" "y < 2 ^ 62" "0 < K" "K \<le> 2 ^ 31" for x y K :: int using that by simp
    from this [OF b(1) assms(5) pk(3,1)] show "\<bar>h ! i + 2 ^ k\<bar> < 2 ^ 63" .
  qed
  show "a64 (h ! j) (m64 c q) = h ! j + c * q" unfolding m using b(2) assms(6) cq(2) by (simp add: a64_def i64_id)
  show "m64 c (2 ^ Suc k) = c * 2 ^ Suc k" "s64 (h ! i) (c * 2 ^ Suc k) = h ! i - c * 2 ^ Suc k"
  proof -
    have "\<bar>z\<bar> < 2 ^ 63 \<and> \<bar>x - z\<bar> < 2 ^ 63" if "\<bar>x\<bar> \<le> y" "y < 2 ^ 62" "\<bar>x - z\<bar> \<le> K" "K \<le> 2 ^ 31"
      for x y z K :: int using that by simp
    from this [OF b(1) assms(5) c(2) pk(1)]
    show "m64 c (2 ^ Suc k) = c * 2 ^ Suc k" "s64 (h ! i) (c * 2 ^ Suc k) = h ! i - c * 2 ^ Suc k"
      unfolding m64_def s64_def by (blast intro: i64_id)+
  qed
  show "within (B[j := B ! j + (B ! i div 2 ^ Suc k + 1) * \<bar>q\<bar>, i := 2 ^ k]) (h[j := h ! j + c * q, i := h ! i - c * 2 ^ Suc k])"
    using assms(1-4) b c(2) cq(1) by (auto simp: within_def nth_list_update)
qed

lemma carry26_step:
  assumes "within B h" "i < 10" "j < 10" "i \<noteq> j" "B ! i < 2 ^ 62" "B ! j < 2 ^ 62"
  shows "carry26 i j h = h[j := h ! j + (h ! i + 2 ^ 25) div 2 ^ 26, i := h ! i - (h ! i + 2 ^ 25) div 2 ^ 26 * 2 ^ 26]"
    "within (B[j := B ! j + (B ! i div 2 ^ 26 + 1), i := 2 ^ 25]) (carry26 i j h)"
  using carry_step [OF assms, of 25 1] by (simp_all add: carry26_def Let_def m64_def)

lemma carry25_step:
  assumes "within B h" "i < 10" "j < 10" "i \<noteq> j" "B ! i < 2 ^ 62" "B ! j < 2 ^ 62"
  shows "carry25 i j h = h[j := h ! j + (h ! i + 2 ^ 24) div 2 ^ 25, i := h ! i - (h ! i + 2 ^ 24) div 2 ^ 25 * 2 ^ 25]"
    "within (B[j := B ! j + (B ! i div 2 ^ 25 + 1), i := 2 ^ 24]) (carry25 i j h)"
  using carry_step [OF assms, of 24 1] by (simp_all add: carry25_def Let_def m64_def)

lemma carry_top_step:
  assumes "within B h" "B ! 9 < 2 ^ 62" "B ! 0 < 2 ^ 62"
  shows "carry_top h = h[0 := h ! 0 + (h ! 9 + 2 ^ 24) div 2 ^ 25 * 19, 9 := h ! 9 - (h ! 9 + 2 ^ 24) div 2 ^ 25 * 2 ^ 25]"
    "within (B[0 := B ! 0 + (B ! 9 div 2 ^ 25 + 1) * 19, 9 := 2 ^ 24]) (carry_top h)"
  using carry_step [OF assms(1) _ _ _ assms(2,3), of 24 19] by (simp_all add: carry_top_def Let_def)

subsection \<open>Values\<close>

definition p25519 :: int where "p25519 = 2 ^ 255 - 19"

definition limb_weights :: "nat list" where "limb_weights = [0, 26, 51, 77, 102, 128, 153, 179, 204, 230]"

definition fe_val :: "int list \<Rightarrow> int" where
  "fe_val h = (\<Sum>i < 10. h ! i * 2 ^ (limb_weights ! i))"

lemma fe_val_eq:
  "fe_val h = h ! 0 + h ! 1 * 2 ^ 26 + h ! 2 * 2 ^ 51 + h ! 3 * 2 ^ 77 + h ! 4 * 2 ^ 102 + h ! 5 * 2 ^ 128
     + h ! 6 * 2 ^ 153 + h ! 7 * 2 ^ 179 + h ! 8 * 2 ^ 204 + h ! 9 * 2 ^ 230"
  by (simp add: fe_val_def limb_weights_def lessThan_nat_numeral lessThan_Suc)

lemma fe_val_update:
  assumes "length h = 10" "i < 10"
  shows "fe_val (h[i := x]) = fe_val h + (x - h ! i) * 2 ^ (limb_weights ! i)"
proof -
  have "fe_val (h[i := x]) = (\<Sum>k < 10. h ! k * 2 ^ (limb_weights ! k) + (if k = i then (x - h ! i) * 2 ^ (limb_weights ! i) else 0))"
    unfolding fe_val_def using assms by (intro sum.cong) (auto simp: nth_list_update algebra_simps)
  also have "\<dots> = fe_val h + (x - h ! i) * 2 ^ (limb_weights ! i)"
    using assms(2) by (simp add: sum.distrib fe_val_def)
  finally show ?thesis .
qed

lemma fe_val_carry:
  assumes "length h = 10" "i < 10" "j < 10" "i \<noteq> j"
  shows "fe_val (h[j := h ! j + d, i := h ! i - e]) =
    fe_val h + d * 2 ^ (limb_weights ! j) - e * 2 ^ (limb_weights ! i)"
  using assms by (simp add: fe_val_update)

text \<open>Carries keep the value, up to the modulus for the carry out of the top limb.\<close>

lemma carry26_val:
  assumes "within B h" "i < 10" "j < 10" "i \<noteq> j" "B ! i < 2 ^ 62" "B ! j < 2 ^ 62"
    "limb_weights ! j = 26 + limb_weights ! i"
  shows "fe_val (carry26 i j h) = fe_val h"
  unfolding carry26_step(1) [OF assms(1-6)] using fe_val_carry [OF withinD(2) [OF assms(1)] assms(2-4)] assms(7)
  by (simp add: power_add)

lemma carry25_val:
  assumes "within B h" "i < 10" "j < 10" "i \<noteq> j" "B ! i < 2 ^ 62" "B ! j < 2 ^ 62"
    "limb_weights ! j = 25 + limb_weights ! i"
  shows "fe_val (carry25 i j h) = fe_val h"
  unfolding carry25_step(1) [OF assms(1-6)] using fe_val_carry [OF withinD(2) [OF assms(1)] assms(2-4)] assms(7)
  by (simp add: power_add)

lemma carry_top_val:
  assumes "within B h" "B ! 9 < 2 ^ 62" "B ! 0 < 2 ^ 62"
  shows "fe_val (carry_top h) mod p25519 = fe_val h mod p25519"
proof -
  have "fe_val (carry_top h) = fe_val h - (h ! 9 + 2 ^ 24) div 2 ^ 25 * p25519"
    unfolding carry_top_step(1) [OF assms] using withinD(2) [OF assms(1)]
    by (simp add: fe_val_carry limb_weights_def p25519_def algebra_simps)
  then show ?thesis using mod_mult_self1 [of "fe_val h" "- ((h ! 9 + 2 ^ 24) div 2 ^ 25)" p25519] by simp
qed

text \<open>What the header comments call bounded by \<open>1.01 * 2 ^ 25, 1.01 * 2 ^ 24, ...\<close> and by
  \<open>1.65 * 2 ^ 26, 1.65 * 2 ^ 25, ...\<close>.\<close>

definition reduced :: "int list" where
  "reduced = [33889976, 16944988, 33889976, 16944988, 33889976, 16944988, 33889976, 16944988, 33889976, 16944988]"

definition loose :: "int list" where
  "loose = [110729625, 55364812, 110729625, 55364812, 110729625, 55364812, 110729625, 55364812, 110729625, 55364812]"

lemma within_mono: "within B h \<Longrightarrow> list_all2 (\<le>) B B' \<Longrightarrow> within B' h"
  by (auto simp: within_def list_all2_conv_all_nth intro: order_trans)

lemma less_ten: "i < 10 \<Longrightarrow> i \<in> {0, 1, 2, 3, 4, 5, 6, 7, 8, 9}" for i :: nat
  unfolding insert_iff empty_iff by presburger

lemma carry_chain_ok:
  assumes "within (replicate 10 3100000000000000000) h"
  shows "within reduced (carry_chain h) \<and> fe_val (carry_chain h) mod p25519 = fe_val h mod p25519"
proof -
  have assms0: "within [3100000000000000000, 3100000000000000000, 3100000000000000000, 3100000000000000000, 3100000000000000000, 3100000000000000000, 3100000000000000000, 3100000000000000000, 3100000000000000000, 3100000000000000000] h" using assms by (simp add: numeral_eq_Suc)
  define h1 where "h1 = carry26 0 1 h"
  have w1: "within [33554432, 3100000046193599701, 3100000000000000000, 3100000000000000000, 3100000000000000000, 3100000000000000000, 3100000000000000000, 3100000000000000000, 3100000000000000000, 3100000000000000000] h1"
    using carry26_step(2) [OF assms0, of 0 1] by (simp add: h1_def)
  have v1: "fe_val h1 mod p25519 = fe_val h mod p25519"
    using carry26_val [OF assms0, of 0 1] by (simp add: h1_def limb_weights_def)
  define h2 where "h2 = carry26 4 5 h1"
  have w2: "within [33554432, 3100000046193599701, 3100000000000000000, 3100000000000000000, 33554432, 3100000046193599701, 3100000000000000000, 3100000000000000000, 3100000000000000000, 3100000000000000000] h2"
    using carry26_step(2) [OF w1, of 4 5] by (simp add: h2_def)
  have v2: "fe_val h2 mod p25519 = fe_val h1 mod p25519"
    using carry26_val [OF w1, of 4 5] by (simp add: h2_def limb_weights_def)
  define h3 where "h3 = carry25 1 2 h2"
  have w3: "within [33554432, 16777216, 3100000092387200779, 3100000000000000000, 33554432, 3100000046193599701, 3100000000000000000, 3100000000000000000, 3100000000000000000, 3100000000000000000] h3"
    using carry25_step(2) [OF w2, of 1 2] by (simp add: h3_def)
  have v3: "fe_val h3 mod p25519 = fe_val h2 mod p25519"
    using carry25_val [OF w2, of 1 2] by (simp add: h3_def limb_weights_def)
  define h4 where "h4 = carry25 5 6 h3"
  have w4: "within [33554432, 16777216, 3100000092387200779, 3100000000000000000, 33554432, 16777216, 3100000092387200779, 3100000000000000000, 3100000000000000000, 3100000000000000000] h4"
    using carry25_step(2) [OF w3, of 5 6] by (simp add: h4_def)
  have v4: "fe_val h4 mod p25519 = fe_val h3 mod p25519"
    using carry25_val [OF w3, of 5 6] by (simp add: h4_def limb_weights_def)
  define h5 where "h5 = carry26 2 3 h4"
  have w5: "within [33554432, 16777216, 33554432, 3100000046193601078, 33554432, 16777216, 3100000092387200779, 3100000000000000000, 3100000000000000000, 3100000000000000000] h5"
    using carry26_step(2) [OF w4, of 2 3] by (simp add: h5_def)
  have v5: "fe_val h5 mod p25519 = fe_val h4 mod p25519"
    using carry26_val [OF w4, of 2 3] by (simp add: h5_def limb_weights_def)
  define h6 where "h6 = carry26 6 7 h5"
  have w6: "within [33554432, 16777216, 33554432, 3100000046193601078, 33554432, 16777216, 33554432, 3100000046193601078, 3100000000000000000, 3100000000000000000] h6"
    using carry26_step(2) [OF w5, of 6 7] by (simp add: h6_def)
  have v6: "fe_val h6 mod p25519 = fe_val h5 mod p25519"
    using carry26_val [OF w5, of 6 7] by (simp add: h6_def limb_weights_def)
  define h7 where "h7 = carry25 3 4 h6"
  have w7: "within [33554432, 16777216, 33554432, 16777216, 92420755211, 16777216, 33554432, 3100000046193601078, 3100000000000000000, 3100000000000000000] h7"
    using carry25_step(2) [OF w6, of 3 4] by (simp add: h7_def)
  have v7: "fe_val h7 mod p25519 = fe_val h6 mod p25519"
    using carry25_val [OF w6, of 3 4] by (simp add: h7_def limb_weights_def)
  define h8 where "h8 = carry25 7 8 h7"
  have w8: "within [33554432, 16777216, 33554432, 16777216, 92420755211, 16777216, 33554432, 16777216, 3100000092387200779, 3100000000000000000] h8"
    using carry25_step(2) [OF w7, of 7 8] by (simp add: h8_def)
  have v8: "fe_val h8 mod p25519 = fe_val h7 mod p25519"
    using carry25_val [OF w7, of 7 8] by (simp add: h8_def limb_weights_def)
  define h9 where "h9 = carry26 4 5 h8"
  have w9: "within [33554432, 16777216, 33554432, 16777216, 33554432, 16778594, 33554432, 16777216, 3100000092387200779, 3100000000000000000] h9"
    using carry26_step(2) [OF w8, of 4 5] by (simp add: h9_def)
  have v9: "fe_val h9 mod p25519 = fe_val h8 mod p25519"
    using carry26_val [OF w8, of 4 5] by (simp add: h9_def limb_weights_def)
  define h10 where "h10 = carry26 8 9 h9"
  have w10: "within [33554432, 16777216, 33554432, 16777216, 33554432, 16778594, 33554432, 16777216, 33554432, 3100000046193601078] h10"
    using carry26_step(2) [OF w9, of 8 9] by (simp add: h10_def)
  have v10: "fe_val h10 mod p25519 = fe_val h9 mod p25519"
    using carry26_val [OF w9, of 8 9] by (simp add: h10_def limb_weights_def)
  define h11 where "h11 = carry_top h10"
  have w11: "within [1755390369233, 16777216, 33554432, 16777216, 33554432, 16778594, 33554432, 16777216, 33554432, 16777216] h11"
    using carry_top_step(2) [OF w10] by (simp add: h11_def)
  have v11: "fe_val h11 mod p25519 = fe_val h10 mod p25519"
    using carry_top_val [OF w10] by (simp add: h11_def limb_weights_def)
  define h12 where "h12 = carry26 0 1 h11"
  have w12: "within [33554432, 16803374, 33554432, 16777216, 33554432, 16778594, 33554432, 16777216, 33554432, 16777216] h12"
    using carry26_step(2) [OF w11, of 0 1] by (simp add: h12_def)
  have v12: "fe_val h12 mod p25519 = fe_val h11 mod p25519"
    using carry26_val [OF w11, of 0 1] by (simp add: h12_def limb_weights_def)
  have "carry_chain h = map (\<lambda>i. i32 (h12 ! i)) [0..<10]"
    by (simp add: carry_chain_def Let_def h1_def h2_def h3_def h4_def h5_def h6_def h7_def h8_def h9_def
        h10_def h11_def h12_def)
  also have "\<dots> = h12"
  proof (rule nth_equalityI)
    show "map (\<lambda>i. i32 (h12 ! i)) [0..<10] ! i = h12 ! i" if "i < length (map (\<lambda>i. i32 (h12 ! i)) [0..<10])" for i
      using that less_ten [of i] withinD(1) [OF w12, of i] by (auto intro!: i32_id)
  qed (simp add: withinD [OF w12])
  finally have eq: "carry_chain h = h12" .
  have "within reduced h12" using w12 by (rule within_mono) (simp add: reduced_def)
  then show ?thesis unfolding eq using v1 v2 v3 v4 v5 v6 v7 v8 v9 v10 v11 v12 by simp
qed

subsection \<open>Products\<close>

text \<open>The schoolbook product modulo \<open>2 ^ 255 - 19\<close>: the product of two odd limbs counts twice, as their
  weights round up twice, and a product at or above \<open>2 ^ 255\<close> counts 19 times.\<close>

definition mul_coef :: "nat \<Rightarrow> nat \<Rightarrow> int" where
  "mul_coef i j = (if odd i \<and> odd j then 2 else 1) * (if i + j < 10 then 1 else 19)"

definition mul_ref :: "int list \<Rightarrow> int list \<Rightarrow> nat \<Rightarrow> int" where
  "mul_ref f g k =
     (\<Sum>i < 10. let j = (if i \<le> k then k - i else 10 + k - i) in mul_coef i j * (f ! i * g ! j))"

lemma i64_add_simps: "i64 (i64 a + b) = i64 (a + b)" "i64 (a + i64 b) = i64 (a + b)"
  by (rule i64_cong, metis i64_mod mod_add_left_eq, rule i64_cong, metis i64_mod mod_add_right_eq)

lemma loose_eq:
  assumes "within loose f"
  shows "\<And>i. i < 10 \<Longrightarrow> m32 2 (f ! i) = 2 * f ! i" "\<And>i. i < 10 \<Longrightarrow> m32 19 (f ! i) = 19 * f ! i"
    "\<And>i. i < 10 \<Longrightarrow> odd i \<Longrightarrow> m32 38 (f ! i) = 38 * f ! i"
proof -
  have b: "\<bar>f ! i\<bar> \<le> 110729625" "odd i \<Longrightarrow> \<bar>f ! i\<bar> \<le> 55364812" if "i < 10" for i :: nat
    using withinD(1) [OF assms that] less_ten [OF that] by (auto simp: loose_def)
  show "m32 2 (f ! i) = 2 * f ! i" "m32 19 (f ! i) = 19 * f ! i" if "i < 10" for i :: nat
    using b(1) [OF that] by (simp_all add: m32_def i32_id)
  show "m32 38 (f ! i) = 38 * f ! i" if "i < 10" "odd i" for i
    using b(2) [OF that] by (simp add: m32_def i32_id)
qed

lemma sum_10: "(\<Sum>i < 10. F i) = F 0 + F 1 + F 2 + F 3 + F 4 + F 5 + F 6 + F 7 + F 8 + F (9::nat)" for F :: "nat \<Rightarrow> int"
  by (simp add: lessThan_nat_numeral lessThan_Suc)

lemma upt_10: "[0..<10] = [0, 1, 2, 3, 4, 5, 6, 7, 8, 9 :: nat]"
  by (simp add: upt_rec)

lemma mul_limbs_eq:
  assumes "within loose f" "within loose g"
  shows "mul_limbs f g = map (\<lambda>k. i64 (mul_ref f g k)) [0..<10]"
  unfolding upt_10 list.map mul_limbs_def Let_def
  by (simp only: sum64_def list.sel sum64_from.simps m64_def a64_def i64_add_simps)
    (simp add: loose_eq [OF assms(1)] loose_eq [OF assms(2)] mul_ref_def sum_10 mul_coef_def mult_ac)


lemma mul_ref_bound:
  assumes "within loose f" "within loose g" "k < 10"
  shows "\<bar>mul_ref f g k\<bar> \<le> 1550000000000000000"
proof -
  let ?j = "\<lambda>i. if i \<le> k then k - i else 10 + k - i"
  have j: "?j i < 10" if "i < 10" for i using that assms(3) by auto
  have "\<bar>mul_ref f g k\<bar> \<le> (\<Sum>i < 10. \<bar>mul_coef i (?j i) * (f ! i * g ! ?j i)\<bar>)"
    unfolding mul_ref_def Let_def by (rule sum_abs)
  also have "\<dots> \<le> (\<Sum>i < 10. mul_coef i (?j i) * (loose ! i * loose ! ?j i))"
  proof (rule sum_mono)
    fix i :: nat assume "i \<in> {..<10}"
    then have i: "i < 10" by simp
    have "\<bar>f ! i\<bar> * \<bar>g ! ?j i\<bar> \<le> loose ! i * loose ! ?j i"
      using withinD(1) [OF assms(1) i] withinD(1) [OF assms(2) j [OF i]] by (intro mult_mono) auto
    then show "\<bar>mul_coef i (?j i) * (f ! i * g ! ?j i)\<bar> \<le> mul_coef i (?j i) * (loose ! i * loose ! ?j i)"
      by (simp add: abs_mult mul_coef_def)
  qed
  also have "\<dots> \<le> 1550000000000000000"
    using less_ten [OF assms(3)] by (elim insertE) (simp_all add: sum_10 mul_coef_def loose_def)
  finally show ?thesis .
qed

text \<open>The weights of two limbs add up to the weight of the limb that receives their product.\<close>

lemma weights_add:
  assumes "i < 10" "j < 10"
  shows "limb_weights ! i + limb_weights ! j =
    limb_weights ! (if i + j < 10 then i + j else i + j - 10) + (if odd i \<and> odd j then 1 else 0) + (if i + j < 10 then 0 else 255)"
  using less_ten [OF assms(1)] less_ten [OF assms(2)] by (elim insertE) (simp_all add: limb_weights_def)

lemma mul_ref_val:
  "(\<Sum>k < 10. mul_ref f g k * 2 ^ (limb_weights ! k)) mod p25519 = (fe_val f * fe_val g) mod p25519"
proof -
  let ?j = "\<lambda>i k. if i \<le> k then k - i else 10 + k - i" and ?w = "\<lambda>k. (2::int) ^ (limb_weights ! k)"
  define e :: "nat \<Rightarrow> nat \<Rightarrow> int" where "e i j = (if odd i \<and> odd j then 2 else 1)" for i j
  define hi where "hi k = (\<Sum>i < 10. if i \<le> k then 0 else e i (?j i k) * (f ! i * g ! ?j i k))" for k
  have bij: "bij_betw (?j i) {..<10} {..<10}" if "i < 10" for i :: nat
    using that by (intro bij_betw_byWitness [where f' = "\<lambda>j. if i + j < 10 then i + j else i + j - 10"]) auto
  have cell: "(mul_coef i (?j i k) * (f ! i * g ! ?j i k) +
      (if i \<le> k then 0 else e i (?j i k) * (f ! i * g ! ?j i k)) * p25519) * ?w k = f ! i * ?w i * (g ! ?j i k * ?w (?j i k))"
    if "i < 10" "k < 10" for i k
  proof -
    have "?j i k < 10" using that by auto
    from weights_add [OF that(1) this] have "?w i * ?w (?j i k) = (if i \<le> k then 1 else 2 ^ 255) * e i (?j i k) * ?w k"
      using that by (simp add: e_def flip: power_add) (auto simp: power_add)
    then show ?thesis using that by (auto simp: mul_coef_def e_def p25519_def algebra_simps)
  qed
  define A B where "A i k = mul_coef i (?j i k) * (f ! i * g ! ?j i k)"
    and "B i k = (if i \<le> k then 0 else e i (?j i k) * (f ! i * g ! ?j i k))" for i k
  have AB: "mul_ref f g k = (\<Sum>i < 10. A i k)" "hi k = (\<Sum>i < 10. B i k)" for k
    by (simp_all add: mul_ref_def hi_def A_def B_def Let_def)
  have "(\<Sum>k < 10. mul_ref f g k * ?w k) + (\<Sum>k < 10. hi k * ?w k) * p25519 =
      (\<Sum>k < 10. \<Sum>i < 10. (A i k + B i k * p25519) * ?w k)"
    by (simp add: AB sum_distrib_left sum.distrib distrib_left mult_ac)
  also have "\<dots> = (\<Sum>k < 10. \<Sum>i < 10. f ! i * ?w i * (g ! ?j i k * ?w (?j i k)))"
    unfolding A_def B_def by (intro sum.cong refl cell) simp_all
  also have "\<dots> = (\<Sum>i < 10. \<Sum>k < 10. f ! i * ?w i * (g ! ?j i k * ?w (?j i k)))" by (rule sum.swap)
  also have "\<dots> = (\<Sum>i < 10. \<Sum>j < 10. f ! i * ?w i * (g ! j * ?w j))"
    by (intro sum.cong refl sum.reindex_bij_betw [OF bij, where g = "\<lambda>j. f ! i * ?w i * (g ! j * ?w j)" for i]) simp
  also have "\<dots> = fe_val f * fe_val g" by (simp add: fe_val_def sum_product)
  finally have "fe_val f * fe_val g = (\<Sum>k < 10. mul_ref f g k * ?w k) + (\<Sum>k < 10. hi k * ?w k) * p25519" by simp
  then show ?thesis by simp
qed

lemma mul_limbs_ok:
  assumes "within loose f" "within loose g"
  shows "within (replicate 10 1550000000000000000) (map (\<lambda>k. i64 (mul_ref f g k)) [0..<10])"
    "fe_val (map (\<lambda>k. i64 (mul_ref f g k)) [0..<10]) mod p25519 = (fe_val f * fe_val g) mod p25519"
proof -
  have id: "i64 (mul_ref f g k) = mul_ref f g k" if "k < 10" for k
    using mul_ref_bound [OF assms that] by (intro i64_id) simp
  show "within (replicate 10 1550000000000000000) (map (\<lambda>k. i64 (mul_ref f g k)) [0..<10])"
    using mul_ref_bound [OF assms] by (simp add: within_def id)
  have "fe_val (map (\<lambda>k. i64 (mul_ref f g k)) [0..<10]) = (\<Sum>k < 10. mul_ref f g k * 2 ^ (limb_weights ! k))"
    unfolding fe_val_def by (intro sum.cong) (simp_all add: id)
  then show "fe_val (map (\<lambda>k. i64 (mul_ref f g k)) [0..<10]) mod p25519 = (fe_val f * fe_val g) mod p25519"
    by (simp only: mul_ref_val)
qed

lemma fe_mul_ok:
  assumes "within loose f" "within loose g"
  shows "within reduced (fe_mul f g)" "fe_val (fe_mul f g) mod p25519 = (fe_val f * fe_val g) mod p25519"
proof -
  have "within (replicate 10 3100000000000000000) (mul_limbs f g)"
    unfolding mul_limbs_eq [OF assms] using mul_limbs_ok(1) [OF assms]
    by (rule within_mono) (simp add: list_all2_conv_all_nth)
  from carry_chain_ok [OF this] mul_limbs_ok(2) [OF assms]
  show "within reduced (fe_mul f g)" "fe_val (fe_mul f g) mod p25519 = (fe_val f * fe_val g) mod p25519"
    by (simp_all add: fe_mul_def mul_limbs_eq [OF assms])
qed

lemma sq_limbs_eq:
  assumes "within loose f"
  shows "sq_limbs f = map (\<lambda>k. i64 (mul_ref f f k)) [0..<10]"
  unfolding upt_10 list.map sq_limbs_def Let_def
  by (simp only: sum64_def list.sel sum64_from.simps m64_def a64_def i64_add_simps)
    (simp add: loose_eq [OF assms] mul_ref_def sum_10 mul_coef_def ac_simps)

lemma fe_sq_mul: "within loose f \<Longrightarrow> fe_sq f = fe_mul f f"
  by (simp add: fe_sq_def fe_mul_def sq_limbs_eq mul_limbs_eq)


text \<open>Powers of one element, each in reduced form.\<close>

definition power_of :: "fe \<Rightarrow> nat \<Rightarrow> fe \<Rightarrow> bool" where
  "power_of z n f \<longleftrightarrow> within loose f \<and> fe_val f mod p25519 = fe_val z ^ n mod p25519"

lemma reduced_loose: "within reduced f \<Longrightarrow> within loose f"
  by (erule within_mono) (simp add: reduced_def loose_def)

lemma power_of_mul: "power_of z m f \<Longrightarrow> power_of z n g \<Longrightarrow> power_of z (m + n) (fe_mul f g)"
  using fe_mul_ok [of f g] mod_mult_cong [of "fe_val f" p25519 "fe_val z ^ m" "fe_val g" "fe_val z ^ n"]
  by (simp add: power_of_def reduced_loose power_add)

lemma power_of_sq: "power_of z m f \<Longrightarrow> power_of z (2 * m) (fe_sq f)"
  using power_of_mul [of z m f m f] by (simp add: fe_sq_mul power_of_def mult_2)

lemma power_of_sq_times: "power_of z m f \<Longrightarrow> power_of z (2 ^ n * m) (fe_sq_times n f)"
proof (induction n)
  case (Suc n)
  then show ?case using power_of_sq [of z "2 ^ n * m" "fe_sq_times n f"] by (simp add: fe_sq_times_def mult.assoc)
qed (simp add: fe_sq_times_def)

lemmas power_of_rules = power_of_mul power_of_sq power_of_sq_times

definition tight :: "int list" where
  "tight = [36909875, 18454937, 36909875, 18454937, 36909875, 18454937, 36909875, 18454937, 36909875, 18454937]"

lemma tight_nth: "within tight f \<Longrightarrow> i < 10 \<Longrightarrow> \<bar>f ! i\<bar> \<le> 36909875 \<and> (odd i \<longrightarrow> \<bar>f ! i\<bar> \<le> 18454937)"
  using withinD(1) [of tight f i] less_ten [of i] by (auto simp: tight_def)

lemma loose_nth: "i < 10 \<Longrightarrow> loose ! i = (if odd i then 55364812 else 110729625)"
  "i < 10 \<Longrightarrow> tight ! i = (if odd i then 18454937 else 36909875)"
  using less_ten [of i] by (auto simp: loose_def tight_def)

lemma limbs_ok:
  assumes "\<And>i. i < 10 \<Longrightarrow> \<bar>F i\<bar> \<le> B ! i" "length B = 10" "\<And>i. i < 10 \<Longrightarrow> B ! i < 2 ^ 31"
  shows "within B (map (\<lambda>i. i32 (F i)) [0..<10])"
    "fe_val (map (\<lambda>i. i32 (F i)) [0..<10]) = (\<Sum>i < 10. F i * 2 ^ (limb_weights ! i))"
proof -
  have id: "i32 (F i) = F i" if "i < 10" for i using assms(1,3) [OF that] by (intro i32_id) simp
  show "within B (map (\<lambda>i. i32 (F i)) [0..<10])" using assms(1,2) by (simp add: within_def id)
  show "fe_val (map (\<lambda>i. i32 (F i)) [0..<10]) = (\<Sum>i < 10. F i * 2 ^ (limb_weights ! i))"
    unfolding fe_val_def by (intro sum.cong) (simp_all add: id)
qed

lemma lengths: "length loose = 10" "length tight = 10"
  by (simp_all add: loose_def tight_def)

lemma fe_add_ok:
  assumes "within tight f" "within tight g"
  shows "within loose (fe_add f g)" "fe_val (fe_add f g) = fe_val f + fe_val g"
proof -
  have "\<bar>f ! i + g ! i\<bar> \<le> loose ! i" if "i < 10" for i
    using tight_nth [OF assms(1) that] tight_nth [OF assms(2) that] that by (auto simp: loose_nth)
  from limbs_ok [OF this lengths(1)] show "within loose (fe_add f g)" "fe_val (fe_add f g) = fe_val f + fe_val g"
    by (simp_all add: fe_add_def loose_nth, simp add: fe_val_def distrib_right sum.distrib)
qed

lemma fe_sub_ok:
  assumes "within tight f" "within tight g"
  shows "within loose (fe_sub f g)" "fe_val (fe_sub f g) = fe_val f - fe_val g"
proof -
  have "\<bar>f ! i - g ! i\<bar> \<le> loose ! i" if "i < 10" for i
    using tight_nth [OF assms(1) that] tight_nth [OF assms(2) that] that by (auto simp: loose_nth)
  from limbs_ok [OF this lengths(1)] show "within loose (fe_sub f g)" "fe_val (fe_sub f g) = fe_val f - fe_val g"
    by (simp_all add: fe_sub_def loose_nth, simp add: fe_val_def left_diff_distrib sum_subtractf)
qed

lemma fe_neg_ok:
  assumes "within tight f"
  shows "within tight (fe_neg f)" "fe_val (fe_neg f) = - fe_val f"
proof -
  have "\<bar>- (f ! i)\<bar> \<le> tight ! i" if "i < 10" for i
    using withinD(1) [OF assms that] by simp
  from limbs_ok [OF this lengths(2)] show "within tight (fe_neg f)" "fe_val (fe_neg f) = - fe_val f"
    by (simp_all add: fe_neg_def loose_nth, simp add: fe_val_def sum_negf)
qed

lemma fe_cmov_ok:
  assumes "length f = 10" "length g = 10"
  shows "fe_cmov f g 0 = f" "fe_cmov f g 1 = g"
proof -
  have m1: "sint (- 1 :: u32) = - 1" by simp
  show "fe_cmov f g 0 = f" using assms by (intro nth_equalityI) (simp_all add: fe_cmov_def)
  show "fe_cmov f g 1 = g"
    using assms by (intro nth_equalityI) (simp_all add: fe_cmov_def m1 flip: xor.assoc)
qed

subsection \<open>Properties\<close>

text \<open>Addition, subtraction and negation are those of the integers the limbs stand for, without
  overflow, on limbs within \<open>1.1 * 2 ^ 25\<close> and \<open>1.1 * 2 ^ 24\<close>, and their results may be multiplied;
  the constants are 0 and 1; a conditional move takes one of its arguments.\<close>

theorem fe_linear_correct:
  assumes "within tight f" "within tight g"
  shows "fe_val (fe_add f g) = fe_val f + fe_val g \<and> within loose (fe_add f g) \<and>
    fe_val (fe_sub f g) = fe_val f - fe_val g \<and> within loose (fe_sub f g) \<and>
    fe_val (fe_neg f) = - fe_val f \<and> within tight (fe_neg f) \<and> fe_val fe_0 = 0 \<and> fe_val fe_1 = 1 \<and>
    fe_cmov f g 0 = f \<and> fe_cmov f g 1 = g"
  using fe_add_ok [OF assms] fe_sub_ok [OF assms] fe_neg_ok [OF assms(1)] fe_cmov_ok [of f g] assms
  by (simp add: fe_val_eq fe_0_def fe_1_def withinD numeral_eq_Suc)

text \<open>(C8) On limbs within the bounds the code states (\<open>1.65 * 2 ^ 26\<close> and \<open>1.65 * 2 ^ 25\<close> in turn) the
  multiplication in machine integers overflows nowhere: it is the product modulo
  \<open>2 ^ 255 - 19\<close>, its limbs are within \<open>1.01 * 2 ^ 25\<close> and \<open>1.01 * 2 ^ 24\<close>, and the specialised
  squaring gives the same limbs.\<close>

theorem fe_mul_correct:
  assumes "within loose f" "within loose g"
  shows "fe_val (fe_mul f g) mod p25519 = (fe_val f * fe_val g) mod p25519 \<and>
    within reduced (fe_mul f g) \<and> fe_sq f = fe_mul f f"
  using fe_mul_ok [OF assms] fe_sq_mul [OF assms(1)] by simp

text \<open>The addition chains of \<open>fe_invert\<close> and \<open>fe_pow22523\<close> compute the powers \<open>2 ^ 255 - 21\<close>, which
  is \<open>p - 2\<close> and so the exponent of the inverse, and \<open>2 ^ 252 - 3\<close>, and keep the limbs in bounds.\<close>

theorem fe_invert_power:
  assumes "within loose z"
  shows "fe_val (fe_invert z) mod p25519 = fe_val z ^ (2 ^ 255 - 21) mod p25519 \<and> within loose (fe_invert z) \<and>
    fe_val (fe_pow22523 z) mod p25519 = fe_val z ^ (2 ^ 252 - 3) mod p25519 \<and> within loose (fe_pow22523 z)"
proof -
  have z: "power_of z 1 z" using assms by (simp add: power_of_def)
  have "\<exists>n. power_of z n (fe_invert z) \<and> n = 2 ^ 255 - 21"
    unfolding fe_invert_def Let_def by (intro exI conjI, (rule power_of_rules z)+) simp
  moreover have "\<exists>n. power_of z n (fe_pow22523 z) \<and> n = 2 ^ 252 - 3"
    unfolding fe_pow22523_def Let_def by (intro exI conjI, (rule power_of_rules z)+) simp
  ultimately show ?thesis by (auto simp: power_of_def)
qed


text \<open>The bytes of a number, least significant first.\<close>

definition le_val :: "u8 list \<Rightarrow> int" where
  "le_val s = (\<Sum>i < length s. uint (s ! i) * 2 ^ (8 * i))"

definition edge_element :: fe where "edge_element = [0, 0, 0, 0, 0, 0, 0, 0, 0, - 33554432]"

lemma edge_bytes: "fe_tobytes edge_element = 0xed # replicate 30 0xff @ [0x7f]"
  by code_simp

text \<open>Within the bounds its comment states, \<open>fe_tobytes\<close> can store the wrong number: the element
  with \<open>- 2 ^ 25\<close> in the top limb and zeros below is \<open>p - 19\<close> modulo \<open>p\<close>, and the bytes stored are
  those of \<open>p\<close> itself.\<close>

theorem fe_tobytes_wrong:
  "\<bar>edge_element ! 9\<bar> \<le> 36909875 \<and> fe_val edge_element mod p25519 = p25519 - 19 \<and>
   le_val (fe_tobytes edge_element) = p25519"
proof (intro conjI)
  show "le_val (fe_tobytes edge_element) = p25519"
    unfolding edge_bytes by (simp add: le_val_def p25519_def lessThan_nat_numeral lessThan_Suc nth_append)
  show "fe_val edge_element mod p25519 = p25519 - 19"
    by (simp add: fe_val_eq edge_element_def p25519_def)
qed (simp add: edge_element_def)

subsection \<open>Witnesses\<close>

definition demo_fe :: fe where "demo_fe = [5, - 7, 33554431, 16777215, 0, 1, - 33554431, 12345, 6, - 16777215]"

lemma demo_within: "within tight demo_fe" "within loose demo_fe"
  unfolding within_def loose_def tight_def demo_fe_def by (auto dest!: less_ten)

theorem fe_mul_correct_witness:
  "fe_val (fe_mul demo_fe demo_fe) mod p25519 = (fe_val demo_fe * fe_val demo_fe) mod p25519 \<and>
   fe_sq demo_fe = fe_mul demo_fe demo_fe"
  using fe_mul_correct [OF demo_within(2) demo_within(2)] by simp

theorem fe_invert_power_witness: "fe_val (fe_invert demo_fe) mod p25519 = fe_val demo_fe ^ (2 ^ 255 - 21) mod p25519"
  using fe_invert_power [OF demo_within(2)] by blast

theorem fe_linear_correct_witness: "fe_val (fe_add demo_fe demo_fe) = fe_val demo_fe + fe_val demo_fe"
  using fe_linear_correct [OF demo_within(1) demo_within(1)] by simp

end
