(* ===== verification/Group25519.thy ===== *)
theory Group25519
  imports Field25519
begin

text \<open>
  The group operations of \<open>kernel/crypto/ed25519/curve25519_ref10.c\<close> on the curve
  \<open>- x^2 + y^2 = 1 + d x^2 y^2\<close>: the four representations of a point, addition, subtraction and doubling
  between them, conversions, the recoding of scalars and the multiplications by a scalar.
  The tables of multiples of the base point (\<open>base.h\<close>, \<open>base2.h\<close>) are arguments.
\<close>

subsection \<open>Points\<close>

record ge_p2 =
  p2_X :: fe
  p2_Y :: fe
  p2_Z :: fe

record ge_p3 =
  p3_X :: fe
  p3_Y :: fe
  p3_Z :: fe
  p3_T :: fe

record ge_p1p1 =
  p1_X :: fe
  p1_Y :: fe
  p1_Z :: fe
  p1_T :: fe

record ge_precomp =
  yplusx :: fe
  yminusx :: fe
  xy2d :: fe

record ge_cached =
  YplusX :: fe
  YminusX :: fe
  c_Z :: fe
  T2d :: fe

definition fe_d :: fe where
  "fe_d = [-10913610, 13857413, -15372611, 6949391, 114729, -8787816, -6275908, -3247719, -18696448, -12055116]"

definition sqrtm1 :: fe where
  "sqrtm1 = [-32595792, -7943725, 9377950, 3500415, 12389472, -272473, -25146209, -2005654, 326686, 11406482]"

definition fe_d2 :: fe where
  "fe_d2 = [-21827239, -5839606, -30745221, 13898782, 229458, 15978800, -12551817, -6495438, 29715968, 9444199]"

subsection \<open>Addition and conversions\<close>

definition ge_add :: "ge_p3 \<Rightarrow> ge_cached \<Rightarrow> ge_p1p1" where
  "ge_add p q =
     (let rX = fe_add (p3_Y p) (p3_X p);
          rY = fe_sub (p3_Y p) (p3_X p);
          rZ = fe_mul rX (YplusX q);
          rY = fe_mul rY (YminusX q);
          rT = fe_mul (T2d q) (p3_T p);
          rX = fe_mul (p3_Z p) (c_Z q);
          t0 = fe_add rX rX
      in \<lparr>p1_X = fe_sub rZ rY, p1_Y = fe_add rZ rY, p1_Z = fe_add t0 rT, p1_T = fe_sub t0 rT\<rparr>)"

definition ge_sub :: "ge_p3 \<Rightarrow> ge_cached \<Rightarrow> ge_p1p1" where
  "ge_sub p q =
     (let rX = fe_add (p3_Y p) (p3_X p);
          rY = fe_sub (p3_Y p) (p3_X p);
          rZ = fe_mul rX (YminusX q);
          rY = fe_mul rY (YplusX q);
          rT = fe_mul (T2d q) (p3_T p);
          rX = fe_mul (p3_Z p) (c_Z q);
          t0 = fe_add rX rX
      in \<lparr>p1_X = fe_sub rZ rY, p1_Y = fe_add rZ rY, p1_Z = fe_sub t0 rT, p1_T = fe_add t0 rT\<rparr>)"

definition ge_madd :: "ge_p3 \<Rightarrow> ge_precomp \<Rightarrow> ge_p1p1" where
  "ge_madd p q =
     (let rX = fe_add (p3_Y p) (p3_X p);
          rY = fe_sub (p3_Y p) (p3_X p);
          rZ = fe_mul rX (yplusx q);
          rY = fe_mul rY (yminusx q);
          rT = fe_mul (xy2d q) (p3_T p);
          t0 = fe_add (p3_Z p) (p3_Z p)
      in \<lparr>p1_X = fe_sub rZ rY, p1_Y = fe_add rZ rY, p1_Z = fe_add t0 rT, p1_T = fe_sub t0 rT\<rparr>)"

definition ge_msub :: "ge_p3 \<Rightarrow> ge_precomp \<Rightarrow> ge_p1p1" where
  "ge_msub p q =
     (let rX = fe_add (p3_Y p) (p3_X p);
          rY = fe_sub (p3_Y p) (p3_X p);
          rZ = fe_mul rX (yminusx q);
          rY = fe_mul rY (yplusx q);
          rT = fe_mul (xy2d q) (p3_T p);
          t0 = fe_add (p3_Z p) (p3_Z p)
      in \<lparr>p1_X = fe_sub rZ rY, p1_Y = fe_add rZ rY, p1_Z = fe_sub t0 rT, p1_T = fe_add t0 rT\<rparr>)"

definition ge_p1p1_to_p2 :: "ge_p1p1 \<Rightarrow> ge_p2" where
  "ge_p1p1_to_p2 p =
     \<lparr>p2_X = fe_mul (p1_X p) (p1_T p), p2_Y = fe_mul (p1_Y p) (p1_Z p), p2_Z = fe_mul (p1_Z p) (p1_T p)\<rparr>"

definition ge_p1p1_to_p3 :: "ge_p1p1 \<Rightarrow> ge_p3" where
  "ge_p1p1_to_p3 p =
     \<lparr>p3_X = fe_mul (p1_X p) (p1_T p), p3_Y = fe_mul (p1_Y p) (p1_Z p), p3_Z = fe_mul (p1_Z p) (p1_T p),
      p3_T = fe_mul (p1_X p) (p1_Y p)\<rparr>"

definition ge_p2_0 :: ge_p2 where "ge_p2_0 = \<lparr>p2_X = fe_0, p2_Y = fe_1, p2_Z = fe_1\<rparr>"

definition ge_p2_dbl :: "ge_p2 \<Rightarrow> ge_p1p1" where
  "ge_p2_dbl p =
     (let rX = fe_sq (p2_X p);
          rZ = fe_sq (p2_Y p);
          rT = fe_sq2 (p2_Z p);
          rY = fe_add (p2_X p) (p2_Y p);
          t0 = fe_sq rY;
          rY = fe_add rZ rX;
          rZ = fe_sub rZ rX;
          rX = fe_sub t0 rY;
          rT = fe_sub rT rZ
      in \<lparr>p1_X = rX, p1_Y = rY, p1_Z = rZ, p1_T = rT\<rparr>)"

definition ge_p3_0 :: ge_p3 where "ge_p3_0 = \<lparr>p3_X = fe_0, p3_Y = fe_1, p3_Z = fe_1, p3_T = fe_0\<rparr>"

definition ge_p3_to_cached :: "ge_p3 \<Rightarrow> ge_cached" where
  "ge_p3_to_cached p =
     \<lparr>YplusX = fe_add (p3_Y p) (p3_X p), YminusX = fe_sub (p3_Y p) (p3_X p), c_Z = fe_copy (p3_Z p),
      T2d = fe_mul (p3_T p) fe_d2\<rparr>"

definition ge_p3_to_p2 :: "ge_p3 \<Rightarrow> ge_p2" where
  "ge_p3_to_p2 p = \<lparr>p2_X = fe_copy (p3_X p), p2_Y = fe_copy (p3_Y p), p2_Z = fe_copy (p3_Z p)\<rparr>"

definition ge_p3_dbl :: "ge_p3 \<Rightarrow> ge_p1p1" where
  "ge_p3_dbl p = ge_p2_dbl (ge_p3_to_p2 p)"

definition ge_precomp_0 :: ge_precomp where
  "ge_precomp_0 = \<lparr>yplusx = fe_1, yminusx = fe_1, xy2d = fe_0\<rparr>"

text \<open>Affine coordinates as bytes; the top bit of the last byte is the sign of \<open>x\<close>.\<close>

definition affine_bytes :: "fe \<Rightarrow> fe \<Rightarrow> fe \<Rightarrow> u8 list" where
  "affine_bytes X Y Z =
     (let recip = fe_invert Z; x = fe_mul X recip; y = fe_mul Y recip; s = fe_tobytes y
      in s[31 := s ! 31 XOR (if fe_isnegative x then 0x80 else 0)])"

definition ge_tobytes :: "ge_p2 \<Rightarrow> u8 list" where
  "ge_tobytes h = affine_bytes (p2_X h) (p2_Y h) (p2_Z h)"

definition ge_p3_tobytes :: "ge_p3 \<Rightarrow> u8 list" where
  "ge_p3_tobytes h = affine_bytes (p3_X h) (p3_Y h) (p3_Z h)"

subsection \<open>Selection from a table\<close>

definition equal_char :: "u8 \<Rightarrow> u8 \<Rightarrow> u32" where
  "equal_char b c = drop_bit 31 (ucast (b XOR c) - 1)"

definition negative_char :: "u8 \<Rightarrow> u32" where
  "negative_char b = ucast (drop_bit 63 (scast b :: u64))"

definition cmov_precomp :: "ge_precomp \<Rightarrow> ge_precomp \<Rightarrow> u32 \<Rightarrow> ge_precomp" where
  "cmov_precomp t u b =
     \<lparr>yplusx = fe_cmov (yplusx t) (yplusx u) b, yminusx = fe_cmov (yminusx t) (yminusx u) b,
      xy2d = fe_cmov (xy2d t) (xy2d u) b\<rparr>"

definition ge_select :: "(nat \<Rightarrow> nat \<Rightarrow> ge_precomp) \<Rightarrow> nat \<Rightarrow> u8 \<Rightarrow> ge_precomp" where
  "ge_select base pos b =
     (let bnegative = negative_char b;
          babs = b - (ucast (- bnegative) AND b) * 2;
          t = foldl (\<lambda>t j. cmov_precomp t (base pos j) (equal_char babs (of_nat (j + 1)))) ge_precomp_0 [0..<8];
          minust = \<lparr>yplusx = fe_copy (yminusx t), yminusx = fe_copy (yplusx t), xy2d = fe_neg (xy2d t)\<rparr>
      in cmov_precomp t minust bnegative)"

subsection \<open>Scalars\<close>

text \<open>\<open>slide\<close> recodes the 256 bits of a scalar as signed odd digits. The carry of a subtraction runs up
  to the first zero.\<close>

definition slide_bits :: "u8 list \<Rightarrow> int list" where
  "slide_bits a = map (\<lambda>i. if bit (a ! (i div 8)) (i mod 8) then 1 else 0) [0..<256]"

fun slide_carry :: "int list \<Rightarrow> nat list \<Rightarrow> int list" where
  "slide_carry r [] = r"
| "slide_carry r (k # ks) = (if r ! k = 0 then r[k := 1] else slide_carry (r[k := 0]) ks)"

fun slide_inner :: "nat \<Rightarrow> nat list \<Rightarrow> int list \<Rightarrow> int list" where
  "slide_inner i [] r = r"
| "slide_inner i (b # bs) r =
     (if i + b < 256 then
        (if r ! (i + b) \<noteq> 0 then
           (if r ! i + r ! (i + b) * 2 ^ b \<le> 15 then
              slide_inner i bs (r[i := r ! i + r ! (i + b) * 2 ^ b, i + b := 0])
            else if r ! i - r ! (i + b) * 2 ^ b \<ge> - 15 then
              slide_inner i bs (slide_carry (r[i := r ! i - r ! (i + b) * 2 ^ b]) [i + b..<256])
            else r)
         else slide_inner i bs r)
      else r)"

definition slide :: "u8 list \<Rightarrow> int list" where
  "slide a = foldl (\<lambda>r i. if r ! i \<noteq> 0 then slide_inner i [1..<7] r else r) (slide_bits a) [0..<256]"

text \<open>The odd multiples \<open>A, 3A, ..., 15A\<close>.\<close>

definition odd_multiples :: "ge_p3 \<Rightarrow> ge_cached list" where
  "odd_multiples A =
     (let A2 = ge_p1p1_to_p3 (ge_p3_dbl A)
      in foldl (\<lambda>Ai j. Ai @ [ge_p3_to_cached (ge_p1p1_to_p3 (ge_add A2 (Ai ! j)))]) [ge_p3_to_cached A] [0..<7])"

definition add_digit :: "ge_cached list \<Rightarrow> int \<Rightarrow> ge_p1p1 \<Rightarrow> ge_p1p1" where
  "add_digit Ai dg t =
     (if dg > 0 then ge_add (ge_p1p1_to_p3 t) (Ai ! nat (dg div 2))
      else if dg < 0 then ge_sub (ge_p1p1_to_p3 t) (Ai ! nat ((- dg) div 2))
      else t)"

definition madd_digit :: "ge_precomp list \<Rightarrow> int \<Rightarrow> ge_p1p1 \<Rightarrow> ge_p1p1" where
  "madd_digit Bi dg t =
     (if dg > 0 then ge_madd (ge_p1p1_to_p3 t) (Bi ! nat (dg div 2))
      else if dg < 0 then ge_msub (ge_p1p1_to_p3 t) (Bi ! nat ((- dg) div 2))
      else t)"

definition ge_double_scalarmult_vartime :: "ge_precomp list \<Rightarrow> u8 list \<Rightarrow> ge_p3 \<Rightarrow> u8 list \<Rightarrow> ge_p2" where
  "ge_double_scalarmult_vartime Bi a A b =
     (let aslide = slide a; bslide = slide b; Ai = odd_multiples A
      in foldl (\<lambda>r i. ge_p1p1_to_p2 (madd_digit Bi (bslide ! i) (add_digit Ai (aslide ! i) (ge_p2_dbl r))))
           ge_p2_0 (dropWhile (\<lambda>i. aslide ! i = 0 \<and> bslide ! i = 0) (rev [0..<256])))"

definition ge_scalarmult_vartime :: "u8 list \<Rightarrow> ge_p3 \<Rightarrow> ge_p3" where
  "ge_scalarmult_vartime a A =
     (let aslide = slide a; Ai = odd_multiples A
      in foldl (\<lambda>r i. ge_p1p1_to_p3 (add_digit Ai (aslide ! i) (ge_p3_dbl r)))
           ge_p3_0 (dropWhile (\<lambda>i. aslide ! i = 0) (rev [0..<256])))"

text \<open>Signed digits of four bits for the multiplication of the base point.\<close>

definition base_digits :: "u8 list \<Rightarrow> u8 list" where
  "base_digits a =
     (let e = concat (map (\<lambda>i. [a ! i AND 15, drop_bit 4 (a ! i) AND 15]) [0..<32]);
          (e, carry) = foldl (\<lambda>(e, carry) i.
            let x = e ! i + carry; c = signed_drop_bit 4 (x + 8) in (e[i := x - c * 16], c)) (e, 0) [0..<63]
      in e[63 := e ! 63 + carry])"

definition ge_scalarmult_base :: "(nat \<Rightarrow> nat \<Rightarrow> ge_precomp) \<Rightarrow> u8 list \<Rightarrow> ge_p3" where
  "ge_scalarmult_base base a =
     (let e = base_digits a;
          step = (\<lambda>h i. ge_p1p1_to_p3 (ge_madd h (ge_select base (i div 2) (e ! i))));
          h = foldl step ge_p3_0 (map (\<lambda>i. 2 * i + 1) [0..<32]);
          s = ge_p1p1_to_p2 (ge_p3_dbl h);
          s = ge_p1p1_to_p2 (ge_p2_dbl s);
          s = ge_p1p1_to_p2 (ge_p2_dbl s);
          h = ge_p1p1_to_p3 (ge_p2_dbl s)
      in foldl step h (map (\<lambda>i. 2 * i) [0..<32]))"

subsection \<open>Decoding\<close>

text \<open>\<open>crypto_verify_16\<close>, \<open>_32\<close> and \<open>_64\<close> of \<open>verify.c\<close> for \<open>n\<close> bytes: 0 for equal bytes, -1 otherwise, in a
  time that does not depend on them.\<close>

definition crypto_verify :: "nat \<Rightarrow> u8 list \<Rightarrow> u8 list \<Rightarrow> int" where
  "crypto_verify n x y =
     (let dd = foldl (\<lambda>dd i. dd OR ucast (x ! i XOR y ! i)) (0 :: u64) [0..<n]
      in sint (1 AND drop_bit 8 (dd - 1)) - 1)"

definition fe_isnonzero :: "fe \<Rightarrow> bool" where
  "fe_isnonzero f \<longleftrightarrow> crypto_verify 32 (fe_tobytes f) (replicate 32 0) \<noteq> 0"

definition ge_frombytes_negate_vartime :: "u8 list \<Rightarrow> ge_p3 option" where
  "ge_frombytes_negate_vartime s =
     (let Y = fe_frombytes s;
          Z = fe_1;
          u = fe_sq Y;
          v = fe_mul u fe_d;
          u = fe_sub u Z;
          v = fe_add v Z;
          v3 = fe_sq v;
          v3 = fe_mul v3 v;
          X = fe_sq v3;
          X = fe_mul X v;
          X = fe_mul X u;
          X = fe_pow22523 X;
          X = fe_mul X v3;
          X = fe_mul X u;
          vxx = fe_sq X;
          vxx = fe_mul vxx v;
          finish = (\<lambda>X.
            let X = (if fe_isnegative X = bit (s ! 31) 7 then fe_neg X else X)
            in Some \<lparr>p3_X = X, p3_Y = Y, p3_Z = Z, p3_T = fe_mul X Y\<rparr>)
      in if fe_isnonzero (fe_sub vxx u) then
           (if fe_isnonzero (fe_add vxx u) then None else finish (fe_mul X sqrtm1))
         else finish X)"

subsection \<open>Congruence\<close>

definition eqp :: "int \<Rightarrow> int \<Rightarrow> bool" where "eqp a b \<longleftrightarrow> a mod p25519 = b mod p25519"

lemma eqp_refl [simp]: "eqp a a" by (simp add: eqp_def)
lemma eqp_trans: "eqp a b \<Longrightarrow> eqp b c \<Longrightarrow> eqp a c" by (simp add: eqp_def)

lemma eqp_arith:
  "eqp a b \<Longrightarrow> eqp c d \<Longrightarrow> eqp (a + c) (b + d)" "eqp a b \<Longrightarrow> eqp c d \<Longrightarrow> eqp (a - c) (b - d)"
  "eqp a b \<Longrightarrow> eqp c d \<Longrightarrow> eqp (a * c) (b * d)"
  unfolding eqp_def by (rule mod_add_cong mod_diff_cong mod_mult_cong; assumption)+

lemma eqp_eq: "eqp a b \<Longrightarrow> b = c \<Longrightarrow> eqp a c" by simp

subsection \<open>Bounds and values of the field operations\<close>

definition twice :: "int list" where "twice = map (\<lambda>b. 2 * b) reduced"

lemma bounds_nth:
  "i < 10 \<Longrightarrow> reduced ! i = (if odd i then 16944988 else 33889976)"
  "i < 10 \<Longrightarrow> twice ! i = (if odd i then 33889976 else 67779952)"
  using less_ten [of i] by (auto simp: reduced_def twice_def)

lemma bound_lengths: "length reduced = 10" "length twice = 10"
  by (simp_all add: reduced_def twice_def)

lemma fe_add_within:
  assumes "within A f" "within B g" "\<And>i. i < 10 \<Longrightarrow> A ! i + B ! i \<le> C ! i" "length C = 10" "\<And>i. i < 10 \<Longrightarrow> C ! i < 2 ^ 31"
  shows "within C (fe_add f g) \<and> fe_val (fe_add f g) = fe_val f + fe_val g"
proof -
  have "\<bar>f ! i + g ! i\<bar> \<le> C ! i" if "i < 10" for i
    using withinD(1) [OF assms(1) that] withinD(1) [OF assms(2) that] assms(3) [OF that] by linarith
  from limbs_ok [OF this assms(4,5)] show ?thesis
    by (simp add: fe_add_def) (simp add: fe_val_def distrib_right sum.distrib)
qed

lemma fe_sub_within:
  assumes "within A f" "within B g" "\<And>i. i < 10 \<Longrightarrow> A ! i + B ! i \<le> C ! i" "length C = 10" "\<And>i. i < 10 \<Longrightarrow> C ! i < 2 ^ 31"
  shows "within C (fe_sub f g) \<and> fe_val (fe_sub f g) = fe_val f - fe_val g"
proof -
  have "\<bar>f ! i - g ! i\<bar> \<le> C ! i" if "i < 10" for i
    using withinD(1) [OF assms(1) that] withinD(1) [OF assms(2) that] assms(3) [OF that] by linarith
  from limbs_ok [OF this assms(4,5)] show ?thesis
    by (simp add: fe_sub_def) (simp add: fe_val_def left_diff_distrib sum_subtractf)
qed

lemma add_reduced:
  assumes "within reduced f" "within reduced g"
  shows "within twice (fe_add f g)" "fe_val (fe_add f g) = fe_val f + fe_val g"
    "within twice (fe_sub f g)" "fe_val (fe_sub f g) = fe_val f - fe_val g"
  using fe_add_within [OF assms, of twice] fe_sub_within [OF assms, of twice]
  by (simp_all add: bounds_nth bound_lengths)

lemma add_twice:
  assumes "within twice f" "within reduced g"
  shows "within loose (fe_add f g)" "fe_val (fe_add f g) = fe_val f + fe_val g"
    "within loose (fe_sub f g)" "fe_val (fe_sub f g) = fe_val f - fe_val g"
  using fe_add_within [OF assms, of loose] fe_sub_within [OF assms, of loose]
  by (simp_all add: bounds_nth loose_nth lengths)

lemma twice_loose: "within twice f \<Longrightarrow> within loose f"
  by (erule within_mono) (simp add: list_all2_conv_all_nth bound_lengths lengths bounds_nth loose_nth)

lemma mul_eqp:
  assumes "within loose f" "within loose g"
  shows "within reduced (fe_mul f g)" "eqp (fe_val (fe_mul f g)) (fe_val f * fe_val g)"
  using fe_mul_ok [OF assms] by (simp_all add: eqp_def)

lemma fe_copy_id: "length f = 10 \<Longrightarrow> fe_copy f = f"
  by (simp add: fe_copy_def list_eq_iff_nth_eq)

subsection \<open>Well-formed points\<close>

definition p3_ok :: "ge_p3 \<Rightarrow> bool" where
  "p3_ok p \<longleftrightarrow> within reduced (p3_X p) \<and> within reduced (p3_Y p) \<and> within reduced (p3_Z p) \<and> within reduced (p3_T p)"

definition p2_ok :: "ge_p2 \<Rightarrow> bool" where
  "p2_ok p \<longleftrightarrow> within reduced (p2_X p) \<and> within reduced (p2_Y p) \<and> within reduced (p2_Z p)"

definition p1_ok :: "ge_p1p1 \<Rightarrow> bool" where
  "p1_ok r \<longleftrightarrow> within loose (p1_X r) \<and> within loose (p1_Y r) \<and> within loose (p1_Z r) \<and> within loose (p1_T r)"

definition cached_ok :: "ge_cached \<Rightarrow> bool" where
  "cached_ok q \<longleftrightarrow> within twice (YplusX q) \<and> within twice (YminusX q) \<and> within reduced (c_Z q) \<and> within reduced (T2d q)"

text \<open>The coordinates of a completed point, up to the modulus.\<close>

definition p1_is :: "ge_p1p1 \<Rightarrow> int \<Rightarrow> int \<Rightarrow> int \<Rightarrow> int \<Rightarrow> bool" where
  "p1_is r x y z t \<longleftrightarrow> p1_ok r \<and> eqp (fe_val (p1_X r)) x \<and> eqp (fe_val (p1_Y r)) y \<and>
     eqp (fe_val (p1_Z r)) z \<and> eqp (fe_val (p1_T r)) t"

abbreviation d_val :: int where "d_val \<equiv> fe_val fe_d"

text \<open>The two curve constants agree: the second is twice the first.\<close>

lemma d2_val: "eqp (fe_val fe_d2) (2 * d_val)" "within loose fe_d2" "within loose fe_d"
proof -
  show "eqp (fe_val fe_d2) (2 * d_val)" by (simp add: eqp_def fe_val_eq fe_d2_def fe_d_def p25519_def)
  show "within loose fe_d2" "within loose fe_d"
    unfolding within_def loose_def fe_d2_def fe_d_def by (auto dest!: less_ten)
qed

lemma cached_val:
  assumes "p3_ok q"
  shows "cached_ok (ge_p3_to_cached q)"
    "fe_val (YplusX (ge_p3_to_cached q)) = fe_val (p3_Y q) + fe_val (p3_X q)"
    "fe_val (YminusX (ge_p3_to_cached q)) = fe_val (p3_Y q) - fe_val (p3_X q)"
    "fe_val (c_Z (ge_p3_to_cached q)) = fe_val (p3_Z q)"
    "eqp (fe_val (T2d (ge_p3_to_cached q))) (fe_val (p3_T q) * (2 * d_val))"
proof -
  note q = assms [unfolded p3_ok_def]
  have c: "fe_copy (p3_Z q) = p3_Z q" using q withinD(2) by (intro fe_copy_id) blast
  have t: "within reduced (fe_mul (p3_T q) fe_d2)" "eqp (fe_val (fe_mul (p3_T q) fe_d2)) (fe_val (p3_T q) * (2 * d_val))"
    using q mul_eqp [of "p3_T q" fe_d2] d2_val(2) reduced_loose
      eqp_trans [OF _ eqp_arith(3) [OF eqp_refl d2_val(1)]] by blast+
  show "cached_ok (ge_p3_to_cached q)" "fe_val (c_Z (ge_p3_to_cached q)) = fe_val (p3_Z q)"
    "eqp (fe_val (T2d (ge_p3_to_cached q))) (fe_val (p3_T q) * (2 * d_val))"
    "fe_val (YplusX (ge_p3_to_cached q)) = fe_val (p3_Y q) + fe_val (p3_X q)"
    "fe_val (YminusX (ge_p3_to_cached q)) = fe_val (p3_Y q) - fe_val (p3_X q)"
    using q t by (simp_all add: ge_p3_to_cached_def cached_ok_def c add_reduced)
qed

text \<open>What the four additions have in common: three products and twice the product of the \<open>Z\<close>.\<close>

lemma add_core:
  assumes "p3_ok p" "within loose u" "within loose v" "within loose w" "within twice t0" "eqp (fe_val t0) e"
  defines "A \<equiv> fe_mul (fe_add (p3_Y p) (p3_X p)) u" and "B \<equiv> fe_mul (fe_sub (p3_Y p) (p3_X p)) v"
    and "C \<equiv> fe_mul w (p3_T p)"
    and "a \<equiv> (fe_val (p3_Y p) + fe_val (p3_X p)) * fe_val u"
    and "b \<equiv> (fe_val (p3_Y p) - fe_val (p3_X p)) * fe_val v" and "c \<equiv> fe_val w * fe_val (p3_T p)"
  shows "p1_is \<lparr>p1_X = fe_sub A B, p1_Y = fe_add A B, p1_Z = fe_add t0 C, p1_T = fe_sub t0 C\<rparr> (a - b) (a + b) (e + c) (e - c)"
    "p1_is \<lparr>p1_X = fe_sub A B, p1_Y = fe_add A B, p1_Z = fe_sub t0 C, p1_T = fe_add t0 C\<rparr> (a - b) (a + b) (e - c) (e + c)"
proof -
  note p = assms(1) [unfolded p3_ok_def]
  have A: "within reduced A" "eqp (fe_val A) a" and B: "within reduced B" "eqp (fe_val B) b"
    and C: "within reduced C" "eqp (fe_val C) c"
    using p assms(2-4) mul_eqp [of "fe_add (p3_Y p) (p3_X p)" u] mul_eqp [of "fe_sub (p3_Y p) (p3_X p)" v]
      mul_eqp [of w "p3_T p"] add_reduced [of "p3_Y p" "p3_X p"]
    by (simp_all add: A_def B_def C_def a_def b_def c_def twice_loose reduced_loose)
  show "p1_is \<lparr>p1_X = fe_sub A B, p1_Y = fe_add A B, p1_Z = fe_add t0 C, p1_T = fe_sub t0 C\<rparr> (a - b) (a + b) (e + c) (e - c)"
    "p1_is \<lparr>p1_X = fe_sub A B, p1_Y = fe_add A B, p1_Z = fe_sub t0 C, p1_T = fe_add t0 C\<rparr> (a - b) (a + b) (e - c) (e + c)"
    using add_reduced [OF A(1) B(1)] add_twice [OF assms(5) C(1)] A B C assms(6)
    by (simp_all add: p1_is_def p1_ok_def twice_loose eqp_arith)
qed

text \<open>Twice the product of the \<open>Z\<close>.\<close>

lemma twice_z:
  assumes "p3_ok p" "cached_ok q"
  shows "within twice (fe_add (fe_mul (p3_Z p) (c_Z q)) (fe_mul (p3_Z p) (c_Z q)))"
    "eqp (fe_val (fe_add (fe_mul (p3_Z p) (c_Z q)) (fe_mul (p3_Z p) (c_Z q)))) (2 * (fe_val (p3_Z p) * fe_val (c_Z q)))"
proof -
  have z: "within loose (p3_Z p)" "within loose (c_Z q)" using assms by (simp_all add: p3_ok_def cached_ok_def reduced_loose)
  note m = mul_eqp [OF this]
  show "within twice (fe_add (fe_mul (p3_Z p) (c_Z q)) (fe_mul (p3_Z p) (c_Z q)))"
    "eqp (fe_val (fe_add (fe_mul (p3_Z p) (c_Z q)) (fe_mul (p3_Z p) (c_Z q)))) (2 * (fe_val (p3_Z p) * fe_val (c_Z q)))"
    using add_reduced(1,2) [OF m(1) m(1)] eqp_arith(1) [OF m(2) m(2)] by (simp_all add: mult.commute)
qed

lemma ge_add_val:
  assumes "p3_ok p" "cached_ok q"
  defines "a \<equiv> (fe_val (p3_Y p) + fe_val (p3_X p)) * fe_val (YplusX q)"
    and "b \<equiv> (fe_val (p3_Y p) - fe_val (p3_X p)) * fe_val (YminusX q)"
    and "c \<equiv> fe_val (T2d q) * fe_val (p3_T p)" and "e \<equiv> 2 * (fe_val (p3_Z p) * fe_val (c_Z q))"
  shows "p1_is (ge_add p q) (a - b) (a + b) (e + c) (e - c)"
  unfolding ge_add_def Let_def a_def b_def c_def e_def
  using assms(1,2) by (intro add_core(1) twice_z) (simp_all add: cached_ok_def twice_loose reduced_loose)

lemma ge_sub_val:
  assumes "p3_ok p" "cached_ok q"
  defines "a \<equiv> (fe_val (p3_Y p) + fe_val (p3_X p)) * fe_val (YminusX q)"
    and "b \<equiv> (fe_val (p3_Y p) - fe_val (p3_X p)) * fe_val (YplusX q)"
    and "c \<equiv> fe_val (T2d q) * fe_val (p3_T p)" and "e \<equiv> 2 * (fe_val (p3_Z p) * fe_val (c_Z q))"
  shows "p1_is (ge_sub p q) (a - b) (a + b) (e - c) (e + c)"
  unfolding ge_sub_def Let_def a_def b_def c_def e_def
  using assms(1,2) by (intro add_core(2) twice_z) (simp_all add: cached_ok_def twice_loose reduced_loose)

lemma p1_is_eq: "p1_is r x y z t \<Longrightarrow> eqp x x' \<Longrightarrow> eqp y y' \<Longrightarrow> eqp z z' \<Longrightarrow> eqp t t' \<Longrightarrow> p1_is r x' y' z' t'"
  by (auto simp: p1_is_def intro: eqp_trans)

lemma ge_p3_add:
  assumes "p3_ok p" "p3_ok q"
  shows "p1_is (ge_add p (ge_p3_to_cached q))
    (2 * (fe_val (p3_X p) * fe_val (p3_Y q) + fe_val (p3_Y p) * fe_val (p3_X q)))
    (2 * (fe_val (p3_Y p) * fe_val (p3_Y q) + fe_val (p3_X p) * fe_val (p3_X q)))
    (2 * (fe_val (p3_Z p) * fe_val (p3_Z q) + d_val * fe_val (p3_T p) * fe_val (p3_T q)))
    (2 * (fe_val (p3_Z p) * fe_val (p3_Z q) - d_val * fe_val (p3_T p) * fe_val (p3_T q)))"
proof -
  note c = cached_val [OF assms(2)]
  have t: "eqp (fe_val (T2d (ge_p3_to_cached q)) * fe_val (p3_T p)) (2 * (d_val * fe_val (p3_T p) * fe_val (p3_T q)))"
    by (rule eqp_eq [OF eqp_arith(3) [OF c(5) eqp_refl]]) (simp add: algebra_simps)
  have e: "eqp (2 * (fe_val (p3_Z p) * fe_val (c_Z (ge_p3_to_cached q)))) (2 * (fe_val (p3_Z p) * fe_val (p3_Z q)))"
    by (simp add: c(4))
  show ?thesis
    by (rule p1_is_eq [OF ge_add_val [OF assms(1) c(1)]])
      (simp add: c algebra_simps, simp add: c algebra_simps,
       rule eqp_eq [OF eqp_arith(1) [OF e t]], simp add: algebra_simps,
       rule eqp_eq [OF eqp_arith(2) [OF e t]], simp add: algebra_simps)
qed

text \<open>Subtraction is addition of the negated point \<open>(-X, Y, Z, -T)\<close>.\<close>

lemma ge_p3_sub:
  assumes "p3_ok p" "p3_ok q"
  shows "p1_is (ge_sub p (ge_p3_to_cached q))
    (2 * (fe_val (p3_X p) * fe_val (p3_Y q) - fe_val (p3_Y p) * fe_val (p3_X q)))
    (2 * (fe_val (p3_Y p) * fe_val (p3_Y q) - fe_val (p3_X p) * fe_val (p3_X q)))
    (2 * (fe_val (p3_Z p) * fe_val (p3_Z q) - d_val * fe_val (p3_T p) * fe_val (p3_T q)))
    (2 * (fe_val (p3_Z p) * fe_val (p3_Z q) + d_val * fe_val (p3_T p) * fe_val (p3_T q)))"
proof -
  note c = cached_val [OF assms(2)]
  have t: "eqp (fe_val (T2d (ge_p3_to_cached q)) * fe_val (p3_T p)) (2 * (d_val * fe_val (p3_T p) * fe_val (p3_T q)))"
    by (rule eqp_eq [OF eqp_arith(3) [OF c(5) eqp_refl]]) (simp add: algebra_simps)
  have e: "eqp (2 * (fe_val (p3_Z p) * fe_val (c_Z (ge_p3_to_cached q)))) (2 * (fe_val (p3_Z p) * fe_val (p3_Z q)))"
    by (simp add: c(4))
  show ?thesis
    by (rule p1_is_eq [OF ge_sub_val [OF assms(1) c(1)]])
      (simp add: c algebra_simps, simp add: c algebra_simps,
       rule eqp_eq [OF eqp_arith(2) [OF e t]], simp add: algebra_simps,
       rule eqp_eq [OF eqp_arith(1) [OF e t]], simp add: algebra_simps)
qed

lemma sq_eqp:
  assumes "within loose f"
  shows "within reduced (fe_sq f)" "eqp (fe_val (fe_sq f)) (fe_val f * fe_val f)"
  using mul_eqp [OF assms assms] by (simp_all add: fe_sq_mul assms)

lemma sq2_eqp:
  assumes "within loose f"
  shows "within reduced (fe_sq2 f)" "eqp (fe_val (fe_sq2 f)) (2 * (fe_val f * fe_val f))"
proof -
  define h where "h = map (\<lambda>k. i64 (mul_ref f f k)) [0..<10]"
  have h: "within (replicate 10 1550000000000000000) h" "eqp (fe_val h) (fe_val f * fe_val f)"
    using mul_limbs_ok [OF assms assms] by (simp_all add: h_def eqp_def)
  have dbl: "map (\<lambda>x. a64 x x) h = map (\<lambda>x. 2 * x) h"
  proof (rule map_cong [OF refl])
    fix x assume "x \<in> set h"
    then obtain i where i: "i < 10" "x = h ! i" using withinD(2) [OF h(1)] by (auto simp: in_set_conv_nth)
    have "\<bar>x\<bar> \<le> 1550000000000000000" using withinD(1) [OF h(1) i(1)] i by simp
    then show "a64 x x = 2 * x" by (simp add: a64_def i64_id)
  qed
  have "within (replicate 10 3100000000000000000) (map (\<lambda>x. 2 * x) h)" using h(1) by (auto simp: within_def abs_mult)
  moreover have "fe_val (map (\<lambda>x. 2 * x) h) = 2 * fe_val h"
    unfolding fe_val_def sum_distrib_left using withinD(2) [OF h(1)] by (intro sum.cong) simp_all
  ultimately show "within reduced (fe_sq2 f)" "eqp (fe_val (fe_sq2 f)) (2 * (fe_val f * fe_val f))"
    using carry_chain_ok [of "map (\<lambda>x. 2 * x) h"] eqp_arith(3) [OF eqp_refl h(2), of 2]
    by (simp_all add: fe_sq2_def sq_limbs_eq [OF assms] h_def [symmetric] dbl eqp_def)
qed

lemma ge_p2_dbl_val:
  assumes "p2_ok p"
  defines "x \<equiv> fe_val (p2_X p)" and "y \<equiv> fe_val (p2_Y p)" and "z \<equiv> fe_val (p2_Z p)"
  shows "p1_is (ge_p2_dbl p) (2 * (x * y)) (y * y + x * x) (y * y - x * x) (2 * (z * z) - (y * y - x * x))"
proof -
  note p = assms(1) [unfolded p2_ok_def]
  let ?X = "fe_sq (p2_X p)" and ?Y = "fe_sq (p2_Y p)" and ?T = "fe_sq2 (p2_Z p)" and ?S = "fe_sq (fe_add (p2_X p) (p2_Y p))"
  have X: "within reduced ?X" "eqp (fe_val ?X) (x * x)" and Y: "within reduced ?Y" "eqp (fe_val ?Y) (y * y)"
    and T: "within reduced ?T" "eqp (fe_val ?T) (2 * (z * z))"
    using p sq_eqp [of "p2_X p"] sq_eqp [of "p2_Y p"] sq2_eqp [of "p2_Z p"]
    by (simp_all add: x_def y_def z_def reduced_loose)
  have S: "within reduced ?S" "eqp (fe_val ?S) ((x + y) * (x + y))"
    using p sq_eqp [of "fe_add (p2_X p) (p2_Y p)"] add_reduced [of "p2_X p" "p2_Y p"]
    by (simp_all add: x_def y_def twice_loose)
  note YX = add_reduced [OF Y(1) X(1)]
  have out: "within loose (fe_sub ?S (fe_add ?Y ?X)) \<and> fe_val (fe_sub ?S (fe_add ?Y ?X)) = fe_val ?S - fe_val (fe_add ?Y ?X)"
    "within loose (fe_sub ?T (fe_sub ?Y ?X)) \<and> fe_val (fe_sub ?T (fe_sub ?Y ?X)) = fe_val ?T - fe_val (fe_sub ?Y ?X)"
    by (rule fe_sub_within [OF S(1) YX(1)], simp_all add: bounds_nth loose_nth lengths)
      (rule fe_sub_within [OF T(1) YX(3)], simp_all add: bounds_nth loose_nth lengths)
  have "eqp (fe_val ?S - (fe_val ?Y + fe_val ?X)) (2 * (x * y))"
    by (rule eqp_eq [OF eqp_arith(2) [OF S(2) eqp_arith(1) [OF Y(2) X(2)]]]) (simp add: algebra_simps)
  then show ?thesis
    using out YX X Y T by (simp add: p1_is_def p1_ok_def ge_p2_dbl_def Let_def twice_loose eqp_arith)
qed

text \<open>From the completed to the extended and the projective coordinates.\<close>

lemma p1p1_to_p3_val:
  assumes "p1_is r x y z t"
  shows "p3_ok (ge_p1p1_to_p3 r)" "eqp (fe_val (p3_X (ge_p1p1_to_p3 r))) (x * t)"
    "eqp (fe_val (p3_Y (ge_p1p1_to_p3 r))) (y * z)" "eqp (fe_val (p3_Z (ge_p1p1_to_p3 r))) (z * t)"
    "eqp (fe_val (p3_T (ge_p1p1_to_p3 r))) (x * y)" "p2_ok (ge_p1p1_to_p2 r)"
  using assms unfolding p1_is_def p1_ok_def
  by (auto simp: p3_ok_def p2_ok_def ge_p1p1_to_p3_def ge_p1p1_to_p2_def mul_eqp(1)
      intro: eqp_trans [OF mul_eqp(2) eqp_arith(3)])

subsection \<open>Recoding a scalar\<close>

definition digit_sum :: "int list \<Rightarrow> int" where
  "digit_sum r = (\<Sum>i < 256. r ! i * 2 ^ i)"

definition digit_ok :: "int \<Rightarrow> bool" where
  "digit_ok x \<longleftrightarrow> x = 0 \<or> (odd x \<and> \<bar>x\<bar> \<le> 15)"

lemma digit_sum_update:
  assumes "length r = 256" "i < 256"
  shows "digit_sum (r[i := x]) = digit_sum r + (x - r ! i) * 2 ^ i"
proof -
  have "digit_sum (r[i := x]) = (\<Sum>k < 256. r ! k * 2 ^ k + (if k = i then (x - r ! i) * 2 ^ i else 0))"
    unfolding digit_sum_def using assms by (intro sum.cong) (auto simp: nth_list_update algebra_simps)
  also have "\<dots> = digit_sum r + (x - r ! i) * 2 ^ i"
    using assms(2) by (simp add: sum.distrib digit_sum_def)
  finally show ?thesis .
qed

lemma slide_carry_ok:
  assumes "length r = 256" "k \<le> 256" "\<forall>j. k \<le> j \<longrightarrow> j < 256 \<longrightarrow> r ! j = 0 \<or> r ! j = 1"
  defines "r' \<equiv> slide_carry r [k..<256]"
  shows "length r' = 256 \<and> digit_sum r' mod 2 ^ 256 = (digit_sum r + 2 ^ k) mod 2 ^ 256 \<and>
    (\<forall>j < k. r' ! j = r ! j) \<and> (\<forall>j. k \<le> j \<longrightarrow> j < 256 \<longrightarrow> r' ! j = 0 \<or> r' ! j = 1)"
  using assms(1-3) unfolding r'_def
proof (induction "256 - k" arbitrary: r k)
  case 0
  then show ?case by simp
next
  case (Suc n)
  then have k: "k < 256" "[k..<256] = k # [Suc k..<256]" by (simp_all add: upt_conv_Cons)
  show ?case
  proof (cases "r ! k = 0")
    case True
    with Suc.prems k show ?thesis by (auto simp: digit_sum_update nth_list_update)
  next
    case False
    then have one: "r ! k = 1" using Suc.prems(3) k(1) by auto
    have sum: "digit_sum (r[k := 0]) + 2 ^ Suc k = digit_sum r + 2 ^ k"
      using Suc.prems(1) k(1) one by (simp add: digit_sum_update)
    have "n = 256 - Suc k" using Suc.hyps(2) by simp
    define q where "q = slide_carry (r[k := 0]) [Suc k..<256]"
    have bits: "\<forall>j. Suc k \<le> j \<longrightarrow> j < 256 \<longrightarrow> r[k := 0] ! j = 0 \<or> r[k := 0] ! j = 1"
      using Suc.prems(3) by auto
    have len: "length (r[k := 0]) = 256" "Suc k \<le> 256" using Suc.prems(1) k(1) by simp_all
    note q = Suc.hyps(1) [OF \<open>n = 256 - Suc k\<close> len bits, folded q_def]
    have "slide_carry r [k..<256] = q" using one by (simp add: k(2) q_def)
    moreover have "q ! j = r ! j" if "j < k" for j using q that Suc.prems(1) by simp
    moreover have "q ! j = 0 \<or> q ! j = 1" if "k \<le> j" "j < 256" for j
      using q that Suc.prems(1) by (cases "j = k") auto
    ultimately show ?thesis using q unfolding sum by metis
  qed
qed

text \<open>What holds while position \<open>i\<close> is treated: the digits below are final, the ones above are bits.\<close>

definition sliding :: "int \<Rightarrow> nat \<Rightarrow> int list \<Rightarrow> bool" where
  "sliding n i r \<longleftrightarrow> length r = 256 \<and> digit_sum r mod 2 ^ 256 = n mod 2 ^ 256 \<and>
     (\<forall>j < i. j < 256 \<longrightarrow> digit_ok (r ! j)) \<and> (\<forall>j. i \<le> j \<longrightarrow> j < 256 \<longrightarrow> r ! j = 0 \<or> r ! j = 1)"

lemma digit_step:
  fixes x e :: int
  assumes "odd x" "\<bar>x\<bar> \<le> 15" "even e" "0 < e"
  shows "x + e \<le> 15 \<Longrightarrow> digit_ok (x + e)" "- 15 \<le> x - e \<Longrightarrow> digit_ok (x - e)" "x + e \<noteq> 0" "x - e \<noteq> 0"
proof -
  show "x + e \<noteq> 0" "x - e \<noteq> 0" using assms(1,3) by presburger+
  show "digit_ok (x + e)" if "x + e \<le> 15"
    unfolding digit_ok_def using that assms by (intro disjI2 conjI) (simp, linarith)
  show "digit_ok (x - e)" if "- 15 \<le> x - e"
    unfolding digit_ok_def using that assms by (intro disjI2 conjI) (simp, linarith)
qed

lemma slide_inner_ok:
  assumes "sliding n (Suc i) r" "i < 256" "r ! i \<noteq> 0" "\<forall>b \<in> set bs. 0 < b"
  shows "sliding n (Suc i) (slide_inner i bs r)"
  using assms
proof (induction i bs r rule: slide_inner.induct)
  case (2 i b bs r)
  note s = "2.prems"(1) [unfolded sliding_def]
  have b: "0 < b" "\<forall>c \<in> set bs. 0 < c" using "2.prems"(4) by auto
  have odd_i: "odd (r ! i)" "\<bar>r ! i\<bar> \<le> 15" using s "2.prems"(2,3) by (auto simp: digit_ok_def)
  show ?case
  proof (cases "i + b < 256 \<and> r ! (i + b) \<noteq> 0")
    case False
    with "2.IH"(3) "2.prems" b show ?thesis by auto
  next
    case True
    then have one: "r ! (i + b) = 1" using s b(1) by (metis add_0 less_add_same_cancel1 Suc_leI)
    have ev: "even ((2::int) ^ b)" "0 < (2::int) ^ b" using b(1) by simp_all
    have len: "length r = 256" "i + b < 256" "i \<noteq> i + b" using s True b(1) by auto
    consider (add) "r ! i + 2 ^ b \<le> 15" | (sub) "\<not> r ! i + 2 ^ b \<le> 15" "r ! i - 2 ^ b \<ge> - 15"
      | (stop) "\<not> r ! i + 2 ^ b \<le> 15" "\<not> r ! i - 2 ^ b \<ge> - 15" by blast
    then show ?thesis
    proof cases
      case add
      let ?r = "r[i := r ! i + 2 ^ b, i + b := 0]"
      have sum: "digit_sum ?r = digit_sum r" using len one by (simp add: digit_sum_update power_add)
      have di: "digit_ok (r ! i + 2 ^ b)" by (rule digit_step(1) [OF odd_i ev add])
      have at: "?r ! j = (if j = i + b then 0 else if j = i then r ! i + 2 ^ b else r ! j)" if "j < 256" for j
        using that len "2.prems"(2) by (simp add: nth_list_update)
      have "sliding n (Suc i) ?r"
        unfolding sliding_def sum
      proof (intro conjI allI impI)
        show "length ?r = 256" "digit_sum r mod 2 ^ 256 = n mod 2 ^ 256" using s by auto
        show "digit_ok (?r ! j)" if "j < Suc i" "j < 256" for j using at [OF that(2)] that di s b(1) by auto
        show "?r ! j = 0 \<or> ?r ! j = 1" if "Suc i \<le> j" "j < 256" for j using at [OF that(2)] that s by auto
      qed
      moreover have "?r ! i \<noteq> 0" using at [OF "2.prems"(2)] digit_step(3) [OF odd_i ev] b(1) by simp
      ultimately show ?thesis using "2.IH"(1) True add one "2.prems"(2) b(2) by simp
    next
      case sub
      let ?q = "r[i := r ! i - 2 ^ b]"
      let ?r = "slide_carry ?q [i + b..<256]"
      have q: "digit_sum ?q + 2 ^ (i + b) = digit_sum r" using len by (simp add: digit_sum_update power_add)
      have "\<forall>j. i + b \<le> j \<longrightarrow> j < 256 \<longrightarrow> ?q ! j = 0 \<or> ?q ! j = 1" using s b(1) by auto
      note c = slide_carry_ok [of ?q, OF _ _ this, unfolded q]
      have di: "digit_ok (r ! i - 2 ^ b)" "r ! i - 2 ^ b \<noteq> 0" 
        using digit_step(2,4) [OF odd_i ev] sub(2) by auto
      have below: "?r ! j = (if j = i then r ! i - 2 ^ b else r ! j)" if "j < i + b" for j
        using c that len by (simp add: nth_list_update)
      have "sliding n (Suc i) ?r"
        unfolding sliding_def
      proof (intro conjI allI impI)
        show "length ?r = 256" "digit_sum ?r mod 2 ^ 256 = n mod 2 ^ 256" using c s len by auto
        show "digit_ok (?r ! j)" if "j < Suc i" "j < 256" for j using below [of j] that di s b(1) by auto
        show "?r ! j = 0 \<or> ?r ! j = 1" if "Suc i \<le> j" "j < 256" for j
          using below [of j] that c s len by (cases "j < i + b") auto
      qed
      moreover have "?r ! i \<noteq> 0" using below [of i] di b(1) by simp
      ultimately show ?thesis using "2.IH"(2) True sub one "2.prems"(2) b(2) by simp
    next
      case stop
      with True one "2.prems"(1) show ?thesis by simp
    qed
  qed
qed simp


lemma slide_outer_ok:
  assumes "sliding n i r" "i < 256"
  shows "sliding n (Suc i) (if r ! i \<noteq> 0 then slide_inner i [1..<7] r else r)"
proof -
  have "digit_ok (r ! i)" using assms by (auto simp: sliding_def digit_ok_def)
  with assms have s: "sliding n (Suc i) r" by (auto simp: sliding_def less_Suc_eq)
  show ?thesis using slide_inner_ok [OF s assms(2), of "[1..<7]"] s by auto
qed

lemma slide_ok: "sliding (digit_sum (slide_bits a)) 256 (slide a)"
proof -
  have "sliding (digit_sum (slide_bits a)) m
      (foldl (\<lambda>r i. if r ! i \<noteq> 0 then slide_inner i [1..<7] r else r) (slide_bits a) [0..<m])" if "m \<le> 256" for m
    using that
  proof (induction m)
    case 0
    then show ?case by (simp add: sliding_def slide_bits_def)
  next
    case (Suc m)
    then show ?case using slide_outer_ok [of _ m] by simp
  qed
  then show ?thesis unfolding slide_def by blast
qed

text \<open>The bits are those of the scalar.\<close>

lemma byte_bits: "uint w = (\<Sum>i < 8. (if bit w i then 1 else 0) * 2 ^ i)" for w :: u8
proof -
  have "take_bit 8 (uint w) = (\<Sum>i = 0..<8. push_bit i (of_bool (bit (uint w) i)))" by (rule take_bit_sum)
  also have "\<dots> = (\<Sum>i < 8. (if bit w i then 1 else 0) * 2 ^ i)"
    unfolding atLeast0LessThan by (intro sum.cong) (auto simp: bit_uint_iff push_bit_eq_mult)
  finally show ?thesis using take_bit_int_eq_self_iff [of 8 "uint w"] uint_bounded [of w] by simp
qed

lemma slide_bits_val: "length a = 32 \<Longrightarrow> digit_sum (slide_bits a) = le_val a"
proof -
  assume a: "length a = 32"
  let ?f = "\<lambda>i. (if bit (a ! (i div 8)) (i mod 8) then 1 else 0) * (2::int) ^ i"
  have "digit_sum (slide_bits a) = (\<Sum>i < 32 * 8. ?f i)"
    unfolding digit_sum_def slide_bits_def by (intro sum.cong) auto
  also have "\<dots> = (\<Sum>j < 32. \<Sum>i = j * 8..<j * 8 + 8. ?f i)" by (rule sum.nat_group [symmetric])
  also have "\<dots> = (\<Sum>j < 32. uint (a ! j) * 2 ^ (8 * j))"
  proof (rule sum.cong [OF refl])
    fix j :: nat
    have "(\<Sum>i = j * 8..<j * 8 + 8. ?f i) = (\<Sum>i = 0..<8. ?f (i + j * 8))"
      using sum.shift_bounds_nat_ivl [of ?f 0 "j * 8" 8] by (simp add: add.commute)
    also have "\<dots> = (\<Sum>i < 8. (if bit (a ! j) i then 1 else 0) * 2 ^ i) * 2 ^ (8 * j)"
      unfolding atLeast0LessThan sum_distrib_right by (intro sum.cong) (auto simp: power_add mult.commute)
    finally show "(\<Sum>i = j * 8..<j * 8 + 8. ?f i) = uint (a ! j) * 2 ^ (8 * j)" by (simp add: byte_bits)
  qed
  finally show ?thesis using a by (simp add: le_val_def)
qed

subsection \<open>Multiplication by a scalar stays within the bounds\<close>

lemma p1_okD: "p1_ok r \<Longrightarrow> p3_ok (ge_p1p1_to_p3 r)" "p1_ok r \<Longrightarrow> p2_ok (ge_p1p1_to_p2 r)"
  using p1p1_to_p3_val [of r "fe_val (p1_X r)" "fe_val (p1_Y r)" "fe_val (p1_Z r)" "fe_val (p1_T r)"]
  by (simp_all add: p1_is_def)

lemma p1_isD: "p1_is r x y z t \<Longrightarrow> p1_ok r"
  by (simp add: p1_is_def)

lemmas group_ok = p1_okD p1_isD [OF ge_add_val] p1_isD [OF ge_sub_val] p1_isD [OF ge_p2_dbl_val] cached_val(1)

lemma p3_dbl_ok: "p3_ok p \<Longrightarrow> p1_ok (ge_p3_dbl p)"
proof -
  assume "p3_ok p"
  then have "p2_ok (ge_p3_to_p2 p)"
    using withinD(2) by (auto simp: p3_ok_def p2_ok_def ge_p3_to_p2_def fe_copy_id)
  then show ?thesis unfolding ge_p3_dbl_def by (rule p1_isD [OF ge_p2_dbl_val])
qed

lemma zero_ok: "p3_ok ge_p3_0" "p2_ok ge_p2_0"
proof -
  have "within reduced fe_0" "within reduced fe_1"
    by (auto simp: within_def fe_0_def fe_1_def bounds_nth bound_lengths nth_Cons split: nat.splits)
  then show "p3_ok ge_p3_0" "p2_ok ge_p2_0" by (simp_all add: p3_ok_def p2_ok_def ge_p3_0_def ge_p2_0_def)
qed

lemma odd_multiples_ok:
  assumes "p3_ok A"
  shows "length (odd_multiples A) = 8 \<and> (\<forall>q \<in> set (odd_multiples A). cached_ok q)"
proof -
  let ?A2 = "ge_p1p1_to_p3 (ge_p3_dbl A)"
  have "length (foldl (\<lambda>Ai j. Ai @ [ge_p3_to_cached (ge_p1p1_to_p3 (ge_add ?A2 (Ai ! j)))]) [ge_p3_to_cached A] [0..<m]) = Suc m \<and>
    (\<forall>q \<in> set (foldl (\<lambda>Ai j. Ai @ [ge_p3_to_cached (ge_p1p1_to_p3 (ge_add ?A2 (Ai ! j)))]) [ge_p3_to_cached A] [0..<m]). cached_ok q)" for m
  proof (induction m)
    case 0
    then show ?case using assms by (simp add: group_ok)
  next
    case (Suc m)
    have "p3_ok ?A2" using assms by (intro group_ok p3_dbl_ok)
    with Suc show ?case by (auto intro!: group_ok)
  qed
  from this [of 7] show ?thesis by (simp add: odd_multiples_def Let_def)
qed

lemma digit_index: "digit_ok x \<Longrightarrow> nat (x div 2) < 8" "digit_ok x \<Longrightarrow> nat (- x div 2) < 8"
  by (auto simp: digit_ok_def)

lemma add_digit_ok:
  assumes "p1_ok r" "length Ai = 8" "\<forall>q \<in> set Ai. cached_ok q" "digit_ok x"
  shows "p1_ok (add_digit Ai x r)"
  using assms digit_index [OF assms(4)] nth_mem by (auto simp: add_digit_def intro!: group_ok)

definition precomp_ok :: "ge_precomp \<Rightarrow> bool" where
  "precomp_ok q \<longleftrightarrow> within loose (yplusx q) \<and> within loose (yminusx q) \<and> within loose (xy2d q)"

lemma madd_ok:
  assumes "p3_ok p" "precomp_ok q"
  shows "p1_ok (ge_madd p q)" "p1_ok (ge_msub p q)"
proof -
  have z: "within twice (fe_add (p3_Z p) (p3_Z p))" using assms(1) by (intro add_reduced) (simp_all add: p3_ok_def)
  note q = assms(2) [unfolded precomp_ok_def]
  show "p1_ok (ge_madd p q)" unfolding ge_madd_def Let_def
    by (rule p1_isD [OF add_core(1) [OF assms(1) _ _ _ z eqp_refl]]) (use q in blast)+
  show "p1_ok (ge_msub p q)" unfolding ge_msub_def Let_def
    by (rule p1_isD [OF add_core(2) [OF assms(1) _ _ _ z eqp_refl]]) (use q in blast)+
qed

lemma madd_digit_ok:
  assumes "p1_ok r" "length Bi = 8" "\<forall>q \<in> set Bi. precomp_ok q" "digit_ok x"
  shows "p1_ok (madd_digit Bi x r)"
  using assms digit_index [OF assms(4)] nth_mem by (auto simp: madd_digit_def intro!: group_ok(1) madd_ok)

lemma slide_digit: "i < 256 \<Longrightarrow> digit_ok (slide a ! i)"
  using slide_ok [of a] by (simp add: sliding_def)

lemma foldl_keeps: "P z \<Longrightarrow> (\<And>x i. P x \<Longrightarrow> i \<in> set is \<Longrightarrow> P (f x i)) \<Longrightarrow> P (foldl f z is)"
  by (induction "is" arbitrary: z) auto

lemma dropWhile_below: "i \<in> set (dropWhile P (rev [0..<256])) \<Longrightarrow> i < 256"
  by (drule set_dropWhileD) simp

lemma double_scalarmult_ok:
  assumes "p3_ok A" "length Bi = 8" "\<forall>q \<in> set Bi. precomp_ok q"
  shows "p2_ok (ge_double_scalarmult_vartime Bi a A b)"
proof -
  note Ai = odd_multiples_ok [OF assms(1)]
  have step: "p1_ok (add_digit (odd_multiples A) (slide a ! i) r)" if "i < 256" "p1_ok r" for i r
    using Ai that by (intro add_digit_ok slide_digit) auto
  have p2: "p1_ok (ge_p2_dbl r)" if "p2_ok r" for r by (rule p1_isD [OF ge_p2_dbl_val [OF that]])
  show ?thesis
    unfolding ge_double_scalarmult_vartime_def Let_def
  proof (rule foldl_keeps [where P = p2_ok, OF zero_ok(2)])
    fix r i assume r: "p2_ok r" and "i \<in> set (dropWhile (\<lambda>i. slide a ! i = 0 \<and> slide b ! i = 0) (rev [0..<256]))"
    then have i: "i < 256" by (intro dropWhile_below)
    show "p2_ok (ge_p1p1_to_p2 (madd_digit Bi (slide b ! i) (add_digit (odd_multiples A) (slide a ! i) (ge_p2_dbl r))))"
      by (rule p1_okD(2) [OF madd_digit_ok [OF step [OF i p2 [OF r]] assms(2,3) slide_digit [OF i]]])
  qed
qed

lemma crypto_verify_fold:
  "foldl (\<lambda>dd i. dd OR ucast (x ! i XOR y ! i)) (0 :: u64) [0..<n] =
   ucast (foldl (\<lambda>dd i. dd OR (x ! i XOR y ! i)) 0 [0..<n])" for x y :: "u8 list"
  by (induction n) (simp_all add: unsigned_or_eq)

lemma xor_zero_iff: "a XOR b = 0 \<longleftrightarrow> a = b" for a b :: "'a::len word"
  by (metis xor.assoc xor.right_neutral xor_self_eq)

lemma xor_fold_zero:
  "n \<le> length x \<Longrightarrow> n \<le> length y \<Longrightarrow>
   foldl (\<lambda>dd i. dd OR (x ! i XOR y ! i)) 0 [0..<n] = 0 \<longleftrightarrow> take n x = take n y" for x y :: "u8 list"
  by (induction n) (auto simp: take_Suc_conv_app_nth or_eq_0_iff xor_zero_iff)

lemma crypto_verify_eq:
  assumes "n \<le> length x" "n \<le> length y"
  shows "crypto_verify n x y = (if take n x = take n y then 0 else - 1)"
proof -
  define e where "e = foldl (\<lambda>dd i. dd OR (x ! i XOR y ! i)) 0 [0..<n]"
  have v: "crypto_verify n x y = sint (1 AND drop_bit 8 (ucast e - 1 :: u64)) - 1"
    by (simp add: crypto_verify_def crypto_verify_fold e_def Let_def)
  show ?thesis
  proof (cases "e = 0")
    case True
    then show ?thesis using xor_fold_zero [OF assms] by (simp add: v e_def mask_eq_exp_minus_1)
  next
    case False
    then have e: "unat e \<noteq> 0" "unat e < 256" using unsigned_less [of e] by (simp_all add: unat_eq_0)
    have u: "unat (ucast e :: u64) = unat e" using e by (simp add: unsigned_ucast_eq take_bit_nat_eq_self)
    then have "(ucast e :: u64) \<noteq> 0" using e by auto
    then have "unat (ucast e - 1 :: u64) = unat e - 1" using u by (simp add: unat_minus_one)
    then have "unat (drop_bit 8 (ucast e - 1 :: u64)) = 0" using e by (simp add: drop_bit_eq_div unat_div)
    then have "drop_bit 8 (ucast e - 1 :: u64) = 0" by (simp add: unat_eq_0)
    then show ?thesis using False xor_fold_zero [OF assms] by (simp add: v e_def)
  qed
qed

subsection \<open>Properties\<close>

text \<open>(C9) Adding, subtracting and doubling points in extended coordinates, on reduced limbs: no
  machine integer overflows, the results are reduced again, and their coordinates are those of
  the addition law of the curve \<open>- x^2 + y^2 = 1 + d x^2 y^2\<close> (as fractions \<open>X / Z\<close> and \<open>Y / T\<close> of a completed
  point), with \<open>d\<close> the constant of the code.\<close>

theorem ge_add_correct:
  assumes "p3_ok p" "p3_ok q"
  defines "X1 \<equiv> fe_val (p3_X p)" and "Y1 \<equiv> fe_val (p3_Y p)" and "Z1 \<equiv> fe_val (p3_Z p)" and "T1 \<equiv> fe_val (p3_T p)"
    and "X2 \<equiv> fe_val (p3_X q)" and "Y2 \<equiv> fe_val (p3_Y q)" and "Z2 \<equiv> fe_val (p3_Z q)" and "T2 \<equiv> fe_val (p3_T q)"
  shows "p1_is (ge_add p (ge_p3_to_cached q)) (2 * (X1 * Y2 + Y1 * X2)) (2 * (Y1 * Y2 + X1 * X2))
      (2 * (Z1 * Z2 + d_val * T1 * T2)) (2 * (Z1 * Z2 - d_val * T1 * T2)) \<and>
    p1_is (ge_sub p (ge_p3_to_cached q)) (2 * (X1 * Y2 - Y1 * X2)) (2 * (Y1 * Y2 - X1 * X2))
      (2 * (Z1 * Z2 - d_val * T1 * T2)) (2 * (Z1 * Z2 + d_val * T1 * T2)) \<and>
    p1_is (ge_p3_dbl p) (2 * (X1 * Y1)) (Y1 * Y1 + X1 * X1) (Y1 * Y1 - X1 * X1) (2 * (Z1 * Z1) - (Y1 * Y1 - X1 * X1)) \<and>
    p3_ok (ge_p1p1_to_p3 (ge_add p (ge_p3_to_cached q)))"
proof -
  have "length (p3_X p) = 10" "length (p3_Y p) = 10" "length (p3_Z p) = 10" "p2_ok (ge_p3_to_p2 p)"
    using assms(1) withinD(2) by (auto simp: p3_ok_def p2_ok_def ge_p3_to_p2_def fe_copy_id)
  then have "p1_is (ge_p3_dbl p) (2 * (X1 * Y1)) (Y1 * Y1 + X1 * X1) (Y1 * Y1 - X1 * X1) (2 * (Z1 * Z1) - (Y1 * Y1 - X1 * X1))"
    using ge_p2_dbl_val [of "ge_p3_to_p2 p"] by (simp add: ge_p3_dbl_def ge_p3_to_p2_def fe_copy_id X1_def Y1_def Z1_def)
  then show ?thesis
    using ge_p3_add [OF assms(1,2)] ge_p3_sub [OF assms(1,2)] p1p1_to_p3_val(1) [OF ge_p3_add [OF assms(1,2)]]
    by (simp add: X1_def Y1_def Z1_def T1_def X2_def Y2_def Z2_def T2_def)
qed

text \<open>(C10) \<open>slide\<close> recodes every scalar: the 256 digits add up to it modulo \<open>2 ^ 256\<close>, and each is zero or
  odd and between -15 and 15, so it selects one of the eight precomputed odd multiples.\<close>

theorem slide_recodes:
  assumes "length a = 32"
  shows "(\<Sum>i < 256. slide a ! i * 2 ^ i) mod 2 ^ 256 = le_val a mod 2 ^ 256 \<and>
    (\<forall>i < 256. slide a ! i = 0 \<or> odd (slide a ! i) \<and> \<bar>slide a ! i\<bar> \<le> 15)"
  using slide_ok [of a] slide_bits_val [OF assms] by (simp add: sliding_def digit_ok_def digit_sum_def)

text \<open>The multiplications by a scalar stay within the bounds of the field arithmetic for every
  scalar: from a reduced point (and a table of eight bounded entries) they compute a reduced
  point, and no table is read beyond its end.\<close>

theorem scalarmult_in_bounds:
  assumes "p3_ok A" "length Bi = 8" "\<forall>q \<in> set Bi. precomp_ok q"
  shows "p3_ok (ge_scalarmult_vartime a A) \<and> p2_ok (ge_double_scalarmult_vartime Bi a A b) \<and>
    length (odd_multiples A) = 8 \<and> (\<forall>i < 256. nat (\<bar>slide a ! i\<bar> div 2) < 8)"
proof (intro conjI)
  note Ai = odd_multiples_ok [OF assms(1)]
  have step: "p1_ok (add_digit (odd_multiples A) (slide a ! i) r)" if "i < 256" "p1_ok r" for i r
    using Ai that by (intro add_digit_ok slide_digit) auto
  show "p3_ok (ge_scalarmult_vartime a A)"
    unfolding ge_scalarmult_vartime_def Let_def
  proof (rule foldl_keeps [where P = p3_ok, OF zero_ok(1)])
    fix r i assume "p3_ok r" "i \<in> set (dropWhile (\<lambda>i. slide a ! i = 0) (rev [0..<256]))"
    then show "p3_ok (ge_p1p1_to_p3 (add_digit (odd_multiples A) (slide a ! i) (ge_p3_dbl r)))"
      by (intro p1_okD(1) step p3_dbl_ok dropWhile_below)
  qed
  show "p2_ok (ge_double_scalarmult_vartime Bi a A b)" using assms by (rule double_scalarmult_ok)
  show "length (odd_multiples A) = 8" using Ai by simp
  show "\<forall>i < 256. nat (\<bar>slide a ! i\<bar> div 2) < 8"
  proof (intro allI impI)
    fix i :: nat assume "i < 256"
    from slide_digit [OF this, of a] show "nat (\<bar>slide a ! i\<bar> div 2) < 8" by (auto simp: digit_ok_def)
  qed
qed

text \<open>The comparison of secrets in constant time is 0 exactly for equal bytes, and -1 otherwise.\<close>

theorem crypto_verify_correct:
  assumes "n \<le> length x" "n \<le> length y"
  shows "crypto_verify n x y = (if take n x = take n y then 0 else - 1)"
  using assms by (rule crypto_verify_eq)

subsection \<open>Witnesses\<close>

theorem ge_add_correct_witness:
  "p3_ok (ge_p1p1_to_p3 (ge_add ge_p3_0 (ge_p3_to_cached ge_p3_0)))"
  using ge_add_correct [OF zero_ok(1) zero_ok(1)] by blast

theorem slide_recodes_witness: "(\<Sum>i < 256. slide (replicate 32 0xa7) ! i * 2 ^ i) mod 2 ^ 256 = le_val (replicate 32 0xa7) mod 2 ^ 256"
  using slide_recodes [of "replicate 32 0xa7"] by simp

theorem scalarmult_in_bounds_witness: "p3_ok (ge_scalarmult_vartime (replicate 32 0x35) ge_p3_0)"
  using scalarmult_in_bounds [OF zero_ok(1), of "replicate 8 ge_precomp_0" "replicate 32 0x35"] zero_ok
  by (auto simp: precomp_ok_def ge_precomp_0_def p3_ok_def ge_p3_0_def reduced_loose)

theorem crypto_verify_correct_witness: "crypto_verify 2 [1, 2, 3] [1, 2, 9] = 0 \<and> crypto_verify 3 [1, 2, 3] [1, 2, 9] = - 1"
  using crypto_verify_correct [of 2 "[1, 2, 3]" "[1, 2, 9]"] crypto_verify_correct [of 3 "[1, 2, 3]" "[1, 2, 9]"] by simp

end
