(* ===== verification/Scalar25519.thy ===== *)
theory Scalar25519
  imports Field25519
begin

text \<open>
  The arithmetic modulo the order of the group of \<open>kernel/crypto/ed25519/curve25519_ref10.c\<close>,
  \<open>sc_muladd\<close> and \<open>sc_reduce\<close>: the scalars of a signature. A scalar is cut into limbs of 21 bits,
  the variables \<open>s0\<close> to \<open>s23\<close> of the code, here the entries of a list; the operations on
  \<open>int64_t\<close> wrap, as in \<open>Field25519\<close>. The code is straight-line: every group of statements
  between two blank lines of it is one of the definitions below.
\<close>

subsection \<open>Loading the limbs\<close>

text \<open>\<open>2097151 & (load_3(p + q) >> r)\<close> and the same with \<open>load_4\<close>.\<close>

definition limb_3 :: "u8 list \<Rightarrow> nat \<Rightarrow> nat \<Rightarrow> int" where
  "limb_3 p q r = sint (2097151 AND drop_bit r (load_3 (drop q p)))"

definition limb_4 :: "u8 list \<Rightarrow> nat \<Rightarrow> nat \<Rightarrow> int" where
  "limb_4 p q r = sint (2097151 AND drop_bit r (load_4 (drop q p)))"

definition sc_limbs_low :: "u8 list \<Rightarrow> int list" where
  "sc_limbs_low p =
     [limb_3 p 0 0, limb_4 p 2 5, limb_3 p 5 2, limb_4 p 7 7, limb_4 p 10 4, limb_3 p 13 1,
      limb_4 p 15 6, limb_3 p 18 3, limb_3 p 21 0, limb_4 p 23 5, limb_3 p 26 2]"

definition sc_limbs_32 :: "u8 list \<Rightarrow> int list" where
  "sc_limbs_32 p = sc_limbs_low p @ [sint (drop_bit 7 (load_4 (drop 28 p)))]"

definition sc_limbs_64 :: "u8 list \<Rightarrow> int list" where
  "sc_limbs_64 p =
     sc_limbs_low p @
     [limb_4 p 28 7, limb_4 p 31 4, limb_3 p 34 1, limb_4 p 36 6, limb_3 p 39 3, limb_3 p 42 0,
      limb_4 p 44 5, limb_3 p 47 2, limb_4 p 49 7, limb_4 p 52 4, limb_3 p 55 1, limb_4 p 57 6,
      sint (drop_bit 3 (load_4 (drop 60 p)))]"

subsection \<open>Carrying and folding\<close>

text \<open>The carry of limb \<open>i\<close> into the next one, rounded to nearest in the first passes and down in
  the last ones, and the six statements that add a limb of weight \<open>2 ^ (21 * j)\<close> to the limbs
  from \<open>j - 12\<close> on.\<close>

definition sc_carry :: "nat \<Rightarrow> int list \<Rightarrow> int list" where
  "sc_carry i s =
     (let c = a64 (s ! i) (2 ^ 20) div 2 ^ 21
      in s[Suc i := a64 (s ! Suc i) c, i := s64 (s ! i) (m64 c (2 ^ 21))])"

definition sc_floor :: "nat \<Rightarrow> int list \<Rightarrow> int list" where
  "sc_floor i s =
     (let c = s ! i div 2 ^ 21
      in s[Suc i := a64 (s ! Suc i) c, i := s64 (s ! i) (m64 c (2 ^ 21))])"

definition sc_fold :: "nat \<Rightarrow> int list \<Rightarrow> int list" where
  "sc_fold j s =
     (let x = s ! j; t = j - 12
      in s[t := a64 (s ! t) (m64 x 666643),
           t + 1 := a64 (s ! (t + 1)) (m64 x 470296),
           t + 2 := a64 (s ! (t + 2)) (m64 x 654183),
           t + 3 := s64 (s ! (t + 3)) (m64 x 997805),
           t + 4 := a64 (s ! (t + 4)) (m64 x 136657),
           t + 5 := s64 (s ! (t + 5)) (m64 x 683901)])"

definition sc_carry_all :: "int list \<Rightarrow> int list" where
  "sc_carry_all s =
     fold sc_carry [1, 3, 5, 7, 9, 11, 13, 15, 17, 19, 21]
       (fold sc_carry [0, 2, 4, 6, 8, 10, 12, 14, 16, 18, 20, 22] s)"

definition sc_fold_upper :: "int list \<Rightarrow> int list" where
  "sc_fold_upper s = fold sc_fold [23, 22, 21, 20, 19, 18] s"

definition sc_carry_middle :: "int list \<Rightarrow> int list" where
  "sc_carry_middle s =
     fold sc_carry [7, 9, 11, 13, 15] (fold sc_carry [6, 8, 10, 12, 14, 16] s)"

definition sc_fold_lower :: "int list \<Rightarrow> int list" where
  "sc_fold_lower s = (fold sc_fold [17, 16, 15, 14, 13, 12] s)[12 := 0]"

definition sc_carry_low :: "int list \<Rightarrow> int list" where
  "sc_carry_low s = fold sc_carry [1, 3, 5, 7, 9, 11] (fold sc_carry [0, 2, 4, 6, 8, 10] s)"

definition sc_fold_top :: "int list \<Rightarrow> int list" where
  "sc_fold_top s = (sc_fold 12 s)[12 := 0]"

definition sc_floor_12 :: "int list \<Rightarrow> int list" where
  "sc_floor_12 s = fold sc_floor [0, 1, 2, 3, 4, 5, 6, 7, 8, 9, 10, 11] s"

definition sc_floor_11 :: "int list \<Rightarrow> int list" where
  "sc_floor_11 s = fold sc_floor [0, 1, 2, 3, 4, 5, 6, 7, 8, 9, 10] (sc_fold 12 s)"

text \<open>The part that the two functions share, from 24 limbs to 12.\<close>

definition sc_reduce_limbs :: "int list \<Rightarrow> int list" where
  "sc_reduce_limbs s =
     sc_floor_11 (sc_floor_12 (sc_fold_top (sc_carry_low (sc_fold_lower (sc_carry_middle (sc_fold_upper s))))))"

subsection \<open>Storing the bytes\<close>

text \<open>\<open>s0 >> q\<close>, and \<open>(s0 >> q) | (s1 * ((uint64_t) 1 << k))\<close>, cut to a byte.\<close>

definition sc_pack :: "int list \<Rightarrow> u8 list" where
  "sc_pack s =
     (let sh = (\<lambda>i q. byte_of (drop_bit q (s ! i)));
          st = (\<lambda>i q k. byte_of (drop_bit q (s ! i) OR m64 (s ! Suc i) (2 ^ k)))
      in [sh 0 0, sh 0 8, st 0 16 5, sh 1 3, sh 1 11, st 1 19 2, sh 2 6, st 2 14 7, sh 3 1, sh 3 9,
          st 3 17 4, sh 4 4, sh 4 12, st 4 20 1, sh 5 7, st 5 15 6, sh 6 2, sh 6 10, st 6 18 3,
          sh 7 5, sh 7 13, sh 8 0, sh 8 8, st 8 16 5, sh 9 3, sh 9 11, st 9 19 2, sh 10 6,
          st 10 14 7, sh 11 1, sh 11 9, sh 11 17])"

subsection \<open>The two functions\<close>

definition sc_product :: "int list \<Rightarrow> int list \<Rightarrow> int list \<Rightarrow> int list" where
  "sc_product a b c =
     (let a0 = a ! 0; a1 = a ! 1; a2 = a ! 2; a3 = a ! 3; a4 = a ! 4; a5 = a ! 5; a6 = a
          ! 6; a7 = a ! 7; a8 = a ! 8; a9 = a ! 9; a10 = a ! 10; a11 = a ! 11; b0 = b !
          0; b1 = b ! 1; b2 = b ! 2; b3 = b ! 3; b4 = b ! 4; b5 = b ! 5; b6 = b ! 6; b7
          = b ! 7; b8 = b ! 8; b9 = b ! 9; b10 = b ! 10; b11 = b ! 11; c0 = c ! 0; c1 =
          c ! 1; c2 = c ! 2; c3 = c ! 3; c4 = c ! 4; c5 = c ! 5; c6 = c ! 6; c7 = c ! 7;
          c8 = c ! 8; c9 = c ! 9; c10 = c ! 10; c11 = c ! 11
      in [sum64 [c0, m64 a0 b0],
          sum64 [c1, m64 a0 b1, m64 a1 b0],
          sum64 [c2, m64 a0 b2, m64 a1 b1, m64 a2 b0],
          sum64 [c3, m64 a0 b3, m64 a1 b2, m64 a2 b1, m64 a3 b0],
          sum64 [c4, m64 a0 b4, m64 a1 b3, m64 a2 b2, m64 a3 b1, m64 a4 b0],
          sum64 [c5, m64 a0 b5, m64 a1 b4, m64 a2 b3, m64 a3 b2, m64 a4 b1, m64 a5 b0],
          sum64 [c6, m64 a0 b6, m64 a1 b5, m64 a2 b4, m64 a3 b3, m64 a4 b2, m64 a5 b1, m64
            a6 b0],
          sum64 [c7, m64 a0 b7, m64 a1 b6, m64 a2 b5, m64 a3 b4, m64 a4 b3, m64 a5 b2, m64
            a6 b1, m64 a7 b0],
          sum64 [c8, m64 a0 b8, m64 a1 b7, m64 a2 b6, m64 a3 b5, m64 a4 b4, m64 a5 b3, m64
            a6 b2, m64 a7 b1, m64 a8 b0],
          sum64 [c9, m64 a0 b9, m64 a1 b8, m64 a2 b7, m64 a3 b6, m64 a4 b5, m64 a5 b4, m64
            a6 b3, m64 a7 b2, m64 a8 b1, m64 a9 b0],
          sum64 [c10, m64 a0 b10, m64 a1 b9, m64 a2 b8, m64 a3 b7, m64 a4 b6, m64 a5 b5,
            m64 a6 b4, m64 a7 b3, m64 a8 b2, m64 a9 b1, m64 a10 b0],
          sum64 [c11, m64 a0 b11, m64 a1 b10, m64 a2 b9, m64 a3 b8, m64 a4 b7, m64 a5 b6,
            m64 a6 b5, m64 a7 b4, m64 a8 b3, m64 a9 b2, m64 a10 b1, m64 a11 b0],
          sum64 [m64 a1 b11, m64 a2 b10, m64 a3 b9, m64 a4 b8, m64 a5 b7, m64 a6 b6, m64
            a7 b5, m64 a8 b4, m64 a9 b3, m64 a10 b2, m64 a11 b1],
          sum64 [m64 a2 b11, m64 a3 b10, m64 a4 b9, m64 a5 b8, m64 a6 b7, m64 a7 b6, m64
            a8 b5, m64 a9 b4, m64 a10 b3, m64 a11 b2],
          sum64 [m64 a3 b11, m64 a4 b10, m64 a5 b9, m64 a6 b8, m64 a7 b7, m64 a8 b6, m64
            a9 b5, m64 a10 b4, m64 a11 b3],
          sum64 [m64 a4 b11, m64 a5 b10, m64 a6 b9, m64 a7 b8, m64 a8 b7, m64 a9 b6, m64
            a10 b5, m64 a11 b4],
          sum64 [m64 a5 b11, m64 a6 b10, m64 a7 b9, m64 a8 b8, m64 a9 b7, m64 a10 b6, m64
            a11 b5],
          sum64 [m64 a6 b11, m64 a7 b10, m64 a8 b9, m64 a9 b8, m64 a10 b7, m64 a11 b6],
          sum64 [m64 a7 b11, m64 a8 b10, m64 a9 b9, m64 a10 b8, m64 a11 b7],
          sum64 [m64 a8 b11, m64 a9 b10, m64 a10 b9, m64 a11 b8],
          sum64 [m64 a9 b11, m64 a10 b10, m64 a11 b9],
          sum64 [m64 a10 b11, m64 a11 b10],
          sum64 [m64 a11 b11],
          0])"

definition sc_muladd :: "u8 list \<Rightarrow> u8 list \<Rightarrow> u8 list \<Rightarrow> u8 list" where
  "sc_muladd a b c =
     sc_pack (sc_reduce_limbs (sc_carry_all (sc_product (sc_limbs_32 a) (sc_limbs_32 b) (sc_limbs_32 c))))"

text \<open>\<open>sc_reduce\<close> overwrites the first 32 of the 64 bytes.\<close>

definition sc_reduce :: "u8 list \<Rightarrow> u8 list" where
  "sc_reduce s = sc_pack (sc_reduce_limbs (sc_limbs_64 s)) @ drop 32 s"

subsection \<open>Interval analysis\<close>

text \<open>The statements as data, and an analysis that runs them on intervals: it knows for every limb
  an interval, and how many limbs count. It gives up when a limb might leave the range of
  \<open>int64_t\<close>, when a carry leaves the limbs that count, and when a folded limb is not the last.\<close>

datatype sc_step = Carry nat | Floor nat | Fold nat | Clear

primrec exec :: "sc_step \<Rightarrow> int list \<Rightarrow> int list" where
  "exec (Carry i) s = sc_carry i s"
| "exec (Floor i) s = sc_floor i s"
| "exec (Fold j) s = sc_fold j s"
| "exec Clear s = s[12 := 0]"

type_synonym interval = "int \<times> int"

definition fits :: "interval \<Rightarrow> bool" where
  "fits b \<longleftrightarrow> - (2 ^ 63) < fst b \<and> snd b < 2 ^ 63"

definition plus_i :: "interval \<Rightarrow> interval \<Rightarrow> interval" where
  "plus_i a b = (fst a + fst b, snd a + snd b)"

definition times_i :: "int \<Rightarrow> interval \<Rightarrow> interval" where
  "times_i c b = (if 0 \<le> c then (c * fst b, c * snd b) else (c * snd b, c * fst b))"

definition fold_coefs :: "int list" where
  "fold_coefs = [666643, 470296, 654183, - 997805, 136657, - 683901]"

definition fold_i :: "nat \<Rightarrow> interval list \<Rightarrow> interval list" where
  "fold_i t B =
     (let x = B ! (t + 12)
      in map (\<lambda>i. if t \<le> i \<and> i < t + 6 then plus_i (B ! i) (times_i (fold_coefs ! (i - t)) x) else B ! i)
           [0..<24])"

fun step_i :: "sc_step \<Rightarrow> nat \<times> interval list \<Rightarrow> (nat \<times> interval list) option" where
  "step_i (Carry i) (n, B) =
     (let b = plus_i (B ! i) (2 ^ 20, 2 ^ 20);
          B' = B[Suc i := plus_i (B ! Suc i) (fst b div 2 ^ 21, snd b div 2 ^ 21), i := (- (2 ^ 20), 2 ^ 20 - 1)]
      in if Suc i < n \<and> fits b \<and> fits (B' ! Suc i) then Some (n, B') else None)"
| "step_i (Floor i) (n, B) =
     (let b = B ! i;
          B' = B[Suc i := plus_i (B ! Suc i) (fst b div 2 ^ 21, snd b div 2 ^ 21), i := (0, 2 ^ 21 - 1)]
      in if Suc i < n \<and> fits (B' ! Suc i) then Some (n, B') else None)"
| "step_i (Fold j) (n, B) =
     (let B' = fold_i (j - 12) B
      in if n = Suc j \<and> 12 \<le> j \<and> list_all fits B' then Some (j, B') else None)"
| "step_i Clear (n, B) = (if n = 12 then Some (13, B[12 := (0, 0)]) else None)"

primrec steps_i :: "sc_step list \<Rightarrow> nat \<times> interval list \<Rightarrow> (nat \<times> interval list) option" where
  "steps_i [] nB = Some nB"
| "steps_i (x # xs) nB = Option.bind (step_i x nB) (steps_i xs)"

subsection \<open>The analysis is sound\<close>

definition sc_order :: int where "sc_order = 2 ^ 252 + 27742317777372353535851937790883648493"

definition sc_val :: "nat \<Rightarrow> int list \<Rightarrow> int" where
  "sc_val n s = (\<Sum>i < n. s ! i * 2 ^ (21 * i))"

definition inside :: "interval list \<Rightarrow> int list \<Rightarrow> bool" where
  "inside B s \<longleftrightarrow> length B = 24 \<and> length s = 24 \<and> (\<forall>i < 24. fst (B ! i) \<le> s ! i \<and> s ! i \<le> snd (B ! i))"

text \<open>What the analysis tracks: the intervals hold, and the limbs that count have the value of the
  number, up to a multiple of \<open>m\<close>: the order of the group, or 0 when nothing is folded.\<close>

definition sc_means :: "int \<Rightarrow> int \<Rightarrow> nat \<times> interval list \<Rightarrow> int list \<Rightarrow> bool" where
  "sc_means m X nB s \<longleftrightarrow> fst nB \<le> 24 \<and> inside (snd nB) s \<and> sc_val (fst nB) s mod m = X mod m"

lemma insideD: "inside B s \<Longrightarrow> i < 24 \<Longrightarrow> fst (B ! i) \<le> s ! i" "inside B s \<Longrightarrow> i < 24 \<Longrightarrow> s ! i \<le> snd (B ! i)"
  "inside B s \<Longrightarrow> length s = 24" "inside B s \<Longrightarrow> length B = 24"
  by (auto simp: inside_def)

lemma i64_fits: "fits b \<Longrightarrow> fst b \<le> x \<Longrightarrow> x \<le> snd b \<Longrightarrow> i64 x = x"
  by (auto simp: fits_def intro!: i64_id)

lemma i64_diff_simps: "i64 (a - i64 b) = i64 (a - b)"
  by (rule i64_cong) (metis i64_mod mod_diff_right_eq)

lemma sc_val_update:
  "i < n \<Longrightarrow> n \<le> length s \<Longrightarrow> sc_val n (s[i := v]) = sc_val n s + (v - s ! i) * 2 ^ (21 * i)"
proof -
  assume i: "i < n" "n \<le> length s"
  have "sc_val n (s[i := v]) = (\<Sum>k < n. s ! k * 2 ^ (21 * k) + (if k = i then (v - s ! i) * 2 ^ (21 * i) else 0))"
    unfolding sc_val_def using i by (intro sum.cong) (auto simp: nth_list_update algebra_simps)
  then show ?thesis using i by (simp add: sum.distrib sc_val_def)
qed

lemma shift_val: "c * 2 ^ (21 * Suc i) - c * 2 ^ 21 * 2 ^ (21 * i) = (0::int)"
  by (simp add: power_add)

text \<open>A carry of any \<open>c\<close> from a limb to the next keeps the value.\<close>

lemma carry_means:
  assumes m: "sc_means M X (n, B) s" and i: "Suc i < n"
    and lo: "fst (B ! Suc i) + l \<le> s ! Suc i + c" and hi: "s ! Suc i + c \<le> snd (B ! Suc i) + h"
    and r: "fst R \<le> s ! i - c * 2 ^ 21" "s ! i - c * 2 ^ 21 \<le> snd R" "fits R"
    and f: "fits (plus_i (B ! Suc i) (l, h))"
  shows "sc_means M X (n, B[Suc i := plus_i (B ! Suc i) (l, h), i := R])
    (s[Suc i := a64 (s ! Suc i) c, i := s64 (s ! i) (m64 c (2 ^ 21))])"
proof -
  have len: "n \<le> 24" "length s = 24" "length B = 24" using m by (auto simp: sc_means_def inside_def)
  have a: "a64 (s ! Suc i) c = s ! Suc i + c"
    unfolding a64_def using f lo hi by (intro i64_fits [OF f]) (auto simp: plus_i_def)
  have b: "s64 (s ! i) (m64 c (2 ^ 21)) = s ! i - c * 2 ^ 21"
    unfolding s64_def m64_def i64_diff_simps using r by (intro i64_fits [of R]) auto
  have "inside (B[Suc i := plus_i (B ! Suc i) (l, h), i := R]) (s[Suc i := s ! Suc i + c, i := s ! i - c * 2 ^ 21])"
    using m lo hi r i len by (auto simp: sc_means_def inside_def nth_list_update plus_i_def)
  moreover have "sc_val n (s[Suc i := s ! Suc i + c, i := s ! i - c * 2 ^ 21]) = sc_val n s"
    using i len shift_val [of c i] by (simp add: sc_val_update)
  ultimately show ?thesis using m unfolding a b by (simp add: sc_means_def)
qed

lemma step_carry:
  assumes "sc_means M X (n, B) s" "step_i (Carry i) (n, B) = Some nB"
  shows "sc_means M X nB (sc_carry i s)"
proof -
  define b where "b = plus_i (B ! i) (2 ^ 20, 2 ^ 20)"
  define l h where "l = fst b div 2 ^ 21" and "h = snd b div 2 ^ 21"
  have i: "Suc i < n" "fits b" and f: "fits (plus_i (B ! Suc i) (l, h))"
    and nB: "nB = (n, B[Suc i := plus_i (B ! Suc i) (l, h), i := (- (2 ^ 20), 2 ^ 20 - 1)])"
    and ins: "inside B s" "n \<le> 24"
    using assms by (auto simp: Let_def b_def l_def h_def sc_means_def inside_def split: if_splits)
  have si: "fst b \<le> s ! i + 2 ^ 20" "s ! i + 2 ^ 20 \<le> snd b"
    using insideD(1,2) [OF ins(1), of i] i ins(2) by (auto simp: b_def plus_i_def)
  have c: "a64 (s ! i) (2 ^ 20) = s ! i + 2 ^ 20" unfolding a64_def using i(2) si by (intro i64_fits)
  define c where "c = (s ! i + 2 ^ 20) div 2 ^ 21"
  have "l \<le> c" "c \<le> h" unfolding l_def h_def c_def using si by (auto intro: zdiv_mono1)
  moreover have "s ! i - c * 2 ^ 21 = (s ! i + 2 ^ 20) mod 2 ^ 21 - 2 ^ 20"
    using div_mult_mod_eq [of "s ! i + 2 ^ 20" "2 ^ 21"] unfolding c_def by linarith
  moreover have "0 \<le> (s ! i + 2 ^ 20) mod 2 ^ 21" "(s ! i + 2 ^ 20) mod 2 ^ 21 < 2 ^ 21"
    by simp_all
  ultimately show ?thesis
    unfolding nB sc_carry_def Let_def c c_def [symmetric] using insideD(1,2) [OF ins(1), of "Suc i"] i(1) ins(2) f
    by (intro carry_means assms) (auto simp: fits_def)
qed

lemma step_floor:
  assumes "sc_means M X (n, B) s" "step_i (Floor i) (n, B) = Some nB"
  shows "sc_means M X nB (sc_floor i s)"
proof -
  define l h where "l = fst (B ! i) div 2 ^ 21" and "h = snd (B ! i) div 2 ^ 21"
  have i: "Suc i < n" and f: "fits (plus_i (B ! Suc i) (l, h))"
    and nB: "nB = (n, B[Suc i := plus_i (B ! Suc i) (l, h), i := (0, 2 ^ 21 - 1)])"
    and ins: "inside B s" "n \<le> 24"
    using assms by (auto simp: Let_def l_def h_def sc_means_def inside_def split: if_splits)
  define c where "c = s ! i div 2 ^ 21"
  have "l \<le> c" "c \<le> h" unfolding l_def h_def c_def
    using insideD(1,2) [OF ins(1), of i] i ins(2) by (auto intro: zdiv_mono1)
  moreover have "s ! i - c * 2 ^ 21 = s ! i mod 2 ^ 21"
    using div_mult_mod_eq [of "s ! i" "2 ^ 21"] unfolding c_def by linarith
  moreover have "0 \<le> s ! i mod 2 ^ 21" "s ! i mod 2 ^ 21 < 2 ^ 21"
    by simp_all
  ultimately show ?thesis
    unfolding nB sc_floor_def Let_def c_def [symmetric] using insideD(1,2) [OF ins(1), of "Suc i"] i(1) ins(2) f
    by (intro carry_means assms) (auto simp: fits_def)
qed

lemma times_i_bounds:
  "fst b \<le> x \<Longrightarrow> x \<le> snd b \<Longrightarrow> fst (times_i c b) \<le> x * c \<and> x * c \<le> snd (times_i c b)"
  by (auto simp: times_i_def mult.commute [of x] intro: mult_left_mono mult_left_mono_neg)

lemma fold_order: "(2::int) ^ 252 - (666643 + 470296 * 2 ^ 21 + 654183 * 2 ^ 42 - 997805 * 2 ^ 63 + 136657 * 2 ^ 84 - 683901 * 2 ^ 105) = sc_order"
  by (simp add: sc_order_def)

lemma fold_coefs_nth:
  "fold_coefs ! 0 = 666643" "fold_coefs ! 1 = 470296" "fold_coefs ! 2 = 654183" "fold_coefs ! 3 = - 997805"
  "fold_coefs ! 4 = 136657" "fold_coefs ! 5 = - 683901" "fold_coefs ! Suc 0 = 470296"
  by (simp_all add: fold_coefs_def)

lemma fold_i_nth:
  "t \<le> i \<Longrightarrow> i < t + 6 \<Longrightarrow> i < 24 \<Longrightarrow> fold_i t B ! i = plus_i (B ! i) (times_i (fold_coefs ! (i - t)) (B ! (t + 12)))"
  "i < t \<or> t + 6 \<le> i \<Longrightarrow> i < 24 \<Longrightarrow> fold_i t B ! i = B ! i"
  "length (fold_i t B) = 24"
  by (auto simp: fold_i_def Let_def)

lemma fold_exact:
  assumes m: "inside B s" and j: "12 \<le> j" "j < 24" and t: "t = j - 12" and f: "list_all fits (fold_i t B)"
  shows "inside (fold_i t B) (sc_fold j s)"
    and "sc_val (Suc j) s = sc_val j (sc_fold j s) + s ! j * 2 ^ (21 * t) * sc_order"
proof -
  have len: "j < 24" "length s = 24" "inside B s" "t + 12 = j" "t + 5 < j"
    using m j t by (auto simp: inside_def)
  define x where "x = s ! j"
  define u where "u = s[t := s ! t + x * 666643, t + 1 := s ! (t + 1) + x * 470296, t + 2 := s ! (t + 2) + x * 654183,
    t + 3 := s ! (t + 3) - x * 997805, t + 4 := s ! (t + 4) + x * 136657, t + 5 := s ! (t + 5) - x * 683901]"
  have in_fold: "fst (fold_i t B ! i) \<le> s ! i + x * fold_coefs ! (i - t) \<and> s ! i + x * fold_coefs ! (i - t) \<le> snd (fold_i t B ! i)"
    if i: "t \<le> i" "i < t + 6" for i
    using times_i_bounds [of "B ! j" x "fold_coefs ! (i - t)"] insideD(1,2) [OF len(3), of i] insideD(1,2) [OF len(3), of j] i len
    by (simp add: fold_i_nth x_def plus_i_def)
  note at = in_fold [of t] in_fold [of "t + 1"] in_fold [of "t + 2"] in_fold [of "t + 3"] in_fold [of "t + 4"] in_fold [of "t + 5"]
  have ok: "fits (fold_i t B ! i)" if "i < 24" for i using f that by (simp add: list_all_length fold_i_nth(3))
  have eq: "sc_fold j s = u"
    unfolding sc_fold_def Let_def u_def x_def [symmetric] t [symmetric] a64_def s64_def m64_def i64_add_simps i64_diff_simps
    using at len
    by (simp add: fold_coefs_nth i64_fits [OF ok, of t] i64_fits [OF ok, of "t + 1"] i64_fits [OF ok, of "t + 2"]
      i64_fits [OF ok, of "t + 3"] i64_fits [OF ok, of "t + 4"] i64_fits [OF ok, of "t + 5"])
  show "inside (fold_i t B) (sc_fold j s)"
  proof -
    have "fst (fold_i t B ! i) \<le> u ! i \<and> u ! i \<le> snd (fold_i t B ! i)" if i: "i < 24" for i
    proof -
      consider "i < t \<or> t + 6 \<le> i" | "i = t" | "i = t + 1" | "i = t + 2" | "i = t + 3" | "i = t + 4" | "i = t + 5" by linarith
      then show ?thesis
        using at len i insideD(1,2) [OF len(3) i] by cases (auto simp: u_def fold_coefs_nth fold_i_nth(2))
    qed
    then show ?thesis using len unfolding eq by (simp add: inside_def fold_i_nth(3) u_def)
  qed
  have "sc_val (Suc j) s = sc_val j s + x * 2 ^ (21 * j)" by (simp add: sc_val_def x_def)
  also have "(2::int) ^ (21 * j) = 2 ^ (21 * t) * 2 ^ 252" unfolding len(4) [symmetric] by (simp add: power_add)
  finally show "sc_val (Suc j) s = sc_val j (sc_fold j s) + s ! j * 2 ^ (21 * t) * sc_order"
    unfolding fold_order [symmetric] eq u_def x_def [symmetric] using len(1,2,5)
    by (simp add: sc_val_update) (simp add: power_add algebra_simps)
qed

lemma step_fold:
  assumes "sc_means sc_order X (n, B) s" "step_i (Fold j) (n, B) = Some nB"
  shows "sc_means sc_order X nB (sc_fold j s)"
proof -
  have j: "n = Suc j" "12 \<le> j" "nB = (j, fold_i (j - 12) B)" "list_all fits (fold_i (j - 12) B)" "j < 24" "inside B s"
    using assms by (auto simp: Let_def sc_means_def split: if_splits)
  then show ?thesis using assms(1) fold_exact [of B s j "j - 12"] by (auto simp: sc_means_def)
qed

definition exact :: "sc_step \<Rightarrow> bool" where
  "exact x = (case x of Fold j \<Rightarrow> False | _ \<Rightarrow> True)"

lemma step_sound:
  "sc_means M X nB s \<Longrightarrow> M = sc_order \<or> exact x \<Longrightarrow> step_i x nB = Some nB' \<Longrightarrow> sc_means M X nB' (exec x s)"
proof (cases nB)
  case (Pair n B)
  assume m: "sc_means M X nB s" and M: "M = sc_order \<or> exact x" and st: "step_i x nB = Some nB'"
  show ?thesis
  proof (cases x)
    case (Fold j)
    then show ?thesis using m M st step_fold [of X n B s j] Pair by (auto simp: exact_def)
  next
    case Clear
    then have "n = 12" "nB' = (13, B[12 := (0, 0)])" using st Pair by (auto split: if_splits)
    moreover have "sc_val 13 (s[12 := 0]) = sc_val 12 s" if "length s = 24"
    proof -
      have "{..<13} = insert 12 {..<12::nat}" by auto
      then show ?thesis using that by (simp add: sc_val_def)
    qed
    ultimately show ?thesis using m Pair Clear by (auto simp: sc_means_def inside_def nth_list_update)
  qed (use m st Pair step_carry step_floor in auto)
qed

lemma steps_sound:
  "sc_means M X nB s \<Longrightarrow> M = sc_order \<or> list_all exact xs \<Longrightarrow> steps_i xs nB = Some nB' \<Longrightarrow> sc_means M X nB' (fold exec xs s)"
proof (induction xs arbitrary: nB s)
  case (Cons x xs)
  then obtain nC where "step_i x nB = Some nC" "steps_i xs nC = Some nB'" by (auto simp: bind_eq_Some_conv)
  then show ?case using Cons.IH [of nC "exec x s"] Cons.prems(1,2) step_sound [of M X nB s x nC] by auto
qed simp

subsection \<open>From the limbs to the number\<close>

text \<open>The steps of the code up to the last folding, and from there on.\<close>

definition sc_first :: "sc_step list" where
  "sc_first =
     map Fold [23, 22, 21, 20, 19, 18] @ map Carry [6, 8, 10, 12, 14, 16, 7, 9, 11, 13, 15] @
     map Fold [17, 16, 15, 14, 13, 12] @ [Clear] @ map Carry [0, 2, 4, 6, 8, 10, 1, 3, 5, 7, 9, 11] @ [Fold 12, Clear]"

definition sc_carries :: "sc_step list" where
  "sc_carries = map Carry [0, 2, 4, 6, 8, 10, 12, 14, 16, 18, 20, 22, 1, 3, 5, 7, 9, 11, 13, 15, 17, 19, 21]"

definition sc_floors :: "sc_step list" where
  "sc_floors = map Floor [0, 1, 2, 3, 4, 5, 6, 7, 8, 9, 10]"

lemma reduce_limbs_exec:
  "sc_reduce_limbs s = fold exec sc_floors (sc_fold 12 (sc_floor 11 (fold exec sc_floors (fold exec sc_first s))))"
  "sc_carry_all s = fold exec sc_carries s"
  by (simp_all add: sc_reduce_limbs_def sc_floor_11_def sc_floor_12_def sc_fold_top_def sc_carry_low_def
    sc_fold_lower_def sc_carry_middle_def sc_fold_upper_def sc_first_def sc_carries_def sc_floors_def sc_carry_all_def)

definition loaded_64 :: "interval list" where "loaded_64 = replicate 23 (0, 2 ^ 21 - 1) @ [(0, 2 ^ 29)]"

definition multiplied :: "interval list" where "multiplied = replicate 23 (0, 2 ^ 54) @ [(0, 0)]"

definition digits_i :: "nat \<Rightarrow> interval list \<Rightarrow> bool" where
  "digits_i k B \<longleftrightarrow> list_all (\<lambda>b. b = (0, 2 ^ 21 - 1)) (take k B)"

text \<open>What the analysis has to find: after the first steps the number is below \<open>2 ^ 252\<close> and the top
  limb small; after twelve floors the limbs are digits and the carry is \<open>-1\<close> or \<open>0\<close>; and
  after the last folding again all limbs but the last are digits.\<close>

definition settles :: "(nat \<times> interval list) option \<Rightarrow> bool" where
  "settles r =
     (case r of None \<Rightarrow> False | Some (n, B) \<Rightarrow>
        n = 13 \<and> B ! 11 = (- (2 ^ 20), 2 ^ 20 - 1) \<and> B ! 12 = (0, 0) \<and>
        list_all (\<lambda>b. - (2 ^ 33) < fst b \<and> snd b < 2 ^ 33) (take 11 B) \<and>
        (case steps_i (sc_floors @ [Floor 11]) (n, B) of None \<Rightarrow> False | Some (n2, B2) \<Rightarrow>
           n2 = 13 \<and> B2 ! 12 = (- 1, 0) \<and> digits_i 12 B2 \<and> list_all fits (fold_i 0 B2) \<and>
           (case steps_i sc_floors (12, fold_i 0 B2) of None \<Rightarrow> False | Some (n3, B3) \<Rightarrow>
              n3 = 12 \<and> digits_i 11 B3)))"

lemma analysis_64: "settles (steps_i sc_first (24, loaded_64))"
  by code_simp

lemma analysis_product: "settles (steps_i (sc_carries @ sc_first) (24, multiplied))"
  by code_simp

subsection \<open>Limbs and bytes\<close>

lemma le_val_Nil [simp]: "le_val [] = 0" by (simp add: le_val_def)

lemma le_val_Cons: "le_val (b # p) = uint b + 256 * le_val p"
  by (simp add: le_val_def sum.lessThan_Suc_shift sum_distrib_left power_add algebra_simps del: sum.lessThan_Suc)

lemma byte_bit_high: "8 \<le> m \<Longrightarrow> \<not> bit b m" for b :: u8
  using bit_imp_le_length [of b m] by auto

lemma bit_le_val: "bit (le_val p) n \<longleftrightarrow> n div 8 < length p \<and> bit (p ! (n div 8)) (n mod 8)"
proof (induction p arbitrary: n)
  case (Cons b p)
  have "uint b AND push_bit 8 (le_val p) = 0"
    by (intro bit_eqI) (auto simp: bit_simps bit_uint_iff byte_bit_high)
  then have eq: "le_val (b # p) = uint b OR push_bit 8 (le_val p)"
    by (simp add: le_val_Cons push_bit_eq_mult disjunctive_add_eq_or mult.commute)
  show ?case
  proof (cases "n < 8")
    case True
    then show ?thesis unfolding eq by (simp add: bit_simps bit_uint_iff)
  next
    case False
    then obtain m where "n = m + 8" by (metis add.commute le_Suc_ex not_less)
    moreover have "(m + 8) div 8 = Suc (m div 8)" "(m + 8) mod 8 = m mod 8" by simp_all
    ultimately show ?thesis unfolding eq using Cons.IH [of m] byte_bit_high [of n b] by (simp add: bit_simps bit_uint_iff)
  qed
qed simp

lemma byte_index: "8 * k \<le> n \<Longrightarrow> n < 8 * k + 8 \<Longrightarrow> n div 8 = k \<and> n mod 8 = n - 8 * k" for n :: nat
proof -
  assume "8 * k \<le> n" "n < 8 * k + 8"
  then have "n = 8 * k + (n - 8 * k)" "n - 8 * k < 8" by simp_all
  then show ?thesis by (metis add.commute add_cancel_left_right div_less div_mult_self4 mod_less mod_mult_self4 mult.commute zero_neq_numeral)
qed

lemma bit_load:
  "bit (load_4 p) n \<longleftrightarrow> n < 32 \<and> bit (p ! (n div 8)) (n mod 8)"
  "bit (load_3 p) n \<longleftrightarrow> n < 24 \<and> bit (p ! (n div 8)) (n mod 8)"
proof -
  consider "n < 8" | "8 \<le> n" "n < 16" | "16 \<le> n" "n < 24" | "24 \<le> n" "n < 32" | "32 \<le> n" by linarith
  then have "(bit (load_4 p) n \<longleftrightarrow> n < 32 \<and> bit (p ! (n div 8)) (n mod 8)) \<and>
    (bit (load_3 p) n \<longleftrightarrow> n < 24 \<and> bit (p ! (n div 8)) (n mod 8))"
    using byte_index [of 0 n] byte_index [of 1 n] byte_index [of 2 n] byte_index [of 3 n]
    by cases (auto simp: load_4_def load_3_def bit_simps byte_bit_high)
  then show "bit (load_4 p) n \<longleftrightarrow> n < 32 \<and> bit (p ! (n div 8)) (n mod 8)"
    "bit (load_3 p) n \<longleftrightarrow> n < 24 \<and> bit (p ! (n div 8)) (n mod 8)" by simp_all
qed

lemma bit_drop_le_val:
  "q < length p \<Longrightarrow> bit (le_val p) (8 * q + n) \<longleftrightarrow> q + n div 8 < length p \<and> bit (drop q p ! (n div 8)) (n mod 8)"
  by (simp add: bit_le_val)

text \<open>A masked load is 21 bits of the number that the bytes stand for.\<close>

lemma sint_small: "n < 64 \<Longrightarrow> w = take_bit n w \<Longrightarrow> sint w = uint w" for w :: u64
proof -
  assume n: "n < 64" "w = take_bit n w"
  then have "\<not> bit w 63" using bit_take_bit_iff [of n w 63] by auto
  moreover have "uint w = take_bit n (uint w)" using n(2) by (metis unsigned_take_bit_eq)
  then have "take_bit 63 (uint w) = uint w" using n(1) by (metis less_Suc_eq_le min.absorb2 numeral_eq_Suc pred_numeral_simps(2) pred_numeral_simps(3) take_bit_take_bit BitM.simps)
  ultimately show ?thesis by (simp add: sint_uint signed_take_bit_eq_if_positive bit_uint_iff)
qed

lemma limb_of_number:
  "q + 4 \<le> length p \<Longrightarrow> r \<le> 11 \<Longrightarrow> limb_4 p q r = take_bit 21 (drop_bit (8 * q + r) (le_val p))"
  "q + 3 \<le> length p \<Longrightarrow> r \<le> 3 \<Longrightarrow> limb_3 p q r = take_bit 21 (drop_bit (8 * q + r) (le_val p))"
proof -
  have m: "2097151 AND w = take_bit 21 w" for w :: u64 by (simp add: take_bit_eq_mask mask_eq_exp_minus_1 and.commute)
  have s: "sint (take_bit 21 w) = uint (take_bit 21 w)" for w :: u64 by (rule sint_small [of 21]) simp_all
  show "limb_4 p q r = take_bit 21 (drop_bit (8 * q + r) (le_val p))" if "q + 4 \<le> length p" "r \<le> 11"
    unfolding limb_4_def m s
    by (rule bit_eqI) (use that in \<open>auto simp: bit_simps bit_uint_iff bit_load bit_drop_le_val add.assoc\<close>)
  show "limb_3 p q r = take_bit 21 (drop_bit (8 * q + r) (le_val p))" if "q + 3 \<le> length p" "r \<le> 3"
    unfolding limb_3_def m s
    by (rule bit_eqI) (use that in \<open>auto simp: bit_simps bit_uint_iff bit_load bit_drop_le_val add.assoc\<close>)
qed

text \<open>Digits of 21 bits and a last limb determine each other and the number.\<close>

definition sc_digits :: "nat \<Rightarrow> int list \<Rightarrow> bool" where
  "sc_digits k s \<longleftrightarrow> (\<forall>i < k. 0 \<le> s ! i \<and> s ! i < 2 ^ 21)"

lemma sc_val_Suc: "sc_val (Suc n) s = sc_val n s + s ! n * 2 ^ (21 * n)"
  by (simp add: sc_val_def)

lemma sc_digits_range: "sc_digits k s \<Longrightarrow> 0 \<le> sc_val k s \<and> sc_val k s < 2 ^ (21 * k)"
proof (induction k)
  case (Suc k)
  then have k: "0 \<le> sc_val k s" "sc_val k s < 2 ^ (21 * k)" "0 \<le> s ! k" "s ! k \<le> 2 ^ 21 - 1" by (auto simp: sc_digits_def)
  then have "s ! k * 2 ^ (21 * k) \<le> (2 ^ 21 - 1) * 2 ^ (21 * k)" by (intro mult_right_mono) auto
  moreover have "(2::int) ^ (21 * Suc k) = 2 ^ 21 * 2 ^ (21 * k)" by (simp only: mult_Suc_right power_add)
  moreover have "0 \<le> s ! k * 2 ^ (21 * k)" using k(3) by simp
  ultimately show ?case using k(1,2) unfolding sc_val_Suc left_diff_distrib mult_1 by linarith
qed (simp add: sc_val_def)

lemma sc_val_digit:
  assumes "sc_digits n s" "i < n"
  shows "s ! i = take_bit 21 (drop_bit (21 * i) (sc_val (Suc n) s))"
    and "s ! n = drop_bit (21 * n) (sc_val (Suc n) s)"
proof -
  have rest: "\<exists>z. sc_val (Suc n) s = sc_val (Suc i) s + 2 ^ (21 * Suc i) * z" if "i < n" for i
    using that
  proof (induction n)
    case (Suc n)
    then obtain z where "sc_val (Suc n) s = sc_val (Suc i) s + 2 ^ (21 * Suc i) * z"
      by (cases "i = n") (auto intro: exI [of _ 0])
    moreover have "(2::int) ^ (21 * Suc n) = 2 ^ (21 * Suc i) * 2 ^ (21 * (n - i))" using Suc.prems by (simp flip: power_add)
    ultimately have "sc_val (Suc (Suc n)) s = sc_val (Suc i) s + 2 ^ (21 * Suc i) * (z + s ! Suc n * 2 ^ (21 * (n - i)))"
      by (simp only: sc_val_Suc [of "Suc n"]) (simp only: algebra_simps)
    then show ?case by blast
  qed simp
  obtain z where z: "sc_val (Suc n) s = sc_val (Suc i) s + 2 ^ (21 * Suc i) * z" using rest [OF assms(2)] by blast
  have si: "0 \<le> s ! i" "s ! i < 2 ^ 21" "0 \<le> sc_val i s" "sc_val i s < 2 ^ (21 * i)"
    using assms sc_digits_range [of i s] by (auto simp: sc_digits_def)
  have "sc_val (Suc n) s = sc_val i s + 2 ^ (21 * i) * (s ! i + 2 ^ 21 * z)"
    unfolding z sc_val_Suc [of i] mult_Suc_right power_add by (simp only: algebra_simps)
  then have "sc_val (Suc n) s div 2 ^ (21 * i) = s ! i + 2 ^ 21 * z" using si(3,4) by simp
  then show "s ! i = take_bit 21 (drop_bit (21 * i) (sc_val (Suc n) s))"
    unfolding take_bit_eq_mod drop_bit_eq_div using si(1,2) by simp
  show "s ! n = drop_bit (21 * n) (sc_val (Suc n) s)"
    using sc_digits_range [OF assms(1)] by (simp add: sc_val_Suc drop_bit_eq_div)
qed

lemma bit_byte_of: "bit (byte_of x) n \<longleftrightarrow> n < 8 \<and> bit x n"
  by (simp add: byte_of_def bit_word_of_int_iff)

text \<open>A byte inside a limb, and one across the border of two limbs.\<close>

lemma pack_inside: "q + 8 \<le> 21 \<Longrightarrow> byte_of (drop_bit q (take_bit 21 (drop_bit k Y))) = byte_of (drop_bit (k + q) Y)"
  by (rule bit_eqI) (auto simp: bit_byte_of bit_simps add.assoc)

lemma pack_across_limb:
  assumes X: "\<And>m. m < 8 \<Longrightarrow> bit X m = bit Y (k + 21 + m)" and q: "q \<le> 21" "r = 21 - q"
  shows "byte_of (drop_bit q (take_bit 21 (drop_bit k Y)) OR X * 2 ^ r) = byte_of (drop_bit (k + q) Y)"
proof (rule bit_eqI)
  fix n
  show "bit (byte_of (drop_bit q (take_bit 21 (drop_bit k Y)) OR X * 2 ^ r)) n = bit (byte_of (drop_bit (k + q) Y)) n"
  proof (cases "q + n < 21")
    case False
    then obtain m where m: "n = m + r" using q by (metis add.commute le_add_diff_inverse le_diff_conv linorder_not_less)
    then have "k + 21 + m = k + q + n" using q by simp
    then show ?thesis using X [of m] q m False by (auto simp: bit_byte_of bit_simps ac_simps simp flip: push_bit_eq_mult)
  qed (use q in \<open>auto simp: bit_byte_of bit_simps ac_simps simp flip: push_bit_eq_mult\<close>)
qed

lemma pack_across:
  "q \<le> 21 \<Longrightarrow> r = 21 - q \<Longrightarrow> k' = k + 21 \<Longrightarrow>
   byte_of (drop_bit q (take_bit 21 (drop_bit k Y)) OR drop_bit k' Y * 2 ^ r) = byte_of (drop_bit (k + q) Y)"
  "q \<le> 21 \<Longrightarrow> r = 21 - q \<Longrightarrow> k' = k + 21 \<Longrightarrow>
   byte_of (drop_bit q (take_bit 21 (drop_bit k Y)) OR take_bit 21 (drop_bit k' Y) * 2 ^ r) = byte_of (drop_bit (k + q) Y)"
  by (rule pack_across_limb; simp add: bit_simps)+

lemma le_val_bytes: "le_val (map (\<lambda>k. byte_of (drop_bit (8 * k) Y)) [0..<n]) = take_bit (8 * n) Y"
  by (rule bit_eqI) (auto simp: bit_le_val bit_byte_of bit_simps)

lemma sc_pack_val:
  assumes "sc_digits 11 s" "s ! 11 < 2 ^ 25" "0 \<le> s ! 11"
  shows "sc_pack s = map (\<lambda>k. byte_of (drop_bit (8 * k) (sc_val 12 s))) [0..<32]"
proof -
  define Y where "Y = sc_val 12 s"
  have d: "s ! i = take_bit 21 (drop_bit (21 * i) Y)" if "i < 11" for i
    using sc_val_digit(1) [OF assms(1) that] by (simp add: Y_def)
  have e: "s ! 11 = drop_bit 231 Y"
    using sc_val_digit(2) [OF assms(1), of 0] by (simp add: Y_def)
  have m: "m64 (s ! Suc i) (2 ^ r) = s ! Suc i * 2 ^ r" if "i < 11" "r \<le> 7" for i r
  proof -
    have "0 \<le> s ! Suc i" "s ! Suc i < 2 ^ 25" 
      using assms that by (cases "i = 10"; force simp: sc_digits_def dest: spec [of _ "Suc i"])+
    moreover have "(2::int) ^ r \<le> 2 ^ 7" using that(2) by (intro power_increasing) auto
    ultimately have "0 \<le> s ! Suc i * 2 ^ r" "s ! Suc i * 2 ^ r \<le> 2 ^ 25 * 2 ^ 7"
      using mult_mono [of "s ! Suc i" "2 ^ 25" "2 ^ r" "2 ^ 7"] by auto
    then show ?thesis unfolding m64_def by (intro i64_id) auto
  qed
  have sh: "byte_of (drop_bit q (s ! i)) = byte_of (drop_bit k Y)"
    if "i < 11 \<and> q \<le> 13 \<or> i = 11" "k = 21 * i + q" for i q k
    using that pack_inside [of q "21 * i" Y] d e by (auto simp: add.commute)
  have st: "byte_of (drop_bit q (s ! i) OR m64 (s ! Suc i) (2 ^ r)) = byte_of (drop_bit k Y)"
    if "i < 11" "q \<le> 21" "r = 21 - q" "r \<le> 7" "k = 21 * i + q" for i q r k
    using that pack_across [of q r "21 * Suc i" "21 * i" Y] d [of i] d [of "Suc i"] e m [of i r]
    by (cases "i = 10") simp_all
  have "[0..<32] = [0, 1, 2, 3, 4, 5, 6, 7, 8, 9, 10, 11, 12, 13, 14, 15, 16, 17, 18, 19, 20, 21, 22, 23, 24, 25, 26, 27, 28, 29, 30, 31::nat]"
    by (simp add: upt_rec)
  then show ?thesis
    unfolding Y_def [symmetric] sc_pack_def Let_def
    by (simp only: list.map list.inject) (intro conjI refl sh st; simp)
qed

subsection \<open>The reduction is exact\<close>

lemma digits_i_inside: "digits_i k B \<Longrightarrow> inside B s \<Longrightarrow> k \<le> 24 \<Longrightarrow> sc_digits k s"
proof -
  assume B: "digits_i k B" "inside B s" "k \<le> 24"
  have "0 \<le> s ! i \<and> s ! i < 2 ^ 21" if "i < k" for i
    using insideD(1,2) [OF B(2), of i] insideD(4) [OF B(2)] B(1,3) that by (auto simp: digits_i_def list_all_length)
  then show ?thesis by (simp add: sc_digits_def)
qed

lemma sc_val_small:
  assumes "inside B s" "list_all (\<lambda>b. - (2 ^ 33) < fst b \<and> snd b < 2 ^ 33) (take 11 B)"
  shows "\<bar>sc_val 11 s\<bar> < 2 ^ 244"
proof -
  have "\<bar>s ! i * 2 ^ (21 * i)\<bar> \<le> 2 ^ 33 * 2 ^ (21 * i)" if "i < 11" for i
    using insideD(1,2) [OF assms(1), of i] assms(2) that insideD(4) [OF assms(1)] by (auto simp: list_all_length abs_mult)
  then have "\<bar>sc_val 11 s\<bar> \<le> (\<Sum>i < 11. 2 ^ 33 * 2 ^ (21 * i))"
    unfolding sc_val_def by (intro order_trans [OF sum_abs] sum_mono) auto
  also have "\<dots> < 2 ^ 244" by (simp add: lessThan_nat_numeral lessThan_Suc)
  finally show ?thesis .
qed

text \<open>Folding a carry of \<open>-1\<close> adds the order, so the number ends in the range.\<close>

lemma final_range:
  fixes V r c :: int
  assumes "\<bar>V\<bar> < 2 ^ 251 + 2 ^ 244" "V = r + c * 2 ^ 252" "0 \<le> r" "r < 2 ^ 252" "- 1 \<le> c" "c \<le> 0"
  shows "V - c * sc_order = V mod sc_order"
proof -
  consider "c = 0" | "c = - 1" using assms(5,6) by linarith
  then have "0 \<le> V - c * sc_order \<and> V - c * sc_order < sc_order"
    using assms by cases (auto simp: sc_order_def)
  then have "(V - c * sc_order) mod sc_order = V - c * sc_order" by (simp add: mod_pos_pos_trivial)
  moreover have "(V - c * sc_order) mod sc_order = V mod sc_order" by (metis mod_mult_self4 diff_conv_add_uminus mult_minus_left add.commute mult.commute)
  ultimately show ?thesis by simp
qed

definition sc_last :: "int list \<Rightarrow> int list" where
  "sc_last s = fold exec sc_floors (sc_fold 12 (sc_floor 11 (fold exec sc_floors s)))"

lemma last_ok:
  assumes m: "sc_means sc_order X (n, B) s" and st: "settles (Some (n, B))"
  shows "sc_digits 11 (sc_last s)" "sc_val 12 (sc_last s) = X mod sc_order"
proof -
  obtain B2 B3 where n: "n = 13" "B ! 11 = (- (2 ^ 20), 2 ^ 20 - 1)" "B ! 12 = (0, 0)"
      "list_all (\<lambda>b. - (2 ^ 33) < fst b \<and> snd b < 2 ^ 33) (take 11 B)"
    and B2: "steps_i (sc_floors @ [Floor 11]) (13, B) = Some (13, B2)" "B2 ! 12 = (- 1, 0)" "digits_i 12 B2"
      "list_all fits (fold_i 0 B2)"
    and B3: "steps_i sc_floors (12, fold_i 0 B2) = Some (12, B3)" "digits_i 11 B3"
    using st unfolding settles_def by (auto split: option.splits prod.splits)
  define V where "V = sc_val 13 s"
  define s2 where "s2 = sc_floor 11 (fold exec sc_floors s)"
  have ex: "list_all exact sc_floors" by code_simp
  have ins: "inside B s" using m by (simp add: sc_means_def)
  have s2: "sc_means 0 V (13, B2) s2"
    using steps_sound [of 0 V "(13, B)" s "sc_floors @ [Floor 11]"] B2(1) ins ex
    by (simp add: sc_means_def V_def s2_def exact_def)
  then have in2: "inside B2 s2" "sc_val 13 s2 = V" by (simp_all add: sc_means_def)
  have f: "inside (fold_i 0 B2) (sc_fold 12 s2)" "V = sc_val 12 (sc_fold 12 s2) + s2 ! 12 * sc_order"
    using fold_exact [OF in2(1), of 12 0] B2(4) in2(2) by simp_all
  have l: "sc_means 0 (V - s2 ! 12 * sc_order) (12, B3) (sc_last s)"
    unfolding sc_last_def s2_def [symmetric]
    by (rule steps_sound [OF _ _ B3(1)]) (use f ex in \<open>simp_all add: sc_means_def\<close>)
  then show "sc_digits 11 (sc_last s)" using digits_i_inside [OF B3(2)] by (simp add: sc_means_def)
  have v: "V = sc_val 11 s + s ! 11 * 2 ^ 231 + s ! 12 * 2 ^ 252"
    using sc_val_Suc [of 12 s] sc_val_Suc [of 11 s] by (simp add: V_def)
  have "V = sc_val 12 s2 + s2 ! 12 * 2 ^ 252" using sc_val_Suc [of 12 s2] in2(2) by simp
  moreover have "0 \<le> sc_val 12 s2" "sc_val 12 s2 < 2 ^ 252"
    using sc_digits_range [OF digits_i_inside [OF B2(3) in2(1)]] by simp_all
  moreover have "- 1 \<le> s2 ! 12" "s2 ! 12 \<le> 0" using insideD(1,2) [OF in2(1), of 12] B2(2) by auto
  moreover have "\<bar>V\<bar> < 2 ^ 251 + 2 ^ 244"
    using v insideD(1,2) [OF ins, of 11] insideD(1,2) [OF ins, of 12] n(2,3) sc_val_small [OF ins n(4)] by auto
  ultimately have "V - s2 ! 12 * sc_order = V mod sc_order" by (intro final_range) auto
  moreover have "V mod sc_order = X mod sc_order" using m n(1) by (simp add: sc_means_def V_def)
  ultimately show "sc_val 12 (sc_last s) = X mod sc_order" using l by (simp add: sc_means_def)
qed

lemma packed_ok:
  assumes "sc_digits 11 s" "sc_val 12 s = X mod sc_order"
  shows "le_val (sc_pack s) = X mod sc_order" "length (sc_pack s) = 32"
proof -
  have r: "0 \<le> X mod sc_order" "X mod sc_order < sc_order" by (simp_all add: sc_order_def)
  have "s ! 11 = (X mod sc_order) div 2 ^ 231" using sc_val_digit(2) [OF assms(1), of 0] assms(2) by (simp add: drop_bit_eq_div)
  moreover have "0 \<le> (X mod sc_order) div 2 ^ 231" using r(1) by simp
  moreover have "(X mod sc_order) div 2 ^ 231 \<le> sc_order div 2 ^ 231" using r(2) by (intro zdiv_mono1) auto
  then have "(X mod sc_order) div 2 ^ 231 < 2 ^ 25" by (simp add: sc_order_def)
  ultimately have "sc_pack s = map (\<lambda>k. byte_of (drop_bit (8 * k) (X mod sc_order))) [0..<32]"
    using sc_pack_val [OF assms(1)] assms(2) by simp
  moreover have "take_bit 256 (X mod sc_order) = X mod sc_order"
    using r by (intro take_bit_int_eq_self) (auto simp: sc_order_def)
  ultimately show "le_val (sc_pack s) = X mod sc_order" "length (sc_pack s) = 32" using le_val_bytes [of _ 32] by simp_all
qed

lemma settled_pack:
  assumes "sc_means sc_order X (n, B) s" "settles (steps_i xs (n, B))" "fold exec xs s = t"
  shows "le_val (sc_pack (sc_last t)) = X mod sc_order" "length (sc_pack (sc_last t)) = 32"
proof -
  obtain n' B' where st: "steps_i xs (n, B) = Some (n', B')" using assms(2) by (auto simp: settles_def split: option.splits)
  have "sc_means sc_order X (n', B') t" using steps_sound [OF assms(1) _ st] assms(3) by simp
  from last_ok [OF this] packed_ok st assms(2)
  show "le_val (sc_pack (sc_last t)) = X mod sc_order" "length (sc_pack (sc_last t)) = 32" by auto
qed

subsection \<open>Loading and multiplying\<close>

lemma number_split:
  "0 \<le> N \<Longrightarrow> (\<Sum>i < n. take_bit 21 (drop_bit (21 * i) N) * 2 ^ (21 * i)) + drop_bit (21 * n) N * 2 ^ (21 * n) = (N::int)"
proof (induction n)
  case (Suc n)
  have "drop_bit (21 * n) N = take_bit 21 (drop_bit (21 * n) N) + drop_bit (21 * Suc n) N * 2 ^ 21"
    using bits_ident [of 21 "drop_bit (21 * n) N"]
    by (simp only: mult_Suc_right drop_bit_drop_bit [symmetric] push_bit_eq_mult add.commute)
  then have "drop_bit (21 * n) N * 2 ^ (21 * n) =
    (take_bit 21 (drop_bit (21 * n) N) + drop_bit (21 * Suc n) N * 2 ^ 21) * 2 ^ (21 * n)" by (rule arg_cong)
  also have "\<dots> = take_bit 21 (drop_bit (21 * n) N) * 2 ^ (21 * n) + drop_bit (21 * Suc n) N * 2 ^ (21 * Suc n)"
    by (simp only: mult_Suc_right power_add distrib_right mult.assoc)
  finally have "drop_bit (21 * n) N * 2 ^ (21 * n) =
    take_bit 21 (drop_bit (21 * n) N) * 2 ^ (21 * n) + drop_bit (21 * Suc n) N * 2 ^ (21 * Suc n)" .
  then show ?case using Suc by (simp only: sum.lessThan_Suc add.assoc)
qed simp

text \<open>The limbs that the two functions load are the digits of the number.\<close>

definition number_limbs :: "nat \<Rightarrow> int \<Rightarrow> int list" where
  "number_limbs n N = map (\<lambda>i. take_bit 21 (drop_bit (21 * i) N)) [0..<n] @ [drop_bit (21 * n) N]"

lemma number_limbs_val: "0 \<le> N \<Longrightarrow> sc_val (Suc n) (number_limbs n N) = N"
  using number_split [of N n] by (simp add: sc_val_def number_limbs_def nth_append)

lemma le_val_range: "0 \<le> le_val p" "le_val p < 2 ^ (8 * length p)"
proof -
  have "take_bit (8 * length p) (le_val p) = le_val p"
    by (rule bit_eqI) (auto simp: bit_simps bit_le_val)
  then show "0 \<le> le_val p" "le_val p < 2 ^ (8 * length p)"
    using take_bit_nonnegative [of "8 * length p" "le_val p"] take_bit_int_less_exp [of "8 * length p" "le_val p"] by simp_all
qed

lemma last_limb: "length p = q + 4 \<Longrightarrow> 0 < r \<Longrightarrow> sint (drop_bit r (load_4 (drop q p))) = drop_bit (8 * q + r) (le_val p)"
proof -
  assume p: "length p = q + 4" "0 < r"
  have "drop_bit r (load_4 (drop q p)) = take_bit 32 (drop_bit r (load_4 (drop q p)))"
    by (rule bit_eqI) (auto simp: bit_simps bit_load)
  then have "sint (drop_bit r (load_4 (drop q p))) = uint (drop_bit r (load_4 (drop q p)))" by (intro sint_small [of 32]) auto
  also have "\<dots> = drop_bit (8 * q + r) (le_val p)"
    by (rule bit_eqI) (use p in \<open>auto simp: bit_simps bit_uint_iff bit_load bit_drop_le_val add.assoc\<close>)
  finally show ?thesis .
qed

lemma upt_digits:
  "[0..<11] = [0, 1, 2, 3, 4, 5, 6, 7, 8, 9, 10 :: nat]"
  "[0..<23] = [0, 1, 2, 3, 4, 5, 6, 7, 8, 9, 10, 11, 12, 13, 14, 15, 16, 17, 18, 19, 20, 21, 22 :: nat]"
  by (simp_all add: upt_rec)

lemma limbs_of_number:
  "length p = 32 \<Longrightarrow> sc_limbs_32 p = number_limbs 11 (le_val p)"
  "length p = 64 \<Longrightarrow> sc_limbs_64 p = number_limbs 23 (le_val p)"
  unfolding sc_limbs_32_def sc_limbs_64_def sc_limbs_low_def number_limbs_def upt_digits
  by (simp_all add: limb_of_number last_limb)

lemma number_limbs_nth: "i < n \<Longrightarrow> number_limbs n N ! i = take_bit 21 (drop_bit (21 * i) N)" "number_limbs n N ! n = drop_bit (21 * n) N"
  "length (number_limbs n N) = Suc n"
  by (simp_all add: number_limbs_def nth_append)

lemma loaded_means: "length p = 64 \<Longrightarrow> sc_means sc_order (le_val p) (24, loaded_64) (sc_limbs_64 p)"
proof -
  assume p: "length p = 64"
  have "0 \<le> drop_bit 483 (le_val p)" "drop_bit 483 (le_val p) \<le> 2 ^ 29"
    using le_val_range [of p] zdiv_mono1 [of "le_val p" "2 ^ 512" "2 ^ 483"] p by (simp_all add: drop_bit_eq_div)
  moreover have "0 \<le> take_bit 21 N" "take_bit 21 N \<le> 2 ^ 21 - 1" for N :: int
    using take_bit_int_less_exp [of 21 N] by simp_all
  moreover have "i < 24 \<longleftrightarrow> i < 23 \<or> i = 23" for i :: nat by auto
  ultimately have "inside loaded_64 (number_limbs 23 (le_val p))"
    by (auto simp: inside_def loaded_64_def number_limbs_nth nth_append)
  then show ?thesis using number_limbs_val [OF le_val_range(1), of 23 p] by (simp add: sc_means_def limbs_of_number p)
qed

text \<open>The product of two numbers, limb by limb.\<close>

definition conv :: "int list \<Rightarrow> int list \<Rightarrow> nat \<Rightarrow> int" where
  "conv a b k = (\<Sum>i < 12. if i \<le> k \<and> k - i < 12 then a ! i * b ! (k - i) else 0)"

lemma sum_12: "(\<Sum>i < 12. F i) = F 0 + F 1 + F 2 + F 3 + F 4 + F 5 + F 6 + F 7 + F 8 + F 9 + F 10 + F (11::nat)" for F :: "nat \<Rightarrow> int"
  by (simp add: lessThan_nat_numeral lessThan_Suc)

lemma upt_24:
  "[0..<24] = [0, 1, 2, 3, 4, 5, 6, 7, 8, 9, 10, 11, 12, 13, 14, 15, 16, 17, 18, 19, 20, 21, 22, 23 :: nat]"
  by (simp add: upt_rec)

lemma sc_product_eq:
  "sc_product a b c = map (\<lambda>k. i64 ((if k < 12 then c ! k else 0) + conv a b k)) [0..<24]"
  unfolding upt_24 list.map sc_product_def Let_def
  by (simp only: sum64_def list.sel sum64_from.simps m64_def a64_def i64_add_simps)
    (simp add: conv_def sum_12 i64_def add.assoc)

lemma conv_val: "(\<Sum>k < 24. conv a b k * 2 ^ (21 * k)) = sc_val 12 a * sc_val 12 b"
proof -
  have row: "(\<Sum>k < 24. (if i \<le> k \<and> k - i < 12 then a ! i * b ! (k - i) else 0) * 2 ^ (21 * k)) =
    (\<Sum>j < 12. (a ! i * 2 ^ (21 * i)) * (b ! j * 2 ^ (21 * j)))" if "i < 12" for i
  proof -
    have "(\<Sum>k < 24. (if i \<le> k \<and> k - i < 12 then a ! i * b ! (k - i) else 0) * 2 ^ (21 * k)) =
      (\<Sum>k \<in> {0 + i..<12 + i}. a ! i * b ! (k - i) * 2 ^ (21 * k))"
      using that by (intro sum.mono_neutral_cong_right) auto
    then show ?thesis unfolding sum.shift_bounds_nat_ivl
      by (simp add: lessThan_atLeast0 power_add algebra_simps)
  qed
  have "(\<Sum>k < 24. conv a b k * 2 ^ (21 * k)) =
    (\<Sum>i < 12. \<Sum>k < 24. (if i \<le> k \<and> k - i < 12 then a ! i * b ! (k - i) else 0) * 2 ^ (21 * k))"
    unfolding conv_def sum_distrib_right by (rule sum.swap)
  also have "\<dots> = sc_val 12 a * sc_val 12 b"
    unfolding sc_val_def sum_product by (rule sum.cong [OF refl]) (rule row, simp)
  finally show ?thesis .
qed

definition limb_range :: "int list \<Rightarrow> bool" where
  "limb_range a \<longleftrightarrow> (\<forall>i < 12. 0 \<le> a ! i \<and> a ! i \<le> 2 ^ 25)"

lemma conv_range:
  assumes "limb_range a" "limb_range b"
  shows "0 \<le> conv a b k" "conv a b k \<le> 12 * 2 ^ 50"
proof -
  have t: "0 \<le> (if i \<le> k \<and> k - i < 12 then a ! i * b ! (k - i) else 0) \<and>
    (if i \<le> k \<and> k - i < 12 then a ! i * b ! (k - i) else 0) \<le> 2 ^ 50" if "i < 12" for i
    using assms that mult_mono [of "a ! i" "2 ^ 25" "b ! (k - i)" "2 ^ 25"] by (auto simp: limb_range_def)
  show "0 \<le> conv a b k" unfolding conv_def using t by (intro sum_nonneg) auto
  show "conv a b k \<le> 12 * 2 ^ 50"
    unfolding conv_def using sum_bounded_above [of "{..<12::nat}" _ "2 ^ 50 :: int"] t by fastforce
qed

lemma product_means:
  assumes r: "limb_range a" "limb_range b" "limb_range c"
  shows "sc_means sc_order (sc_val 12 a * sc_val 12 b + sc_val 12 c) (24, multiplied) (sc_product a b c)"
proof -
  define e where "e k = (if k < 12 then c ! k else 0) + conv a b k" for k :: nat
  have c: "0 \<le> (if k < 12 then c ! k else 0)" "(if k < 12 then c ! k else 0) \<le> 2 ^ 25" for k :: nat
    using r(3) by (auto simp: limb_range_def)
  have e: "0 \<le> e k" "e k \<le> 2 ^ 54" for k
    unfolding e_def using conv_range [OF r(1,2), of k] c [of k] by auto
  have "i64 (e k) = e k" for k using e [of k] by (intro i64_id) auto
  then have p: "sc_product a b c = map e [0..<24]" by (simp add: sc_product_eq e_def)
  have e23: "e 23 = 0" unfolding e_def conv_def by (subst sum.neutral) auto
  have "i < 24 \<longleftrightarrow> i < 23 \<or> i = 23" for i :: nat by auto
  then have "inside multiplied (map e [0..<24])" using e e23 by (auto simp: inside_def multiplied_def nth_append)
  moreover have "(\<Sum>k < 24. (if k < 12 then c ! k else 0) * 2 ^ (21 * k)) = sc_val 12 c"
    unfolding sc_val_def by (rule sum.mono_neutral_cong_right) auto
  then have "sc_val 24 (map e [0..<24]) = sc_val 12 a * sc_val 12 b + sc_val 12 c"
    using conv_val [of a b] by (simp add: sc_val_def [of 24] e_def distrib_right sum.distrib)
  ultimately show ?thesis by (simp add: sc_means_def p)
qed

lemma limbs_32_range: "length p = 32 \<Longrightarrow> limb_range (sc_limbs_32 p) \<and> sc_val 12 (sc_limbs_32 p) = le_val p"
proof -
  assume p: "length p = 32"
  have "0 \<le> drop_bit 231 (le_val p)" "drop_bit 231 (le_val p) \<le> 2 ^ 25"
    using le_val_range [of p] zdiv_mono1 [of "le_val p" "2 ^ 256" "2 ^ 231"] p by (simp_all add: drop_bit_eq_div)
  moreover have "0 \<le> take_bit 21 N" "take_bit 21 N \<le> 2 ^ 25" for N :: int
    using take_bit_int_less_exp [of 21 N] by simp_all
  moreover have "i < 12 \<longleftrightarrow> i < 11 \<or> i = 11" for i :: nat by auto
  ultimately have "limb_range (number_limbs 11 (le_val p))" by (auto simp: limb_range_def number_limbs_nth)
  then show ?thesis using number_limbs_val [OF le_val_range(1), of 11 p] by (simp add: limbs_of_number p)
qed

text \<open>Only the first 32 bytes of an array count.\<close>

lemma sc_limbs_32_take: "32 \<le> length p \<Longrightarrow> sc_limbs_32 p = sc_limbs_32 (take 32 p)"
  by (simp add: sc_limbs_32_def sc_limbs_low_def limb_3_def limb_4_def load_3_def load_4_def)

lemma reduce_limbs_last: "sc_last (fold exec sc_first t) = sc_reduce_limbs t"
  by (simp add: sc_last_def reduce_limbs_exec)

lemma sc_muladd_val:
  assumes "32 \<le> length a" "32 \<le> length b" "32 \<le> length c"
  shows "le_val (sc_muladd a b c) = (le_val (take 32 a) * le_val (take 32 b) + le_val (take 32 c)) mod sc_order"
    and "length (sc_muladd a b c) = 32"
proof -
  note r = limbs_32_range [of "take 32 a"] limbs_32_range [of "take 32 b"] limbs_32_range [of "take 32 c"]
  note t = assms [THEN sc_limbs_32_take]
  show "le_val (sc_muladd a b c) = (le_val (take 32 a) * le_val (take 32 b) + le_val (take 32 c)) mod sc_order"
    "length (sc_muladd a b c) = 32"
    using settled_pack [OF product_means analysis_product refl, of "sc_limbs_32 a" "sc_limbs_32 b" "sc_limbs_32 c"] r assms
    unfolding t by (simp_all add: reduce_limbs_last sc_muladd_def t reduce_limbs_exec(2) [symmetric])
qed

lemma sc_reduce_val:
  assumes "length s = 64"
  shows "le_val (take 32 (sc_reduce s)) = le_val s mod sc_order" "drop 32 (sc_reduce s) = drop 32 s" "length (sc_reduce s) = 64"
  using settled_pack [OF loaded_means analysis_64 refl] assms by (simp_all add: sc_reduce_def reduce_limbs_last)

subsection \<open>Properties\<close>

text \<open>(C13) \<open>sc_muladd\<close> stores \<open>(a * b + c) mod l\<close> and \<open>sc_reduce\<close> replaces a number of 64 bytes by its
  residue modulo \<open>l\<close>, for all inputs: nothing overflows and the result is the least residue.\<close>

theorem sc_arithmetic_correct:
  assumes "length a = 32" "length b = 32" "length c = 32" "length s = 64"
  shows "le_val (sc_muladd a b c) = (le_val a * le_val b + le_val c) mod sc_order \<and> length (sc_muladd a b c) = 32 \<and>
    le_val (take 32 (sc_reduce s)) = le_val s mod sc_order \<and> drop 32 (sc_reduce s) = drop 32 s"
  using sc_muladd_val [of a b c] sc_reduce_val [of s] assms by simp

theorem sc_arithmetic_correct_witness:
  "le_val (sc_muladd (replicate 32 0xff) (replicate 32 0xff) (replicate 32 0xff)) = (2 ^ 256 - 1) * 2 ^ 256 mod sc_order \<and>
   le_val (take 32 (sc_reduce (replicate 64 0xff))) = (2 ^ 512 - 1) mod sc_order"
proof -
  have v: "le_val (replicate 32 0xff) = 2 ^ 256 - 1" "le_val (replicate 64 0xff) = 2 ^ 512 - 1" by code_simp+
  show ?thesis using sc_arithmetic_correct [of "replicate 32 0xff" "replicate 32 0xff" "replicate 32 0xff" "replicate 64 0xff"]
    unfolding v by simp
qed

end
