(* ===== verification/Interrupts.thy ===== *)
theory Interrupts
  imports Serial Scheduler "HOL-Library.Multiset"
begin

text \<open>
  Interrupts: the gates of \<open>kernel/arch/x64/idt.c\<close>, the segment descriptors of
  \<open>kernel/arch/x64/gdt.c\<close>, the two interrupt controllers of \<open>kernel/arch/x64/pic.c\<close>, the table of
  handlers and the dispatcher of \<open>kernel/arch/x64/interrupts.c\<close>.
  The ports are the parameter \<open>io\<close> of \<open>Serial\<close>; a handler is a value whose
  call is a parameter of the dispatcher, because modules register handlers of their own.
\<close>

subsection \<open>Segment descriptors\<close>

record gdt_entry =
  limit_low :: u16
  base_low :: u16
  base_middle :: u8
  gdt_access :: u8
  granularity :: u8
  base_high :: u8

definition GRAN_64_BIT_MODE :: u32 where "GRAN_64_BIT_MODE = push_bit 5 1"
definition GRAN_4KIB_BLOCKS :: u32 where "GRAN_4KIB_BLOCKS = push_bit 7 1"

definition make_gdt_entry :: "u64 \<Rightarrow> u32 \<Rightarrow> u8 \<Rightarrow> u32 \<Rightarrow> gdt_entry" where
  "make_gdt_entry b limit acc gran =
     \<lparr>limit_low = ucast (limit AND 0xffff),
      base_low = ucast (drop_bit 0 b AND 0xffff),
      base_middle = ucast (drop_bit 16 b AND 0xff),
      gdt_access = acc AND 0xff,
      granularity = ucast ((drop_bit 16 limit AND 0x0f) OR (gran AND 0xf0)),
      base_high = ucast (drop_bit 24 b AND 0xff)\<rparr>"

text \<open>A descriptor of the task state takes two entries.\<close>

definition make_gdt_entry64 :: "u64 \<Rightarrow> u32 \<Rightarrow> u8 \<Rightarrow> u32 \<Rightarrow> gdt_entry list" where
  "make_gdt_entry64 b limit acc gran =
     [make_gdt_entry b limit acc gran,
      \<lparr>limit_low = ucast (drop_bit 32 b AND 0xffff), base_low = ucast (drop_bit 48 b AND 0xffff),
       base_middle = 0, gdt_access = 0, granularity = 0, base_high = 0\<rparr>]"

record tss_entry =
  tss_reserved0 :: u32
  stack0 :: u64
  stack1 :: u64
  stack2 :: u64
  tss_reserved1 :: u64
  ist :: "u64 list"
  tss_reserved2 :: u64
  tss_reserved3 :: u16
  iomap_base :: u16

definition Tss :: tss_entry where
  "Tss = \<lparr>tss_reserved0 = 0, stack0 = 0, stack1 = 0, stack2 = 0, tss_reserved1 = 0,
     ist = [0, 0, 0, 0, 0, 0, 0], tss_reserved2 = 0, tss_reserved3 = 0, iomap_base = 0\<rparr>"

definition sizeof_tss_entry :: u32 where "sizeof_tss_entry = 4 + 3 * 8 + 8 + 7 * 8 + 8 + 2 + 2"

definition GDT :: "gdt_entry list" where
  "GDT =
     [make_gdt_entry 0 0 0 0,
      make_gdt_entry 0 0xffffffff 0x9a (GRAN_64_BIT_MODE OR GRAN_4KIB_BLOCKS),
      make_gdt_entry 0 0xffffffff 0x92 (GRAN_64_BIT_MODE OR GRAN_4KIB_BLOCKS),
      make_gdt_entry 0 0xffffffff 0xfa (GRAN_64_BIT_MODE OR GRAN_4KIB_BLOCKS),
      make_gdt_entry 0 0xffffffff 0xf2 (GRAN_64_BIT_MODE OR GRAN_4KIB_BLOCKS)] @
     make_gdt_entry64 0 (sizeof_tss_entry - 1) 0xe9 0x00"

record gdt_register =
  gdt_limit :: u16
  gdt_base :: u64

definition sizeof_gdt_entry :: nat where "sizeof_gdt_entry = 8"

definition GDT_Register :: "u64 \<Rightarrow> gdt_register" where
  "GDT_Register at = \<lparr>gdt_limit = of_nat (length GDT * sizeof_gdt_entry - 1), gdt_base = at\<rparr>"

subsection \<open>Gates\<close>

record idt_entry =
  gate_low :: u16
  segment_selector :: u16
  always0 :: u8
  gate_flags :: u8
  gate_high :: u16
  gate_highest :: u32
  gate_reserved :: u32

record idt_ptr =
  idt_limit :: u16
  idt_base :: u64

definition IDT_Size :: nat where "IDT_Size = 256"
definition sizeof_idt_entry :: nat where "sizeof_idt_entry = 16"

definition empty_gate :: idt_entry where
  "empty_gate = \<lparr>gate_low = 0, segment_selector = 0, always0 = 0, gate_flags = 0, gate_high = 0,
     gate_highest = 0, gate_reserved = 0\<rparr>"

text \<open>A gate is chosen by a \<open>uint8_t\<close>, so that it is always one of the 256.\<close>

definition idt_set_gate :: "u8 \<Rightarrow> u64 \<Rightarrow> u16 \<Rightarrow> u8 \<Rightarrow> idt_entry list \<Rightarrow> idt_entry list" where
  "idt_set_gate num b selector flags idt =
     idt[unat num := (idt ! unat num)
       \<lparr>gate_low := ucast (b AND 0xffff),
        gate_high := ucast (drop_bit 16 b AND 0xffff),
        gate_highest := ucast (drop_bit 32 b),
        always0 := 0,
        segment_selector := selector,
        gate_flags := flags\<rparr>]"

definition Gate_Selector :: u16 where "Gate_Selector = 0x08"

fun idt_set_gates :: "nat \<Rightarrow> u64 list \<Rightarrow> idt_entry list \<Rightarrow> idt_entry list" where
  "idt_set_gates i [] idt = idt"
| "idt_set_gates i (isr # isrs) idt =
     idt_set_gates (Suc i) isrs (idt_set_gate (of_nat i) isr Gate_Selector 0x8e idt)"

text \<open>\<open>ISRs\<close> is the addresses of the 35 entry points of \<open>isr.S\<close>, \<open>at\<close> the address of the table.\<close>

definition idt_init :: "u64 list \<Rightarrow> u64 \<Rightarrow> idt_entry list \<Rightarrow> idt_entry list \<times> idt_ptr" where
  "idt_init ISRs at idt =
     (idt_set_gates 0 ISRs idt,
      \<lparr>idt_limit = of_nat (sizeof_idt_entry * IDT_Size - 1), idt_base = at\<rparr>)"

subsection \<open>The interrupt controllers\<close>

definition PIC1_Control :: u16 where "PIC1_Control = 0x20"
definition PIC1_Data :: u16 where "PIC1_Data = PIC1_Control + 1"
definition PIC2_Control :: u16 where "PIC2_Control = 0xa0"
definition PIC2_Data :: u16 where "PIC2_Data = PIC2_Control + 1"
definition PIC1_Offset :: u8 where "PIC1_Offset = 0x20"
definition PIC2_Offset :: u8 where "PIC2_Offset = 0x28"
definition PIC2_Identity :: u8 where "PIC2_Identity = 0x02"
definition PIC1_Next_PIC :: u8 where "PIC1_Next_PIC = push_bit 1 PIC2_Identity"
definition PIC_End_Of_Interrupt :: u8 where "PIC_End_Of_Interrupt = 0x20"
definition PIC2_First_Interrupt :: u8 where "PIC2_First_Interrupt = 0x08"
definition ICW1_Init :: u8 where "ICW1_Init = 0x10"
definition ICW1_ICW4_Disable :: u8 where "ICW1_ICW4_Disable = 0x01"
definition ICW4_8086_Mode :: u8 where "ICW4_8086_Mode = 0x01"
definition PIC_No_IRQ_Mask :: u8 where "PIC_No_IRQ_Mask = 0x0"

lemmas pic_consts =
  PIC1_Control_def PIC1_Data_def PIC2_Control_def PIC2_Data_def PIC1_Offset_def PIC2_Offset_def
  PIC2_Identity_def PIC1_Next_PIC_def PIC_End_Of_Interrupt_def PIC2_First_Interrupt_def ICW1_Init_def
  ICW1_ICW4_Disable_def ICW4_8086_Mode_def PIC_No_IRQ_Mask_def

definition pic_end_of_interrupt :: "'d io \<Rightarrow> u8 \<Rightarrow> 'd \<Rightarrow> 'd" where
  "pic_end_of_interrupt io interrupt_number d =
     (let d1 = (if interrupt_number > PIC2_First_Interrupt
                then write_port io PIC_End_Of_Interrupt PIC2_Control d else d)
      in write_port io PIC_End_Of_Interrupt PIC1_Control d1)"

definition pic_init :: "'d io \<Rightarrow> 'd \<Rightarrow> 'd" where
  "pic_init io d =
     (let d = write_port io (ICW1_Init OR ICW1_ICW4_Disable) PIC1_Control d;
          d = write_port io (ICW1_Init OR ICW1_ICW4_Disable) PIC2_Control d;
          d = write_port io PIC1_Offset PIC1_Data d;
          d = write_port io PIC2_Offset PIC2_Data d;
          d = write_port io PIC1_Next_PIC PIC1_Data d;
          d = write_port io PIC2_Identity PIC2_Data d;
          d = write_port io ICW4_8086_Mode PIC1_Data d;
          d = write_port io ICW4_8086_Mode PIC2_Data d;
          d = write_port io PIC_No_IRQ_Mask PIC1_Data d;
          d = write_port io PIC_No_IRQ_Mask PIC2_Data d
      in d)"

definition pic_fini :: "'d io \<Rightarrow> 'd \<Rightarrow> 'd" where
  "pic_fini io d =
     (let d = write_port io PIC_No_IRQ_Mask PIC1_Data d;
          d = write_port io PIC_No_IRQ_Mask PIC2_Data d
      in d)"

text \<open>The port of the mask and the line within its controller. The number is a \<open>uint8_t\<close> and is not
  bounded by 16; the \<open>int\<close> shift by up to 31 keeps the low eight bits, and one by more is
  undefined, a \<open>Fault\<close>.\<close>

definition pic_line :: "u8 \<Rightarrow> u16 \<times> u8" where
  "pic_line irq_number =
     (if irq_number < 8 then (PIC1_Data, irq_number) else (PIC2_Data, irq_number - 8))"

definition pic_enable :: "'d io \<Rightarrow> u8 \<Rightarrow> 'd \<Rightarrow> 'd res" where
  "pic_enable io irq_number d =
     (let (pic, line) = pic_line irq_number;
          (irq_mask, d1) = read_port io pic d in
      if unat line \<ge> 32 then Fault
      else Ret (write_port io (irq_mask OR ucast (push_bit (unat line) (1 :: u32))) pic d1))"

definition pic_disable :: "'d io \<Rightarrow> u8 \<Rightarrow> 'd \<Rightarrow> 'd res" where
  "pic_disable io irq_number d =
     (let (pic, line) = pic_line irq_number;
          (irq_mask, d1) = read_port io pic d in
      if unat line \<ge> 32 then Fault
      else Ret (write_port io (irq_mask AND ucast (NOT (push_bit (unat line) (1 :: u32)))) pic d1))"

subsection \<open>The table of handlers\<close>

record interrupt_cpu_state =
  st_ds :: u64
  st_r15 :: u64
  st_r14 :: u64
  st_r13 :: u64
  st_r12 :: u64
  st_r11 :: u64
  st_r10 :: u64
  st_r9 :: u64
  st_r8 :: u64
  st_rdi :: u64
  st_rsi :: u64
  st_rbp :: u64
  st_rdx :: u64
  st_rcx :: u64
  st_rbx :: u64
  st_rax :: u64
  interrupt_number :: u64
  err_code :: u64
  st_rip :: u64
  st_cs :: u64
  st_rflags :: u64
  st_rsp :: u64
  st_ss :: u64

definition Interrupt_Handlers_Count :: nat where "Interrupt_Handlers_Count = 10"

text \<open>The state behind the dispatcher; \<open>interrupts_on\<close> is the flag \<open>cli\<close> and \<open>sti\<close> change.\<close>

record ('h, 'd) irq = "'d log_state" +
  dispatch_table_lock :: lock
  Interrupt_Dispatch :: "'h option list list"
  IDT :: "idt_entry list"
  idtr :: "idt_ptr option"
  interrupts_on :: bool

definition interrupts_enable :: "('h, 'd, 'a) irq_scheme \<Rightarrow> ('h, 'd, 'a) irq_scheme" where
  "interrupts_enable s = s\<lparr>interrupts_on := True\<rparr>"

definition interrupts_disable :: "('h, 'd, 'a) irq_scheme \<Rightarrow> ('h, 'd, 'a) irq_scheme" where
  "interrupts_disable s = s\<lparr>interrupts_on := False\<rparr>"

definition idt_fini :: "('h, 'd, 'a) irq_scheme \<Rightarrow> ('h, 'd, 'a) irq_scheme" where
  "idt_fini s = interrupts_disable s"

definition slot_at :: "int \<Rightarrow> nat \<Rightarrow> ('h, 'd, 'a) irq_scheme \<Rightarrow> 'h option res" where
  "slot_at n i s =
     (if 0 \<le> n \<and> n < int (length (Interrupt_Dispatch s)) \<and> i < length (Interrupt_Dispatch s ! nat n)
      then Ret (Interrupt_Dispatch s ! nat n ! i) else Fault)"

definition set_slot :: "int \<Rightarrow> nat \<Rightarrow> 'h option \<Rightarrow> ('h, 'd, 'a) irq_scheme \<Rightarrow> ('h, 'd, 'a) irq_scheme" where
  "set_slot n i h s =
     s\<lparr>Interrupt_Dispatch := (Interrupt_Dispatch s)[nat n := (Interrupt_Dispatch s ! nat n)[i := h]]\<rparr>"

text \<open>The search both functions make: the first slot that holds \<open>old\<close> becomes \<open>new\<close>.\<close>

fun replace_slot ::
    "int \<Rightarrow> 'h option \<Rightarrow> 'h option \<Rightarrow> nat list \<Rightarrow> ('h, 'd, 'a) irq_scheme
      \<Rightarrow> (bool \<times> ('h, 'd, 'a) irq_scheme) res" where
  "replace_slot n old new [] s = Ret (False, s)"
| "replace_slot n old new (i # is) s =
     res_bind (slot_at n i s) (\<lambda>h.
     if h = old then Ret (True, set_slot n i new s) else replace_slot n old new is s)"

definition interrupt_register_handler ::
    "int \<Rightarrow> 'h \<Rightarrow> ('h, 'd, 'a) irq_scheme \<Rightarrow> (status \<times> ('h, 'd, 'a) irq_scheme) res" where
  "interrupt_register_handler n handler s =
     res_bind (lock_acquire_writer (dispatch_table_lock s)) (\<lambda>l.
     res_bind (replace_slot n None (Some handler) [0..<Interrupt_Handlers_Count] (s\<lparr>dispatch_table_lock := l\<rparr>))
       (\<lambda>(found, s1).
     res_bind (lock_release_writer (dispatch_table_lock s1)) (\<lambda>l1.
     Ret (if found then Ok else Error_Count, s1\<lparr>dispatch_table_lock := l1\<rparr>))))"

definition interrupt_unregister_handler ::
    "int \<Rightarrow> 'h \<Rightarrow> ('h, 'd, 'a) irq_scheme \<Rightarrow> (status \<times> ('h, 'd, 'a) irq_scheme) res" where
  "interrupt_unregister_handler n handler s =
     res_bind (lock_acquire_writer (dispatch_table_lock s)) (\<lambda>l.
     res_bind (replace_slot n (Some handler) None [0..<Interrupt_Handlers_Count] (s\<lparr>dispatch_table_lock := l\<rparr>))
       (\<lambda>(found, s1).
     res_bind (lock_release_writer (dispatch_table_lock s1)) (\<lambda>l1.
     Ret (if found then Ok else Error_Absent, s1\<lparr>dispatch_table_lock := l1\<rparr>))))"

subsection \<open>The dispatcher\<close>

text \<open>What calling a handler does: it may change the saved registers, which it gets by reference.\<close>

type_synonym ('h, 's) handler_call =
  "'h \<Rightarrow> interrupt_cpu_state \<Rightarrow> 's \<Rightarrow> (bool \<times> interrupt_cpu_state \<times> 's) res"

fun dispatch_loop ::
    "('h, ('h, 'd, 'a) irq_scheme) handler_call \<Rightarrow> nat list \<Rightarrow> interrupt_cpu_state
      \<Rightarrow> ('h, 'd, 'a) irq_scheme \<Rightarrow> (bool \<times> interrupt_cpu_state \<times> ('h, 'd, 'a) irq_scheme) res" where
  "dispatch_loop call [] r s = Ret (False, r, s)"
| "dispatch_loop call (i # is) r s =
     res_bind (slot_at (uint (interrupt_number r)) i s) (\<lambda>h.
     case h of None \<Rightarrow> dispatch_loop call is r s
     | Some f \<Rightarrow>
         res_bind (call f r s) (\<lambda>(handled, r1, s1).
         if handled then Ret (True, r1, s1) else dispatch_loop call is r1 s1))"

definition exception_line :: "string \<Rightarrow> string" where
  "exception_line name = name @ '': %lx'' @ [CHR 0x0A, CHR 0x09]"

definition exception_format :: string where
  "exception_format = CHR 0x09 # concat (map exception_line
     [''ds'', ''r15'', ''r14'', ''r13'', ''r12'', ''r11'', ''r10'', ''r9'', ''r8'', ''rdi'', ''rsi'', ''rbp'',
      ''rdx'', ''rcx'', ''rbx'', ''rax'', ''interrupt_number'', ''err_code'', ''rip'', ''cs'', ''rflags'',
      ''rsp'', ''ss'']) @ ''cr2: %p'' @ [CHR 0x0A]"

definition exception_args :: "interrupt_cpu_state \<Rightarrow> u64 \<Rightarrow> va list" where
  "exception_args r cr2 = map VLong
     [st_ds r, st_r15 r, st_r14 r, st_r13 r, st_r12 r, st_r11 r, st_r10 r, st_r9 r, st_r8 r,
      st_rdi r, st_rsi r, st_rbp r, st_rdx r, st_rcx r, st_rbx r, st_rax r,
      interrupt_number r, err_code r, st_rip r, st_cs r, st_rflags r, st_rsp r, st_ss r, cr2]"

definition interrupts_dispatcher ::
    "'d io \<Rightarrow> (('h, 'd, 'a) irq_scheme) warn_f \<Rightarrow> ('h, ('h, 'd, 'a) irq_scheme) handler_call \<Rightarrow> u64
      \<Rightarrow> interrupt_cpu_state \<Rightarrow> ('h, 'd, 'a) irq_scheme \<Rightarrow> (('h, 'd, 'a) irq_scheme) res" where
  "interrupts_dispatcher io warn call cr2 r s =
     res_bind (kassert (interrupt_number r < of_nat IDT_Size)) (\<lambda>_.
     res_bind (dispatch_loop call [0..<Interrupt_Handlers_Count] r s) (\<lambda>(handled, r1, s1).
     if interrupt_number r1 < 32 \<and> \<not> handled then
       res_bind (log io warn Log_Error ''Unhandled Exception Triggered!'' (interrupts_disable s1)) (\<lambda>s2.
       res_bind (logf io warn Log_Error exception_format (exception_args r1 cr2) s2) (\<lambda>_. Panic))
     else Ret (s1\<lparr>dev := pic_end_of_interrupt io (ucast (interrupt_number r1)) (dev s1)\<rparr>)))"

definition interrupts_init ::
    "'d io \<Rightarrow> u64 list \<Rightarrow> u64 \<Rightarrow> ('h, 'd, 'a) irq_scheme \<Rightarrow> ('h, 'd, 'a) irq_scheme" where
  "interrupts_init io ISRs at s =
     (let (idt, ptr) = idt_init ISRs at (IDT s);
          s1 = s\<lparr>IDT := idt, idtr := Some ptr\<rparr>
      in interrupts_enable (s1\<lparr>dev := pic_init io (dev s1)\<rparr>))"

definition interrupts_fini :: "'d io \<Rightarrow> ('h, 'd, 'a) irq_scheme \<Rightarrow> ('h, 'd, 'a) irq_scheme" where
  "interrupts_fini io s =
     (let s1 = interrupts_disable s in s1\<lparr>dev := pic_fini io (dev s1)\<rparr>)"

subsection \<open>Descriptors read back\<close>

text \<open>What the processor reads out of a gate and out of a descriptor.\<close>

definition gate_address :: "idt_entry \<Rightarrow> u64" where
  "gate_address g =
     ucast (gate_low g) OR push_bit 16 (ucast (gate_high g)) OR push_bit 32 (ucast (gate_highest g))"

definition descriptor_base :: "gdt_entry \<Rightarrow> u32" where
  "descriptor_base e =
     ucast (base_low e) OR push_bit 16 (ucast (base_middle e)) OR push_bit 24 (ucast (base_high e))"

definition descriptor_limit :: "gdt_entry \<Rightarrow> u32" where
  "descriptor_limit e = ucast (limit_low e) OR push_bit 16 (ucast (granularity e AND 0x0f))"

definition task_base :: "gdt_entry \<Rightarrow> gdt_entry \<Rightarrow> u64" where
  "task_base e f =
     ucast (descriptor_base e) OR push_bit 32 (ucast (limit_low f)) OR push_bit 48 (ucast (base_low f))"

lemma mask_bits:
  "(0xffff :: 'a::len word) = mask 16" "(0xff :: 'a word) = mask 8" "(0x0f :: 'a word) = mask 4"
  "(0xf0 :: 'a word) = push_bit 4 (mask 4)"
  by (simp_all add: mask_numeral push_bit_eq_mult)

lemma split_u64: "ucast (ucast (b AND mask 16) :: u16) OR push_bit 16 (ucast (ucast (drop_bit 16 b AND mask 16) :: u16))
    OR push_bit 32 (ucast (ucast (drop_bit 32 b) :: u32)) = (b :: u64)" (is "?l = b")
proof (rule bit_word_eqI)
  fix n assume "n < LENGTH(64)"
  then show "bit ?l n = bit b n" by (cases "n < 32") (auto simp: bit_simps)
qed

lemma gate_roundtrip:
  "unat num < length idt \<Longrightarrow> gate_address (idt_set_gate num b sel fl idt ! unat num) = b"
  by (simp add: idt_set_gate_def gate_address_def mask_bits split_u64)

lemma descriptor_roundtrip:
  "descriptor_base (make_gdt_entry b limit acc gran) = ucast b"
  "descriptor_limit (make_gdt_entry b limit acc gran) = take_bit 20 limit"
  "gdt_access (make_gdt_entry b limit acc gran) = acc"
  "granularity (make_gdt_entry b limit acc gran) AND 0xf0 = ucast gran AND 0xf0"
  subgoal
  proof (rule bit_word_eqI)
    fix n assume "n < LENGTH(32)"
    then show "bit (descriptor_base (make_gdt_entry b limit acc gran)) n = bit (ucast b :: u32) n"
      by (cases "n < 24") (auto simp: descriptor_base_def make_gdt_entry_def mask_bits bit_simps)
  qed
  subgoal
    by (rule bit_word_eqI) (auto simp: descriptor_limit_def make_gdt_entry_def mask_bits bit_simps)
  subgoal
    by (rule bit_word_eqI) (auto simp: make_gdt_entry_def mask_bits bit_simps)
  subgoal
    by (rule bit_word_eqI) (auto simp: make_gdt_entry_def mask_bits bit_simps)
  done

lemma idt_set_gates_length [simp]: "length (idt_set_gates i isrs idt) = length idt"
  by (induction i isrs idt rule: idt_set_gates.induct) (auto simp: idt_set_gate_def)

lemma idt_set_gates_nth:
  assumes "i + length isrs \<le> 256" "length idt = 256"
  shows "idt_set_gates i isrs idt ! k =
    (if i \<le> k \<and> k < i + length isrs
     then idt_set_gate (of_nat k) (isrs ! (k - i)) Gate_Selector 0x8e idt ! k else idt ! k)"
  using assms
proof (induction i isrs idt rule: idt_set_gates.induct)
  case (2 i isr isrs idt)
  have lt: "i < 256" using "2.prems" by simp
  then have u: "unat (of_nat i :: u8) = i" by (simp add: unat_of_nat)
  let ?g = "idt_set_gate (of_nat i) isr Gate_Selector 0x8e idt"
  have other: "?g ! j = idt ! j" if "j \<noteq> i" for j using that by (simp add: idt_set_gate_def u)
  have gates: "idt_set_gate (of_nat j) b Gate_Selector 0x8e ?g ! j = idt_set_gate (of_nat j) b Gate_Selector 0x8e idt ! j"
    if "j \<noteq> i" "j < 256" for j b
    using that "2.prems"(2) other by (simp add: idt_set_gate_def u unat_of_nat)
  have "length ?g = 256" "Suc i + length isrs \<le> 256" using "2.prems" by (simp_all add: idt_set_gate_def)
  note IH = "2.IH" [OF this(2,1)]
  show ?case
  proof (cases "k = i")
    case True
    with IH show ?thesis by simp
  next
    case False
    show ?thesis
    proof (cases "i < k \<and> k < Suc (i + length isrs)")
      case True
      then have "(isr # isrs) ! (k - i) = isrs ! (k - Suc i)" by (simp add: nth_Cons' Suc_diff_Suc flip: diff_Suc_eq_diff_pred)
      with IH True False gates [of k] "2.prems"(1) show ?thesis by simp
    next
      case F: False
      with IH False other [of k] show ?thesis by auto
    qed
  qed
qed auto

subsection \<open>The table as a multiset of handlers\<close>

definition registered :: "('h, 'd, 'a) irq_scheme \<Rightarrow> nat \<Rightarrow> 'h multiset" where
  "registered s n = image_mset the (filter_mset (\<lambda>x. x \<noteq> None) (mset (Interrupt_Dispatch s ! n)))"

definition irq_ok :: "('h, 'd, 'a) irq_scheme \<Rightarrow> bool" where
  "irq_ok s \<longleftrightarrow> dispatch_table_lock s = Lock_Clear \<and> length (Interrupt_Dispatch s) = IDT_Size \<and>
     (\<forall>row \<in> set (Interrupt_Dispatch s). length row = Interrupt_Handlers_Count)"

lemma irq_consts: "IDT_Size = 256" "Interrupt_Handlers_Count = 10"
  by (simp_all add: IDT_Size_def Interrupt_Handlers_Count_def)

lemma irq_ok_row: "irq_ok s \<Longrightarrow> n < 256 \<Longrightarrow> length (Interrupt_Dispatch s ! n) = 10"
  by (simp add: irq_ok_def irq_consts)

lemma slot_at_ok:
  assumes "length (Interrupt_Dispatch s) = 256" "\<forall>row \<in> set (Interrupt_Dispatch s). length row = 10"
    "n < 256" "i < 10"
  shows "slot_at (int n) i s = Ret (Interrupt_Dispatch s ! n ! i)"
  using assms by (simp add: slot_at_def)

lemma replace_slot_find:
  assumes "length (Interrupt_Dispatch s) = 256" "\<forall>row \<in> set (Interrupt_Dispatch s). length row = 10"
    "n < 256" "\<forall>i \<in> set is. i < 10"
  shows "replace_slot (int n) old new is s =
    Ret (case find (\<lambda>i. Interrupt_Dispatch s ! n ! i = old) is of None \<Rightarrow> (False, s)
         | Some i \<Rightarrow> (True, set_slot (int n) i new s))"
  using assms(4) by (induction "is") (auto simp: slot_at_ok [OF assms(1-3)])

text \<open>Both functions, on a table in order and a vector of the 256: the first slot that holds what
  they look for is overwritten.\<close>

lemma set_slot_registered:
  assumes "irq_ok s" "n < 256" "i < 10"
  shows "irq_ok (set_slot (int n) i h s)"
    "m \<noteq> n \<Longrightarrow> registered (set_slot (int n) i h s) m = registered s m"
    "registered (set_slot (int n) i h s) n = image_mset the (filter_mset (\<lambda>x. x \<noteq> None)
       (add_mset h (mset (Interrupt_Dispatch s ! n) - {#Interrupt_Dispatch s ! n ! i#})))"
proof -
  have row: "length (Interrupt_Dispatch s ! n) = 10" "length (Interrupt_Dispatch s) = 256"
    using irq_ok_row [OF assms(1,2)] assms(1) by (simp_all add: irq_ok_def irq_consts)
  show "irq_ok (set_slot (int n) i h s)"
    using assms row by (auto simp: irq_ok_def irq_consts set_slot_def dest!: set_update_subset_insert [THEN subsetD])
  show "m \<noteq> n \<Longrightarrow> registered (set_slot (int n) i h s) m = registered s m"
    by (simp add: registered_def set_slot_def)
  show "registered (set_slot (int n) i h s) n = image_mset the (filter_mset (\<lambda>x. x \<noteq> None)
       (add_mset h (mset (Interrupt_Dispatch s ! n) - {#Interrupt_Dispatch s ! n ! i#})))"
    using row assms(2,3) by (simp add: registered_def set_slot_def mset_update)
qed

lemma registered_slot:
  assumes "irq_ok s" "n < 256"
  shows "h \<in># registered s n \<longleftrightarrow> Some h \<in> set (Interrupt_Dispatch s ! n)"
    "size (registered s n) < 10 \<longleftrightarrow> None \<in> set (Interrupt_Dispatch s ! n)"
proof -
  let ?row = "Interrupt_Dispatch s ! n"
  show "h \<in># registered s n \<longleftrightarrow> Some h \<in> set ?row" by (force simp: registered_def)
  have "size (registered s n) = length (filter (\<lambda>x. x \<noteq> None) ?row)"
    by (simp add: registered_def flip: mset_filter)
  moreover have "length (filter (\<lambda>x. x \<noteq> None) ?row) < length ?row \<longleftrightarrow> None \<in> set ?row"
  proof (cases "None \<in> set ?row")
    case True
    with length_filter_less [OF True, of "\<lambda>x. x \<noteq> None"] show ?thesis by simp
  next
    case False
    then have "filter (\<lambda>x. x \<noteq> None) ?row = ?row" unfolding filter_id_conv by metis
    with False show ?thesis by (simp only: less_irrefl)
  qed
  ultimately show "size (registered s n) < 10 \<longleftrightarrow> None \<in> set ?row"
    using irq_ok_row [OF assms] by simp
qed

lemma irq_ok_lock [simp]:
  "registered (s\<lparr>dispatch_table_lock := l\<rparr>) = registered s"
  "Interrupt_Dispatch (set_slot n i h s) = (Interrupt_Dispatch s)[nat n := (Interrupt_Dispatch s ! nat n)[i := h]]"
  "dispatch_table_lock (set_slot n i h s) = dispatch_table_lock s"
  by (rule ext, simp add: registered_def) (simp_all add: set_slot_def)

lemma slot_search:
  assumes "irq_ok s" "n < 256"
  shows "find (\<lambda>i. Interrupt_Dispatch s ! n ! i = old) [0..<10] = None \<longleftrightarrow> old \<notin> set (Interrupt_Dispatch s ! n)"
    "find (\<lambda>i. Interrupt_Dispatch s ! n ! i = old) [0..<10] = Some i \<Longrightarrow> i < 10 \<and> Interrupt_Dispatch s ! n ! i = old"
  using irq_ok_row [OF assms] by (auto simp: find_upt_None in_set_conv_nth dest!: find_upt_Some)

text \<open>The common body of the two functions, on a free lock.\<close>

lemma replace_slot_locked:
  fixes s :: "('h, 'd, 'a) irq_scheme"
  assumes "irq_ok s" "n < 256"
  shows "\<exists>s'. res_bind (lock_acquire_writer (dispatch_table_lock s)) (\<lambda>l.
     res_bind (replace_slot (int n) old new [0..<Interrupt_Handlers_Count] (s\<lparr>dispatch_table_lock := l\<rparr>))
       (\<lambda>(found, s1).
     res_bind (lock_release_writer (dispatch_table_lock s1)) (\<lambda>l1.
     Ret (if found then Ok else st, s1\<lparr>dispatch_table_lock := l1\<rparr>)))) =
    Ret (if old \<in> set (Interrupt_Dispatch s ! n) then Ok else st, s') \<and>
    (if old \<in> set (Interrupt_Dispatch s ! n)
     then \<exists>i < 10. Interrupt_Dispatch s ! n ! i = old \<and> s' = set_slot (int n) i new s else s' = s)"
proof -
  have lk: "dispatch_table_lock s = Lock_Clear" and tab: "length (Interrupt_Dispatch s) = 256"
    "\<forall>row \<in> set (Interrupt_Dispatch s). length row = 10"
    using assms(1) by (simp_all add: irq_ok_def irq_consts)
  let ?s = "s\<lparr>dispatch_table_lock := held\<rparr>"
  have same: "s\<lparr>dispatch_table_lock := Lock_Clear\<rparr> = s" using lk by simp
  have run: "replace_slot (int n) old new [0..<10] ?s =
      Ret (case find (\<lambda>i. Interrupt_Dispatch s ! n ! i = old) [0..<10] of None \<Rightarrow> (False, ?s)
         | Some i \<Rightarrow> (True, set_slot (int n) i new ?s))"
    using replace_slot_find [of ?s n "[0..<10]" old new] tab assms(2) by simp
  show ?thesis
  proof (cases "find (\<lambda>i. Interrupt_Dispatch s ! n ! i = old) [0..<10]")
    case None
    with run slot_search(1) [OF assms, of old] lk same show ?thesis by (simp add: irq_consts)
  next
    case (Some i)
    have "old \<in> set (Interrupt_Dispatch s ! n)"
      using slot_search(1) [OF assms, of old] Some by auto
    moreover have "(set_slot (int n) i new ?s)\<lparr>dispatch_table_lock := Lock_Clear\<rparr> = set_slot (int n) i new s"
      using lk by (simp add: set_slot_def)
    ultimately show ?thesis
      using run lk Some slot_search(2) [OF assms Some] by (auto simp: irq_consts)
  qed
qed

text \<open>A slot that is replaced, seen from the multisets of all vectors.\<close>

lemma set_slot_multisets:
  assumes "irq_ok s" "n < 256" "i < 10"
  shows "registered (set_slot (int n) i h s) =
    (registered s)(n := image_mset the (filter_mset (\<lambda>x. x \<noteq> None)
      (add_mset h (mset (Interrupt_Dispatch s ! n) - {#Interrupt_Dispatch s ! n ! i#}))))"
  using set_slot_registered(2,3) [OF assms] by (intro ext) simp

lemma register_adds:
  assumes "irq_ok s" "n < 256"
  shows "\<exists>s'. interrupt_register_handler (int n) h s =
      Ret (if size (registered s n) < 10 then Ok else Error_Count, s') \<and> irq_ok s' \<and>
      registered s' = (if size (registered s n) < 10
        then (registered s)(n := add_mset h (registered s n)) else registered s)"
proof -
  obtain s' where s': "interrupt_register_handler (int n) h s =
      Ret (if None \<in> set (Interrupt_Dispatch s ! n) then Ok else Error_Count, s')"
    "if None \<in> set (Interrupt_Dispatch s ! n)
     then \<exists>i < 10. Interrupt_Dispatch s ! n ! i = None \<and> s' = set_slot (int n) i (Some h) s else s' = s"
    unfolding interrupt_register_handler_def using replace_slot_locked [OF assms] by blast
  have "registered s' = (registered s)(n := add_mset h (registered s n)) \<and> irq_ok s'"
    if free: "None \<in> set (Interrupt_Dispatch s ! n)"
  proof -
    obtain i where i: "i < 10" "Interrupt_Dispatch s ! n ! i = None" "s' = set_slot (int n) i (Some h) s"
      using s'(2) free by auto
    then show ?thesis
      using set_slot_multisets [OF assms i(1), of "Some h"] set_slot_registered(1) [OF assms i(1)]
      by (simp add: registered_def filter_diff_mset)
  qed
  then show ?thesis using s' registered_slot(2) [OF assms] assms(1) by auto
qed

lemma unregister_takes:
  assumes "irq_ok s" "n < 256"
  shows "\<exists>s'. interrupt_unregister_handler (int n) h s =
      Ret (if h \<in># registered s n then Ok else Error_Absent, s') \<and> irq_ok s' \<and>
      registered s' = (registered s)(n := registered s n - {#h#})"
proof -
  obtain s' where s': "interrupt_unregister_handler (int n) h s =
      Ret (if Some h \<in> set (Interrupt_Dispatch s ! n) then Ok else Error_Absent, s')"
    "if Some h \<in> set (Interrupt_Dispatch s ! n)
     then \<exists>i < 10. Interrupt_Dispatch s ! n ! i = Some h \<and> s' = set_slot (int n) i None s else s' = s"
    unfolding interrupt_unregister_handler_def using replace_slot_locked [OF assms] by blast
  have "registered s' = (registered s)(n := registered s n - {#h#}) \<and> irq_ok s'"
  proof (cases "Some h \<in> set (Interrupt_Dispatch s ! n)")
    case True
    then obtain i where i: "i < 10" "Interrupt_Dispatch s ! n ! i = Some h" "s' = set_slot (int n) i None s"
      using s'(2) by auto
    then show ?thesis
      using True set_slot_multisets [OF assms i(1), of None] set_slot_registered(1) [OF assms i(1)]
      by (simp add: registered_def filter_diff_mset image_mset_Diff)
  next
    case False
    then have "h \<notin># registered s n" using registered_slot(1) [OF assms] by simp
    with s'(2) False assms(1) show ?thesis by (auto simp: diff_single_trivial)
  qed
  then show ?thesis using s'(1) registered_slot(1) [OF assms] by auto
qed

text \<open>(C38) The table of handlers holds for each of the 256 vectors a multiset of at most ten handlers.
  Registering adds one handler to its vector, unless there are ten, which is reported as
  \<open>Error_Count\<close>; unregistering takes one occurrence out, unless there is none, which is reported as
  \<open>Error_Absent\<close>. Neither touches another vector, and on a free lock both return and leave the lock
  free. The number of the vector is in range, which the code does not check.\<close>

theorem handlers_refine_multiset:
  assumes "irq_ok s" "n < 256"
  shows "(\<exists>s'. interrupt_register_handler (int n) h s =
        Ret (if size (registered s n) < 10 then Ok else Error_Count, s') \<and> irq_ok s' \<and>
        registered s' = (if size (registered s n) < 10
          then (registered s)(n := add_mset h (registered s n)) else registered s)) \<and>
    (\<exists>s'. interrupt_unregister_handler (int n) h s =
        Ret (if h \<in># registered s n then Ok else Error_Absent, s') \<and> irq_ok s' \<and>
        registered s' = (registered s)(n := registered s n - {#h#}))"
  using register_adds [OF assms] unregister_takes [OF assms] by blast

subsection \<open>Dispatching\<close>

text \<open>The handlers of a vector in the order of their slots, called until one of them handles the
  interrupt.\<close>

fun first_handler ::
    "('h, 's) handler_call \<Rightarrow> 'h list \<Rightarrow> interrupt_cpu_state \<Rightarrow> 's \<Rightarrow> (bool \<times> interrupt_cpu_state \<times> 's) res" where
  "first_handler call [] r s = Ret (False, r, s)"
| "first_handler call (f # fs) r s =
     res_bind (call f r s) (\<lambda>(handled, r1, s1).
     if handled then Ret (True, r1, s1) else first_handler call fs r1 s1)"

definition handlers_at :: "('h, 'd, 'a) irq_scheme \<Rightarrow> nat \<Rightarrow> 'h list" where
  "handlers_at s n = List.map_filter (\<lambda>x. x) (Interrupt_Dispatch s ! n)"

lemma mset_map_filter:
  "mset (List.map_filter (\<lambda>x. x) xs) = image_mset the (filter_mset (\<lambda>x. x \<noteq> None) (mset xs))"
  by (induction xs) (auto simp: List.map_filter_simps split: option.splits)

lemma mset_handlers_at: "mset (handlers_at s n) = registered s n"
  by (simp only: handlers_at_def registered_def mset_map_filter)

text \<open>A handler that neither changes the table nor the number of the interrupt it serves.\<close>

definition keeps_table :: "('h, ('h, 'd, 'a) irq_scheme) handler_call \<Rightarrow> bool" where
  "keeps_table call \<longleftrightarrow>
     (\<forall>f r s b r1 s1. call f r s = Ret (b, r1, s1) \<longrightarrow>
        interrupt_number r1 = interrupt_number r \<and> Interrupt_Dispatch s1 = Interrupt_Dispatch s)"

lemma first_handler_keeps:
  assumes "keeps_table call" "first_handler call fs r s = Ret (b, r1, s1)"
  shows "interrupt_number r1 = interrupt_number r"
  using assms(2)
proof (induction fs arbitrary: r s)
  case (Cons f fs)
  then obtain b2 r2 s2 where c: "call f r s = Ret (b2, r2, s2)" by (auto simp: res_bind_Ret_iff)
  with assms(1) have "interrupt_number r2 = interrupt_number r" unfolding keeps_table_def by blast
  with Cons c show ?case by (auto split: if_splits)
qed simp

lemma dispatch_loop_handlers:
  assumes "keeps_table call" "length (Interrupt_Dispatch s) = 256" "\<forall>row \<in> set (Interrupt_Dispatch s). length row = 10"
    "n < 256" "uint (interrupt_number r) = int n" "\<forall>i \<in> set is. i < 10"
  shows "dispatch_loop call is r s =
    first_handler call (List.map_filter (\<lambda>i. Interrupt_Dispatch s ! n ! i) is) r s"
  using assms(2,3,5,6)
proof (induction "is" arbitrary: r s)
  case (Cons i "is")
  have at: "slot_at (uint (interrupt_number r)) i s = Ret (Interrupt_Dispatch s ! n ! i)"
    using slot_at_ok [OF Cons.prems(1,2) assms(4)] Cons.prems(3,4) by simp
  show ?case
  proof (cases "Interrupt_Dispatch s ! n ! i")
    case None
    with at Cons show ?thesis by (simp add: List.map_filter_simps)
  next
    case (Some f)
    have "res_bind (call f r s) (\<lambda>(handled, r1, s1). if handled then Ret (True, r1, s1) else dispatch_loop call is r1 s1) =
      res_bind (call f r s) (\<lambda>(handled, r1, s1). if handled then Ret (True, r1, s1)
        else first_handler call (List.map_filter (\<lambda>i. Interrupt_Dispatch s ! n ! i) is) r1 s1)"
    proof (rule res_bind_cong [OF refl], clarify)
      fix b r1 s1 assume "call f r s = Ret (b, r1, s1)"
      with assms(1) have keep: "interrupt_number r1 = interrupt_number r" "Interrupt_Dispatch s1 = Interrupt_Dispatch s"
        unfolding keeps_table_def by blast+
      with Cons.IH [of s1 r1] Cons.prems
      show "(if b then Ret (True, r1, s1) else dispatch_loop call is r1 s1) =
        (if b then Ret (True, r1, s1)
         else first_handler call (List.map_filter (\<lambda>i. Interrupt_Dispatch s ! n ! i) is) r1 s1)" by simp
    qed
    with Some at show ?thesis by (simp add: List.map_filter_simps)
  qed
qed (simp add: List.map_filter_simps)

lemma map_filter_upt: "List.map_filter (\<lambda>i. xs ! i) [0..<length xs] = List.map_filter (\<lambda>x. x) xs"
proof -
  have "List.map_filter (\<lambda>i. xs ! i) is = List.map_filter (\<lambda>x. x) (map (\<lambda>i. xs ! i) is)" for "is"
    by (induction "is") (auto simp: List.map_filter_simps split: option.splits)
  from this [of "[0..<length xs]"] show ?thesis by (simp add: map_nth)
qed

lemma exception_never_returns:
  "res_bind (log io warn Log_Error m s) (\<lambda>s2. res_bind (logf io warn Log_Error f a s2) (\<lambda>_. Panic)) \<noteq> Ret (x :: 'b)"
  by (cases "log io warn Log_Error m s") (auto, metis res.distinct(1) res_bind_Ret_iff)

lemma dispatcher_run:
  assumes "irq_ok s" "keeps_table call" "interrupt_number r < 256"
  shows "interrupts_dispatcher io warn call cr2 r s = Ret s' \<longleftrightarrow>
    (\<exists>handled r1 s1. first_handler call (handlers_at s (unat (interrupt_number r))) r s = Ret (handled, r1, s1) \<and>
       (handled \<or> 32 \<le> interrupt_number r) \<and>
       s' = s1\<lparr>dev := outb io 0x20 0x20
         (if 8 < interrupt_number r then outb io 0x20 0xa0 (dev s1) else dev s1)\<rparr>)"
proof -
  let ?n = "unat (interrupt_number r)"
  have n: "?n < 256" using assms(3) by unat_arith
  have loop: "dispatch_loop call [0..<Interrupt_Handlers_Count] r s = first_handler call (handlers_at s ?n) r s"
    using dispatch_loop_handlers [OF assms(2) _ _ n, of s r "[0..<10]"] assms(1) irq_ok_row [OF assms(1) n]
      map_filter_upt [of "Interrupt_Dispatch s ! ?n"]
    by (simp add: irq_ok_def irq_consts handlers_at_def)
  have big: "(8 :: u8) < ucast (interrupt_number r) \<longleftrightarrow> 8 < interrupt_number r"
    using n by (simp add: word_less_nat_alt unsigned_ucast_eq take_bit_eq_mod)
  have eoi: "pic_end_of_interrupt io (ucast (interrupt_number r)) d =
      outb io 0x20 0x20 (if 8 < interrupt_number r then outb io 0x20 0xa0 d else d)" for d
    by (simp add: pic_end_of_interrupt_def write_port_def pic_consts big)
  show ?thesis
  proof (cases "first_handler call (handlers_at s ?n) r s")
    case (Ret x)
    obtain handled r1 s1 where x: "x = (handled, r1, s1)" by (cases x) auto
    have num: "interrupt_number r1 = interrupt_number r"
      using first_handler_keeps [OF assms(2)] Ret x by simp
    show ?thesis
    proof (cases "interrupt_number r < 32 \<and> \<not> handled")
      case True
      have "interrupts_dispatcher io warn call cr2 r s =
          res_bind (log io warn Log_Error ''Unhandled Exception Triggered!'' (interrupts_disable s1)) (\<lambda>s2.
          res_bind (logf io warn Log_Error exception_format (exception_args r1 cr2) s2) (\<lambda>_. Panic))"
        unfolding interrupts_dispatcher_def loop Ret x using True num assms(3) by (simp add: irq_consts)
      then have "interrupts_dispatcher io warn call cr2 r s \<noteq> Ret s'"
        using exception_never_returns by metis
      then show ?thesis using True Ret x by (simp add: not_le)
    next
      case False
      then have "interrupts_dispatcher io warn call cr2 r s =
          Ret (s1\<lparr>dev := pic_end_of_interrupt io (ucast (interrupt_number r)) (dev s1)\<rparr>)"
        unfolding interrupts_dispatcher_def loop Ret x using num assms(3) by (simp add: irq_consts) blast
      moreover have "handled \<or> 32 \<le> interrupt_number r" using False by (auto simp: not_less)
      ultimately show ?thesis unfolding eoi using Ret x by auto
    qed
  qed (use assms(3) in \<open>simp_all add: interrupts_dispatcher_def loop [unfolded irq_consts] irq_consts\<close>)
qed

text \<open>(C23) The dispatcher: it calls the handlers registered for the vector one after the other, in the
  order of their slots, until one of them handles the interrupt. It returns exactly when these
  calls return and the interrupt was handled or is not an exception (its number is at least 32);
  then the first controller is told that the interrupt is over, and before it the second one
  when the number of the vector is more than 8.\<close>

theorem dispatcher_calls_handlers:
  assumes "irq_ok s" "keeps_table call" "interrupt_number r < 256"
  shows "interrupts_dispatcher io warn call cr2 r s = Ret s' \<longleftrightarrow>
    (\<exists>handled r1 s1. first_handler call (handlers_at s (unat (interrupt_number r))) r s = Ret (handled, r1, s1) \<and>
       (handled \<or> 32 \<le> interrupt_number r) \<and>
       s' = s1\<lparr>dev := outb io 0x20 0x20
         (if 8 < interrupt_number r then outb io 0x20 0xa0 (dev s1) else dev s1)\<rparr>)"
  by (rule dispatcher_run [OF assms])

text \<open>(C37) The descriptor tables: after \<open>idt_init\<close> the first 35 gates are interrupt gates in the kernel's code
  segment whose three address parts make up the address of their service routine, all other gates
  are as they were, and the limit covers all 256; a segment descriptor gives back its access
  byte, the low 32 bits of its base, the low 20 bits of its limit and its four flags.\<close>

theorem descriptor_tables_read_back:
  assumes "length ISRs = 35" "length idt = 256"
  shows "(\<forall>k < 35. gate_address (fst (idt_init ISRs at idt) ! k) = ISRs ! k \<and>
        gate_flags (fst (idt_init ISRs at idt) ! k) = 0x8e \<and>
        segment_selector (fst (idt_init ISRs at idt) ! k) = 0x08) \<and>
     (\<forall>k. 35 \<le> k \<longrightarrow> fst (idt_init ISRs at idt) ! k = idt ! k) \<and>
     unat (idt_limit (snd (idt_init ISRs at idt))) + 1 = 256 * 16 \<and>
     descriptor_base (make_gdt_entry b limit acc gran) = ucast b \<and>
     descriptor_limit (make_gdt_entry b limit acc gran) = take_bit 20 limit \<and>
     gdt_access (make_gdt_entry b limit acc gran) = acc \<and>
     granularity (make_gdt_entry b limit acc gran) AND 0xf0 = ucast gran AND 0xf0"
proof (intro conjI)
  have nth: "fst (idt_init ISRs at idt) ! k =
    (if k < 35 then idt_set_gate (of_nat k) (ISRs ! k) Gate_Selector 0x8e idt ! k else idt ! k)" for k
    using idt_set_gates_nth [of 0 ISRs idt k] assms by (simp add: idt_init_def)
  have gate: "gate_address (idt_set_gate (of_nat k) (ISRs ! k) Gate_Selector 0x8e idt ! k) = ISRs ! k \<and>
      gate_flags (idt_set_gate (of_nat k) (ISRs ! k) Gate_Selector 0x8e idt ! k) = 0x8e \<and>
      segment_selector (idt_set_gate (of_nat k) (ISRs ! k) Gate_Selector 0x8e idt ! k) = 0x08" if "k < 35" for k
  proof -
    have "unat (of_nat k :: u8) = k" using that by (simp add: unat_of_nat)
    then show ?thesis
      using gate_roundtrip [of "of_nat k" idt "ISRs ! k" Gate_Selector "0x8e"] that assms(2)
      by (simp add: idt_set_gate_def Gate_Selector_def)
  qed
  show "\<forall>k < 35. gate_address (fst (idt_init ISRs at idt) ! k) = ISRs ! k \<and>
        gate_flags (fst (idt_init ISRs at idt) ! k) = 0x8e \<and>
        segment_selector (fst (idt_init ISRs at idt) ! k) = 0x08"
    using nth gate by simp
  show "\<forall>k. 35 \<le> k \<longrightarrow> fst (idt_init ISRs at idt) ! k = idt ! k" using nth by simp
  show "unat (idt_limit (snd (idt_init ISRs at idt))) + 1 = 256 * 16"
    by (simp add: idt_init_def sizeof_idt_entry_def irq_consts)
qed (rule descriptor_roundtrip)+

text \<open>Masking: for the sixteen lines of the two controllers \<open>pic_enable\<close> sets the bit of the line in
  the mask register, which makes the controller ignore the line, and \<open>pic_disable\<close> clears it, which lets
  the line through: each does what the other is named for. All other lines stay as they were.\<close>

theorem pic_enable_masks:
  assumes "irq < 16" "inb io (if irq < 8 then 0x21 else 0xa1) d = (m, d1)"
  shows "pic_enable io irq d = Ret (outb io (set_bit (unat irq mod 8) m) (if irq < 8 then 0x21 else 0xa1) d1) \<and>
     pic_disable io irq d = Ret (outb io (unset_bit (unat irq mod 8) m) (if irq < 8 then 0x21 else 0xa1) d1)"
proof -
  obtain l where l: "pic_line irq = (if irq < 8 then 0x21 else 0xa1, l)" "unat l = unat irq mod 8" "unat l < 8"
  proof (cases "irq < 8")
    case True
    then have "unat irq < 8" by unat_arith
    with True that [of irq] show thesis by (simp add: pic_line_def pic_consts)
  next
    case False
    then have "unat (irq - 8) = unat irq - 8" "8 \<le> unat irq" "unat irq < 16"
      using assms(1) by unat_arith+
    moreover from this have "unat irq mod 8 = unat irq - 8" by (simp add: mod_if)
    ultimately show thesis using False that [of "irq - 8"] by (simp add: pic_line_def pic_consts)
  qed
  have "m OR ucast (push_bit (unat l) (1 :: u32)) = set_bit (unat l) m"
    "m AND ucast (NOT (push_bit (unat l) (1 :: u32))) = unset_bit (unat l) m"
    using l(3) by (auto intro!: bit_word_eqI simp: bit_simps)
  then show ?thesis
    using assms(2) l by (simp add: pic_enable_def pic_disable_def read_port_def write_port_def)
qed

subsection \<open>A machine\<close>

definition demo_irq :: "nat list \<Rightarrow> (nat, string \<times> nat) irq" where
  "demo_irq hs = log_state.extend demo_log
     \<lparr>dispatch_table_lock = Lock_Clear,
      Interrupt_Dispatch = (replicate 256 (replicate 10 None))[0x21 := map Some hs @ replicate (10 - length hs) None],
      IDT = replicate 256 empty_gate, idtr = None, interrupts_on = False\<rparr>"

lemma demo_irq_ok: "length hs \<le> 10 \<Longrightarrow> irq_ok (demo_irq hs)"
  by (auto simp: irq_ok_def irq_consts demo_irq_def log_state.defs dest!: set_update_subset_insert [THEN subsetD])

lemma demo_registered: "registered (demo_irq [3]) 0x21 = {#3#}" "registered (demo_irq [3]) 0x20 = {#}"
  by (simp_all add: registered_def demo_irq_def log_state.defs)

theorem handlers_refine_multiset_witness:
  "(\<exists>s'. interrupt_register_handler 0x21 (7 :: nat) (demo_irq [3]) = Ret (Ok, s') \<and>
      registered s' 0x21 = {#7, 3#} \<and> registered s' 0x20 = {#}) \<and>
   (\<exists>s'. interrupt_unregister_handler 0x21 (3 :: nat) (demo_irq [3]) = Ret (Ok, s') \<and> registered s' 0x21 = {#}) \<and>
   (\<exists>s'. interrupt_unregister_handler 0x21 (7 :: nat) (demo_irq [3]) = Ret (Error_Absent, s'))"
  using handlers_refine_multiset [of "demo_irq [3]" "0x21" 7, OF demo_irq_ok]
    handlers_refine_multiset [of "demo_irq [3]" "0x21" 3, OF demo_irq_ok] demo_registered by auto

definition demo_cpu :: "u64 \<Rightarrow> interrupt_cpu_state" where
  "demo_cpu n = \<lparr>st_ds = 0, st_r15 = 0, st_r14 = 0, st_r13 = 0, st_r12 = 0, st_r11 = 0, st_r10 = 0, st_r9 = 0,
     st_r8 = 0, st_rdi = 0, st_rsi = 0, st_rbp = 0, st_rdx = 0, st_rcx = 0, st_rbx = 0, st_rax = 0,
     interrupt_number = n, err_code = 0, st_rip = 0, st_cs = 0, st_rflags = 0, st_rsp = 0, st_ss = 0\<rparr>"

lemma map_filter_None [simp]: "List.map_filter (\<lambda>x. x) (replicate n None) = []"
  by (induction n) (simp_all add: List.map_filter_simps)

theorem dispatcher_calls_handlers_witness:
  "interrupts_dispatcher demo_io (\<lambda>_. Ret) (\<lambda>f r s. Ret (f = 5, r, s\<lparr>dev := (fst (dev s), f)\<rparr>)) 0
     (demo_cpu 0x21) (demo_irq [3, 5, 8]) = Ret ((demo_irq [3, 5, 8])\<lparr>dev := (''  '', 3)\<rparr>)"
proof -
  let ?call = "\<lambda>(f :: nat) (r :: interrupt_cpu_state) (s :: (nat, string \<times> nat) irq).
    Ret (f = 5, r, s\<lparr>dev := (fst (dev s), f)\<rparr>)"
  have keep: "keeps_table ?call" by (auto simp: keeps_table_def)
  have hs: "handlers_at (demo_irq [3, 5, 8]) 0x21 = [3, 5, 8]"
    by (simp add: handlers_at_def demo_irq_def log_state.defs List.map_filter_simps)
  have dev0: "dev (demo_irq [3, 5, 8]) = ([], 0)" by (simp add: demo_irq_def log_state.defs demo_log_def vga.defs)
  have sp: "byte_char 0x20 = CHR '' ''" by (simp add: byte_char_def char_of_def bit_0)
  have irq: "interrupt_number (demo_cpu 0x21) = 0x21" by (simp add: demo_cpu_def)
  show ?thesis
    using dispatcher_calls_handlers [OF demo_irq_ok keep, of "[3, 5, 8]" "demo_cpu 0x21" demo_io "\<lambda>_. Ret" 0]
    by (auto simp: irq hs dev0 demo_io_def sp)
qed

theorem descriptor_tables_read_back_witness:
  "gate_address (fst (idt_init (map of_nat [1..<36]) 0 (replicate 256 empty_gate)) ! 34) = 35 \<and>
   fst (idt_init (map of_nat [1..<36]) 0 (replicate 256 empty_gate)) ! 35 = empty_gate"
  using descriptor_tables_read_back [of "map of_nat [1..<36]" "replicate 256 empty_gate"]
  by (simp del: upt_Suc)

theorem pic_enable_masks_witness:
  "pic_enable demo_io 9 ([], 0) = Ret ([byte_char 0x22], 3)"
  using pic_enable_masks [of 9 demo_io "([], 0)" "0x20" "([], 0)"]
  by (simp add: demo_io_def set_bit_eq)

end
