(* ===== verification/Files.thy ===== *)
theory Files
  imports Heap "HOL-Library.Multiset"
begin

text \<open>
  \<open>kernel/core/file.c\<close>: the tree of files. Files live in a store indexed by their address; names and
  paths are addresses of strings in memory. The array of children is the address the heap returned
  and its slots; a slot that was never written holds the fill of the heap. The functions behind
  \<open>fini\<close> and the destructor of a file are parameters.
\<close>

subsection \<open>Files\<close>

datatype file_type = File_Normal | File_Pipe | File_Directory | File_Device

record vfile =
  ftype :: file_type
  file_name :: u64
  file_init_f :: u64
  file_fini_f :: u64
  file_read_f :: u64
  file_write_f :: u64
  file_parent :: u64
  file_child_capacity :: u64
  file_child_count :: u64
  children_at :: u64
  file_children :: "u64 list"
  file_permissions :: u32
  file_obj :: "u64 object"

record kfiles = kheap +
  file_store :: "u64 \<rightharpoonup> vfile"
  Root :: u64
  Dev :: u64

definition directory :: "u64 \<Rightarrow> u64 \<Rightarrow> vfile" where
  "directory name par =
     \<lparr>ftype = File_Directory, file_name = name, file_init_f = 0, file_fini_f = 0, file_read_f = 0, file_write_f = 0,
      file_parent = par, file_child_capacity = 0, file_child_count = 0, children_at = 0, file_children = [],
      file_permissions = 0x1ed, file_obj = Object_Clear\<lparr>ref_count := 1\<rparr>\<rparr>"

definition file_at :: "u64 \<Rightarrow> ('a) kfiles_scheme \<Rightarrow> vfile res" where
  "file_at f s = deref (file_store s f)"

definition set_file :: "u64 \<Rightarrow> (vfile \<Rightarrow> vfile) \<Rightarrow> ('a) kfiles_scheme \<Rightarrow> (('a) kfiles_scheme) res" where
  "set_file f g s = res_bind (file_at f s) (\<lambda>x. Ret (s\<lparr>file_store := (file_store s)(f \<mapsto> g x)\<rparr>))"

definition child_at :: "vfile \<Rightarrow> u64 \<Rightarrow> u64 res" where
  "child_at x i = (if unat i < length (file_children x) then Ret (file_children x ! unat i) else Fault)"

definition file_retain :: "u64 \<Rightarrow> ('a) kfiles_scheme \<Rightarrow> (('a) kfiles_scheme) res" where
  "file_retain f s =
     res_bind (file_at f s) (\<lambda>x.
     res_bind (object_retain (Some (file_obj x))) (\<lambda>ob. set_file f (file_obj_update (\<lambda>_. ob)) s))"

text \<open>\<open>call\<close> runs a function of a file; here the destructor, with the file it is called for.\<close>

definition file_release ::
    "(u64 \<Rightarrow> u64 \<Rightarrow> ('a) kfiles_scheme \<Rightarrow> (('a) kfiles_scheme) res) \<Rightarrow> u64 \<Rightarrow> ('a) kfiles_scheme
      \<Rightarrow> (('a) kfiles_scheme) res" where
  "file_release call f s =
     res_bind (file_at f s) (\<lambda>x.
     res_bind (object_release (Some (file_obj x))) (\<lambda>(ob, fr).
     res_bind (set_file f (file_obj_update (\<lambda>_. ob)) s) (\<lambda>s1.
     case fr of None \<Rightarrow> Ret s1 | Some g \<Rightarrow> call g f s1)))"

subsection \<open>Attaching and detaching\<close>

partial_function (option) name_loop :: "mem \<Rightarrow> u64 \<Rightarrow> u64 \<Rightarrow> status option" where
  "name_loop m path i =
     (if m (path + i) \<noteq> 0 then
        (if m (path + i) = 0x2f then Some Error_Invalid else name_loop m path (i + 1))
      else Some Ok)"

definition file_name_is_valid :: "mem \<Rightarrow> u64 \<Rightarrow> status res" where
  "file_name_is_valid m path =
     (if m path = 0 then Ret Error_Invalid
      else case name_loop m path 0 of None \<Rightarrow> Hang | Some st \<Rightarrow> Ret st)"

definition file_attach :: "u64 \<Rightarrow> u64 \<Rightarrow> ('a) kfiles_scheme \<Rightarrow> (status \<times> ('a) kfiles_scheme) res" where
  "file_attach par child s =
     res_bind (kassert (par \<noteq> 0)) (\<lambda>_.
     res_bind (kassert (child \<noteq> 0)) (\<lambda>_.
     res_bind (file_at child s) (\<lambda>c.
     res_bind (file_name_is_valid (memory s) (file_name c)) (\<lambda>st.
     if st \<noteq> Ok then Ret (st, s)
     else
       res_bind (file_at par s) (\<lambda>p.
       res_bind
         (if file_child_capacity p = file_child_count p then
            (let cap = file_child_capacity p + 10 in
             res_bind (set_file par (file_child_capacity_update (\<lambda>_. cap)) s) (\<lambda>s1.
             res_bind (krealloc (children_at p) (cap * 8) s1) (\<lambda>(at, s2).
             if at = 0 then Ret (Error_No_Memory, s2)
             else
               res_bind (set_file par (\<lambda>p. p\<lparr>children_at := at, file_children := file_children p @
                   replicate (unat cap - length (file_children p)) Heap_Red_Zone_Fill\<rparr>) s2) (\<lambda>s3.
               Ret (Ok, s3)))))
          else Ret (Ok, s)) (\<lambda>(st1, s4).
       if st1 \<noteq> Ok then Ret (st1, s4)
       else
         res_bind (file_at par s4) (\<lambda>p4.
         if unat (file_child_count p4) < length (file_children p4) then
           res_bind (set_file par (\<lambda>p. p\<lparr>file_children := (file_children p)[unat (file_child_count p) := child]\<rparr>) s4)
             (\<lambda>s5.
           res_bind (set_file par (\<lambda>p. p\<lparr>file_child_count := file_child_count p + 1\<rparr>) s5) (\<lambda>s6.
           res_bind (set_file child (file_parent_update (\<lambda>_. par)) s6) (\<lambda>s7.
           res_bind (file_retain par s7) (\<lambda>s8. Ret (Ok, s8)))))
         else Fault)))))))"

fun detach_from ::
    "(u64 \<Rightarrow> u64 \<Rightarrow> ('a) kfiles_scheme \<Rightarrow> (('a) kfiles_scheme) res) \<Rightarrow> u64 \<Rightarrow> u64 \<Rightarrow> nat list \<Rightarrow> vfile
      \<Rightarrow> ('a) kfiles_scheme \<Rightarrow> (status \<times> ('a) kfiles_scheme) res" where
  "detach_from call par child [] p s = Ret (Error_Absent, s)"
| "detach_from call par child (i # is) p s =
     res_bind (child_at p (of_nat i)) (\<lambda>c.
     if c = child then
       (let count = file_child_count p - 1 in
        res_bind (child_at p count) (\<lambda>last.
        res_bind (set_file par (\<lambda>p. p\<lparr>file_child_count := count, file_children := (file_children p)[i := last]\<rparr>) s) (\<lambda>s1.
        res_bind (file_release call par s1) (\<lambda>s2. Ret (Ok, s2)))))
     else detach_from call par child is p s)"

definition file_detach ::
    "(u64 \<Rightarrow> u64 \<Rightarrow> ('a) kfiles_scheme \<Rightarrow> (('a) kfiles_scheme) res) \<Rightarrow> u64 \<Rightarrow> u64 \<Rightarrow> ('a) kfiles_scheme
      \<Rightarrow> (status \<times> ('a) kfiles_scheme) res" where
  "file_detach call par child s =
     res_bind (kassert (par \<noteq> 0)) (\<lambda>_.
     res_bind (kassert (child \<noteq> 0)) (\<lambda>_.
     res_bind (file_at par s) (\<lambda>p. detach_from call par child [0..<unat (file_child_count p)] p s)))"

subsection \<open>Looking files up\<close>

fun find_from :: "u64 \<Rightarrow> u64 \<Rightarrow> nat list \<Rightarrow> vfile \<Rightarrow> ('a) kfiles_scheme \<Rightarrow> (u64 \<times> ('a) kfiles_scheme) res" where
  "find_from name n [] p s = Ret (0, s)"
| "find_from name n (i # is) p s =
     res_bind (child_at p (of_nat i)) (\<lambda>c.
     res_bind (file_at c s) (\<lambda>x.
     if strncmp (memory s) name (file_name x) n = 0 then
       res_bind (file_retain c s) (\<lambda>s1. Ret (c, s1))
     else find_from name n is p s))"

definition file_find_child_named ::
    "u64 \<Rightarrow> u64 \<Rightarrow> u64 \<Rightarrow> ('a) kfiles_scheme \<Rightarrow> (u64 \<times> ('a) kfiles_scheme) res" where
  "file_find_child_named f name n s =
     res_bind (kassert (f \<noteq> 0)) (\<lambda>_.
     res_bind (kassert (name \<noteq> 0)) (\<lambda>_.
     res_bind (file_at f s) (\<lambda>p. find_from name n [0..<unat (file_child_count p)] p s)))"

text \<open>The bound given to the search is \<open>start - &path[i]\<close>, the negative of the length of the
  component, as a \<open>size_t\<close>.\<close>

partial_function (option) path_loop ::
    "u64 \<Rightarrow> u64 \<Rightarrow> u64 \<Rightarrow> u64 \<Rightarrow> ('a) kfiles_scheme \<Rightarrow> (u64 \<times> ('a) kfiles_scheme) res option" where
  "path_loop path par start i s =
     (if memory s (path + i) = 0 then Some (Ret (par, s))
      else if memory s (path + i) = 0x2f then
        (case file_find_child_named par start (start - (path + i)) s of
           Ret (c, s1) \<Rightarrow> if c = 0 then Some (Ret (0, s1)) else path_loop path c (path + (i + 1)) (i + 1) s1
         | Panic \<Rightarrow> Some Panic | Fault \<Rightarrow> Some Fault | Hang \<Rightarrow> Some Hang)
      else path_loop path par start (i + 1) s)"

definition file_from_path :: "u64 \<Rightarrow> ('a) kfiles_scheme \<Rightarrow> (u64 \<times> ('a) kfiles_scheme) res" where
  "file_from_path path s =
     res_bind (kassert (path \<noteq> 0)) (\<lambda>_.
     case path_loop path (Root s) path 0 s of None \<Rightarrow> Hang | Some r \<Rightarrow> r)"

text \<open>The status of \<open>file_attach\<close> is not looked at.\<close>

definition file_attach_path ::
    "(u64 \<Rightarrow> u64 \<Rightarrow> ('a) kfiles_scheme \<Rightarrow> (('a) kfiles_scheme) res) \<Rightarrow> u64 \<Rightarrow> u64 \<Rightarrow> ('a) kfiles_scheme
      \<Rightarrow> (status \<times> ('a) kfiles_scheme) res" where
  "file_attach_path call parent_path child s =
     res_bind (file_from_path parent_path s) (\<lambda>(par, s1).
     if par = 0 then Ret (Error_Invalid, s1)
     else
       res_bind (file_attach par child s1) (\<lambda>(_, s2).
       res_bind (file_release call par s2) (\<lambda>s3. Ret (Ok, s3))))"

subsection \<open>The file system\<close>

text \<open>The line that is logged is left out.\<close>

definition file_system_init :: "('a) kfiles_scheme \<Rightarrow> (status \<times> ('a) kfiles_scheme) res" where
  "file_system_init s = file_attach (Root s) (Dev s) s"

lemma word_count_measure: "i < n \<Longrightarrow> 18446744073709551616 - unat (i + 1) < 18446744073709551616 - unat i"
  for i n :: u64
  using unsigned_less [of i, where ?'a = nat] by (simp add: unat_Suc_less)

text \<open>\<open>file_fini\<close> from child \<open>i\<close> on. The children are finished first, each with a call of its own; \<open>d\<close> is
  how many calls the stack has room for, and a deeper recursion runs off it.\<close>

function file_fini_from ::
    "(u64 \<Rightarrow> u64 \<Rightarrow> ('a) kfiles_scheme \<Rightarrow> (('a) kfiles_scheme) res) \<Rightarrow> nat \<Rightarrow> u64 \<Rightarrow> u64 \<Rightarrow> ('a) kfiles_scheme
      \<Rightarrow> (('a) kfiles_scheme) res" where
  "file_fini_from call 0 f i s = Fault"
| "file_fini_from call (Suc d) f i s =
     res_bind (kassert (f \<noteq> 0)) (\<lambda>_.
     res_bind (file_at f s) (\<lambda>x.
     if i < file_child_count x then
       res_bind (child_at x i) (\<lambda>c.
       res_bind (file_fini_from call d c 0 s) (\<lambda>s1. file_fini_from call (Suc d) f (i + 1) s1))
     else
       res_bind (if file_fini_f x \<noteq> 0 then call (file_fini_f x) 0 s else Ret s) (\<lambda>s1.
       file_release call f s1)))"
  by pat_completeness auto
termination
  by (relation "measures [\<lambda>(call, d, f, i, s). d, \<lambda>(call, d, f, i, s). 2 ^ 64 - unat i]")
    (auto simp: word_count_measure)

definition file_fini ::
    "(u64 \<Rightarrow> u64 \<Rightarrow> ('a) kfiles_scheme \<Rightarrow> (('a) kfiles_scheme) res) \<Rightarrow> nat \<Rightarrow> u64 \<Rightarrow> ('a) kfiles_scheme
      \<Rightarrow> (('a) kfiles_scheme) res" where
  "file_fini call d f s = file_fini_from call d f 0 s"

definition file_system_fini ::
    "(u64 \<Rightarrow> u64 \<Rightarrow> ('a) kfiles_scheme \<Rightarrow> (('a) kfiles_scheme) res) \<Rightarrow> nat \<Rightarrow> ('a) kfiles_scheme
      \<Rightarrow> (('a) kfiles_scheme) res" where
  "file_system_fini call d s = file_fini call d (Root s) s"

subsection \<open>The children of a directory\<close>

definition kids :: "('a) kfiles_scheme \<Rightarrow> u64 \<Rightarrow> u64 list" where
  "kids s f = (case file_store s f of None \<Rightarrow> [] | Some p \<Rightarrow> take (unat (file_child_count p)) (file_children p))"

text \<open>A file whose array has as many slots as its capacity says, and at most that many children.\<close>

definition array_ok :: "vfile \<Rightarrow> bool" where
  "array_ok p \<longleftrightarrow> length (file_children p) = unat (file_child_capacity p) \<and>
     file_child_count p \<le> file_child_capacity p \<and> children_at p \<noteq> 0"

lemma file_at_simps [simp]:
  "file_store s f = Some x \<Longrightarrow> file_at f s = Ret x"
  "file_store s f = Some x \<Longrightarrow> set_file f g s = Ret (s\<lparr>file_store := (file_store s)(f \<mapsto> g x)\<rparr>)"
  "file_store s f = Some x \<Longrightarrow> file_retain f s =
     Ret (s\<lparr>file_store := (file_store s)(f \<mapsto> x\<lparr>file_obj := (file_obj x)\<lparr>ref_count := ref_count (file_obj x) + 1\<rparr>\<rparr>)\<rparr>)"
  by (simp_all add: file_at_def set_file_def file_retain_def object_retain_def)

lemma attach_room:
  assumes "file_store s par = Some p" "file_store s child = Some c" "par \<noteq> child" "par \<noteq> 0" "child \<noteq> 0"
    "file_name_is_valid (memory s) (file_name c) = Ret Ok"
    "file_child_count p < file_child_capacity p" "array_ok p"
  shows "\<exists>s'. file_attach par child s = Ret (Ok, s') \<and> kids s' par = kids s par @ [child] \<and>
    (\<forall>f. f \<noteq> par \<longrightarrow> kids s' f = kids s f) \<and>
    (\<exists>p'. file_store s' par = Some p' \<and> array_ok p' \<and> ref_count (file_obj p') = ref_count (file_obj p) + 1) \<and>
    map_option file_parent (file_store s' child) = Some par"
proof -
  have lt: "unat (file_child_count p) < length (file_children p)"
    using assms(7,8) by (simp add: array_ok_def word_less_nat_alt)
  have suc: "unat (file_child_count p + 1) = Suc (unat (file_child_count p))"
    using unat_Suc_less [OF assms(7)] .
  have "file_child_count p + 1 \<le> file_child_capacity p" using word_Suc_le [OF assms(7)] .
  moreover have "file_child_capacity p \<noteq> file_child_count p" using assms(7) by auto
  ultimately show ?thesis
    using assms lt suc by (simp add: file_attach_def kids_def array_ok_def take_Suc_conv_app_nth)
qed

lemma detach_from_find:
  assumes "file_store s par = Some p" "array_ok p" "ref_count (file_obj p) \<noteq> 1" "\<forall>i \<in> set is. i < unat (file_child_count p)"
  shows "detach_from call par child is p s =
    (case find (\<lambda>i. file_children p ! i = child) is of None \<Rightarrow> Ret (Error_Absent, s)
     | Some i \<Rightarrow> Ret (Ok, s\<lparr>file_store := (file_store s)(par \<mapsto> p\<lparr>file_child_count := file_child_count p - 1,
         file_children := (file_children p)[i := file_children p ! unat (file_child_count p - 1)],
         file_obj := (file_obj p)\<lparr>ref_count := ref_count (file_obj p) - 1\<rparr>\<rparr>)\<rparr>))"
  using assms(4)
proof (induction "is")
  case (Cons i "is")
  have len: "unat (file_child_count p) \<le> length (file_children p)"
    using assms(2) by (simp add: array_ok_def word_le_nat_alt)
  have i: "i < unat (file_child_count p)" using Cons.prems by simp
  then have "unat (of_nat i :: u64) = i"
    using unsigned_less [of "file_child_count p", where ?'a = nat] by (simp add: unat_of_nat)
  with i len have ci: "child_at p (of_nat i) = Ret (file_children p ! i)" by (simp add: child_at_def)
  have "0 < file_child_count p" using i by (auto simp: word_greater_zero_iff)
  then have "unat (file_child_count p - 1) < length (file_children p)"
    using len i by unat_arith
  then have cl: "child_at p (file_child_count p - 1) = Ret (file_children p ! unat (file_child_count p - 1))"
    by (simp add: child_at_def)
  show ?case
    using Cons ci cl assms(1,3) by (simp add: file_release_def object_release_def Let_def)
qed simp

lemma mset_take_remove:
  assumes "i < n" "n \<le> length xs"
  shows "mset (take (n - 1) (xs[i := xs ! (n - 1)])) = mset (take n xs) - {#xs ! i#}"
proof -
  let ?ys = "take n xs"
  have len: "length ?ys = n" using assms(2) by simp
  have lst: "last ?ys = xs ! (n - 1)" using assms len by (subst last_conv_nth) auto
  have "take (n - 1) (xs[i := xs ! (n - 1)]) = butlast (?ys[i := last ?ys])"
    using assms len lst by (simp add: butlast_conv_take take_update_swap)
  moreover have "mset (butlast (?ys[i := last ?ys])) = mset ?ys - {#?ys ! i#}"
  proof -
    have ne: "?ys \<noteq> []" using assms by auto
    have up: "mset (?ys[i := last ?ys]) = add_mset (last ?ys) (mset ?ys - {#?ys ! i#})"
      using assms len by (simp add: mset_update)
    have "last (?ys[i := last ?ys]) = last ?ys"
      using ne by (simp add: last_list_update)
    moreover have "?ys[i := last ?ys] = butlast (?ys[i := last ?ys]) @ [last (?ys[i := last ?ys])]"
      using ne by (metis append_butlast_last_id list_update_nonempty)
    ultimately have "mset (?ys[i := last ?ys]) = add_mset (last ?ys) (mset (butlast (?ys[i := last ?ys])))"
      by (metis mset_append union_mset_add_mset_right mset.simps add.right_neutral)
    with up show ?thesis by simp
  qed
  ultimately show ?thesis using assms by simp
qed

lemma detach_kids:
  assumes "file_store s par = Some p" "array_ok p" "ref_count (file_obj p) \<noteq> 1" "par \<noteq> 0" "child \<noteq> 0"
  shows "\<exists>s'. file_detach call par child s = Ret (if child \<in> set (kids s par) then Ok else Error_Absent, s') \<and>
    mset (kids s' par) = mset (kids s par) - {#child#} \<and> (\<forall>f. f \<noteq> par \<longrightarrow> kids s' f = kids s f)"
proof -
  let ?n = "unat (file_child_count p)"
  have len: "?n \<le> length (file_children p)" using assms(2) by (simp add: array_ok_def word_le_nat_alt)
  have run: "file_detach call par child s = detach_from call par child [0..<?n] p s"
    using assms(1,4,5) by (simp add: file_detach_def)
  note eq = detach_from_find [OF assms(1-3), of "[0..<?n]" call child]
  show ?thesis
  proof (cases "find (\<lambda>i. file_children p ! i = child) [0..<?n]")
    case None
    then have "child \<notin> set (kids s par)"
      using len assms(1) by (auto simp: find_upt_None kids_def in_set_conv_nth)
    then show ?thesis using run eq None by (auto simp: diff_single_trivial)
  next
    case (Some i)
    then have i: "i < ?n" "file_children p ! i = child" using find_upt_Some by blast+
    then have "child \<in> set (kids s par)" using len assms(1) by (auto simp: kids_def in_set_conv_nth)
    moreover have "unat (file_child_count p - 1) = ?n - 1" using i(1) by unat_arith
    ultimately show ?thesis
      using run eq Some i mset_take_remove [OF i(1) len] assms(1) by (auto simp: kids_def)
  qed
qed

subsection \<open>Paths\<close>

text \<open>A name without a slash, ended by a zero byte.\<close>

definition no_slash :: "mem \<Rightarrow> u64 \<Rightarrow> bool" where
  "no_slash m a \<longleftrightarrow> (\<exists>n. m (a + n) = 0 \<and> (\<forall>j < n. m (a + j) \<noteq> 0 \<and> m (a + j) \<noteq> 0x2f))"

definition children_ok :: "('a) kfiles_scheme \<Rightarrow> u64 \<Rightarrow> bool" where
  "children_ok s f \<longleftrightarrow> f \<noteq> 0 \<and> (\<exists>p. file_store s f = Some p \<and> unat (file_child_count p) \<le> length (file_children p) \<and>
     (\<forall>i < unat (file_child_count p). \<exists>x. file_store s (file_children p ! i) = Some x \<and> no_slash (memory s) (file_name x)))"

text \<open>A component of \<open>k\<close> bytes that is followed by a slash matches no name: the bound given to
  \<open>strncmp\<close> is so large that the slash itself is compared.\<close>

lemma component_no_match:
  assumes "\<forall>j < k. m (start + j) \<noteq> 0 \<and> m (start + j) \<noteq> 0x2f" "m (start + k) = 0x2f" "0 < k" "k < 2 ^ 63" "no_slash m name"
  shows "strncmp m start name (- k) \<noteq> 0"
proof
  assume "strncmp m start name (- k) = 0"
  then have z: "\<And>d. d < - k \<Longrightarrow> (\<forall>j. j < d \<longrightarrow> m (start + j) \<noteq> 0) \<Longrightarrow> m (start + d) = m (name + d)"
    by (auto simp: strncmp_def strncmp_loop_zero_iff)
  have "(unat k + unat (- k)) mod 2 ^ 64 = 0" using unat_word_ariths(1) [of k "- k"] by simp
  moreover have "0 < unat k" using assms(3) by (simp add: word_less_nat_alt)
  ultimately have "unat k + unat (- k) \<ge> 2 ^ 64" by (intro dvd_imp_le mod_0_imp_dvd) simp_all
  moreover have "unat k < 2 ^ 63" using assms(4) by (simp add: word_less_nat_alt)
  ultimately have "unat k < unat (- k)" by simp
  then have below: "d < - k" if "d \<le> k" for d
    using that by (simp add: word_less_nat_alt word_le_nat_alt)
  obtain n where n: "m (name + n) = 0" "\<And>j. j < n \<Longrightarrow> m (name + j) \<noteq> 0 \<and> m (name + j) \<noteq> 0x2f"
    using assms(5) unfolding no_slash_def by blast
  show False
  proof (cases "n \<le> k")
    case True
    have "m (start + n) = m (name + n)" using True assms(1) by (intro z [OF below]) auto
    moreover have "m (start + n) \<noteq> 0" using True assms(1,2) by (cases "n = k") auto
    ultimately show False using n(1) by simp
  next
    case False
    have "m (start + k) = m (name + k)" using assms(1) by (intro z [OF below]) auto
    with assms(2) n(2) [of k] False show False by (auto simp: not_le)
  qed
qed

lemma find_from_none:
  assumes "\<forall>i \<in> set is. i < length (file_children p) \<and> unat (of_nat i :: u64) = i \<and>
    (\<exists>x. file_store s (file_children p ! i) = Some x \<and> strncmp (memory s) name (file_name x) n \<noteq> 0)"
  shows "find_from name n is p s = Ret (0, s)"
  using assms
proof (induction "is")
  case (Cons i "is")
  then have "child_at p (of_nat i) = Ret (file_children p ! i)" by (simp add: child_at_def)
  moreover obtain x where "file_store s (file_children p ! i) = Some x" "strncmp (memory s) name (file_name x) n \<noteq> 0"
    using Cons.prems by auto
  ultimately show ?case using Cons by simp
qed simp

lemma find_component_none:
  assumes "children_ok s f" "start \<noteq> 0"
    "\<forall>j < k. memory s (start + j) \<noteq> 0 \<and> memory s (start + j) \<noteq> 0x2f" "memory s (start + k) = 0x2f" "0 < k" "k < 2 ^ 63"
  shows "file_find_child_named f start (- k) s = Ret (0, s)"
proof -
  obtain p where p: "file_store s f = Some p" "unat (file_child_count p) \<le> length (file_children p)" "f \<noteq> 0"
    "\<forall>i < unat (file_child_count p). \<exists>x. file_store s (file_children p ! i) = Some x \<and> no_slash (memory s) (file_name x)"
    using assms(1) unfolding children_ok_def by blast
  have u: "unat (of_nat i :: u64) = i" if "i < unat (file_child_count p)" for i
    using that unsigned_less [of "file_child_count p", where ?'a = nat] by (simp add: unat_of_nat)
  have "find_from start (- k) [0..<unat (file_child_count p)] p s = Ret (0, s)"
    using p(2,4) u component_no_match [OF assms(3-6)] by (intro find_from_none) fastforce
  with p assms(2) show ?thesis by (simp add: file_find_child_named_def)
qed

lemma path_skip:
  assumes "\<forall>j < n. memory s (path + (i + of_nat j)) \<noteq> 0 \<and> memory s (path + (i + of_nat j)) \<noteq> 0x2f"
  shows "path_loop path par start i s = path_loop path par start (i + of_nat n) s"
  using assms
proof (induction n)
  case (Suc n)
  then have "path_loop path par start i s = path_loop path par start (i + of_nat n) s" by simp
  also have "\<dots> = path_loop path par start (i + of_nat n + 1) s"
    using Suc.prems by (subst path_loop.simps) (simp add: add.assoc)
  finally show ?case by (simp add: ac_simps)
qed simp

lemma of_nat_unat_less: "j < unat k \<Longrightarrow> (of_nat j :: u64) < k"
  unfolding word_less_nat_alt unat_of_nat by (rule le_less_trans [OF mod_less_eq_dividend])

lemma path_component:
  assumes "\<forall>j < k. memory s (path + i + j) \<noteq> 0 \<and> memory s (path + i + j) \<noteq> 0x2f"
  shows "path_loop path par start i s = path_loop path par start (i + k) s"
proof -
  have "\<forall>j < unat k. memory s (path + (i + of_nat j)) \<noteq> 0 \<and> memory s (path + (i + of_nat j)) \<noteq> 0x2f"
    using assms of_nat_unat_less by (simp add: add.assoc)
  from path_skip [OF this] show ?thesis by simp
qed

lemma path_miss:
  assumes "children_ok s par" "path + i \<noteq> 0"
    "\<forall>j < k. memory s (path + i + j) \<noteq> 0 \<and> memory s (path + i + j) \<noteq> 0x2f" "memory s (path + i + k) = 0x2f"
    "0 < k" "k < 2 ^ 63"
  shows "path_loop path par (path + i) i s = Some (Ret (0, s))"
proof -
  have "path_loop path par (path + i) i s = path_loop path par (path + i) (i + k) s"
    by (rule path_component [OF assms(3)])
  also have "\<dots> = Some (Ret (0, s))"
  proof -
    have "memory s (path + (i + k)) = 0x2f" using assms(4) by (simp add: add.assoc)
    moreover have "path + i - (path + (i + k)) = - k" by simp
    ultimately show ?thesis
      using find_component_none [OF assms(1-6)] by (subst path_loop.simps) simp
  qed
  finally show ?thesis .
qed

text \<open>(C40) Looking up a path: a path without a slash is the root directory, whatever it says; a path with
  a name before its first slash is never found; and the path made of a single slash is the first
  child of the root, whatever its name. The names of the files are those \<open>file_attach\<close> admits.\<close>

theorem file_from_path_ignores_names:
  assumes "path \<noteq> 0" "k < 2 ^ 63"
    "\<forall>j < k. memory s (path + j) \<noteq> 0 \<and> memory s (path + j) \<noteq> 0x2f"
    "children_ok s (Root s)"
  shows "(memory s (path + k) = 0 \<longrightarrow> file_from_path path s = Ret (Root s, s)) \<and>
    (memory s (path + k) = 0x2f \<longrightarrow> 0 < k \<longrightarrow> file_from_path path s = Ret (0, s)) \<and>
    (memory s path = 0x2f \<longrightarrow> memory s (path + 1) = 0 \<longrightarrow> kids s (Root s) \<noteq> [] \<longrightarrow> hd (kids s (Root s)) \<noteq> 0 \<longrightarrow>
       (\<exists>s'. file_from_path path s = Ret (hd (kids s (Root s)), s')))"
proof (intro conjI impI)
  assume "memory s (path + k) = 0"
  then have "path_loop path (Root s) path (0 + k) s = Some (Ret (Root s, s))"
    by (subst path_loop.simps) simp
  with path_component [of k s path 0 "Root s" path] assms(1,3) show "file_from_path path s = Ret (Root s, s)"
    by (simp add: file_from_path_def)
next
  assume "memory s (path + k) = 0x2f" "0 < k"
  then show "file_from_path path s = Ret (0, s)"
    using path_miss [OF assms(4), of path 0 k] assms(1-3) by (simp add: file_from_path_def)
next
  assume slash: "memory s path = 0x2f" "memory s (path + 1) = 0" and ne: "kids s (Root s) \<noteq> []" "hd (kids s (Root s)) \<noteq> 0"
  obtain p where p: "file_store s (Root s) = Some p" "unat (file_child_count p) \<le> length (file_children p)" "Root s \<noteq> 0"
    "\<forall>i < unat (file_child_count p). \<exists>x. file_store s (file_children p ! i) = Some x \<and> no_slash (memory s) (file_name x)"
    using assms(4) unfolding children_ok_def by blast
  let ?c = "file_children p ! 0"
  have "0 < unat (file_child_count p)" using ne(1) p(1) by (simp add: kids_def)
  then have up: "[0..<unat (file_child_count p)] = 0 # [1..<unat (file_child_count p)]"
    "0 < length (file_children p)" using p(2) by (simp add: upt_conv_Cons, linarith)
  then have hd: "hd (kids s (Root s)) = ?c" using p(1) \<open>0 < unat _\<close> by (simp add: kids_def hd_take hd_conv_nth)
  obtain x where x: "file_store s ?c = Some x" using p(4) \<open>0 < unat _\<close> by blast
  have "strncmp (memory s) path (file_name x) 0 = 0" by (simp add: strncmp_def strncmp_loop_zero_iff)
  then obtain s' where s': "file_find_child_named (Root s) path 0 s = Ret (?c, s')" "memory s' = memory s"
    using p(1,3) assms(1) up x by (simp add: file_find_child_named_def child_at_def)
  have "path_loop path ?c (path + 1) 1 s' = Some (Ret (?c, s'))"
    using slash(2) s'(2) by (subst path_loop.simps) simp
  then have "path_loop path (Root s) path 0 s = Some (Ret (?c, s'))"
    using slash(1) s'(1) ne(2) hd by (subst path_loop.simps) simp
  with assms(1) hd show "\<exists>s'. file_from_path path s = Ret (hd (kids s (Root s)), s')"
    by (auto simp: file_from_path_def)
qed

subsection \<open>Properties\<close>

text \<open>A directory with room in its array of children: attaching puts the child behind the others, makes
  the directory its parent and counts a reference to the directory; detaching takes one
  occurrence of the child out, the last child moving to its place, or reports that there is none.
  The children of all other directories stay as they are.\<close>

theorem attach_detach_children:
  assumes "file_store s par = Some p" "array_ok p" "par \<noteq> 0" "child \<noteq> 0" "par \<noteq> child"
  shows "(file_child_count p < file_child_capacity p \<longrightarrow> file_store s child = Some c \<longrightarrow>
      file_name_is_valid (memory s) (file_name c) = Ret Ok \<longrightarrow>
      (\<exists>s'. file_attach par child s = Ret (Ok, s') \<and> kids s' par = kids s par @ [child] \<and>
         (\<forall>f. f \<noteq> par \<longrightarrow> kids s' f = kids s f) \<and>
         (\<exists>p'. file_store s' par = Some p' \<and> array_ok p' \<and> ref_count (file_obj p') = ref_count (file_obj p) + 1) \<and>
         map_option file_parent (file_store s' child) = Some par)) \<and>
    (ref_count (file_obj p) \<noteq> 1 \<longrightarrow>
      (\<exists>s'. file_detach call par child s = Ret (if child \<in> set (kids s par) then Ok else Error_Absent, s') \<and>
         mset (kids s' par) = mset (kids s par) - {#child#} \<and> (\<forall>f. f \<noteq> par \<longrightarrow> kids s' f = kids s f)))"
  using attach_room [OF assms(1) _ assms(5,3,4) _ _ assms(2)] detach_kids [OF assms(1,2) _ assms(3,4)] by blast

text \<open>A directory as the kernel defines it, without an array of children, can not be given a child:
  the first \<open>file_attach\<close> reports that there is no memory, because \<open>krealloc\<close> returns null for a
  null pointer, and leaves a capacity of ten behind; the second one stores through the null
  pointer. So \<open>file_system_init\<close> never attaches \<open>/dev\<close>.\<close>

theorem first_attach_fails:
  assumes "file_store s par = Some (directory name up)" "par \<noteq> 0" "child \<noteq> 0" "par \<noteq> child"
    "file_store s child = Some c" "file_name_is_valid (memory s) (file_name c) = Ret Ok"
  shows "\<exists>s'. file_attach par child s = Ret (Error_No_Memory, s') \<and> kids s' par = [] \<and> file_attach par child s' = Fault"
proof -
  let ?s = "s\<lparr>file_store := (file_store s)(par \<mapsto> (directory name up)\<lparr>file_child_capacity := 10\<rparr>)\<rparr>"
  have "file_attach par child s = Ret (Error_No_Memory, ?s)"
    using assms by (simp add: file_attach_def directory_def krealloc_def)
  moreover have "kids ?s par = []" by (simp add: kids_def directory_def)
  moreover have "file_attach par child ?s = Fault"
    using assms by (simp add: file_attach_def directory_def)
  ultimately show ?thesis by blast
qed

subsection \<open>Witnesses\<close>

text \<open>A memory with the names \<open>dev\<close> at 100 and \<open>tty\<close> at 200, the paths \<open>dev/\<close> at 300 and \<open>/\<close> at 400.\<close>

definition demo_memory :: mem where
  "demo_memory a =
     (if a = 100 \<or> a = 300 then 0x64 else if a = 101 \<or> a = 301 then 0x65 else if a = 102 \<or> a = 302 then 0x76
      else if a = 200 \<or> a = 201 then 0x74 else if a = 202 then 0x79 else if a = 303 \<or> a = 400 then 0x2f else 0)"

lemma demo_names:
  "file_name_is_valid demo_memory 100 = Ret Ok" "file_name_is_valid demo_memory 200 = Ret Ok"
  by (simp_all add: file_name_is_valid_def name_loop.simps demo_memory_def)

definition demo_files :: "kheap \<Rightarrow> kfiles" where
  "demo_files h = kheap.extend (h\<lparr>memory := demo_memory\<rparr>)
     \<lparr>file_store = [1000 \<mapsto> directory 50 0, 2000 \<mapsto> directory 100 1000, 3000 \<mapsto> directory 200 0,
        4000 \<mapsto> (directory 50 0)\<lparr>file_child_capacity := 10, file_child_count := 1, children_at := 8,
          file_children := 3000 # replicate 9 0, file_obj := Object_Clear\<lparr>ref_count := 2\<rparr>\<rparr>],
      Root = 4000, Dev = 2000\<rparr>"

lemma demo_files_simps [simp]:
  "memory (demo_files h) = demo_memory" "Root (demo_files h) = 4000"
  "file_store (demo_files h) 1000 = Some (directory 50 0)"
  "file_store (demo_files h) 2000 = Some (directory 100 1000)"
  "file_store (demo_files h) 3000 = Some (directory 200 0)"
  "file_store (demo_files h) 4000 = Some ((directory 50 0)\<lparr>file_child_capacity := 10, file_child_count := 1,
      children_at := 8, file_children := 3000 # replicate 9 0, file_obj := Object_Clear\<lparr>ref_count := 2\<rparr>\<rparr>)"
  by (simp_all add: demo_files_def kheap.defs)

theorem attach_detach_children_witness:
  "\<forall>h. \<exists>s'. file_attach 4000 2000 (demo_files h) = Ret (Ok, s') \<and> kids s' 4000 = [3000, 2000]"
proof
  fix h
  have ok: "array_ok ((directory 50 0)\<lparr>file_child_capacity := 10, file_child_count := 1, children_at := 8,
      file_children := 3000 # replicate 9 0, file_obj := Object_Clear\<lparr>ref_count := 2\<rparr>\<rparr>)"
    by (simp add: array_ok_def directory_def)
  have "kids (demo_files h) 4000 = [3000]" by (simp add: kids_def directory_def)
  then show "\<exists>s'. file_attach 4000 2000 (demo_files h) = Ret (Ok, s') \<and> kids s' 4000 = [3000, 2000]"
    using attach_detach_children [OF demo_files_simps(6) [of h] ok, where child = 2000 and c = "directory 100 1000" and call = "\<lambda>_ _. Ret"] demo_names
    by (auto simp: directory_def)
qed

theorem first_attach_fails_witness:
  "\<forall>h. \<exists>s'. file_attach 1000 2000 (demo_files h) = Ret (Error_No_Memory, s') \<and> file_attach 1000 2000 s' = Fault"
proof
  fix h
  show "\<exists>s'. file_attach 1000 2000 (demo_files h) = Ret (Error_No_Memory, s') \<and> file_attach 1000 2000 s' = Fault"
    using first_attach_fails [of "demo_files h" 1000 50 0 2000 "directory 100 1000"] demo_names
    by (auto simp: directory_def)
qed

theorem file_from_path_ignores_names_witness:
  "\<forall>h. file_from_path 300 (demo_files h) = Ret (0, demo_files h) \<and>
     (\<exists>s'. file_from_path 400 (demo_files h) = Ret (3000, s'))"
proof
  fix h
  have three: "j = 0 \<or> j = 1 \<or> j = 2" if "j < 3" for j :: u64 using that by unat_arith
  have ns: "no_slash demo_memory 200"
    unfolding no_slash_def by (rule exI [of _ 3]) (auto dest!: three simp: demo_memory_def)
  have ok: "children_ok (demo_files h) (Root (demo_files h))"
    using ns by (simp add: children_ok_def directory_def)
  have kids: "kids (demo_files h) 4000 = [3000]" by (simp add: kids_def directory_def)
  have "\<forall>j < 3. demo_memory (300 + j) \<noteq> 0 \<and> demo_memory (300 + j) \<noteq> 0x2f"
    by (auto dest!: three simp: demo_memory_def)
  then show "file_from_path 300 (demo_files h) = Ret (0, demo_files h) \<and>
     (\<exists>s'. file_from_path 400 (demo_files h) = Ret (3000, s'))"
    using file_from_path_ignores_names [of 300 3, OF _ _ _ ok] file_from_path_ignores_names [of 400 0, OF _ _ _ ok] kids
    by (simp add: demo_memory_def)
qed

end
