(* ===== verification/Devices.thy ===== *)
theory Devices
  imports Interrupts Files
begin

text \<open>
  The timer of \<open>kernel/device/pit.c\<close>, the keyboard of \<open>kernel/device/ps2_keyboard.c\<close> and the clock of
  \<open>kernel/device/cmos.c\<close>, over the ports of \<open>Serial\<close> and the dispatcher of \<open>Interrupts\<close>. The state of
  the dispatcher is extended with the processes, which the timer switches between, the tree of
  files, to which the keyboard is attached, and the static variables of the devices.
\<close>

datatype handler = Timer_Interrupt_Handler | Keyboard_Handler

record 'd machine = "(handler, 'd) irq" +
  kern :: kproc
  files :: kfiles
  Keyboard_Device :: u64
  shift_held :: bool

subsection \<open>The timer\<close>

definition Timer_IRQ_Number :: u8 where "Timer_IRQ_Number = 0x20"
definition Timer_Magic_Number :: nat where "Timer_Magic_Number = 1193180"
definition Timer_Chan_0 :: u8 where "Timer_Chan_0 = 0x40"
definition Timer_Command_Reg :: u8 where "Timer_Command_Reg = 0x43"
definition RW_Oneshot_Square :: u16 where "RW_Oneshot_Square = 0x36"

definition timer_interrupt_handler :: "('d, 'a) machine_scheme \<Rightarrow> (bool \<times> ('d, 'a) machine_scheme) res" where
  "timer_interrupt_handler s =
     res_bind (scheduler_yield (kern s)) (\<lambda>k. Ret (True, s\<lparr>kern := k\<rparr>))"

text \<open>The status of the registration is not looked at.\<close>

definition timer_init :: "('d, 'a) machine_scheme \<Rightarrow> (('d, 'a) machine_scheme) res" where
  "timer_init s =
     res_bind (interrupt_register_handler (uint Timer_IRQ_Number) Timer_Interrupt_Handler s) (\<lambda>(_, s1). Ret s1)"

text \<open>The divisor is kept in a \<open>uint8_t\<close>, and \<open>write_port\<close> takes the value first and the port
  second, so that the first argument of each call is the value here too. A frequency of zero divides
  by zero.\<close>

definition timer_set_phase :: "'d io \<Rightarrow> u8 \<Rightarrow> ('d, 'a) machine_scheme \<Rightarrow> (('d, 'a) machine_scheme) res" where
  "timer_set_phase io hertz s =
     (if hertz = 0 then Fault
      else
        (let divisor = of_nat (Timer_Magic_Number div unat hertz) :: u8;
             d = write_port io Timer_Command_Reg RW_Oneshot_Square (dev s);
             d = write_port io Timer_Chan_0 (ucast divisor AND 0xff) d;
             d = write_port io Timer_Chan_0 (drop_bit 8 (ucast divisor)) d
         in res_bind (pic_enable io Timer_IRQ_Number d) (\<lambda>d. Ret (s\<lparr>dev := d\<rparr>))))"

definition timer_fini :: "('d, 'a) machine_scheme \<Rightarrow> (('d, 'a) machine_scheme) res" where
  "timer_fini s =
     res_bind (interrupt_unregister_handler (uint Timer_IRQ_Number) Timer_Interrupt_Handler s) (\<lambda>(_, s1). Ret s1)"

subsection \<open>The keyboard\<close>

definition Keyboard_Right_Shift_Held :: u8 where "Keyboard_Right_Shift_Held = 0x36"
definition Keyboard_Right_Shift_Released :: u8 where "Keyboard_Right_Shift_Released = 0xb6"
definition Keyboard_Left_Shift_Released :: u8 where "Keyboard_Left_Shift_Released = 0xaa"
definition Keyboard_Input_Available :: u8 where "Keyboard_Input_Available = 0x1"
definition Keyboard_Status_Port :: u16 where "Keyboard_Status_Port = 0x64"
definition Keyboard_Data_Port :: u16 where "Keyboard_Data_Port = 0x60"
definition Keyboard_IRQ_Number :: u8 where "Keyboard_IRQ_Number = 0x21"

lemmas keyboard_consts =
  Keyboard_Right_Shift_Held_def Keyboard_Right_Shift_Released_def Keyboard_Left_Shift_Released_def
  Keyboard_Input_Available_def Keyboard_Status_Port_def Keyboard_Data_Port_def Keyboard_IRQ_Number_def

definition keyboard_map :: "u8 list" where
  "keyboard_map =
     [0, 27] @ map of_char ''1234567890-='' @ [8, 9] @ map of_char ''qwertyuiop[]'' @ [10, 0] @
     map of_char ''asdfghjkl;'' @ [0x27, 0x60, 0, 0x5c] @ map of_char ''zxcvbnm,./'' @ [0] @ map of_char ''*'' @
     [0, 0x20, 0, 0] @ replicate 8 0 @ [0, 0, 0, 0, 0, 0] @ map of_char ''-'' @ [0, 0, 0] @ map of_char ''+'' @
     replicate 177 0"

definition keyboard_shift_map :: "u8 list" where
  "keyboard_shift_map =
     [0, 27] @ map of_char ''!@#$%^&*()_+'' @ [8, 9] @ map of_char ''QWERTYUIOP{}'' @ [10, 0] @
     map of_char ''ASDFGHJKL:'' @ [0x22, 0x7e, 0, 0x7c] @ map of_char ''ZXCVBNM<>?'' @ [0] @ map of_char ''*'' @
     [0, 0x20, 0, 0] @ replicate 8 0 @ [0, 0, 0, 0, 0, 0] @ map of_char ''_'' @ [0, 0, 0] @ map of_char ''='' @
     replicate 177 0"

text \<open>The first test compares with the right shift key twice; the left one is missing.\<close>

definition keyboard_handler :: "'d io \<Rightarrow> ('d, 'a) machine_scheme \<Rightarrow> (bool \<times> ('d, 'a) machine_scheme) res" where
  "keyboard_handler io s =
     (let (status_port, d) = read_port io Keyboard_Status_Port (dev s); s1 = s\<lparr>dev := d\<rparr> in
      if status_port AND Keyboard_Input_Available \<noteq> 0 then
        (let (key_code, d2) = read_port io Keyboard_Data_Port d; s2 = s1\<lparr>dev := d2\<rparr> in
         if key_code = Keyboard_Right_Shift_Held \<or> key_code = Keyboard_Right_Shift_Held then
           Ret (True, s2\<lparr>shift_held := True\<rparr>)
         else if key_code = Keyboard_Right_Shift_Released \<or> key_code = Keyboard_Left_Shift_Released then
           Ret (True, s2\<lparr>shift_held := False\<rparr>)
         else
           (let c = (if shift_held s2 then keyboard_shift_map ! unat key_code else keyboard_map ! unat key_code) in
            if c \<noteq> 0 then res_bind (vga_putc c s2) (\<lambda>s3. Ret (True, s3)) else Ret (True, s2)))
      else Ret (True, s1))"

text \<open>\<open>dev_path\<close> is the address of the string \<open>"/dev/"\<close>.\<close>

definition keyboard_init ::
    "(u64 \<Rightarrow> u64 \<Rightarrow> kfiles \<Rightarrow> kfiles res) \<Rightarrow> u64 \<Rightarrow> ('d, 'a) machine_scheme \<Rightarrow> (('d, 'a) machine_scheme) res" where
  "keyboard_init call dev_path s =
     res_bind (file_attach_path call dev_path (Keyboard_Device s) (files s)) (\<lambda>(_, fs).
     res_bind (interrupt_register_handler (uint Keyboard_IRQ_Number) Keyboard_Handler (s\<lparr>files := fs\<rparr>))
       (\<lambda>(_, s1). Ret s1))"

definition keyboard_fini ::
    "(u64 \<Rightarrow> u64 \<Rightarrow> kfiles \<Rightarrow> kfiles res) \<Rightarrow> nat \<Rightarrow> ('d, 'a) machine_scheme \<Rightarrow> (('d, 'a) machine_scheme) res" where
  "keyboard_fini call depth s =
     res_bind (interrupt_unregister_handler (uint Keyboard_IRQ_Number) Keyboard_Handler s) (\<lambda>(_, s1).
     res_bind (file_fini call depth (Keyboard_Device s1) (files s1)) (\<lambda>fs. Ret (s1\<lparr>files := fs\<rparr>)))"

text \<open>What the dispatcher calls.\<close>

definition call_handler :: "'d io \<Rightarrow> (handler, ('d, 'a) machine_scheme) handler_call" where
  "call_handler io h r s =
     res_bind (case h of Timer_Interrupt_Handler \<Rightarrow> timer_interrupt_handler s | Keyboard_Handler \<Rightarrow> keyboard_handler io s)
       (\<lambda>(handled, s1). Ret (handled, r, s1))"

subsection \<open>The clock\<close>

definition CMOS_Command :: u16 where "CMOS_Command = 0x70"
definition CMOS_Data :: u16 where "CMOS_Data = 0x71"

datatype cmos_command =
  CMOS_Seconds | CMOS_Minutes | CMOS_Hours | CMOS_Weekday | CMOS_Day_Of_Month | CMOS_Month | CMOS_Year
  | CMOS_Century | CMOS_Status_A | CMOS_Status_B

primrec cmos_command_code :: "cmos_command \<Rightarrow> u8" where
  "cmos_command_code CMOS_Seconds = 0x00"
| "cmos_command_code CMOS_Minutes = 0x02"
| "cmos_command_code CMOS_Hours = 0x04"
| "cmos_command_code CMOS_Weekday = 0x06"
| "cmos_command_code CMOS_Day_Of_Month = 0x07"
| "cmos_command_code CMOS_Month = 0x08"
| "cmos_command_code CMOS_Year = 0x09"
| "cmos_command_code CMOS_Century = 0x32"
| "cmos_command_code CMOS_Status_A = 0x0a"
| "cmos_command_code CMOS_Status_B = 0x0b"

definition CMOS_Format_BCD :: u8 where "CMOS_Format_BCD = 0x04"
definition CMOS_Format_24_Hour :: u8 where "CMOS_Format_24_Hour = 0x02"
definition CMOS_Hour_PM_Bit :: u8 where "CMOS_Hour_PM_Bit = 0x80"
definition CMOS_Hour_Digits :: u8 where "CMOS_Hour_Digits = 0x7f"

definition CMOS_Convert_BCD :: "u8 \<Rightarrow> u8" where
  "CMOS_Convert_BCD x = (x AND 0x0f) + (x div 16 * 10)"

definition CMOS_Convert_Hours_BCD :: "u8 \<Rightarrow> u8" where
  "CMOS_Convert_Hours_BCD x = ((x AND 0x0f) + ((x AND 0x70) div 16 * 10)) OR (x AND 0x80)"

definition CMOS_Days_Per_Standard_Month :: "u8 list" where
  "CMOS_Days_Per_Standard_Month = [0, 31, 28, 31, 30, 31, 30, 31, 31, 30, 31, 30, 31]"

text \<open>The macros on \<open>int\<close> operands, which are small enough not to overflow except for the years, and
  on the \<open>uint64_t\<close> year.\<close>

definition minutes_to_seconds :: "u64 \<Rightarrow> u64" where "minutes_to_seconds x = x * 60"
definition hours_to_seconds :: "u64 \<Rightarrow> u64" where "hours_to_seconds x = minutes_to_seconds (x * 60)"
definition days_to_seconds :: "u64 \<Rightarrow> u64" where "days_to_seconds x = hours_to_seconds (x * 24)"

definition leap_days_since_1970 :: "u64 \<Rightarrow> u64" where
  "leap_days_since_1970 x = ((x - 1972) div 4) - ((x - 1970) div 100)"

text \<open>\<open>365 * x\<close> days of a \<open>uint8_t\<close> as seconds in an \<open>int\<close>; beyond its range C leaves it undefined.\<close>

definition standard_years_to_seconds :: "u8 \<Rightarrow> u64 res" where
  "standard_years_to_seconds x =
     (if 365 * uint x * 86400 < 2 ^ 31 then Ret (days_to_seconds (365 * ucast x)) else Fault)"

definition cmos_read :: "'d io \<Rightarrow> cmos_command \<Rightarrow> 'd \<Rightarrow> u8 \<times> 'd" where
  "cmos_read io command d = read_port io CMOS_Data (write_port io (cmos_command_code command) CMOS_Command d)"

record cmos_time =
  seconds1 :: u8
  century :: u8
  year_low :: u8
  month :: u8
  day_of_month :: u8
  hours :: u8
  minutes :: u8

partial_function (option) cmos_read_stable :: "'d io \<Rightarrow> 'd \<Rightarrow> (cmos_time \<times> 'd) option" where
  "cmos_read_stable io d =
     (let (s1, d) = cmos_read io CMOS_Seconds d;
          (ce, d) = cmos_read io CMOS_Century d;
          (ye, d) = cmos_read io CMOS_Year d;
          (mo, d) = cmos_read io CMOS_Month d;
          (da, d) = cmos_read io CMOS_Day_Of_Month d;
          (ho, d) = cmos_read io CMOS_Hours d;
          (mi, d) = cmos_read io CMOS_Minutes d;
          (s2, d) = cmos_read io CMOS_Seconds d
      in if s1 \<noteq> s2 then cmos_read_stable io d
         else Some (\<lparr>seconds1 = s1, century = ce, year_low = ye, month = mo, day_of_month = da, hours = ho,
                minutes = mi\<rparr>, d))"

definition cmos_convert :: "u8 \<Rightarrow> cmos_time \<Rightarrow> cmos_time" where
  "cmos_convert format t =
     (let t1 = (if format AND CMOS_Format_BCD = 0 then
                  t\<lparr>century := CMOS_Convert_BCD (century t), year_low := CMOS_Convert_BCD (year_low t),
                    month := CMOS_Convert_BCD (month t), day_of_month := CMOS_Convert_BCD (day_of_month t),
                    hours := CMOS_Convert_Hours_BCD (hours t), minutes := CMOS_Convert_BCD (minutes t),
                    seconds1 := CMOS_Convert_BCD (seconds1 t)\<rparr>
                else t)
      in if format AND CMOS_Format_24_Hour = 0 \<and> hours t1 AND CMOS_Hour_PM_Bit \<noteq> 0
         then t1\<lparr>hours := ((hours t1 AND CMOS_Hour_Digits) + 12) mod 24\<rparr> else t1)"

definition cmos_year :: "cmos_time \<Rightarrow> u64" where
  "cmos_year t = ucast (century t) * 100 + ucast (year_low t)"

definition cmos_epoch_time :: "cmos_time \<Rightarrow> u64 res" where
  "cmos_epoch_time t =
     (if unat (month t) < length CMOS_Days_Per_Standard_Month then
        res_bind (standard_years_to_seconds (year_low t)) (\<lambda>ys.
        Ret (ucast (seconds1 t) + minutes_to_seconds (ucast (minutes t)) + hours_to_seconds (ucast (hours t)) +
          days_to_seconds (ucast (day_of_month t)) + days_to_seconds (leap_days_since_1970 (cmos_year t)) +
          days_to_seconds (ucast (CMOS_Days_Per_Standard_Month ! unat (month t))) + ys))
      else Fault)"

definition cmos_get_time_of_day ::
    "'d io \<Rightarrow> (('d, 'a) log_state_scheme) warn_f \<Rightarrow> ('d, 'a) log_state_scheme
      \<Rightarrow> ((u64 \<times> u64) \<times> ('d, 'a) log_state_scheme) res" where
  "cmos_get_time_of_day io warn s =
     (case cmos_read_stable io (dev s) of None \<Rightarrow> Hang
      | Some (t0, d) \<Rightarrow>
          (let (format, d1) = cmos_read io CMOS_Status_B d; t = cmos_convert format t0 in
           res_bind (cmos_epoch_time t) (\<lambda>epoch_time.
           res_bind (logf io warn Log_Debug (''Time: %d/%d/%ld %d:%d:%d'' @ [CHR 0x0A])
               [VInt (ucast (day_of_month t)), VInt (ucast (month t)), VLong (cmos_year t),
                VInt (ucast (hours t)), VInt (ucast (minutes t)), VInt (ucast (seconds1 t))] (s\<lparr>dev := d1\<rparr>)) (\<lambda>s1.
           Ret ((epoch_time, 0), s1)))))"

text \<open>\<open>tzp\<close> says whether the pointer to the time zone is not null; its two fields are set to zero.\<close>

definition gettimeofday ::
    "'d io \<Rightarrow> (('d, 'a) log_state_scheme) warn_f \<Rightarrow> bool \<Rightarrow> ('d, 'a) log_state_scheme
      \<Rightarrow> ((int \<times> (u64 \<times> u64) \<times> (int \<times> int)) \<times> ('d, 'a) log_state_scheme) res" where
  "gettimeofday io warn tzp s =
     (if \<not> tzp then Fault
      else res_bind (cmos_get_time_of_day io warn s) (\<lambda>(tv, s1). Ret ((0, tv, (0, 0)), s1)))"

definition settimeofday :: "int" where "settimeofday = -1"

subsection \<open>The keyboard behind the dispatcher\<close>

lemma machine_more_eq:
  fixes s s' :: "('d, 'a) machine_scheme"
  assumes "vga.more s' = vga.more s"
  shows "dev s' = dev s" "Interrupt_Dispatch s' = Interrupt_Dispatch s" "dispatch_table_lock s' = dispatch_table_lock s"
    "shift_held s' = shift_held s" "kern s' = kern s" "files s' = files s"
  using assms by (cases s, cases s', simp)+

lemma call_handler_keeps: "keeps_table (call_handler io)"
  unfolding keeps_table_def
proof (intro allI impI)
  fix h r and s :: "('a, 'b) machine_scheme" and b r1 s1
  assume run: "call_handler io h r s = Ret (b, r1, s1)"
  show "interrupt_number r1 = interrupt_number r \<and> Interrupt_Dispatch s1 = Interrupt_Dispatch s"
  proof (cases h)
    case Timer_Interrupt_Handler
    with run show ?thesis by (auto simp: call_handler_def timer_interrupt_handler_def res_bind_Ret_iff)
  next
    case Keyboard_Handler
    with run have "keyboard_handler io s = Ret (b, s1)" "r1 = r"
      by (auto simp: call_handler_def res_bind_Ret_iff)
    then show ?thesis
      by (auto simp: keyboard_handler_def Let_def res_bind_Ret_iff split: prod.splits if_splits
          dest!: putc_more machine_more_eq(2))
  qed
qed

text \<open>The character a key stands for, with and without shift.\<close>

definition key_char :: "bool \<Rightarrow> u8 \<Rightarrow> u8" where
  "key_char shift k = (if shift then keyboard_shift_map else keyboard_map) ! unat k"

definition shift_codes :: "u8 set" where "shift_codes = {0x36, 0xb6, 0xaa}"

lemma keyboard_handler_effect:
  fixes s :: "('d, 'a) machine_scheme"
  assumes "vga_ok s" "VGA_lock s = Lock_Clear" "inb io 0x64 (dev s) = (st, d1)" "inb io 0x60 d1 = (k, d2)"
  shows "\<exists>s'. keyboard_handler io s = Ret (True, s') \<and> vga_ok s' \<and> VGA_lock s' = Lock_Clear \<and>
    Interrupt_Dispatch s' = Interrupt_Dispatch s \<and> dispatch_table_lock s' = dispatch_table_lock s \<and>
    kern s' = kern s \<and> files s' = files s \<and>
    dev s' = (if st AND 1 \<noteq> 0 then d2 else d1) \<and>
    shift_held s' = (if st AND 1 = 0 \<or> k \<notin> shift_codes then shift_held s else k = 0x36) \<and>
    (let c = key_char (shift_held s) k in
     if st AND 1 = 0 \<or> k \<in> shift_codes \<or> c = 0 then term_of s' = term_of s
     else c \<notin> {0x09, 0x0a} \<longrightarrow>
       term_of s' = term_putc (blank s) (vga_entry c (VGA_Current_Foreground s) (VGA_Current_Background s)) (term_of s))"
proof (cases "st AND 1 \<noteq> 0 \<and> k \<notin> shift_codes \<and> key_char (shift_held s) k \<noteq> 0")
  case False
  then show ?thesis
    using assms
    by (auto simp: keyboard_handler_def read_port_def keyboard_consts key_char_def shift_codes_def Let_def vga_ok_def
        term_of_def)
next
  case True
  let ?s = "s\<lparr>dev := d2\<rparr>" and ?c = "key_char (shift_held s) k"
  have ok: "vga_ok ?s" "VGA_lock ?s = Lock_Clear" using assms(1,2) by (simp_all add: vga_ok_def)
  from putc_locked [OF this, of ?c] obtain v where
    v: "vga_putc ?c ?s = Ret v" "vga_ok v" "vga_keeps ?s v"
      "?c \<noteq> 0x09 \<Longrightarrow> term_of v = (if ?c = 0x0a then term_newline (blank ?s) (term_of ?s)
        else term_putc (blank ?s) (vga_entry ?c (VGA_Current_Foreground ?s) (VGA_Current_Background ?s)) (term_of ?s))"
    by blast
  have "keyboard_handler io s = Ret (True, v)"
    using True assms v(1)
    by (auto simp: keyboard_handler_def read_port_def keyboard_consts key_char_def shift_codes_def Let_def)
  moreover have "VGA_lock v = Lock_Clear" "vga.more v = vga.more ?s"
    using v(3) assms(2) by (simp_all add: vga_keeps_def)
  moreover note machine_more_eq [OF this(2)]
  moreover have "term_of ?s = term_of s" "blank ?s = blank s" by (simp_all add: term_of_def blank_def)
  ultimately show ?thesis using v True by (auto simp: Let_def)
qed

text \<open>(C36) A key press, from the interrupt to the screen: with the keyboard's handler registered for vector
  0x21, dispatching that interrupt returns, the console stays within its screen and the table as it
  was, and both controllers are told. A key that stands for a character writes it at the cursor, as
  on a terminal that wraps and scrolls; the right shift key selects the upper table until either
  shift key is released. The left shift key (code 0x2a) does nothing when pressed.\<close>

theorem key_press_reaches_screen:
  fixes s :: "('d, 'a) machine_scheme"
  assumes "irq_ok s" "vga_ok s" "VGA_lock s = Lock_Clear" "handlers_at s 0x21 = [Keyboard_Handler]"
    "interrupt_number r = 0x21" "inb io 0x64 (dev s) = (st, d1)" "st AND 1 \<noteq> 0" "inb io 0x60 d1 = (k, d2)"
  shows "\<exists>s'. interrupts_dispatcher io warn (call_handler io) cr2 r s = Ret s' \<and> vga_ok s' \<and>
    Interrupt_Dispatch s' = Interrupt_Dispatch s \<and> dev s' = outb io 0x20 0x20 (outb io 0x20 0xa0 d2) \<and>
    shift_held s' = (if k \<in> {0x36, 0xb6, 0xaa} then k = 0x36 else shift_held s) \<and>
    (let c = key_char (shift_held s) k in
     if k \<in> {0x36, 0xb6, 0xaa, 0x2a} \<or> c = 0 then term_of s' = term_of s
     else c \<notin> {0x09, 0x0a} \<longrightarrow>
       term_of s' = term_putc (blank s) (vga_entry c (VGA_Current_Foreground s) (VGA_Current_Background s)) (term_of s))"
proof -
  from keyboard_handler_effect [OF assms(2,3,6,8)] obtain s1 where
    s1: "keyboard_handler io s = Ret (True, s1)" "vga_ok s1" "Interrupt_Dispatch s1 = Interrupt_Dispatch s"
      "dev s1 = d2" "shift_held s1 = (if k \<notin> shift_codes then shift_held s else k = 0x36)"
      "let c = key_char (shift_held s) k in
       if k \<in> shift_codes \<or> c = 0 then term_of s1 = term_of s
       else c \<notin> {0x09, 0x0a} \<longrightarrow>
         term_of s1 = term_putc (blank s) (vga_entry c (VGA_Current_Foreground s) (VGA_Current_Background s)) (term_of s)"
    using assms(7) by auto
  let ?s = "s1\<lparr>dev := outb io 0x20 0x20 (outb io 0x20 0xa0 d2)\<rparr>"
  have "first_handler (call_handler io) (handlers_at s 0x21) r s = Ret (True, r, s1)"
    using assms(4) s1(1) by (simp add: call_handler_def)
  then have "interrupts_dispatcher io warn (call_handler io) cr2 r s = Ret ?s"
    using dispatcher_run [OF assms(1) call_handler_keeps [of io], of r io warn cr2] assms(5) s1(4) by auto
  moreover have "vga_ok ?s" "term_of ?s = term_of s1" using s1(2) by (simp_all add: vga_ok_def term_of_def)
  moreover have "key_char b 0x2a = 0" for b
    by (cases b) (simp_all add: key_char_def keyboard_map_def keyboard_shift_map_def nth_append)
  ultimately show ?thesis using s1(3,5,6) by (auto simp: shift_codes_def Let_def)
qed

text \<open>Setting the rate of the timer: the three bytes meant for the timer go to the ports 0x36, the
  divisor modulo 256 and 0, because value and port are exchanged in the calls, and the mask of the
  second interrupt controller is written back as it was read. A rate of zero divides by zero.\<close>

theorem timer_set_phase_ports:
  "timer_set_phase io hertz s =
     (if hertz = 0 then Fault
      else (let d = outb io 0x40 0 (outb io 0x40 (of_nat (1193180 div unat hertz mod 256)) (outb io 0x43 0x36 (dev s)));
                (m, d') = inb io 0xa1 d
            in Ret (s\<lparr>dev := outb io m 0xa1 d'\<rparr>)))"
proof (cases "hertz = 0")
  case False
  let ?q = "1193180 div unat hertz"
  have line: "pic_line 0x20 = (0xa1, 0x18)" by (simp add: pic_line_def pic_consts)
  have zero: "(0x1000000 :: u8) = 0" by simp
  have short: "bit x n \<Longrightarrow> n < 8" for x :: u8 and n using bit_imp_le_length [of x n] by simp
  have low: "(ucast x :: u16) AND 0xff = ucast x" "drop_bit 8 (ucast x :: u16) = 0" for x :: u8
    by (auto intro!: bit_word_eqI simp: mask_bits bit_simps dest: short)
  have "unat (ucast x :: u16) = unat x" for x :: u8
    using unsigned_less [of x, where ?'a = nat] by (simp add: unsigned_ucast_eq take_bit_eq_mod)
  then have "(ucast (of_nat ?q :: u8) :: u16) = of_nat (?q mod 256)"
    by (simp add: word_unat_eq_iff unat_of_nat)
  with False show ?thesis
    by (simp add: timer_set_phase_def Timer_Magic_Number_def Timer_Command_Reg_def RW_Oneshot_Square_def Timer_Chan_0_def
        Timer_IRQ_Number_def pic_enable_def line write_port_def read_port_def Let_def zero low split: prod.splits)
qed (simp add: timer_set_phase_def)

subsection \<open>What the clock tells\<close>

definition bcd :: "nat \<Rightarrow> u8" where "bcd n = of_nat (n div 10 * 16 + n mod 10)"

lemma bcd_all:
  "list_all (\<lambda>n. CMOS_Convert_BCD (bcd n) = of_nat n) [0..<100]"
  "list_all (\<lambda>n. CMOS_Convert_Hours_BCD (bcd n) = of_nat n) [0..<24]"
  by code_simp+

lemma bcd_reads_back:
  "n < 100 \<Longrightarrow> CMOS_Convert_BCD (bcd n) = of_nat n" "n < 24 \<Longrightarrow> CMOS_Convert_Hours_BCD (bcd n) = of_nat n"
  using bcd_all by (simp_all add: list_all_iff)

lemma ucast_small: "n < 256 \<Longrightarrow> (ucast (of_nat n :: u8) :: u64) = of_nat n"
  by (simp add: word_unat_eq_iff unsigned_ucast_eq take_bit_eq_mod unat_of_nat)

lemma word_div_small: "a < 2 ^ 32 \<Longrightarrow> 0 < b \<Longrightarrow> b < 2 ^ 32 \<Longrightarrow> (of_nat a :: u64) div of_nat b = of_nat (a div b)"
proof -
  assume *: "a < 2 ^ 32" "0 < b" "b < 2 ^ 32"
  have "a div b < 2 ^ 64" by (rule le_less_trans [OF div_le_dividend]) (use *(1) in simp)
  with * show "(of_nat a :: u64) div of_nat b = of_nat (a div b)"
    by (simp add: word_unat_eq_iff unat_div unat_of_nat)
qed

text \<open>A date of this century as the registers hold it, in decimal digits and with 24 hours a day, and
  the days since the first of January 1970 in the proleptic Gregorian calendar.\<close>

record date =
  yr :: nat
  mon :: nat
  mday :: nat
  hour :: nat
  mnt :: nat
  sec :: nat

definition date_ok :: "date \<Rightarrow> bool" where
  "date_ok t \<longleftrightarrow> yr t \<le> 68 \<and> 1 \<le> mon t \<and> mon t \<le> 12 \<and> 1 \<le> mday t \<and> mday t \<le> 31 \<and> hour t < 24 \<and> mnt t < 60 \<and> sec t < 60"

definition month_days :: "nat list" where
  "month_days = [31, 28, 31, 30, 31, 30, 31, 31, 30, 31, 30, 31]"

definition unix_days :: "date \<Rightarrow> nat" where
  "unix_days t = 10957 + 365 * yr t + (yr t + 3) div 4 + sum_list (take (mon t - 1) month_days) +
     (if yr t mod 4 = 0 \<and> 2 < mon t then 1 else 0) + (mday t - 1)"

primrec date_register :: "date \<Rightarrow> cmos_command \<Rightarrow> u8" where
  "date_register t CMOS_Seconds = bcd (sec t)"
| "date_register t CMOS_Minutes = bcd (mnt t)"
| "date_register t CMOS_Hours = bcd (hour t)"
| "date_register t CMOS_Weekday = 1"
| "date_register t CMOS_Day_Of_Month = bcd (mday t)"
| "date_register t CMOS_Month = bcd (mon t)"
| "date_register t CMOS_Year = bcd (yr t)"
| "date_register t CMOS_Century = bcd 20"
| "date_register t CMOS_Status_A = 0"
| "date_register t CMOS_Status_B = CMOS_Format_24_Hour"

definition clock_shows :: "'d io \<Rightarrow> date \<Rightarrow> bool" where
  "clock_shows io t \<longleftrightarrow> (\<forall>c d. fst (cmos_read io c d) = date_register t c)"

definition code_days :: "date \<Rightarrow> nat" where
  "code_days t = mday t + (7 + yr t div 4) + month_days ! (mon t - 1) + 365 * yr t"

lemma cmos_read_shows:
  assumes "clock_shows io t" obtains d' where "cmos_read io c d = (date_register t c, d')"
  using assms that unfolding clock_shows_def by (metis prod.collapse)

definition raw_time :: "date \<Rightarrow> cmos_time" where
  "raw_time t = \<lparr>seconds1 = bcd (sec t), century = bcd 20, year_low = bcd (yr t), month = bcd (mon t),
     day_of_month = bcd (mday t), hours = bcd (hour t), minutes = bcd (mnt t)\<rparr>"

definition read_time :: "date \<Rightarrow> cmos_time" where
  "read_time t = \<lparr>seconds1 = of_nat (sec t), century = 20, year_low = of_nat (yr t), month = of_nat (mon t),
     day_of_month = of_nat (mday t), hours = of_nat (hour t), minutes = of_nat (mnt t)\<rparr>"

lemma read_stable_shows:
  assumes "clock_shows io t" shows "\<exists>d'. cmos_read_stable io d = Some (raw_time t, d')"
proof -
  have "fst (cmos_read io c d) = date_register t c" for c d using assms by (simp add: clock_shows_def)
  then show ?thesis
    by (subst cmos_read_stable.simps) (auto simp: raw_time_def Let_def split: prod.splits dest!: arg_cong [of _ _ fst])
qed

lemma convert_shows: "date_ok t \<Longrightarrow> cmos_convert CMOS_Format_24_Hour (raw_time t) = read_time t"
  using bcd_reads_back(1) [of 20]
  by (simp add: cmos_convert_def raw_time_def read_time_def CMOS_Format_BCD_def CMOS_Format_24_Hour_def bcd_reads_back date_ok_def)

lemma month_days_code:
  assumes "1 \<le> m" "m \<le> 12"
  shows "unat (of_nat m :: u8) = m" "CMOS_Days_Per_Standard_Month ! m = of_nat (month_days ! (m - 1))"
    "month_days ! (m - 1) \<le> 31" "month_days ! (m - 1) < 256"
proof -
  show "unat (of_nat m :: u8) = m" using assms by (simp add: unat_of_nat)
  have "m \<in> {1, 2, 3, 4, 5, 6, 7, 8, 9, 10, 11, 12}" using assms by (simp, presburger)
  then show "CMOS_Days_Per_Standard_Month ! m = of_nat (month_days ! (m - 1))" "month_days ! (m - 1) \<le> 31" "month_days ! (m - 1) < 256"
    by (auto simp: CMOS_Days_Per_Standard_Month_def month_days_def)
qed

lemma epoch_shows:
  assumes "date_ok t"
  shows "cmos_epoch_time (read_time t) = Ret (of_nat (86400 * code_days t + 3600 * hour t + 60 * mnt t + sec t))"
proof -
  have b: "yr t \<le> 68" "1 \<le> mon t" "mon t \<le> 12" "mday t < 256" "hour t < 256" "mnt t < 256" "sec t < 256" "yr t < 256"
    using assms by (auto simp: date_ok_def)
  note m = month_days_code [OF b(2,3)]
  have y: "cmos_year (read_time t) = of_nat (2000 + yr t)"
    using b(8) by (simp add: cmos_year_def read_time_def ucast_small)
  have "cmos_year (read_time t) - 1972 = of_nat (28 + yr t)" "cmos_year (read_time t) - 1970 = of_nat (30 + yr t)"
    by (simp_all add: y)
  moreover have "(of_nat (28 + yr t) :: u64) div of_nat 4 = of_nat ((28 + yr t) div 4)"
    "(of_nat (30 + yr t) :: u64) div of_nat 100 = of_nat ((30 + yr t) div 100)"
    using b(1) by (intro word_div_small; simp)+
  moreover have "(28 + yr t) div 4 = 7 + yr t div 4" "(30 + yr t) div 100 = 0" using b(1) by simp_all
  ultimately have leap: "leap_days_since_1970 (cmos_year (read_time t)) = of_nat (7 + yr t div 4)"
    by (simp add: leap_days_since_1970_def)
  have "uint (of_nat (yr t) :: u8) = int (yr t)" using b(8) by (simp add: uint_nat unat_of_nat)
  then have years: "standard_years_to_seconds (of_nat (yr t)) = Ret (of_nat (86400 * (365 * yr t)))"
    using b(1,8) by (simp add: standard_years_to_seconds_def ucast_small days_to_seconds_def hours_to_seconds_def
        minutes_to_seconds_def)
  show ?thesis
    using years leap m b
    by (simp add: cmos_epoch_time_def read_time_def CMOS_Days_Per_Standard_Month_def [THEN arg_cong [of _ _ length]] ucast_small
        days_to_seconds_def hours_to_seconds_def minutes_to_seconds_def code_days_def algebra_simps)
qed

lemma month_sum_ge: "1 \<le> m \<Longrightarrow> m \<le> 12 \<Longrightarrow> month_days ! (m - 1) \<le> 31"
  using month_days_code by blast

text \<open>The clock: from registers that hold a date of the years 2000 to 2068 in decimal digits,
  \<open>cmos_get_time_of_day\<close> returns, with the time of the day right to the second, but the days are
  counted from the beginning of the century, with the length of the current month in place of the
  days of the months before it: the time returned is more than 10900 days before the time of
  the date.\<close>

theorem clock_is_decades_slow:
  fixes s :: "('d, 'a) log_state_scheme"
  assumes "clock_shows io t" "date_ok t" "Log_Debug < Log_Global_Level s"
  shows "\<exists>d'. cmos_get_time_of_day io warn s =
      Ret ((of_nat (86400 * code_days t + 3600 * hour t + 60 * mnt t + sec t), 0), s\<lparr>dev := d'\<rparr>) \<and>
    code_days t + 10900 < unix_days t"
proof -
  obtain d where d: "cmos_read_stable io (dev s) = Some (raw_time t, d)"
    using read_stable_shows [OF assms(1)] by blast
  obtain d1 where d1: "cmos_read io CMOS_Status_B d = (CMOS_Format_24_Hour, d1)"
    using cmos_read_shows [OF assms(1), of CMOS_Status_B d] by auto
  have quiet: "logf io warn Log_Debug m args (s\<lparr>dev := d1\<rparr>) = Ret (s\<lparr>dev := d1\<rparr>)" for m args
    using assms(3) by (auto simp: logf_def)
  have "cmos_get_time_of_day io warn s =
      Ret ((of_nat (86400 * code_days t + 3600 * hour t + 60 * mnt t + sec t), 0), s\<lparr>dev := d1\<rparr>)"
    by (simp add: cmos_get_time_of_day_def d d1 convert_shows [OF assms(2)] epoch_shows [OF assms(2)] quiet)
  moreover have "code_days t + 10900 < unix_days t"
  proof -
    have "month_days ! (mon t - 1) \<le> 31" "yr t div 4 \<le> (yr t + 3) div 4"
      using month_sum_ge [of "mon t"] assms(2) by (auto simp: date_ok_def div_le_mono)
    then show ?thesis using assms(2) by (simp add: code_days_def unix_days_def date_ok_def)
  qed
  ultimately show ?thesis by blast
qed

subsection \<open>Witnesses\<close>

text \<open>A port 0x71 that answers from the registers of a date; the state is the register selected and
  the keys that wait.\<close>

fun command_of :: "u8 \<Rightarrow> cmos_command" where
  "command_of b = (if b = 0 then CMOS_Seconds else if b = 2 then CMOS_Minutes else if b = 4 then CMOS_Hours
     else if b = 6 then CMOS_Weekday else if b = 7 then CMOS_Day_Of_Month else if b = 8 then CMOS_Month
     else if b = 9 then CMOS_Year else if b = 0x32 then CMOS_Century else if b = 0x0a then CMOS_Status_A else CMOS_Status_B)"

definition demo_ports :: "date \<Rightarrow> (u8 \<times> u8 list) io" where
  "demo_ports t = \<lparr>inb = \<lambda>port (sel, keys).
       if port = 0x71 then (date_register t (command_of sel), (sel, keys))
       else if port = 0x64 then (if keys = [] then 0 else 1, (sel, keys))
       else if port = 0x60 then (hd keys, (sel, tl keys))
       else (0, (sel, keys)),
     outb = \<lambda>b port (sel, keys). if port = 0x70 then (b, keys) else (sel, keys)\<rparr>"

definition new_millennium :: date where
  "new_millennium = \<lparr>yr = 0, mon = 1, mday = 1, hour = 0, mnt = 0, sec = 5\<rparr>"

lemma demo_ports_show: "clock_shows (demo_ports t) t"
proof -
  have "command_of (cmos_command_code c) = c" for c by (cases c) simp_all
  then show ?thesis
    by (simp add: clock_shows_def cmos_read_def read_port_def write_port_def demo_ports_def CMOS_Data_def CMOS_Command_def)
qed

definition quiet_log :: "(u8 \<times> u8 list) log_state" where
  "quiet_log = vga.extend blank_vga \<lparr>dev = (0, []), COM1_File_name = None, Log_Global_Level = Log_Info\<rparr>"

theorem clock_is_decades_slow_witness:
  "\<exists>d'. cmos_get_time_of_day (demo_ports new_millennium) (\<lambda>_. Ret) quiet_log =
     Ret ((3369605, 0), quiet_log\<lparr>dev := d'\<rparr>)"
proof -
  have "date_ok new_millennium" "Log_Debug < Log_Global_Level quiet_log"
    by (simp_all add: date_ok_def new_millennium_def quiet_log_def vga.defs less_log_level_def)
  from clock_is_decades_slow [OF demo_ports_show this, of "\<lambda>_. Ret"] show ?thesis
    by (auto simp: new_millennium_def code_days_def month_days_def)
qed

definition demo_machine :: "kproc \<Rightarrow> kfiles \<Rightarrow> u8 list \<Rightarrow> (u8 \<times> u8 list) machine" where
  "demo_machine k f keys = irq.extend (log_state.extend (vga.extend blank_vga
       \<lparr>dev = (0, keys), COM1_File_name = None, Log_Global_Level = Log_Info\<rparr>)
     \<lparr>dispatch_table_lock = Lock_Clear,
      Interrupt_Dispatch = (replicate 256 (replicate 10 None))[0x21 := Some Keyboard_Handler # replicate 9 None],
      IDT = replicate 256 empty_gate, idtr = None, interrupts_on = True\<rparr>)
     \<lparr>kern = k, files = f, Keyboard_Device = 0, shift_held = True\<rparr>"

theorem key_press_reaches_screen_witness:
  "\<forall>k f. \<exists>s'. interrupts_dispatcher (demo_ports new_millennium) (\<lambda>_. Ret) (call_handler (demo_ports new_millennium)) 0
     (demo_cpu 0x21) (demo_machine k f [0x1e]) = Ret s' \<and>
     term_of s' = term_putc (blank blank_vga) (vga_entry 0x41 VGA_White VGA_Black) (term_of blank_vga)"
proof (intro allI)
  fix k f
  let ?s = "demo_machine k f [0x1e]" and ?io = "demo_ports new_millennium"
  have ok: "irq_ok ?s" "vga_ok ?s" "VGA_lock ?s = Lock_Clear"
    by (auto simp: irq_ok_def irq_consts demo_machine_def irq.defs log_state.defs vga.defs blank_vga_def vga_ok_def vga_consts
        dest!: set_update_subset_insert [THEN subsetD])
  have hs: "handlers_at ?s 0x21 = [Keyboard_Handler]"
    by (simp add: handlers_at_def demo_machine_def irq.defs log_state.defs vga.defs List.map_filter_simps)
  have dev: "dev ?s = (0, [0x1e])" "shift_held ?s"
    by (simp_all add: demo_machine_def irq.defs log_state.defs vga.defs)
  have screen: "term_of ?s = term_of blank_vga" "blank ?s = blank blank_vga"
    "VGA_Current_Foreground ?s = VGA_White" "VGA_Current_Background ?s = VGA_Black"
    by (simp_all add: term_of_def blank_def demo_machine_def irq.defs log_state.defs vga.defs blank_vga_def)
  have key: "key_char True 0x1e = 0x41" by (simp add: key_char_def keyboard_shift_map_def nth_append)
  have "inb ?io 0x64 (dev ?s) = (1, (0, [0x1e]))" "inb ?io 0x60 (0, [0x1e]) = (0x1e, (0, []))"
    by (simp_all add: demo_ports_def dev)
  with key_press_reaches_screen [OF ok hs, of "demo_cpu 0x21" ?io 1 _ "0x1e" _ "\<lambda>_. Ret" 0] dev(2) screen key
  show "\<exists>s'. interrupts_dispatcher ?io (\<lambda>_. Ret) (call_handler ?io) 0 (demo_cpu 0x21) ?s = Ret s' \<and>
     term_of s' = term_putc (blank blank_vga) (vga_entry 0x41 VGA_White VGA_Black) (term_of blank_vga)"
    by (fastforce simp: demo_cpu_def Let_def)
qed

end
