(* ===== verification/Krandom.thy ===== *)
theory Krandom
  imports Page_Tables
begin

text \<open>
  Random numbers: the jitter of \<open>kernel/core/jitter.c\<close>, the pool of \<open>kernel/core/entropy.c\<close>, the
  Mersenne twister of \<open>kernel/core/mt19937_64.c\<close> and \<open>kernel/core/random.c\<close>. The time stamp counter and the
  \<open>rdrand\<close> instruction are parameters on a state of their own.
\<close>

subsection \<open>State\<close>

record 'r cpu_noise =
  rdtsc :: "'r \<Rightarrow> u64 \<times> 'r"
  rdrand_insn :: "'r \<Rightarrow> (u64 \<times> bool) \<times> 'r"

datatype number_function = Rdrand | Mt19937_64_get_random_number

record 'r krandom = kheap +
  noise :: 'r
  entropy_lock :: lock
  Entropy_Pool_Index :: int
  Entropy_Pool :: "u8 list"
  MT19937_64_Index :: u64
  MT19937_64_State :: "u64 list"
  MT19937_64_Lock :: lock
  random_number_function :: "number_function option"

subsection \<open>Jitter\<close>

definition Jitter_SHA1_Starting_Values :: u64 where "Jitter_SHA1_Starting_Values = 0xefcdab8967452301"
definition Jitter_Buffer_Size :: u64 where "Jitter_Buffer_Size = 2 * KB"
definition Jitter_Fold_Mask :: u64 where "Jitter_Fold_Mask = 0xff"

definition cpu_get_ticks :: "'r cpu_noise \<Rightarrow> ('r, 'a) krandom_scheme \<Rightarrow> u64 \<times> ('r, 'a) krandom_scheme" where
  "cpu_get_ticks cpu s = (let (t, r) = rdtsc cpu (noise s) in (t, s\<lparr>noise := r\<rparr>))"

definition jitter_fold :: "u64 \<Rightarrow> u64 \<Rightarrow> u64" where
  "jitter_fold delta entropy =
     (let entropy = entropy XOR (delta AND Jitter_Fold_Mask)
      in push_bit 8 entropy OR drop_bit 56 (entropy AND 0xff00000000000000))"

primrec jitter_loop ::
    "'r cpu_noise \<Rightarrow> u64 \<Rightarrow> nat \<Rightarrow> nat \<Rightarrow> u64 \<Rightarrow> ('r, 'a) krandom_scheme \<Rightarrow> u64 \<times> ('r, 'a) krandom_scheme" where
  "jitter_loop cpu buf i 0 entropy s = (entropy, s)"
| "jitter_loop cpu buf i (Suc n) entropy s =
     (let (before, s) = cpu_get_ticks cpu s;
          a = buf + of_nat i;
          s = s\<lparr>memory := (memory s)(a := memory s a + 1)\<rparr>;
          (after, s) = cpu_get_ticks cpu s
      in jitter_loop cpu buf (Suc i) n (jitter_fold (after - before) entropy) s)"

text \<open>The result of \<open>kmalloc\<close> is not tested.\<close>

definition memory_jitter_calculate ::
    "'r cpu_noise \<Rightarrow> ('r, 'a) krandom_scheme \<Rightarrow> (u64 \<times> ('r, 'a) krandom_scheme) res" where
  "memory_jitter_calculate cpu s =
     res_bind (kmalloc Jitter_Buffer_Size s) (\<lambda>(buf, s1).
     if buf = 0 then Fault
     else
       (let (entropy, s2) = jitter_loop cpu buf 0 (unat Jitter_Buffer_Size) Jitter_SHA1_Starting_Values s1 in
        res_bind (kfree buf s2) (\<lambda>s3. Ret (entropy, s3))))"

subsection \<open>The pool of entropy\<close>

definition Entropy_Pool_Size :: nat where "Entropy_Pool_Size = 256"

definition pool_in_range :: "int \<Rightarrow> ('r, 'a) krandom_scheme \<Rightarrow> bool" where
  "pool_in_range i s \<longleftrightarrow> 0 \<le> i \<and> i < int (length (Entropy_Pool s))"

definition entropy_pool_seed :: "u8 \<Rightarrow> ('r, 'a) krandom_scheme \<Rightarrow> (('r, 'a) krandom_scheme) res" where
  "entropy_pool_seed byte s =
     res_bind (lock_acquire_writer (entropy_lock s)) (\<lambda>l.
     (let i = Entropy_Pool_Index s + 1; s1 = s\<lparr>entropy_lock := l, Entropy_Pool_Index := i\<rparr> in
      if pool_in_range i s1 then
        res_bind (lock_release_writer (entropy_lock s1)) (\<lambda>l1.
        Ret (s1\<lparr>Entropy_Pool := (Entropy_Pool s1)[nat i := byte], entropy_lock := l1\<rparr>))
      else Fault))"

primrec seed_jitter :: "nat \<Rightarrow> u64 \<Rightarrow> ('r, 'a) krandom_scheme \<Rightarrow> (('r, 'a) krandom_scheme) res" where
  "seed_jitter 0 entropy s = Ret s"
| "seed_jitter (Suc n) entropy s =
     res_bind (entropy_pool_seed (ucast (entropy AND 0xff)) s) (seed_jitter n (drop_bit 8 entropy))"

definition entropy_pool_consume ::
    "'r cpu_noise \<Rightarrow> ('r, 'a) krandom_scheme \<Rightarrow> (u8 \<times> ('r, 'a) krandom_scheme) res" where
  "entropy_pool_consume cpu s =
     res_bind (lock_acquire_writer (entropy_lock s)) (\<lambda>l.
     res_bind
       (if Entropy_Pool_Index s < 0 then
          res_bind (lock_release_writer l) (\<lambda>l1.
          res_bind (memory_jitter_calculate cpu (s\<lparr>entropy_lock := l1\<rparr>)) (\<lambda>(entropy, s1).
          res_bind (seed_jitter 8 entropy s1) (\<lambda>s2.
          res_bind (lock_acquire_writer (entropy_lock s2)) (\<lambda>l2. Ret (s2\<lparr>entropy_lock := l2\<rparr>)))))
        else Ret (s\<lparr>entropy_lock := l\<rparr>)) (\<lambda>s3.
     if pool_in_range (Entropy_Pool_Index s3) s3 then
       (let value = Entropy_Pool s3 ! nat (Entropy_Pool_Index s3);
            s4 = s3\<lparr>Entropy_Pool_Index := Entropy_Pool_Index s3 - 1\<rparr> in
        res_bind (lock_release_writer (entropy_lock s4)) (\<lambda>l4. Ret (value, s4\<lparr>entropy_lock := l4\<rparr>)))
     else Fault))"

subsection \<open>The Mersenne twister\<close>

definition MT_W :: nat where "MT_W = 64"
definition MT_N :: nat where "MT_N = 312"
definition MT_M :: nat where "MT_M = 156"
definition MT_A :: u64 where "MT_A = 0xb5026f5aa96619e9"
definition MT_U :: nat where "MT_U = 29"
definition MT_D :: u64 where "MT_D = 0x5555555555555555"
definition MT_S :: nat where "MT_S = 17"
definition MT_B :: u64 where "MT_B = 0x71d67fffeda60000"
definition MT_T :: nat where "MT_T = 37"
definition MT_C :: u64 where "MT_C = 0xfff7eee000000000"
definition MT_F :: u64 where "MT_F = 6364136223846793005"
definition Lower_Mask :: u64 where "Lower_Mask = 0x7fffffff"
definition Upper_Mask :: u64 where "Upper_Mask = NOT Lower_Mask"

text \<open>The loops stop before \<open>N - 1\<close>: the last word of the state is never written.\<close>

fun seed_loop :: "nat list \<Rightarrow> u64 list \<Rightarrow> u64 list" where
  "seed_loop [] st = st"
| "seed_loop (i # is) st =
     seed_loop is (st[i := MT_F * (st ! (i - 1) XOR drop_bit (MT_W - 2) (st ! (i - 1))) + of_nat i])"

definition mt19937_64_seed :: "u64 \<Rightarrow> ('r, 'a) krandom_scheme \<Rightarrow> (('r, 'a) krandom_scheme) res" where
  "mt19937_64_seed seed s =
     res_bind (lock_acquire_writer (MT19937_64_Lock s)) (\<lambda>l.
     (let st = seed_loop [1..<MT_N - 1] ((MT19937_64_State s)[0 := seed]) in
      res_bind (lock_release_writer l) (\<lambda>l1.
      Ret (s\<lparr>MT19937_64_State := st, MT19937_64_Index := 0, MT19937_64_Lock := l1\<rparr>))))"

fun twist_loop :: "nat list \<Rightarrow> u64 list \<Rightarrow> u64 list" where
  "twist_loop [] st = st"
| "twist_loop (i # is) st =
     (let x = (st ! i AND Upper_Mask) + (st ! ((i + 1) mod MT_N) AND Lower_Mask);
          xA = drop_bit 1 x;
          xA = (if x AND 1 = 1 then xA XOR MT_A else xA)
      in twist_loop is (st[i := st ! ((i + MT_M) mod MT_N) XOR xA]))"

definition mt19937_64_twist :: "('r, 'a) krandom_scheme \<Rightarrow> (('r, 'a) krandom_scheme) res" where
  "mt19937_64_twist s =
     res_bind (lock_acquire_writer (MT19937_64_Lock s)) (\<lambda>l.
     (let st = twist_loop [0..<MT_N - 1] (MT19937_64_State s) in
      res_bind (lock_release_writer l) (\<lambda>l1.
      Ret (s\<lparr>MT19937_64_State := st, MT19937_64_Index := 0, MT19937_64_Lock := l1\<rparr>))))"

definition mt_temper :: "u64 \<Rightarrow> u64" where
  "mt_temper y =
     (let y = y XOR (drop_bit MT_U y AND MT_D);
          y = y XOR (push_bit MT_S y AND MT_B);
          y = y XOR (push_bit MT_T y AND MT_C)
      in y XOR drop_bit 1 y)"

definition mt19937_64_get_random_number ::
    "('r, 'a) krandom_scheme \<Rightarrow> (u64 \<times> ('r, 'a) krandom_scheme) res" where
  "mt19937_64_get_random_number s =
     res_bind (lock_acquire_writer (MT19937_64_Lock s)) (\<lambda>l.
     res_bind (kassert (MT19937_64_Index s \<le> of_nat MT_N)) (\<lambda>_.
     (let s1 = s\<lparr>MT19937_64_Lock := l\<rparr> in
      res_bind (if MT19937_64_Index s1 = of_nat MT_N then mt19937_64_twist s1 else Ret s1) (\<lambda>s2.
      if unat (MT19937_64_Index s2) < length (MT19937_64_State s2) then
        (let y = mt_temper (MT19937_64_State s2 ! unat (MT19937_64_Index s2));
             s3 = s2\<lparr>MT19937_64_Index := MT19937_64_Index s2 + 1\<rparr> in
         res_bind (lock_release_writer (MT19937_64_Lock s3)) (\<lambda>l1. Ret (y, s3\<lparr>MT19937_64_Lock := l1\<rparr>)))
      else Fault))))"

subsection \<open>Random numbers\<close>

text \<open>The instruction reports in the carry flag whether it had a number; the loop asks until it has.\<close>

partial_function (option) rdrand_loop :: "'r cpu_noise \<Rightarrow> 'r \<Rightarrow> (u64 \<times> 'r) option" where
  "rdrand_loop cpu r =
     (let ((rand, carry), r1) = rdrand_insn cpu r in if carry then Some (rand, r1) else rdrand_loop cpu r1)"

definition rdrand :: "'r cpu_noise \<Rightarrow> ('r, 'a) krandom_scheme \<Rightarrow> (u64 \<times> ('r, 'a) krandom_scheme) res" where
  "rdrand cpu s =
     (case rdrand_loop cpu (noise s) of None \<Rightarrow> Hang | Some (x, r) \<Rightarrow> Ret (x, s\<lparr>noise := r\<rparr>))"

definition random_number :: "'r cpu_noise \<Rightarrow> ('r, 'a) krandom_scheme \<Rightarrow> (u64 \<times> ('r, 'a) krandom_scheme) res" where
  "random_number cpu s =
     (case random_number_function s of None \<Rightarrow> Fault
      | Some Rdrand \<Rightarrow> rdrand cpu s
      | Some Mt19937_64_get_random_number \<Rightarrow> mt19937_64_get_random_number s)"

definition CPU_RDRAND :: u32 where "CPU_RDRAND = push_bit 30 1"

primrec consume_bytes ::
    "'r cpu_noise \<Rightarrow> nat \<Rightarrow> ('r, 'a) krandom_scheme \<Rightarrow> (u8 list \<times> ('r, 'a) krandom_scheme) res" where
  "consume_bytes cpu 0 s = Ret ([], s)"
| "consume_bytes cpu (Suc n) s =
     res_bind (entropy_pool_consume cpu s) (\<lambda>(b, s1).
     res_bind (consume_bytes cpu n s1) (\<lambda>(bs, s2). Ret (b # bs, s2)))"

text \<open>\<open>ecx\<close> is what the processor reports about its features.\<close>

definition random_init ::
    "'r cpu_noise \<Rightarrow> u32 \<Rightarrow> ('r, 'a) krandom_scheme \<Rightarrow> (status \<times> ('r, 'a) krandom_scheme) res" where
  "random_init cpu ecx s =
     (if ecx AND CPU_RDRAND \<noteq> 0 then Ret (Ok, s\<lparr>random_number_function := Some Rdrand\<rparr>)
      else
        res_bind (consume_bytes cpu 8 s) (\<lambda>(bs, s1).
        res_bind (mt19937_64_seed (word_of_bytes bs) s1) (\<lambda>s2.
        Ret (Ok, s2\<lparr>random_number_function := Some Mt19937_64_get_random_number\<rparr>))))"

primrec random_words ::
    "'r cpu_noise \<Rightarrow> u64 \<Rightarrow> nat \<Rightarrow> nat \<Rightarrow> ('r, 'a) krandom_scheme \<Rightarrow> (('r, 'a) krandom_scheme) res" where
  "random_words cpu buf i 0 s = Ret s"
| "random_words cpu buf i (Suc n) s =
     res_bind (random_number cpu s) (\<lambda>(w, s1).
     random_words cpu buf (Suc i) n (s1\<lparr>memory := store64 (memory s1) (buf + 8 * of_nat i) w\<rparr>))"

text \<open>The rest is filled from one number that is shifted by bits, not by bytes.\<close>

primrec store_rest :: "mem \<Rightarrow> u64 \<Rightarrow> u64 \<Rightarrow> nat \<Rightarrow> nat \<Rightarrow> mem" where
  "store_rest m a left_over i 0 = m"
| "store_rest m a left_over i (Suc n) =
     store_rest (m(a + of_nat i := ucast (drop_bit i left_over AND 0xff))) a left_over (Suc i) n"

definition random_bytes ::
    "'r cpu_noise \<Rightarrow> u64 \<Rightarrow> u64 \<Rightarrow> ('r, 'a) krandom_scheme \<Rightarrow> (('r, 'a) krandom_scheme) res" where
  "random_bytes cpu buf sz s =
     (let remainder = sz mod 8 in
      res_bind (random_words cpu buf 0 (unat (sz div 8)) s) (\<lambda>s1.
      if remainder \<noteq> 0 then
        res_bind (random_number cpu s1) (\<lambda>(left_over, s2).
        Ret (s2\<lparr>memory := store_rest (memory s2) (buf + (sz - remainder)) left_over 0 (unat remainder)\<rparr>))
      else Ret s1))"

definition random_address ::
    "'r cpu_noise \<Rightarrow> bool \<Rightarrow> u64 \<Rightarrow> ('r, 'a) krandom_scheme \<Rightarrow> (u64 \<times> ('r, 'a) krandom_scheme) res" where
  "random_address cpu kernel_space alignment s =
     res_bind (kassert (is_power_of_two alignment)) (\<lambda>_.
     res_bind (random_number cpu s) (\<lambda>(random, s1).
     (let random = align_as random alignment in
      Ret (if kernel_space then random OR Memory_Kernel_Set_Mask else random AND Memory_User_Clear_Mask, s1))))"

subsection \<open>The twister\<close>

lemma seed_loop_length [simp]: "length (seed_loop is st) = length st"
  by (induction "is" st rule: seed_loop.induct) auto

definition seed_step :: "nat \<Rightarrow> u64 \<Rightarrow> u64" where
  "seed_step i x = MT_F * (x XOR drop_bit 62 x) + of_nat i"

lemma seed_loop_upt:
  assumes "length st = 312" "1 \<le> i" "i + n \<le> 312"
  shows "(\<forall>k. k < i \<or> i + n \<le> k \<longrightarrow> seed_loop [i..<i + n] st ! k = st ! k) \<and>
    (\<forall>k. i \<le> k \<and> k < i + n \<longrightarrow> seed_loop [i..<i + n] st ! k = seed_step k (seed_loop [i..<i + n] st ! (k - 1)))"
  using assms
proof (induction n arbitrary: i st)
  case (Suc n)
  let ?st = "st[i := MT_F * (st ! (i - 1) XOR drop_bit (MT_W - 2) (st ! (i - 1))) + of_nat i]"
  have up: "[i..<i + Suc n] = i # [Suc i..<Suc i + n]" by (simp add: upt_conv_Cons)
  have "length ?st = 312" "1 \<le> Suc i" "Suc i + n \<le> 312" using Suc.prems by simp_all
  note IH = Suc.IH [OF this]
  have at_i: "?st ! i = seed_step i (st ! (i - 1))" using Suc.prems by (simp add: seed_step_def MT_W_def)
  have run: "seed_loop [i..<i + Suc n] st = seed_loop [Suc i..<Suc i + n] ?st" unfolding up by simp
  have low: "seed_loop [Suc i..<Suc i + n] ?st ! k = ?st ! k" if "k < Suc i \<or> Suc i + n \<le> k" for k
    using IH that by blast
  have "seed_loop [Suc i..<Suc i + n] ?st ! k = seed_step k (seed_loop [Suc i..<Suc i + n] ?st ! (k - 1))"
    if "i \<le> k" "k < i + Suc n" for k
  proof (cases "k = i")
    case True
    have "i - 1 < Suc i" "?st ! (i - 1) = st ! (i - 1)" using Suc.prems(2) by simp_all
    then show ?thesis unfolding True using low at_i by (metis lessI)
  next
    case False
    with that have "Suc i \<le> k \<and> k < Suc i + n" by simp
    with IH show ?thesis by blast
  qed
  moreover have "?st ! k = st ! k" if "k < i \<or> i + Suc n \<le> k" for k using that by auto
  moreover have "seed_loop [Suc i..<Suc i + n] ?st ! k = ?st ! k" if "k < i \<or> i + Suc n \<le> k" for k
    using low [of k] that by linarith
  ultimately show ?case unfolding run by metis
qed auto

primrec draw_numbers :: "nat \<Rightarrow> ('r, 'a) krandom_scheme \<Rightarrow> (u64 list \<times> ('r, 'a) krandom_scheme) res" where
  "draw_numbers 0 s = Ret ([], s)"
| "draw_numbers (Suc n) s =
     res_bind (mt19937_64_get_random_number s) (\<lambda>(x, s1).
     res_bind (draw_numbers n s1) (\<lambda>(xs, s2). Ret (x # xs, s2)))"

lemma get_number:
  assumes "MT19937_64_Lock s = Lock_Clear" "length (MT19937_64_State s) = 312" "MT19937_64_Index s = of_nat i" "i < 312"
  shows "mt19937_64_get_random_number s =
    Ret (mt_temper (MT19937_64_State s ! i), s\<lparr>MT19937_64_Index := of_nat (Suc i)\<rparr>)"
proof -
  have "unat (of_nat i :: u64) = i" using assms(4) by (simp add: unat_of_nat)
  moreover have "(of_nat i :: u64) \<noteq> 312" "(of_nat i :: u64) \<le> 312"
    using assms(4) calculation by (auto simp: word_le_nat_alt)
  moreover have "s\<lparr>MT19937_64_Lock := Lock_Clear\<rparr> = s" using assms(1) by simp
  ultimately show ?thesis
    using assms by (simp add: mt19937_64_get_random_number_def MT_N_def Let_def add.commute)
qed

lemma get_number_hangs:
  assumes "MT19937_64_Lock s = Lock_Clear" "MT19937_64_Index s = 312"
  shows "mt19937_64_get_random_number s = Hang"
  using assms by (simp add: mt19937_64_get_random_number_def MT_N_def Let_def mt19937_64_twist_def)

lemma draw_from:
  assumes "MT19937_64_Lock s = Lock_Clear" "length (MT19937_64_State s) = 312" "MT19937_64_Index s = of_nat i" "i + n \<le> 312"
  shows "draw_numbers n s =
    Ret (map mt_temper (take n (drop i (MT19937_64_State s))), s\<lparr>MT19937_64_Index := of_nat (i + n)\<rparr>)"
  using assms
proof (induction n arbitrary: i s)
  case (Suc n)
  let ?s = "s\<lparr>MT19937_64_Index := of_nat (Suc i)\<rparr>"
  have "draw_numbers n ?s =
      Ret (map mt_temper (take n (drop (Suc i) (MT19937_64_State s))), ?s\<lparr>MT19937_64_Index := of_nat (Suc i + n)\<rparr>)"
    using Suc.IH [of ?s "Suc i"] Suc.prems by simp
  moreover have "drop i (MT19937_64_State s) = MT19937_64_State s ! i # drop (Suc i) (MT19937_64_State s)"
    using Suc.prems by (simp add: Cons_nth_drop_Suc)
  ultimately show ?case using get_number [OF Suc.prems(1-3)] Suc.prems(4) by simp
qed simp

lemma draw_append:
  "draw_numbers m s = Ret (xs, s1) \<Longrightarrow> draw_numbers (m + n) s =
     res_bind (draw_numbers n s1) (\<lambda>(ys, s2). Ret (xs @ ys, s2))"
proof (induction m arbitrary: s xs)
  case 0
  then show ?case by (cases "draw_numbers n s") auto
next
  case (Suc m)
  then obtain x s0 zs where *: "mt19937_64_get_random_number s = Ret (x, s0)" "draw_numbers m s0 = Ret (zs, s1)" "xs = x # zs"
    by (auto simp: res_bind_Ret_iff)
  from Suc.IH [OF *(2)] *(1,3) show ?case by (cases "draw_numbers n s1") auto
qed

text \<open>(C39) The Mersenne twister: seeding fills the words 1 to 310 by the recurrence of the reference
  generator and leaves the last word as it was. Then 312 numbers can be drawn, each the tempered
  word of its place; the last of them does not depend on the seed, and is 0 on the state the kernel
  starts with. The next one is never returned: the generator takes its own lock a second time.\<close>

theorem twister_runs_dry:
  assumes "MT19937_64_Lock s = Lock_Clear" "length (MT19937_64_State s) = 312"
  shows "\<exists>s0. mt19937_64_seed seed s = Ret s0 \<and>
    MT19937_64_State s0 ! 0 = seed \<and>
    (\<forall>k. 1 \<le> k \<and> k < 311 \<longrightarrow> MT19937_64_State s0 ! k =
       6364136223846793005 * (MT19937_64_State s0 ! (k - 1) XOR drop_bit 62 (MT19937_64_State s0 ! (k - 1))) + of_nat k) \<and>
    (\<exists>s1. draw_numbers 312 s0 = Ret (map mt_temper (MT19937_64_State s0), s1)) \<and>
    (MT19937_64_State s ! 311 = 0 \<longrightarrow> map mt_temper (MT19937_64_State s0) ! 311 = 0) \<and>
    draw_numbers 313 s0 = Hang"
proof -
  let ?st = "seed_loop [1..<1 + 310] ((MT19937_64_State s)[0 := seed])"
  let ?s = "s\<lparr>MT19937_64_State := ?st, MT19937_64_Index := 0\<rparr>"
  have same: "s\<lparr>MT19937_64_Lock := Lock_Clear\<rparr> = s" using assms(1) by simp
  have run: "mt19937_64_seed seed s = Ret ?s"
    using assms(1) same by (simp add: mt19937_64_seed_def MT_N_def Let_def)
  note st = seed_loop_upt [of "(MT19937_64_State s)[0 := seed]" 1 310]
  have first: "?st ! 0 = seed" and last: "?st ! 311 = MT19937_64_State s ! 311"
    using st assms(2) by simp_all
  have rec: "?st ! k = seed_step k (?st ! (k - 1))" if "1 \<le> k" "k < 311" for k
    using st assms(2) that by simp
  have draw: "draw_numbers 312 ?s = Ret (map mt_temper ?st, ?s\<lparr>MT19937_64_Index := 312\<rparr>)"
    using draw_from [of ?s 0 312] assms by simp
  have "draw_numbers (312 + 1) ?s = Hang"
    using draw_append [OF draw, of 1] get_number_hangs [of "?s\<lparr>MT19937_64_Index := 312\<rparr>"] assms(1) by simp
  moreover have "mt_temper 0 = 0" by (simp add: mt_temper_def)
  ultimately show ?thesis
    using run first last rec draw assms(2) by (auto simp: seed_step_def MT_F_def)
qed

subsection \<open>The pool as a stack\<close>

definition pool_ok :: "('r, 'a) krandom_scheme \<Rightarrow> bool" where
  "pool_ok s \<longleftrightarrow> entropy_lock s = Lock_Clear \<and> length (Entropy_Pool s) = 256 \<and>
     -1 \<le> Entropy_Pool_Index s \<and> Entropy_Pool_Index s \<le> 255"

definition pool_stack :: "('r, 'a) krandom_scheme \<Rightarrow> u8 list" where
  "pool_stack s = rev (take (nat (Entropy_Pool_Index s + 1)) (Entropy_Pool s))"

text \<open>The pool of entropy is a stack of at most 256 bytes: seeding pushes a byte, and with 256 bytes
  on it stores one past the end of the array; consuming from a stack that is not empty pops the last
  byte pushed and returns it.\<close>

theorem entropy_pool_is_stack:
  assumes "pool_ok s"
  shows "(if length (pool_stack s) < 256
      then \<exists>s'. entropy_pool_seed b s = Ret s' \<and> pool_ok s' \<and> pool_stack s' = b # pool_stack s
      else entropy_pool_seed b s = Fault) \<and>
    (pool_stack s \<noteq> [] \<longrightarrow>
      (\<exists>s'. entropy_pool_consume cpu s = Ret (hd (pool_stack s), s') \<and> pool_ok s' \<and> pool_stack s' = tl (pool_stack s)))"
proof -
  let ?i = "Entropy_Pool_Index s"
  obtain n where n: "?i = int n - 1" "n \<le> 256"
    using assms that [of "nat (?i + 1)"] by (auto simp: pool_ok_def)
  have lk: "entropy_lock s = Lock_Clear" and len: "length (Entropy_Pool s) = 256" using assms by (simp_all add: pool_ok_def)
  have stk: "pool_stack s = rev (take n (Entropy_Pool s))" "length (pool_stack s) = n"
    using n len by (simp_all add: pool_stack_def)
  have same: "s\<lparr>Entropy_Pool_Index := j, entropy_lock := Lock_Clear\<rparr> = s\<lparr>Entropy_Pool_Index := j\<rparr>" for j
    using lk by simp
  have seed: "if n < 256 then \<exists>s'. entropy_pool_seed b s = Ret s' \<and> pool_ok s' \<and> pool_stack s' = b # pool_stack s
      else entropy_pool_seed b s = Fault"
  proof (cases "n < 256")
    case True
    then have "take (Suc n) ((Entropy_Pool s)[n := b]) = take n (Entropy_Pool s) @ [b]"
      using len by (simp add: take_Suc_conv_app_nth)
    with True n lk len stk show ?thesis
      by (auto simp: entropy_pool_seed_def pool_in_range_def pool_ok_def pool_stack_def Let_def nat_add_distrib)
  next
    case False
    with n lk len show ?thesis by (auto simp: entropy_pool_seed_def pool_in_range_def Let_def)
  qed
  have "\<exists>s'. entropy_pool_consume cpu s = Ret (hd (pool_stack s), s') \<and> pool_ok s' \<and> pool_stack s' = tl (pool_stack s)"
    if ne: "pool_stack s \<noteq> []"
  proof -
    obtain m where m: "n = Suc m" using ne stk(2) by (cases n) auto
    then have st: "pool_stack s = Entropy_Pool s ! m # rev (take m (Entropy_Pool s))"
      using stk(1) n(2) len by (simp add: take_Suc_conv_app_nth)
    have "entropy_pool_consume cpu s = Ret (Entropy_Pool s ! m, s\<lparr>Entropy_Pool_Index := int m - 1, entropy_lock := Lock_Clear\<rparr>)"
      using n m lk len by (simp add: entropy_pool_consume_def pool_in_range_def Let_def)
    moreover have "pool_ok (s\<lparr>Entropy_Pool_Index := int m - 1, entropy_lock := Lock_Clear\<rparr>)"
      "pool_stack (s\<lparr>Entropy_Pool_Index := int m - 1, entropy_lock := Lock_Clear\<rparr>) = rev (take m (Entropy_Pool s))"
      using n m len by (auto simp: pool_ok_def pool_stack_def)
    ultimately show ?thesis using st by auto
  qed
  with seed stk(2) show ?thesis by auto
qed

subsection \<open>Bytes and addresses\<close>

lemma store64_outside: "\<not> x - a < 8 \<Longrightarrow> store64 m a w x = m x"
  by (simp add: store64_def)

lemma store_rest_at:
  "i + n \<le> 8 \<Longrightarrow> store_rest m a w i n x =
     (if \<exists>j. i \<le> j \<and> j < i + n \<and> x = a + of_nat j
      then ucast (drop_bit (unat (x - a)) w AND 0xff) else m x)"
proof (induction n arbitrary: i m)
  case (Suc n)
  have inj: "j = k" if "(of_nat j :: u64) = of_nat k" "j < 8" "k < 8" for j k
  proof -
    have "unat (of_nat j :: u64) = unat (of_nat k :: u64)" using that(1) by simp
    then show "j = k" using that(2,3) by (simp add: unat_of_nat)
  qed
  let ?m = "m(a + of_nat i := ucast (drop_bit i w AND 0xff))"
  have IH: "store_rest ?m a w (Suc i) n x = (if \<exists>j. Suc i \<le> j \<and> j < Suc i + n \<and> x = a + of_nat j
      then ucast (drop_bit (unat (x - a)) w AND 0xff) else ?m x)" using Suc by simp
  show ?case
  proof (cases "x = a + of_nat i")
    case True
    have u: "unat (of_nat i :: u64) = i" using Suc.prems by (simp add: unat_of_nat)
    have no: "\<not> (\<exists>j. Suc i \<le> j \<and> j < Suc i + n \<and> x = a + of_nat j)"
    proof
      assume "\<exists>j. Suc i \<le> j \<and> j < Suc i + n \<and> x = a + of_nat j"
      then obtain j where j: "Suc i \<le> j" "j < Suc i + n" "x = a + of_nat j" by blast
      then have "(of_nat j :: u64) = of_nat i" using True by simp
      with inj [of j i] j Suc.prems show False by simp
    qed
    have "store_rest m a w i (Suc n) x = ?m x" using IH by (simp only: if_not_P [OF no] store_rest.simps)
    then have "store_rest m a w i (Suc n) x = ucast (drop_bit i w AND 0xff)" using True by simp
    moreover have "\<exists>j. i \<le> j \<and> j < i + Suc n \<and> x = a + of_nat j" using True by (intro exI [of _ i]) simp
    moreover have "unat (x - a) = i" using True u by simp
    ultimately show ?thesis by simp
  next
    case False
    have eq: "(\<exists>j. i \<le> j \<and> j < i + Suc n \<and> x = a + of_nat j) \<longleftrightarrow> (\<exists>j. Suc i \<le> j \<and> j < Suc i + n \<and> x = a + of_nat j)"
    proof (rule ex_cong1)
      fix j
      show "(i \<le> j \<and> j < i + Suc n \<and> x = a + of_nat j) \<longleftrightarrow> (Suc i \<le> j \<and> j < Suc i + n \<and> x = a + of_nat j)"
        using False by (cases "j = i") auto
    qed
    show ?thesis by (simp only: eq IH store_rest.simps fun_upd_other [OF False])
  qed
qed auto

lemma unat_add_small: "unat a + unat b < unat c \<Longrightarrow> unat (a + b) = unat a + unat b" for a b c :: u64
  by (rule unat_add_lem [THEN iffD1]) (use unsigned_less [of c, where ?'a = nat] in simp)

lemma word_tail_less: "j < r \<Longrightarrow> r \<le> sz \<Longrightarrow> (sz - r) + j < sz" for j r sz :: u64
proof -
  assume jr: "j < r" and rs: "r \<le> sz"
  have "unat (sz - r) = unat sz - unat r" by (rule unat_sub [OF rs])
  moreover have "unat j < unat r" "unat r \<le> unat sz" using jr rs by (simp_all add: word_less_nat_alt word_le_nat_alt)
  ultimately have lt: "unat (sz - r) + unat j < unat sz" by linarith
  show ?thesis unfolding word_less_nat_alt unat_add_small [OF lt] by (rule lt)
qed

lemma rdrand_number:
  assumes "random_number_function s = Some Rdrand" "\<forall>r. rdrand_loop cpu r \<noteq> None"
  shows "\<exists>x r. random_number cpu s = Ret (x, s\<lparr>noise := r\<rparr>)"
proof -
  obtain x r where "rdrand_loop cpu (noise s) = Some (x, r)" using assms(2) by (metis option.exhaust surj_pair)
  then show ?thesis using assms(1) by (auto simp: random_number_def rdrand_def)
qed

lemma random_words_frame:
  assumes "\<forall>r. rdrand_loop cpu r \<noteq> None" "random_number_function s = Some Rdrand" "8 * (i + n) \<le> unat sz"
  shows "\<exists>s'. random_words cpu buf i n s = Ret s' \<and> random_number_function s' = Some Rdrand \<and>
    (\<forall>x. \<not> x - buf < sz \<longrightarrow> memory s' x = memory s x)"
  using assms(2,3)
proof (induction n arbitrary: i s)
  case (Suc n)
  obtain w r where w: "random_number cpu s = Ret (w, s\<lparr>noise := r\<rparr>)"
    using rdrand_number [OF Suc.prems(1) assms(1)] by blast
  let ?s = "s\<lparr>noise := r, memory := store64 (memory s) (buf + 8 * of_nat i) w\<rparr>"
  have out: "memory ?s x = memory s x" if "\<not> x - buf < sz" for x
  proof -
    have "\<not> x - (buf + 8 * of_nat i) < 8"
    proof
      assume lt: "x - (buf + 8 * of_nat i) < 8"
      let ?d = "x - (buf + 8 * of_nat i)"
      have b: "8 * i + 8 \<le> unat sz" using Suc.prems(2) by simp
      then have "8 * i < 2 ^ 64" using unsigned_less [of sz, where ?'a = nat] by simp
      then have "unat (of_nat (8 * i) :: u64) = 8 * i" by (simp only: unat_of_nat) simp
      then have u: "unat (8 * of_nat i :: u64) = 8 * i" by simp
      have "unat ?d < 8" using lt by (simp add: word_less_nat_alt)
      then have d: "unat (8 * of_nat i :: u64) + unat ?d < unat sz" using b u by linarith
      have "8 * of_nat i + ?d < sz" unfolding word_less_nat_alt unat_add_small [OF d] by (rule d)
      moreover have "8 * of_nat i + ?d = x - buf" by simp
      ultimately show False using that by (simp only:)
    qed
    then show ?thesis by (simp add: store64_outside)
  qed
  obtain s' where "random_words cpu buf (Suc i) n ?s = Ret s'" "random_number_function s' = Some Rdrand"
    "\<forall>x. \<not> x - buf < sz \<longrightarrow> memory s' x = memory ?s x"
    using Suc.IH [of ?s "Suc i"] Suc.prems by auto
  with w out show ?case by auto
qed simp

lemma word_split8: "unat (sz div 8) = unat sz div 8" "unat (sz mod 8) = unat sz mod 8" for sz :: u64
  by (simp_all add: unat_div unat_mod)

text \<open>With a processor that has random numbers, \<open>random_bytes\<close> returns and changes no byte
  outside the buffer. But of the bytes that remain after the last full word, each shares seven bits
  with the one before it, because the last number is shifted by one bit instead of eight.\<close>

theorem random_bytes_in_bounds:
  assumes "random_number_function s = Some Rdrand" "\<forall>r. rdrand_loop cpu r \<noteq> None"
  shows "\<exists>s'. random_bytes cpu buf sz s = Ret s' \<and>
    (\<forall>x. \<not> x - buf < sz \<longrightarrow> memory s' x = memory s x) \<and>
    (\<forall>k. k + 1 < unat (sz mod 8) \<longrightarrow>
       memory s' (buf + (sz - sz mod 8) + of_nat (k + 1)) AND 0x7f = drop_bit 1 (memory s' (buf + (sz - sz mod 8) + of_nat k)))"
proof -
  let ?r = "sz mod 8" and ?e = "buf + (sz - sz mod 8)"
  obtain s1 where s1: "random_words cpu buf 0 (unat (sz div 8)) s = Ret s1" "random_number_function s1 = Some Rdrand"
    "\<forall>x. \<not> x - buf < sz \<longrightarrow> memory s1 x = memory s x"
    using random_words_frame [OF assms(2,1), of 0 "unat (sz div 8)" sz buf] by (auto simp: word_split8)
  show ?thesis
  proof (cases "?r = 0")
    case True
    with s1 show ?thesis by (auto simp: random_bytes_def Let_def)
  next
    case False
    obtain w r where w: "random_number cpu s1 = Ret (w, s1\<lparr>noise := r\<rparr>)"
      using rdrand_number [OF s1(2) assms(2)] by blast
    let ?n = "unat ?r" and ?m = "store_rest (memory s1) ?e w 0 (unat ?r)"
    let ?s = "s1\<lparr>noise := r, memory := ?m\<rparr>"
    have n: "?n < 8" by (simp add: word_split8)
    have rest: "?m x = (if \<exists>j < ?n. x = ?e + of_nat j then ucast (drop_bit (unat (x - ?e)) w AND 0xff) else memory s1 x)" for x
      using store_rest_at [of 0 ?n "memory s1" ?e w x] n by simp
    have run: "random_bytes cpu buf sz s = Ret ?s" using s1(1) w False by (simp add: random_bytes_def Let_def)
    have "memory ?s x = memory s x" if "\<not> x - buf < sz" for x
    proof -
      have "\<not> (\<exists>j < ?n. x = ?e + of_nat j)"
      proof
        assume "\<exists>j < ?n. x = ?e + of_nat j"
        then obtain j where j: "j < ?n" "x = ?e + of_nat j" by blast
        have "x - buf = (sz - ?r) + of_nat j" using j(2) by simp
        moreover have "(sz - ?r) + of_nat j < sz"
        proof -
          have "?r \<le> sz" "of_nat j < ?r" using j(1) n by (simp_all add: word_less_nat_alt word_le_nat_alt word_split8 unat_of_nat)
          then show ?thesis by (intro word_tail_less)
        qed
        ultimately show False using that by simp
      qed
      with rest [of x] s1(3) that show ?thesis by simp
    qed
    moreover have "memory ?s (?e + of_nat (k + 1)) AND 0x7f = drop_bit 1 (memory ?s (?e + of_nat k))" if "k + 1 < ?n" for k
    proof -
      have at: "?m (?e + of_nat j) = ucast (drop_bit j w AND 0xff)" if "j < ?n" for j
      proof -
        have "\<exists>j' < ?n. ?e + of_nat j = ?e + of_nat j'" using that by blast
        moreover have "unat (?e + of_nat j - ?e) = j" using that n by (simp add: unat_of_nat)
        ultimately show ?thesis using rest [of "?e + of_nat j"] by simp
      qed
      have seven: "(0x7f :: u8) = mask 7" "(0xff :: u64) = mask 8" by (simp_all add: mask_numeral)
      have "?m (?e + of_nat (k + 1)) AND 0x7f = drop_bit 1 (?m (?e + of_nat k))"
        using at [of "k + 1"] at [of k] that unfolding seven
        by (auto intro!: bit_word_eqI simp: bit_simps)
      then show ?thesis by simp
    qed
    ultimately show ?thesis using run by blast
  qed
qed

text \<open>For an alignment of up to two gigabytes, \<open>random_address\<close> returns an aligned address in the
  half of the address space that was asked for: the top two gigabytes for the kernel, the lower
  half for a user.\<close>

theorem random_address_in_range:
  assumes "random_number cpu s = Ret (x, s1)" "k \<le> 31"
  shows "\<exists>a. random_address cpu kernel_space (push_bit k 1) s = Ret (a, s1) \<and> is_aligned a (push_bit k 1) \<and>
    (if kernel_space then 0xffffffff80000000 \<le> a else memory_is_lower_half a)"
proof -
  have m: "push_bit k 1 - (1 :: u64) = mask k" by (simp add: mask_eq_exp_minus_1 push_bit_eq_mult)
  have two: "is_power_of_two (push_bit k 1)"
    unfolding is_power_of_two_def m by (rule bit_word_eqI) (auto simp: bit_simps)
  have "(0xffffffff80000000 :: u64) = NOT (mask 31)" by (simp add: mask_numeral)
  then have kernel: "Memory_Kernel_Set_Mask = NOT (mask 31)" by (simp add: Memory_Kernel_Set_Mask_def)
  let ?a = "if kernel_space then (x AND NOT (mask k)) OR Memory_Kernel_Set_Mask else (x AND NOT (mask k)) AND Memory_User_Clear_Mask"
  have "random_address cpu kernel_space (push_bit k 1) s = Ret (?a, s1)"
    using assms(1) two by (simp add: random_address_def align_as_def mask_eq_exp_minus_1 Let_def)
  moreover have "is_aligned ?a (push_bit k 1)"
    unfolding is_aligned_def m kernel using assms(2) by (auto intro!: bit_word_eqI simp: bit_simps)
  moreover have "if kernel_space then 0xffffffff80000000 \<le> ?a else memory_is_lower_half ?a"
    by (auto simp: Memory_Kernel_Set_Mask_def memory_is_lower_half_def Memory_User_Clear_Mask_def Lower_Half_End_def
        le_word_or1 word_and_le1)
  ultimately show ?thesis by blast
qed

subsection \<open>Witnesses\<close>

definition demo_cpu_noise :: "nat cpu_noise" where
  "demo_cpu_noise = \<lparr>rdtsc = \<lambda>n. (of_nat n, Suc n), rdrand_insn = \<lambda>n. ((0x0123456789abcdef, odd n), Suc n)\<rparr>"

lemma demo_rdrand: "rdrand_loop demo_cpu_noise n \<noteq> None"
proof (cases "odd n")
  case True
  then show ?thesis by (subst rdrand_loop.simps) (simp add: demo_cpu_noise_def)
next
  case False
  then have "rdrand_loop demo_cpu_noise (Suc n) \<noteq> None"
    by (subst rdrand_loop.simps) (simp add: demo_cpu_noise_def)
  with False show ?thesis by (subst rdrand_loop.simps) (simp add: demo_cpu_noise_def)
qed

definition demo_random :: "kheap \<Rightarrow> nat krandom" where
  "demo_random h = kheap.extend h
     \<lparr>noise = 1, entropy_lock = Lock_Clear, Entropy_Pool_Index = 0, Entropy_Pool = replicate 256 0,
      MT19937_64_Index = 313, MT19937_64_State = replicate 312 0, MT19937_64_Lock = Lock_Clear,
      random_number_function = Some Rdrand\<rparr>"

theorem twister_runs_dry_witness:
  "\<forall>h. \<exists>s0. mt19937_64_seed 5489 (demo_random h) = Ret s0 \<and> draw_numbers 313 s0 = Hang \<and>
     map mt_temper (MT19937_64_State s0) ! 311 = 0"
proof
  fix h
  show "\<exists>s0. mt19937_64_seed 5489 (demo_random h) = Ret s0 \<and> draw_numbers 313 s0 = Hang \<and>
     map mt_temper (MT19937_64_State s0) ! 311 = 0"
    using twister_runs_dry [of "demo_random h" 5489] by (auto simp: demo_random_def kheap.defs)
qed

theorem entropy_pool_is_stack_witness:
  "\<forall>h. \<exists>s'. entropy_pool_consume demo_cpu_noise (demo_random h) = Ret (0, s') \<and> pool_stack s' = []"
proof
  fix h
  have "pool_ok (demo_random h)" "pool_stack (demo_random h) = [0]"
    by (simp_all add: pool_ok_def pool_stack_def demo_random_def kheap.defs)
  then show "\<exists>s'. entropy_pool_consume demo_cpu_noise (demo_random h) = Ret (0, s') \<and> pool_stack s' = []"
    using entropy_pool_is_stack [of "demo_random h" 0 demo_cpu_noise] by auto
qed

theorem random_bytes_in_bounds_witness:
  "\<forall>h. \<exists>s'. random_bytes demo_cpu_noise 0x1000 11 (demo_random h) = Ret s' \<and> memory s' 0x100b = memory h 0x100b"
proof
  fix h
  have "random_number_function (demo_random h) = Some Rdrand" "memory (demo_random h) = memory h"
    by (simp_all add: demo_random_def kheap.defs)
  then show "\<exists>s'. random_bytes demo_cpu_noise 0x1000 11 (demo_random h) = Ret s' \<and> memory s' 0x100b = memory h 0x100b"
    using random_bytes_in_bounds [of "demo_random h" demo_cpu_noise "0x1000" 11] demo_rdrand
    by (auto dest!: spec [of _ "0x100b"])
qed

theorem random_address_in_range_witness:
  "\<forall>h. \<exists>a s'. random_address demo_cpu_noise True 0x1000 (demo_random h) = Ret (a, s') \<and> is_aligned a 0x1000 \<and>
     0xffffffff80000000 \<le> a"
proof
  fix h
  have "\<exists>s'. random_number demo_cpu_noise (demo_random h) = Ret (0x0123456789abcdef, s')"
    by (simp add: random_number_def rdrand_def rdrand_loop.simps demo_cpu_noise_def demo_random_def kheap.defs)
  then show "\<exists>a s'. random_address demo_cpu_noise True 0x1000 (demo_random h) = Ret (a, s') \<and> is_aligned a 0x1000 \<and>
     0xffffffff80000000 \<le> a"
    using random_address_in_range [of demo_cpu_noise "demo_random h" _ _ 12 True] by auto
qed

end
