(* ===== verification/Containers.thy ===== *)
theory Containers
  imports Page_Tables
begin

text \<open>
  Two containers that nothing in the kernel uses yet: the bit map of \<open>kernel/core/bitmap.c\<close> and the
  sorted list of \<open>kernel/core/sorted_list.c\<close>. The words of a bit map are a list, and an index beyond it
  is a \<open>Fault\<close>; the entries of a sorted list are a store of \<open>next\<close> pointers.
\<close>

subsection \<open>The bit map\<close>

record bitmap =
  entry_count :: u64
  last_free :: u64
  bits :: "u64 list"

definition bitmap_index :: "u64 \<Rightarrow> u64" where "bitmap_index x = x div 8"

text \<open>An \<open>int\<close>, as a \<open>size_t\<close>.\<close>

definition bitmap_bit :: "u64 \<Rightarrow> u64" where "bitmap_bit x = push_bit (unat (x mod 8)) 1"

definition bitmap_entry_count_to_bytes :: "u64 \<Rightarrow> u64" where "bitmap_entry_count_to_bytes x = x div 8"

definition word_at :: "bitmap \<Rightarrow> u64 \<Rightarrow> u64 res" where
  "word_at b i = (if unat i < length (bits b) then Ret (bits b ! unat i) else Fault)"

definition put_word :: "bitmap \<Rightarrow> u64 \<Rightarrow> u64 \<Rightarrow> bitmap res" where
  "put_word b i w = (if unat i < length (bits b) then Ret (b\<lparr>bits := (bits b)[unat i := w]\<rparr>) else Fault)"

function log2 :: "u64 \<Rightarrow> nat" where
  "log2 item = (let item = drop_bit 1 item in if item \<noteq> 0 then Suc (log2 item) else 0)"
  by pat_completeness auto
termination
proof (relation "measure unat")
  fix item x :: u64 assume x: "x = drop_bit 1 item" "x \<noteq> 0"
  then have "unat x = unat item div 2" by (simp add: unsigned_drop_bit_eq drop_bit_Suc take_bit_eq_mod unsigned_less unat_div)
  moreover have "0 < unat x" using x(2) by (simp add: unat_gt_0)
  ultimately have "unat x < unat item" by linarith
  then show "(x, item) \<in> measure unat" by simp
qed simp

declare log2.simps [simp del]

text \<open>\<open>1 << entry_bit\<close> is a shift of an \<open>int\<close>; from 31 on C leaves it undefined.\<close>

fun get_index_loop :: "bitmap \<Rightarrow> nat list \<Rightarrow> (u64 \<times> bitmap) option res" where
  "get_index_loop b [] = Ret None"
| "get_index_loop b (i # is) =
     res_bind (word_at b (of_nat i)) (\<lambda>w.
     if w \<noteq> NOT 0 then
       (let entry_bit = log2 w in
        if entry_bit < 31 then
          res_bind (put_word b (of_nat i) (w OR push_bit entry_bit 1)) (\<lambda>b1.
          Ret (Some (push_bit 8 (of_nat i) + of_nat entry_bit, b1)))
        else Fault)
     else get_index_loop b is)"

definition bitmap_get_index :: "bitmap option \<Rightarrow> ((status \<times> u64 option) \<times> bitmap) res" where
  "bitmap_get_index bm =
     res_bind (kassert (bm \<noteq> None)) (\<lambda>_.
     res_bind (deref bm) (\<lambda>b.
     res_bind (get_index_loop b [unat (bitmap_index (last_free b))..<unat (bitmap_index (entry_count b))]) (\<lambda>r.
     case r of Some (e, b1) \<Rightarrow> Ret ((Ok, Some e), b1)
     | None \<Rightarrow>
         res_bind (get_index_loop b [0..<unat (bitmap_index (last_free b))]) (\<lambda>r1.
         case r1 of Some (e, b1) \<Rightarrow> Ret ((Ok, Some e), b1) | None \<Rightarrow> Ret ((Error_Full, None), b)))))"

text \<open>The assertions of the four functions demand that the entry is beyond the map.\<close>

definition bitmap_is_set :: "bitmap option \<Rightarrow> u64 \<Rightarrow> bool res" where
  "bitmap_is_set bm e =
     res_bind (kassert (bm \<noteq> None)) (\<lambda>_.
     res_bind (deref bm) (\<lambda>b.
     res_bind (kassert (entry_count b < e)) (\<lambda>_.
     res_bind (word_at b (bitmap_index e)) (\<lambda>w. Ret (w AND NOT (bitmap_bit e) \<noteq> 0)))))"

definition bitmap_set :: "bitmap option \<Rightarrow> u64 \<Rightarrow> bitmap res" where
  "bitmap_set bm e =
     res_bind (kassert (bm \<noteq> None)) (\<lambda>_.
     res_bind (deref bm) (\<lambda>b.
     res_bind (kassert (entry_count b < e)) (\<lambda>_.
     res_bind (word_at b (bitmap_index e)) (\<lambda>w. put_word b (bitmap_index e) (w OR bitmap_bit e)))))"

definition bitmap_clear :: "bitmap option \<Rightarrow> u64 \<Rightarrow> bitmap res" where
  "bitmap_clear bm e =
     res_bind (kassert (bm \<noteq> None)) (\<lambda>_.
     res_bind (deref bm) (\<lambda>b.
     res_bind (kassert (entry_count b < e)) (\<lambda>_.
     (let b1 = b\<lparr>last_free := e\<rparr> in
      res_bind (word_at b1 (bitmap_index e)) (\<lambda>w. put_word b1 (bitmap_index e) (w AND NOT (bitmap_bit e)))))))"

primrec fill_words :: "bitmap \<Rightarrow> u64 \<Rightarrow> nat \<Rightarrow> bitmap res" where
  "fill_words b i 0 = Ret b"
| "fill_words b i (Suc n) = res_bind (put_word b i (NOT 0)) (\<lambda>b1. fill_words b1 (i + 1) n)"

definition bitmap_set_range :: "bitmap option \<Rightarrow> u64 \<Rightarrow> u64 \<Rightarrow> bitmap res" where
  "bitmap_set_range bm start len =
     res_bind (kassert (bm \<noteq> None)) (\<lambda>_.
     res_bind (deref bm) (\<lambda>b.
     res_bind (kassert (entry_count b < start)) (\<lambda>_.
     res_bind (kassert (entry_count b < start + len)) (\<lambda>_.
     res_bind (put_word b (bitmap_index start) ((bitmap_bit start - 1) OR bitmap_bit start)) (\<lambda>b1.
     res_bind (put_word b1 (bitmap_index (start + len)) (NOT (bitmap_bit (start + len) - 1))) (\<lambda>b2.
     fill_words b2 (bitmap_index start + 1)
       (unat (bitmap_index (start + len) - 1) - unat (bitmap_index start + 1))))))))"

text \<open>\<open>memset\<close> of \<open>n\<close> bytes of the words to zero; they are stored with the low byte first.\<close>

definition cleared_words :: "nat \<Rightarrow> u64 list \<Rightarrow> u64 list res" where
  "cleared_words n ws =
     (if n \<le> 8 * length ws
      then Ret (map (\<lambda>i. if i < n div 8 then 0 else if i = n div 8 then ws ! i AND NOT (mask (8 * (n mod 8))) else ws ! i)
         [0..<length ws])
      else Fault)"

definition bitmap_static_init :: "bitmap option \<Rightarrow> u64 \<Rightarrow> bitmap res" where
  "bitmap_static_init bm cnt =
     res_bind (kassert (bm \<noteq> None)) (\<lambda>_.
     res_bind (deref bm) (\<lambda>b.
     res_bind (cleared_words (unat (bitmap_entry_count_to_bytes cnt)) (bits b)) (\<lambda>ws.
     Ret (b\<lparr>entry_count := cnt, last_free := 0, bits := ws\<rparr>))))"

text \<open>\<open>bitmap_init\<close> asks for one \<open>size_t\<close> and the bytes of the map, but the map is behind two of them. The
  fields and the map are in the memory of the heap here.\<close>

definition bitmap_init :: "u64 \<Rightarrow> ('a) kheap_scheme \<Rightarrow> (u64 \<times> ('a) kheap_scheme) res" where
  "bitmap_init cnt s =
     res_bind (kmalloc (8 + bitmap_entry_count_to_bytes cnt) s) (\<lambda>(bm, s1).
     if bm = 0 then Ret (0, s1)
     else
       (let m = store64 (memory s1) (bm + 8) 0;
            m = store64 m bm cnt;
            m = snd (memset m (bm + 16) 0 (bitmap_entry_count_to_bytes cnt))
        in Ret (bm, s1\<lparr>memory := m\<rparr>)))"

subsection \<open>The sorted list\<close>

type_synonym links = "u64 \<rightharpoonup> u64"

record sorted_list =
  compare_f :: "u64 \<Rightarrow> u64 \<Rightarrow> order"
  entries :: u64

partial_function (option) contains_loop :: "sorted_list \<Rightarrow> u64 \<Rightarrow> u64 \<Rightarrow> links \<Rightarrow> bool res option" where
  "contains_loop l e cur nxt =
     (if cur = 0 then Some (Ret False)
      else case nxt cur of None \<Rightarrow> Some Fault
      | Some n \<Rightarrow> if compare_f l e cur = Order_Equal then Some (Ret True) else contains_loop l e n nxt)"

definition run_loop :: "'a res option \<Rightarrow> 'a res" where
  "run_loop r = (case r of None \<Rightarrow> Hang | Some x \<Rightarrow> x)"

definition sorted_list_contains :: "sorted_list \<Rightarrow> u64 \<Rightarrow> links \<Rightarrow> bool res" where
  "sorted_list_contains l e nxt = run_loop (contains_loop l e (entries l) nxt)"

definition link_get :: "links \<Rightarrow> u64 \<Rightarrow> u64 res" where
  "link_get nxt a = (if a = 0 then Fault else deref (nxt a))"

definition link_put :: "links \<Rightarrow> u64 \<Rightarrow> u64 \<Rightarrow> links res" where
  "link_put nxt a v = (if a = 0 \<or> nxt a = None then Fault else Ret (nxt(a \<mapsto> v)))"

text \<open>One turn of the loop of \<open>sorted_list_insert\<close>: the next \<open>cur\<close> and the links.\<close>

definition insert_turn :: "sorted_list \<Rightarrow> u64 \<Rightarrow> u64 \<Rightarrow> links \<Rightarrow> (u64 \<times> links) res" where
  "insert_turn l e cur nxt =
     res_bind
       (if compare_f l e cur = Order_Less then res_bind (link_get nxt cur) (\<lambda>c. Ret (c, nxt))
        else
          res_bind (link_get nxt cur) (\<lambda>n.
          res_bind (link_put nxt e n) (\<lambda>nxt1.
          res_bind (link_put nxt1 cur e) (\<lambda>nxt2. Ret (cur, nxt2))))) (\<lambda>(c, nxt3).
     res_bind (link_get nxt3 c) (\<lambda>c1. Ret (c1, nxt3)))"

partial_function (option) insert_loop :: "sorted_list \<Rightarrow> u64 \<Rightarrow> u64 \<Rightarrow> links \<Rightarrow> links res option" where
  "insert_loop l e cur nxt =
     (if cur = 0 then Some (Ret nxt)
      else case insert_turn l e cur nxt of
        Ret (c, nxt1) \<Rightarrow> insert_loop l e c nxt1
      | Panic \<Rightarrow> Some Panic | Fault \<Rightarrow> Some Fault | Hang \<Rightarrow> Some Hang)"

definition sorted_list_insert :: "sorted_list \<Rightarrow> u64 \<Rightarrow> links \<Rightarrow> (sorted_list \<times> links) res" where
  "sorted_list_insert l e nxt =
     (let l1 = (if entries l = 0 then l\<lparr>entries := e\<rparr> else l) in
      res_bind (run_loop (insert_loop l e (entries l) nxt)) (\<lambda>nxt1.
      res_bind (link_put nxt1 e 0) (\<lambda>nxt2. Ret (l1, nxt2))))"

text \<open>\<open>prev\<close> is set to null before the loop and never again.\<close>

partial_function (option) remove_loop ::
    "sorted_list \<Rightarrow> u64 \<Rightarrow> u64 \<Rightarrow> u64 \<Rightarrow> links \<Rightarrow> (sorted_list \<times> links) res option" where
  "remove_loop l e prev cur nxt =
     (if cur = 0 then Some (Ret (l, nxt))
      else case nxt cur of None \<Rightarrow> Some Fault
      | Some n \<Rightarrow>
          if compare_f l e cur = Order_Equal then
            Some (res_bind
              (if prev \<noteq> 0 then res_bind (link_put nxt prev n) (\<lambda>nxt1. Ret (l, nxt1))
               else Ret (l\<lparr>entries := n\<rparr>, nxt)) (\<lambda>(l1, nxt1).
              res_bind (link_put nxt1 cur 0) (\<lambda>nxt2. Ret (l1, nxt2))))
          else remove_loop l e prev n nxt)"

definition sorted_list_remove :: "sorted_list \<Rightarrow> u64 \<Rightarrow> links \<Rightarrow> (sorted_list \<times> links) res" where
  "sorted_list_remove l e nxt = run_loop (remove_loop l e 0 (entries l) nxt)"

subsection \<open>What the bit map does\<close>

lemma log2_bounds: "x \<noteq> 0 \<Longrightarrow> 2 ^ log2 x \<le> unat x \<and> unat x < 2 ^ Suc (log2 x)"
proof (induction x rule: log2.induct)
  case (1 x)
  have half: "unat (drop_bit 1 x) = unat x div 2"
    by (simp add: unsigned_drop_bit_eq drop_bit_Suc take_bit_eq_mod unsigned_less unat_div)
  show ?case
  proof (cases "drop_bit 1 x = 0")
    case True
    then have "log2 x = 0" by (subst log2.simps) simp
    moreover have "unat x div 2 = 0" using half True by simp
    moreover have "0 < unat x" using 1(2) by (simp add: unat_gt_0)
    ultimately show ?thesis by simp
  next
    case False
    then have s: "log2 x = Suc (log2 (drop_bit 1 x))" by (subst log2.simps) simp
    have pw: "A \<le> n div 2 \<Longrightarrow> n div 2 < 2 * A \<Longrightarrow> 2 * A \<le> n \<and> n < 4 * A" for A n :: nat by linarith
    from 1(1) [OF refl False False] half show ?thesis unfolding s using pw by simp
  qed
qed

text \<open>A bit map is of no use: with as many words as its entries need, setting, clearing and testing an
  entry ends in a failed assertion or an access beyond the map, for every entry; and
  \<open>bitmap_get_index\<close> on a fresh map hands out the entry 0 again and again.\<close>

theorem bitmap_is_unusable:
  assumes "64 * length (bits b) \<le> unat (entry_count b)"
  shows "\<not> returns (bitmap_set (Some b) e) \<and> \<not> returns (bitmap_clear (Some b) e) \<and> \<not> returns (bitmap_is_set (Some b) e) \<and>
    (bits b \<noteq> [] \<longrightarrow> last_free b < 8 \<longrightarrow> hd (bits b) \<in> {0, 1} \<longrightarrow>
       bitmap_get_index (Some b) = Ret ((Ok, Some 0), b\<lparr>bits := 1 # tl (bits b)\<rparr>))"
proof -
  have beyond: "\<not> unat (bitmap_index e) < length (bits b)" if "entry_count b < e"
  proof -
    have "unat (entry_count b) < unat e" using that by (simp add: word_less_nat_alt)
    with assms show ?thesis by (simp add: bitmap_index_def unat_div)
  qed
  have "bitmap_get_index (Some b) = Ret ((Ok, Some 0), b\<lparr>bits := 1 # tl (bits b)\<rparr>)"
    if fresh: "bits b \<noteq> []" "last_free b < 8" "hd (bits b) \<in> {0, 1}"
  proof -
    obtain w ws where w: "bits b = w # ws" "w \<in> {0, 1}" using fresh(1,3) by (cases "bits b") auto
    have start: "unat (bitmap_index (last_free b)) = 0"
      using fresh(2) by (simp add: bitmap_index_def unat_div word_less_nat_alt)
    have "0 < unat (bitmap_index (entry_count b))" using assms w(1) by (simp add: bitmap_index_def unat_div div_greater_zero_iff)
    then have up: "[0..<unat (bitmap_index (entry_count b))] = 0 # [1..<unat (bitmap_index (entry_count b))]"
      by (simp add: upt_conv_Cons)
    have zero: "log2 0 = 0" "log2 1 = 0" by (subst log2.simps, simp)+
    from w(2) have "get_index_loop b (0 # [1..<unat (bitmap_index (entry_count b))]) = Ret (Some (0, b\<lparr>bits := 1 # ws\<rparr>))"
      using w(1) zero by (auto simp: word_at_def put_word_def Let_def)
    with w(1) start up show ?thesis by (simp add: bitmap_get_index_def)
  qed
  with beyond show ?thesis
    by (auto simp: bitmap_set_def bitmap_clear_def bitmap_is_set_def word_at_def kassert_def Let_def)
qed

subsection \<open>What the sorted list does\<close>

fun linked :: "links \<Rightarrow> u64 \<Rightarrow> u64 list \<Rightarrow> bool" where
  "linked nxt a [] \<longleftrightarrow> a = 0"
| "linked nxt a (x # xs) \<longleftrightarrow> a = x \<and> x \<noteq> 0 \<and> (\<exists>n. nxt x = Some n \<and> linked nxt n xs)"

lemma linked_update: "y \<notin> set xs \<Longrightarrow> linked (nxt(y \<mapsto> v)) a xs \<longleftrightarrow> linked nxt a xs"
  by (induction xs arbitrary: a) auto

lemma insert_turn_self:
  "e \<noteq> 0 \<Longrightarrow> nxt e \<noteq> None \<Longrightarrow> compare_f l e e \<noteq> Order_Less \<Longrightarrow> insert_turn l e e nxt = Ret (e, nxt(e \<mapsto> e))"
  by (auto simp: insert_turn_def link_get_def link_put_def)

lemma insert_loop_self:
  assumes "insert_loop l e e nxt = Some r" "e \<noteq> 0" "nxt e \<noteq> None" "compare_f l e e \<noteq> Order_Less"
  shows False
proof -
  have "insert_loop l e cur nxt = Some r \<Longrightarrow>
      cur = e \<and> e \<noteq> 0 \<and> nxt e \<noteq> None \<and> compare_f l e e \<noteq> Order_Less \<longrightarrow> False" for l e cur nxt r
  proof (rule insert_loop.raw_induct [where P = "\<lambda>l e cur nxt r.
        cur = e \<and> e \<noteq> 0 \<and> nxt e \<noteq> None \<and> compare_f l e e \<noteq> Order_Less \<longrightarrow> False"])
    fix f l e cur nxt r
    assume IH: "\<And>l e cur nxt r. f l e cur nxt = Some r \<Longrightarrow>
        cur = e \<and> e \<noteq> 0 \<and> nxt e \<noteq> None \<and> compare_f l e e \<noteq> Order_Less \<longrightarrow> False"
      and body: "(if cur = 0 then Some (Ret nxt)
        else case insert_turn l e cur nxt of Ret (c, nxt1) \<Rightarrow> f l e c nxt1
          | Panic \<Rightarrow> Some Panic | Fault \<Rightarrow> Some Fault | Hang \<Rightarrow> Some Hang) = Some r"
    show "cur = e \<and> e \<noteq> 0 \<and> nxt e \<noteq> None \<and> compare_f l e e \<noteq> Order_Less \<longrightarrow> False"
    proof
      assume *: "cur = e \<and> e \<noteq> 0 \<and> nxt e \<noteq> None \<and> compare_f l e e \<noteq> Order_Less"
      with body have "f l e e (nxt(e \<mapsto> e)) = Some r" by (simp add: insert_turn_self)
      from IH [OF this] * show False by simp
    qed
  qed
  with assms show False by blast
qed

lemma remove_loop_prefix:
  "linked nxt a (xs @ y # ys) \<Longrightarrow> distinct (xs @ y # ys) \<Longrightarrow> \<forall>x \<in> set xs. compare_f l e x \<noteq> Order_Equal \<Longrightarrow>
   compare_f l e y = Order_Equal \<Longrightarrow>
   \<exists>n. remove_loop l e 0 a nxt = Some (Ret (l\<lparr>entries := n\<rparr>, nxt(y \<mapsto> 0))) \<and> linked (nxt(y \<mapsto> 0)) n ys"
proof (induction xs arbitrary: a)
  case Nil
  then show ?case by (subst remove_loop.simps) (auto simp: link_put_def linked_update)
next
  case (Cons x xs)
  then obtain n where n: "nxt x = Some n" "linked nxt n (xs @ y # ys)" "a = x" "x \<noteq> 0" by auto
  have "remove_loop l e 0 a nxt = remove_loop l e 0 n nxt"
    using n Cons.prems(3) by (subst remove_loop.simps) simp
  with Cons.IH [OF n(2)] Cons.prems(2-4) show ?case by simp
qed

text \<open>The sorted list: inserting into the empty list works; inserting into a list of one entry faults
  when the new entry comes before it in the order, and never returns otherwise. Removing an entry
  removes with it all entries before it.\<close>

theorem sorted_list_loses_entries:
  assumes "linked nxt (entries l) (xs @ y # ys)" "distinct (xs @ y # ys)"
    "\<forall>x \<in> set xs. compare_f l e x \<noteq> Order_Equal" "compare_f l e y = Order_Equal"
    "linked nxt a [a]" "nxt b \<noteq> None" "b \<noteq> 0" "b \<noteq> a" "compare_f l b b = Order_Equal"
  shows "(\<exists>l' nxt'. sorted_list_remove l e nxt = Ret (l', nxt') \<and> linked nxt' (entries l') ys) \<and>
    sorted_list_insert (l\<lparr>entries := 0\<rparr>) b nxt = Ret (l\<lparr>entries := b\<rparr>, nxt(b \<mapsto> 0)) \<and>
    sorted_list_insert (l\<lparr>entries := a\<rparr>) b nxt = (if compare_f l b a = Order_Less then Fault else Hang)"
proof (intro conjI)
  show "\<exists>l' nxt'. sorted_list_remove l e nxt = Ret (l', nxt') \<and> linked nxt' (entries l') ys"
    using remove_loop_prefix [OF assms(1-4)] by (auto simp: sorted_list_remove_def run_loop_def)
  show "sorted_list_insert (l\<lparr>entries := 0\<rparr>) b nxt = Ret (l\<lparr>entries := b\<rparr>, nxt(b \<mapsto> 0))"
    using assms(6,7) by (simp add: sorted_list_insert_def run_loop_def insert_loop.simps link_put_def)
  have a: "nxt a = Some 0" "a \<noteq> 0" using assms(5) by auto
  let ?l = "l\<lparr>entries := a\<rparr>"
  show "sorted_list_insert ?l b nxt = (if compare_f l b a = Order_Less then Fault else Hang)"
  proof (cases "compare_f l b a = Order_Less")
    case True
    then have "insert_loop ?l b a nxt = Some Fault"
      using a by (subst insert_loop.simps) (simp add: insert_turn_def link_get_def)
    with True a(2) show ?thesis by (simp add: sorted_list_insert_def run_loop_def Let_def)
  next
    case False
    let ?nxt = "nxt(b \<mapsto> 0, a \<mapsto> b)"
    have "insert_loop ?l b a nxt = insert_loop ?l b b ?nxt"
      using False a assms(6-8) by (subst insert_loop.simps) (auto simp: insert_turn_def link_get_def link_put_def)
    moreover have "insert_loop ?l b b ?nxt = None"
      using insert_loop_self [of ?l b ?nxt] assms(6-9) by (cases "insert_loop ?l b b ?nxt") auto
    ultimately show ?thesis using False a(2) by (simp add: sorted_list_insert_def run_loop_def Let_def)
  qed
qed

subsection \<open>Witnesses\<close>

theorem bitmap_is_unusable_witness:
  "bitmap_get_index (Some \<lparr>entry_count = 128, last_free = 0, bits = [1, 0]\<rparr>) =
     Ret ((Ok, Some 0), \<lparr>entry_count = 128, last_free = 0, bits = [1, 0]\<rparr>)"
  using bitmap_is_unusable [of "\<lparr>entry_count = 128, last_free = 0, bits = [1, 0]\<rparr>"] by simp

definition by_address :: "u64 \<Rightarrow> u64 \<Rightarrow> order" where
  "by_address a b = (if a = b then Order_Equal else if a < b then Order_Less else Order_Greater)"

theorem sorted_list_loses_entries_witness:
  "\<exists>l' nxt'. sorted_list_remove \<lparr>compare_f = by_address, entries = 1\<rparr> 2 [1 \<mapsto> 2, 2 \<mapsto> 3, 3 \<mapsto> 0, 4 \<mapsto> 0] = Ret (l', nxt') \<and>
     linked nxt' (entries l') [3]"
  using sorted_list_loses_entries [of "[1 \<mapsto> 2, 2 \<mapsto> 3, 3 \<mapsto> 0, 4 \<mapsto> 0]" "\<lparr>compare_f = by_address, entries = 1\<rparr>" "[1]" 2 "[3]" 2 3 4]
  by (simp add: by_address_def)

end
