(* ===== verification/Ed25519.thy ===== *)
theory Ed25519
  imports Group25519 Scalar25519 Sha512 Krandom
begin

text \<open>
  Ed25519 signatures: signing (\<open>kernel/crypto/ed25519/sign.c\<close>), verifying (\<open>open.c\<close>), keys
  (\<open>keypair.c\<close>), the older batch format (\<open>obsolete.c\<close>) and the shims that give them the kernel's
  own memory and random functions (\<open>kernel/crypto/truth_shims.c\<close>,
  \<open>truth_shims_randombytes.c\<close>).

  An array is the list of its bytes. \<open>hs\<close> is the uninitialised hash state on the stack. The
  generated tables of multiples of the base point are the arguments \<open>base\<close> (\<open>base.h\<close>) and \<open>Bi\<close>
  (\<open>base2.h\<close>).
\<close>

subsection \<open>Shims\<close>

definition sodium_memzero :: "mem \<Rightarrow> u64 \<Rightarrow> u64 \<Rightarrow> mem" where
  "sodium_memzero m pnt len = snd (memset m pnt 0 len)"

text \<open>Two arrays compared by the kernel's \<open>memcmp\<close>: they lie one after the other in a memory.\<close>

definition arrays_at :: "u8 list \<Rightarrow> u8 list \<Rightarrow> mem" where
  "arrays_at x y = (\<lambda>a. if unat a < length x then x ! unat a else y ! (unat a - length x))"

definition sodium_memcmp :: "u8 list \<Rightarrow> u8 list \<Rightarrow> u64 \<Rightarrow> int" where
  "sodium_memcmp b1 b2 len = memcmp (arrays_at b1 b2) 0 (of_nat (length b1)) len"

definition randombytes_buf ::
    "'r cpu_noise \<Rightarrow> u64 \<Rightarrow> u64 \<Rightarrow> ('r, 'a) krandom_scheme \<Rightarrow> (('r, 'a) krandom_scheme) res" where
  "randombytes_buf cpu buf sz s = random_bytes cpu buf sz s"

subsection \<open>Signing\<close>

definition DOM2PREFIX :: "u8 list" where
  "DOM2PREFIX = map (\<lambda>c. of_nat (of_char c)) ''SigEd25519 no Ed25519 collisions'' @ [1, 0]"

definition crypto_sign_ed25519_ref10_hinit :: "sha512_state \<Rightarrow> bool \<Rightarrow> sha512_state" where
  "crypto_sign_ed25519_ref10_hinit hs prehashed =
     (let hs = crypto_hash_sha512_init hs
      in if prehashed then crypto_hash_sha512_update hs DOM2PREFIX else hs)"

text \<open>The bits of a secret scalar: \<open>az[0] &= 248; az[31] &= 63; az[31] |= 64\<close>.\<close>

definition clamp :: "u8 list \<Rightarrow> u8 list" where
  "clamp a = a[0 := a ! 0 AND 248, 31 := a ! 31 AND 63 OR 64]"

text \<open>The bytes of an array from \<open>i\<close> on replaced by others.\<close>

definition put_at :: "u8 list \<Rightarrow> nat \<Rightarrow> u8 list \<Rightarrow> u8 list" where
  "put_at a i b = take i a @ b @ drop (i + length b) a"

definition crypto_sign_ed25519_detached_ref ::
    "(nat \<Rightarrow> nat \<Rightarrow> ge_precomp) \<Rightarrow> sha512_state \<Rightarrow> u8 list \<Rightarrow> u8 list \<Rightarrow> u8 list \<Rightarrow> bool \<Rightarrow> int \<times> u8 list \<times> u64" where
  "crypto_sign_ed25519_detached_ref base hs sig m sk prehashed =
     (let az = clamp (crypto_hash_sha512 hs (take 32 sk));
          hs = crypto_sign_ed25519_ref10_hinit hs prehashed;
          hs = crypto_hash_sha512_update hs (take 32 (drop 32 az));
          hs = crypto_hash_sha512_update hs m;
          (nonce, hs) = crypto_hash_sha512_final hs;
          sig = put_at sig 32 (take 32 (drop 32 sk));
          nonce = sc_reduce nonce;
          R = ge_scalarmult_base base nonce;
          sig = put_at sig 0 (ge_p3_tobytes R);
          hs = crypto_sign_ed25519_ref10_hinit hs prehashed;
          hs = crypto_hash_sha512_update hs (take 64 sig);
          hs = crypto_hash_sha512_update hs m;
          (hram, hs) = crypto_hash_sha512_final hs;
          hram = sc_reduce hram;
          sig = put_at sig 32 (sc_muladd hram az nonce)
      in (0, sig, 64))"

definition crypto_sign_ed25519_detached ::
    "(nat \<Rightarrow> nat \<Rightarrow> ge_precomp) \<Rightarrow> sha512_state \<Rightarrow> u8 list \<Rightarrow> u8 list \<Rightarrow> u8 list \<Rightarrow> int \<times> u8 list \<times> u64" where
  "crypto_sign_ed25519_detached base hs sig m sk = crypto_sign_ed25519_detached_ref base hs sig m sk False"

definition crypto_sign_ed25519 ::
    "(nat \<Rightarrow> nat \<Rightarrow> ge_precomp) \<Rightarrow> sha512_state \<Rightarrow> u8 list \<Rightarrow> u8 list \<Rightarrow> u8 list \<Rightarrow> int \<times> u8 list \<times> u64" where
  "crypto_sign_ed25519 base hs sm m sk =
     (let sm = put_at sm 64 m;
          (ret, sm, siglen) = crypto_sign_ed25519_detached base hs sm (take (length m) (drop 64 sm)) sk
      in if ret \<noteq> 0 \<or> siglen \<noteq> 64 then (- 1, put_at sm 0 (replicate (length m + 64) 0), 0)
         else (0, sm, of_nat (length m) + siglen))"

subsection \<open>Verifying\<close>

definition group_order_bytes :: "u8 list" where
  "group_order_bytes =
     [0xed, 0xd3, 0xf5, 0x5c, 0x1a, 0x63, 0x12, 0x58, 0xd6, 0x9c, 0xf7, 0xa2, 0xde, 0xf9,
      0xde, 0x14, 0x00, 0x00, 0x00, 0x00, 0x00, 0x00, 0x00, 0x00, 0x00, 0x00, 0x00, 0x00,
      0x00, 0x00, 0x00, 0x10]"

text \<open>The loop of \<open>crypto_sign_check_S_lt_L\<close>, from the most significant byte down; \<open>c\<close> and \<open>n\<close> are
  \<open>unsigned char\<close>, the differences and their shifts are of type \<open>int\<close>.\<close>

primrec check_S_loop :: "u8 list \<Rightarrow> nat \<Rightarrow> u8 \<Rightarrow> u8 \<Rightarrow> u8" where
  "check_S_loop S 0 c n = c"
| "check_S_loop S (Suc i) c n =
     check_S_loop S i
       (c OR byte_of ((uint (S ! i) - uint (group_order_bytes ! i)) div 2 ^ 8 AND uint n))
       (n AND byte_of ((uint (S ! i XOR group_order_bytes ! i) - 1) div 2 ^ 8))"

definition crypto_sign_check_S_lt_L :: "u8 list \<Rightarrow> int" where
  "crypto_sign_check_S_lt_L S = (if check_S_loop S 32 0 1 = 0 then - 1 else 0)"

definition blacklist :: "u8 list list" where
  "blacklist =
     [[0x00, 0x00, 0x00, 0x00, 0x00, 0x00, 0x00, 0x00, 0x00, 0x00, 0x00, 0x00, 0x00, 0x00,
       0x00, 0x00, 0x00, 0x00, 0x00, 0x00, 0x00, 0x00, 0x00, 0x00, 0x00, 0x00, 0x00, 0x00,
       0x00, 0x00, 0x00, 0x00],
      [0x01, 0x00, 0x00, 0x00, 0x00, 0x00, 0x00, 0x00, 0x00, 0x00, 0x00, 0x00, 0x00, 0x00,
       0x00, 0x00, 0x00, 0x00, 0x00, 0x00, 0x00, 0x00, 0x00, 0x00, 0x00, 0x00, 0x00, 0x00,
       0x00, 0x00, 0x00, 0x00],
      [0x26, 0xe8, 0x95, 0x8f, 0xc2, 0xb2, 0x27, 0xb0, 0x45, 0xc3, 0xf4, 0x89, 0xf2, 0xef,
       0x98, 0xf0, 0xd5, 0xdf, 0xac, 0x05, 0xd3, 0xc6, 0x33, 0x39, 0xb1, 0x38, 0x02, 0x88,
       0x6d, 0x53, 0xfc, 0x05],
      [0xc7, 0x17, 0x6a, 0x70, 0x3d, 0x4d, 0xd8, 0x4f, 0xba, 0x3c, 0x0b, 0x76, 0x0d, 0x10,
       0x67, 0x0f, 0x2a, 0x20, 0x53, 0xfa, 0x2c, 0x39, 0xcc, 0xc6, 0x4e, 0xc7, 0xfd, 0x77,
       0x92, 0xac, 0x03, 0x7a],
      [0x13, 0xe8, 0x95, 0x8f, 0xc2, 0xb2, 0x27, 0xb0, 0x45, 0xc3, 0xf4, 0x89, 0xf2, 0xef,
       0x98, 0xf0, 0xd5, 0xdf, 0xac, 0x05, 0xd3, 0xc6, 0x33, 0x39, 0xb1, 0x38, 0x02, 0x88,
       0x6d, 0x53, 0xfc, 0x85],
      [0xb4, 0x17, 0x6a, 0x70, 0x3d, 0x4d, 0xd8, 0x4f, 0xba, 0x3c, 0x0b, 0x76, 0x0d, 0x10,
       0x67, 0x0f, 0x2a, 0x20, 0x53, 0xfa, 0x2c, 0x39, 0xcc, 0xc6, 0x4e, 0xc7, 0xfd, 0x77,
       0x92, 0xac, 0x03, 0xfa],
      [0xec, 0xff, 0xff, 0xff, 0xff, 0xff, 0xff, 0xff, 0xff, 0xff, 0xff, 0xff, 0xff, 0xff,
       0xff, 0xff, 0xff, 0xff, 0xff, 0xff, 0xff, 0xff, 0xff, 0xff, 0xff, 0xff, 0xff, 0xff,
       0xff, 0xff, 0xff, 0x7f],
      [0xed, 0xff, 0xff, 0xff, 0xff, 0xff, 0xff, 0xff, 0xff, 0xff, 0xff, 0xff, 0xff, 0xff,
       0xff, 0xff, 0xff, 0xff, 0xff, 0xff, 0xff, 0xff, 0xff, 0xff, 0xff, 0xff, 0xff, 0xff,
       0xff, 0xff, 0xff, 0x7f],
      [0xee, 0xff, 0xff, 0xff, 0xff, 0xff, 0xff, 0xff, 0xff, 0xff, 0xff, 0xff, 0xff, 0xff,
       0xff, 0xff, 0xff, 0xff, 0xff, 0xff, 0xff, 0xff, 0xff, 0xff, 0xff, 0xff, 0xff, 0xff,
       0xff, 0xff, 0xff, 0x7f],
      [0xd9, 0xff, 0xff, 0xff, 0xff, 0xff, 0xff, 0xff, 0xff, 0xff, 0xff, 0xff, 0xff, 0xff,
       0xff, 0xff, 0xff, 0xff, 0xff, 0xff, 0xff, 0xff, 0xff, 0xff, 0xff, 0xff, 0xff, 0xff,
       0xff, 0xff, 0xff, 0xff],
      [0xda, 0xff, 0xff, 0xff, 0xff, 0xff, 0xff, 0xff, 0xff, 0xff, 0xff, 0xff, 0xff, 0xff,
       0xff, 0xff, 0xff, 0xff, 0xff, 0xff, 0xff, 0xff, 0xff, 0xff, 0xff, 0xff, 0xff, 0xff,
       0xff, 0xff, 0xff, 0xff],
      [0xdb, 0xff, 0xff, 0xff, 0xff, 0xff, 0xff, 0xff, 0xff, 0xff, 0xff, 0xff, 0xff, 0xff,
       0xff, 0xff, 0xff, 0xff, 0xff, 0xff, 0xff, 0xff, 0xff, 0xff, 0xff, 0xff, 0xff, 0xff,
       0xff, 0xff, 0xff, 0xff]]"

fun small_order_loop :: "u8 list list \<Rightarrow> u8 list \<Rightarrow> int" where
  "small_order_loop [] R = 0"
| "small_order_loop (b # bs) R =
     (if foldl (\<lambda>c j. c OR (R ! j XOR b ! j)) 0 [0..<32] = 0 then 1 else small_order_loop bs R)"

definition small_order :: "u8 list \<Rightarrow> int" where
  "small_order R = small_order_loop blacklist R"

text \<open>The arrays \<open>rcheck\<close> and \<open>sig\<close> are different objects, so \<open>rcheck == sig\<close> is 0.\<close>

definition crypto_sign_ed25519_verify_detached_ref ::
    "ge_precomp list \<Rightarrow> sha512_state \<Rightarrow> u8 list \<Rightarrow> u8 list \<Rightarrow> u8 list \<Rightarrow> bool \<Rightarrow> int" where
  "crypto_sign_ed25519_verify_detached_ref Bi hs sig m pk prehashed =
     (if crypto_sign_check_S_lt_L (drop 32 sig) \<noteq> 0 \<or> small_order sig \<noteq> 0 then - 1
      else
        (case ge_frombytes_negate_vartime pk of
           None \<Rightarrow> - 1
         | Some A \<Rightarrow>
             if foldl (\<lambda>d i. d OR pk ! i) 0 [0..<32] = 0 then - 1
             else
               (let hs = crypto_sign_ed25519_ref10_hinit hs prehashed;
                    hs = crypto_hash_sha512_update hs (take 32 sig);
                    hs = crypto_hash_sha512_update hs (take 32 pk);
                    hs = crypto_hash_sha512_update hs m;
                    h = sc_reduce (fst (crypto_hash_sha512_final hs));
                    R = ge_double_scalarmult_vartime Bi h A (drop 32 sig);
                    rcheck = ge_tobytes R
                in crypto_verify 32 rcheck sig OR (- 0) OR sodium_memcmp sig rcheck 32)))"

definition crypto_sign_ed25519_verify_detached ::
    "ge_precomp list \<Rightarrow> sha512_state \<Rightarrow> u8 list \<Rightarrow> u8 list \<Rightarrow> u8 list \<Rightarrow> int" where
  "crypto_sign_ed25519_verify_detached Bi hs sig m pk = crypto_sign_ed25519_verify_detached_ref Bi hs sig m pk False"

text \<open>The result, the buffer for the message and the length stored at \<open>mlen_p\<close>.\<close>

definition crypto_sign_ed25519_open ::
    "ge_precomp list \<Rightarrow> sha512_state \<Rightarrow> u8 list \<Rightarrow> u8 list \<Rightarrow> u64 \<Rightarrow> u8 list \<Rightarrow> int \<times> u8 list \<times> u64" where
  "crypto_sign_ed25519_open Bi hs m sm smlen pk =
     (if smlen < 64 then (- 1, m, 0)
      else
        (let mlen = smlen - 64; msg = take (unat mlen) (drop 64 sm) in
         if crypto_sign_ed25519_verify_detached Bi hs sm msg pk \<noteq> 0
         then (- 1, put_at m 0 (replicate (unat mlen) 0), 0)
         else (0, put_at m 0 msg, mlen)))"

subsection \<open>Keys\<close>

definition crypto_sign_ed25519_seed_keypair ::
    "(nat \<Rightarrow> nat \<Rightarrow> ge_precomp) \<Rightarrow> sha512_state \<Rightarrow> u8 list \<Rightarrow> int \<times> u8 list \<times> u8 list" where
  "crypto_sign_ed25519_seed_keypair base hs seed =
     (let sk = clamp (crypto_hash_sha512 hs (take 32 seed));
          A = ge_scalarmult_base base sk;
          pk = ge_p3_tobytes A;
          sk = put_at sk 0 (take 32 seed);
          sk = put_at sk 32 pk
      in (0, pk, sk))"

text \<open>\<open>seed\<close> is the address of the array on the stack.\<close>

definition crypto_sign_ed25519_keypair ::
    "(nat \<Rightarrow> nat \<Rightarrow> ge_precomp) \<Rightarrow> sha512_state \<Rightarrow> 'r cpu_noise \<Rightarrow> u64 \<Rightarrow> ('r, 'a) krandom_scheme \<Rightarrow>
      ((int \<times> u8 list \<times> u8 list) \<times> ('r, 'a) krandom_scheme) res" where
  "crypto_sign_ed25519_keypair base hs cpu seed s =
     res_bind (randombytes_buf cpu seed 32 s) (\<lambda>s1.
       let ret = crypto_sign_ed25519_seed_keypair base hs (map (\<lambda>i. memory s1 (seed + of_nat i)) [0..<32])
       in Ret (ret, s1\<lparr>memory := sodium_memzero (memory s1) seed 32\<rparr>))"

definition crypto_sign_ed25519_pk_to_curve25519 :: "u8 list \<Rightarrow> (u8 list) option" where
  "crypto_sign_ed25519_pk_to_curve25519 ed25519_pk =
     (case ge_frombytes_negate_vartime ed25519_pk of
        None \<Rightarrow> None
      | Some A \<Rightarrow>
          (let one_minus_y = fe_invert (fe_sub fe_1 (p3_Y A));
               x = fe_mul (fe_add fe_1 (p3_Y A)) one_minus_y
           in Some (fe_tobytes x)))"

definition crypto_sign_ed25519_sk_to_curve25519 :: "sha512_state \<Rightarrow> u8 list \<Rightarrow> u8 list" where
  "crypto_sign_ed25519_sk_to_curve25519 hs ed25519_sk =
     (let h = crypto_hash_sha512 hs (take 32 ed25519_sk);
          h = h[0 := h ! 0 AND 248, 31 := h ! 31 AND 127 OR 64]
      in take 32 h)"

subsection \<open>The batch format\<close>

text \<open>The 32 random bytes of the key are an argument.\<close>

definition crypto_sign_edwards25519sha512batch_keypair ::
    "(nat \<Rightarrow> nat \<Rightarrow> ge_precomp) \<Rightarrow> sha512_state \<Rightarrow> u8 list \<Rightarrow> u8 list \<times> u8 list" where
  "crypto_sign_edwards25519sha512batch_keypair base hs rnd =
     (let sk = clamp (crypto_hash_sha512 hs rnd)
      in (ge_p3_tobytes (ge_scalarmult_base base sk), sk))"

definition crypto_sign_edwards25519sha512batch ::
    "(nat \<Rightarrow> nat \<Rightarrow> ge_precomp) \<Rightarrow> sha512_state \<Rightarrow> u8 list \<Rightarrow> u8 list \<Rightarrow> u8 list \<times> u64" where
  "crypto_sign_edwards25519sha512batch base hs m sk =
     (let hs = crypto_hash_sha512_init hs;
          hs = crypto_hash_sha512_update hs (take 32 (drop 32 sk));
          hs = crypto_hash_sha512_update hs m;
          (nonce, hs) = crypto_hash_sha512_final hs;
          A = ge_scalarmult_base base sk;
          nonce = sc_reduce nonce;
          R = ge_scalarmult_base base nonce;
          sig = ge_p3_tobytes R @ ge_p3_tobytes A;
          hs = crypto_hash_sha512_init hs;
          hs = crypto_hash_sha512_update hs (take 32 sig);
          hs = crypto_hash_sha512_update hs m;
          hram = sc_reduce (fst (crypto_hash_sha512_final hs));
          sig = put_at sig 32 (sc_muladd hram nonce sk)
      in (take 32 sig @ m @ drop 32 sig, of_nat (length m) + 64))"

definition crypto_sign_edwards25519sha512batch_open ::
    "(nat \<Rightarrow> nat \<Rightarrow> ge_precomp) \<Rightarrow> sha512_state \<Rightarrow> u8 list \<Rightarrow> u8 list \<Rightarrow> u64 \<Rightarrow> u8 list \<Rightarrow> int \<times> u8 list \<times> u64" where
  "crypto_sign_edwards25519sha512batch_open base hs m sm smlen pk =
     (if smlen < 64 then (- 1, m, 0)
      else
        (let mlen = smlen - 64 in
         if sm ! unat (smlen - 1) AND 224 \<noteq> 0 then (- 1, m, 0)
         else
           (case (ge_frombytes_negate_vartime pk, ge_frombytes_negate_vartime sm) of
              (Some A, Some R) \<Rightarrow>
                (let Ai = ge_p3_to_cached A;
                     h = sc_reduce (crypto_hash_sha512 hs (take (unat (mlen + 32)) sm));
                     cs3 = ge_scalarmult_vartime h R;
                     csa = ge_add cs3 Ai;
                     cs = ge_p1p1_to_p2 csa;
                     t1 = ge_tobytes cs;
                     t1 = t1[31 := t1 ! 31 XOR push_bit 7 1];
                     R = ge_scalarmult_base base (drop (32 + unat mlen) sm);
                     t2 = ge_p3_tobytes R
                 in if crypto_verify 32 t1 t2 \<noteq> 0 then (- 1, m, 0)
                    else (0, put_at m 0 (take (unat mlen) (drop 32 sm)), mlen))
            | _ \<Rightarrow> (- 1, m, 0))))"

subsection \<open>The range check\<close>

lemma order_bytes: "length group_order_bytes = 32" "le_val group_order_bytes = sc_order"
  by (simp add: group_order_bytes_def) (simp add: group_order_bytes_def le_val_Cons sc_order_def)

lemma le_val_snoc: "le_val (p @ [b]) = le_val p + uint b * 2 ^ (8 * length p)"
  by (simp add: le_val_def nth_append)

lemma small_div: "- 256 \<le> x \<Longrightarrow> x < 256 \<Longrightarrow> x div 256 = (if x < 0 then - 1 else 0)" for x :: int
proof -
  assume x: "- 256 \<le> x" "x < 256"
  show ?thesis
  proof (cases "x < 0")
    case True
    then have "(x + 256) div 256 = 0" using x by (intro div_pos_pos_trivial) auto
    with True show ?thesis by simp
  qed (use x in \<open>simp add: div_pos_pos_trivial\<close>)
qed

lemma byte_diff:
  fixes a b :: u8
  shows "byte_of ((uint a - uint b) div 256 AND 1) = (if a < b then 1 else 0)"
    and "byte_of ((uint (a XOR b) - 1) div 256) = (if a = b then - 1 else 0)"
proof -
  have ab: "0 \<le> uint a" "uint a < 256" "0 \<le> uint b" "uint b < 256" using uint_lt2p [of a] uint_lt2p [of b] by auto
  have "(uint a - uint b) div 256 = (if uint a - uint b < 0 then - 1 else 0)" by (rule small_div) (use ab in linarith)+
  then have "(uint a - uint b) div 256 = (if a < b then - 1 else 0)" by (simp add: word_less_def)
  then show "byte_of ((uint a - uint b) div 256 AND 1) = (if a < b then 1 else 0)" by (simp add: byte_of_def)
  have x: "0 \<le> uint (a XOR b)" "uint (a XOR b) < 256" using uint_lt2p [of "a XOR b"] by auto
  have "uint (a XOR b) = 0 \<longleftrightarrow> a = b" by (simp add: uint_0_iff xor_zero_iff)
  moreover have "(uint (a XOR b) - 1) div 256 = (if uint (a XOR b) - 1 < 0 then - 1 else 0)"
    by (rule small_div) (use x in linarith)+
  moreover have "uint (a XOR b) - 1 < 0 \<longleftrightarrow> uint (a XOR b) = 0" using x(1) by linarith
  ultimately have "(uint (a XOR b) - 1) div 256 = (if a = b then - 1 else 0)" by simp
  then show "byte_of ((uint (a XOR b) - 1) div 256) = (if a = b then - 1 else 0)" by (simp add: byte_of_def)
qed

lemma byte_zero: "byte_of 0 = 0" by (simp add: byte_of_def)

lemma check_S_decided: "check_S_loop S i c 0 = c"
  by (induction i arbitrary: c) (simp_all add: byte_zero)

lemma le_val_compare:
  assumes "length x = length y"
  shows "le_val (x @ [a]) < le_val (y @ [b]) \<longleftrightarrow> a < b \<or> a = b \<and> le_val x < le_val y"
proof -
  let ?P = "2 ^ (8 * length y) :: int"
  have r: "0 \<le> le_val x" "le_val x < ?P" "0 \<le> le_val y" "le_val y < ?P"
    using le_val_range [of x] le_val_range [of y] assms by simp_all
  have lt: "le_val u + uint c * ?P < le_val v + uint d * ?P" if "c < d" "le_val u < ?P" "0 \<le> le_val v" for u v and c d :: u8
  proof -
    have "(uint c + 1) * ?P \<le> uint d * ?P" using that(1) by (intro mult_right_mono) (auto simp: word_less_def)
    then show ?thesis using that(2,3) by (simp add: distrib_right)
  qed
  consider "a < b" | "b < a" | "a = b" by (rule linorder_cases)
  then show ?thesis
  proof cases
    case 1
    then show ?thesis using lt [OF _ r(2) r(3)] assms by (simp add: le_val_snoc)
  next
    case 2
    then have "\<not> a < b" "a \<noteq> b" by auto
    then show ?thesis using lt [OF 2 r(4) r(1)] assms by (simp add: le_val_snoc)
  qed (simp add: le_val_snoc assms)
qed

lemma check_S_compares:
  "i \<le> length S \<Longrightarrow> i \<le> 32 \<Longrightarrow>
   check_S_loop S i 0 1 = (if le_val (take i S) < le_val (take i group_order_bytes) then 1 else 0)"
proof (induction i)
  case (Suc i)
  then have t: "take (Suc i) S = take i S @ [S ! i]"
    "take (Suc i) group_order_bytes = take i group_order_bytes @ [group_order_bytes ! i]"
    by (simp_all add: take_Suc_conv_app_nth order_bytes)
  have l: "length (take i S) = length (take i group_order_bytes)" using Suc.prems by (simp add: order_bytes)
  have "check_S_loop S i 1 1 = 1" for S :: "u8 list" and i
  proof (induction i)
    case (Suc i)
    then show ?case
      using byte_diff [of "S ! i" "group_order_bytes ! i"]
      by (cases "S ! i = group_order_bytes ! i"; cases "S ! i < group_order_bytes ! i") (simp_all add: check_S_decided)
  qed simp
  then show ?case unfolding t using Suc
    by (simp add: byte_diff check_S_decided le_val_compare [OF l])
qed simp

lemma check_S_lt_L_iff: "length S = 32 \<Longrightarrow> crypto_sign_check_S_lt_L S = (if le_val S < sc_order then 0 else - 1)"
  using check_S_compares [of 32 S] by (simp add: crypto_sign_check_S_lt_L_def order_bytes)

subsection \<open>The other checks\<close>

lemma blacklist_lengths: "\<forall>b \<in> set blacklist. length b = 32"
  by (simp add: blacklist_def)

lemma small_order_loop_iff:
  "32 \<le> length R \<Longrightarrow> \<forall>b \<in> set bs. length b = 32 \<Longrightarrow>
   small_order_loop bs R = (if take 32 R \<in> set bs then 1 else 0)"
  by (induction bs R rule: small_order_loop.induct) (auto simp: xor_fold_zero simp del: upt_rec_numeral)

lemma small_order_iff: "32 \<le> length R \<Longrightarrow> small_order R = (if take 32 R \<in> set blacklist then 1 else 0)"
  by (simp add: small_order_def small_order_loop_iff blacklist_lengths)

lemma or_fold_zero: "foldl (\<lambda>d i. d OR f i) c xs = (0::u8) \<longleftrightarrow> c = 0 \<and> (\<forall>i \<in> set xs. f i = 0)"
  by (induction xs arbitrary: c) (auto simp: or_eq_0_iff)

lemma sodium_memcmp_zero:
  assumes "32 \<le> length x" "length x < 2 ^ 63" "32 \<le> length y"
  shows "sodium_memcmp x y 32 = 0 \<longleftrightarrow> take 32 x = take 32 y"
proof -
  have "arrays_at x y k = x ! unat k" "arrays_at x y (of_nat (length x) + k) = y ! unat k" if "k < 32" for k :: u64
  proof -
    have k: "unat k < 32" using that by (simp add: word_less_nat_alt)
    then show "arrays_at x y k = x ! unat k" using assms by (simp add: arrays_at_def)
    have "unat (of_nat (length x) + k :: u64) = length x + unat k"
      using k assms(2) of_nat_inverse [OF refl, of "length x", where 'a = 64] by (subst unat_add_lem [THEN iffD1]) simp_all
    then show "arrays_at x y (of_nat (length x) + k) = y ! unat k" by (simp add: arrays_at_def)
  qed
  then have "sodium_memcmp x y 32 = 0 \<longleftrightarrow> (\<forall>k. k < (32::u64) \<longrightarrow> x ! unat k = y ! unat k)"
    by (simp add: sodium_memcmp_def memcmp_def memcmp_loop_zero_iff)
  also have "\<dots> \<longleftrightarrow> (\<forall>i < 32. x ! i = y ! i)"
  proof
    assume w: "\<forall>k. k < (32::u64) \<longrightarrow> x ! unat k = y ! unat k"
    show "\<forall>i < 32. x ! i = y ! i"
    proof (intro allI impI)
      fix i :: nat
      assume "i < 32"
      then have "unat (of_nat i :: u64) = i" by (intro of_nat_inverse [OF refl]) simp
      with w [rule_format, of "of_nat i"] \<open>i < 32\<close> show "x ! i = y ! i" by (simp add: word_less_nat_alt)
    qed
  qed (simp add: word_less_nat_alt)
  also have "\<dots> \<longleftrightarrow> take 32 x = take 32 y" using assms by (auto simp: list_eq_iff_nth_eq)
  finally show ?thesis .
qed

text \<open>The last line of the verification: 0 for equal bytes and \<open>-1\<close> otherwise.\<close>

lemma final_comparison:
  assumes "64 \<le> length sig" "length sig < 2 ^ 63" "length rcheck = 32"
  shows "crypto_verify 32 rcheck sig OR (- 0) OR sodium_memcmp sig rcheck 32 = (if rcheck = take 32 sig then 0 else - 1)"
  using sodium_memcmp_zero [of sig rcheck] crypto_verify_eq [of 32 rcheck sig] assms by auto

subsection \<open>The hashes\<close>

definition dom_prefix :: "bool \<Rightarrow> u8 list" where
  "dom_prefix prehashed = (if prehashed then DOM2PREFIX else [])"

lemma represents_hinit:
  "length (sh_buf hs) = 128 \<Longrightarrow> represents (crypto_sign_ed25519_ref10_hinit hs prehashed) (dom_prefix prehashed)"
  using represents_init [of hs] represents_update [OF represents_init, of hs DOM2PREFIX]
  by (simp add: crypto_sign_ed25519_ref10_hinit_def dom_prefix_def DOM2PREFIX_def)

lemma length_tobytes: "length (fe_tobytes f) = 32" "length (ge_tobytes h) = 32" "length (ge_p3_tobytes p) = 32"
proof -
  have p: "length (tobytes_pack h) = 32" for h by (simp only: tobytes_pack_def Let_def) simp
  show f: "length (fe_tobytes f) = 32" for f unfolding fe_tobytes_def by (rule p)
  then show "length (ge_tobytes h) = 32" "length (ge_p3_tobytes p) = 32"
    by (simp_all add: ge_tobytes_def ge_p3_tobytes_def affine_bytes_def Let_def)
qed

text \<open>The two scalars: what the code hashes, as numbers modulo the order of the group.\<close>

definition hash_scalar :: "u8 list \<Rightarrow> u8 list" where
  "hash_scalar m = sc_reduce (fips_sha512 m)"

lemma hash_scalar_val: "le_val (take 32 (hash_scalar m)) = le_val (fips_sha512 m) mod sc_order" "length (hash_scalar m) = 64"
  by (simp_all add: hash_scalar_def sc_reduce_val)

lemma verify_scalar:
  assumes "length (sh_buf hs) = 128" "length m < 2 ^ 64"
  shows "sc_reduce (fst (crypto_hash_sha512_final
     (crypto_hash_sha512_update (crypto_hash_sha512_update (crypto_hash_sha512_update
        (crypto_sign_ed25519_ref10_hinit hs pre) (take 32 r)) (take 32 pk)) m)))
    = hash_scalar (dom_prefix pre @ take 32 r @ take 32 pk @ m)"
proof -
  have "length (take 32 r) < 2 ^ 64" "length (take 32 pk) < 2 ^ 64" by simp_all
  note u = represents_update [OF represents_update [OF represents_update [OF represents_hinit [OF assms(1)] this(1)] this(2)] assms(2)]
  show ?thesis using represents_final [OF u] by (simp add: hash_scalar_def)
qed

lemma sign_scalar:
  assumes "length (sh_buf hs) = 128" "length m < 2 ^ 64" "length x < 2 ^ 64"
  shows "sc_reduce (fst (crypto_hash_sha512_final
     (crypto_hash_sha512_update (crypto_hash_sha512_update (crypto_sign_ed25519_ref10_hinit hs pre) x) m)))
    = hash_scalar (dom_prefix pre @ x @ m)"
proof -
  note u = represents_update [OF represents_update [OF represents_hinit [OF assms(1)] assms(3)] assms(2)]
  show ?thesis using represents_final [OF u] by (simp add: hash_scalar_def)
qed

lemma length_clamp [simp]: "length (clamp a) = length a" by (simp add: clamp_def)

text \<open>The signature that the code computes: the encoding of \<open>R = r B\<close> and the number
  \<open>S = (h a + r) mod l\<close>, where \<open>a\<close> is the secret scalar, \<open>r\<close> the hash of the secret prefix and the
  message, and \<open>h\<close> the hash of \<open>R\<close>, the public key and the message.\<close>

definition sign_R :: "(nat \<Rightarrow> nat \<Rightarrow> ge_precomp) \<Rightarrow> u8 list \<Rightarrow> u8 list \<Rightarrow> bool \<Rightarrow> u8 list" where
  "sign_R base m sk pre =
     ge_p3_tobytes (ge_scalarmult_base base
       (hash_scalar (dom_prefix pre @ drop 32 (clamp (fips_sha512 (take 32 sk))) @ m)))"

lemma sign_detached_eq:
  assumes "length (sh_buf hs) = 128" "length m < 2 ^ 63" "length sig = 64" "length sk = 64"
  shows "crypto_sign_ed25519_detached_ref base hs sig m sk pre =
    (0, sign_R base m sk pre @ sc_muladd (hash_scalar (dom_prefix pre @ sign_R base m sk pre @ drop 32 sk @ m))
         (clamp (fips_sha512 (take 32 sk)))
         (hash_scalar (dom_prefix pre @ drop 32 (clamp (fips_sha512 (take 32 sk))) @ m)), 64)"
proof -
  define az where "az = clamp (fips_sha512 (take 32 sk))"
  define nonce where "nonce = hash_scalar (dom_prefix pre @ drop 32 az @ m)"
  have az: "crypto_hash_sha512 hs (take 32 sk) = fips_sha512 (take 32 sk)" "length az = 64"
    using assms(1) by (simp_all add: represents_whole az_def)
  have ln: "length nonce = 64" by (simp add: nonce_def hash_scalar_val)
  have R: "ge_p3_tobytes (ge_scalarmult_base base nonce) = sign_R base m sk pre"
    by (simp add: sign_R_def nonce_def az_def)
  have lR: "length (sign_R base m sk pre) = 32" by (simp add: sign_R_def length_tobytes)
  have m: "length m < 2 ^ 64" using assms(2) by simp
  have n: "sc_reduce (fst (crypto_hash_sha512_final (crypto_hash_sha512_update
      (crypto_hash_sha512_update (crypto_sign_ed25519_ref10_hinit hs pre) (drop 32 az)) m))) = nonce"
    using sign_scalar [OF assms(1) m, of "drop 32 az"] az(2) by (simp add: nonce_def)
  have "length (sh_buf (snd (crypto_hash_sha512_final st))) = 128" for st by (simp add: crypto_hash_sha512_final_def)
  then have h: "sc_reduce (fst (crypto_hash_sha512_final (crypto_hash_sha512_update (crypto_hash_sha512_update
      (crypto_sign_ed25519_ref10_hinit (snd (crypto_hash_sha512_final st)) pre) (sign_R base m sk pre @ drop 32 sk)) m)))
    = hash_scalar (dom_prefix pre @ sign_R base m sk pre @ drop 32 sk @ m)" for st
    using sign_scalar [OF _ m, of "snd (crypto_hash_sha512_final st)" "sign_R base m sk pre @ drop 32 sk"] lR assms(4) by simp
  have l: "length (sc_muladd x y z) = 32" if "32 \<le> length x" "32 \<le> length y" "32 \<le> length z" for x y z
    using sc_muladd_val(2) [OF that] .
  show ?thesis
    unfolding crypto_sign_ed25519_detached_ref_def Let_def case_prod_beta az(1) az_def [symmetric] nonce_def [symmetric]
    using assms(3,4) az(2) lR ln n h by (simp add: put_at_def R l hash_scalar_val nonce_def [symmetric])
qed

text \<open>The secret scalar is a multiple of 8 between \<open>2 ^ 254\<close> and \<open>2 ^ 255\<close>.\<close>

lemma clamp_bytes:
  fixes x :: u8
  shows "uint (x AND 248) mod 8 = 0" "64 \<le> uint (x AND 63 OR 64)" "uint (x AND 63 OR 64) < 128"
proof -
  have "take_bit 3 (248::u8) = 0" by simp
  then have "take_bit 3 (x AND 248) = 0" by (simp only: take_bit_and and_zero_eq)
  then have "take_bit 3 (uint (x AND 248)) = 0" by (metis unsigned_take_bit_eq unsigned_0)
  then show "uint (x AND 248) mod 8 = 0" by (simp add: take_bit_eq_mod)
  have 6: "x AND 63 = take_bit 6 x" by (simp add: take_bit_eq_mask mask_eq_exp_minus_1)
  have b: "0 \<le> uint (take_bit 6 x)" "uint (take_bit 6 x) < 64"
    using take_bit_int_less_exp [of 6 "uint x"] by (simp_all add: unsigned_take_bit_eq)
  have "(64::u8) = push_bit 6 1" by simp
  then have "bit (64::u8) n \<Longrightarrow> 6 \<le> n" for n by (metis bit_push_bit_iff)
  then have "take_bit 6 x AND 64 = 0" by (intro bit_eqI) (auto simp: bit_and_iff bit_take_bit_iff dest: leD)
  then have "x AND 63 OR 64 = take_bit 6 x + 64" unfolding 6 by (simp add: disjunctive_add_eq_or)
  moreover have "uint (take_bit 6 x + 64) = uint (take_bit 6 x) + 64" using b by (subst uint_add_lem [THEN iffD1]) simp_all
  ultimately show "64 \<le> uint (x AND 63 OR 64)" "uint (x AND 63 OR 64) < 128" using b by simp_all
qed

lemma clamp_val:
  assumes "32 \<le> length a"
  shows "le_val (take 32 (clamp a)) mod 8 = 0" "2 ^ 254 \<le> le_val (take 32 (clamp a))" "le_val (take 32 (clamp a)) < 2 ^ 255"
proof -
  define b where "b = take 32 (clamp a)"
  have "0 < length a" using assms by linarith
  then have b: "length b = 32" "b ! 0 = a ! 0 AND 248" "b ! 31 = a ! 31 AND 63 OR 64"
    using assms by (auto simp: b_def clamp_def nth_list_update)
  have "b = b ! 0 # tl b" using b(1) by (cases b) auto
  then have "le_val b = uint (a ! 0 AND 248) + 256 * le_val (tl b)" by (metis le_val_Cons b(2))
  then show "le_val (take 32 (clamp a)) mod 8 = 0" using clamp_bytes(1) [of "a ! 0"] unfolding b_def [symmetric] by presburger
  have "b = take 31 b @ [b ! 31]" using b(1) take_Suc_conv_app_nth [of 31 b] by simp
  then have "le_val b = le_val (take 31 b) + uint (a ! 31 AND 63 OR 64) * 2 ^ 248"
    using le_val_snoc [of "take 31 b" "b ! 31"] b(1,3) by simp
  moreover have "0 \<le> le_val (take 31 b)" "le_val (take 31 b) < 2 ^ 248" using le_val_range [of "take 31 b"] b(1) by simp_all
  ultimately show "2 ^ 254 \<le> le_val (take 32 (clamp a))" "le_val (take 32 (clamp a)) < 2 ^ 255"
    using clamp_bytes(2,3) [of "a ! 31"] unfolding b_def [symmetric] by simp_all
qed

lemma slide_take: "32 \<le> length a \<Longrightarrow> slide (take 32 a) = slide a"
proof -
  assume "32 \<le> length a"
  then have "slide_bits (take 32 a) = slide_bits a" by (auto simp: slide_bits_def intro!: arg_cong [where f = "\<lambda>b. bit b _"])
  then show ?thesis by (simp add: slide_def)
qed

lemma residue_product: "(x mod n * y + z) mod n = (x * y + z) mod n" for n :: int
  by (metis mod_add_left_eq mod_mult_left_eq)

text \<open>Verification reads 64 bytes of the signature, which may be followed by the message.\<close>

lemma check_S_take: "i \<le> 32 \<Longrightarrow> check_S_loop (take 32 S) i c n = check_S_loop S i c n"
  by (induction i arbitrary: c n) simp_all

lemma verify_detached_eq:
  assumes "64 \<le> length sig" "length sig < 2 ^ 63" "length pk = 32" "length (sh_buf hs) = 128" "length m < 2 ^ 64"
    and R: "R = take 32 sig" and S: "S = take 32 (drop 32 sig)"
  shows "crypto_sign_ed25519_verify_detached_ref Bi hs sig m pk pre =
    (if le_val S < sc_order \<and> R \<notin> set blacklist \<and> pk \<noteq> replicate 32 0 \<and>
        (\<exists>A. ge_frombytes_negate_vartime pk = Some A \<and>
           ge_tobytes (ge_double_scalarmult_vartime Bi (hash_scalar (dom_prefix pre @ R @ pk @ m)) A S) = R)
     then 0 else - 1)"
proof -
  have z: "foldl (\<lambda>d i. d OR pk ! i) 0 [0..<32] = 0 \<longleftrightarrow> pk = replicate 32 0"
    unfolding or_fold_zero using assms(3) by (auto simp: list_eq_iff_nth_eq)
  have h: "sc_reduce (fst (crypto_hash_sha512_final
     (crypto_hash_sha512_update (crypto_hash_sha512_update (crypto_hash_sha512_update
        (crypto_sign_ed25519_ref10_hinit hs pre) R) (take 32 pk)) m)))
    = hash_scalar (dom_prefix pre @ R @ pk @ m)"
    using verify_scalar [OF assms(4,5), of pre sig pk] assms(3) R by simp
  have d: "ge_double_scalarmult_vartime Bi x A (drop 32 sig) = ge_double_scalarmult_vartime Bi x A S" for x A
    using slide_take [of "drop 32 sig"] assms(1) by (simp add: ge_double_scalarmult_vartime_def S)
  have "crypto_sign_check_S_lt_L (drop 32 sig) = (if le_val S < sc_order then 0 else - 1)"
    using check_S_lt_L_iff [of S] check_S_take [of 32 "drop 32 sig"] assms(1) by (simp add: S crypto_sign_check_S_lt_L_def)
  moreover have "small_order sig = (if R \<in> set blacklist then 1 else 0)" using assms(1) by (simp add: small_order_iff R)
  ultimately show ?thesis
    unfolding crypto_sign_ed25519_verify_detached_ref_def Let_def z d final_comparison [OF assms(1,2) length_tobytes(2)]
      R [symmetric] h
    by (auto split: option.splits)
qed

subsection \<open>Properties\<close>

text \<open>(C14) Verifying a signature returns 0 exactly when its number is below the order of the group, its
  point is not one of the listed ones of small order, the public key is not zero and is the
  encoding of a point, and the point that is computed from the key, the number and the SHA-512
  hash of the point, the key and the message, reduced modulo the order, has the encoding that the
  signature begins with. In every other case it returns \<open>-1\<close>.\<close>

theorem verify_detached_correct:
  assumes "length sig = 64" "length pk = 32" "length (sh_buf hs) = 128" "length m < 2 ^ 64"
  shows "crypto_sign_ed25519_verify_detached Bi hs sig m pk =
    (if le_val (drop 32 sig) < sc_order \<and> take 32 sig \<notin> set blacklist \<and> pk \<noteq> replicate 32 0 \<and>
        (\<exists>A. ge_frombytes_negate_vartime pk = Some A \<and>
           ge_tobytes (ge_double_scalarmult_vartime Bi (hash_scalar (take 32 sig @ pk @ m)) A (drop 32 sig)) = take 32 sig)
     then 0 else - 1) \<and>
    le_val (take 32 (hash_scalar (take 32 sig @ pk @ m))) = le_val (fips_sha512 (take 32 sig @ pk @ m)) mod sc_order"
  using verify_detached_eq [OF _ _ assms(2-4) refl refl, of sig Bi False] assms(1) by (simp add: crypto_sign_ed25519_verify_detached_def dom_prefix_def hash_scalar_val)

text \<open>(C15) Signing stores 64 bytes: the encoding of \<open>r B\<close>, and a number below the order of the group, so
  that it passes the range check of the verification: \<open>(h a + r) mod l\<close>, where \<open>r\<close> and \<open>h\<close> are the
  SHA-512 hashes of the second half of the hashed secret with the message, and of the point, the public key and
  the message, as in the verification, and \<open>a\<close> is the secret scalar.\<close>

theorem sign_detached_correct:
  assumes "length (sh_buf hs) = 128" "length m < 2 ^ 63" "length buf = 64" "length sk = 64"
    and "crypto_sign_ed25519_detached base hs buf m sk = (ret, sig, siglen)"
    and "az = clamp (fips_sha512 (take 32 sk))" "r = fips_sha512 (drop 32 az @ m)" "h = fips_sha512 (take 32 sig @ drop 32 sk @ m)"
  shows "ret = 0 \<and> siglen = 64 \<and> length sig = 64 \<and>
    take 32 sig = ge_p3_tobytes (ge_scalarmult_base base (sc_reduce r)) \<and>
    le_val (drop 32 sig) = (le_val h * le_val (take 32 az) + le_val r) mod sc_order \<and>
    crypto_sign_check_S_lt_L (drop 32 sig) = 0 \<and>
    le_val (take 32 az) mod 8 = 0 \<and> 2 ^ 254 \<le> le_val (take 32 az) \<and> le_val (take 32 az) < 2 ^ 255"
proof -
  let ?R = "sign_R base m sk False"
  have s: "ret = 0" "siglen = 64"
    "sig = ?R @ sc_muladd (hash_scalar (?R @ drop 32 sk @ m)) az (hash_scalar (drop 32 az @ m))"
    using assms(5) sign_detached_eq [OF assms(1-4), of base False]
    by (simp_all add: crypto_sign_ed25519_detached_def dom_prefix_def assms(6))
  have l: "length az = 64" "length ?R = 32" by (simp_all add: assms(6) sign_R_def length_tobytes)
  have v: "le_val (drop 32 sig) = (le_val h * le_val (take 32 az) + le_val r) mod sc_order" "length sig = 64"
    using s(3) l sc_muladd_val [of "hash_scalar (?R @ drop 32 sk @ m)" az "hash_scalar (drop 32 az @ m)"]
    by (simp_all add: hash_scalar_val assms(7,8) residue_product mod_add_right_eq)
  have "le_val (drop 32 sig) < sc_order" unfolding v(1) by (simp add: sc_order_def)
  then have "crypto_sign_check_S_lt_L (drop 32 sig) = 0" using v(2) by (simp add: check_S_lt_L_iff)
  moreover have "take 32 sig = ge_p3_tobytes (ge_scalarmult_base base (sc_reduce r))"
    using s(3) l by (simp add: sign_R_def hash_scalar_def dom_prefix_def assms(6,7))
  ultimately show ?thesis using s v clamp_val [of "fips_sha512 (take 32 sk)"] by (simp add: assms(6))
qed

text \<open>Opening a signed message rejects what is shorter than a signature, and otherwise returns the
  message after the signature if the signature is valid; if not, it wipes the buffer over the
  length of the message. A rejection always returns \<open>-1\<close> and the length 0.\<close>

theorem open_correct:
  assumes "unat smlen = length sm" "length sm < 2 ^ 63" "length pk = 32" "length (sh_buf hs) = 128"
  shows "crypto_sign_ed25519_open Bi hs buf sm smlen pk =
    (if length sm < 64 then (- 1, buf, 0)
     else if crypto_sign_ed25519_verify_detached Bi hs (take 64 sm) (drop 64 sm) pk = 0
     then (0, drop 64 sm @ drop (length sm - 64) buf, smlen - 64)
     else (- 1, replicate (length sm - 64) 0 @ drop (length sm - 64) buf, 0))"
proof (cases "length sm < 64")
  case True
  then have "smlen < 64" using assms(1) by (simp add: word_less_nat_alt)
  with True show ?thesis by (simp add: crypto_sign_ed25519_open_def)
next
  case False
  then have "\<not> smlen < 64" and n: "unat (smlen - 64) = length sm - 64"
    using assms(1) by (simp_all add: word_less_nat_alt unat_sub word_le_nat_alt)
  moreover have "crypto_sign_ed25519_verify_detached_ref Bi hs sm (drop 64 sm) pk False =
    crypto_sign_ed25519_verify_detached_ref Bi hs (take 64 sm) (drop 64 sm) pk False"
    using False assms(2) verify_detached_eq [OF _ _ assms(3,4) _ refl refl, of sm "drop 64 sm" Bi False]
      verify_detached_eq [OF _ _ assms(3,4) _ refl refl, of "take 64 sm" "drop 64 sm" Bi False]
    by (simp add: drop_take)
  ultimately show ?thesis using False
    by (simp add: crypto_sign_ed25519_open_def crypto_sign_ed25519_verify_detached_def Let_def put_at_def)
qed

text \<open>A key pair made from a seed consists of the encoding of \<open>a B\<close> and of the seed followed by that
  encoding, where \<open>a\<close> is the secret scalar of the signatures made with the key; the Curve25519 key
  derived from the secret key is that scalar as well.\<close>

theorem seed_keypair_correct:
  assumes "length seed = 32" "length (sh_buf hs) = 128"
    and "crypto_sign_ed25519_seed_keypair base hs seed = (ret, pk, sk)"
    and "az = clamp (fips_sha512 (take 32 sk))"
  shows "ret = 0 \<and> length pk = 32 \<and> sk = seed @ pk \<and> pk = ge_p3_tobytes (ge_scalarmult_base base az) \<and>
    crypto_sign_ed25519_sk_to_curve25519 hs sk = take 32 az"
proof -
  have pk: "ret = 0" "pk = ge_p3_tobytes (ge_scalarmult_base base (clamp (fips_sha512 seed)))" "sk = seed @ pk"
    using assms(1-3) by (auto simp: crypto_sign_ed25519_seed_keypair_def Let_def put_at_def represents_whole length_tobytes)
  have "(x AND 63) OR 64 = (x AND 127) OR 64" for x :: u8
    by (simp add: bit.disj_conj_distrib2)
  then show ?thesis using pk assms(1,2,4)
    by (simp add: length_tobytes crypto_sign_ed25519_sk_to_curve25519_def Let_def represents_whole clamp_def)
qed

definition demo_hash_state :: sha512_state where
  "demo_hash_state = \<lparr>sh_state = [], sh_count = (3, 5), sh_buf = replicate 128 0xaa\<rparr>"

lemma demo_hash_state_buf: "length (sh_buf demo_hash_state) = 128" by (simp add: demo_hash_state_def)

theorem verify_detached_correct_witness:
  "crypto_sign_ed25519_verify_detached [] demo_hash_state (replicate 64 0xff) [1, 2, 3] (replicate 32 7) = - 1"
proof -
  have "\<not> le_val (replicate 32 0xff) < sc_order" by code_simp
  then show ?thesis
    using verify_detached_correct [of "replicate 64 0xff" "replicate 32 7" demo_hash_state "[1, 2, 3]" "[]"] demo_hash_state_buf
    by simp
qed

theorem sign_detached_correct_witness:
  "crypto_sign_check_S_lt_L (drop 32 (fst (snd (crypto_sign_ed25519_detached (\<lambda>i j. ge_precomp_0) demo_hash_state
     (replicate 64 0) [1, 2, 3] (replicate 64 9))))) = 0"
  using sign_detached_correct [OF demo_hash_state_buf, of "[1, 2, 3]" "replicate 64 0" "replicate 64 9" "\<lambda>i j. ge_precomp_0"]
  by (cases "crypto_sign_ed25519_detached (\<lambda>i j. ge_precomp_0) demo_hash_state (replicate 64 0) [1, 2, 3] (replicate 64 9)") simp

theorem open_correct_witness:
  "crypto_sign_ed25519_open [] demo_hash_state [1, 2, 3] (replicate 63 0) 63 (replicate 32 7) = (- 1, [1, 2, 3], 0)"
  using open_correct [of 63 "replicate 63 0" "replicate 32 7" demo_hash_state "[]" "[1, 2, 3]"] demo_hash_state_buf by simp

theorem seed_keypair_correct_witness:
  "fst (crypto_sign_ed25519_seed_keypair (\<lambda>i j. ge_precomp_0) demo_hash_state (replicate 32 5)) = 0"
  using seed_keypair_correct [OF _ demo_hash_state_buf, of "replicate 32 5" "\<lambda>i j. ge_precomp_0"]
  by (cases "crypto_sign_ed25519_seed_keypair (\<lambda>i j. ge_precomp_0) demo_hash_state (replicate 32 5)") simp

end
