(* ===== verification/Elf.thy ===== *)
theory Elf
  imports Page_Tables Symbols
begin

text \<open>
  \<open>kernel/core/elf.c\<close> and \<open>include/truth/elf.h\<close>: the ELF files of kernel modules, read and patched in
  place. Pointers are 64-bit words. The file lies in an area of memory of its own; an access outside
  of it is a \<open>Fault\<close>. What the functions write to the log is left out, except where a function does
  nothing else: there the format strings and their arguments are listed.
\<close>

subsection \<open>The area of a file\<close>

record view =
  v_mem :: mem
  v_start :: u64
  v_len :: u64

definition covers :: "view \<Rightarrow> u64 \<Rightarrow> nat \<Rightarrow> bool" where
  "covers v a n \<longleftrightarrow> unat (a - v_start v) + n \<le> unat (v_len v)"

text \<open>A number of \<open>n\<close> bytes, least significant first, and the store through an \<open>int64_t *\<close>.\<close>

definition rd :: "nat \<Rightarrow> view \<Rightarrow> u64 \<Rightarrow> u64 res" where
  "rd n v a = (if covers v a n then Ret (word_of_bytes (map (\<lambda>i. v_mem v (a + of_nat i)) [0..<n])) else Fault)"

definition wr64 :: "view \<Rightarrow> u64 \<Rightarrow> u64 \<Rightarrow> view res" where
  "wr64 v a w = (if covers v a 8 then Ret (v\<lparr>v_mem := store64 (v_mem v) a w\<rparr>) else Fault)"

text \<open>Whether the bytes at \<open>a\<close> differ from those of a constant: \<open>memcmp\<close> with the length of the
  constant, and \<open>strncmp\<close> with a constant that holds no zero before its last byte.\<close>

fun differs :: "view \<Rightarrow> u64 \<Rightarrow> string \<Rightarrow> bool res" where
  "differs v a [] = Ret False"
| "differs v a (c # cs) =
     res_bind (rd 1 v a) (\<lambda>b. if b \<noteq> of_char c then Ret True else differs v (a + 1) cs)"

subsection \<open>The structures\<close>

definition sizeof_elf64_header :: u64 where "sizeof_elf64_header = 64"
definition EI_CLASS :: u64 where "EI_CLASS = 4"
definition e_ident :: "view \<Rightarrow> u64 \<Rightarrow> u64 \<Rightarrow> u64 res" where "e_ident v h i = rd 1 v (h + i)"
definition e_type :: "view \<Rightarrow> u64 \<Rightarrow> u64 res" where "e_type v h = rd 2 v (h + 16)"
definition e_machine :: "view \<Rightarrow> u64 \<Rightarrow> u64 res" where "e_machine v h = rd 2 v (h + 18)"
definition e_version :: "view \<Rightarrow> u64 \<Rightarrow> u64 res" where "e_version v h = rd 4 v (h + 20)"
definition e_entry :: "view \<Rightarrow> u64 \<Rightarrow> u64 res" where "e_entry v h = rd 8 v (h + 24)"
definition e_phoff :: "view \<Rightarrow> u64 \<Rightarrow> u64 res" where "e_phoff v h = rd 8 v (h + 32)"
definition e_shoff :: "view \<Rightarrow> u64 \<Rightarrow> u64 res" where "e_shoff v h = rd 8 v (h + 40)"
definition e_flags :: "view \<Rightarrow> u64 \<Rightarrow> u64 res" where "e_flags v h = rd 4 v (h + 48)"
definition e_ehsize :: "view \<Rightarrow> u64 \<Rightarrow> u64 res" where "e_ehsize v h = rd 2 v (h + 52)"
definition e_phentsize :: "view \<Rightarrow> u64 \<Rightarrow> u64 res" where "e_phentsize v h = rd 2 v (h + 54)"
definition e_phnum :: "view \<Rightarrow> u64 \<Rightarrow> u64 res" where "e_phnum v h = rd 2 v (h + 56)"
definition e_shentsize :: "view \<Rightarrow> u64 \<Rightarrow> u64 res" where "e_shentsize v h = rd 2 v (h + 58)"
definition e_shnum :: "view \<Rightarrow> u64 \<Rightarrow> u64 res" where "e_shnum v h = rd 2 v (h + 60)"
definition e_shstrndx :: "view \<Rightarrow> u64 \<Rightarrow> u64 res" where "e_shstrndx v h = rd 2 v (h + 62)"

definition ET_REL :: u64 where "ET_REL = 1"
definition EM_X86_64 :: u64 where "EM_X86_64 = 62"
definition EV_CURRENT :: u64 where "EV_CURRENT = 1"
definition ELFMAG :: string where "ELFMAG = CHR 0x7f # ''ELF''"
definition ELFCLASS64 :: u64 where "ELFCLASS64 = 2"
definition SHN_UNDEF :: u64 where "SHN_UNDEF = 0"
definition SHT_NULL :: u64 where "SHT_NULL = 0"

definition sizeof_elf_section_header :: u64 where "sizeof_elf_section_header = 64"
definition section_at :: "u64 \<Rightarrow> u64 \<Rightarrow> u64" where "section_at sections i = sections + i * sizeof_elf_section_header"
definition sh_name :: "view \<Rightarrow> u64 \<Rightarrow> u64 res" where "sh_name v p = rd 4 v p"
definition sh_type :: "view \<Rightarrow> u64 \<Rightarrow> u64 res" where "sh_type v p = rd 4 v (p + 4)"
definition sh_offset :: "view \<Rightarrow> u64 \<Rightarrow> u64 res" where "sh_offset v p = rd 8 v (p + 24)"
definition sh_size :: "view \<Rightarrow> u64 \<Rightarrow> u64 res" where "sh_size v p = rd 8 v (p + 32)"

definition sizeof_elf_symbol :: u64 where "sizeof_elf_symbol = 24"
definition symbol_at :: "u64 \<Rightarrow> u64 \<Rightarrow> u64" where "symbol_at symtab i = symtab + i * sizeof_elf_symbol"
definition st_name :: "view \<Rightarrow> u64 \<Rightarrow> u64 res" where "st_name v p = rd 4 v p"
definition st_info :: "view \<Rightarrow> u64 \<Rightarrow> u64 res" where "st_info v p = rd 1 v (p + 4)"
definition st_index :: "view \<Rightarrow> u64 \<Rightarrow> u64 res" where "st_index v p = rd 2 v (p + 6)"
definition st_value :: "view \<Rightarrow> u64 \<Rightarrow> u64 res" where "st_value v p = rd 8 v (p + 8)"

definition ELF64_ST_BIND :: "u64 \<Rightarrow> u64" where "ELF64_ST_BIND i = drop_bit 4 i"
definition ELF64_ST_TYPE :: "u64 \<Rightarrow> u64" where "ELF64_ST_TYPE i = i AND 0x0f"
definition STB_GLOBAL :: u64 where "STB_GLOBAL = 1"
definition STT_OBJECT :: u64 where "STT_OBJECT = 1"
definition STT_FUNC :: u64 where "STT_FUNC = 2"
definition STT_FILE :: u64 where "STT_FILE = 4"

definition sizeof_elf_rela :: u64 where "sizeof_elf_rela = 24"
definition r_offset :: "view \<Rightarrow> u64 \<Rightarrow> u64 res" where "r_offset v p = rd 8 v p"
definition r_info :: "view \<Rightarrow> u64 \<Rightarrow> u64 res" where "r_info v p = rd 8 v (p + 8)"
definition r_addend :: "view \<Rightarrow> u64 \<Rightarrow> u64 res" where "r_addend v p = rd 8 v (p + 16)"

definition ELF64_R_SYM :: "u64 \<Rightarrow> u64" where "ELF64_R_SYM i = drop_bit 32 i"
definition ELF64_R_TYPE :: "u64 \<Rightarrow> u64" where "ELF64_R_TYPE i = i AND 0xffffffff"
definition R_X86_64_64 :: u64 where "R_X86_64_64 = 1"
definition R_X86_64_GLOB_DAT :: u64 where "R_X86_64_GLOB_DAT = 6"
definition R_X86_64_JUMP_SLOT :: u64 where "R_X86_64_JUMP_SLOT = 7"
definition R_X86_64_RELATIVE :: u64 where "R_X86_64_RELATIVE = 8"

definition sizeof_elf_dyn :: u64 where "sizeof_elf_dyn = 16"
definition dyn_at :: "u64 \<Rightarrow> u64 \<Rightarrow> u64" where "dyn_at dynamic i = dynamic + i * sizeof_elf_dyn"
definition d_tag :: "view \<Rightarrow> u64 \<Rightarrow> u64 res" where "d_tag v p = rd 8 v p"
definition d_val :: "view \<Rightarrow> u64 \<Rightarrow> u64 res" where "d_val v p = rd 8 v (p + 8)"
definition DT_SONAME :: u64 where "DT_SONAME = 14"
definition DT_INIT_ARRAY :: u64 where "DT_INIT_ARRAY = 25"
definition DT_FINI_ARRAY :: u64 where "DT_FINI_ARRAY = 26"
definition DT_INIT_ARRAYSZ :: u64 where "DT_INIT_ARRAYSZ = 27"
definition DT_FINI_ARRAYSZ :: u64 where "DT_FINI_ARRAYSZ = 28"

lemmas elf_layout = e_ident_def e_type_def e_machine_def e_version_def e_entry_def e_phoff_def e_shoff_def e_flags_def
  e_ehsize_def e_phentsize_def e_phnum_def e_shentsize_def e_shnum_def e_shstrndx_def sh_name_def sh_type_def
  sh_offset_def sh_size_def st_name_def st_info_def st_index_def st_value_def r_offset_def r_info_def r_addend_def
  d_tag_def d_val_def

subsection \<open>The header\<close>

definition elf_verify_x86_64_compatible :: "view \<Rightarrow> u64 \<Rightarrow> bool res" where
  "elf_verify_x86_64_compatible v header =
     res_bind (e_machine v header) (\<lambda>mach.
     if mach = EM_X86_64 then res_bind (e_ident v header EI_CLASS) (\<lambda>c. Ret (c = ELFCLASS64)) else Ret False)"

definition elf_verify_shared_object :: "view \<Rightarrow> u64 \<Rightarrow> bool res" where
  "elf_verify_shared_object v header = res_bind (e_type v header) (\<lambda>ty. Ret (ty = ET_REL))"

definition elf_verify :: "view \<Rightarrow> u64 \<Rightarrow> u64 \<Rightarrow> bool res" where
  "elf_verify v start sz =
     (if sz \<le> sizeof_elf64_header then Ret False
      else
        res_bind (differs v start ELFMAG) (\<lambda>bad.
        if bad then Ret False
        else
          res_bind (e_version v start) (\<lambda>version.
          if version \<noteq> EV_CURRENT then Ret False
          else
            res_bind (elf_verify_x86_64_compatible v start) (\<lambda>compatible.
            if \<not> compatible then Ret False
            else
              res_bind (e_shstrndx v start) (\<lambda>ndx.
              res_bind (e_shnum v start) (\<lambda>num.
              Ret (\<not> ndx > num)))))))"

text \<open>A null pointer is \<open>0\<close>.\<close>

definition elf_strtab_get_symbol :: "view \<Rightarrow> u64 \<Rightarrow> u64 \<Rightarrow> u64 \<Rightarrow> u64 res" where
  "elf_strtab_get_symbol v header sz index =
     res_bind (e_shoff v header) (\<lambda>off.
     res_bind (e_shstrndx v header) (\<lambda>ndx.
     res_bind (sh_offset v (section_at (header + off) ndx)) (\<lambda>ofs.
       let strtab = header + ofs in
       if strtab > header + sz \<or> strtab + index > header + sz then Ret 0 else Ret (strtab + index))))"

text \<open>The calls of \<open>logf\<close>: the format and the arguments.\<close>

definition elf_info :: "view \<Rightarrow> u64 \<Rightarrow> (string \<times> u64 list) list res" where
  "elf_info v h =
     (let field = (\<lambda>fmt get rest. res_bind (get v h) (\<lambda>x. res_bind rest (\<lambda>xs. Ret ((fmt, [x]) # xs)))) in
      res_bind (e_ident v h 0) (\<lambda>i0. res_bind (e_ident v h 1) (\<lambda>i1.
      res_bind (e_ident v h 2) (\<lambda>i2. res_bind (e_ident v h 3) (\<lambda>i3.
      res_bind
        (field ''e_type          %x'' e_type (field ''e_machine       %x'' e_machine
        (field ''e_version       %x'' e_version (field ''e_entry         %lx'' e_entry
        (field ''e_phoff         %lx'' e_phoff (field ''e_shoff         %lx'' e_shoff
        (field ''e_flags         %x'' e_flags (field ''e_ehsize        %x'' e_ehsize
        (field ''e_phentsize     %x'' e_phentsize (field ''e_phnum         %x'' e_phnum
        (field ''e_shentsize     %x'' e_shentsize (field ''e_shnum         %x'' e_shnum
        (field ''e_shstrndx      %x'' e_shstrndx (Ret []))))))))))))))
        (\<lambda>xs. Ret ((''ELF File:'', []) # (''e_ident         %hhx%c%c%c'', [i0, i1, i2, i3]) # xs)))))))"

subsection \<open>Sections\<close>

text \<open>The first check returns from the function, the second only writes to the log.\<close>

fun print_sections_loop :: "view \<Rightarrow> u64 \<Rightarrow> u64 \<Rightarrow> u64 \<Rightarrow> nat \<Rightarrow> (string \<times> u64 list) list res" where
  "print_sections_loop v sections strtab i 0 = Ret []"
| "print_sections_loop v sections strtab i (Suc n) =
     (let p = section_at sections i in
      res_bind (sh_name v p) (\<lambda>name.
      res_bind (sh_type v p) (\<lambda>ty.
      res_bind (sh_offset v p) (\<lambda>off.
      res_bind (print_sections_loop v sections strtab (i + 1) n) (\<lambda>xs.
      Ret ((''%s'', [strtab + name]) # (''%zu sh_name offset %x sh_type %x sh_offset %lx'', [i, name, ty, off]) # xs))))))"

definition elf_print_sections :: "view \<Rightarrow> u64 \<Rightarrow> u64 \<Rightarrow> (string \<times> u64 list) list res" where
  "elf_print_sections v header sz =
     res_bind (e_shoff v header) (\<lambda>off.
     res_bind (e_shnum v header) (\<lambda>num.
       let sections = header + off; section_last = section_at sections num in
       if section_last > header + sz \<or> section_last < sections then Ret [(''Section out of bounds'', [])]
       else
         res_bind (e_shstrndx v header) (\<lambda>ndx.
         res_bind (sh_offset v (section_at sections ndx)) (\<lambda>ofs.
           let strtab = header + ofs in
           res_bind (print_sections_loop v sections strtab 0 (unat num)) (\<lambda>xs.
           Ret ((if strtab \<ge> header + sz then [(''Strtab out of bounds'', [])] else []) @ xs))))))"

definition elf_get_section_index :: "view \<Rightarrow> u64 \<Rightarrow> u64 \<Rightarrow> u64 \<Rightarrow> u64 res" where
  "elf_get_section_index v header sz index =
     res_bind (e_shoff v header) (\<lambda>off.
     res_bind (e_shnum v header) (\<lambda>num.
       let sections = header + off in
       if section_at sections num > header + sz then Ret 0
       else if section_at sections index < header + sz then Ret (section_at sections index)
       else Ret 0))"

text \<open>The section and its size, or nothing for a null pointer.\<close>

fun get_section_loop :: "view \<Rightarrow> u64 \<Rightarrow> u64 \<Rightarrow> u64 \<Rightarrow> u64 \<Rightarrow> string \<Rightarrow> u64 \<Rightarrow> nat \<Rightarrow> (u64 \<times> u64) option res" where
  "get_section_loop v start sz sections strtab name i 0 = Ret None"
| "get_section_loop v start sz sections strtab name i (Suc n) =
     res_bind (sh_name v (section_at sections i)) (\<lambda>off.
       let section_name = strtab + off in
       if section_name \<ge> start + sz then get_section_loop v start sz sections strtab name (i + 1) n
       else
         res_bind (differs v section_name name) (\<lambda>other.
         if other then get_section_loop v start sz sections strtab name (i + 1) n
         else
           res_bind (sh_offset v (section_at sections i)) (\<lambda>ofs.
             let section = start + ofs in
             if section > start + sz then Ret None
             else res_bind (sh_size v (section_at sections i)) (\<lambda>n. Ret (Some (section, n))))))"

definition elf_get_section :: "view \<Rightarrow> u64 \<Rightarrow> u64 \<Rightarrow> string \<Rightarrow> (u64 \<times> u64) option res" where
  "elf_get_section v header sz name =
     res_bind (e_shoff v header) (\<lambda>off.
     res_bind (e_shnum v header) (\<lambda>num.
       let sections = header + off in
       if section_at sections num > header + sz then Ret None
       else
         res_bind (e_shstrndx v header) (\<lambda>ndx.
         res_bind (sh_offset v (section_at sections ndx)) (\<lambda>ofs.
           let strtab = header + ofs in
           if strtab \<ge> header + sz then Ret None
           else get_section_loop v header sz sections strtab name 0 (unat num)))))"

fun soname_loop :: "view \<Rightarrow> u64 \<Rightarrow> u64 \<Rightarrow> u64 \<Rightarrow> u64 \<Rightarrow> nat \<Rightarrow> u64 res" where
  "soname_loop v dynamic dynstrtab dynstrtab_size i 0 = Ret 0"
| "soname_loop v dynamic dynstrtab dynstrtab_size i (Suc n) =
     res_bind (d_tag v (dyn_at dynamic i)) (\<lambda>tag.
     if tag = DT_SONAME then
       res_bind (d_val v (dyn_at dynamic i)) (\<lambda>x.
         let soname = dynstrtab + x in
         if soname > dynstrtab + dynstrtab_size then Ret 0 else Ret soname)
     else soname_loop v dynamic dynstrtab dynstrtab_size (i + 1) n)"

definition elf_get_shared_object_name :: "view \<Rightarrow> u64 \<Rightarrow> u64 \<Rightarrow> u64 res" where
  "elf_get_shared_object_name v header sz =
     res_bind (elf_verify v header sz) (\<lambda>good.
     if \<not> good then Ret 0
     else
       res_bind (elf_verify_shared_object v header) (\<lambda>so.
       if so then Ret 0
       else
         res_bind (elf_get_section v header sz ''.dynamic'') (\<lambda>d.
         case d of None \<Rightarrow> Ret 0
         | Some (dynamic, dynamic_size) \<Rightarrow>
             if dynamic + dynamic_size > header + sz then Ret 0
             else
               res_bind (elf_get_section v header sz ''.dynstr'') (\<lambda>t.
               case t of None \<Rightarrow> Ret 0
               | Some (dynstrtab, dynstrtab_size) \<Rightarrow>
                   if dynstrtab + dynstrtab_size > header + sz then Ret 0
                   else soname_loop v dynamic dynstrtab dynstrtab_size 0 (unat (dynamic_size div sizeof_elf_dyn))))))"

subsection \<open>The base of the loaded part\<close>

definition ELF_BAD_BASE_ADDRESS :: u64 where "ELF_BAD_BASE_ADDRESS = NOT 0"

fun base_loop :: "view \<Rightarrow> u64 \<Rightarrow> u64 \<Rightarrow> u64 \<Rightarrow> nat \<Rightarrow> u64 res" where
  "base_loop v sections base i 0 = Ret base"
| "base_loop v sections base i (Suc n) =
     res_bind (sh_type v (section_at sections i)) (\<lambda>ty.
     if ty = SHT_NULL then base_loop v sections base (i + 1) n
     else
       res_bind (sh_offset v (section_at sections i)) (\<lambda>ofs.
       base_loop v sections (if ofs < base then ofs else base) (i + 1) n))"

text \<open>The product of the two 16-bit numbers is an \<open>int\<close>.\<close>

definition elf_get_base_address :: "view \<Rightarrow> u64 \<Rightarrow> u64 \<Rightarrow> u64 res" where
  "elf_get_base_address v module_start module_size =
     res_bind (e_shoff v module_start) (\<lambda>off.
     res_bind (e_shentsize v module_start) (\<lambda>entsize.
     res_bind (e_shnum v module_start) (\<lambda>num.
       let sections = module_start + off in
       if sections + scast (ucast entsize * ucast num :: u32) > module_start + module_size then Ret 0
       else
         res_bind (base_loop v sections ELF_BAD_BASE_ADDRESS 0 (unat num)) (\<lambda>base.
         if base = ELF_BAD_BASE_ADDRESS then Ret 0 else Ret (module_start + base)))))"

subsection \<open>Relocation\<close>

text \<open>The functions of the table of symbols read the names in the memory as it is at the call.\<close>

definition symbols_now :: "mem \<Rightarrow> symbol_table \<Rightarrow> symbol_table" where
  "symbols_now m = map_option (\<lambda>(p, ht). (p, ht\<lparr>ht_hash := hash_str m, ht_comp := hash_str_comp m\<rparr>))"

text \<open>One relocation: a status, or the patched file. The bound on the name of an undefined symbol is
  computed in the table of symbols.\<close>

definition relocate_symbol ::
    "symbol_table \<Rightarrow> u64 \<Rightarrow> u64 \<Rightarrow> u64 \<Rightarrow> u64 \<Rightarrow> u64 \<Rightarrow> u64 \<Rightarrow> u64 \<Rightarrow> view \<Rightarrow> (status \<times> view) res" where
  "relocate_symbol tbl module_start module_size dynstr dynsym base rela r_type v =
     res_bind (r_info v rela) (\<lambda>info.
       let symbol = symbol_at dynsym (ELF64_R_SYM info) in
       if symbol + sizeof_elf_symbol > module_start + module_size then Ret (Error_Invalid, v)
       else
         res_bind (r_offset v rela) (\<lambda>off.
         let pointer = base + off in
         res_bind (st_index v symbol) (\<lambda>index.
         if index = SHN_UNDEF then
           res_bind (st_name v symbol) (\<lambda>name.
           if symbol_at dynsym name > module_start + module_size then Ret (Error_Invalid, v)
           else
             res_bind (symbol_get (symbols_now (v_mem v) tbl) (dynstr + name)) (\<lambda>val.
             if val = 0 then Ret (Error_Invalid, v)
             else res_bind (wr64 v pointer val) (\<lambda>v1. Ret (Ok, v1))))
         else
           res_bind (st_value v symbol) (\<lambda>sval.
           if r_type = R_X86_64_64 then
             res_bind (r_addend v rela) (\<lambda>addend.
             res_bind (wr64 v pointer (base + sval + addend)) (\<lambda>v1. Ret (Ok, v1)))
           else res_bind (wr64 v pointer (base + sval)) (\<lambda>v1. Ret (Ok, v1))))))"

definition relocate_one ::
    "symbol_table \<Rightarrow> u64 \<Rightarrow> u64 \<Rightarrow> u64 \<Rightarrow> u64 \<Rightarrow> u64 \<Rightarrow> u64 \<Rightarrow> view \<Rightarrow> (status \<times> view) res" where
  "relocate_one tbl module_start module_size dynstr dynsym base rela v =
     res_bind (r_info v rela) (\<lambda>info.
       let r_type = ELF64_R_TYPE info in
       if r_type = R_X86_64_RELATIVE then
         res_bind (r_offset v rela) (\<lambda>off.
         res_bind (r_addend v rela) (\<lambda>addend.
         res_bind (wr64 v (module_start + off) (base + addend)) (\<lambda>v1. Ret (Ok, v1))))
       else if r_type = R_X86_64_JUMP_SLOT \<or> r_type = R_X86_64_GLOB_DAT \<or> r_type = R_X86_64_64 then
         relocate_symbol tbl module_start module_size dynstr dynsym base rela r_type v
       else Ret (Error_Invalid, v))"

fun relocate_loop ::
    "symbol_table \<Rightarrow> u64 \<Rightarrow> u64 \<Rightarrow> u64 \<Rightarrow> u64 \<Rightarrow> u64 \<Rightarrow> u64 \<Rightarrow> nat \<Rightarrow> view \<Rightarrow> (status \<times> view) res" where
  "relocate_loop tbl module_start module_size dynstr dynsym base rela 0 v = Ret (Ok, v)"
| "relocate_loop tbl module_start module_size dynstr dynsym base rela (Suc n) v =
     res_bind (relocate_one tbl module_start module_size dynstr dynsym base rela v) (\<lambda>(st, v1).
     if st \<noteq> Ok then Ret (st, v1)
     else relocate_loop tbl module_start module_size dynstr dynsym base (rela + sizeof_elf_rela) n v1)"

definition elf_relocate :: "symbol_table \<Rightarrow> u64 \<Rightarrow> u64 \<Rightarrow> view \<Rightarrow> (status \<times> view) res" where
  "elf_relocate tbl module_start module_size v =
     res_bind (elf_get_section v module_start module_size ''.dynstr'') (\<lambda>ds.
     case ds of None \<Rightarrow> Ret (Error_Invalid, v) | Some (dynstr, _) \<Rightarrow>
     res_bind (elf_get_section v module_start module_size ''.rela.dyn'') (\<lambda>ra.
     case ra of None \<Rightarrow> Ret (Error_Invalid, v) | Some _ \<Rightarrow>
     res_bind (elf_get_section v module_start module_size ''.dynsym'') (\<lambda>dy.
     case dy of None \<Rightarrow> Ret (Error_Invalid, v) | Some (dynsym, _) \<Rightarrow>
     res_bind (elf_get_section v module_start module_size ''.rela.dyn'') (\<lambda>rb.
     case rb of None \<Rightarrow> Ret (Error_Invalid, v) | Some (rela, rela_size) \<Rightarrow>
     res_bind (elf_get_base_address v module_start module_size) (\<lambda>base.
     if base = 0 then Ret (Error_Invalid, v)
     else relocate_loop tbl module_start module_size dynstr dynsym base rela
            (unat (rela_size div sizeof_elf_rela)) v)))))"

subsection \<open>Running the functions of a module\<close>

text \<open>The memory of the kernel, seen through the area of a file (its first byte and its length). A
  call of a function of the module is the argument \<open>call\<close>.\<close>

type_synonym area = "u64 \<times> u64"

definition view_of :: "area \<Rightarrow> ('a) kheap_scheme \<Rightarrow> view" where
  "view_of ar s = \<lparr>v_mem = memory s, v_start = fst ar, v_len = snd ar\<rparr>"

type_synonym 's call_f = "u64 \<Rightarrow> 's \<Rightarrow> (status \<times> 's) res"

text \<open>The array and, once found, its size.\<close>

fun find_array :: "view \<Rightarrow> u64 \<Rightarrow> u64 \<Rightarrow> u64 \<Rightarrow> u64 \<Rightarrow> u64 \<Rightarrow> u64 option \<Rightarrow> u64 \<Rightarrow> nat \<Rightarrow> (u64 \<times> u64 option) res" where
  "find_array v dynamic base dt_array dt_array_size funcs funcs_size i 0 = Ret (funcs, funcs_size)"
| "find_array v dynamic base dt_array dt_array_size funcs funcs_size i (Suc n) =
     res_bind (d_tag v (dyn_at dynamic i)) (\<lambda>tag.
     res_bind
       (if tag = dt_array then res_bind (d_val v (dyn_at dynamic i)) (\<lambda>x. Ret (base + x, funcs_size))
        else if tag = dt_array_size then res_bind (d_val v (dyn_at dynamic i)) (\<lambda>x. Ret (funcs, Some x))
        else Ret (funcs, funcs_size)) (\<lambda>(f, z).
     if f \<noteq> 0 \<and> z \<noteq> None then Ret (f, z)
     else find_array v dynamic base dt_array dt_array_size f z (i + 1) n))"

fun call_array :: "(('a) kheap_scheme) call_f \<Rightarrow> area \<Rightarrow> u64 \<Rightarrow> u64 \<Rightarrow> nat \<Rightarrow> ('a) kheap_scheme
      \<Rightarrow> (status \<times> ('a) kheap_scheme) res" where
  "call_array call ar funcs i 0 s = Ret (Ok, s)"
| "call_array call ar funcs i (Suc n) s =
     res_bind (rd 8 (view_of ar s) (funcs + i * 8)) (\<lambda>f.
     res_bind (call f s) (\<lambda>(st, s1).
     if st \<noteq> Ok then Ret (st, s1) else call_array call ar funcs (i + 1) n s1))"

definition elf_run_init_fini_helper ::
    "(('a) kheap_scheme) call_f \<Rightarrow> area \<Rightarrow> u64 \<Rightarrow> u64 \<Rightarrow> u64 \<Rightarrow> u64 \<Rightarrow> ('a) kheap_scheme
      \<Rightarrow> (status \<times> ('a) kheap_scheme) res" where
  "elf_run_init_fini_helper call ar module_start module_size dt_array dt_array_size s =
     (let v = view_of ar s in
      res_bind (elf_get_section v module_start module_size ''.dynamic'') (\<lambda>d.
      case d of None \<Rightarrow> Ret (Error_Invalid, s)
      | Some (dynamic, dynamic_size) \<Rightarrow>
          res_bind (elf_get_base_address v module_start module_size) (\<lambda>base.
          if base = 0 then Ret (Error_Invalid, s)
          else
            res_bind (find_array v dynamic base dt_array dt_array_size 0 None 0
                (unat (dynamic_size div sizeof_elf_dyn))) (\<lambda>(funcs, z).
            case z of None \<Rightarrow> Ret (Ok, s)
            | Some funcs_size \<Rightarrow>
                if funcs = 0 then Ret (Ok, s)
                else if funcs + funcs_size > module_start + module_size then Ret (Error_Invalid, s)
                else call_array call ar funcs 0 (unat (funcs_size div 8)) s))))"

definition elf_run_fini ::
    "(('a) kheap_scheme) call_f \<Rightarrow> area \<Rightarrow> u64 \<Rightarrow> u64 \<Rightarrow> ('a) kheap_scheme \<Rightarrow> (status \<times> ('a) kheap_scheme) res" where
  "elf_run_fini call ar module_start module_size s =
     elf_run_init_fini_helper call ar module_start module_size DT_FINI_ARRAY DT_FINI_ARRAYSZ s"

definition elf_run_init ::
    "(('a) kheap_scheme) call_f \<Rightarrow> area \<Rightarrow> u64 \<Rightarrow> u64 \<Rightarrow> ('a) kheap_scheme \<Rightarrow> (status \<times> ('a) kheap_scheme) res" where
  "elf_run_init call ar module_start module_size s =
     res_bind (elf_run_init_fini_helper call ar module_start module_size DT_INIT_ARRAY DT_INIT_ARRAYSZ s) (\<lambda>(st, s1).
     if st \<noteq> Ok then res_bind (elf_run_fini call ar module_start module_size s1) (\<lambda>(_, s2). Ret (st, s2))
     else Ret (st, s1))"

subsection \<open>Addresses of symbols\<close>

fun symbol_address_loop :: "view \<Rightarrow> u64 \<Rightarrow> u64 \<Rightarrow> string \<Rightarrow> u64 \<Rightarrow> u64 \<Rightarrow> u64 \<Rightarrow> u64 \<Rightarrow> nat \<Rightarrow> u64 res" where
  "symbol_address_loop v elf sz name strtab symtab base i 0 = Ret 0"
| "symbol_address_loop v elf sz name strtab symtab base i (Suc n) =
     (let p = symbol_at symtab i in
      res_bind (st_info v p) (\<lambda>info.
      if ELF64_R_TYPE info = STT_FILE then symbol_address_loop v elf sz name strtab symtab base (i + 1) n
      else
        res_bind (st_name v p) (\<lambda>off.
        let symbol_name = strtab + off in
        if symbol_name > elf + sz then Ret 0
        else
          res_bind (st_index v p) (\<lambda>index.
          res_bind (elf_get_section_index v elf sz index) (\<lambda>section.
          if section = 0 then Ret 0
          else
            res_bind (differs v symbol_name name) (\<lambda>other.
            if other then symbol_address_loop v elf sz name strtab symtab base (i + 1) n
            else
              res_bind (st_value v p) (\<lambda>val.
              if base + val > elf + sz then Ret 0 else Ret (base + val))))))))"

definition elf_get_symbol_address :: "view \<Rightarrow> u64 \<Rightarrow> u64 \<Rightarrow> string \<Rightarrow> u64 res" where
  "elf_get_symbol_address v elf sz name =
     res_bind (elf_get_section v elf sz ''.strtab'') (\<lambda>t.
     case t of None \<Rightarrow> Ret 0 | Some (strtab, _) \<Rightarrow>
     res_bind (elf_get_section v elf sz ''.symtab'') (\<lambda>y.
     case y of None \<Rightarrow> Ret 0 | Some (symtab, symtab_size) \<Rightarrow>
     res_bind (elf_get_base_address v elf sz) (\<lambda>base.
     if base = 0 then Ret 0
     else symbol_address_loop v elf sz name strtab symtab base 0 (unat (symtab_size div sizeof_elf_symbol)))))"

subsection \<open>Reading inside the area\<close>

definition num_at :: "nat \<Rightarrow> view \<Rightarrow> u64 \<Rightarrow> u64" where
  "num_at n v a = word_of_bytes (map (\<lambda>i. v_mem v (a + of_nat i)) [0..<n])"

lemma rd_eq: "rd n v a = (if covers v a n then Ret (num_at n v a) else Fault)"
  by (simp add: rd_def num_at_def)

lemma rd_inside: "covers v a n \<Longrightarrow> rd n v a = Ret (num_at n v a)" by (simp add: rd_eq)

lemma num_at_1: "num_at 1 v a = ucast (v_mem v a)" by (simp add: num_at_def)

text \<open>Whether a constant stands in memory.\<close>

fun text_at :: "view \<Rightarrow> u64 \<Rightarrow> string \<Rightarrow> bool" where
  "text_at v a [] = True"
| "text_at v a (c # cs) = (v_mem v a = of_char c \<and> text_at v (a + 1) cs)"

lemma byte_char: "(ucast (b :: u8) :: u64) = of_char c \<longleftrightarrow> b = of_char c"
proof -
  define n :: nat where "n = of_char c"
  have n: "n < 256" by (simp add: n_def)
  have "unat (of_nat n :: u8) = n" "unat (of_nat n :: u64) = n" using n by (intro of_nat_inverse [OF refl]; simp)+
  moreover have "(of_char c :: u8) = of_nat n" "(of_char c :: u64) = of_nat n" unfolding n_def by (simp_all only: of_nat_of_char)
  moreover have "unat b < 2 ^ 64" using unsigned_less [of b, where ?'a = nat] by simp
  then have "unat (ucast b :: u64) = unat b" by (simp add: unsigned_ucast_eq take_bit_nat_eq_self_iff)
  ultimately show ?thesis by (simp add: word_unat_eq_iff)
qed

lemma covers_suffix:
  "covers v a (Suc n) \<Longrightarrow> covers v a 1 \<and> (n = 0 \<or> covers v (a + 1) n)"
proof -
  assume c: "covers v a (Suc n)"
  then have "unat (a - v_start v) + 1 < 2 ^ 64 \<or> n = 0" using unsigned_less [of "v_len v", where ?'a = nat] by (auto simp: covers_def)
  then have "n = 0 \<or> unat (a + 1 - v_start v) = Suc (unat (a - v_start v))"
  proof
    assume lt: "unat (a - v_start v) + 1 < 2 ^ 64"
    have e: "a + 1 - v_start v = (a - v_start v) + 1" by simp
    have "unat (a - v_start v + 1) = unat (a - v_start v) + unat (1 :: u64)"
      by (rule unat_add_lem [THEN iffD1]) (use lt in simp)
    then show ?thesis unfolding e by simp
  qed simp
  then show ?thesis using c by (auto simp: covers_def)
qed

lemma differs_inside: "covers v a (length cs) \<Longrightarrow> differs v a cs = Ret (\<not> text_at v a cs)"
proof (induction v a cs rule: differs.induct)
  case (2 v a c cs)
  then have "covers v a 1" "cs = [] \<or> covers v (a + 1) (length cs)" using covers_suffix [of v a "length cs"] by auto
  then show ?case using 2 by (auto simp: rd_inside num_at_1 [simplified] byte_char)
qed simp

text \<open>A comparison that reaches the end of the area before a difference reads beyond it.\<close>

lemma differs_end:
  "unat (a - v_start v) \<le> unat (v_len v) \<Longrightarrow>
   differs v a cs =
     (if unat (v_len v) - unat (a - v_start v) < length cs \<and> text_at v a (take (unat (v_len v) - unat (a - v_start v)) cs)
      then Fault else Ret (\<not> text_at v a cs))"
proof (induction v a cs rule: differs.induct)
  case (2 v a c cs)
  show ?case
  proof (cases "unat (a - v_start v) = unat (v_len v)")
    case True
    then show ?thesis by (simp add: rd_def covers_def)
  next
    case False
    with "2.prems" have lt: "unat (a - v_start v) < unat (v_len v)" by simp
    have "unat (a - v_start v) + 1 < 2 ^ 64" using lt unsigned_less [of "v_len v", where ?'a = nat] by simp
    then have "unat (a - v_start v + 1) = unat (a - v_start v) + unat (1 :: u64)"
      by (intro unat_add_lem [THEN iffD1]) simp
    then have step: "unat (a + 1 - v_start v) = Suc (unat (a - v_start v))" by (simp add: algebra_simps)
    have byte: "rd 1 v a = Ret (ucast (v_mem v a))" using lt by (simp add: rd_inside covers_def num_at_1 [simplified])
    obtain k where k: "unat (v_len v) - unat (a - v_start v) = Suc k" "unat (v_len v) - unat (a + 1 - v_start v) = k"
      using lt step by (metis Suc_diff_Suc)
    have "unat (a + 1 - v_start v) \<le> unat (v_len v)" using lt step by simp
    from "2.IH" [OF byte _ this] show ?thesis unfolding k differs.simps byte by (auto simp: byte_char)
  qed
qed simp

lemma covers_off:
  assumes "a = v_start v" "unat o1 + n \<le> unat (v_len v)"
  shows "covers v (a + o1) n"
  using assms by (simp add: covers_def)

subsection \<open>The header and the sections of a sound file\<close>

definition shoff_at :: "view \<Rightarrow> u64" where "shoff_at v = num_at 8 v (v_start v + 40)"
definition shnum_at :: "view \<Rightarrow> u64" where "shnum_at v = num_at 2 v (v_start v + 60)"
definition shstrndx_at :: "view \<Rightarrow> u64" where "shstrndx_at v = num_at 2 v (v_start v + 62)"

definition header_of :: "view \<Rightarrow> nat \<Rightarrow> u64" where
  "header_of v i = section_at (v_start v + shoff_at v) (of_nat i)"

definition strtab_of :: "view \<Rightarrow> u64" where
  "strtab_of v = num_at 8 v (header_of v (unat (shstrndx_at v)) + 24)"

text \<open>The tables of a sound file lie inside of it, and the addresses do not wrap around.\<close>

definition sound_file :: "view \<Rightarrow> u64 \<Rightarrow> bool" where
  "sound_file v sz \<longleftrightarrow> 64 \<le> unat sz \<and> unat sz \<le> unat (v_len v) \<and> unat (v_start v) + unat sz + 2 ^ 32 < 2 ^ 64 \<and>
     unat (shoff_at v) + 64 * unat (shnum_at v) \<le> unat sz \<and> shstrndx_at v < shnum_at v \<and> unat (strtab_of v) < unat sz"

definition name_matches :: "view \<Rightarrow> u64 \<Rightarrow> string \<Rightarrow> nat \<Rightarrow> bool" where
  "name_matches v sz name i \<longleftrightarrow>
     (let p = v_start v + strtab_of v + num_at 4 v (header_of v i) in p < v_start v + sz \<and> text_at v p name)"

text \<open>The bytes from the name of section \<open>i\<close> to the end of the area are a part of the name asked for.\<close>

definition name_overruns :: "view \<Rightarrow> u64 \<Rightarrow> string \<Rightarrow> nat \<Rightarrow> bool" where
  "name_overruns v sz name i \<longleftrightarrow>
     (let p = v_start v + strtab_of v + num_at 4 v (header_of v i); left = unat (v_len v) - unat (p - v_start v)
      in p < v_start v + sz \<and> left < length name \<and> text_at v p (take left name))"

definition section_result :: "view \<Rightarrow> u64 \<Rightarrow> nat option \<Rightarrow> (u64 \<times> u64) option" where
  "section_result v sz r =
     (case r of None \<Rightarrow> None
      | Some i \<Rightarrow>
          (let p = v_start v + num_at 8 v (header_of v i + 24)
           in if p > v_start v + sz then None else Some (p, num_at 8 v (header_of v i + 32))))"

lemma header_inside:
  assumes s: "sound_file v sz" and i: "i < unat (shnum_at v)" and k: "k + n \<le> 64"
  shows "covers v (header_of v i + of_nat k) n" "unat (header_of v i - v_start v) = unat (shoff_at v) + 64 * i"
proof -
  have b: "unat (shoff_at v) + 64 * i + 64 \<le> unat sz" "unat sz \<le> unat (v_len v)" using s i by (auto simp: sound_file_def)
  have lt: "unat (shoff_at v) + 64 * i + 64 < 2 ^ 64" using b unsigned_less [of sz, where ?'a = nat] by simp
  have e: "header_of v i + of_nat j - v_start v = of_nat (unat (shoff_at v) + 64 * i + j)" for j
    by (simp add: header_of_def section_at_def sizeof_elf_section_header_def)
  have u: "unat (of_nat (unat (shoff_at v) + 64 * i + j) :: u64) = unat (shoff_at v) + 64 * i + j" if "j \<le> 64" for j
    using lt that by (intro of_nat_inverse [OF refl]) simp
  show "unat (header_of v i - v_start v) = unat (shoff_at v) + 64 * i" using e [of 0] u [of 0] by simp
  show "covers v (header_of v i + of_nat k) n" unfolding covers_def e using u [of k] k b by simp
qed

lemma bit_word_of_bytes: "bit (word_of_bytes bs) n \<Longrightarrow> n < 8 * length bs"
proof (induction bs arbitrary: n)
  case (Cons b bs)
  then have "bit (word_of_bytes bs) (n - 8) \<Longrightarrow> n - 8 < 8 * length bs" by blast
  then show ?case
    using Cons.prems bit_imp_le_length [of b n] by (cases "n < 8") (auto simp: bit_simps less_diff_conv2)
qed simp

lemma num_at_range: "k < 8 \<Longrightarrow> unat (num_at k v a) < 2 ^ (8 * k)"
proof -
  assume "k < 8"
  have "num_at k v a = take_bit (8 * k) (num_at k v a)"
    by (rule bit_eqI) (auto simp: bit_take_bit_iff num_at_def dest: bit_word_of_bytes)
  then have "unat (num_at k v a) = take_bit (8 * k) (unat (num_at k v a))" by (metis unsigned_take_bit_eq)
  then show ?thesis using take_bit_nat_less_exp [of "8 * k" "unat (num_at k v a)"] by simp
qed

lemma name_inside:
  assumes s: "sound_file v sz" and p: "p = v_start v + strtab_of v + num_at 4 v a" "p < v_start v + sz"
  shows "unat (p - v_start v) < unat sz"
proof -
  have o4: "unat (num_at 4 v a) < 2 ^ 32" using num_at_range [of 4 v a] by simp
  have b: "unat (strtab_of v) < unat sz" "unat (v_start v) + unat sz + 2 ^ 32 < 2 ^ 64" using s by (simp_all add: sound_file_def)
  have d: "unat (strtab_of v + num_at 4 v a) = unat (strtab_of v) + unat (num_at 4 v a)"
    by (rule unat_add_lem [THEN iffD1]) (use o4 b in simp)
  have "unat p = unat (v_start v) + (unat (strtab_of v) + unat (num_at 4 v a))"
    unfolding p(1) add.assoc d [symmetric] by (rule unat_add_lem [THEN iffD1]) (use o4 b d in simp)
  moreover have "unat (v_start v + sz) = unat (v_start v) + unat sz"
    by (rule unat_add_lem [THEN iffD1]) (use b in simp)
  ultimately have "unat (strtab_of v) + unat (num_at 4 v a) < unat sz" using p(2) by (simp add: word_less_nat_alt)
  moreover have "p - v_start v = strtab_of v + num_at 4 v a" by (simp add: p(1))
  ultimately show ?thesis using d by simp
qed

lemma section_fields:
  assumes "sound_file v sz" "i < unat (shnum_at v)"
  shows "sh_name v (header_of v i) = Ret (num_at 4 v (header_of v i))"
    "sh_type v (header_of v i) = Ret (num_at 4 v (header_of v i + 4))"
    "sh_offset v (header_of v i) = Ret (num_at 8 v (header_of v i + 24))"
    "sh_size v (header_of v i) = Ret (num_at 8 v (header_of v i + 32))"
  using header_inside(1) [OF assms, of 0 4] header_inside(1) [OF assms, of 4 4] header_inside(1) [OF assms, of 24 8]
    header_inside(1) [OF assms, of 32 8]
  by (simp_all add: elf_layout rd_inside)

text \<open>The first section whose name begins with the one asked for, or runs off the area before it differs.\<close>

definition lookup_section :: "view \<Rightarrow> u64 \<Rightarrow> string \<Rightarrow> nat \<Rightarrow> (u64 \<times> u64) option res" where
  "lookup_section v sz name i =
     (case find (\<lambda>j. name_overruns v sz name j \<or> name_matches v sz name j) [i..<unat (shnum_at v)] of
        None \<Rightarrow> Ret None
      | Some j \<Rightarrow> if name_overruns v sz name j then Fault else Ret (section_result v sz (Some j)))"

lemma section_loop:
  assumes s: "sound_file v sz"
  shows "i + k = unat (shnum_at v) \<Longrightarrow>
    get_section_loop v (v_start v) sz (v_start v + shoff_at v) (v_start v + strtab_of v) name (of_nat i) k
      = lookup_section v sz name i"
proof (induction k arbitrary: i)
  case 0
  then show ?case by (simp add: lookup_section_def)
next
  case (Suc k)
  then have i: "i < unat (shnum_at v)" by simp
  have h: "section_at (v_start v + shoff_at v) (of_nat i) = header_of v i" by (simp add: header_of_def)
  have u: "[i..<unat (shnum_at v)] = i # [Suc i..<unat (shnum_at v)]" using i by (simp add: upt_conv_Cons)
  let ?p = "v_start v + strtab_of v + num_at 4 v (header_of v i)"
  have next_i: "get_section_loop v (v_start v) sz (v_start v + shoff_at v) (v_start v + strtab_of v) name (of_nat i + 1) k
      = lookup_section v sz name (Suc i)"
    using Suc.IH [of "Suc i"] Suc.prems by (simp add: add.commute)
  have "differs v ?p name = (if name_overruns v sz name i then Fault else Ret (\<not> name_matches v sz name i))"
    if "?p < v_start v + sz"
  proof -
    have "unat (?p - v_start v) \<le> unat (v_len v)"
      using name_inside [OF s refl that] s by (simp add: sound_file_def)
    from differs_end [OF this] that show ?thesis by (simp add: name_overruns_def name_matches_def Let_def)
  qed
  moreover have "\<not> name_overruns v sz name i" "\<not> name_matches v sz name i" if "\<not> ?p < v_start v + sz"
    using that by (simp_all add: name_overruns_def name_matches_def Let_def)
  moreover have "lookup_section v sz name i =
      (if name_overruns v sz name i then Fault
       else if name_matches v sz name i then Ret (section_result v sz (Some i)) else lookup_section v sz name (Suc i))"
    by (simp add: lookup_section_def u)
  ultimately show ?case
    using next_i by (auto simp: h section_fields [OF s i] Let_def section_result_def not_less)
qed

lemma get_section_eq:
  assumes s: "sound_file v sz"
  shows "elf_get_section v (v_start v) sz name = lookup_section v sz name 0"
proof -
  let ?a = "v_start v"
  have b: "unat (shoff_at v) + 64 * unat (shnum_at v) \<le> unat sz" "unat ?a + unat sz + 2 ^ 32 < 2 ^ 64"
    "unat (strtab_of v) < unat sz" "unat (shstrndx_at v) < unat (shnum_at v)" "64 \<le> unat sz" "unat sz \<le> unat (v_len v)"
    using s by (simp_all add: sound_file_def word_less_nat_alt)
  have f: "e_shoff v ?a = Ret (shoff_at v)" "e_shnum v ?a = Ret (shnum_at v)" "e_shstrndx v ?a = Ret (shstrndx_at v)"
    using covers_off [of ?a v 40 8] covers_off [of ?a v 60 2] covers_off [of ?a v 62 2] b(5,6)
    by (simp_all add: elf_layout rd_inside shoff_at_def shnum_at_def shstrndx_at_def)
  have last: "section_at (?a + shoff_at v) (shnum_at v) = ?a + of_nat (unat (shoff_at v) + 64 * unat (shnum_at v))"
    by (simp add: section_at_def sizeof_elf_section_header_def)
  have add: "unat (?a + of_nat k) = unat ?a + k" if "k \<le> unat sz" for k
  proof -
    have "unat (of_nat k :: u64) = k" using that unsigned_less [of sz, where ?'a = nat] by (intro of_nat_inverse [OF refl]) simp
    then show ?thesis using b(2) that by (subst unat_add_lem [THEN iffD1]) simp_all
  qed
  have "\<not> section_at (?a + shoff_at v) (shnum_at v) > ?a + sz"
    using add [OF b(1)] add [of "unat sz"] b(1) unfolding last by (simp add: word_less_nat_alt)
  moreover have "\<not> ?a + strtab_of v \<ge> ?a + sz"
    using add [of "unat (strtab_of v)"] add [of "unat sz"] b(3) by (simp add: word_le_nat_alt)
  moreover have "section_at (?a + shoff_at v) (shstrndx_at v) = header_of v (unat (shstrndx_at v))" by (simp add: header_of_def)
  ultimately show ?thesis
    using section_loop [OF s, of 0 "unat (shnum_at v)"] section_fields(3) [OF s b(4)]
    by (simp add: elf_get_section_def f strtab_of_def [symmetric] Let_def)
qed

text \<open>When the section headers lie below the file, because the sum of its address and their offset
  wraps around, the bound on their end holds.\<close>

lemma unat_minus_of_nat: "0 < d \<Longrightarrow> d < 2 ^ 64 \<Longrightarrow> unat (- of_nat d :: u64) = 2 ^ 64 - d"
  using unat_sub_if_size [of 0 "of_nat d :: u64"] of_nat_inverse [OF refl, of d, where 'a = 64] by (simp add: word_size)

lemma below_file:
  fixes a k :: u64
  assumes k: "unat k \<le> unat a" "j < unat k"
  shows "unat (a - k + of_nat j) = unat a - (unat k - j)" "a - k + of_nat j - a = - of_nat (unat k - j)"
proof -
  have w: "of_nat (unat k - j) = k - (of_nat j :: u64)" using k(2) by (simp add: of_nat_diff)
  have "a - k + of_nat j = a - of_nat (unat k - j)" unfolding w by simp
  moreover have "unat (of_nat (unat k - j) :: u64) = unat k - j"
    using unsigned_less [of k, where ?'a = nat] by (intro of_nat_inverse [OF refl]) simp
  ultimately show "unat (a - k + of_nat j) = unat a - (unat k - j)"
    using k unat_sub [of "of_nat (unat k - j)" a] by (simp only: word_le_nat_alt)
  show "a - k + of_nat j - a = - of_nat (unat k - j)" unfolding w by simp
qed

lemma header_fields:
  assumes "64 \<le> unat (v_len v)" "a = v_start v"
  shows "e_shoff v a = Ret (shoff_at v)" "e_shnum v a = Ret (shnum_at v)" "e_shstrndx v a = Ret (shstrndx_at v)"
    "e_version v a = Ret (num_at 4 v (a + 20))" "e_machine v a = Ret (num_at 2 v (a + 18))" "e_ident v a 4 = Ret (ucast (v_mem v (a + 4)))"
  using covers_off [of a v 40 8] covers_off [of a v 60 2] covers_off [of a v 62 2] covers_off [of a v 20 4]
    covers_off [of a v 18 2] covers_off [of a v 4 1] assms
  by (simp_all add: elf_layout rd_inside shoff_at_def shnum_at_def shstrndx_at_def num_at_1 [simplified])

lemma get_section_wraps:
  assumes sz: "64 < sz" "sz \<le> v_len v" "unat (v_start v) + unat (v_len v) < 2 ^ 64"
    and k: "shoff_at v = - k" "64 * unat (shnum_at v) + 64 \<le> unat k" "unat k \<le> unat (v_start v)"
    and ndx: "shstrndx_at v \<le> shnum_at v"
  shows "elf_get_section v (v_start v) sz name = Fault"
proof -
  let ?a = "v_start v" and ?n = "unat (shnum_at v)" and ?x = "unat (shstrndx_at v)"
  have x: "?x \<le> ?n" using ndx by (simp add: word_le_nat_alt)
  have l: "64 \<le> unat (v_len v)" using sz(1,2) by (simp add: word_less_nat_alt word_le_nat_alt)
  have at: "section_at (?a + shoff_at v) i = ?a - k + of_nat (64 * unat i)" for i
    by (simp add: section_at_def sizeof_elf_section_header_def k(1))
  have "unat (section_at (?a + shoff_at v) (shnum_at v)) < unat ?a"
    unfolding at using below_file(1) [OF k(3), of "64 * ?n"] k(2,3) by simp
  moreover have "unat (?a + sz) = unat ?a + unat sz"
    by (rule unat_add_lem [THEN iffD1]) (use sz in \<open>simp add: word_le_nat_alt\<close>)
  ultimately have ok: "\<not> section_at (?a + shoff_at v) (shnum_at v) > ?a + sz" by (simp add: word_less_nat_alt)
  have e: "section_at (?a + shoff_at v) (shstrndx_at v) + 24 - ?a = - of_nat (unat k - (64 * ?x + 24))"
    unfolding at using below_file(2) [OF k(3), of "64 * ?x + 24"] k(2) x by (simp add: algebra_simps)
  have "unat (- of_nat (unat k - (64 * ?x + 24)) :: u64) = 2 ^ 64 - (unat k - (64 * ?x + 24))"
    using k(2) x unsigned_less [of k, where ?'a = nat] by (intro unat_minus_of_nat) simp_all
  then have "\<not> covers v (section_at (?a + shoff_at v) (shstrndx_at v) + 24) 8"
    unfolding covers_def e using k(3) sz(3) by simp
  then have "sh_offset v (section_at (?a + shoff_at v) (shstrndx_at v)) = Fault" by (simp add: elf_layout rd_eq)
  then show ?thesis using ok by (simp add: elf_get_section_def header_fields [OF l refl])
qed

lemma elf_verify_eq:
  assumes "sz \<le> v_len v" "a = v_start v"
  shows "elf_verify v a sz = Ret (64 < sz \<and> text_at v a ELFMAG \<and> num_at 4 v (a + 20) = 1 \<and> num_at 2 v (a + 18) = 62 \<and>
    v_mem v (a + 4) = 2 \<and> shstrndx_at v \<le> shnum_at v)"
proof (cases "sz \<le> 64")
  case False
  then have l: "64 \<le> unat (v_len v)" "64 < sz" using assms(1) by (auto simp: word_le_nat_alt word_less_nat_alt)
  have "covers v a (length ELFMAG)" using l(1) assms(2) by (simp add: covers_def ELFMAG_def)
  then have "differs v a ELFMAG = Ret (\<not> text_at v a ELFMAG)" by (rule differs_inside)
  moreover have "(ucast b :: u64) = 2 \<longleftrightarrow> b = 2" for b :: u8 using byte_char [of b "CHR 0x02"] by simp
  ultimately show ?thesis using l(2)
    by (simp add: elf_verify_def elf_verify_x86_64_compatible_def header_fields [OF l(1) assms(2)] sizeof_elf64_header_def
      EV_CURRENT_def EM_X86_64_def ELFCLASS64_def EI_CLASS_def not_le not_less leD)
qed (simp add: elf_verify_def sizeof_elf64_header_def leD)

subsection \<open>Properties\<close>

text \<open>\<open>elf_verify\<close> reads nothing outside of the file and returns whether it is longer than a header
  and starts with the magic number, has the current version, is for the 64-bit x86 and has an index of
  the table of names that is at most the number of sections.\<close>

theorem elf_verify_correct:
  assumes "sz \<le> v_len v"
  shows "elf_verify v (v_start v) sz =
    Ret (64 < sz \<and> text_at v (v_start v) ELFMAG \<and> num_at 4 v (v_start v + 20) = 1 \<and> num_at 2 v (v_start v + 18) = 62 \<and>
      v_mem v (v_start v + 4) = 2 \<and> num_at 2 v (v_start v + 62) \<le> num_at 2 v (v_start v + 60))"
  using elf_verify_eq [OF assms refl] by (simp add: shstrndx_at_def shnum_at_def)


text \<open>A file that \<open>elf_verify\<close> accepts need not be sound. If the offset of its section headers is the
  negative of some number, up to the address of the file, the bounds hold although the headers lie
  below the file: looking up any section reads outside of the file, before any signature is checked.\<close>

theorem section_headers_below_the_file:
  assumes "elf_verify v (v_start v) sz = Ret True" "sz \<le> v_len v" "unat (v_start v) + unat (v_len v) < 2 ^ 64"
    and "shoff_at v = - k" "64 * unat (shnum_at v) + 64 \<le> unat k" "unat k \<le> unat (v_start v)"
  shows "elf_get_section v (v_start v) sz name = Fault \<and> (e_type v (v_start v) \<noteq> Ret ET_REL \<longrightarrow> elf_get_shared_object_name v (v_start v) sz = Fault)"
proof -
  have a: "64 < sz" "shstrndx_at v \<le> shnum_at v" using elf_verify_eq [OF assms(2) refl] assms(1) by simp_all
  have f: "elf_get_section v (v_start v) sz name = Fault" for name
    using get_section_wraps [OF a(1) assms(2-6) a(2)] .
  moreover have "covers v (v_start v + 16) 2"
    using covers_off [of "v_start v" v 16 2] a(1) assms(2) by (simp add: word_le_nat_alt word_less_nat_alt)
  then have "e_type v (v_start v) = Ret (num_at 2 v (v_start v + 16))" by (simp add: elf_layout rd_inside)
  ultimately show ?thesis using assms(1) by (auto simp: elf_get_shared_object_name_def elf_verify_shared_object_def)
qed

text \<open>A file of 256 bytes with one section, the table of names itself.\<close>

definition demo_file :: "u64 \<Rightarrow> view" where
  "demo_file off =
     \<lparr>v_mem = (\<lambda>a. if a < 0xffff800000100000 \<or> 0xffff800000100100 \<le> a then 0
        else ([0x7f, 0x45, 0x4c, 0x46, 2, 1, 1] @ replicate 9 0 @ [3, 0, 62, 0, 1, 0, 0, 0] @ replicate 16 0 @
              map (\<lambda>i. ucast (drop_bit (8 * i) off)) [0..<8] @ replicate 12 0 @ [1, 0, 0, 0] @
              [8, 0, 0, 0, 3, 0, 0, 0] @ replicate 16 0 @ [128, 0, 0, 0, 0, 0, 0, 0, 32, 0, 0, 0, 0, 0, 0, 0] @
              replicate 24 0 @ replicate 8 0 @ [0x2e, 0x73, 0x74, 0x72, 0x74, 0x61, 0x62] @ replicate 113 0)
               ! unat (a - 0xffff800000100000)),
      v_start = 0xffff800000100000, v_len = 0x1000\<rparr>"

lemma demo_file_place: "v_start (demo_file off) = 0xffff800000100000" "v_len (demo_file off) = 0x1000"
  by (simp_all add: demo_file_def)

lemma demo_file_sound: "sound_file (demo_file 64) 256"
proof -
  have "shoff_at (demo_file 64) = 64" "shnum_at (demo_file 64) = 1" "shstrndx_at (demo_file 64) = 0" "strtab_of (demo_file 64) = 128"
    by code_simp+
  then show ?thesis by (simp add: sound_file_def demo_file_place)
qed

theorem elf_verify_correct_witness: "elf_verify (demo_file 64) 0xffff800000100000 256 = Ret True"
proof -
  have "text_at (demo_file 64) 0xffff800000100000 ELFMAG" "num_at 4 (demo_file 64) 0xffff800000100014 = 1"
    "num_at 2 (demo_file 64) 0xffff800000100012 = 62" "v_mem (demo_file 64) 0xffff800000100004 = 2"
    "num_at 2 (demo_file 64) 0xffff80000010003e \<le> num_at 2 (demo_file 64) 0xffff80000010003c" by code_simp+
  then show ?thesis using elf_verify_correct [of 256 "demo_file 64"] by (simp add: demo_file_place)
qed

text \<open>The same file cut off in the middle of the name.\<close>

lemma demo_file_cut: "sound_file ((demo_file 64)\<lparr>v_len := 140\<rparr>) 140"
proof -
  let ?v = "(demo_file 64)\<lparr>v_len := 140\<rparr>"
  have "shoff_at ?v = 64" "shnum_at ?v = 1" "shstrndx_at ?v = 0" "strtab_of ?v = 128" by code_simp+
  then show ?thesis by (simp add: sound_file_def demo_file_place)
qed


theorem section_headers_below_the_file_witness:
  "elf_get_section (demo_file (- 4096)) 0xffff800000100000 256 ''.strtab'' = Fault"
proof -
  let ?v = "demo_file (- 4096)"
  have "elf_verify ?v 0xffff800000100000 256 = Ret True" "shoff_at ?v = - 4096" "shnum_at ?v = 1" by code_simp+
  then show ?thesis using section_headers_below_the_file [of ?v 256 4096 "''.strtab''"] by (simp add: demo_file_place)
qed

end
