(* ===== verification/Modules.thy ===== *)
theory Modules
  imports Elf Ed25519
begin

text \<open>
  \<open>kernel/core/module.c\<close>: loading kernel modules. The boot loader leaves the files of the modules in
  memory; \<open>modules_init\<close> maps each of them, checks its signature, relocates it, enters its symbols into
  the table of the kernel, sets the permissions of its pages and runs its initialisers.

  The state extends the one of the random numbers (and so the heap and the memory) by the table of
  symbols and the list of modules. The key, the tables of multiples of the base point, the
  uninitialised hash state, the contents of the files (\<open>img\<close>) and what the functions of a module do
  (\<open>call\<close>) are arguments.
\<close>

record kmodule =
  mod_name :: u64
  virtual_start :: u64
  mod_size :: u64

definition sizeof_module :: u64 where "sizeof_module = 40"

text \<open>\<open>Module_List\<close> with the addresses of its elements.\<close>

record 'r kmods = "'r krandom" +
  symbol_tbl :: symbol_table
  Module_List :: "(u64 \<times> kmodule) list"
  init_count :: int

definition SIGNATURE_MAGIC_STRING :: string where
  "SIGNATURE_MAGIC_STRING = ''Kernel of Truth truesign 1.0.0'' @ [CHR 0x00]"

subsection \<open>The list\<close>

primrec free_modules :: "(u64 \<times> kmodule) list \<Rightarrow> ('r, 'a) kmods_scheme \<Rightarrow> (('r, 'a) kmods_scheme) res" where
  "free_modules [] s = Ret s"
| "free_modules (x # xs) s =
     res_bind (kfree (fst x) s) (\<lambda>s1. free_modules xs (s1\<lparr>Module_List := xs\<rparr>))"

definition module_list_free :: "('r, 'a) kmods_scheme \<Rightarrow> (('r, 'a) kmods_scheme) res" where
  "module_list_free s = free_modules (Module_List s) s"

definition module_list_offset :: "u64 \<Rightarrow> u64 \<Rightarrow> u64 \<Rightarrow> u64" where
  "module_list_offset first ptr mapped = mapped + (ptr - first)"

subsection \<open>The signature\<close>

definition rd_bytes :: "view \<Rightarrow> u64 \<Rightarrow> u64 \<Rightarrow> u8 list res" where
  "rd_bytes v a n = (if covers v a (unat n) then Ret (map (\<lambda>i. v_mem v (a + of_nat i)) [0..<unat n]) else Fault)"

definition module_verify ::
    "ge_precomp list \<Rightarrow> sha512_state \<Rightarrow> u8 list \<Rightarrow> view \<Rightarrow> u64 \<Rightarrow> u64 \<Rightarrow> status res" where
  "module_verify Bi hs Kernel_Public_Key v module_start module_size =
     (let verify_size = module_size - 64 - of_nat (length SIGNATURE_MAGIC_STRING);
          signature_magic = module_start + verify_size;
          signature = module_start + module_size - 64
      in
      res_bind (differs v signature_magic SIGNATURE_MAGIC_STRING) (\<lambda>bad.
      if bad then Ret Error_Invalid
      else
        res_bind (rd_bytes v signature 64) (\<lambda>sig.
        res_bind (rd_bytes v module_start verify_size) (\<lambda>m.
        if crypto_sign_ed25519_verify_detached Bi hs sig m Kernel_Public_Key \<noteq> 0 then Ret Error_Invalid
        else Ret Ok))))"

subsection \<open>The symbols of a module\<close>

text \<open>The heap as the functions of the table of symbols use it.\<close>

definition assert_ok :: "status \<Rightarrow> unit res" where
  "assert_ok st = kassert (st = Ok)"

fun remove_symbols_loop :: "area \<Rightarrow> u64 \<Rightarrow> u64 \<Rightarrow> u64 \<Rightarrow> nat \<Rightarrow> ('r, 'a) kmods_scheme \<Rightarrow> (('r, 'a) kmods_scheme) res" where
  "remove_symbols_loop ar strtab symtab i 0 s = Ret s"
| "remove_symbols_loop ar strtab symtab i (Suc n) s =
     (let v = view_of ar s; p = symbol_at symtab i in
      res_bind (st_info v p) (\<lambda>info.
      if ELF64_ST_BIND info = STB_GLOBAL then
        res_bind (st_name v p) (\<lambda>name.
        res_bind (symbol_remove kmalloc kfree (symbols_now (memory s) (symbol_tbl s)) (strtab + name) s) (\<lambda>(st, tbl, s1).
        res_bind (assert_ok st) (\<lambda>_.
        remove_symbols_loop ar strtab symtab (i + 1) n (s1\<lparr>symbol_tbl := tbl\<rparr>))))
      else remove_symbols_loop ar strtab symtab (i + 1) n s))"

definition module_remove_symbols :: "area \<Rightarrow> u64 \<Rightarrow> u64 \<Rightarrow> ('r, 'a) kmods_scheme \<Rightarrow> (('r, 'a) kmods_scheme) res" where
  "module_remove_symbols ar elf sz s =
     res_bind (elf_get_section (view_of ar s) elf sz ''.strtab'') (\<lambda>t.
     case t of None \<Rightarrow> Ret s | Some (strtab, _) \<Rightarrow>
     res_bind (elf_get_section (view_of ar s) elf sz ''.symtab'') (\<lambda>y.
     case y of None \<Rightarrow> Ret s | Some (symtab, symtab_size) \<Rightarrow>
     remove_symbols_loop ar strtab symtab 0 (unat (symtab_size div sizeof_elf_symbol)) s))"

text \<open>The loop stops with the status of the first failure.\<close>

fun insert_symbols_loop :: "area \<Rightarrow> u64 \<Rightarrow> u64 \<Rightarrow> u64 \<Rightarrow> u64 \<Rightarrow> u64 \<Rightarrow> nat \<Rightarrow> ('r, 'a) kmods_scheme
      \<Rightarrow> (status \<times> ('r, 'a) kmods_scheme) res" where
  "insert_symbols_loop ar elf sz strtab symtab i 0 s = Ret (Ok, s)"
| "insert_symbols_loop ar elf sz strtab symtab i (Suc n) s =
     (let v = view_of ar s; p = symbol_at symtab i in
      res_bind (st_info v p) (\<lambda>info.
      if ELF64_ST_BIND info = STB_GLOBAL \<and> (ELF64_ST_TYPE info = STT_FUNC \<or> ELF64_ST_TYPE info = STT_OBJECT) then
        res_bind (st_index v p) (\<lambda>index.
        res_bind (elf_get_section_index v elf sz index) (\<lambda>section.
        if section = 0 then Ret (Error_Invalid, s)
        else
          res_bind (sh_offset v section) (\<lambda>ofs.
          res_bind (st_value v p) (\<lambda>val.
          res_bind (st_name v p) (\<lambda>name.
          res_bind (symbol_put kmalloc kfree (symbols_now (memory s) (symbol_tbl s)) (strtab + name) (elf + ofs + val) s)
            (\<lambda>(st, tbl, s1).
          if st \<noteq> Ok then Ret (st, s1\<lparr>symbol_tbl := tbl\<rparr>)
          else insert_symbols_loop ar elf sz strtab symtab (i + 1) n (s1\<lparr>symbol_tbl := tbl\<rparr>)))))))
      else insert_symbols_loop ar elf sz strtab symtab (i + 1) n s))"

definition module_insert_symbols ::
    "area \<Rightarrow> u64 \<Rightarrow> u64 \<Rightarrow> ('r, 'a) kmods_scheme \<Rightarrow> (status \<times> ('r, 'a) kmods_scheme) res" where
  "module_insert_symbols ar elf sz s =
     res_bind (elf_get_section (view_of ar s) elf sz ''.strtab'') (\<lambda>t.
     case t of None \<Rightarrow> Ret (Error_Invalid, s) | Some (strtab, _) \<Rightarrow>
     res_bind (elf_get_section (view_of ar s) elf sz ''.symtab'') (\<lambda>y.
     case y of None \<Rightarrow> Ret (Error_Invalid, s) | Some (symtab, symtab_size) \<Rightarrow>
     res_bind (insert_symbols_loop ar elf sz strtab symtab 0 (unat (symtab_size div sizeof_elf_symbol)) s) (\<lambda>(st, s1).
     if st \<noteq> Ok then res_bind (module_remove_symbols ar elf sz s1) (\<lambda>s2. Ret (st, s2))
     else Ret (st, s1))))"

subsection \<open>Permissions\<close>

text \<open>The difference of two pointers, in pages, rounded towards zero.\<close>

definition pages_between :: "u64 \<Rightarrow> u64 \<Rightarrow> u64" where
  "pages_between a b =
     (let d = sint (b - a) in word_of_int (if 0 \<le> d then d div 4096 else - ((- d) div 4096)))"

definition module_set_section_permissions ::
    "area \<Rightarrow> u64 \<Rightarrow> u64 \<Rightarrow> ('r, 'a) kmods_scheme \<Rightarrow> (status \<times> ('r, 'a) kmods_scheme) res" where
  "module_set_section_permissions ar elf sz s =
     (let sym = elf_get_symbol_address (view_of ar s) elf sz;
          undo = Memory_No_Execute OR Memory_Writable
      in
      res_bind (sym ''__module_rw_start'') (\<lambda>rw_start. res_bind (sym ''__module_rw_end'') (\<lambda>rw_end.
      res_bind (sym ''__module_rx_start'') (\<lambda>rx_start. res_bind (sym ''__module_rx_end'') (\<lambda>rx_end.
      res_bind (sym ''__module_ro_start'') (\<lambda>ro_start. res_bind (sym ''__module_ro_end'') (\<lambda>ro_end.
        let rw_size = pages_between rw_start rw_end; rx_size = pages_between rx_start rx_end;
            ro_size = pages_between ro_start ro_end
        in
        if rw_start = 0 \<or> rw_end = 0 \<or> rx_start = 0 \<or> rx_end = 0 \<or> ro_start = 0 \<or> ro_end = 0
        then Ret (Error_Permissions, s)
        else
          res_bind (paging_update_range rw_start rw_size Memory_Writable s) (\<lambda>(st, s1).
          if st \<noteq> Ok then
            res_bind (paging_update_range rw_start rw_size undo s1) (\<lambda>(_, s2). Ret (st, s2))
          else
            res_bind (paging_update_range rx_start rx_size Memory_No_Attributes s1) (\<lambda>(st, s2).
            if st \<noteq> Ok then
              res_bind (paging_update_range rx_start rx_size undo s2) (\<lambda>(_, s3).
              res_bind (paging_update_range rw_start rw_size undo s3) (\<lambda>(_, s4). Ret (st, s4)))
            else
              res_bind (paging_update_range ro_start ro_size Memory_No_Execute s2) (\<lambda>(st, s3).
              if st \<noteq> Ok then
                res_bind (paging_update_range ro_start ro_size undo s3) (\<lambda>(_, s4).
                res_bind (paging_update_range rx_start rx_size undo s4) (\<lambda>(_, s5).
                res_bind (paging_update_range rw_start rw_size undo s5) (\<lambda>(_, s6). Ret (st, s6))))
              else Ret (Ok, s3)))))))))))"

subsection \<open>Loading\<close>

text \<open>Relocation patches the memory of the kernel.\<close>

definition relocate_module :: "area \<Rightarrow> u64 \<Rightarrow> u64 \<Rightarrow> ('r, 'a) kmods_scheme \<Rightarrow> (status \<times> ('r, 'a) kmods_scheme) res" where
  "relocate_module ar module_start module_size s =
     res_bind (elf_relocate (symbol_tbl s) module_start module_size (view_of ar s)) (\<lambda>(st, v).
     Ret (st, s\<lparr>memory := v_mem v\<rparr>))"

definition module_load ::
    "ge_precomp list \<Rightarrow> sha512_state \<Rightarrow> u8 list \<Rightarrow> area \<Rightarrow> u64 \<Rightarrow> u64 \<Rightarrow> ('r, 'a) kmods_scheme
      \<Rightarrow> (status \<times> ('r, 'a) kmods_scheme) res" where
  "module_load Bi hs key ar module_start module_size s =
     res_bind (elf_verify (view_of ar s) module_start module_size) (\<lambda>good.
     if \<not> good then Ret (Error_Invalid, s)
     else
       res_bind (elf_get_shared_object_name (view_of ar s) module_start module_size) (\<lambda>module_name.
       res_bind (module_verify Bi hs key (view_of ar s) module_start module_size) (\<lambda>st.
       if st \<noteq> Ok then Ret (st, s)
       else
         res_bind (relocate_module ar module_start module_size s) (\<lambda>(st, s1).
         if st \<noteq> Ok then Ret (st, s1)
         else
           res_bind (module_insert_symbols ar module_start module_size s1) (\<lambda>(st, s2).
           if st \<noteq> Ok then Ret (st, s2)
           else
             res_bind (kmalloc sizeof_module s2) (\<lambda>(new_module, s3).
             if new_module = 0 then
               res_bind (module_remove_symbols ar module_start module_size s3) (\<lambda>s4. Ret (Error_No_Memory, s4))
             else
               Ret (Ok, s3\<lparr>Module_List :=
                 (new_module, \<lparr>mod_name = module_name, virtual_start = module_start, mod_size = module_size\<rparr>)
                   # Module_List s3\<rparr>)))))))"

text \<open>A mapped file appears in memory.\<close>

definition show_at :: "u64 \<Rightarrow> u8 list \<Rightarrow> mem \<Rightarrow> mem" where
  "show_at a bs m = (\<lambda>x. if unat (x - a) < length bs then bs ! unat (x - a) else m x)"

text \<open>One round of the loop of \<open>modules_init\<close>: the status that it stores, or \<open>Ok\<close>. Only the first page of
  the mapping is released after a failure.\<close>

definition run_module ::
    "(('r, 'a) kmods_scheme) call_f \<Rightarrow> area \<Rightarrow> u64 \<Rightarrow> u64 \<Rightarrow> ('r, 'a) kmods_scheme \<Rightarrow> (status \<times> ('r, 'a) kmods_scheme) res" where
  "run_module call ar module_start module_size s =
     res_bind (module_set_section_permissions ar module_start (snd ar) s) (\<lambda>(st, s1).
     if st \<noteq> Ok then res_bind (slab_free Page_Small module_start s1) (\<lambda>s2. Ret (st, s2))
     else
       res_bind (elf_run_init call ar module_start module_size s1) (\<lambda>(st, s2).
       if st \<noteq> Ok then
         res_bind (elf_run_fini call ar module_start module_size s2) (\<lambda>(_, s3).
         res_bind (slab_free Page_Small module_start s3) (\<lambda>s4. Ret (st, s4)))
       else Ret (Ok, s2)))"

definition load_module ::
    "ge_precomp list \<Rightarrow> sha512_state \<Rightarrow> u8 list \<Rightarrow> 'r cpu_noise \<Rightarrow> (multiboot_mod \<Rightarrow> u8 list) \<Rightarrow>
     (('r, 'a) kmods_scheme) call_f \<Rightarrow> multiboot_mod \<Rightarrow> ('r, 'a) kmods_scheme \<Rightarrow> (status \<times> ('r, 'a) kmods_scheme) res" where
  "load_module Bi hs key cpu img call mo s =
     (let module_size = ucast (mod_end mo - mod_start mo);
          module_allocation_size = align_as (round_next module_size Page_Small) Page_Small
      in
      res_bind (slab_alloc_request_physical_random (random_address cpu True Page_Small) (ucast (mod_start mo))
          module_allocation_size Memory_Writable s) (\<lambda>(module_start, s1).
      if module_start = 0 then Ret (Error_Invalid, s1)
      else
        (let ar = (module_start, module_allocation_size);
             s2 = s1\<lparr>memory := show_at module_start (img mo) (memory s1)\<rparr>
         in
         res_bind (module_load Bi hs key ar module_start module_size s2) (\<lambda>(st, s3).
         if st \<noteq> Ok then res_bind (slab_free Page_Small module_start s3) (\<lambda>s4. Ret (st, s4))
         else run_module call ar module_start module_size s3))))"

primrec load_modules ::
    "ge_precomp list \<Rightarrow> sha512_state \<Rightarrow> u8 list \<Rightarrow> 'r cpu_noise \<Rightarrow> (multiboot_mod \<Rightarrow> u8 list) \<Rightarrow>
     (('r, 'a) kmods_scheme) call_f \<Rightarrow> multiboot_mod list \<Rightarrow> status \<Rightarrow> ('r, 'a) kmods_scheme
      \<Rightarrow> (status \<times> ('r, 'a) kmods_scheme) res" where
  "load_modules Bi hs key cpu img call [] modules_status s = Ret (modules_status, s)"
| "load_modules Bi hs key cpu img call (mo # mos) modules_status s =
     res_bind (load_module Bi hs key cpu img call mo s) (\<lambda>(st, s1).
     load_modules Bi hs key cpu img call mos (if st \<noteq> Ok then st else modules_status) s1)"

definition modules_init ::
    "ge_precomp list \<Rightarrow> sha512_state \<Rightarrow> u8 list \<Rightarrow> 'r cpu_noise \<Rightarrow> (multiboot_mod \<Rightarrow> u8 list) \<Rightarrow>
     (('r, 'a) kmods_scheme) call_f \<Rightarrow> symbol_embedded list \<Rightarrow> multiboot_info \<Rightarrow> ('r, 'a) kmods_scheme
      \<Rightarrow> (status \<times> ('r, 'a) kmods_scheme) res" where
  "modules_init Bi hs key cpu img call kernel_symbols info s =
     res_bind (kassert (init_count s = 0)) (\<lambda>_.
       let s = s\<lparr>init_count := init_count s + 1\<rparr> in
       res_bind (symbol_init (memory s) kmalloc kfree kernel_symbols s) (\<lambda>(st, tbl, s1).
         let s1 = s1\<lparr>symbol_tbl := tbl\<rparr> in
         if st \<noteq> Ok then Ret (st, s1)
         else
           res_bind (slab_alloc_request_physical (ucast (mods_addr info)) Page_Small Memory_No_Attributes s1) (\<lambda>(mods, s2).
           if mods = 0 then res_bind (symbol_fini kfree (symbol_tbl s2) s2) (\<lambda>s3. Ret (Error_No_Memory, s3))
           else
             res_bind (load_modules Bi hs key cpu img call (take (unat (mods_count info)) (modules info)) Ok s2)
               (\<lambda>(st, s3).
             res_bind (slab_free Page_Small mods s3) (\<lambda>s4.
             if st \<noteq> Ok then res_bind (symbol_fini kfree (symbol_tbl s4) s4) (\<lambda>s5. Ret (st, s5))
             else Ret (st, s4))))))"

text \<open>The calls of \<open>logf\<close>, without the strings of the command lines.\<close>

definition modules_info :: "multiboot_info \<Rightarrow> (string \<times> u64 list) list" where
  "modules_info mi =
     (''%p'', [ucast (mods_addr mi)]) #
     concat (map (\<lambda>m. [(''start %x'', [ucast (mod_start m)]), (''end %x'', [ucast (mod_end m)])])
       (take (unat (mods_count mi)) (modules mi)))"

subsection \<open>A file in memory\<close>

definition file_at :: "view \<Rightarrow> u8 list \<Rightarrow> bool" where
  "file_at v bs \<longleftrightarrow> length bs \<le> unat (v_len v) \<and> (\<forall>i < length bs. v_mem v (v_start v + of_nat i) = bs ! i)"

text \<open>What it takes for a file to be accepted: the magic string before the signature, which is the last
  64 bytes, and the signature verifies for everything before the two.\<close>

definition signed_by :: "ge_precomp list \<Rightarrow> sha512_state \<Rightarrow> u8 list \<Rightarrow> u8 list \<Rightarrow> bool" where
  "signed_by Bi hs key bs \<longleftrightarrow> 95 \<le> length bs \<and>
     take 31 (drop (length bs - 95) bs) = map of_char SIGNATURE_MAGIC_STRING \<and>
     crypto_sign_ed25519_verify_detached Bi hs (drop (length bs - 64) bs) (take (length bs - 95) bs) key = 0"

lemma magic_length: "length SIGNATURE_MAGIC_STRING = 31" by (simp add: SIGNATURE_MAGIC_STRING_def)

lemma file_bytes:
  assumes f: "file_at v bs" and k: "k + n \<le> length bs"
  shows "covers v (v_start v + of_nat k) n"
    and "map (\<lambda>i. v_mem v (v_start v + of_nat k + of_nat i)) [0..<n] = take n (drop k bs)"
proof -
  have "length bs < 2 ^ 64" using f unsigned_less [of "v_len v", where ?'a = nat] by (simp add: file_at_def)
  then have "unat (of_nat k :: u64) = k" using k by (intro of_nat_inverse [OF refl]) simp
  then show "covers v (v_start v + of_nat k) n" using f k by (simp add: covers_def file_at_def)
  have "v_mem v (v_start v + of_nat k + of_nat i) = bs ! (k + i)" if "i < n" for i
  proof -
    have "v_mem v (v_start v + of_nat (k + i)) = bs ! (k + i)" using f k that by (simp only: file_at_def)
    then show ?thesis by (simp add: add.assoc)
  qed
  then show "map (\<lambda>i. v_mem v (v_start v + of_nat k + of_nat i)) [0..<n] = take n (drop k bs)"
    using k by (intro nth_equalityI) simp_all
qed

lemma text_at_iff: "text_at v a cs \<longleftrightarrow> map (\<lambda>i. v_mem v (a + of_nat i)) [0..<length cs] = map of_char cs"
proof (induction cs arbitrary: a)
  case (Cons c cs)
  have "map (\<lambda>i. v_mem v (a + of_nat i)) [0..<Suc (length cs)] = v_mem v a # map (\<lambda>i. v_mem v (a + 1 + of_nat i)) [0..<length cs]"
    unfolding upt_conv_Cons [OF zero_less_Suc] map_Suc_upt [symmetric] by (simp add: add.assoc del: upt.simps)
  then show ?case using Cons.IH [of "a + 1"] by (simp del: upt.simps)
qed simp

lemma verify_file:
  assumes f: "file_at v bs" and l: "95 \<le> length bs" "sz = of_nat (length bs)"
  shows "module_verify Bi hs key v (v_start v) sz = Ret (if signed_by Bi hs key bs then Ok else Error_Invalid)"
proof -
  let ?n = "length bs"
  have lt: "?n < 2 ^ 64" using f unsigned_less [of "v_len v", where ?'a = nat] by (simp add: file_at_def)
  have w: "sz - 64 - of_nat (length SIGNATURE_MAGIC_STRING) = of_nat (?n - 95)" "v_start v + sz - 64 = v_start v + of_nat (?n - 64)"
    using l by (simp_all add: magic_length of_nat_diff)
  have u: "unat (of_nat (?n - 95) :: u64) = ?n - 95" using lt by (intro of_nat_inverse [OF refl]) simp
  have d: "differs v (v_start v + of_nat (?n - 95)) SIGNATURE_MAGIC_STRING =
    Ret (take 31 (drop (?n - 95) bs) \<noteq> map of_char SIGNATURE_MAGIC_STRING)"
    using differs_inside [of v "v_start v + of_nat (?n - 95)" SIGNATURE_MAGIC_STRING] file_bytes [OF f, of "?n - 95" 31] l(1)
    by (simp add: magic_length text_at_iff)
  have s: "rd_bytes v (v_start v + of_nat (?n - 64)) 64 = Ret (drop (?n - 64) bs)"
    using file_bytes [OF f, of "?n - 64" 64] l(1) by (simp add: rd_bytes_def)
  have m: "rd_bytes v (v_start v) (of_nat (?n - 95)) = Ret (take (?n - 95) bs)"
    using file_bytes [OF f, of 0 "?n - 95"] l(1) unfolding rd_bytes_def u by simp
  show ?thesis unfolding module_verify_def Let_def w d res_bind.simps s m using l(1) by (simp add: signed_by_def)
qed

text \<open>In a shorter file the magic string would start before the first byte.\<close>

lemma verify_short:
  assumes f: "file_at v bs" and l: "length bs < 95" "sz = of_nat (length bs)" and v: "unat (v_len v) \<le> 2 ^ 63"
  shows "module_verify Bi hs key v (v_start v) sz = Fault"
proof -
  let ?d = "95 - length bs"
  have w: "sz - 64 - of_nat (length SIGNATURE_MAGIC_STRING) = - of_nat ?d"
    using l by (simp add: magic_length of_nat_diff)
  have "unat (- of_nat ?d :: u64) = 2 ^ 64 - ?d" using l(1) by (intro unat_minus_of_nat) simp_all
  then have "\<not> covers v (v_start v - of_nat ?d) 1" using v l(1) by (simp add: covers_def)
  moreover have "SIGNATURE_MAGIC_STRING = hd SIGNATURE_MAGIC_STRING # tl SIGNATURE_MAGIC_STRING" by (simp add: SIGNATURE_MAGIC_STRING_def)
  then have "differs v a SIGNATURE_MAGIC_STRING = Fault" if "\<not> covers v a 1" for a
    using that by (metis differs.simps(2) rd_eq res_bind.simps(3))
  ultimately show ?thesis by (simp add: module_verify_def w)
qed

lemma verify_only_signed: "file_at v bs \<Longrightarrow> unat (v_len v) \<le> 2 ^ 63 \<Longrightarrow> sz = of_nat (length bs) \<Longrightarrow>
  module_verify Bi hs key v (v_start v) sz = Ret Ok \<Longrightarrow> signed_by Bi hs key bs"
  using verify_file [of v bs sz Bi hs key] verify_short [of v bs sz Bi hs key] by (cases "95 \<le> length bs") (auto split: if_splits)

text \<open>The mapping of a module is large enough for it.\<close>

lemma round_up_bounds:
  assumes "unat x < 2 ^ 62"
  shows "unat x \<le> unat (align_as (round_next x Page_Small) Page_Small)" "unat (align_as (round_next x Page_Small) Page_Small) \<le> 2 ^ 63"
proof -
  let ?y = "x + 0xfff" and ?m = "0xfff :: u64"
  have e: "align_as (round_next x Page_Small) Page_Small = ?y AND NOT ?m"
    by (simp add: align_as_def round_next_def and.assoc)
  have "(?y AND ?m) + (?y AND NOT ?m) = ?y"
    by (subst disjunctive_add_eq_or) (rule bit_eqI, auto simp: bit_simps)+
  then have q: "?y AND NOT ?m = ?y - (?y AND ?m)" by (simp add: algebra_simps)
  have "?y AND ?m \<le> ?m" "?y AND ?m \<le> ?y" by (simp_all add: word_and_le1 word_and_le2)
  then have p: "unat (?y AND ?m) \<le> 0xfff" "?y AND ?m \<le> ?y" by (simp_all add: word_le_nat_alt)
  have y: "unat ?y = unat x + 0xfff" by (subst unat_add_lem [THEN iffD1]) (use assms in simp_all)
  have "unat (?y AND NOT ?m) = unat ?y - unat (?y AND ?m)" unfolding q using p(2) by (rule unat_sub)
  then show "unat x \<le> unat (align_as (round_next x Page_Small) Page_Small)"
    "unat (align_as (round_next x Page_Small) Page_Small) \<le> 2 ^ 63" unfolding e using p y assms by simp_all
qed

lemma show_at_file:
  assumes "length bs \<le> unat n"
  shows "file_at (view_of (a, n) (s\<lparr>memory := show_at a bs m\<rparr>)) bs"
proof -
  have "unat (of_nat i :: u64) = i" if "i < length bs" for i
    using assms that unsigned_less [of n, where ?'a = nat] by (intro of_nat_inverse [OF refl]) simp
  then show ?thesis using assms by (simp add: file_at_def view_of_def show_at_def)
qed

lemma module_load_unsigned:
  assumes "\<not> signed_by Bi hs key bs" "file_at (view_of ar s) bs" "unat (snd ar) \<le> 2 ^ 63" "sz = of_nat (length bs)"
    and "module_load Bi hs key ar (fst ar) sz s = Ret (st, s')"
  shows "st \<noteq> Ok \<and> s' = s"
proof -
  have "module_verify Bi hs key (view_of ar s) (fst ar) sz \<noteq> Ret Ok"
    using verify_only_signed [OF assms(2) _ assms(4), of Bi hs key] assms(1,3) by (auto simp: view_of_def)
  then show ?thesis using assms(5) by (auto simp: module_load_def res_bind_Ret_iff split: if_splits)
qed

lemma load_rejected:
  assumes "\<not> signed_by Bi hs key (img mo)" "length (img mo) = unat (mod_end mo - mod_start mo)"
    and "sz = ucast (mod_end mo - mod_start mo)" "n = align_as (round_next sz Page_Small) Page_Small"
    and "module_load Bi hs key (a, n) a sz (t\<lparr>memory := show_at a (img mo) (memory t)\<rparr>) = Ret (st, t')"
  shows "st \<noteq> Ok"
proof -
  have u: "unat (mod_end mo - mod_start mo) < 2 ^ 32" using unsigned_less [of "mod_end mo - mod_start mo", where ?'a = nat] by simp
  then have l: "unat sz = length (img mo)" using assms(2) by (simp add: assms(3) unsigned_ucast_eq take_bit_nat_eq_self_iff)
  then have sz: "sz = of_nat (length (img mo))" by (simp flip: l)
  have n: "length (img mo) \<le> unat n" "unat n \<le> 2 ^ 63" using round_up_bounds [of sz] l u assms(2) by (simp_all add: assms(4))
  show ?thesis using module_load_unsigned [OF assms(1) show_at_file [OF n(1), of a "memory t" t] _ sz] n(2) assms(5) by auto
qed

lemma load_module_unsigned:
  assumes "\<not> signed_by Bi hs key (img mo)" "length (img mo) = unat (mod_end mo - mod_start mo)"
  shows "load_module Bi hs key cpu img call mo s = load_module Bi hs key cpu img call' mo s"
proof -
  define sz :: u64 where "sz = ucast (mod_end mo - mod_start mo)"
  define n where "n = align_as (round_next sz Page_Small) Page_Small"
  note bad = load_rejected [of Bi hs key img mo sz n, OF assms sz_def n_def]
  show ?thesis unfolding load_module_def Let_def sz_def [symmetric] n_def [symmetric]
    by (intro res_bind_cong refl) (auto intro!: res_bind_cong dest: bad split: prod.splits)
qed

lemma load_module_fails:
  assumes "\<not> signed_by Bi hs key (img mo)" "length (img mo) = unat (mod_end mo - mod_start mo)"
    and "load_module Bi hs key cpu img call mo s = Ret (st, s')"
  shows "st \<noteq> Ok"
  using assms(3) load_rejected [of Bi hs key img mo, OF assms(1,2) refl refl]
  by (auto simp: load_module_def Let_def res_bind_Ret_iff split: if_splits)

text \<open>One failure is enough for the status of the whole list.\<close>

lemma load_modules_fails:
  assumes "load_modules Bi hs key cpu img call mos st0 s = Ret (st, s')"
    and "st0 \<noteq> Ok \<or> (\<exists>mo \<in> set mos. \<not> signed_by Bi hs key (img mo) \<and> length (img mo) = unat (mod_end mo - mod_start mo))"
  shows "st \<noteq> Ok"
  using assms
proof (induction mos arbitrary: st0 s)
  case (Cons mo mos)
  obtain st1 s1 where l: "load_module Bi hs key cpu img call mo s = Ret (st1, s1)"
    "load_modules Bi hs key cpu img call mos (if st1 \<noteq> Ok then st1 else st0) s1 = Ret (st, s')"
    using Cons.prems(1) by (auto simp: res_bind_Ret_iff)
  show ?case by (rule Cons.IH [OF l(2)]) (use Cons.prems(2) load_module_fails [OF _ _ l(1)] in auto)
qed simp

lemma modules_init_fails:
  assumes "modules_init Bi hs key cpu img call kernel_symbols info s = Ret (st, s')"
    and "\<exists>mo \<in> set (take (unat (mods_count info)) (modules info)). \<not> signed_by Bi hs key (img mo) \<and>
      length (img mo) = unat (mod_end mo - mod_start mo)"
  shows "st \<noteq> Ok"
proof -
  have l: "st1 \<noteq> Ok" if "load_modules Bi hs key cpu img call (take (unat (mods_count info)) (modules info)) Ok s1 = Ret (st1, s2)" for s1 s2 st1
    using load_modules_fails [OF that] assms(2) by blast
  show ?thesis using assms(1) by (auto simp: modules_init_def Let_def res_bind_Ret_iff dest: l split: if_splits)
qed

lemma load_modules_unsigned:
  assumes "\<forall>mo \<in> set mos. \<not> signed_by Bi hs key (img mo) \<and> length (img mo) = unat (mod_end mo - mod_start mo)"
  shows "load_modules Bi hs key cpu img call mos st s = load_modules Bi hs key cpu img call' mos st s"
  using assms
proof (induction mos arbitrary: st s)
  case (Cons mo mos)
  then show ?case using load_module_unsigned [of Bi hs key img mo cpu call s call'] by (auto intro: res_bind_cong)
qed simp

subsection \<open>Properties\<close>

text \<open>The signature of a module of 95 bytes or more is checked without reading outside of the file:
  the module is accepted exactly if the magic string stands before the last 64 bytes and these are a
  signature of what precedes it. For a shorter file the size of the signed part wraps around and the
  check reads below the file.\<close>

theorem module_verify_correct:
  assumes "file_at v bs" "sz = of_nat (length bs)" "unat (v_len v) \<le> 2 ^ 63"
  shows "module_verify Bi hs key v (v_start v) sz =
    (if length bs < 95 then Fault
     else if take 31 (drop (length bs - 95) bs) = map of_char SIGNATURE_MAGIC_STRING \<and>
       crypto_sign_ed25519_verify_detached Bi hs (drop (length bs - 64) bs) (take (length bs - 95) bs) key = 0
     then Ret Ok else Ret Error_Invalid)"
  using verify_file [OF assms(1) _ assms(2), of Bi hs key] verify_short [OF assms(1) _ assms(2,3), of Bi hs key]
  by (auto simp: signed_by_def)

text \<open>(C16) A module that is not signed with the key of the kernel is not loaded: when \<open>module_load\<close> returns,
  it returns an error and nothing has changed, neither the memory nor the table of symbols nor the list of
  modules.\<close>

theorem unsigned_module_not_loaded:
  assumes "\<not> signed_by Bi hs key bs" "file_at (view_of ar s) bs" "unat (snd ar) \<le> 2 ^ 63"
    and "module_load Bi hs key ar (fst ar) (of_nat (length bs)) s = Ret (st, s')"
  shows "st \<noteq> Ok \<and> s' = s"
  using module_load_unsigned [OF assms(1-3) refl assms(4)] .

text \<open>(C17) If no module is signed, no function of any of them is ever called: whatever these functions would
  do, \<open>modules_init\<close> ends in the same way.\<close>

theorem unsigned_modules_never_run:
  assumes "\<forall>mo \<in> set (take (unat (mods_count info)) (modules info)).
    \<not> signed_by Bi hs key (img mo) \<and> length (img mo) = unat (mod_end mo - mod_start mo)"
  shows "modules_init Bi hs key cpu img call kernel_symbols info s = modules_init Bi hs key cpu img call' kernel_symbols info s"
  unfolding modules_init_def load_modules_unsigned [OF assms, of cpu call _ _ call'] by (rule refl)

definition demo_mods :: "nat kmods" where
  "demo_mods = krandom.extend (demo_random (demo_heap\<lparr>memory := \<lambda>_. 0\<rparr>))
     \<lparr>symbol_tbl = None, Module_List = [], init_count = 0\<rparr>"

lemma demo_mods_memory: "memory demo_mods = (\<lambda>_. 0)"
  by (simp add: demo_mods_def krandom.defs demo_random_def kheap.defs)

lemma demo_mods_view: "file_at (view_of (0x1000, 0x1000) demo_mods) (replicate 80 0)"
  by (simp add: file_at_def view_of_def demo_mods_memory)

theorem module_verify_correct_witness:
  "module_verify [] demo_hash_state (replicate 32 0) (view_of (0x1000, 0x1000) demo_mods) 0x1000 80 = Fault"
  using module_verify_correct [OF demo_mods_view, of 80 "[]" demo_hash_state "replicate 32 0"] by (simp add: view_of_def)

theorem unsigned_module_not_loaded_witness:
  "\<exists>st. module_load [] demo_hash_state (replicate 32 0) (0x1000, 0x1000) 0x1000 80 demo_mods = Ret (st, demo_mods) \<and> st \<noteq> Ok"
proof -
  have "elf_verify (view_of (0x1000, 0x1000) demo_mods) 0x1000 80 = Ret False"
    using elf_verify_eq [of 80 "view_of (0x1000, 0x1000) demo_mods"] by (simp add: view_of_def demo_mods_memory ELFMAG_def)
  then have "module_load [] demo_hash_state (replicate 32 0) (0x1000, 0x1000) 0x1000 80 demo_mods = Ret (Error_Invalid, demo_mods)"
    by (simp add: module_load_def)
  then show ?thesis
    using unsigned_module_not_loaded [OF _ demo_mods_view, of "[]" demo_hash_state "replicate 32 0"] by (simp add: signed_by_def)
qed

theorem unsigned_modules_never_run_witness:
  "modules_init [] demo_hash_state (replicate 32 0) demo_cpu_noise (\<lambda>mo. replicate 80 0) (\<lambda>f s. Ret (Ok, s)) []
     \<lparr>mods_count = 1, mods_addr = 0, mmap_length = 0, modules = [\<lparr>mod_start = 0x100000, mod_end = 0x100050\<rparr>], mmap_entries = []\<rparr> demo_mods =
   modules_init [] demo_hash_state (replicate 32 0) demo_cpu_noise (\<lambda>mo. replicate 80 0) (\<lambda>f s. Hang) []
     \<lparr>mods_count = 1, mods_addr = 0, mmap_length = 0, modules = [\<lparr>mod_start = 0x100000, mod_end = 0x100050\<rparr>], mmap_entries = []\<rparr> demo_mods"
  by (rule unsigned_modules_never_run) (simp add: signed_by_def)

end
