(* ===== verification/Truesign.thy ===== *)
theory Truesign
  imports Modules
begin

text \<open>
  \<open>tools/truesign.c\<close>, the program that signs kernel modules on the machine that builds the kernel, and
  \<open>tools/unix_shims_randombytes.c\<close>, its source of random bytes. It is linked with the Ed25519 functions
  of the kernel.

  The host is what the functions of \<open>stdio.h\<close> and \<open>malloc\<close> see of it: the contents of the files, which
  of them can be opened, which are pipes (\<open>seekable\<close>), which report errors of the device
  (\<open>broken\<close>), how much memory there is, and what has been printed. A stream is the name of its file with its
  position and its error flag; \<open>None\<close> is the null pointer, which \<open>fclose\<close> and \<open>fwrite\<close> dereference. The
  file \<open>/dev/urandom\<close> holds the bytes that the device delivers to its next reader. \<open>perror\<close> is printed
  without the text of the library for the error number. Streams are written through: an error that a library
  only notices when \<open>fclose\<close>, whose result the code ignores, writes its buffer is outside of the model.
\<close>

record host =
  disk :: "string \<rightharpoonup> u8 list"
  readable :: "string \<Rightarrow> bool"
  writable :: "string \<Rightarrow> bool"
  seekable :: "string \<Rightarrow> bool"
  broken :: "string \<Rightarrow> bool"
  memory_for :: "u64 \<Rightarrow> bool"
  said :: "string list"

record fstream =
  f_name :: string
  f_pos :: nat
  f_err :: bool

subsection \<open>The C library\<close>

definition contents_of :: "host \<Rightarrow> string \<Rightarrow> u8 list" where
  "contents_of h nm = (case disk h nm of None \<Rightarrow> [] | Some bs \<Rightarrow> bs)"

definition say :: "string \<Rightarrow> host \<Rightarrow> host" where
  "say msg h = h\<lparr>said := said h @ [msg]\<rparr>"

definition fopen_r :: "string \<Rightarrow> host \<Rightarrow> fstream option" where
  "fopen_r nm h =
     (if disk h nm \<noteq> None \<and> readable h nm then Some \<lparr>f_name = nm, f_pos = 0, f_err = False\<rparr> else None)"

definition fopen_w :: "string \<Rightarrow> host \<Rightarrow> fstream option \<times> host" where
  "fopen_w nm h =
     (if writable h nm then (Some \<lparr>f_name = nm, f_pos = 0, f_err = False\<rparr>, h\<lparr>disk := (disk h)(nm \<mapsto> [])\<rparr>)
      else (None, h))"

definition ftell :: "fstream \<Rightarrow> host \<Rightarrow> int" where
  "ftell f h = (if seekable h (f_name f) then int (f_pos f) else - 1)"

definition fseek_set :: "fstream \<Rightarrow> int \<Rightarrow> host \<Rightarrow> int \<times> fstream" where
  "fseek_set f pos h = (if seekable h (f_name f) then (0, f\<lparr>f_pos := nat pos\<rparr>) else (- 1, f))"

definition fseek_end :: "fstream \<Rightarrow> host \<Rightarrow> int \<times> fstream" where
  "fseek_end f h = fseek_set f (int (length (contents_of h (f_name f)))) h"

text \<open>The number of items of \<open>sz\<close> bytes, the bytes stored and the stream.\<close>

definition fread :: "u64 \<Rightarrow> nat \<Rightarrow> fstream \<Rightarrow> host \<Rightarrow> nat \<times> u8 list \<times> fstream" where
  "fread sz n f h =
     (if sz = 0 \<or> n = 0 then (0, [], f)
      else if broken h (f_name f) then (0, [], f\<lparr>f_err := True\<rparr>)
      else
        (let got = take (unat sz * n) (drop (f_pos f) (contents_of h (f_name f)))
         in (length got div unat sz, got, f\<lparr>f_pos := f_pos f + length got\<rparr>)))"

text \<open>One item, with \<open>fprintf\<close> as the case of a formatted text.\<close>

definition fwrite :: "u8 list \<Rightarrow> fstream \<Rightarrow> host \<Rightarrow> nat \<times> fstream \<times> host" where
  "fwrite bs f h =
     (if bs = [] then (0, f, h)
      else if broken h (f_name f) then (0, f\<lparr>f_err := True\<rparr>, h)
      else (1, f\<lparr>f_pos := f_pos f + length bs\<rparr>,
        h\<lparr>disk := (disk h)(f_name f \<mapsto> put_at (contents_of h (f_name f)) (f_pos f) bs)\<rparr>))"

text \<open>The label \<open>out\<close> of every function closes its streams.\<close>

definition fclose_all :: "fstream option list \<Rightarrow> int \<times> host \<Rightarrow> (int \<times> host) res" where
  "fclose_all fs r = (if None \<in> set fs then Fault else Ret r)"

definition ascii :: "string \<Rightarrow> u8 list" where "ascii cs = map of_char cs"

lemma ascii_append [simp]: "ascii (a @ b) = ascii a @ ascii b" "ascii [] = []" by (simp_all add: ascii_def)

subsection \<open>The size of a file\<close>

definition get_file_size :: "fstream \<Rightarrow> host \<Rightarrow> int \<times> u64 \<times> fstream" where
  "get_file_size f h =
     (let original_position = ftell f h in
      if original_position = - 1 then (- 1, 0, f)
      else
        (let (error, f) = fseek_end f h in
         if error \<noteq> 0 then (error, 0, f)
         else
           (let told = ftell f h in
            if told = - 1 then (- 1, 0, f)
            else (let (error, f) = fseek_set f original_position h in (error, word_of_int told, f)))))"

subsection \<open>Verifying a file\<close>

text \<open>The part after the two files are open. \<open>public_key\<close> is the uninitialised array on the stack. The magic
  string has a single NUL, its last byte, so \<open>strncmp\<close> of its whole size compares all of them.\<close>

definition verify_opened ::
    "ge_precomp list \<Rightarrow> sha512_state \<Rightarrow> u8 list \<Rightarrow> fstream \<Rightarrow> fstream \<Rightarrow> string \<Rightarrow> host \<Rightarrow> int \<times> host" where
  "verify_opened Bi hs public_key public_key_file test_file test_file_name h =
     (let (error, test_file_size, test_file) = get_file_size test_file h in
      if error \<noteq> 0 then (error, say ''Reading test file size'' h)
      else if test_file_size < 32 then (- 1, say ''File is too small to contain a signature'' h)
      else
        (let (n, bs, public_key_file) = fread 1 32 public_key_file h;
             public_key = put_at public_key 0 bs
         in
         if n \<noteq> 1 \<or> f_err public_key_file then (- 1, say ''Reading public key'' h)
         else if \<not> memory_for h test_file_size then (- 1, say ''Couldn't allocate memory for test file contents'' h)
         else
           (let (n, test_file_contents, test_file) = fread (test_file_size - 95) 1 test_file h in
            if n \<noteq> 1 \<or> f_err test_file then (- 1, say ''Reading data from test file'' h)
            else
              (let (n, signature_magic, test_file) = fread 31 1 test_file h in
               if n \<noteq> 1 \<or> f_err test_file then (- 1, say ''Reading signature from test file'' h)
               else if signature_magic \<noteq> ascii SIGNATURE_MAGIC_STRING then (- 1, say ''Bad signature magic'' h)
               else
                 (let (n, signature, test_file) = fread 64 1 test_file h in
                  if n \<noteq> 1 \<or> f_err test_file then (- 1, say ''Reading signature from test file'' h)
                  else if word_of_int (ftell test_file h) \<noteq> test_file_size then (- 1, say ''Bug reading signature'' h)
                  else
                    (let error = crypto_sign_ed25519_verify_detached Bi hs signature test_file_contents public_key in
                     if error \<noteq> 0 then (error, say (''Failed to verify file '' @ test_file_name) h)
                     else (error, say ''Signature successfully verified'' h)))))))"

definition verify_file ::
    "ge_precomp list \<Rightarrow> sha512_state \<Rightarrow> u8 list \<Rightarrow> string \<Rightarrow> string \<Rightarrow> host \<Rightarrow> (int \<times> host) res" where
  "verify_file Bi hs public_key public_key_name test_file_name h =
     (case fopen_r public_key_name h of
        None \<Rightarrow> fclose_all [None, None] (- 1, say ''opening public key file'' h)
      | Some public_key_file \<Rightarrow>
          (case fopen_r test_file_name h of
             None \<Rightarrow> fclose_all [Some public_key_file, None] (- 1, say ''opening test file'' h)
           | Some test_file \<Rightarrow>
               fclose_all [Some public_key_file, Some test_file]
                 (verify_opened Bi hs public_key public_key_file test_file test_file_name h)))"

subsection \<open>Signing a file\<close>

text \<open>The part after the three files are open. \<open>signature\<close> is the uninitialised array on the stack.\<close>

definition sign_opened ::
    "(nat \<Rightarrow> nat \<Rightarrow> ge_precomp) \<Rightarrow> sha512_state \<Rightarrow> u8 list \<Rightarrow> fstream \<Rightarrow> fstream \<Rightarrow> fstream \<Rightarrow> host \<Rightarrow> int \<times> host" where
  "sign_opened base hs signature secret_key_file target_file out_file h =
     (let (error, file_size, target_file) = get_file_size target_file h in
      if error \<noteq> 0 then (error, say ''Getting file size'' h)
      else if \<not> memory_for h file_size then (- 1, say ''Could not allocate memory'' h)
      else
        (let (n, secret_key, secret_key_file) = fread 64 1 secret_key_file h in
         if n \<noteq> 1 then (- 1, say ''Invalid secret key file'' h)
         else if f_err secret_key_file then (- 1, say ''reading secret key file'' h)
         else
           (let (n, file_contents, target_file) = fread file_size 1 target_file h in
            if n \<noteq> 1 \<or> f_err target_file then (- 1, say ''Reading target file'' h)
            else
              (let (written, out_file, h) = fwrite file_contents out_file h in
               if f_err out_file then (- 1, say ''Writing out file'' h)
               else
                 (let (error, signature, signature_final_size) =
                        crypto_sign_ed25519_detached base hs signature file_contents secret_key
                  in
                  if error \<noteq> 0 then (- 1, say ''Signature'' h)
                  else
                    (let (written, out_file, h) = fwrite (ascii SIGNATURE_MAGIC_STRING) out_file h in
                     if written \<noteq> 1 \<or> f_err out_file then (- 1, say ''writing magic string to out file'' h)
                     else
                       (let (written, out_file, h) = fwrite signature out_file h in
                        if written \<noteq> 1 \<or> f_err out_file then (- 1, say ''writing out file'' h)
                        else (error, h))))))))"

definition sign_file ::
    "(nat \<Rightarrow> nat \<Rightarrow> ge_precomp) \<Rightarrow> sha512_state \<Rightarrow> u8 list \<Rightarrow> string \<Rightarrow> string \<Rightarrow> string \<Rightarrow> host \<Rightarrow> (int \<times> host) res" where
  "sign_file base hs signature secret_key_name file_name out_file_name h =
     (case fopen_r secret_key_name h of
        None \<Rightarrow> fclose_all [None, None, None] (- 1, say ''opening secret key file'' h)
      | Some secret_key_file \<Rightarrow>
          (case fopen_r file_name h of
             None \<Rightarrow> fclose_all [None, Some secret_key_file, None] (- 1, say ''opening target file'' h)
           | Some target_file \<Rightarrow>
               (case fopen_w out_file_name h of
                  (None, h) \<Rightarrow>
                    fclose_all [Some target_file, Some secret_key_file, None] (- 1, say ''opening output file'' h)
                | (Some out_file, h) \<Rightarrow>
                    fclose_all [Some target_file, Some secret_key_file, Some out_file]
                      (sign_opened base hs signature secret_key_file target_file out_file h))))"

subsection \<open>Keys\<close>

definition unix_randombytes_buf :: "nat \<Rightarrow> host \<Rightarrow> u8 list res" where
  "unix_randombytes_buf sz h =
     (case fopen_r ''/dev/urandom'' h of
        None \<Rightarrow> Panic
      | Some urandom \<Rightarrow>
          (let (n, buf, urandom) = fread 1 sz urandom h in if n = sz then Ret buf else Panic))"

text \<open>\<open>crypto_sign_ed25519_keypair\<close> with this source of random bytes.\<close>

definition unix_keypair ::
    "(nat \<Rightarrow> nat \<Rightarrow> ge_precomp) \<Rightarrow> sha512_state \<Rightarrow> host \<Rightarrow> (int \<times> u8 list \<times> u8 list) res" where
  "unix_keypair base hs h =
     res_bind (unix_randombytes_buf 32 h) (\<lambda>seed. Ret (crypto_sign_ed25519_seed_keypair base hs seed))"

text \<open>After the second \<open>fopen\<close> the code tests the first stream again, so that the key is written to a null
  pointer when the file of the secret key cannot be opened.\<close>

definition generate_key ::
    "(nat \<Rightarrow> nat \<Rightarrow> ge_precomp) \<Rightarrow> sha512_state \<Rightarrow> string \<Rightarrow> string \<Rightarrow> host \<Rightarrow> (int \<times> host) res" where
  "generate_key base hs secret_key_name public_key_name h =
     res_bind (unix_keypair base hs h) (\<lambda>(error, public_key, secret_key).
     if error \<noteq> 0 then fclose_all [None, None] (- 1, say ''Could not generate key pair'' h)
     else
       (case fopen_w public_key_name h of
          (None, h) \<Rightarrow> fclose_all [None, None] (- 1, say ''public key file'' h)
        | (Some public_key_file, h) \<Rightarrow>
            (let (secret_key_file, h) = fopen_w secret_key_name h;
                 (written, public_key_file, h) = fwrite public_key public_key_file h
             in
             if written \<noteq> 1 \<or> f_err public_key_file
             then fclose_all [Some public_key_file, secret_key_file] (- 1, say ''writing to public key file'' h)
             else
               (case secret_key_file of
                  None \<Rightarrow> Fault
                | Some secret_key_file \<Rightarrow>
                    (let (written, secret_key_file, h) = fwrite secret_key secret_key_file h in
                     fclose_all [Some public_key_file, Some secret_key_file]
                       (if written \<noteq> 1 \<or> f_err secret_key_file then (- 1, say ''writing to secret key file'' h)
                        else (0, h)))))))"

subsection \<open>The header\<close>

definition hex_digit :: "nat \<Rightarrow> char" where
  "hex_digit n = ''0123456789abcdef'' ! n"

text \<open>\<open>%hhx\<close>: no leading zero.\<close>

definition hhx :: "u8 \<Rightarrow> string" where
  "hhx b = (if b < 16 then [hex_digit (unat b)] else [hex_digit (unat b div 16), hex_digit (unat b mod 16)])"

text \<open>The end of a line and the quotation mark.\<close>

abbreviation (input) nl :: char where "nl \<equiv> CHR 0x0A"

abbreviation (input) dq :: char where "dq \<equiv> CHR 0x22"

definition header_prelude :: string where
  "header_prelude =
     ''#pragma once'' @ [nl, nl] @ ''#include <truth/crypto.h>'' @ [nl, nl] @
     ''/* This file was automatically generated. Please do not edit. */'' @ [nl, nl]"

definition header_define :: string where
  "header_define =
     ''#define SIGNATURE_MAGIC_STRING '' @ [dq] @ butlast SIGNATURE_MAGIC_STRING @ [dq, nl]"

definition public_key_prelude :: string where
  "public_key_prelude =
     ''const unsigned char Kernel_Public_Key[crypto_sign_ed25519_PUBLICKEYBYTES] = {'' @ [nl]"

definition public_key_postscript :: string where
  "public_key_postscript = nl # ''};'' @ [nl]"

definition header_byte :: "u8 \<Rightarrow> string" where
  "header_byte b = ''0x'' @ hhx b @ '', ''"

primrec header_bytes :: "u8 list \<Rightarrow> fstream \<Rightarrow> host \<Rightarrow> bool \<times> fstream \<times> host" where
  "header_bytes [] f h = (True, f, h)"
| "header_bytes (b # bs) f h =
     (let (written, f, h) = fwrite (ascii (header_byte b)) f h in
      if written \<noteq> 1 then (False, f, h) else header_bytes bs f h)"

text \<open>The part after the two files are open.\<close>

definition header_opened :: "fstream \<Rightarrow> fstream \<Rightarrow> host \<Rightarrow> int \<times> host" where
  "header_opened public_key_file header_file h =
     (let (n, public_key, public_key_file) = fread 32 1 public_key_file h in
      if n \<noteq> 1 \<or> f_err public_key_file then (- 1, say ''Reading public key file'' h)
      else
        (let (written, header_file, h) = fwrite (ascii header_prelude) header_file h in
         if written \<noteq> 1 \<or> f_err header_file then (- 1, say ''writing to header file'' h)
         else
           (let (written, header_file, h) = fwrite (ascii header_define) header_file h in
            if written \<noteq> 1 then (- 1, h)
            else
              (let (written, header_file, h) = fwrite (ascii public_key_prelude) header_file h in
               if written \<noteq> 1 \<or> f_err header_file then (- 1, say ''writing to header file'' h)
               else
                 (let (good, header_file, h) = header_bytes public_key header_file h in
                  if \<not> good then (- 1, h)
                  else
                    (let (written, header_file, h) = fwrite (ascii public_key_postscript) header_file h in
                     if written \<noteq> 1 \<or> f_err header_file then (- 1, say ''writing to header file'' h)
                     else (0, h)))))))"

definition convert_public_key_to_header_file :: "string \<Rightarrow> string \<Rightarrow> host \<Rightarrow> (int \<times> host) res" where
  "convert_public_key_to_header_file public_key_name header_name h =
     (case fopen_r public_key_name h of
        None \<Rightarrow> fclose_all [None, None] (- 1, say ''opening public key file'' h)
      | Some public_key_file \<Rightarrow>
          (case fopen_w header_name h of
             (None, h) \<Rightarrow> fclose_all [None, Some public_key_file] (- 1, say ''opening header file'' h)
           | (Some header_file, h) \<Rightarrow>
               fclose_all [Some header_file, Some public_key_file] (header_opened public_key_file header_file h)))"

subsection \<open>The commands\<close>

definition usage :: "string \<Rightarrow> host \<Rightarrow> int \<times> host" where
  "usage name h = (1, say (''Usage: '' @ name @ '' <command> <args>'') h)"

text \<open>\<open>argv\<close> is the program's name and its arguments; \<open>junk\<close> is what an uninitialised array on the stack holds.\<close>

definition truesign_main ::
    "(nat \<Rightarrow> nat \<Rightarrow> ge_precomp) \<Rightarrow> ge_precomp list \<Rightarrow> sha512_state \<Rightarrow> u8 list \<Rightarrow> string list \<Rightarrow> host \<Rightarrow> (int \<times> host) res" where
  "truesign_main base Bi hs junk argv h =
     (let argc = length argv in
      if argc = 4 \<and> argv ! 1 = ''generate'' then generate_key base hs (argv ! 2) (argv ! 3) h
      else if argc = 5 \<and> argv ! 1 = ''sign'' then sign_file base hs (take 64 junk) (argv ! 2) (argv ! 3) (argv ! 4) h
      else if argc = 4 \<and> argv ! 1 = ''verify'' then verify_file Bi hs (take 32 junk) (argv ! 2) (argv ! 3) h
      else if argc = 4 \<and> argv ! 1 = ''header'' then convert_public_key_to_header_file (argv ! 2) (argv ! 3) h
      else Ret (usage (argv ! 0) h))"

subsection \<open>Streams\<close>

text \<open>A file that can be read to its end.\<close>

definition plain_file :: "host \<Rightarrow> string \<Rightarrow> u8 list \<Rightarrow> bool" where
  "plain_file h nm bs \<longleftrightarrow> disk h nm = Some bs \<and> readable h nm \<and> seekable h nm \<and> \<not> broken h nm \<and> length bs < 2 ^ 63"

lemma plain_fileD:
  assumes "plain_file h nm bs"
  shows "fopen_r nm h = Some \<lparr>f_name = nm, f_pos = 0, f_err = False\<rparr>" "contents_of h nm = bs" "seekable h nm"
    "\<not> broken h nm" "unat (of_nat (length bs) :: u64) = length bs"
  using assms by (simp_all add: plain_file_def fopen_r_def contents_of_def of_nat_inverse [OF refl])

lemma plain_file_size:
  "plain_file h nm bs \<Longrightarrow>
   get_file_size \<lparr>f_name = nm, f_pos = 0, f_err = e\<rparr> h = (0, of_nat (length bs), \<lparr>f_name = nm, f_pos = 0, f_err = e\<rparr>)"
  by (simp add: get_file_size_def plain_fileD ftell_def fseek_end_def fseek_set_def)

lemma fread_whole:
  assumes "\<not> broken h (f_name f)" "n = unat sz" "0 < n" "n \<le> length (contents_of h (f_name f)) - f_pos f"
  shows "fread sz 1 f h = (1, take n (drop (f_pos f) (contents_of h (f_name f))), f\<lparr>f_pos := f_pos f + n\<rparr>)"
proof -
  have "sz \<noteq> 0" using assms(2,3) by auto
  then show ?thesis using assms by (simp add: fread_def)
qed

text \<open>Writing at the end of a file appends to it.\<close>

lemma fwrite_append:
  assumes "\<not> broken h nm" "bs \<noteq> []" "disk h nm = Some old"
  shows "fwrite bs \<lparr>f_name = nm, f_pos = length old, f_err = e\<rparr> h =
    (1, \<lparr>f_name = nm, f_pos = length (old @ bs), f_err = e\<rparr>, h\<lparr>disk := (disk h)(nm \<mapsto> old @ bs)\<rparr>)"
  using assms by (simp add: fwrite_def contents_of_def put_at_def)

subsection \<open>Signed files\<close>

lemma signature_shape:
  assumes "length (sh_buf hs) = 128" "length m < 2 ^ 63" "length buf = 64" "length sk = 64"
  obtains sig where "crypto_sign_ed25519_detached base hs buf m sk = (0, sig, 64)" "length sig = 64"
proof -
  let ?R = "sign_R base m sk False"
  let ?x = "hash_scalar (dom_prefix False @ ?R @ drop 32 sk @ m)" and ?y = "clamp (fips_sha512 (take 32 sk))"
  let ?z = "hash_scalar (dom_prefix False @ drop 32 ?y @ m)"
  have "length ?R = 32" by (simp add: sign_R_def length_tobytes)
  moreover have "length (sc_muladd ?x ?y ?z) = 32" by (rule sc_muladd_val(2)) (simp_all add: hash_scalar_val)
  ultimately show ?thesis
    using that sign_detached_eq [OF assms, of base False] by (simp add: crypto_sign_ed25519_detached_def)
qed

lemma plain_file_truncated:
  "plain_file h nm bs \<Longrightarrow> nm \<noteq> out \<Longrightarrow> plain_file (h\<lparr>disk := (disk h)(out \<mapsto> x)\<rparr>) nm bs"
  by (simp add: plain_file_def)

text \<open>What \<open>sign\<close> expects of the machine: a key, a file that is not empty, and somewhere else to write to.\<close>

definition can_sign :: "host \<Rightarrow> string \<Rightarrow> u8 list \<Rightarrow> string \<Rightarrow> u8 list \<Rightarrow> string \<Rightarrow> bool" where
  "can_sign h skn sk nm bs out \<longleftrightarrow>
     plain_file h skn sk \<and> 64 \<le> length sk \<and> plain_file h nm bs \<and> bs \<noteq> [] \<and> memory_for h (of_nat (length bs)) \<and>
     writable h out \<and> \<not> broken h out \<and> out \<noteq> skn \<and> out \<noteq> nm"

lemma magic_bytes: "length (ascii SIGNATURE_MAGIC_STRING) = 31" "ascii SIGNATURE_MAGIC_STRING \<noteq> []"
  by (simp_all add: ascii_def magic_length) (simp add: SIGNATURE_MAGIC_STRING_def)

lemma sign_file_writes:
  assumes "can_sign h skn sk nm bs out"
    and "crypto_sign_ed25519_detached base hs buf bs (take 64 sk) = (0, sig, 64)" "length sig = 64"
  shows "sign_file base hs buf skn nm out h =
    Ret (0, h\<lparr>disk := (disk h)(out \<mapsto> bs @ ascii SIGNATURE_MAGIC_STRING @ sig)\<rparr>)"
proof -
  let ?h = "h\<lparr>disk := (disk h)(out \<mapsto> [])\<rparr>"
  note c = assms(1) [unfolded can_sign_def]
  have k: "plain_file ?h skn sk" and t: "plain_file ?h nm bs" using c by (auto intro: plain_file_truncated)
  have r: "fread 64 1 \<lparr>f_name = skn, f_pos = 0, f_err = False\<rparr> ?h = (1, take 64 sk, \<lparr>f_name = skn, f_pos = 64, f_err = False\<rparr>)"
    using fread_whole [of ?h "\<lparr>f_name = skn, f_pos = 0, f_err = False\<rparr>" 64 64] plain_fileD [OF k] c by simp
  have f: "fread (of_nat (length bs)) 1 \<lparr>f_name = nm, f_pos = 0, f_err = False\<rparr> ?h =
      (1, bs, \<lparr>f_name = nm, f_pos = length bs, f_err = False\<rparr>)"
    using fread_whole [of ?h "\<lparr>f_name = nm, f_pos = 0, f_err = False\<rparr>" "length bs" "of_nat (length bs)"] plain_fileD [OF t] c
    by simp
  have sig: "sig \<noteq> []" using assms(3) by auto
  let ?f = "\<lambda>n. \<lparr>f_name = out, f_pos = n, f_err = False\<rparr>" and ?d = "\<lambda>x. h\<lparr>disk := (disk h)(out \<mapsto> x)\<rparr>"
  have w: "fwrite y (?f (length x)) (?d x) = (1, ?f (length (x @ y)), ?d (x @ y))" if "y \<noteq> []" for x y
    using fwrite_append [of "?d x" out y x False] c that by simp
  have w0: "fwrite bs (?f 0) (?d []) = (1, ?f (length bs), ?d bs)" using w [of bs "[]"] c by simp
  have w2: "fwrite sig (?f (length bs + length (ascii SIGNATURE_MAGIC_STRING))) (?d (bs @ ascii SIGNATURE_MAGIC_STRING)) =
      (1, ?f (length (bs @ ascii SIGNATURE_MAGIC_STRING @ sig)), ?d (bs @ ascii SIGNATURE_MAGIC_STRING @ sig))"
    using w [OF sig, of "bs @ ascii SIGNATURE_MAGIC_STRING"] by simp
  have "sign_opened base hs buf \<lparr>f_name = skn, f_pos = 0, f_err = False\<rparr> \<lparr>f_name = nm, f_pos = 0, f_err = False\<rparr> (?f 0) ?h
      = (0, ?d (bs @ ascii SIGNATURE_MAGIC_STRING @ sig))"
    unfolding sign_opened_def Let_def plain_file_size [OF t] prod.case r f w0 assms(2) w [OF magic_bytes(2), of bs]
    using c w2 by simp
  moreover have "fopen_r skn h = Some \<lparr>f_name = skn, f_pos = 0, f_err = False\<rparr>" "fopen_r nm h = Some \<lparr>f_name = nm, f_pos = 0, f_err = False\<rparr>"
    using c by (auto dest: plain_fileD(1))
  ultimately show ?thesis using c by (simp add: sign_file_def fopen_w_def fclose_all_def)
qed

text \<open>A file of this shape is accepted by the kernel exactly if the signature is valid for the contents.\<close>

lemma signed_shape:
  assumes "length sig = 64"
  shows "signed_by Bi hs key (bs @ ascii SIGNATURE_MAGIC_STRING @ sig) \<longleftrightarrow>
    crypto_sign_ed25519_verify_detached Bi hs sig bs key = 0"
  using assms magic_bytes by (simp add: signed_by_def ascii_def magic_length)

subsection \<open>The verification of the tool\<close>

lemma key_read_length:
  assumes "fread 1 32 f h = (1, bs, f')" "f_pos f = 0"
  shows "length bs = 1 \<and> bs = contents_of h (f_name f)"
proof -
  let ?c = "contents_of h (f_name f)"
  have "\<not> broken h (f_name f)" using assms(1) by (auto simp: fread_def split: if_splits)
  then have "length (take 32 ?c) = 1" "bs = take 32 ?c" using assms by (auto simp: fread_def Let_def)
  then show ?thesis by (cases ?c) (auto simp: min_def split: if_splits)
qed

lemma verify_opened_zero:
  assumes "verify_opened Bi hs pk pf tf nm h = (0, h')" "f_pos pf = 0"
  shows "length (contents_of h (f_name pf)) = 1"
proof -
  obtain e sz tf' where g: "get_file_size tf h = (e, sz, tf')" by (metis prod_cases3)
  obtain n bs pf' where r: "fread 1 32 pf h = (n, bs, pf')" by (metis prod_cases3)
  have "n = 1" using assms(1) unfolding verify_opened_def g r Let_def prod.case by (auto split: if_splits)
  then show ?thesis using key_read_length [of pf h bs pf'] r assms(2) by auto
qed

lemma verify_file_zero:
  assumes "verify_file Bi hs pk pkn nm h = Ret (0, h')"
  shows "length (contents_of h pkn) = 1"
  using assms verify_opened_zero [where pf = "\<lparr>f_name = pkn, f_pos = 0, f_err = False\<rparr>"]
  by (auto simp: verify_file_def fclose_all_def fopen_r_def split: if_splits option.splits)

lemma verify_file_keeps_disk:
  assumes "verify_file Bi hs pk pkn nm h = Ret (e, h')"
  shows "disk h' = disk h"
  using assms
  by (auto simp: verify_file_def verify_opened_def fclose_all_def say_def Let_def split: if_splits option.splits prod.splits)

subsection \<open>The text of the header\<close>

definition header_text :: "u8 list \<Rightarrow> string" where
  "header_text key = header_prelude @ header_define @ public_key_prelude @ concat (map header_byte key) @ public_key_postscript"

text \<open>How a C compiler reads it: the numbers of the first initialiser and the first string.\<close>

definition hex_of :: "char \<Rightarrow> nat option" where
  "hex_of c = (if c \<in> set ''0123456789abcdef'' then Some (length (takeWhile (\<lambda>x. x \<noteq> c) ''0123456789abcdef'')) else None)"

fun c_list :: "nat option \<Rightarrow> string \<Rightarrow> u8 list" where
  "c_list a [] = []"
| "c_list None (c # cs) =
     (if c = CHR ''x'' then c_list (Some 0) cs else if c \<in> {CHR ''0'', CHR '','', CHR '' ''} then c_list None cs else [])"
| "c_list (Some n) (c # cs) =
     (case hex_of c of Some d \<Rightarrow> c_list (Some (16 * n + d)) cs | None \<Rightarrow> of_nat n # c_list None cs)"

definition initialiser :: "string \<Rightarrow> u8 list" where
  "initialiser cs = c_list None (drop 2 (dropWhile (\<lambda>c. c \<noteq> CHR ''{'') cs))"

definition first_string :: "string \<Rightarrow> string" where
  "first_string cs = takeWhile (\<lambda>c. c \<noteq> dq) (tl (dropWhile (\<lambda>c. c \<noteq> dq) cs))"

lemma hex_of_digit: "n < 16 \<Longrightarrow> hex_of (hex_digit n) = Some n"
proof -
  have "\<forall>n \<in> {..<16}. hex_of (hex_digit n) = Some n" by code_simp
  then show "n < 16 \<Longrightarrow> hex_of (hex_digit n) = Some n" by simp
qed

lemma c_list_hhx: "c_list (Some 0) (hhx b @ CHR '','' # cs) = b # c_list None cs"
proof -
  have "unat b < 256" using unsigned_less [of b, where ?'a = nat] by simp
  moreover have "16 * (unat b div 16) + unat b mod 16 = unat b" by (rule mult_div_mod_eq)
  moreover have "hex_of CHR '','' = None" by code_simp
  ultimately show ?thesis by (auto simp: hhx_def hex_of_digit word_less_nat_alt)
qed

lemma c_list_bytes: "c_list None (concat (map header_byte key) @ public_key_postscript) = key"
  by (induction key) (simp_all add: header_byte_def c_list_hhx public_key_postscript_def)

lemma header_text_read:
  "initialiser (header_text key) = key" "first_string (header_text key) = butlast SIGNATURE_MAGIC_STRING"
proof -
  have d: "dropWhile (\<lambda>c. c \<noteq> CHR ''{'') (header_prelude @ header_define @ public_key_prelude @ cs) = CHR ''{'' # nl # cs" for cs
    by (simp add: header_prelude_def header_define_def SIGNATURE_MAGIC_STRING_def public_key_prelude_def)
  show "initialiser (header_text key) = key" unfolding initialiser_def header_text_def d by (simp add: c_list_bytes)
  show "first_string (header_text key) = butlast SIGNATURE_MAGIC_STRING"
    by (simp add: first_string_def header_text_def header_prelude_def header_define_def SIGNATURE_MAGIC_STRING_def)
qed

lemma header_bytes_append:
  assumes "\<not> broken h nm" "disk h nm = Some old"
  shows "header_bytes bs \<lparr>f_name = nm, f_pos = length old, f_err = e\<rparr> h =
    (True, \<lparr>f_name = nm, f_pos = length (old @ ascii (concat (map header_byte bs))), f_err = e\<rparr>,
     h\<lparr>disk := (disk h)(nm \<mapsto> old @ ascii (concat (map header_byte bs)))\<rparr>)"
  using assms
proof (induction bs arbitrary: h old)
  case (Cons b bs)
  have "ascii (header_byte b) \<noteq> []" by (simp add: ascii_def header_byte_def)
  from fwrite_append [OF Cons.prems(1) this Cons.prems(2)]
  show ?case using Cons.IH [of "h\<lparr>disk := (disk h)(nm \<mapsto> old @ ascii (header_byte b))\<rparr>" "old @ ascii (header_byte b)"] Cons.prems
    by (simp add: fun_upd_same del: fun_upd_apply)
qed (simp add: fun_upd_idem)

lemma header_file_written:
  assumes "plain_file h pkn key" "32 \<le> length key" "writable h out" "\<not> broken h out" "out \<noteq> pkn"
  shows "convert_public_key_to_header_file pkn out h =
    Ret (0, h\<lparr>disk := (disk h)(out \<mapsto> ascii (header_text (take 32 key)))\<rparr>)"
proof -
  let ?f = "\<lambda>n. \<lparr>f_name = out, f_pos = n, f_err = False\<rparr>" and ?d = "\<lambda>x. h\<lparr>disk := (disk h)(out \<mapsto> x)\<rparr>"
  have w: "fwrite y (?f n) (?d x) = (1, ?f (n + length y), ?d (x @ y))" if "n = length x" "y \<noteq> []" for n x y
    using fwrite_append [of "?d x" out y x False] assms(4) that by simp
  have ne: "ascii header_prelude \<noteq> []" "ascii header_define \<noteq> []" "ascii public_key_prelude \<noteq> []" "ascii public_key_postscript \<noteq> []"
    by (simp_all add: ascii_def header_prelude_def header_define_def public_key_prelude_def public_key_postscript_def)
  have k: "plain_file (?d []) pkn key" using assms by (auto intro: plain_file_truncated)
  have r: "fread 32 1 \<lparr>f_name = pkn, f_pos = 0, f_err = False\<rparr> (?d []) = (1, take 32 key, \<lparr>f_name = pkn, f_pos = 32, f_err = False\<rparr>)"
    using fread_whole [of "?d []" "\<lparr>f_name = pkn, f_pos = 0, f_err = False\<rparr>" 32 32] plain_fileD [OF k] assms(2) by simp
  have b: "header_bytes bs (?f n) (?d x) = (True, ?f (n + length (ascii (concat (map header_byte bs)))), ?d (x @ ascii (concat (map header_byte bs))))"
    if "n = length x" for bs n x
    using header_bytes_append [of "?d x" out x bs False] assms(4) that by simp
  have "header_opened \<lparr>f_name = pkn, f_pos = 0, f_err = False\<rparr> (?f 0) (?d []) = (0, ?d (ascii (header_text (take 32 key))))"
    unfolding header_opened_def Let_def r prod.case by (simp add: w ne b header_text_def)
  then show ?thesis using assms plain_fileD(1) [OF assms(1)]
    by (simp add: convert_public_key_to_header_file_def fopen_w_def fclose_all_def)
qed

text \<open>What \<open>generate\<close> expects, and its result.\<close>

definition can_generate :: "host \<Rightarrow> u8 list \<Rightarrow> string \<Rightarrow> string \<Rightarrow> bool" where
  "can_generate h rnd skn pkn \<longleftrightarrow>
     plain_file h ''/dev/urandom'' rnd \<and> 32 \<le> length rnd \<and> writable h pkn \<and> writable h skn \<and>
     \<not> broken h pkn \<and> \<not> broken h skn \<and> pkn \<noteq> skn"

lemma generate_key_writes:
  assumes "can_generate h rnd skn pkn" "length (sh_buf hs) = 128"
    and "crypto_sign_ed25519_seed_keypair base hs (take 32 rnd) = (ret, pk, sk)"
  shows "generate_key base hs skn pkn h = Ret (0, h\<lparr>disk := (disk h)(pkn \<mapsto> pk, skn \<mapsto> sk)\<rparr>)" "length pk = 32" "sk = take 32 rnd @ pk"
proof -
  note c = assms(1) [unfolded can_generate_def]
  have k: "ret = 0" "length pk = 32" "sk = take 32 rnd @ pk"
    using assms(2,3) c
    by (auto simp: crypto_sign_ed25519_seed_keypair_def Let_def put_at_def represents_whole length_tobytes)
  show "length pk = 32" "sk = take 32 rnd @ pk" by fact+
  have "fread 1 32 \<lparr>f_name = ''/dev/urandom'', f_pos = 0, f_err = False\<rparr> h =
      (32, take 32 rnd, \<lparr>f_name = ''/dev/urandom'', f_pos = 32, f_err = False\<rparr>)"
    using plain_fileD [of h "''/dev/urandom''" rnd] c by (simp add: fread_def)
  then have r: "unix_keypair base hs h = Ret (0, pk, sk)"
    using plain_fileD(1) [of h "''/dev/urandom''" rnd] c assms(3) k(1) by (simp add: unix_keypair_def unix_randombytes_buf_def)
  have ne: "pk \<noteq> []" "sk \<noteq> []" using k by auto
  let ?h = "h\<lparr>disk := (disk h)(pkn \<mapsto> [], skn \<mapsto> [])\<rparr>" and ?g = "h\<lparr>disk := (disk h)(pkn \<mapsto> pk, skn \<mapsto> [])\<rparr>"
  have p: "fwrite pk \<lparr>f_name = pkn, f_pos = 0, f_err = False\<rparr> ?h = (1, \<lparr>f_name = pkn, f_pos = length pk, f_err = False\<rparr>, ?g)"
    using fwrite_append [of ?h pkn pk "[]" False] c ne(1) by (simp add: fun_upd_twist [of pkn skn])
  have s: "fwrite sk \<lparr>f_name = skn, f_pos = 0, f_err = False\<rparr> ?g =
      (1, \<lparr>f_name = skn, f_pos = length sk, f_err = False\<rparr>, h\<lparr>disk := (disk h)(pkn \<mapsto> pk, skn \<mapsto> sk)\<rparr>)"
    using fwrite_append [of ?g skn sk "[]" False] c ne(2) by simp
  show "generate_key base hs skn pkn h = Ret (0, h\<lparr>disk := (disk h)(pkn \<mapsto> pk, skn \<mapsto> sk)\<rparr>)"
    using c p s by (simp add: generate_key_def r fopen_w_def fclose_all_def)
qed

subsection \<open>Properties\<close>

text \<open>(C19) Signing a file with a whole key succeeds and writes the file, the magic string and the
  signature, and nothing else; and this is the form that the kernel expects of a module: it accepts the written
  file exactly if the signature of the tool is valid for the original file and the key of the kernel.\<close>

theorem signed_files_fit_the_kernel:
  assumes "can_sign h skn sk nm bs out" "length (sh_buf hs) = 128" "length buf = 64"
  shows "\<exists>sig. crypto_sign_ed25519_detached base hs buf bs (take 64 sk) = (0, sig, 64) \<and>
    sign_file base hs buf skn nm out h = Ret (0, h\<lparr>disk := (disk h)(out \<mapsto> bs @ ascii SIGNATURE_MAGIC_STRING @ sig)\<rparr>) \<and>
    (\<forall>v. file_at v (bs @ ascii SIGNATURE_MAGIC_STRING @ sig) \<longrightarrow>
      module_verify Bi hs' key v (v_start v) (of_nat (length bs) + 95) =
        Ret (if crypto_sign_ed25519_verify_detached Bi hs' sig bs key = 0 then Ok else Error_Invalid))"
proof -
  have "length bs < 2 ^ 63" "length (take 64 sk) = 64" using assms(1) by (simp_all add: can_sign_def plain_file_def)
  then obtain sig where s: "crypto_sign_ed25519_detached base hs buf bs (take 64 sk) = (0, sig, 64)" "length sig = 64"
    using signature_shape [OF assms(2) _ assms(3), of bs "take 64 sk" base] by blast
  let ?f = "bs @ ascii SIGNATURE_MAGIC_STRING @ sig"
  have l: "95 \<le> length ?f" "of_nat (length bs) + 95 = (of_nat (length ?f) :: u64)" using s(2) magic_bytes(1) by simp_all
  have "module_verify Bi hs' key v (v_start v) (of_nat (length bs) + 95) =
      Ret (if crypto_sign_ed25519_verify_detached Bi hs' sig bs key = 0 then Ok else Error_Invalid)" if "file_at v ?f" for v
    using verify_file [OF that l, of Bi hs' key] signed_shape [OF s(2), of Bi hs' key bs] by simp
  then show ?thesis using s sign_file_writes [OF assms(1) s] by blast
qed

text \<open>The verification of the tool accepts no file with a usable key: it compares the number of bytes
  of the key that it has read with 1, so it succeeds for a key file of a single byte at most, and then with 31
  uninitialised bytes. It never changes a file.\<close>

theorem verify_needs_one_byte_key:
  assumes "verify_file Bi hs junk pkn nm h = Ret (e, h')"
  shows "disk h' = disk h \<and> (length (contents_of h pkn) \<noteq> 1 \<longrightarrow> e \<noteq> 0)"
  using verify_file_keeps_disk [OF assms] verify_file_zero [of Bi hs junk pkn nm h h'] assms by auto

text \<open>(C20) A generated key reaches the kernel: after \<open>generate\<close> and \<open>header\<close> the header, read as C reads
  it, initialises \<open>Kernel_Public_Key\<close> with the public key that belongs to the random seed, and defines the magic
  string that the tool writes; the file of the secret key is the seed followed by that key.\<close>

theorem generated_key_reaches_header:
  assumes "can_generate h rnd skn pkn" "length (sh_buf hs) = 128" "readable h pkn" "seekable h pkn"
    and "writable h hdr" "\<not> broken h hdr" "hdr \<noteq> pkn" "hdr \<noteq> skn"
    and "crypto_sign_ed25519_seed_keypair base hs (take 32 rnd) = (ret, pk, sk)"
  shows "\<exists>h1 h2 cs. generate_key base hs skn pkn h = Ret (0, h1) \<and>
    convert_public_key_to_header_file pkn hdr h1 = Ret (0, h2) \<and>
    disk h2 hdr = Some (ascii cs) \<and> initialiser cs = pk \<and> first_string cs @ [CHR 0x00] = SIGNATURE_MAGIC_STRING \<and>
    disk h2 skn = Some (take 32 rnd @ pk)"
proof -
  let ?h = "h\<lparr>disk := (disk h)(pkn \<mapsto> pk, skn \<mapsto> sk)\<rparr>"
  note g = generate_key_writes [OF assms(1,2,9)]
  have "plain_file ?h pkn pk" using assms(1,3,4) g(2) by (simp add: plain_file_def can_generate_def)
  from header_file_written [OF this, of hdr] have "convert_public_key_to_header_file pkn hdr ?h =
      Ret (0, ?h\<lparr>disk := (disk ?h)(hdr \<mapsto> ascii (header_text pk))\<rparr>)" using assms(5-8) g(2) by simp
  moreover have "first_string (header_text pk) @ [CHR 0x00] = SIGNATURE_MAGIC_STRING"
    by (simp add: header_text_read SIGNATURE_MAGIC_STRING_def)
  ultimately show ?thesis using g assms(7,8) header_text_read(1) [of pk]
    by (intro exI [of _ ?h] exI [of _ "?h\<lparr>disk := (disk ?h)(hdr \<mapsto> ascii (header_text pk))\<rparr>"] exI [of _ "header_text pk"])
       (simp add: can_generate_def)
qed

text \<open>A file that is missing is not reported: the functions go on to close the null pointer. The same
  happens when a file cannot be written to.\<close>

theorem missing_file_crashes:
  assumes "disk h nm = None"
  shows "verify_file Bi hs junk nm other h = Fault \<and> verify_file Bi hs junk other nm h = Fault \<and>
    sign_file base hs junk nm other out h = Fault \<and> sign_file base hs junk other nm out h = Fault \<and>
    convert_public_key_to_header_file nm out h = Fault"
  using assms
  by (auto simp: verify_file_def sign_file_def convert_public_key_to_header_file_def fopen_r_def fclose_all_def split: option.splits)

definition demo_host :: host where
  "demo_host = \<lparr>disk = [''key.priv'' \<mapsto> replicate 64 9, ''mod'' \<mapsto> [1, 2, 3], ''long'' \<mapsto> replicate 100 1,
     ''/dev/urandom'' \<mapsto> replicate 40 5],
     readable = \<lambda>_. True, writable = \<lambda>_. True, seekable = \<lambda>_. True, broken = \<lambda>_. False, memory_for = \<lambda>_. True, said = []\<rparr>"

theorem signed_files_fit_the_kernel_witness:
  "\<exists>sig h'. sign_file (\<lambda>i j. ge_precomp_0) demo_hash_state (replicate 64 0) ''key.priv'' ''mod'' ''mod.signed'' demo_host = Ret (0, h') \<and>
     disk h' ''mod.signed'' = Some ([1, 2, 3] @ ascii SIGNATURE_MAGIC_STRING @ sig)"
proof -
  have "can_sign demo_host ''key.priv'' (replicate 64 9) ''mod'' [1, 2, 3] ''mod.signed''"
    by (simp add: can_sign_def plain_file_def demo_host_def)
  from signed_files_fit_the_kernel [OF this demo_hash_state_buf, of "replicate 64 0" "\<lambda>i j. ge_precomp_0"]
  show ?thesis by fastforce
qed

theorem verify_needs_one_byte_key_witness:
  "\<exists>e h'. verify_file [] demo_hash_state (replicate 32 0) ''key.priv'' ''long'' demo_host = Ret (e, h') \<and> e \<noteq> 0 \<and> disk h' = disk demo_host"
proof -
  obtain e h' where "verify_file [] demo_hash_state (replicate 32 0) ''key.priv'' ''long'' demo_host = Ret (e, h')"
  proof -
    have "\<exists>r. verify_file [] demo_hash_state (replicate 32 0) ''key.priv'' ''long'' demo_host = Ret r"
      by (simp add: verify_file_def fopen_r_def demo_host_def fclose_all_def)
    then show ?thesis using that by auto
  qed
  then show ?thesis using verify_needs_one_byte_key [of "[]" demo_hash_state "replicate 32 0" "''key.priv''" "''long''" demo_host e h']
    by (auto simp: contents_of_def demo_host_def)
qed

theorem generated_key_reaches_header_witness:
  "\<exists>h1 h2 cs. generate_key (\<lambda>i j. ge_precomp_0) demo_hash_state ''k'' ''p'' demo_host = Ret (0, h1) \<and>
     convert_public_key_to_header_file ''p'' ''key.h'' h1 = Ret (0, h2) \<and> disk h2 ''key.h'' = Some (ascii cs) \<and>
     initialiser cs = fst (snd (crypto_sign_ed25519_seed_keypair (\<lambda>i j. ge_precomp_0) demo_hash_state (replicate 32 5)))"
proof -
  obtain ret pk sk where k: "crypto_sign_ed25519_seed_keypair (\<lambda>i j. ge_precomp_0) demo_hash_state (take 32 (replicate 40 5)) = (ret, pk, sk)"
    by (metis prod_cases3)
  have "can_generate demo_host (replicate 40 5) ''k'' ''p''" by (simp add: can_generate_def plain_file_def demo_host_def)
  from generated_key_reaches_header [OF this demo_hash_state_buf _ _ _ _ _ _ k, of "''key.h''"] k
  show ?thesis by (fastforce simp: demo_host_def)
qed

theorem missing_file_crashes_witness:
  "verify_file [] demo_hash_state (replicate 32 0) ''none'' ''mod'' demo_host = Fault"
  using missing_file_crashes [of demo_host "''none''" "[]" demo_hash_state "replicate 32 0" "''mod''"] by (simp add: demo_host_def)

end
