(* ===== verification/Base_Points.thy ===== *)
theory Base_Points
  imports Base_Tables
begin

text \<open>
  What the first row of \<open>base\<close> and the table \<open>Bi\<close> hold: the multiples \<open>B, 2B, ..., 8B\<close> and the odd multiples
  \<open>B, 3B, ..., 15B\<close> of the base point. The affine coordinates of the multiples are given, and each step is checked
  by the kernel with the quotients of its products modulo \<open>2 ^ 255 - 19\<close> as certificates.
\<close>

subsection \<open>Points of the curve\<close>

definition on_curve :: "int \<times> int \<Rightarrow> bool" where
  "on_curve = (\<lambda>(x, y). eqp (y * y - x * x) (1 + d_val * (x * x) * (y * y)))"

text \<open>The addition law, without divisions.\<close>

definition curve_sum :: "int \<times> int \<Rightarrow> int \<times> int \<Rightarrow> int \<times> int \<Rightarrow> bool" where
  "curve_sum = (\<lambda>(x1, y1) (x2, y2) (x3, y3).
     eqp (x3 * (1 + d_val * x1 * x2 * y1 * y2)) (x1 * y2 + y1 * x2) \<and>
     eqp (y3 * (1 - d_val * x1 * x2 * y1 * y2)) (y1 * y2 + x1 * x2))"

text \<open>What an entry of a table stands for.\<close>

definition entry_point :: "ge_precomp \<Rightarrow> int \<times> int \<Rightarrow> bool" where
  "entry_point q = (\<lambda>(x, y). eqp (fe_val (yplusx q)) (y + x) \<and> eqp (fe_val (yminusx q)) (y - x) \<and>
     eqp (fe_val (xy2d q)) (2 * d_val * x * y))"

subsection \<open>Congruences with a certificate\<close>

definition cong_by :: "int \<Rightarrow> int \<Rightarrow> int \<Rightarrow> bool" where
  "cong_by k a b \<longleftrightarrow> a = b + (push_bit 255 k - 19 * k)"

lemma cong_byD: "cong_by k a b \<Longrightarrow> eqp a b"
  by (simp add: cong_by_def eqp_def p25519_def push_bit_eq_mult mod_eq_dvd_iff right_diff_distrib mult.commute dvd_def)

lemma eqp_sym: "eqp a b \<Longrightarrow> eqp b a" by (simp add: eqp_def)

definition fe_eval :: "int list \<Rightarrow> int" where
  "fe_eval h = foldr (\<lambda>(x, w) s. push_bit w x + s) (zip h limb_weights) 0"

lemma fe_eval_val: "length h = 10 \<Longrightarrow> fe_eval h = fe_val h"
  by (auto simp: fe_eval_def fe_val_eq limb_weights_def push_bit_eq_mult numeral_eq_Suc length_Suc_conv)

definition d_num :: int where
  "d_num = 37095705934669439343138083508754565189542113879843219016388785533085940283555"

lemma d_num: "eqp d_num d_val"
proof -
  have "cong_by (-1) (fe_eval fe_d) d_num" by code_simp
  then show ?thesis using fe_eval_val [of fe_d] by (auto dest!: cong_byD simp: fe_d_def intro: eqp_sym)
qed

definition sum_check :: "int list \<Rightarrow> int \<times> int \<Rightarrow> int \<times> int \<Rightarrow> int \<times> int \<Rightarrow> bool" where
  "sum_check cs = (\<lambda>(x1, y1) (x2, y2) (x3, y3).
     (case cs of [e, f, g, m, k1, k2, k3, k4, k5, k6] \<Rightarrow>
        cong_by k1 (x1 * x2) e \<and> cong_by k2 (y1 * y2) f \<and> cong_by k3 (e * f) g \<and> cong_by k4 (d_num * g) m \<and>
        cong_by k5 (x3 * m + x3) (x1 * y2 + y1 * x2) \<and> cong_by k6 (y3 - y3 * m) (f + e)
      | _ \<Rightarrow> False))"

definition point_check :: "int list \<Rightarrow> ge_precomp \<Rightarrow> int \<times> int \<Rightarrow> bool" where
  "point_check cs q = (\<lambda>(x, y).
     (case cs of [k1, k2, h, k3, k4] \<Rightarrow>
        map length [yplusx q, yminusx q, xy2d q] = [10, 10, 10] \<and>
        cong_by k1 (fe_eval (yplusx q)) (y + x) \<and> cong_by k2 (fe_eval (yminusx q)) (y - x) \<and>
        cong_by k3 (x * y) h \<and> cong_by k4 (fe_eval (xy2d q)) (2 * (d_num * h))
      | _ \<Rightarrow> False))"

definition curve_check :: "int list \<Rightarrow> int \<times> int \<Rightarrow> bool" where
  "curve_check cs = (\<lambda>(x, y).
     (case cs of [a, b, c, k1, k2, k3, k4] \<Rightarrow>
        cong_by k1 (x * x) a \<and> cong_by k2 (y * y) b \<and> cong_by k3 (a * b) c \<and> cong_by k4 (b - a) (1 + d_num * c)
      | _ \<Rightarrow> False))"

lemma sum_checkD:
  assumes "sum_check cs P Q R"
  shows "curve_sum P Q R"
proof -
  obtain x1 y1 x2 y2 x3 y3 where P: "P = (x1, y1)" "Q = (x2, y2)" "R = (x3, y3)" by (metis surj_pair)
  obtain e f g m where c: "eqp (x1 * x2) e" "eqp (y1 * y2) f" "eqp (e * f) g" "eqp (d_num * g) m"
    "eqp (x3 * m + x3) (x1 * y2 + y1 * x2)" "eqp (y3 - y3 * m) (f + e)"
    using assms by (auto simp: sum_check_def P dest!: cong_byD split: list.splits)
  have "eqp (d_val * ((x1 * x2) * (y1 * y2))) (d_num * g)"
    by (rule eqp_arith(3) [OF eqp_sym [OF d_num] eqp_trans [OF eqp_arith(3) [OF c(1,2)] c(3)]])
  then have m: "eqp (d_val * x1 * x2 * y1 * y2) m" using eqp_trans [OF _ c(4)] by (simp add: mult.assoc mult.left_commute)
  have "eqp (x3 * (d_val * x1 * x2 * y1 * y2) + x3) (x3 * m + x3)" "eqp (y3 - y3 * (d_val * x1 * x2 * y1 * y2)) (y3 - y3 * m)"
    using m by (intro eqp_arith eqp_refl; assumption)+
  moreover have "eqp (f + e) (y1 * y2 + x1 * x2)" using c(1,2) by (intro eqp_arith) (auto intro: eqp_sym)
  ultimately show ?thesis using c(5,6) eqp_trans by (fastforce simp: curve_sum_def P distrib_left right_diff_distrib add.commute)
qed

lemma point_checkD:
  assumes "point_check cs q P"
  shows "entry_point q P"
proof -
  obtain x y where P: "P = (x, y)" by (cases P)
  obtain h where c: "map length [yplusx q, yminusx q, xy2d q] = [10, 10, 10]" "eqp (fe_eval (yplusx q)) (y + x)"
    "eqp (fe_eval (yminusx q)) (y - x)" "eqp (x * y) h" "eqp (fe_eval (xy2d q)) (2 * (d_num * h))"
    using assms by (auto simp: point_check_def P dest!: cong_byD split: list.splits)
  have "eqp (2 * (d_num * h)) (2 * (d_val * (x * y)))" using eqp_sym [OF c(4)] d_num by (intro eqp_arith(3) eqp_refl)
  then have "eqp (fe_eval (xy2d q)) (2 * d_val * x * y)" using eqp_trans [OF c(5)] by (simp add: mult.assoc)
  then show ?thesis using c(1-3) by (simp add: entry_point_def P fe_eval_val)
qed

lemma curve_checkD:
  assumes "curve_check cs P"
  shows "on_curve P"
proof -
  obtain x y where P: "P = (x, y)" by (cases P)
  obtain a b c where c: "eqp (x * x) a" "eqp (y * y) b" "eqp (a * b) c" "eqp (b - a) (1 + d_num * c)"
    using assms by (auto simp: curve_check_def P dest!: cong_byD split: list.splits)
  have "eqp (d_val * ((x * x) * (y * y))) (d_num * c)"
    by (rule eqp_arith(3) [OF eqp_sym [OF d_num] eqp_trans [OF eqp_arith(3) [OF c(1,2)] c(3)]])
  then have "eqp (1 + d_num * c) (1 + d_val * (x * x) * (y * y))"
    by (intro eqp_arith(1) eqp_refl) (simp add: mult.assoc eqp_sym)
  moreover have "eqp (y * y - x * x) (b - a)" using c by (intro eqp_arith)
  ultimately show ?thesis using c(4) eqp_trans by (auto simp: on_curve_def P)
qed

subsection \<open>The multiples\<close>

definition multiple :: "nat \<Rightarrow> int \<times> int" where
  "multiple k =
    (case map_of
      [(1, (15112221349535400772501151409588531511454012693041857206046113283949847762202,
           46316835694926478169428394003475163141307993866256225615783033603165251855960)),
       (2, (24727413235106541002554574571675588834622768167397638456726423682521233608206,
           15549675580280190176352668710449542251549572066445060580507079593062643049417)),
       (3, (46896733464454938657123544595386787789046198280132665686241321779790909858396,
           8324843778533443976490377120369201138301417226297555316741202210403726505172)),
       (4, (14582954232372986451776170844943001818709880559417862259286374126315108956272,
           32483318716863467900234833297694612235682047836132991208333042722294373421359)),
       (5, (33467004535436536005251147249499675200073690106659565782908757308821616914995,
           43097193783671926753355113395909008640284023746042808659097434958891230611693)),
       (6, (34643617590234865996699167120328052565261792237873803846102513686264813449789,
           2399184961499513294557607325187831088545696902880432827228757905043131825908)),
       (7, (9199134265559022971505535402808359556995554859516252602543778295037484220679,
           22512087849695599276028560866629687720820254811233262850576678203618951717560)),
       (8, (46706390780465557264338673484185971070529246228527338942042475661633188627656,
           15299170165656271974649334809062094114079726227711063015095704409550798436788)),
       (9, (24193060302538010417230488029838514081720802923509845138863968807030823940444,
           57551756252899625001155759838357770487605224608455116862194664796369308545472)),
       (11, (9451145793506787353375160377761530931587019091193333050860601958827395183563,
           20609402718286069808115703540855311742885093522056241285814584245966805874451)),
       (13, (7442235066513780790779899786332475485840754593728627195931759107337804079085,
           8529785864514984411577036536286432879603480171865651918962709025066066124672)),
       (15, (35771902585589234259498423420223840099331465042459337605611172842168536632769,
           8502034780705657720897159939055122322178084209392286764802307224484658961631))] k of Some P \<Rightarrow> P | None \<Rightarrow> (0, 1))"

lemma point_checks:
  "point_check [- 1,
      - 1,
      46827403850823179245072216630277197565144205554125654976674165829533817101731,
      12089777079628320618000921127670825209163210154433485764836890627159878209761,
      - 60007401693010716848578972718972579622751081550669298468045873082723336218259]
    (ed25519_base 0 0) (multiple 1)"
  "point_check [- 1,
      0,
      16552979481334663544878610556091376071931149008662153799327195285289362371585,
      6641269818655623607039518867122167455242689595721592842383860057608506014033,
      - 21211965799277426670409351600284438079453466391107757293353139060456203765668]
    (ed25519_base 0 1) (multiple 2)"
  "point_check [- 1,
      1,
      19133203167024340156157901305709655404499344800967978305064989153409356768282,
      6743258237874379575953832327795487793144750025096763998866812939822304010670,
      - 24518416860674016354171078136646165519664432527730980697505321609225690116736]
    (ed25519_base 0 2) (multiple 3)"
  "point_check [- 1,
      0,
      15591078450528575260807955779595146919206594628260116491306850071973737403224,
      8181953590849366369333656401341534253729298769835090453278751989143907370776,
      - 19979328992667714636073910423591466442338041593313125788302820793988668966980]
    (ed25519_base 0 3) (multiple 4)"
  "point_check [- 1,
      0,
      52631435118507418230927645098360784166288333741771923328027903523704223039952,
      24912478724978669719436288467669755371092766181383718252439230274986184940067,
      - 67445030241205362027057100153579717089129371506252038910400855114664124851304]
    (ed25519_base 0 4) (multiple 5)"
  "point_check [- 1,
      1,
      27228768421258538231954343865440844652488997325483373020760696800100167381458,
      1435615280489224445828942273691445464436192678041878350010646371346864230746,
      - 34892552435014044151562488715507061050495286875676957306616476567846539677831]
    (ed25519_base 0 5) (multiple 6)"
  "point_check [- 1,
      0,
      7969306344939599448108779620249142998159244560978835759187616138611789393179,
      3576957978588238476811314794424929515154206407324990029083190680237458175489,
      - 10212339949036977873478538216042640383040519286425215616646731479385893218241]
    (ed25519_base 0 6) (multiple 7)"
  "point_check [- 1,
      1,
      20041966898814491726444579060880528788025287386839181497696933332457633763775,
      12342277008396846568104187419059538946643103295059482637825592585437432444997,
      - 25682960393159694615340146971067374971980853783983173502095317310205560140960]
    (ed25519_base 0 7) (multiple 8)"
  "point_check [- 1,
      - 1,
      41812410146810177838232618347187858057822209473536282119740688245908349056101,
      24049192284452839026368981968108426564614361617599417040661616562485502377383,
      - 53580892492472628563105941894284836764544414043521129529110603656071299305776]
    (ed25519_Bi ! 4) (multiple 9)"
  "point_check [- 1,
      0,
      41115672721981046446137450827132502570366877864937539642265045489017153122004,
      3364348481672345450490071950188201941897672407967167034662012885099961841041,
      - 52688051995496399580961730955716703727794946229204640619610599856925224329323]
    (ed25519_Bi ! 5) (multiple 11)"
  "point_check [0,
      0,
      29471055441072170259805152731682457644447474860555123755684575143128358334291,
      1096459557623892196493299667445616164183037679408002196057053966527443213121,
      - 37765951488645653388836826742036493115133281323534507132220851433967931450851]
    (ed25519_Bi ! 6) (multiple 13)"
  "point_check [- 1,
      0,
      42609173769455554086108030252596314253679554082059705507322920389417832202025,
      5253104282994168183921517903901539759328624563151459270604398721148228361486,
      - 54601912468527077717399298051076647175802436810069606016855296614618169567649]
    (ed25519_Bi ! 7) (multiple 15)"
  by code_simp+

lemma sum_checks:
  "sum_check [26187595835145689230469591415084376402084551887632582719101735842039498021991,
      37053468555941182535542715202780130513046395093004980492626426882532201484768,
      30655112042971184558329056706696549839726511367961720624960021019854854290862,
      10865872720795493305073123787695754110961843205372397773524691040492703462776,
      3944643120641682540557488748386534817562863454810087094083181913524639656337,
      37053468555941182535542715202780130513046395093004980492626426882532201484768,
      16760061334493241107500538505654000897334113208084852940225110938905278734074,
      19641635784112395346641967481223427603076292420967697888635760513231183455066,
      - 19538737559488566712434576529864368081508620530610009823116553446752326234122,
      - 2918347821822279244224534467951863095252877302676643115518800860268071522766]
    (multiple 1) (multiple 1) (multiple 2)"
  "sum_check [25225440941862457257645256542063839045928653454434489306237645082571845078638,
      47177367235419010768153430470966006157220653052848217676242938876824053331503,
      3364236006921377708987850388260268045919210514534713198477653094347271829663,
      12965896712281167460188844285041720407456251414812089957574419241826119111093,
      6454433021663346227697405437452792583555821297117287786816762890575823932726,
      12439740464224152141082134968359633801239657653156048464405663674450114439533,
      20555288341858445091655881398897118214263259624518105402237652989900493436799,
      2155565383258724699621487326096273367412687650293044625345827486478075842728,
      - 13338173239580380408313927725926866846066085994001770406007520559772431264730,
      - 1864359910755556230756376877239954303300786756820140253993326411207065582785]
    (multiple 2) (multiple 1) (multiple 3)"
  "sum_check [7993725896045229224277574314213090292224240467024112432852255540827657265941,
      41397501794021613808263597198901733266622129180730213465230236970696920096107,
      42001816067823941576344467995104549906832135807136605908951387580520224565880,
      18513710011531162642988274317829348843846597833326320471917708391491157976305,
      12241143956432055531202486473590234626861330234786312866313991755944081397999,
      6659875022826755181192301696295360910641133781038044253392961768322981204137,
      5715766669417759778363817534894526313754252756087678997369455773608552432043,
      26911804214548151213847196444021955090058842625263706488520255608300216215155,
      - 35027100866235965280251532605523556554391230621275294125624064535559401005928,
      - 10387354557591737610775010618778821084636930769016100658586981823523116280016]
    (multiple 3) (multiple 1) (multiple 4)"
  "sum_check [43377995954398138089317902339703977257417336778982074991398776215364286481314,
      37565863897222393862544965139024480573872636735470449370612192578626811701077,
      26927044495752287825606273060902143857752829886766490591326281402585034936780,
      24220567711736597538763209642646640897185224037343301454924280019954294030576,
      3806492027932816286943340544531378262666299095406281886140000634798422106870,
      25986654973490774320187866638155689788545638268906392966666434177835498737087,
      28145824173142849494109534048054691063326006918050788186431482529218701576502,
      17252952786040221569256300169830738451425392910286207930291455844184212503876,
      - 6144487946073234662594025378933221210753772563775097666195605818377820582127,
      - 18029530464450117787576807786691364633346532262412686209454772969042376062434]
    (multiple 4) (multiple 1) (multiple 5)"
  "sum_check [36277362344627143603181615282199809301612923425389452059480855738482600112167,
      57636172874400780487398287718464788482881215929962359735169464768695610417334,
      9321251684824086997076667595592549179720619027741314161893768490450252837134,
      36043558918282767795116152486367188201989528504777638271973927440127539542563,
      8735670696965559355202844743187521216766005984693250254924965052076661141827,
      34477755026937541402684090716727206912227218996834246927277947967112984489354,
      36114528052722601355828827111132288849224491640957725264424270249996265326556,
      5972401287873865351512432581118941785750504301181711780533828042945847319043,
      - 16455369564378340470775294353802967978730507730231353883861648989676942505310,
      - 1493628193173621752547831313162228833304366782481347546809619376424449306553]
    (multiple 5) (multiple 1) (multiple 6)"
  "sum_check [43257540543391807506416350383737931911561371940085466411402484301707178317677,
      25077765816662849720360282861887846441490554455432459069674523125617131388706,
      6780309647964193475979543521163544800389760644468538355696915591933217020260,
      174923272128147197248250094037188306119021083353085685026965532172293842474,
      9042794215402517452823862559450010784664152970700074488340147406759904929849,
      1919347969199610635646085860150264870836557522304346261783006324034505460726,
      18737073986611863055604367355777311573018920602327780275842545594149597204398,
      4344344669891742166422709016424507544543124546212951091663678060996119974474,
      - 28313343789407668732879204560121747415617048379527457420752238040858198862719,
      - 68016530231773386543708436875673200022585210267205308771762831276843288387]
    (multiple 6) (multiple 1) (multiple 7)"
  "sum_check [22071748864570335449053718289094486028991037054140748831176422071918202269239,
      18009670279756479420822848693303750176656203848986610280461342562895161374048,
      35660668170410805998988519420135936607223643539445939930037288187928007385209,
      14171261514870437282507247499807306757232301307464014854075852764766380852981,
      2401189134091935953657955857209616617090835682887045586352460953417536837531,
      18009670279756479420822848693303750176656203848986610280461342562895161374048,
      6865838973400225959484872886397554914630245701926516943876638268508949596387,
      22848843450301434925543290906224392502557157563473018322670728064454554400686,
      - 1803127786365182223636231289080104980082413188434467024005092491309576714632,
      - 3744790215049475727883202879294016965836396325742933525547338387982903172323]
    (multiple 7) (multiple 1) (multiple 8)"
  "sum_check [9325763809085646680044095575923854707602173682939668350085181842640224927057,
      30902426918875499502853874846454069254968873582337309167482348478985076034870,
      56168597102055912493228154247220266103922034630928085176911135512893652829234,
      7248842797640218075432952744241253730385792372876792704258571421819384289417,
      3928952243421470271284563548988221211934248508304978769883102841983841268533,
      6046279413442381593574959747587532512666219343760505271703330394674977379850,
      4977692974902968079557050512975271774708224397294629905061717369126201459444,
      35988879285016098650482474679385003568221542663143350483833672257718875497697,
      - 9056535122909245252281559573547143896570698876078158041140165869889363153139,
      - 7205736359940062271378719512897081319050319411114903533222979770658030175171]
    (multiple 7) (multiple 2) (multiple 9)"
  "sum_check [39471529557189836860058826487841429781340761288845943468618747970698615279953,
      30669764113903190525019673621186452561310012811730212691302466949682132105660,
      30794055059241951527746855506676385403749644531741541474523954922722731491442,
      7877478122048862755598430610344988161480765250477852441251648244542214503244,
      10332861311391167468301009556494463863360341253977303113715794824777279599539,
      15457206873153973002413809275534372347319238052505611109330133136220891334036,
      20909589052372617446660529477932335918240843957685947339957346590156249029362,
      19730660678769798722284829952681584207168013573816118436099772376841932285234,
      - 29792175189420246073887453124117017975406859130233070450672557122315309882305,
      - 2804165985623696191138716239871310793058600792671999609849798677377275595094]
    (multiple 9) (multiple 2) (multiple 11)"
  "sum_check [14980201344168139239096952090747236809489943918441111821135166819811770972053,
      40530214640583553323417811076674281727125935410020683054938954657707605882204,
      12403671989286842433575992357264831529847132505728420164571586863353642167606,
      39401460070013387312891163651564801670953213707982218393283189671500785029234,
      4036586421759911061921598706944881940732696592131598501888848002958458712825,
      5535257689597256053294773264299714481693146139969948684309505484495364087787,
      10486912876991722794409515624992879084109920141191277036591926642391086298094,
      7947399026226355776547404239562243699219446800947339387578929642897220054704,
      - 6275809393941865127723051294503320934247199797635102576107542432979295312398,
      - 5804990986174238405323029107441839482691466531557658185355143233028219383317]
    (multiple 11) (multiple 2) (multiple 13)"
  "sum_check [38919509364173204966524514906699328588686310710353568878912568345721734308542,
      19825164067779614078206114249232182759535213208898892830988794012221484831435,
      34319297624379560845894772703016622542474881780285926576103609213095591097140,
      45816845794232749498991608072953932466942116014606495453164585144074912777403,
      3178580213805842815851282036490783082207594897576336962237670237303692305432,
      2290923392713489987586226983216406500706998834692637638154562739667878077161,
      13327087604419192653222692458902383321686738656975717041161420743210304585870,
      21989387719728672478274349498328709831001507480990493697829770488113908602053,
      22666692904821231702825624362366182215531685145824747481403869298261393687651,
      - 6728204302220312255003807672134891790266411611788884637598582490664149176811]
    (multiple 13) (multiple 2) (multiple 15)"
  by code_simp+

lemma curve_check_base: "curve_check [26187595835145689230469591415084376402084551887632582719101735842039498021991,
      37053468555941182535542715202780130513046395093004980492626426882532201484768,
      30655112042971184558329056706696549839726511367961720624960021019854854290862,
      3944643120641682540557488748386534817562863454810087094083181913524639656337,
      37053468555941182535542715202780130513046395093004980492626426882532201484768,
      16760061334493241107500538505654000897334113208084852940225110938905278734074,
      - 19641635784112395346641967481223427603076292420967697888635760513231183455066]
  (multiple 1)"
  by code_simp

lemma base_y: "cong_by 4 (5 * snd (multiple 1)) 4"
  by code_simp

subsection \<open>Properties\<close>

text \<open>(C11) The first row of \<open>base\<close> holds \<open>B, 2B, ..., 8B\<close> and \<open>Bi\<close> holds \<open>B, 3B, ..., 15B\<close> in the form
  \<open>(y + x, y - x, 2 d x y)\<close>: \<open>B\<close> is the point of the curve with \<open>y = 4 / 5\<close>, and every further multiple is the sum,
  by the addition law of the curve, of an earlier one with \<open>B\<close> or \<open>2B\<close>.\<close>

theorem tables_hold_multiples:
  "on_curve (multiple 1) \<and> eqp (5 * snd (multiple 1)) 4 \<and>
   list_all (\<lambda>k. curve_sum (multiple k) (multiple 1) (multiple (k + 1))) [1, 2, 3, 4, 5, 6, 7] \<and>
   list_all (\<lambda>k. curve_sum (multiple k) (multiple 2) (multiple (k + 2))) [7, 9, 11, 13] \<and>
   list_all (\<lambda>j. entry_point (ed25519_base 0 j) (multiple (j + 1))) [0, 1, 2, 3, 4, 5, 6, 7] \<and>
   list_all (\<lambda>j. entry_point (ed25519_Bi ! j) (multiple (2 * j + 1))) [0, 1, 2, 3, 4, 5, 6, 7]"
proof (intro conjI)
  show "on_curve (multiple 1)" by (rule curve_checkD [OF curve_check_base])
  show "eqp (5 * snd (multiple 1)) 4" by (rule cong_byD [OF base_y])
  show "list_all (\<lambda>k. curve_sum (multiple k) (multiple 1) (multiple (k + 1))) [1, 2, 3, 4, 5, 6, 7]"
    using sum_checks(1-7) [THEN sum_checkD] by (simp add: numeral_eq_Suc)
  show "list_all (\<lambda>k. curve_sum (multiple k) (multiple 2) (multiple (k + 2))) [7, 9, 11, 13]"
    using sum_checks(8-11) [THEN sum_checkD] by simp
  show "list_all (\<lambda>j. entry_point (ed25519_base 0 j) (multiple (j + 1))) [0, 1, 2, 3, 4, 5, 6, 7]"
    using point_checks(1-8) [THEN point_checkD] by (simp add: numeral_eq_Suc)
  have "map ((!) ed25519_Bi) [0, 1, 2, 3] = map (ed25519_base 0) [0, 2, 4, 6]" by code_simp
  then show "list_all (\<lambda>j. entry_point (ed25519_Bi ! j) (multiple (2 * j + 1))) [0, 1, 2, 3, 4, 5, 6, 7]"
    using point_checks(1,3,5,7,9-12) [THEN point_checkD] by (simp add: numeral_eq_Suc)
qed

end
