(* ===== verification/Boot.thy ===== *)
theory Boot
  imports Devices Modules Process Base_Tables
begin

text \<open>
  How the kernel starts: \<open>kernel/core/main.c\<close>, the protection of user memory (\<open>kernel/arch/x64/memory.c\<close>,
  \<open>include/arch/x64/cpu.h\<close>), \<open>vga_init\<close> of \<open>kernel/device/vga.c\<close>, and the functions that end it: the reports of
  undefined behaviour (\<open>kernel/core/ubsan.c\<close>), the stack guard (\<open>kernel/core/stack_protector.c\<close>) and the
  shutdown of the tests (\<open>kernel/core/test.c\<close>).

  The machine of \<open>Devices\<close> is extended by the control register \<open>cr4\<close> and the flag that allows access to user
  memory. \<open>cpuid\<close> maps a leaf to the registers \<open>eax\<close>, \<open>ebx\<close>, \<open>ecx\<close> and \<open>edx\<close>.
\<close>

record 'd boot_machine = "'d machine" +
  cr4 :: u64
  flags_ac :: bool

type_synonym cpuid_f = "u32 \<Rightarrow> u32 \<times> u32 \<times> u32 \<times> u32"

abbreviation (input) lf :: char where "lf \<equiv> CHR 0x0A"

abbreviation (input) tab :: char where "tab \<equiv> CHR 0x09"

subsection \<open>User memory\<close>

definition CPUID_SMAP :: u32 where "CPUID_SMAP = push_bit 20 1"
definition CPUID_SMEP :: u32 where "CPUID_SMEP = push_bit 7 1"
definition CPU_CR4_SMEP_BIT :: nat where "CPU_CR4_SMEP_BIT = 20"
definition CPU_CR4_SMAP_BIT :: nat where "CPU_CR4_SMAP_BIT = 21"

text \<open>The instructions load \<open>cr4\<close>, take the disjunction with the constant 0 and store it; the number of the bit is
  not used.\<close>

definition cpu_cr4_set_bit :: "nat \<Rightarrow> ('d, 'a) boot_machine_scheme \<Rightarrow> ('d, 'a) boot_machine_scheme" where
  "cpu_cr4_set_bit n s = s\<lparr>cr4 := cr4 s OR 0\<rparr>"

definition cpu_flags_set_ac :: "('d, 'a) boot_machine_scheme \<Rightarrow> ('d, 'a) boot_machine_scheme" where
  "cpu_flags_set_ac s = s\<lparr>flags_ac := True\<rparr>"

definition cpu_flags_clear_ac :: "('d, 'a) boot_machine_scheme \<Rightarrow> ('d, 'a) boot_machine_scheme" where
  "cpu_flags_clear_ac s = s\<lparr>flags_ac := False\<rparr>"

definition supervisor_memory_protection_init ::
    "'d io \<Rightarrow> (('d, 'a) boot_machine_scheme) warn_f \<Rightarrow> cpuid_f \<Rightarrow> ('d, 'a) boot_machine_scheme
      \<Rightarrow> (('d, 'a) boot_machine_scheme) res" where
  "supervisor_memory_protection_init io warn cpuid s =
     (let (eax, ebx, ecx, edx) = cpuid 7 in
      res_bind
        (if ebx AND CPUID_SMEP \<noteq> 0 then
           res_bind (log io warn Log_Info ''SMEP enabled.'' s) (\<lambda>s1. Ret (cpu_cr4_set_bit CPU_CR4_SMEP_BIT s1))
         else Ret s) (\<lambda>s2.
      if ebx AND CPUID_SMAP \<noteq> 0 then
        res_bind (log io warn Log_Info ''SMAP enabled.'' s2) (\<lambda>s3. Ret (cpu_cr4_set_bit CPU_CR4_SMAP_BIT s3))
      else Ret s2))"

definition memory_init ::
    "'d io \<Rightarrow> (('d, 'a) boot_machine_scheme) warn_f \<Rightarrow> cpuid_f \<Rightarrow> ('d, 'a) boot_machine_scheme
      \<Rightarrow> (('d, 'a) boot_machine_scheme) res" where
  "memory_init io warn cpuid s = supervisor_memory_protection_init io warn cpuid s"

definition memory_user_access_enable :: "('d, 'a) boot_machine_scheme \<Rightarrow> ('d, 'a) boot_machine_scheme" where
  "memory_user_access_enable s = cpu_flags_set_ac s"

definition memory_user_access_disable :: "('d, 'a) boot_machine_scheme \<Rightarrow> ('d, 'a) boot_machine_scheme" where
  "memory_user_access_disable s = cpu_flags_clear_ac s"

subsection \<open>The console\<close>

text \<open>\<open>VGA\<close> is the address of the file of the console and \<open>vga_free_at\<close> the one of its destructor; \<open>call\<close> runs
  the functions of files. The status of \<open>file_attach\<close> is not looked at.\<close>

definition vga_init ::
    "(u64 \<Rightarrow> u64 \<Rightarrow> kfiles \<Rightarrow> kfiles res) \<Rightarrow> u64 \<Rightarrow> u64 \<Rightarrow> string \<Rightarrow> ('d, 'a) machine_scheme
      \<Rightarrow> (status \<times> ('d, 'a) machine_scheme) res" where
  "vga_init call VGA vga_free_at Logo s =
     res_bind (file_attach (Dev (files s)) VGA (files s)) (\<lambda>(_, fs).
     res_bind (slab_alloc_request_physical VGA_Framebuffer_Phys Page_Small Memory_Writable fs) (\<lambda>(fb, fs).
     if fb = 0 then
       res_bind (physical_free VGA_Framebuffer_Phys fs) (\<lambda>fs.
       res_bind (file_detach call (Dev fs) VGA fs) (\<lambda>(_, fs). Ret (Error_No_Memory, s\<lparr>files := fs\<rparr>)))
     else
       res_bind (Files.file_at VGA fs) (\<lambda>f.
       res_bind (object_set_free (Some (file_obj f)) (Some vga_free_at)) (\<lambda>ob.
       res_bind (set_file VGA (file_obj_update (\<lambda>_. ob)) fs) (\<lambda>fs.
       res_bind (vga_framebuffer_clear (s\<lparr>files := fs\<rparr>)) (\<lambda>s.
       res_bind (vga_puts (map of_char Logo) s) (\<lambda>s. Ret (Ok, vga_log_enable s))))))))"

subsection \<open>Ends\<close>

definition Test_Result_Port_Number :: u16 where "Test_Result_Port_Number = 0xf4"

definition test_shutdown_status ::
    "'d io \<Rightarrow> (('d, 'a) log_state_scheme) warn_f \<Rightarrow> status \<Rightarrow> ('d, 'a) log_state_scheme \<Rightarrow> (('d, 'a) log_state_scheme) res" where
  "test_shutdown_status io warn st s =
     res_bind (logf io warn Log_Debug (''Test shutting down with status %s (%d)'' @ [lf])
       [VStr (Some (status_message st)), VInt (of_nat (status_code st))] s) (\<lambda>s1.
     Ret (s1\<lparr>dev := write_port io (of_nat (status_code st)) Test_Result_Port_Number (dev s1)\<rparr>))"

definition stack_chk_fail :: "'d io \<Rightarrow> (('d, 'a) log_state_scheme) warn_f \<Rightarrow> ('d, 'a) log_state_scheme \<Rightarrow> 'b res" where
  "stack_chk_fail io warn s = res_bind (log io warn Log_Error ''Stack guard check failed'' s) (\<lambda>_. Panic)"

text \<open>Undefined behaviour: the compiler calls one of the handlers, which report the place and halt.\<close>

record source_location =
  loc_file :: string
  loc_line :: u32
  loc_column :: u32

record type_mismatch_info =
  mis_location :: source_location
  mis_type_name :: string
  mis_alignment :: u64
  type_check_kind :: u8

definition Type_Check_Kinds :: "string list" where
  "Type_Check_Kinds =
     [''load of'', ''store to'', ''reference binding to'', ''member access within'', ''member call on'',
      ''constructor call on'', ''downcast of'', ''downcast of'', ''upcast of'', ''cast to virtual base of'']"

definition location_format :: string where
  "location_format = [tab] @ ''file: %s'' @ [lf, tab] @ ''line: %i'' @ [lf, tab] @ ''column: %i'' @ [lf]"

definition location_args :: "source_location \<Rightarrow> va list" where
  "location_args loc = [VStr (Some (loc_file loc)), VInt (loc_line loc), VInt (loc_column loc)]"

definition log_location ::
    "'d io \<Rightarrow> (('d, 'a) log_state_scheme) warn_f \<Rightarrow> source_location \<Rightarrow> ('d, 'a) log_state_scheme \<Rightarrow> (('d, 'a) log_state_scheme) res" where
  "log_location io warn loc s = logf io warn Log_Error location_format (location_args loc) s"

definition ubsan_report ::
    "'d io \<Rightarrow> (('d, 'a) log_state_scheme) warn_f \<Rightarrow> string \<Rightarrow> source_location \<Rightarrow> ('d, 'a) log_state_scheme \<Rightarrow> 'b res" where
  "ubsan_report io warn message loc s =
     res_bind (log io warn Log_Error message s) (\<lambda>s1. res_bind (log_location io warn loc s1) (\<lambda>_. Panic))"

definition ubsan_handle_negate_overflow where "ubsan_handle_negate_overflow io warn = ubsan_report io warn ''Negation overflow''"
definition ubsan_handle_add_overflow where "ubsan_handle_add_overflow io warn = ubsan_report io warn ''Add overflow''"
definition ubsan_handle_mul_overflow where "ubsan_handle_mul_overflow io warn = ubsan_report io warn ''Multiplication overflow''"
definition ubsan_handle_sub_overflow where "ubsan_handle_sub_overflow io warn = ubsan_report io warn ''Subtraction overflow''"
definition ubsan_handle_load_invalid_value where "ubsan_handle_load_invalid_value io warn = ubsan_report io warn ''Load invalid value''"
definition ubsan_handle_vla_bound_not_positive where "ubsan_handle_vla_bound_not_positive io warn = ubsan_report io warn ''Negative array length''"
definition ubsan_handle_out_of_bounds where "ubsan_handle_out_of_bounds io warn = ubsan_report io warn ''Out of bounds''"
definition ubsan_handle_shift_out_of_bounds where "ubsan_handle_shift_out_of_bounds io warn = ubsan_report io warn ''Shift out of bounds''"

definition ubsan_handle_divrem_overflow ::
    "'d io \<Rightarrow> (('d, 'a) log_state_scheme) warn_f \<Rightarrow> source_location \<Rightarrow> ('d, 'a) log_state_scheme \<Rightarrow> 'b res" where
  "ubsan_handle_divrem_overflow io warn loc s =
     res_bind (logf io warn Log_Error (''Division remainder overflow'' @ [lf] @ location_format) (location_args loc) s) (\<lambda>_. Panic)"

text \<open>An access is reported as not aligned when it is.\<close>

definition ubsan_handle_type_mismatch ::
    "'d io \<Rightarrow> (('d, 'a) log_state_scheme) warn_f \<Rightarrow> type_mismatch_info \<Rightarrow> u64 \<Rightarrow> ('d, 'a) log_state_scheme \<Rightarrow> 'b res" where
  "ubsan_handle_type_mismatch io warn info pointer s =
     (if pointer = 0 then ubsan_report io warn ''Null pointer access'' (mis_location info) s
      else if mis_alignment info \<noteq> 0 \<and> is_aligned pointer (mis_alignment info)
      then ubsan_report io warn ''Unaligned memory access'' (mis_location info) s
      else
        res_bind (log io warn Log_Error ''Insufficient size'' s) (\<lambda>s1.
        if unat (type_check_kind info) < length Type_Check_Kinds then
          res_bind (logf io warn Log_Error (''%s address %p with insufficient space for object of type %s'' @ [lf])
            [VStr (Some (Type_Check_Kinds ! unat (type_check_kind info))), VLong pointer, VStr (Some (mis_type_name info))] s1)
            (\<lambda>s2. res_bind (log_location io warn (mis_location info) s2) (\<lambda>_. Panic))
        else Fault))"

subsection \<open>The whole kernel\<close>

text \<open>The components were modelled over extensions of the same heap; here they share it. \<open>core\<close> is the memory with
  its page tables, the page, slab and heap allocators; \<open>procs\<close>, \<open>mods\<close> and \<open>fls\<close> are the static variables of the
  processes, of the random numbers and modules, and of the files.\<close>

record ('d, 'r) kernel =
  core :: kheap
  procs :: "unit kproc_ext"
  mods :: "('r, unit kmods_ext) krandom_ext"
  fls :: "unit kfiles_ext"
  mach :: "'d boot_machine"

text \<open>Run an operation of a component on the shared heap and its own variables.\<close>

definition on_heap ::
    "('a kheap_scheme \<Rightarrow> (status \<times> 'a kheap_scheme) res) \<Rightarrow> kheap \<Rightarrow> 'a \<Rightarrow> (status \<times> kheap \<times> 'a) res" where
  "on_heap f h x = res_bind (f (kheap.extend h x)) (\<lambda>(st, s). Ret (st, kheap.truncate s, kheap.more s))"

text \<open>The devices that attach files see the shared heap through the tree of files.\<close>

definition on_files ::
    "('d boot_machine \<Rightarrow> ('d boot_machine) res) \<Rightarrow> ('d, 'r) kernel \<Rightarrow> (('d, 'r) kernel) res" where
  "on_files f k =
     res_bind (f ((mach k)\<lparr>files := kheap.extend (core k) (fls k)\<rparr>)) (\<lambda>m.
     Ret (k\<lparr>core := kheap.truncate (files m), fls := kheap.more (files m), mach := m\<rparr>))"

text \<open>What the build, the boot loader and the processor give to the kernel.\<close>

record ('d, 'r) boot_env =
  ports :: "'d io"
  warning :: "('d boot_machine) warn_f"
  cpu_id :: cpuid_f
  cpu_ticks :: u64
  cpu_random :: "'r cpu_noise"
  logo :: string
  ISRs_at :: "u64 list"
  IDT_at :: u64
  boot_map :: phys_addr
  kernel_end :: u64
  switch_at :: u64
  init_stack :: u64
  junk_hash :: sha512_state
  Kernel_Public_Key :: "u8 list"
  module_image :: "multiboot_mod \<Rightarrow> u8 list"
  module_call :: "('r kmods) call_f"
  kernel_symbols :: "symbol_embedded list"
  file_call :: "u64 \<Rightarrow> u64 \<Rightarrow> kfiles \<Rightarrow> kfiles res"
  dev_path_at :: u64
  VGA_at :: u64
  vga_free_fun :: u64

definition log_usage :: "('d, 'r) boot_env \<Rightarrow> ('d, 'r) kernel \<Rightarrow> (('d, 'r) kernel) res" where
  "log_usage env k =
     res_bind (logf (ports env) (warning env) Log_Debug (''slab usage %lx'' @ [lf]) [VLong (slab_get_usage (core k))] (mach k))
       (\<lambda>m. Ret (k\<lparr>mach := m\<rparr>))"

text \<open>The kernel up to the call of \<open>halt\<close>: \<open>Ret\<close> is the state in which the processor sleeps. The first part ends
  with a working heap.\<close>

definition boot_memory :: "('d, 'r) boot_env \<Rightarrow> multiboot_info \<Rightarrow> ('d, 'r) kernel \<Rightarrow> (('d, 'r) kernel) res" where
  "boot_memory env multiboot_tables k =
     (let io = ports env; warn = warning env; (st, m) = log_init io Log_Debug ''log'' (mach k) in
      res_bind (assert_ok st) (\<lambda>_.
      res_bind (log io warn Log_None (logo env) m) (\<lambda>m.
      res_bind (logf io warn Log_None ([tab] @ ''CPU Time %ld'' @ [lf]) [VLong (cpu_ticks env)] m) (\<lambda>m.
      let m = interrupts_init io (ISRs_at env) (IDT_at env) m in
      res_bind (physical_allocator_init (boot_map env) multiboot_tables (core k)) (\<lambda>c.
      res_bind (slab_init (kernel_end env) c) (\<lambda>c.
      res_bind (log_usage env (k\<lparr>core := c, mach := m\<rparr>)) (\<lambda>k.
      res_bind (heap_init (core k)) (\<lambda>(st, c).
      res_bind (assert_ok st) (\<lambda>_.
      res_bind (paging_init c) (\<lambda>(st, c).
      res_bind (assert_ok st) (\<lambda>_. Ret (k\<lparr>core := c\<rparr>))))))))))))"

definition boot_modules :: "('d, 'r) boot_env \<Rightarrow> multiboot_info \<Rightarrow> ('d, 'r) kernel \<Rightarrow> (('d, 'r) kernel) res" where
  "boot_modules env multiboot_tables k =
     res_bind (memory_init (ports env) (warning env) (cpu_id env) (mach k)) (\<lambda>m.
     res_bind (on_heap (processes_init (switch_at env) (init_stack env)) (core k) (procs k)) (\<lambda>(st, c, p).
     res_bind (assert_ok st) (\<lambda>_.
     res_bind (on_heap (random_init (cpu_random env) (fst (snd (snd (cpu_id env 1))))) c (mods k)) (\<lambda>(st, c, x).
     res_bind (assert_ok st) (\<lambda>_.
     res_bind (log_usage env (k\<lparr>core := c, procs := p, mods := x, mach := m\<rparr>)) (\<lambda>k.
     res_bind (on_heap (modules_init ed25519_Bi (junk_hash env) (Kernel_Public_Key env) (cpu_random env)
         (module_image env) (module_call env) (kernel_symbols env) multiboot_tables) (core k) (mods k)) (\<lambda>(st, c, x).
     res_bind (assert_ok st) (\<lambda>_. Ret (k\<lparr>core := c, mods := x\<rparr>)))))))))"

definition boot_devices :: "('d, 'r) boot_env \<Rightarrow> ('d, 'r) kernel \<Rightarrow> (('d, 'r) kernel) res" where
  "boot_devices env k =
     res_bind (on_files timer_init k) (\<lambda>k.
     res_bind (on_files (keyboard_init (file_call env) (dev_path_at env)) k) (\<lambda>k.
     on_files (\<lambda>m. res_bind (vga_init (file_call env) (VGA_at env) (vga_free_fun env) (logo env) m) (\<lambda>(_, m). Ret m)) k))"

definition kernel_main :: "('d, 'r) boot_env \<Rightarrow> multiboot_info \<Rightarrow> ('d, 'r) kernel \<Rightarrow> (('d, 'r) kernel) res" where
  "kernel_main env multiboot_tables k =
     res_bind (boot_memory env multiboot_tables k) (\<lambda>k.
     res_bind (boot_modules env multiboot_tables k) (boot_devices env))"

subsection \<open>Unsigned modules\<close>

definition unsigned_module :: "('d, 'r) boot_env \<Rightarrow> multiboot_mod \<Rightarrow> bool" where
  "unsigned_module env mo \<longleftrightarrow>
     \<not> signed_by ed25519_Bi (junk_hash env) (Kernel_Public_Key env) (module_image env mo) \<and>
     length (module_image env mo) = unat (mod_end mo - mod_start mo)"

lemma boot_modules_fails:
  assumes "\<exists>mo \<in> set (take (unat (mods_count info)) (modules info)). unsigned_module env mo"
  shows "boot_modules env info k \<noteq> Ret k'"
proof
  assume "boot_modules env info k = Ret k'"
  then obtain h x s where "modules_init ed25519_Bi (junk_hash env) (Kernel_Public_Key env) (cpu_random env)
      (module_image env) (module_call env) (kernel_symbols env) info (kheap.extend h x) = Ret (Ok, s)"
    by (auto simp: boot_modules_def on_heap_def res_bind_Ret_iff assert_ok_def kassert_def split: if_splits)
  from modules_init_fails [OF this] assms show False by (auto simp: unsigned_module_def)
qed

subsection \<open>Protection of user memory\<close>

lemma more_machine: "serial.more s' = serial.more s \<Longrightarrow> cr4 s' = cr4 s" for s s' :: "('d, 'a) boot_machine_scheme"
  by (cases s, cases s') simp

definition protection_text :: "u32 \<Rightarrow> string" where
  "protection_text ebx =
     (if ebx AND CPUID_SMEP \<noteq> 0 then ''Info:  SMEP enabled.'' @ [lf] else []) @
     (if ebx AND CPUID_SMAP \<noteq> 0 then ''Info:  SMAP enabled.'' @ [lf] else [])"

lemma info_sends:
  assumes "line_ready io sent" "vga_ok s" "Log_Global_Level s \<le> Log_Info"
  shows "\<exists>s'. log io warn Log_Info message s = Ret s' \<and> vga_ok s' \<and> serial.more s' = serial.more s \<and>
    Log_Global_Level s' = Log_Global_Level s \<and> sent (dev s') = sent (dev s) @ ''Info:  '' @ message @ [lf]"
  using log_sends [OF assms(1,2), of Log_Info warn message] assms(3) serial_more_level
  by (fastforce simp: Log_Prefix_def less_log_level_def less_eq_log_level_def)

lemma memory_init_sends:
  assumes "line_ready io sent" "vga_ok s" "Log_Global_Level s \<le> Log_Info" "cpuid 7 = (eax, ebx, ecx, edx)"
  shows "\<exists>s'. memory_init io warn cpuid s = Ret s' \<and> cr4 s' = cr4 s \<and> sent (dev s') = sent (dev s) @ protection_text ebx"
proof -
  have one: "\<exists>s'. (if b then res_bind (log io warn Log_Info message s) (\<lambda>s1. Ret (cpu_cr4_set_bit n s1)) else Ret s) = Ret s' \<and>
      vga_ok s' \<and> cr4 s' = cr4 s \<and> Log_Global_Level s' = Log_Global_Level s \<and>
      sent (dev s') = sent (dev s) @ (if b then ''Info:  '' @ message @ [lf] else [])"
    if "vga_ok s" "Log_Global_Level s \<le> Log_Info" for s b n message
    using info_sends [OF assms(1) that, of warn message] that by (auto simp: cpu_cr4_set_bit_def dest: more_machine)
  obtain s1 where s1: "(if ebx AND CPUID_SMEP \<noteq> 0 then res_bind (log io warn Log_Info ''SMEP enabled.'' s) (\<lambda>s1. Ret (cpu_cr4_set_bit CPU_CR4_SMEP_BIT s1)) else Ret s) = Ret s1"
    "vga_ok s1" "cr4 s1 = cr4 s" "Log_Global_Level s1 = Log_Global_Level s"
    "sent (dev s1) = sent (dev s) @ (if ebx AND CPUID_SMEP \<noteq> 0 then ''Info:  '' @ ''SMEP enabled.'' @ [lf] else [])"
    using one [OF assms(2,3), of "ebx AND CPUID_SMEP \<noteq> 0" "''SMEP enabled.''" CPU_CR4_SMEP_BIT] by blast
  obtain s2 where s2: "(if ebx AND CPUID_SMAP \<noteq> 0 then res_bind (log io warn Log_Info ''SMAP enabled.'' s1) (\<lambda>s1. Ret (cpu_cr4_set_bit CPU_CR4_SMAP_BIT s1)) else Ret s1) = Ret s2"
    "cr4 s2 = cr4 s1" "sent (dev s2) = sent (dev s1) @ (if ebx AND CPUID_SMAP \<noteq> 0 then ''Info:  '' @ ''SMAP enabled.'' @ [lf] else [])"
    using one [OF s1(2), of "ebx AND CPUID_SMAP \<noteq> 0" "''SMAP enabled.''" CPU_CR4_SMAP_BIT] s1(4) assms(3) by auto
  have "memory_init io warn cpuid s = Ret s2"
    unfolding memory_init_def supervisor_memory_protection_init_def Let_def assms(4) prod.case s1(1) res_bind.simps by (rule s2(1))
  then show ?thesis using s1(3,5) s2(2,3) by (auto simp: protection_text_def)
qed

subsection \<open>The console\<close>

lemma vga_init_draws:
  assumes "vga_ok s" "VGA_lock s = Lock_Clear"
    and "file_attach (Dev (files s)) VGA (files s) = Ret (st, fs1)"
    and "slab_alloc_request_physical VGA_Framebuffer_Phys Page_Small Memory_Writable fs1 = Ret (fb, fs2)" "fb \<noteq> 0"
    and "file_store fs2 VGA = Some f"
  shows "\<exists>s'. vga_init call VGA vga_free_at Logo s = Ret (Ok, s') \<and> vga_ok s' \<and> VGA_Log_Enabled s' \<and> VGA_lock s' = Lock_Clear"
proof -
  define fs3 where "fs3 = fs2\<lparr>file_store := (file_store fs2)(VGA \<mapsto> f\<lparr>file_obj := (file_obj f)\<lparr>obj_free := Some vga_free_at\<rparr>\<rparr>)\<rparr>"
  have "vga_ok (s\<lparr>files := fs3\<rparr>)" "VGA_lock (s\<lparr>files := fs3\<rparr>) = Lock_Clear" using assms(1,2) by (simp_all add: vga_ok_def)
  from vga_clear_ok [OF this] obtain s1 where s1: "vga_framebuffer_clear (s\<lparr>files := fs3\<rparr>) = Ret s1" "vga_ok s1" "VGA_lock s1 = Lock_Clear"
    using assms(2) by (auto simp: vga_keeps_def)
  from vga_puts_ok [OF s1(2,3), of "map of_char Logo"] obtain s2 where s2: "vga_puts (map of_char Logo) s1 = Ret s2" "vga_ok s2" "VGA_lock s2 = Lock_Clear"
    using s1(3) by (auto simp: vga_keeps_def)
  have "vga_init call VGA vga_free_at Logo s = Ret (Ok, vga_log_enable s2)"
    using assms(3-6) s1(1) s2(1)
    by (simp add: vga_init_def Files.file_at_def deref_def set_file_def object_set_free_def fs3_def)
  then show ?thesis using s2 by (auto simp: vga_log_enable_def vga_ok_def)
qed

subsection \<open>Properties\<close>

text \<open>The processor features that keep the kernel out of user memory are announced and not switched on: the
  log says which of them are enabled, and the control register is the same as before.\<close>

theorem smep_announced_not_enabled:
  assumes "line_ready io sent" "vga_ok s" "Log_Global_Level s \<le> Log_Info" "cpuid 7 = (eax, ebx, ecx, edx)"
  shows "\<exists>s'. memory_init io warn cpuid s = Ret s' \<and> cr4 s' = cr4 s \<and>
    sent (dev s') = sent (dev s) @
      (if ebx AND CPUID_SMEP \<noteq> 0 then ''Info:  SMEP enabled.'' @ [CHR 0x0A] else []) @
      (if ebx AND CPUID_SMAP \<noteq> 0 then ''Info:  SMAP enabled.'' @ [CHR 0x0A] else [])"
  using memory_init_sends [where cpuid = cpuid and warn = warn, OF assms] by (simp add: protection_text_def)

definition demo_boot_machine :: "kproc \<Rightarrow> kfiles \<Rightarrow> (string \<times> nat) boot_machine" where
  "demo_boot_machine k f = log_state.extend demo_log
     \<lparr>dispatch_table_lock = Lock_Clear, Interrupt_Dispatch = replicate 256 (replicate 10 None),
      IDT = replicate 256 empty_gate, idtr = None, interrupts_on = True,
      kern = k, files = f, Keyboard_Device = 0, shift_held = False, cr4 = 0x20, flags_ac = False\<rparr>"

theorem smep_announced_not_enabled_witness:
  "\<forall>k f. \<exists>s'. memory_init demo_io (\<lambda>_. Ret) (\<lambda>_. (0, 0x100080, 0, 0)) (demo_boot_machine k f) = Ret s' \<and> cr4 s' = 0x20 \<and>
     fst (dev s') = ''Info:  SMEP enabled.'' @ [CHR 0x0A] @ ''Info:  SMAP enabled.'' @ [CHR 0x0A]"
proof (intro allI)
  fix k f
  let ?s = "demo_boot_machine k f"
  have d: "vga_ok ?s" "Log_Global_Level ?s \<le> Log_Info" "dev ?s = ([], 0)" "cr4 ?s = 0x20"
    by (simp_all add: demo_boot_machine_def machine.defs irq.defs log_state.defs demo_log_def vga.defs blank_vga_def vga_ok_def vga_consts)
  have b: "0x100080 AND CPUID_SMEP \<noteq> 0" "0x100080 AND CPUID_SMAP \<noteq> 0" by (simp_all add: CPUID_SMEP_def CPUID_SMAP_def)
  show "\<exists>s'. memory_init demo_io (\<lambda>_. Ret) (\<lambda>_. (0, 0x100080, 0, 0)) ?s = Ret s' \<and> cr4 s' = 0x20 \<and>
     fst (dev s') = ''Info:  SMEP enabled.'' @ [CHR 0x0A] @ ''Info:  SMAP enabled.'' @ [CHR 0x0A]"
    using smep_announced_not_enabled [OF demo_ready d(1,2), of "\<lambda>_. (0, 0x100080, 0, 0)" 0 "0x100080" 0 0 "\<lambda>_. Ret"] b d(3,4) by simp
qed

text \<open>Surroundings with one module of zeros.\<close>

definition demo_env :: "(string \<times> nat, nat) boot_env" where
  "demo_env = \<lparr>ports = demo_io, warning = \<lambda>_. Ret, cpu_id = \<lambda>_. (0, 0, 0, 0), cpu_ticks = 0, cpu_random = demo_cpu_noise,
     logo = ''The Kernel of Truth'', ISRs_at = replicate 256 0, IDT_at = 0, boot_map = 0x200000, kernel_end = 0xffffffff80200000,
     switch_at = 0, init_stack = 0, junk_hash = demo_hash_state, Kernel_Public_Key = replicate 32 0,
     module_image = \<lambda>_. replicate 80 0, module_call = \<lambda>f s. Ret (Ok, s), kernel_symbols = [],
     file_call = \<lambda>_ _. Ret, dev_path_at = 0, VGA_at = 0, vga_free_fun = 0\<rparr>"

definition demo_tables :: multiboot_info where
  "demo_tables = \<lparr>mods_count = 1, mods_addr = 0, mmap_length = 0,
     modules = [\<lparr>mod_start = 0x100000, mod_end = 0x100050\<rparr>], mmap_entries = []\<rparr>"

end
