(* ===== verification/Cpuid_Tool.thy ===== *)
theory Cpuid_Tool
  imports Truesign
begin

text \<open>
  \<open>tools/cpuid.c\<close>: print what the processor answers for a leaf. The instruction is the argument \<open>cpuid\<close>; \<open>strtol\<close>
  is that of the C library for the base 0, which takes the base from the prefix, on strings without leading blanks, with \<open>errno\<close>
  zero before.
\<close>

datatype errno = No_Error | ERANGE

definition digit_of :: "nat \<Rightarrow> char \<Rightarrow> nat option" where
  "digit_of base c =
     (let v = (if c \<in> set ''0123456789'' then of_char c - 48
               else if c \<in> set ''abcdef'' then of_char c - 87
               else if c \<in> set ''ABCDEF'' then of_char c - 55 else 16)
      in if v < base then Some v else None)"

fun read_digits :: "nat \<Rightarrow> nat \<Rightarrow> string \<Rightarrow> nat" where
  "read_digits base acc [] = acc"
| "read_digits base acc (c # cs) =
     (case digit_of base c of None \<Rightarrow> acc | Some d \<Rightarrow> read_digits base (base * acc + d) cs)"

definition read_prefixed :: "string \<Rightarrow> nat" where
  "read_prefixed cs =
     (if take 2 cs \<in> {''0x'', ''0X''} then read_digits 16 0 (drop 2 cs)
      else if take 1 cs = ''0'' then read_digits 8 0 cs else read_digits 10 0 cs)"

definition strtol :: "string \<Rightarrow> int \<times> errno" where
  "strtol cs =
     (let v = (if take 1 cs = ''-'' then - int (read_prefixed (drop 1 cs))
               else if take 1 cs = ''+'' then int (read_prefixed (drop 1 cs)) else int (read_prefixed cs))
      in if v > 2 ^ 63 - 1 then (2 ^ 63 - 1, ERANGE) else if v < - (2 ^ 63) then (- (2 ^ 63), ERANGE) else (v, No_Error))"

definition EXIT_SUCCESS :: int where "EXIT_SUCCESS = 0"
definition EXIT_FAILURE :: int where "EXIT_FAILURE = 1"

text \<open>The last \<open>n\<close> hexadecimal digits: \<open>%08x\<close> prints eight for a register.\<close>

primrec hex_text :: "nat \<Rightarrow> nat \<Rightarrow> string" where
  "hex_text 0 v = []"
| "hex_text (Suc n) v = hex_text n (v div 16) @ [hex_digit (v mod 16)]"

definition register_line :: "string \<Rightarrow> u32 \<Rightarrow> string" where
  "register_line name w = name @ '': '' @ hex_text 8 (unat w)"

text \<open>The exit status and the lines on the standard output after the first one, which repeats the number. \<open>EINVAL\<close> is
  not set for the base 0.\<close>

definition cpuid_main :: "(u32 \<Rightarrow> u32 \<times> u32 \<times> u32 \<times> u32) \<Rightarrow> string list \<Rightarrow> int \<times> string list" where
  "cpuid_main cpuid argv =
     (if length argv \<noteq> 2 then (EXIT_FAILURE, [])
      else
        (let (leaf, err) = strtol (argv ! 1) in
         if err = ERANGE \<or> leaf > 2 ^ 31 - 1 \<or> leaf < - (2 ^ 31) then (EXIT_FAILURE, [])
         else
           (let (eax, ebx, ecx, edx) = cpuid (word_of_int leaf)
            in (EXIT_SUCCESS, [register_line ''EAX'' eax, register_line ''EBX'' ebx, register_line ''ECX'' ecx, register_line ''EDX'' edx]))))"

subsection \<open>Numbers\<close>

lemma digit_of_hex: "n < 16 \<Longrightarrow> digit_of 16 (hex_digit n) = Some n"
proof -
  have "list_all (\<lambda>n. digit_of 16 (hex_digit n) = Some n) [0..<16]" by code_simp
  then show "n < 16 \<Longrightarrow> digit_of 16 (hex_digit n) = Some n" by (simp add: list_all_iff del: upt_rec_numeral)
qed

lemma read_hex: "read_digits 16 acc (hex_text n v @ cs) = read_digits 16 (16 ^ n * acc + v mod 16 ^ n) cs"
proof (induction n arbitrary: v cs)
  case (Suc n)
  have "v mod 16 ^ Suc n = 16 * (v div 16 mod 16 ^ n) + v mod 16" by (simp add: mod_mult2_eq)
  then show ?case using Suc [of "v div 16" "hex_digit (v mod 16) # cs"] by (simp add: digit_of_hex algebra_simps)
qed simp

lemma strtol_hex: "strtol (''0x'' @ hex_text 8 (unat w)) = (uint w, No_Error)" for w :: u32
proof -
  have u: "unat w < 2 ^ 32" using unsigned_less [of w, where ?'a = nat] by simp
  then have "unat w mod 16 ^ 8 = unat w" by (intro mod_less) simp
  then have "read_digits 16 0 (hex_text 8 (unat w)) = unat w" using read_hex [of 0 8 "unat w" "[]"] by simp
  then have "read_prefixed (''0x'' @ hex_text 8 (unat w)) = unat w" by (simp add: read_prefixed_def)
  moreover have "uint w < 2 ^ 32" using uint_lt2p [of w] by simp
  moreover have "- 9223372036854775808 \<le> uint w" using uint_ge_0 [of w] by linarith
  ultimately show ?thesis by (simp add: strtol_def Let_def not_less)
qed

text \<open>Every leaf can be written as \<open>0x\<close> and the eight digits that the tool itself prints for a register. It
  asks for exactly that leaf if it is below \<open>2 ^ 31\<close>; the extended leaves, from \<open>0x80000000\<close> on, are refused.\<close>

theorem cpuid_tool_reads_leaf:
  "cpuid_main cpuid [prog, ''0x'' @ hex_text 8 (unat w)] =
    (if w < 0x80000000 then
       (case cpuid w of (eax, ebx, ecx, edx) \<Rightarrow>
          (0, [''EAX: '' @ hex_text 8 (unat eax), ''EBX: '' @ hex_text 8 (unat ebx),
               ''ECX: '' @ hex_text 8 (unat ecx), ''EDX: '' @ hex_text 8 (unat edx)]))
     else (1, []))"
proof -
  have "uint w > 2 ^ 31 - 1 \<longleftrightarrow> \<not> w < 0x80000000" by (auto simp: word_less_def)
  moreover have "- (2 ^ 31) \<le> (0 :: int)" by simp
  then have "\<not> uint w < - (2 ^ 31)" using uint_ge_0 [of w] by (simp only: not_less order_trans)
  ultimately show ?thesis
    using strtol_hex [of w] by (auto simp: cpuid_main_def register_line_def EXIT_SUCCESS_def EXIT_FAILURE_def split: prod.splits)
qed

end
