(* ===== verification/Spec2Isabelle.thy ===== *)
theory Spec2Isabelle
  imports Prelude Kstring Klock Region_Vector Hashtable Symbols Paging Physical_Allocator Slab Heap Kernel_Tables Format Vga Serial Scheduler Page_Tables Process Sha512 Field25519 Group25519 Scalar25519 Interrupts Files Devices Krandom Containers Ed25519 Elf Modules Truesign Base_Tables Base_Points Boot Cpuid_Tool
begin

text \<open>
  Kernel of Truth is a small x86-64 kernel in C. This library models its own code function by
  function and proves what the functions do. All paths below are relative to \<open>src/\<close>.

  \<^bold>\<open>The program.\<close> \<open>kernel/core/main.c\<close> starts the parts one after the other. The boot loader's
  memory map fills the physical page allocator; the page tables map the kernel's half of the
  address space; the slab allocator hands out mapped virtual pages and the heap cuts them into
  blocks with red zones. Both keep their free ranges in region vectors. On the heap live the
  open addressing hash tables, one for the symbols of the kernel and one for the processes by
  their number, the reference counted processes and threads, and the ring of ready threads that
  the scheduler walks. Every shared structure is guarded by a reader/writer spin lock. Messages go
  through the formatter and the log to the serial line, and to the text console. Interrupts reach
  their handlers through a table; the timer switches threads and the keyboard draws on the console.
  Kernel modules are ELF files; they are accepted when their Ed25519 signature, computed with
  SHA-512 and the arithmetic modulo \<open>2 ^ 255 - 19\<close>, is that of the key built into the kernel.
  \<open>tools/truesign.c\<close> makes the keys and the signatures on the machine that builds the kernel.

  \<^bold>\<open>How it is modelled.\<close> A C function is a HOL function that takes the state it can reach and
  returns an outcome of type \<open>res\<close> (\<open>Prelude\<close>): \<open>Ret\<close> with the result and the new state,
  \<open>Panic\<close> where an assertion fails or the kernel halts on purpose, \<open>Fault\<close> where the processor
  would trap or C leaves the access undefined (null pointers, indices beyond an array), and \<open>Hang\<close>
  where a loop never ends, such as a second acquisition of a spin lock by the same thread.
  Unsigned integers are words of their width and wrap around; the signed limbs of the field
  arithmetic are integers with the wrap-around written out. Loops are structural recursions or
  recursions with a termination proof; a loop that may run for ever is a partial function into
  \<open>option\<close>, or has its fuel bounded by what the loop counts (the slots of a table, the
  pages of a range), so that running out of it is impossible or is the outcome \<open>Hang\<close>. Pointers
  into arrays are indices; threads, processes and objects live in stores indexed by their
  address; the page tables live in a physical memory of bytes and are reached through the
  fractal mapping, as in the code.

  \<^bold>\<open>The theories.\<close>
  \<^item> \<open>Prelude\<close>: outcomes, machine integers, the macros of \<open>include/truth/types.h\<close> and
    \<open>include/truth/memory.h\<close>, and the lemmas on lists, words and counting loops that the others share.
  \<^item> \<open>Kstring\<close> (\<open>kernel/core/string.c\<close>): memory and string routines over a memory of bytes.
    \<open>memmove\<close> copies overlapping blocks correctly; \<open>memcmp\<close>, \<open>strncmp\<close> decide equality;
    \<open>strlen\<close> returns exactly when there is a NUL.
  \<^item> \<open>Klock\<close> (\<open>kernel/core/lock.c\<close>, \<open>kernel/core/object.c\<close>): the lock alone and, as a step
    relation over any number of threads, one atomic access at a time; reference counting is exact.
  \<^item> \<open>Region_Vector\<close> (\<open>kernel/core/region_vector.c\<close>): free ranges. The locale \<open>region_pool\<close> is the
    contract of such a pool, over the bytes it owns; handed out blocks never overlap. A vector inside
    a larger state (\<open>vector_in_state\<close>) meets it; \<open>Slab\<close> and \<open>Heap\<close> interpret that for their vectors,
    with the slab allocator that extends a full vector.
  \<^item> \<open>Hashtable\<close> (\<open>kernel/core/hashtable.c\<close>): the locale \<open>hash_keys\<close> has what the table expects of
    a hash and a comparison function; within it insertion, growth, lookup and removal are shown to
    refine a finite map. It is interpreted for strings (\<open>strs\<close>) here and for process numbers
    (\<open>pids\<close>) in \<open>Process\<close>. \<open>Symbols\<close> (\<open>kernel/core/symbols.c\<close>) fills such a table. What the
    tables expect of \<open>kmalloc\<close> and \<open>kfree\<close> is the locale \<open>table_heap\<close>; \<open>Kernel_Tables\<close> interprets it
    with the heap of the kernel, where there is room in the pages of its records.
  \<^item> \<open>Paging\<close>, \<open>Page_Tables\<close> (\<open>kernel/arch/x64/paging.c\<close>): mapping, unmapping and reading pages,
    and whole tables. The locale \<open>frame_source\<close> is what the page tables expect of the frame
    allocator; \<open>Physical_Allocator\<close> (\<open>kernel/core/physical_allocator.c\<close>) interprets it with its
    stack of free blocks kept inside the free frames themselves.
  \<^item> \<open>Slab\<close>, \<open>Heap\<close> (\<open>kernel/core/slab.c\<close>, \<open>kernel/core/heap.c\<close>): allocation of pages and of
    blocks, on top of the three before, for every size; the heap detects a write past a block when it
    is freed.
  \<^item> \<open>Format\<close>, \<open>Serial\<close>, \<open>Vga\<close> (\<open>kernel/core/format.c\<close>, \<open>kernel/core/log.c\<close>,
    \<open>kernel/device/serial.c\<close>, \<open>kernel/device/vga.c\<close>): formatted output into any file that meets
    the locale \<open>text_sink\<close>, against a description of formats and numerals of its own; the file of the
    serial line, which meets it, the log on that line, and the console as an abstract terminal.
  \<^item> \<open>Scheduler\<close>, \<open>Process\<close> (\<open>kernel/core/scheduler.c\<close>, \<open>kernel/core/process.c\<close>,
    \<open>kernel/arch/x64/arch_process.c\<close>): the ring of threads, the context switch, processes and
    threads and their first stack frame.
  \<^item> \<open>Sha512\<close>, \<open>Field25519\<close>, \<open>Group25519\<close> (\<open>kernel/crypto\<close>): the hash is that of FIPS 180-4
    however the message is cut; field operations stay within the limbs' bounds and compute modulo
    \<open>2 ^ 255 - 19\<close>; group operations follow the addition law of the curve. \<open>Scalar25519\<close>: the
    arithmetic modulo the order of the group. \<open>Base_Tables\<close>, \<open>Base_Points\<close> (\<open>include/crypto/base.h\<close>,
    \<open>base2.h\<close>): the tables themselves, what is selected from them for a scalar,
    and which multiples of the base point the entries of \<open>Bi\<close> and of the first row of \<open>base\<close> are.
  \<^item> \<open>Ed25519\<close> (\<open>kernel/crypto/ed25519\<close>, \<open>kernel/crypto/truth_shims.c\<close>): keys, signing and verifying,
    shown equal to the equations of the signature scheme over the operations of the theories before.
  \<^item> \<open>Elf\<close>, \<open>Modules\<close> (\<open>kernel/core/elf.c\<close>, \<open>kernel/core/module.c\<close>): reading, relocating and linking
    modules, and loading them; no function of a module without a good signature is called.
    \<open>Truesign\<close> (\<open>tools/truesign.c\<close>): what it signs has the layout and the signature the kernel asks for.
  \<^item> \<open>Interrupts\<close>, \<open>Devices\<close> (\<open>kernel/arch/x64\<close>, \<open>kernel/device\<close>): descriptor tables, the interrupt
    controllers, the dispatcher with its handlers as a multiset for each vector, the timer, the keyboard
    and the clock.
  \<^item> \<open>Files\<close> (\<open>kernel/core/file.c\<close>): the tree of files. \<open>Krandom\<close> (\<open>kernel/core/jitter.c\<close>,
    \<open>entropy.c\<close>, \<open>mt19937_64.c\<close>, \<open>random.c\<close>): entropy and random numbers. \<open>Containers\<close>
    (\<open>kernel/core/bitmap.c\<close>, \<open>sorted_list.c\<close>): two containers that have no caller.
  \<^item> \<open>Boot\<close> (\<open>kernel/core/main.c\<close>, \<open>kernel/arch/x64/memory.c\<close>, \<open>kernel/core/ubsan.c\<close> and others): the
    start of the kernel, all the parts on one shared heap, and the functions that halt it. \<open>Cpuid_Tool\<close>
    (\<open>tools/cpuid.c\<close>): a program that prints what the processor answers for a leaf.
  The property that spans the signatures, the modules and the start is at the end of this theory.

  \<^bold>\<open>Flaws.\<close> Where the code does not do what it means to, the model has what it does, and a
  theorem shows the consequence: a writer that waits for a lock never gets it, removing the running
  thread breaks the next switch, \<open>container_of\<close> misses its object, \<open>page_table_clone\<close> always
  halts, the first file attached to a directory is refused, \<open>file_from_path\<close> does not look at names,
  \<open>kmalloc\<close> hands out a few bytes for a size close to \<open>2 ^ 64\<close>, a process can be in the pool
  although naming it failed, looking up a section can read past the end of the file, decimal numbers
  lose their leading digits, \<open>truesign\<close> never accepts a key of the right length and crashes when a file is missing, and the
  start-up announces SMEP and SMAP as enabled and leaves the control register as it was.

  \<^bold>\<open>Parameters.\<close> What the device ports, \<open>cpuid\<close>, \<open>rdrand\<close> and the time stamp counter answer, the
  symbol table and the public key the build embeds, the address of assembly entry points, the boot
  loader's memory map and the files it loads, what the functions of a loaded module do, the
  uninitialised hash state on the stack, and the files and the memory of the machine that runs the
  tools are arguments of the definitions that use them (the record \<open>boot_env\<close> for the start of the
  kernel). The tables of multiples of the base point are arguments of \<open>Group25519\<close> and \<open>Ed25519\<close>;
  \<open>Base_Tables\<close> and \<open>Boot\<close> apply these theories to the real tables.

  \<^bold>\<open>Not modelled.\<close> The assembly files, which fix registers and not logic, except for the stack
  switch; instructions that only flush caches; the vendored headers of \<open>include/external\<close> beyond the
  structures the kernel reads; the loadable modules in D and the start of a file system beside them,
  which nothing in the kernel calls. Rows 1 to 31 of \<open>base\<close> are modelled and bounded, but not shown to
  hold the multiples they are meant to, nor is the associativity of the addition law, so of the scalar
  multiplications it is shown how they recode their scalar and what they select from the tables, not that they are homomorphisms.
  Caches, weak memory order and devices that write to memory by themselves are outside the model.
\<close>

subsection \<open>A kernel with an unsigned module does not start\<close>

text \<open>(C18) If the boot loader hands the kernel a module that is not signed with its key, \<open>modules_init\<close> does not
  return \<open>Ok\<close>, wherever the module stands in the list, and \<open>kernel_main\<close> never gets to the point where it waits for interrupts: the module is rejected, the status of that rejection survives the
  modules after it, and the kernel halts on it, unless it has stopped before. This rests on the
  signature check, on the loading of modules and on the shared heap of all the parts.\<close>

theorem unsigned_module_stops_boot:
  assumes "\<exists>mo \<in> set (take (unat (mods_count info)) (modules info)). unsigned_module env mo"
  shows "kernel_main env info k \<noteq> Ret k' \<and>
    (\<forall>s st s'. modules_init ed25519_Bi (junk_hash env) (Kernel_Public_Key env) (cpu_random env) (module_image env)
       (module_call env) (kernel_symbols env) info s = Ret (st, s') \<longrightarrow> st \<noteq> Ok)"
proof (intro conjI allI impI)
  show "kernel_main env info k \<noteq> Ret k'"
    using boot_modules_fails [OF assms] by (auto simp: kernel_main_def res_bind_Ret_iff)
next
  fix s st s'
  assume "modules_init ed25519_Bi (junk_hash env) (Kernel_Public_Key env) (cpu_random env) (module_image env)
    (module_call env) (kernel_symbols env) info s = Ret (st, s')"
  from modules_init_fails [OF this] assms show "st \<noteq> Ok" by (auto simp: unsigned_module_def)
qed

theorem unsigned_module_stops_boot_witness: "\<forall>k k'. kernel_main demo_env demo_tables k \<noteq> Ret k'"
proof -
  have "unsigned_module demo_env \<lparr>mod_start = 0x100000, mod_end = 0x100050\<rparr>"
    by (simp add: unsigned_module_def demo_env_def signed_by_def)
  then have "\<exists>mo \<in> set (take (unat (mods_count demo_tables)) (modules demo_tables)). unsigned_module demo_env mo"
    by (simp add: demo_tables_def)
  from unsigned_module_stops_boot [OF this] show ?thesis by blast
qed

end
